(* ===== verification/C_Prelude.thy ===== *)
theory C_Prelude
  imports Main "HOL-Library.Word"
begin

text \<open>
  Shared vocabulary of the development: the fixed-width integers of the firmware's C code,
  bounds-checked array accesses, and the generic interfaces (locales) that the
  component theories interpret on their own operations.

  The firmware runs on a 32-bit ARM target: \<open>int\<close> and \<open>unsigned\<close> have 32 bits. Unsigned
  types are words, whose arithmetic wraps as C prescribes. Arithmetic on operands narrower
  than \<open>int\<close> is done after promotion, so where the code compares \<open>seq\<close> with
  \<open>current_wp_id + 1\<close> the model compares integers and not wrapped 16-bit words.
\<close>

type_synonym u8 = "8 word"
type_synonym u16 = "16 word"
type_synonym u32 = "32 word"
type_synonym u64 = "64 word"

text \<open>A \<open>float\<close> that the modelled code only stores and forwards is kept as its bit pattern.\<close>

type_synonym float_bits = "32 word"

text \<open>The return codes of \<open>nuttx/include/sys/types.h\<close>.\<close>

definition OK :: int where "OK = 0"
definition ERROR :: int where "ERROR = -1"

section \<open>Arrays\<close>

text \<open>
  C does not check array bounds. A read or write outside the array is \<open>None\<close>
  in the model, so that every theorem about a result also says that no access was out of range.
\<close>

definition array_get :: "'a list \<Rightarrow> nat \<Rightarrow> 'a option" where
  "array_get xs i = (if i < length xs then Some (xs ! i) else None)"

definition array_set :: "'a list \<Rightarrow> nat \<Rightarrow> 'a \<Rightarrow> 'a list option" where
  "array_set xs i v = (if i < length xs then Some (xs[i := v]) else None)"

lemma array_get_in [simp]: "i < length xs \<Longrightarrow> array_get xs i = Some (xs ! i)"
  by (simp add: array_get_def)

lemma array_set_in [simp]: "i < length xs \<Longrightarrow> array_set xs i v = Some (xs[i := v])"
  by (simp add: array_set_def)

lemma array_get_out [simp]: "length xs \<le> i \<Longrightarrow> array_get xs i = None"
  by (simp add: array_get_def)

lemma array_set_out [simp]: "length xs \<le> i \<Longrightarrow> array_set xs i v = None"
  by (simp add: array_set_def)

lemma array_set_length: "array_set xs i v = Some ys \<Longrightarrow> length ys = length xs"
  by (auto simp: array_set_def split: if_splits)

lemma array_get_Some_iff: "array_get xs i = Some v \<longleftrightarrow> i < length xs \<and> xs ! i = v"
  by (auto simp: array_get_def)

lemma array_set_Some_iff: "array_set xs i v = Some ys \<longleftrightarrow> i < length xs \<and> ys = xs[i := v]"
  by (auto simp: array_set_def)

section \<open>State machines\<close>

text \<open>
  The interface of a component that reacts to events one at a time. A step may fail
  (\<open>None\<close>): the code performed an access outside its memory, or stopped the machine.
  The contract is an invariant that holds initially and that every successful step
  on an admissible event keeps. The locale's lemmas lift it to whole runs.
\<close>

fun run_steps :: "('e \<Rightarrow> 's \<Rightarrow> 's option) \<Rightarrow> 'e list \<Rightarrow> 's \<Rightarrow> 's option" where
  "run_steps step [] s = Some s"
| "run_steps step (e # es) s =
     (case step e s of None \<Rightarrow> None | Some s' \<Rightarrow> run_steps step es s')"

lemma run_steps_append:
  "run_steps step (es @ fs) s =
     (case run_steps step es s of None \<Rightarrow> None | Some s' \<Rightarrow> run_steps step fs s')"
  by (induction es arbitrary: s) (auto split: option.splits)

lemma run_steps_snoc:
  "run_steps step es s = Some t \<Longrightarrow> step e t = Some u \<Longrightarrow> run_steps step (es @ [e]) s = Some u"
  by (simp add: run_steps_append)

locale event_machine =
  fixes step :: "'e \<Rightarrow> 's \<Rightarrow> 's option"
    and start :: "'s \<Rightarrow> bool"
    and inv :: "'s \<Rightarrow> bool"
    and ok :: "'e \<Rightarrow> bool"
  assumes inv_start: "start s \<Longrightarrow> inv s"
    and inv_step: "inv s \<Longrightarrow> ok e \<Longrightarrow> step e s = Some s' \<Longrightarrow> inv s'"
begin

lemma inv_run_from: "inv s \<Longrightarrow> list_all ok es \<Longrightarrow> run_steps step es s = Some s' \<Longrightarrow> inv s'"
  by (induction es arbitrary: s) (auto split: option.splits dest: inv_step)

lemma inv_run: "start s \<Longrightarrow> list_all ok es \<Longrightarrow> run_steps step es s = Some s' \<Longrightarrow> inv s'"
  by (blast intro: inv_start inv_run_from)

end

text \<open>
  A safe machine adds progress: where the invariant holds no admissible event makes a
  step fail.
\<close>

locale safe_machine = event_machine +
  assumes progress: "inv s \<Longrightarrow> ok e \<Longrightarrow> \<exists>s'. step e s = Some s'"
begin

lemma run_safe_from:
  "inv s \<Longrightarrow> list_all ok es \<Longrightarrow> \<exists>s'. run_steps step es s = Some s' \<and> inv s'"
proof (induction es arbitrary: s)
  case Nil
  then show ?case by simp
next
  case (Cons e es)
  then obtain t where t: "step e s = Some t"
    using progress by fastforce
  with Cons.prems have "inv t" by (auto intro: inv_step)
  with Cons t show ?case by simp
qed

lemma run_safe: "start s \<Longrightarrow> list_all ok es \<Longrightarrow> \<exists>s'. run_steps step es s = Some s' \<and> inv s'"
  by (blast intro: inv_start run_safe_from)

end

text \<open>
  A refined machine also comes with an abstract state that a total function on the abstract
  states describes: runs are folds of that function.
\<close>

locale refined_machine = safe_machine +
  fixes abs :: "'b \<Rightarrow> 'c"
    and spec :: "'a \<Rightarrow> 'c \<Rightarrow> 'c"
  assumes abs_step: "inv s \<Longrightarrow> ok e \<Longrightarrow> step e s = Some s' \<Longrightarrow> abs s' = spec e (abs s)"
begin

lemma run_refines_from:
  "inv s \<Longrightarrow> list_all ok es \<Longrightarrow>
   \<exists>s'. run_steps step es s = Some s' \<and> inv s' \<and> abs s' = fold spec es (abs s)"
proof (induction es arbitrary: s)
  case Nil
  then show ?case by simp
next
  case (Cons e es)
  then obtain t where t: "step e s = Some t"
    using progress by fastforce
  with Cons.prems have "inv t" "abs t = spec e (abs s)" by (auto intro: inv_step abs_step)
  with Cons t show ?case by fastforce
qed

lemma run_refines:
  "start s \<Longrightarrow> list_all ok es \<Longrightarrow>
   \<exists>s'. run_steps step es s = Some s' \<and> inv s' \<and> abs s' = fold spec es (abs s)"
  by (blast intro: inv_start run_refines_from)

end

end
