(* ===== verification/Float32.thy ===== *)
theory Float32
  imports C_Prelude
begin

unbundle bit_operations_syntax

text \<open>
  The single-precision \<open>float\<close> operations the modelled C code uses, on bit patterns:
  comparisons, the conversions to and from integers, and the four operations, with IEEE 754
  rounding to nearest, ties to even. They are language semantics and carry no map entry.
  A NaN result is the default quiet NaN.
\<close>

definition f32_is_nan :: "float_bits \<Rightarrow> bool" where
  "f32_is_nan x \<longleftrightarrow> 0x7F800000 < x AND 0x7FFFFFFF"

definition f32_is_inf :: "float_bits \<Rightarrow> bool" where
  "f32_is_inf x \<longleftrightarrow> x AND 0x7FFFFFFF = 0x7F800000"

definition f32_neg :: "float_bits \<Rightarrow> bool" where
  "f32_neg x \<longleftrightarrow> 0x80000000 \<le> x"

text \<open>The order of the numbers as an integer key: both zeros have key 0.\<close>

definition f32_key :: "float_bits \<Rightarrow> int" where
  "f32_key x = (let m = uint (x AND 0x7FFFFFFF) in if f32_neg x then - m else m)"

definition f32_le :: "float_bits \<Rightarrow> float_bits \<Rightarrow> bool" where
  "f32_le a b \<longleftrightarrow> \<not> f32_is_nan a \<and> \<not> f32_is_nan b \<and> f32_key a \<le> f32_key b"

definition f32_lt :: "float_bits \<Rightarrow> float_bits \<Rightarrow> bool" where
  "f32_lt a b \<longleftrightarrow> \<not> f32_is_nan a \<and> \<not> f32_is_nan b \<and> f32_key a < f32_key b"

text \<open>A float used as a truth value: true unless it is a zero.\<close>

definition f32_true :: "float_bits \<Rightarrow> bool" where
  "f32_true x \<longleftrightarrow> x AND 0x7FFFFFFF \<noteq> 0"

text \<open>A finite float is \<open>mant * 2 ^ expo\<close> up to its sign.\<close>

definition f32_field :: "float_bits \<Rightarrow> int" where
  "f32_field x = uint (drop_bit 23 x AND 255)"

definition f32_mant :: "float_bits \<Rightarrow> int" where
  "f32_mant x = uint (x AND 0x7FFFFF) + (if f32_field x = 0 then 0 else 2 ^ 23)"

definition f32_expo :: "float_bits \<Rightarrow> int" where
  "f32_expo x = (if f32_field x = 0 then -149 else f32_field x - 150)"

text \<open>Conversion to an integer truncates; NaN and the infinities have no integer value.\<close>

definition f32_to_int :: "float_bits \<Rightarrow> int option" where
  "f32_to_int x =
     (if f32_is_nan x \<or> f32_is_inf x then None
      else let e = f32_expo x; m = f32_mant x;
               v = (if 0 \<le> e then m * 2 ^ nat e else m div 2 ^ nat (- e))
           in Some (if f32_neg x then - v else v))"

function bit_count :: "int \<Rightarrow> int" where
  "bit_count n = (if n \<le> 0 then 0 else 1 + bit_count (n div 2))"
  by pat_completeness auto
termination
  by (relation "measure nat") auto

declare bit_count.simps [simp del]

text \<open>
  Rounding of \<open>m * 2 ^ k\<close> for \<open>m\<close> not negative: keep 24 bits (fewer for subnormal results),
  round to nearest, ties to even, and pack. A carry out of the mantissa moves into the
  exponent field by itself; too large an exponent gives an infinity.
\<close>

definition f32_pack :: "bool \<Rightarrow> int \<Rightarrow> int \<Rightarrow> float_bits" where
  "f32_pack s k m =
     word_of_int (min ((k + 149) * 2 ^ 23 + m) 0x7F800000 + (if s then 2 ^ 31 else 0))"

definition f32_round :: "bool \<Rightarrow> int \<Rightarrow> int \<Rightarrow> float_bits" where
  "f32_round s m k =
     (if m = 0 then f32_pack s (-149) 0
      else let d = max (bit_count m - 24) (- 149 - k)
           in if d \<le> 0 then f32_pack s (k + d) (m * 2 ^ nat (- d))
              else let p = 2 ^ nat d; q = m div p; r = m mod p
                   in f32_pack s (k + d) (if p < 2 * r \<or> (p = 2 * r \<and> odd q) then q + 1 else q))"

definition f32_mul :: "float_bits \<Rightarrow> float_bits \<Rightarrow> float_bits" where
  "f32_mul a b =
     (if f32_is_nan a \<or> f32_is_nan b then 0x7FC00000
      else let s = (f32_neg a \<noteq> f32_neg b)
           in if f32_is_inf a \<or> f32_is_inf b
              then (if f32_true a \<and> f32_true b then f32_pack s 106 0 else 0x7FC00000)
              else f32_round s (f32_mant a * f32_mant b) (f32_expo a + f32_expo b))"

definition f32_of_int :: "int \<Rightarrow> float_bits" where
  "f32_of_int n = f32_round (n < 0) \<bar>n\<bar> 0"

text \<open>
  Sums are exact before the rounding. A zero sum is positive unless both operands are negative
  (zeros). Quotients keep 40 bits or more and a bit that tells whether the rest is zero,
  which is all the rounding looks at.
\<close>

definition f32_signed :: "float_bits \<Rightarrow> int" where
  "f32_signed x = (if f32_neg x then - f32_mant x else f32_mant x)"

definition f32_add :: "float_bits \<Rightarrow> float_bits \<Rightarrow> float_bits" where
  "f32_add a b =
     (if f32_is_nan a \<or> f32_is_nan b then 0x7FC00000
      else if f32_is_inf a then (if f32_is_inf b \<and> f32_neg a \<noteq> f32_neg b then 0x7FC00000 else a)
      else if f32_is_inf b then b
      else let e = min (f32_expo a) (f32_expo b);
               v = f32_signed a * 2 ^ nat (f32_expo a - e) + f32_signed b * 2 ^ nat (f32_expo b - e)
           in if v = 0 then f32_pack (f32_neg a \<and> f32_neg b) (-149) 0
              else f32_round (v < 0) \<bar>v\<bar> e)"

definition f32_sub :: "float_bits \<Rightarrow> float_bits \<Rightarrow> float_bits" where
  "f32_sub a b = f32_add a (b XOR 0x80000000)"

definition f32_div :: "float_bits \<Rightarrow> float_bits \<Rightarrow> float_bits" where
  "f32_div a b =
     (let s = (f32_neg a \<noteq> f32_neg b)
      in if f32_is_nan a \<or> f32_is_nan b \<or> (f32_is_inf a \<and> f32_is_inf b) \<or> \<not> (f32_true a \<or> f32_true b)
         then 0x7FC00000
         else if f32_is_inf a \<or> \<not> f32_true b then f32_pack s 106 0
         else if f32_is_inf b \<or> \<not> f32_true a then f32_pack s (-149) 0
         else let n = f32_mant a * 2 ^ 64; m = f32_mant b
              in f32_round s (2 * (n div m) + (if n mod m = 0 then 0 else 1))
                   (f32_expo a - f32_expo b - 65))"

lemma f32_lt_imp_le: "f32_lt a b \<Longrightarrow> f32_le a b"
  by (simp add: f32_lt_def f32_le_def)

lemma f32_le_trans: "f32_le a b \<Longrightarrow> f32_le b c \<Longrightarrow> f32_le a c"
  by (auto simp: f32_le_def)

lemma f32_le_total: "\<not> f32_is_nan a \<Longrightarrow> \<not> f32_is_nan b \<Longrightarrow> f32_le a b \<or> f32_lt b a"
  by (auto simp: f32_le_def f32_lt_def)

lemma f32_nan_incomparable:
  "f32_is_nan a \<Longrightarrow> \<not> f32_le a b" "f32_is_nan b \<Longrightarrow> \<not> f32_le a b"
  by (simp_all add: f32_le_def)

section \<open>Conversion to double precision and back\<close>

text \<open>
  Widening is exact; narrowing rounds. Doubles are 64-bit patterns; their fields are read off
  arithmetically.
\<close>

definition f64_neg :: "u64 \<Rightarrow> bool" where
  "f64_neg x \<longleftrightarrow> 2 ^ 63 \<le> uint x"

definition f64_field :: "u64 \<Rightarrow> int" where
  "f64_field x = uint x div 2 ^ 52 mod 2048"

definition f64_frac :: "u64 \<Rightarrow> int" where
  "f64_frac x = uint x mod 2 ^ 52"

definition f64_bits :: "bool \<Rightarrow> int \<Rightarrow> int \<Rightarrow> u64" where
  "f64_bits s e f = word_of_int ((if s then 2 ^ 63 else 0) + e * 2 ^ 52 + f)"

definition f64_of_f32 :: "float_bits \<Rightarrow> u64" where
  "f64_of_f32 x =
     (if f32_is_nan x then f64_bits False 2047 (2 ^ 51)
      else if f32_is_inf x then f64_bits (f32_neg x) 2047 0
      else if f32_mant x = 0 then f64_bits (f32_neg x) 0 0
      else let j = 53 - bit_count (f32_mant x)
           in f64_bits (f32_neg x) (f32_expo x - j + 1075) (f32_mant x * 2 ^ nat j - 2 ^ 52))"

definition f32_of_f64 :: "u64 \<Rightarrow> float_bits" where
  "f32_of_f64 x =
     (if f64_field x = 2047
      then (if f64_frac x = 0 then f32_pack (f64_neg x) 106 0 else 0x7FC00000)
      else if f64_field x = 0 then f32_round (f64_neg x) (f64_frac x) (-1074)
      else f32_round (f64_neg x) (2 ^ 52 + f64_frac x) (f64_field x - 1075))"

lemma uint_small:
  "0 \<le> v \<Longrightarrow> v < 2 ^ 64 \<Longrightarrow> uint (word_of_int v :: u64) = v"
  "0 \<le> v \<Longrightarrow> v < 2 ^ 32 \<Longrightarrow> uint (word_of_int v :: u32) = v"
  by (simp_all add: unsigned_of_int take_bit_int_eq_self)

lemma f64_bits_fields:
  assumes "0 \<le> e" "e < 2048" "0 \<le> f" "f < 2 ^ 52"
  shows "f64_neg (f64_bits s e f) = s" "f64_field (f64_bits s e f) = e" "f64_frac (f64_bits s e f) = f"
proof -
  let ?v = "(if s then 2 ^ 63 else 0) + e * 2 ^ 52 + f"
  have b: "0 \<le> ?v" "?v < 2 ^ 64" using assms by auto
  then have u: "uint (f64_bits s e f) = ?v"
    unfolding f64_bits_def by (rule uint_small)
  show "f64_neg (f64_bits s e f) = s" unfolding f64_neg_def u using assms by auto
  have "?v = f + ((if s then 2048 else 0) + e) * 2 ^ 52" by simp
  then have d: "?v div 2 ^ 52 = (if s then 2048 else 0) + e" "?v mod 2 ^ 52 = f"
    using assms(3,4) by (simp_all only: div_mult_self1 mod_mult_self1 div_pos_pos_trivial mod_pos_pos_trivial)
  show "f64_field (f64_bits s e f) = e" unfolding f64_field_def u d using assms(1,2) by simp
  show "f64_frac (f64_bits s e f) = f" unfolding f64_frac_def u d ..
qed

lemma bit_count_zero: "bit_count 0 = 0"
  by (simp add: bit_count.simps)

lemma bit_count_rec: "0 < n \<Longrightarrow> bit_count n = 1 + bit_count (n div 2)"
  by (subst bit_count.simps) simp

lemma bit_count_nonneg: "0 \<le> bit_count n"
  by (induction n rule: bit_count.induct) (simp add: bit_count.simps)

lemma bit_count_shift: "0 < m \<Longrightarrow> bit_count (m * 2 ^ j) = bit_count m + int j"
proof (induction j)
  case (Suc j)
  have "bit_count (m * 2 ^ Suc j) = 1 + bit_count (m * 2 ^ Suc j div 2)"
    using Suc.prems by (intro bit_count_rec) simp
  also have "m * 2 ^ Suc j div 2 = m * 2 ^ j" by simp
  finally show ?case using Suc by simp
qed simp

lemma bit_count_range:
  "0 < m \<Longrightarrow> 2 ^ nat (bit_count m - 1) \<le> m \<and> m < 2 ^ nat (bit_count m)"
proof (induction m rule: bit_count.induct)
  case (1 m)
  show ?case
  proof (cases "m = 1")
    case True
    then show ?thesis by (simp add: bit_count_rec bit_count_zero)
  next
    case False
    let ?b = "bit_count (m div 2)"
    have pos: "0 < m div 2" using 1 False by linarith
    then have ih: "2 ^ nat (?b - 1) \<le> m div 2" "m div 2 < 2 ^ nat ?b" using 1 by auto
    have b: "bit_count m = 1 + ?b" using 1 by (intro bit_count_rec) simp
    have b1: "1 \<le> ?b" using bit_count_rec [OF pos] bit_count_nonneg [of "m div 2 div 2"] by simp
    have e: "nat ?b = Suc (nat (?b - 1))" "nat (1 + ?b) = Suc (nat ?b)" using b1 by simp_all
    have "2 ^ nat ?b \<le> m" using ih(1) unfolding e(1) by simp
    moreover have "m < 2 ^ nat (1 + ?b)" using ih(2) unfolding e(2) by simp
    ultimately show ?thesis unfolding b by simp
  qed
qed

lemma bit_count_le: "0 < m \<Longrightarrow> m < 2 ^ n \<Longrightarrow> bit_count m \<le> int n"
proof -
  assume m: "0 < m" "m < 2 ^ n"
  then have "2 ^ nat (bit_count m - 1) \<le> m" using bit_count_range by blast
  then have "(2::int) ^ nat (bit_count m - 1) < 2 ^ n" using m(2) by (rule order_le_less_trans)
  then have "nat (bit_count m - 1) < n" by (rule power_less_imp_less_exp [rotated]) simp
  then show ?thesis by linarith
qed

lemma bit_count_ge: "2 ^ n \<le> m \<Longrightarrow> int n < bit_count m"
proof -
  assume m: "2 ^ n \<le> m"
  then have "0 < m" using zero_less_power [of "2::int" n] by linarith
  then have "m < 2 ^ nat (bit_count m)" using bit_count_range by blast
  with m have "(2::int) ^ n < 2 ^ nat (bit_count m)" by (rule order_le_less_trans)
  then have "n < nat (bit_count m)" by (rule power_less_imp_less_exp [rotated]) simp
  then show ?thesis by linarith
qed

text \<open>Rounding gives back what needs no rounding.\<close>

lemma f32_round_exact:
  assumes "0 < m" "bit_count m \<le> 24" "- 149 \<le> k" "bit_count m = 24 \<or> k = - 149"
  shows "f32_round s (m * 2 ^ j) (k - int j) = f32_pack s k m"
proof -
  have d: "max (bit_count (m * 2 ^ j) - 24) (- 149 - (k - int j)) = int j"
    using assms bit_count_shift [OF assms(1), of j] by auto
  have nz: "m * 2 ^ j \<noteq> 0" using assms(1) by simp
  show ?thesis
  proof (cases "j = 0")
    case True
    then show ?thesis using d nz unfolding f32_round_def Let_def by simp
  next
    case False
    then show ?thesis using d nz unfolding f32_round_def Let_def by simp
  qed
qed

text \<open>The fields of a single, arithmetically.\<close>

lemma f32_split:
  "f32_field x = uint x div 2 ^ 23 mod 256"
  "uint (x AND 0x7FFFFF) = uint x mod 2 ^ 23"
  "uint (x AND 0x7FFFFFFF) = uint x mod 2 ^ 31"
  "f32_neg x \<longleftrightarrow> 2 ^ 31 \<le> uint x"
proof -
  have m: "(255::u32) = mask 8" "(0x7FFFFF::u32) = mask 23" "(0x7FFFFFFF::u32) = mask 31"
    by (simp_all add: mask_eq_decr_exp)
  have t: "uint (w AND mask n) = uint w mod 2 ^ n" for w :: u32 and n
    unfolding take_bit_eq_mask [symmetric] unsigned_take_bit_eq by (simp only: take_bit_eq_mod)
  have d: "uint (drop_bit n w) = uint w div 2 ^ n" for w :: u32 and n
    unfolding unsigned_drop_bit_eq using uint_bounded [of w]
    by (simp add: drop_bit_eq_div take_bit_eq_mod)
  show "f32_field x = uint x div 2 ^ 23 mod 256"
    unfolding f32_field_def m t d by simp
  show "uint (x AND 0x7FFFFF) = uint x mod 2 ^ 23" unfolding m t ..
  show "uint (x AND 0x7FFFFFFF) = uint x mod 2 ^ 31" unfolding m t ..
  show "f32_neg x \<longleftrightarrow> 2 ^ 31 \<le> uint x"
    by (simp add: f32_neg_def word_le_def)
qed

lemma uint_parts:
  "uint x = (if f32_neg x then 2 ^ 31 else 0) + f32_field x * 2 ^ 23 + uint (x AND 0x7FFFFF)"
proof -
  let ?u = "uint x"
  have b: "0 \<le> ?u" "?u < 2 ^ 32" using uint_bounded [of x] by simp_all
  have A: "?u = ?u div 2 ^ 23 * 2 ^ 23 + ?u mod 2 ^ 23" by simp
  have "?u div 2 ^ 31 = ?u div 2 ^ 23 div 256" by (simp add: zdiv_zmult2_eq [symmetric])
  then have B: "?u div 2 ^ 23 = ?u div 2 ^ 31 * 256 + ?u div 2 ^ 23 mod 256" by simp
  have C: "?u div 2 ^ 31 = (if 2 ^ 31 \<le> ?u then 1 else 0)"
    using b by auto
  have regroup: "u = d * 2 ^ 23 + r \<Longrightarrow> d = t * 256 + e \<Longrightarrow> u = t * 2 ^ 31 + e * 2 ^ 23 + r"
    for u d r t e :: int by simp
  have "?u = (if 2 ^ 31 \<le> ?u then 1 else 0) * 2 ^ 31 + ?u div 2 ^ 23 mod 256 * 2 ^ 23 + ?u mod 2 ^ 23"
    using regroup [OF A B] unfolding C .
  then show ?thesis unfolding f32_split by (cases "2 ^ 31 \<le> ?u") simp_all
qed

lemma f32_finite_parts:
  assumes "\<not> f32_is_nan x" "\<not> f32_is_inf x"
  shows "0 \<le> f32_field x" "f32_field x < 255"
    "0 \<le> uint (x AND 0x7FFFFF)" "uint (x AND 0x7FFFFF) < 2 ^ 23"
proof -
  show p: "0 \<le> f32_field x" "0 \<le> uint (x AND 0x7FFFFF)" "uint (x AND 0x7FFFFF) < 2 ^ 23"
    unfolding f32_split by simp_all
  have "x AND 0x7FFFFFFF < 0x7F800000"
    using assms by (simp add: f32_is_nan_def f32_is_inf_def not_less order_less_le)
  then have "uint (x AND 0x7FFFFFFF) < 0x7F800000" by (simp add: word_less_def)
  moreover have "uint x mod 2 ^ 31 = uint x div 2 ^ 23 mod 256 * 2 ^ 23 + uint x mod 2 ^ 23"
    using zmod_zmult2_eq [of 256 "uint x" "2 ^ 23"] by simp
  ultimately have "f32_field x * 2 ^ 23 < 0x7F800000" using p(2) unfolding f32_split by linarith
  then show "f32_field x < 255" by simp
qed

lemma f32_pack_parts:
  assumes "\<not> f32_is_nan x" "\<not> f32_is_inf x"
  shows "f32_pack (f32_neg x) (f32_expo x) (f32_mant x) = x"
proof -
  note p = f32_finite_parts [OF assms]
  have v: "(f32_expo x + 149) * 2 ^ 23 + f32_mant x = f32_field x * 2 ^ 23 + uint (x AND 0x7FFFFF)"
    by (simp add: f32_expo_def f32_mant_def)
  have "f32_field x * 2 ^ 23 + uint (x AND 0x7FFFFF) \<le> 0x7F800000" using p by simp
  then have "f32_pack (f32_neg x) (f32_expo x) (f32_mant x) =
      word_of_int (f32_field x * 2 ^ 23 + uint (x AND 0x7FFFFF) + (if f32_neg x then 2 ^ 31 else 0))"
    unfolding f32_pack_def v by (cases "f32_neg x") (simp_all add: min_def)
  also have "\<dots> = word_of_int (uint x)" using uint_parts [of x] by (simp add: ac_simps)
  finally show ?thesis by simp
qed

lemma f32_is_inf_pack: "f32_is_inf x \<Longrightarrow> f32_pack (f32_neg x) 106 0 = x"
proof -
  assume i: "f32_is_inf x"
  then have m: "uint x mod 2 ^ 31 = 0x7F800000"
    unfolding f32_split(3) [symmetric] f32_is_inf_def by simp
  have b: "0 \<le> uint x" "uint x < 2 ^ 32" using uint_bounded [of x] by simp_all
  have "uint x = uint x div 2 ^ 31 * 2 ^ 31 + uint x mod 2 ^ 31" by simp
  moreover have "uint x div 2 ^ 31 = (if 2 ^ 31 \<le> uint x then 1 else 0)" using b by auto
  ultimately have "uint x = 0x7F800000 + (if f32_neg x then 2 ^ 31 else 0)"
    unfolding f32_split(4) m by auto
  then have "word_of_int (uint x) = (word_of_int (0x7F800000 + (if f32_neg x then 2 ^ 31 else 0)) :: u32)"
    by simp
  then show ?thesis by (cases "f32_neg x") (simp_all add: f32_pack_def)
qed

lemma f32_zero_mant: "f32_mant x = 0 \<Longrightarrow> f32_expo x = - 149"
  unfolding f32_mant_def f32_expo_def f32_split by (auto split: if_splits)

lemma f32_mant_bits:
  assumes "\<not> f32_is_nan x" "\<not> f32_is_inf x" "f32_mant x \<noteq> 0"
  shows "0 < f32_mant x" "bit_count (f32_mant x) \<le> 24" "- 149 \<le> f32_expo x" "f32_expo x \<le> 104"
    "bit_count (f32_mant x) = 24 \<or> f32_expo x = - 149"
proof -
  note p = f32_finite_parts [OF assms(1,2)]
  have "0 \<le> f32_mant x" using p by (simp add: f32_mant_def)
  with assms(3) show pos: "0 < f32_mant x" by linarith
  have "f32_mant x < 2 ^ 24" using p by (simp add: f32_mant_def)
  then show le: "bit_count (f32_mant x) \<le> 24" using bit_count_le [OF pos, of 24] by simp
  show "- 149 \<le> f32_expo x" "f32_expo x \<le> 104" using p by (auto simp: f32_expo_def)
  show "bit_count (f32_mant x) = 24 \<or> f32_expo x = - 149"
  proof (cases "f32_field x = 0")
    case False
    then have "2 ^ 23 \<le> f32_mant x" using p by (simp add: f32_mant_def)
    then show ?thesis using bit_count_ge [of 23 "f32_mant x"] le by simp
  qed (simp add: f32_expo_def)
qed

text \<open>Widening loses nothing: narrowing gives every number (not NaN) back.\<close>

lemma f32_of_f64_of_f32:
  assumes "\<not> f32_is_nan x"
  shows "f32_of_f64 (f64_of_f32 x) = x"
proof -
  consider (inf) "f32_is_inf x" | (zero) "\<not> f32_is_inf x" "f32_mant x = 0"
    | (num) "\<not> f32_is_inf x" "f32_mant x \<noteq> 0" by blast
  then show ?thesis
  proof cases
    case inf
    then show ?thesis using assms f32_is_inf_pack
      by (simp add: f64_of_f32_def f32_of_f64_def f64_bits_fields)
  next
    case zero
    then have "f64_of_f32 x = f64_bits (f32_neg x) 0 0" using assms by (simp add: f64_of_f32_def)
    then have "f32_of_f64 (f64_of_f32 x) = f32_pack (f32_neg x) (-149) 0"
      by (simp add: f32_of_f64_def f64_bits_fields f32_round_def)
    then show ?thesis using f32_pack_parts [OF assms zero(1)] f32_zero_mant [OF zero(2)] zero(2) by simp
  next
    case num
    note b = f32_mant_bits [OF assms num]
    define j where "j = nat (53 - bit_count (f32_mant x))"
    have j: "53 - bit_count (f32_mant x) = int j" using b(2) by (simp add: j_def)
    have bp: "1 \<le> bit_count (f32_mant x)"
      using bit_count_rec [OF b(1)] bit_count_nonneg [of "f32_mant x div 2"] by simp
    let ?M = "f32_mant x * 2 ^ j"
    have bM: "bit_count ?M = 53" using bit_count_shift [OF b(1), of j] j by simp
    have "0 < ?M" using b(1) by simp
    then have M: "2 ^ 52 \<le> ?M" "?M < 2 ^ 53" using bit_count_range [of ?M] unfolding bM by simp_all
    have e: "0 < f32_expo x - int j + 1075" "f32_expo x - int j + 1075 < 2047"
      using b(3,4) j bp by simp_all
    have d: "f64_of_f32 x = f64_bits (f32_neg x) (f32_expo x - int j + 1075) (?M - 2 ^ 52)"
      unfolding f64_of_f32_def Let_def j using assms num by simp
    have f: "f64_neg (f64_of_f32 x) = f32_neg x" "f64_field (f64_of_f32 x) = f32_expo x - int j + 1075"
      "f64_frac (f64_of_f32 x) = ?M - 2 ^ 52"
      unfolding d using e M by (simp_all add: f64_bits_fields)
    have "f32_of_f64 (f64_of_f32 x) = f32_round (f32_neg x) ?M (f32_expo x - int j)"
      unfolding f32_of_f64_def f using e by simp
    also have "\<dots> = f32_pack (f32_neg x) (f32_expo x) (f32_mant x)"
      using b by (intro f32_round_exact)
    finally show ?thesis using f32_pack_parts [OF assms num(1)] by simp
  qed
qed


section \<open>Small integers as floats\<close>

lemma f32_key_of_uint:
  "uint x < 2 ^ 31 \<Longrightarrow> f32_key x = uint x"
  unfolding f32_key_def f32_split Let_def by simp

lemma f32_of_int_bits:
  assumes "0 < n" "n < 2 ^ 24"
  shows "uint (f32_of_int n) = (bit_count n + 125) * 2 ^ 23 + n * 2 ^ nat (24 - bit_count n)"
    "2 ^ 23 \<le> n * 2 ^ nat (24 - bit_count n)" "n * 2 ^ nat (24 - bit_count n) < 2 ^ 24"
    "1 \<le> bit_count n" "bit_count n \<le> 24"
proof -
  let ?b = "bit_count n" and ?m = "n * 2 ^ nat (24 - bit_count n)"
  show b: "1 \<le> ?b" "?b \<le> 24"
    using bit_count_rec [OF assms(1)] bit_count_nonneg [of "n div 2"] bit_count_le [OF assms(1), of 24] assms(2)
    by simp_all
  have "bit_count ?m = 24" using bit_count_shift [OF assms(1), of "nat (24 - ?b)"] b by simp
  moreover have "0 < ?m" using assms(1) by simp
  ultimately show m: "2 ^ 23 \<le> ?m" "?m < 2 ^ 24" using bit_count_range [of ?m] by simp_all
  have "f32_of_int n = f32_pack False (?b - 24) ?m"
    using assms b by (simp add: f32_of_int_def f32_round_def max_def Let_def)
  also have "\<dots> = word_of_int ((?b + 125) * 2 ^ 23 + ?m)"
    using b m by (simp add: f32_pack_def min_def)
  finally have d: "f32_of_int n = word_of_int ((?b + 125) * 2 ^ 23 + ?m)" .
  have "0 \<le> (?b + 125) * 2 ^ 23 + ?m" "(?b + 125) * 2 ^ 23 + ?m < 2 ^ 32" using b m by simp_all
  then show "uint (f32_of_int n) = (?b + 125) * 2 ^ 23 + ?m"
    unfolding d by (rule uint_small)
qed

lemma bit_count_mono: "0 < n \<Longrightarrow> n \<le> m \<Longrightarrow> bit_count n \<le> bit_count m"
  using bit_count_le [of n "nat (bit_count m)"] bit_count_range [of m] bit_count_nonneg [of m] by simp

lemma f32_of_int_key:
  assumes "0 \<le> n" "n < 2 ^ 24"
  shows "f32_key (f32_of_int n) = (if n = 0 then 0 else uint (f32_of_int n))" "\<not> f32_is_nan (f32_of_int n)"
proof -
  have z: "f32_of_int 0 = 0" by (simp add: f32_of_int_def f32_round_def f32_pack_def)
  have u: "uint (f32_of_int n) < 0x7F800000" if nz: "n \<noteq> 0"
  proof -
    have "0 < n" using assms(1) nz by simp
    from f32_of_int_bits [OF this assms(2)]
    have "uint (f32_of_int n) = (bit_count n + 125) * 2 ^ 23 + n * 2 ^ nat (24 - bit_count n)"
      "n * 2 ^ nat (24 - bit_count n) < 2 ^ 24" "bit_count n \<le> 24" by auto
    then show ?thesis by simp
  qed
  show "f32_key (f32_of_int n) = (if n = 0 then 0 else uint (f32_of_int n))"
    using u f32_key_of_uint [of "f32_of_int n"] by (cases "n = 0") (simp_all add: z f32_key_def f32_neg_def)
  have "f32_of_int n AND 0x7FFFFFFF \<le> 0x7F800000"
  proof (cases "n = 0")
    case False
    then have "uint (f32_of_int n AND 0x7FFFFFFF) < 0x7F800000"
      using u unfolding f32_split by simp
    then show ?thesis by (simp add: word_le_def)
  qed (simp add: z)
  then show "\<not> f32_is_nan (f32_of_int n)" by (simp add: f32_is_nan_def not_less)
qed

text \<open>The comparison of integers below \<open>2 ^ 24\<close> survives their conversion.\<close>

lemma f32_lt_of_int:
  assumes "0 \<le> n" "n < 2 ^ 24" "0 \<le> m" "m < 2 ^ 24"
  shows "f32_lt (f32_of_int n) (f32_of_int m) \<longleftrightarrow> n < m"
proof -
  have pos: "0 < uint (f32_of_int k)" if "0 < k" "k < 2 ^ 24" for k
    using f32_of_int_bits [OF that] by simp
  have less: "uint (f32_of_int a) < uint (f32_of_int b)" if ab: "0 < a" "a < b" "b < 2 ^ 24" for a b
  proof -
    have 0: "0 < b" "a < 2 ^ 24" using ab by simp_all
    note A = f32_of_int_bits [OF ab(1) 0(2)] and B = f32_of_int_bits [OF 0(1) ab(3)]
    have le: "bit_count a \<le> bit_count b" using bit_count_mono ab by simp
    show ?thesis
    proof (cases "bit_count a = bit_count b")
      case True
      then show ?thesis using A(1) B(1) ab(2) by simp
    next
      case False
      then have "bit_count a + 1 \<le> bit_count b" using le by simp
      then have "(bit_count a + 1) * 2 ^ 23 \<le> bit_count b * 2 ^ 23" by simp
      then show ?thesis using A(1,3) B(1,2) by (simp add: algebra_simps)
    qed
  qed
  note key = f32_of_int_key [OF assms(1,2)] f32_of_int_key [OF assms(3,4)]
  have "f32_key (f32_of_int n) < f32_key (f32_of_int m) \<longleftrightarrow> n < m"
  proof (cases "n < m")
    case True
    then show ?thesis using key assms less [of n m] pos [of m] by (cases "n = 0") auto
  next
    case False
    then have "m = n \<or> m < n" by auto
    then have "f32_key (f32_of_int m) \<le> f32_key (f32_of_int n)"
      using key assms less [of m n] pos [of n] by (cases "m = 0") auto
    with False show ?thesis by simp
  qed
  then show ?thesis using key by (simp add: f32_lt_def)
qed


section \<open>Square root\<close>

text \<open>The integer square root, digit by digit, and the correctly rounded \<open>sqrtf\<close>.\<close>

function isqrt :: "int \<Rightarrow> int" where
  "isqrt n = (if n \<le> 0 then 0
              else let r = 2 * isqrt (n div 4) in if (r + 1) * (r + 1) \<le> n then r + 1 else r)"
  by pat_completeness auto
termination
  by (relation "measure nat") auto

declare isqrt.simps [simp del]

lemma isqrt_spec: "0 \<le> n \<Longrightarrow> 0 \<le> isqrt n \<and> isqrt n * isqrt n \<le> n \<and> n < (isqrt n + 1) * (isqrt n + 1)"
proof (induction n rule: isqrt.induct)
  case (1 n)
  show ?case
  proof (cases "n = 0")
    case False
    define q where "q = isqrt (n div 4)"
    have ih: "0 \<le> q" "q * q \<le> n div 4" "n div 4 < (q + 1) * (q + 1)"
      using 1 False by (simp_all add: q_def)
    have e: "isqrt n = (if (2 * q + 1) * (2 * q + 1) \<le> n then 2 * q + 1 else 2 * q)"
      using 1 False by (subst isqrt.simps) (simp add: q_def Let_def)
    have "4 * (q * q) \<le> n" "n < 4 * ((q + 1) * (q + 1))" using ih by linarith+
    then show ?thesis using ih(1) unfolding e by (auto simp: algebra_simps)
  qed (simp add: isqrt.simps)
qed

definition f32_sqrt :: "float_bits \<Rightarrow> float_bits" where
  "f32_sqrt x =
     (if f32_is_nan x then 0x7FC00000
      else if \<not> f32_true x then x
      else if f32_neg x then 0x7FC00000
      else if f32_is_inf x then x
      else let k = (if even (f32_expo x) then 64 else 65);
               n = f32_mant x * 2 ^ nat k; s = isqrt n
           in f32_round False (2 * s + (if s * s = n then 0 else 1)) ((f32_expo x - k) div 2 - 1))"

end
