(* ===== verification/Commander_State.thy ===== *)
theory Commander_State
  imports C_Prelude
begin

unbundle bit_operations_syntax

text \<open>
  The commander's flight state machine: \<open>apps/commander/state_machine_helper.c\<close> on the
  \<open>vehicle_status\<close> topic of \<open>apps/uORB/topics/vehicle_status.h\<close>.

  Every function of the C file that changes state is one definition here. The effects the code
  has outside the status structure are fields of \<open>commander\<close>: the topics it publishes
  (in order), the text it writes to the MAVLink log, and how often it read the clock. Text
  printed on the console is not modelled. \<open>reboot()\<close> never returns: the outcome
  \<open>Rebooted\<close> ends the computation.
\<close>

section \<open>Data\<close>

datatype commander_state_machine_t =
    SYSTEM_STATE_PREFLIGHT
  | SYSTEM_STATE_STANDBY
  | SYSTEM_STATE_GROUND_READY
  | SYSTEM_STATE_MANUAL
  | SYSTEM_STATE_STABILIZED
  | SYSTEM_STATE_AUTO
  | SYSTEM_STATE_MISSION_ABORT
  | SYSTEM_STATE_EMCY_LANDING
  | SYSTEM_STATE_EMCY_CUTOFF
  | SYSTEM_STATE_GROUND_ERROR
  | SYSTEM_STATE_REBOOT

fun state_code :: "commander_state_machine_t \<Rightarrow> u8" where
  "state_code SYSTEM_STATE_PREFLIGHT = 0"
| "state_code SYSTEM_STATE_STANDBY = 1"
| "state_code SYSTEM_STATE_GROUND_READY = 2"
| "state_code SYSTEM_STATE_MANUAL = 3"
| "state_code SYSTEM_STATE_STABILIZED = 4"
| "state_code SYSTEM_STATE_AUTO = 5"
| "state_code SYSTEM_STATE_MISSION_ABORT = 6"
| "state_code SYSTEM_STATE_EMCY_LANDING = 7"
| "state_code SYSTEM_STATE_EMCY_CUTOFF = 8"
| "state_code SYSTEM_STATE_GROUND_ERROR = 9"
| "state_code SYSTEM_STATE_REBOOT = 10"

datatype vehicle_flight_mode =
    VEHICLE_FLIGHT_MODE_MANUAL
  | VEHICLE_FLIGHT_MODE_ATTITUDE
  | VEHICLE_FLIGHT_MODE_STABILIZED
  | VEHICLE_FLIGHT_MODE_AUTO

text \<open>
  \<open>enum VEHICLE_MODE_FLAG\<close>: the bits of a mode request that the state machine looks at.
\<close>

definition VEHICLE_MODE_FLAG_SAFETY_ARMED :: u8 where
  "VEHICLE_MODE_FLAG_SAFETY_ARMED = 128"

definition VEHICLE_MODE_FLAG_HIL_ENABLED :: u8 where
  "VEHICLE_MODE_FLAG_HIL_ENABLED = 32"

text \<open>
  \<open>struct vehicle_status_s\<close>, with the fields the commander's code reads or writes. The
  error counters, the sensor bit masks and \<open>attitute_mode\<close> are not touched by it. The C
  type \<open>bool\<close> is \<open>uint8_t\<close> in NuttX: the four flags that take their value from
  a command can hold any byte.
\<close>

record vehicle_status =
  counter :: u16
  timestamp :: u64
  failsave_lowlevel_start_time :: u64
  state_machine :: commander_state_machine_t
  flight_mode :: vehicle_flight_mode
  flag_system_armed :: bool
  flag_control_manual_enabled :: bool
  flag_control_offboard_enabled :: bool
  flag_hil_enabled :: bool
  flag_control_rates_enabled :: u8
  flag_control_attitude_enabled :: u8
  flag_control_velocity_enabled :: u8
  flag_control_position_enabled :: u8
  flag_preflight_gyro_calibration :: bool
  flag_preflight_mag_calibration :: bool
  flag_preflight_accel_calibration :: bool
  rc_signal_found_once :: bool
  rc_signal_lost :: bool
  rc_signal_cutting_off :: bool
  rc_signal_lost_interval :: u64
  offboard_control_signal_found_once :: bool
  offboard_control_signal_lost :: bool
  offboard_control_signal_weak :: bool
  offboard_control_signal_lost_interval :: u64
  failsave_lowlevel :: bool
  voltage_battery :: float_bits
  load :: float_bits

record actuator_armed =
  armed :: bool
  lockdown :: bool

text \<open>
  The commander task: its status structure, the clock (\<open>hrt k\<close> is the value of the
  \<open>k\<close>-th call of \<open>hrt_absolute_time\<close>, \<open>hrt_reads\<close> the number of calls so far) and
  what it has sent out, oldest first.
\<close>

record commander =
  current_status :: vehicle_status
  hrt :: "nat \<Rightarrow> u64"
  hrt_reads :: nat
  pub_status :: "vehicle_status list"
  pub_armed :: "actuator_armed list"
  log_critical :: "string list"

datatype 'a outcome =
    Returned 'a commander
  | Rebooted commander

fun and_then :: "'a outcome \<Rightarrow> ('a \<Rightarrow> commander \<Rightarrow> 'b outcome) \<Rightarrow> 'b outcome" where
  "and_then (Returned a c) f = f a c"
| "and_then (Rebooted c) f = Rebooted c"

abbreviation upd :: "(vehicle_status \<Rightarrow> vehicle_status) \<Rightarrow> commander \<Rightarrow> commander" where
  "upd f c \<equiv> c\<lparr>current_status := f (current_status c)\<rparr>"

definition set_armed :: "bool \<Rightarrow> commander \<Rightarrow> commander" where
  "set_armed b c = upd (\<lambda>s. s\<lparr>flag_system_armed := b\<rparr>) c"

definition mavlink_log_critical :: "string \<Rightarrow> commander \<Rightarrow> commander" where
  "mavlink_log_critical m c = c\<lparr>log_critical := log_critical c @ [m]\<rparr>"

section \<open>Publication\<close>

text \<open>
  \<open>state_machine_publish\<close>: count, stamp with the current time, publish.
\<close>

definition state_machine_publish :: "commander \<Rightarrow> commander" where
  "state_machine_publish c =
     (let s = (current_status c)\<lparr>counter := counter (current_status c) + 1,
                                 timestamp := hrt c (hrt_reads c)\<rparr>
      in c\<lparr>current_status := s, hrt_reads := Suc (hrt_reads c),
           pub_status := pub_status c @ [s]\<rparr>)"

definition armed_of :: "vehicle_status \<Rightarrow> actuator_armed" where
  "armed_of s = \<lparr>armed = flag_system_armed s,
     lockdown = ((rc_signal_lost s \<and> offboard_control_signal_lost s) \<or> flag_hil_enabled s)\<rparr>"

text \<open>
  \<open>publish_armed_status\<close> advertises the topic with the new value and then publishes the
  same value once more.
\<close>

definition publish_armed_status :: "commander \<Rightarrow> commander" where
  "publish_armed_status c =
     (let a = armed_of (current_status c) in c\<lparr>pub_armed := pub_armed c @ [a, a]\<rparr>)"

section \<open>Transitions\<close>

text \<open>
  The tail of \<open>do_state_update\<close>, after its \<open>switch\<close>. The condition is the code's:
  a transition that was found invalid is still carried out when it names another state.
\<close>

definition finish_update ::
  "commander_state_machine_t \<Rightarrow> commander_state_machine_t \<Rightarrow> bool \<Rightarrow> int \<Rightarrow> commander \<Rightarrow> int outcome" where
  "finish_update old_state new_state invalid_state ret c =
     (let (ret1, c1) =
            (if \<not> invalid_state \<or> old_state \<noteq> new_state
             then (OK, publish_armed_status (state_machine_publish
                         (upd (\<lambda>s. s\<lparr>state_machine := new_state\<rparr>) c)))
             else (ret, c))
      in if invalid_state
         then Returned ERROR (mavlink_log_critical
                ''[commander] REJECTING invalid state transition'' c1)
         else Returned ret1 c1)"

function do_state_update :: "commander_state_machine_t \<Rightarrow> commander \<Rightarrow> int outcome" where
  "do_state_update new_state c =
     (let old_state = state_machine (current_status c);
          grounded = (old_state = SYSTEM_STATE_STANDBY \<or> old_state = SYSTEM_STATE_PREFLIGHT);
          finish = finish_update old_state new_state
      in case new_state of
        SYSTEM_STATE_MISSION_ABORT \<Rightarrow>
          and_then (do_state_update SYSTEM_STATE_EMCY_LANDING c) (\<lambda>ret. finish False ret)
      | SYSTEM_STATE_EMCY_LANDING \<Rightarrow>
          finish False ERROR (mavlink_log_critical ''[commander] EMERGENCY LANDING!''
            (set_armed True c))
      | SYSTEM_STATE_EMCY_CUTOFF \<Rightarrow>
          finish False ERROR (mavlink_log_critical ''[commander] EMERGENCY MOTOR CUTOFF!''
            (set_armed False c))
      | SYSTEM_STATE_GROUND_ERROR \<Rightarrow>
          finish False ERROR (mavlink_log_critical
            ''[commander] GROUND ERROR, locking down propulsion system'' (set_armed False c))
      | SYSTEM_STATE_PREFLIGHT \<Rightarrow>
          if grounded
          then finish False ERROR (mavlink_log_critical
                 ''[commander] Switched to PREFLIGHT state'' (set_armed False c))
          else finish True ERROR (mavlink_log_critical
                 ''[commander] REFUSED to switch to PREFLIGHT state'' c)
      | SYSTEM_STATE_REBOOT \<Rightarrow>
          if grounded
          then Rebooted (mavlink_log_critical ''[commander] REBOOTING SYSTEM'' (set_armed False c))
          else finish True ERROR (mavlink_log_critical ''[commander] REFUSED to REBOOT'' c)
      | SYSTEM_STATE_STANDBY \<Rightarrow>
          finish False ERROR (mavlink_log_critical ''[commander] Switched to STANDBY state''
            (set_armed False c))
      | SYSTEM_STATE_GROUND_READY \<Rightarrow>
          finish False ERROR (mavlink_log_critical ''[commander] Switched to GROUND READY state''
            (set_armed True c))
      | SYSTEM_STATE_AUTO \<Rightarrow>
          finish False ERROR (mavlink_log_critical ''[commander] Switched to FLYING / AUTO mode''
            (set_armed True c))
      | SYSTEM_STATE_STABILIZED \<Rightarrow>
          finish False ERROR (mavlink_log_critical
            ''[commander] Switched to FLYING / STABILIZED mode'' (set_armed True c))
      | SYSTEM_STATE_MANUAL \<Rightarrow>
          finish False ERROR (mavlink_log_critical ''[commander] Switched to FLYING / MANUAL mode''
            (set_armed True c)))"
  by pat_completeness auto
termination
  by (relation "measure (\<lambda>(n, c). if n = SYSTEM_STATE_MISSION_ABORT then 1 else 0)") auto

declare do_state_update.simps [simp del]

text \<open>The callers that ignore the return value.\<close>

definition go_state :: "commander_state_machine_t \<Rightarrow> commander \<Rightarrow> unit outcome" where
  "go_state new_state c = and_then (do_state_update new_state c) (\<lambda>_. Returned ())"

definition state_machine_emergency_always_critical :: "commander \<Rightarrow> unit outcome" where
  "state_machine_emergency_always_critical c =
     (let st = state_machine (current_status c)
      in if st = SYSTEM_STATE_PREFLIGHT \<or> st = SYSTEM_STATE_STANDBY \<or> st = SYSTEM_STATE_GROUND_READY
         then go_state SYSTEM_STATE_GROUND_ERROR c
         else if st = SYSTEM_STATE_AUTO \<or> st = SYSTEM_STATE_MANUAL
         then go_state SYSTEM_STATE_MISSION_ABORT c
         else Returned () c)"

definition state_machine_emergency :: "commander \<Rightarrow> unit outcome" where
  "state_machine_emergency c =
     (if state_machine (current_status c) \<noteq> SYSTEM_STATE_MANUAL
      then state_machine_emergency_always_critical c
      else Returned () c)"

definition update_state_machine_got_position_fix :: "commander \<Rightarrow> unit outcome" where
  "update_state_machine_got_position_fix c =
     (if state_machine (current_status c) = SYSTEM_STATE_PREFLIGHT
      then go_state SYSTEM_STATE_STANDBY c
      else Returned () c)"

definition update_state_machine_no_position_fix :: "commander \<Rightarrow> unit outcome" where
  "update_state_machine_no_position_fix c =
     (let st = state_machine (current_status c)
      in if st = SYSTEM_STATE_STANDBY \<or> st = SYSTEM_STATE_GROUND_READY \<or> st = SYSTEM_STATE_AUTO
         then state_machine_emergency c
         else Returned () c)"

definition update_state_machine_arm :: "commander \<Rightarrow> unit outcome" where
  "update_state_machine_arm c =
     (if state_machine (current_status c) = SYSTEM_STATE_STANDBY
      then go_state SYSTEM_STATE_GROUND_READY c
      else Returned () c)"

definition update_state_machine_disarm :: "commander \<Rightarrow> unit outcome" where
  "update_state_machine_disarm c =
     (let st = state_machine (current_status c)
      in if st = SYSTEM_STATE_GROUND_READY \<or> st = SYSTEM_STATE_MANUAL \<or> st = SYSTEM_STATE_PREFLIGHT
         then go_state SYSTEM_STATE_STANDBY c
         else if st = SYSTEM_STATE_STABILIZED \<or> st = SYSTEM_STATE_AUTO
         then go_state SYSTEM_STATE_STANDBY c
         else Returned () c)"

text \<open>
  The three \<open>update_state_machine_mode_*\<close> functions set the flight mode and the control
  flags in the same way, publish when the mode changed, and then may change the state.
\<close>

definition enter_flight_mode :: "vehicle_flight_mode \<Rightarrow> commander \<Rightarrow> commander" where
  "enter_flight_mode m c =
     (let old_mode = flight_mode (current_status c);
          c1 = upd (\<lambda>s. s\<lparr>flight_mode := m, flag_control_manual_enabled := True,
                          flag_control_attitude_enabled := 1,
                          flag_control_rates_enabled := 0\<rparr>) c
      in if old_mode \<noteq> m then state_machine_publish c1 else c1)"

definition update_state_machine_mode_manual :: "commander \<Rightarrow> unit outcome" where
  "update_state_machine_mode_manual c0 =
     (let c = enter_flight_mode VEHICLE_FLIGHT_MODE_MANUAL c0;
          st = state_machine (current_status c)
      in if st = SYSTEM_STATE_GROUND_READY \<or> st = SYSTEM_STATE_STABILIZED \<or> st = SYSTEM_STATE_AUTO
         then go_state SYSTEM_STATE_MANUAL c
         else Returned () c)"

definition update_state_machine_mode_stabilized :: "commander \<Rightarrow> unit outcome" where
  "update_state_machine_mode_stabilized c0 =
     (let c = enter_flight_mode VEHICLE_FLIGHT_MODE_STABILIZED c0;
          st = state_machine (current_status c)
      in if st = SYSTEM_STATE_GROUND_READY \<or> st = SYSTEM_STATE_MANUAL \<or> st = SYSTEM_STATE_AUTO
         then go_state SYSTEM_STATE_STABILIZED c
         else Returned () c)"

definition update_state_machine_mode_auto :: "commander \<Rightarrow> unit outcome" where
  "update_state_machine_mode_auto c0 =
     (let c = enter_flight_mode VEHICLE_FLIGHT_MODE_AUTO c0;
          st = state_machine (current_status c)
      in if st = SYSTEM_STATE_GROUND_READY \<or> st = SYSTEM_STATE_MANUAL \<or> st = SYSTEM_STATE_STABILIZED
         then go_state SYSTEM_STATE_AUTO c
         else Returned () c)"

text \<open>
  \<open>update_state_machine_mode_request\<close> tests four conditions in sequence, each on the state
  the ones before left behind. Its result is a \<open>uint8_t\<close>: \<open>ERROR\<close> is stored as 255.
\<close>

definition request_arming :: "u8 \<Rightarrow> u8 \<Rightarrow> commander \<Rightarrow> u8 outcome" where
  "request_arming mode ret c =
     (let st = state_machine (current_status c)
      in if \<not> flag_system_armed (current_status c) \<and> mode AND VEHICLE_MODE_FLAG_SAFETY_ARMED \<noteq> 0
            \<and> (st = SYSTEM_STATE_STANDBY \<or> st = SYSTEM_STATE_PREFLIGHT)
         then and_then (go_state SYSTEM_STATE_GROUND_READY c) (\<lambda>_. Returned (word_of_int OK))
         else Returned ret c)"

definition request_disarming :: "u8 \<Rightarrow> u8 \<Rightarrow> commander \<Rightarrow> u8 outcome" where
  "request_disarming mode ret c =
     (if flag_system_armed (current_status c) \<and> mode AND VEHICLE_MODE_FLAG_SAFETY_ARMED = 0
         \<and> state_machine (current_status c) = SYSTEM_STATE_GROUND_READY
      then and_then (go_state SYSTEM_STATE_STANDBY c) (\<lambda>_. Returned (word_of_int OK))
      else Returned ret c)"

definition request_hil :: "u8 \<Rightarrow> u8 \<Rightarrow> commander \<Rightarrow> u8 outcome" where
  "request_hil mode ret c =
     (let (ret1, c1) =
            (if state_machine (current_status c) = SYSTEM_STATE_STANDBY
                \<and> mode AND VEHICLE_MODE_FLAG_HIL_ENABLED \<noteq> 0
                \<and> \<not> flag_hil_enabled (current_status c)
             then (word_of_int OK, publish_armed_status (state_machine_publish
                     (upd (\<lambda>s. s\<lparr>flag_hil_enabled := True\<rparr>) c)))
             else (ret, c))
      in if flag_hil_enabled (current_status c1) \<and> mode AND VEHICLE_MODE_FLAG_HIL_ENABLED = 0
         then Returned (word_of_int ERROR) c1
         else Returned ret1 c1)"

definition update_state_machine_mode_request :: "u8 \<Rightarrow> commander \<Rightarrow> u8 outcome" where
  "update_state_machine_mode_request mode c =
     and_then (request_arming mode 1 c) (\<lambda>ret c1.
     and_then (request_disarming mode ret c1) (\<lambda>ret c2.
     request_hil mode ret c2))"

definition update_state_machine_custom_mode_request :: "u8 \<Rightarrow> commander \<Rightarrow> u8 outcome" where
  "update_state_machine_custom_mode_request custom_mode c =
     (let st = state_machine (current_status c)
      in if custom_mode = state_code SYSTEM_STATE_GROUND_READY then Returned 1 c
         else if custom_mode = state_code SYSTEM_STATE_STANDBY then Returned 1 c
         else if custom_mode = state_code SYSTEM_STATE_REBOOT then
           (if st = SYSTEM_STATE_STANDBY \<or> st = SYSTEM_STATE_PREFLIGHT
            then and_then (go_state SYSTEM_STATE_REBOOT c) (\<lambda>_. Returned 0)
            else Returned 1 c)
         else if custom_mode = state_code SYSTEM_STATE_AUTO then
           (if st = SYSTEM_STATE_GROUND_READY \<or> st = SYSTEM_STATE_MANUAL
            then and_then (go_state SYSTEM_STATE_AUTO c) (\<lambda>_. Returned 0)
            else Returned 1 c)
         else if custom_mode = state_code SYSTEM_STATE_MANUAL then
           (if st = SYSTEM_STATE_GROUND_READY \<or> st = SYSTEM_STATE_AUTO
            then and_then (go_state SYSTEM_STATE_MANUAL c) (\<lambda>_. Returned 0)
            else Returned 1 c)
         else Returned 1 c)"

section \<open>The component as an event machine\<close>

datatype commander_event =
    Got_position_fix
  | No_position_fix
  | Arm
  | Disarm
  | Mode_manual
  | Mode_stabilized
  | Mode_auto
  | Mode_request u8
  | Custom_mode_request u8
  | Emergency
  | Emergency_always_critical

fun next_commander :: "'a outcome \<Rightarrow> commander option" where
  "next_commander (Returned a c) = Some c"
| "next_commander (Rebooted c) = None"

text \<open>One call of an operation by the commander task; \<open>None\<close> once the system reboots.\<close>

fun commander_step :: "commander_event \<Rightarrow> commander \<Rightarrow> commander option" where
  "commander_step Got_position_fix c = next_commander (update_state_machine_got_position_fix c)"
| "commander_step No_position_fix c = next_commander (update_state_machine_no_position_fix c)"
| "commander_step Arm c = next_commander (update_state_machine_arm c)"
| "commander_step Disarm c = next_commander (update_state_machine_disarm c)"
| "commander_step Mode_manual c = next_commander (update_state_machine_mode_manual c)"
| "commander_step Mode_stabilized c = next_commander (update_state_machine_mode_stabilized c)"
| "commander_step Mode_auto c = next_commander (update_state_machine_mode_auto c)"
| "commander_step (Mode_request m) c = next_commander (update_state_machine_mode_request m c)"
| "commander_step (Custom_mode_request m) c =
     next_commander (update_state_machine_custom_mode_request m c)"
| "commander_step Emergency c = next_commander (state_machine_emergency c)"
| "commander_step Emergency_always_critical c =
     next_commander (state_machine_emergency_always_critical c)"

section \<open>How single transitions act\<close>

text \<open>The states in which motors are armed.\<close>

fun armed_state :: "commander_state_machine_t \<Rightarrow> bool" where
  "armed_state SYSTEM_STATE_GROUND_READY = True"
| "armed_state SYSTEM_STATE_MANUAL = True"
| "armed_state SYSTEM_STATE_STABILIZED = True"
| "armed_state SYSTEM_STATE_AUTO = True"
| "armed_state SYSTEM_STATE_MISSION_ABORT = True"
| "armed_state SYSTEM_STATE_EMCY_LANDING = True"
| "armed_state _ = False"

fun flying_state :: "commander_state_machine_t \<Rightarrow> bool" where
  "flying_state SYSTEM_STATE_MANUAL = True"
| "flying_state SYSTEM_STATE_STABILIZED = True"
| "flying_state SYSTEM_STATE_AUTO = True"
| "flying_state _ = False"

text \<open>What a transition into state \<open>n\<close> writes, publishes and reads.\<close>

definition enter_state :: "commander_state_machine_t \<Rightarrow> commander \<Rightarrow> commander" where
  "enter_state n c = publish_armed_status (state_machine_publish
     (upd (\<lambda>s. s\<lparr>state_machine := n\<rparr>) c))"

lemmas publish_defs = state_machine_publish_def publish_armed_status_def armed_of_def
  set_armed_def mavlink_log_critical_def Let_def

lemma enter_state_fields [simp]:
  "state_machine (current_status (enter_state n c)) = n"
  "flag_system_armed (current_status (enter_state n c)) = flag_system_armed (current_status c)"
  "flag_hil_enabled (current_status (enter_state n c)) = flag_hil_enabled (current_status c)"
  "flight_mode (current_status (enter_state n c)) = flight_mode (current_status c)"
  "pub_status (enter_state n c) = pub_status c @ [current_status (enter_state n c)]"
  "pub_armed (enter_state n c) =
     pub_armed c @ [armed_of (current_status (enter_state n c)), armed_of (current_status (enter_state n c))]"
  "rc_signal_lost (current_status (enter_state n c)) = rc_signal_lost (current_status c)"
  "offboard_control_signal_lost (current_status (enter_state n c)) =
     offboard_control_signal_lost (current_status c)"
  by (simp_all add: enter_state_def publish_defs)

text \<open>Accepted transitions: the state is entered and the armed flag set to the state's value.\<close>

lemma do_state_update_accepts:
  assumes "n \<notin> {SYSTEM_STATE_PREFLIGHT, SYSTEM_STATE_REBOOT, SYSTEM_STATE_MISSION_ABORT}"
  shows "\<exists>m. do_state_update n c =
    Returned OK (enter_state n (mavlink_log_critical m (set_armed (armed_state n) c)))"
  using assms
  by (cases n) (auto simp: do_state_update.simps [of _ c] finish_update_def enter_state_def Let_def)

text \<open>
  A mission abort first enters the emergency landing state and then the abort state: both are
  published, and the second is the one that remains.
\<close>

lemma do_state_update_abort:
  "do_state_update SYSTEM_STATE_MISSION_ABORT c =
     Returned OK (enter_state SYSTEM_STATE_MISSION_ABORT (enter_state SYSTEM_STATE_EMCY_LANDING
       (mavlink_log_critical ''[commander] EMERGENCY LANDING!'' (set_armed True c))))"
  by (subst do_state_update.simps, subst do_state_update.simps)
     (simp add: finish_update_def enter_state_def Let_def)

definition grounded :: "commander \<Rightarrow> bool" where
  "grounded c \<longleftrightarrow> state_machine (current_status c) \<in> {SYSTEM_STATE_STANDBY, SYSTEM_STATE_PREFLIGHT}"

lemma do_state_update_preflight:
  "do_state_update SYSTEM_STATE_PREFLIGHT c =
     (if grounded c
      then Returned OK (enter_state SYSTEM_STATE_PREFLIGHT (mavlink_log_critical
             ''[commander] Switched to PREFLIGHT state'' (set_armed False c)))
      else Returned ERROR (mavlink_log_critical
             ''[commander] REJECTING invalid state transition''
             (enter_state SYSTEM_STATE_PREFLIGHT (mavlink_log_critical
               ''[commander] REFUSED to switch to PREFLIGHT state'' c))))"
  by (subst do_state_update.simps) (auto simp: finish_update_def enter_state_def grounded_def Let_def)

lemma do_state_update_reboot:
  "do_state_update SYSTEM_STATE_REBOOT c =
     (if grounded c
      then Rebooted (mavlink_log_critical ''[commander] REBOOTING SYSTEM'' (set_armed False c))
      else if state_machine (current_status c) = SYSTEM_STATE_REBOOT
      then Returned ERROR (mavlink_log_critical ''[commander] REJECTING invalid state transition''
             (mavlink_log_critical ''[commander] REFUSED to REBOOT'' c))
      else Returned ERROR (mavlink_log_critical ''[commander] REJECTING invalid state transition''
             (enter_state SYSTEM_STATE_REBOOT (mavlink_log_critical
               ''[commander] REFUSED to REBOOT'' c))))"
  by (subst do_state_update.simps) (auto simp: finish_update_def enter_state_def grounded_def Let_def)

text \<open>The fields that the log and the armed flag leave alone.\<close>

lemma set_armed_fields [simp]:
  "state_machine (current_status (set_armed b c)) = state_machine (current_status c)"
  "flag_system_armed (current_status (set_armed b c)) = b"
  "flag_hil_enabled (current_status (set_armed b c)) = flag_hil_enabled (current_status c)"
  "flight_mode (current_status (set_armed b c)) = flight_mode (current_status c)"
  "rc_signal_lost (current_status (set_armed b c)) = rc_signal_lost (current_status c)"
  "offboard_control_signal_lost (current_status (set_armed b c)) =
     offboard_control_signal_lost (current_status c)"
  "pub_status (set_armed b c) = pub_status c" "pub_armed (set_armed b c) = pub_armed c"
  by (simp_all add: set_armed_def)

lemma mavlink_log_critical_fields [simp]:
  "current_status (mavlink_log_critical m c) = current_status c"
  "pub_status (mavlink_log_critical m c) = pub_status c"
  "pub_armed (mavlink_log_critical m c) = pub_armed c"
  by (simp_all add: mavlink_log_critical_def)

lemma enter_flight_mode_fields [simp]:
  "state_machine (current_status (enter_flight_mode m c)) = state_machine (current_status c)"
  "flag_system_armed (current_status (enter_flight_mode m c)) = flag_system_armed (current_status c)"
  "flag_hil_enabled (current_status (enter_flight_mode m c)) = flag_hil_enabled (current_status c)"
  "flight_mode (current_status (enter_flight_mode m c)) = m"
  "rc_signal_lost (current_status (enter_flight_mode m c)) = rc_signal_lost (current_status c)"
  "offboard_control_signal_lost (current_status (enter_flight_mode m c)) =
     offboard_control_signal_lost (current_status c)"
  "pub_armed (enter_flight_mode m c) = pub_armed c"
  by (simp_all add: enter_flight_mode_def publish_defs)

lemma armed_of_cong:
  "flag_system_armed s = flag_system_armed t \<Longrightarrow> rc_signal_lost s = rc_signal_lost t \<Longrightarrow>
   offboard_control_signal_lost s = offboard_control_signal_lost t \<Longrightarrow>
   flag_hil_enabled s = flag_hil_enabled t \<Longrightarrow> armed_of s = armed_of t"
  by (simp add: armed_of_def)

text \<open>
  The targets the helper functions use. Whenever one of them is requested, the state is
  entered; only a reboot request may end the computation.
\<close>

lemma go_state_accepts:
  assumes "n \<notin> {SYSTEM_STATE_PREFLIGHT, SYSTEM_STATE_REBOOT, SYSTEM_STATE_MISSION_ABORT}"
  obtains m where "go_state n c =
    Returned () (enter_state n (mavlink_log_critical m (set_armed (armed_state n) c)))"
  using do_state_update_accepts [OF assms, of c] that by (auto simp: go_state_def)

section \<open>Initial state and invariant\<close>

text \<open>
  \<open>commander_thread_main\<close> zeroes the status, enters the preflight state with all signals
  lost, advertises the topic and publishes it.
\<close>

definition initial_status :: vehicle_status where
  "initial_status = \<lparr>counter = 0, timestamp = 0, failsave_lowlevel_start_time = 0,
     state_machine = SYSTEM_STATE_PREFLIGHT, flight_mode = VEHICLE_FLIGHT_MODE_MANUAL,
     flag_system_armed = False, flag_control_manual_enabled = False,
     flag_control_offboard_enabled = False, flag_hil_enabled = False,
     flag_control_rates_enabled = 0, flag_control_attitude_enabled = 0,
     flag_control_velocity_enabled = 0, flag_control_position_enabled = 0,
     flag_preflight_gyro_calibration = False, flag_preflight_mag_calibration = False,
     flag_preflight_accel_calibration = False, rc_signal_found_once = False,
     rc_signal_lost = True, rc_signal_cutting_off = False, rc_signal_lost_interval = 0,
     offboard_control_signal_found_once = False, offboard_control_signal_lost = True,
     offboard_control_signal_weak = False, offboard_control_signal_lost_interval = 0,
     failsave_lowlevel = False, voltage_battery = 0, load = 0\<rparr>"

definition commander_init :: "(nat \<Rightarrow> u64) \<Rightarrow> commander" where
  "commander_init clock = state_machine_publish
     \<lparr>current_status = initial_status, hrt = clock, hrt_reads = 0,
      pub_status = [initial_status], pub_armed = [], log_critical = []\<rparr>"

definition started :: "commander \<Rightarrow> bool" where
  "started c \<longleftrightarrow> (\<exists>clock. c = commander_init clock)"

text \<open>
  The invariant: the armed flag is the one of the state, and the subscribers of both topics
  hold the current state, armed flag and lockdown in hardware-in-the-loop mode. (The lockdown for
  lost signals is not part of it: the main loop changes those flags between publications.)
\<close>

definition same_state :: "vehicle_status \<Rightarrow> vehicle_status \<Rightarrow> bool" where
  "same_state s t \<longleftrightarrow> state_machine s = state_machine t \<and>
     flag_system_armed s = flag_system_armed t \<and> flag_hil_enabled s = flag_hil_enabled t"

definition commander_inv :: "commander \<Rightarrow> bool" where
  "commander_inv c \<longleftrightarrow>
     flag_system_armed (current_status c) = armed_state (state_machine (current_status c)) \<and>
     pub_status c \<noteq> [] \<and> same_state (last (pub_status c)) (current_status c) \<and>
     (pub_armed c = [] \<longrightarrow> \<not> flag_system_armed (current_status c)) \<and>
     (pub_armed c \<noteq> [] \<longrightarrow>
        armed (last (pub_armed c)) = flag_system_armed (current_status c) \<and>
        (flag_hil_enabled (current_status c) \<longrightarrow> lockdown (last (pub_armed c))))"

lemma commander_inv_init: "started c \<Longrightarrow> commander_inv c"
  by (auto simp: started_def commander_inv_def commander_init_def initial_status_def
      same_state_def publish_defs)

lemma commander_inv_enter:
  "flag_system_armed (current_status c) = armed_state n \<Longrightarrow> commander_inv (enter_state n c)"
  by (simp add: commander_inv_def same_state_def armed_of_def)

lemma commander_inv_flight_mode: "commander_inv c \<Longrightarrow> commander_inv (enter_flight_mode m c)"
  by (auto simp: commander_inv_def same_state_def enter_flight_mode_def publish_defs)

lemma commander_inv_go_state:
  assumes "n \<notin> {SYSTEM_STATE_PREFLIGHT, SYSTEM_STATE_REBOOT}"
    and "next_commander (go_state n c) = Some c'"
  shows "commander_inv c' \<and> state_machine (current_status c') = n \<and>
    flag_hil_enabled (current_status c') = flag_hil_enabled (current_status c)"
proof (cases "n = SYSTEM_STATE_MISSION_ABORT")
  case True
  with assms show ?thesis
    by (auto simp: go_state_def do_state_update_abort intro!: commander_inv_enter)
next
  case False
  with assms(1) have "n \<notin> {SYSTEM_STATE_PREFLIGHT, SYSTEM_STATE_REBOOT, SYSTEM_STATE_MISSION_ABORT}"
    by simp
  then obtain m where
    "go_state n c = Returned () (enter_state n (mavlink_log_critical m (set_armed (armed_state n) c)))"
    by (rule go_state_accepts)
  with assms(2) show ?thesis
    by (auto intro!: commander_inv_enter)
qed

text \<open>The abstract automaton: a state and whether hardware-in-the-loop mode is on.\<close>

definition arms :: "u8 \<Rightarrow> bool" where
  "arms m \<longleftrightarrow> m AND VEHICLE_MODE_FLAG_SAFETY_ARMED \<noteq> 0"

definition wants_hil :: "u8 \<Rightarrow> bool" where
  "wants_hil m \<longleftrightarrow> m AND VEHICLE_MODE_FLAG_HIL_ENABLED \<noteq> 0"

definition ready_or_flying :: "commander_state_machine_t \<Rightarrow> bool" where
  "ready_or_flying st \<longleftrightarrow> st = SYSTEM_STATE_GROUND_READY \<or> flying_state st"

fun spec_emergency :: "commander_state_machine_t \<Rightarrow> commander_state_machine_t" where
  "spec_emergency SYSTEM_STATE_PREFLIGHT = SYSTEM_STATE_GROUND_ERROR"
| "spec_emergency SYSTEM_STATE_STANDBY = SYSTEM_STATE_GROUND_ERROR"
| "spec_emergency SYSTEM_STATE_GROUND_READY = SYSTEM_STATE_GROUND_ERROR"
| "spec_emergency SYSTEM_STATE_AUTO = SYSTEM_STATE_MISSION_ABORT"
| "spec_emergency SYSTEM_STATE_MANUAL = SYSTEM_STATE_MISSION_ABORT"
| "spec_emergency st = st"

fun spec_step :: "commander_event \<Rightarrow> commander_state_machine_t \<times> bool \<Rightarrow>
    (commander_state_machine_t \<times> bool) option" where
  "spec_step Got_position_fix (st, hil) =
     Some (if st = SYSTEM_STATE_PREFLIGHT then SYSTEM_STATE_STANDBY else st, hil)"
| "spec_step No_position_fix (st, hil) =
     Some (if st \<in> {SYSTEM_STATE_STANDBY, SYSTEM_STATE_GROUND_READY, SYSTEM_STATE_AUTO}
           then spec_emergency st else st, hil)"
| "spec_step Arm (st, hil) =
     Some (if st = SYSTEM_STATE_STANDBY then SYSTEM_STATE_GROUND_READY else st, hil)"
| "spec_step Disarm (st, hil) =
     Some (if ready_or_flying st \<or> st = SYSTEM_STATE_PREFLIGHT then SYSTEM_STATE_STANDBY else st, hil)"
| "spec_step Mode_manual (st, hil) = Some (if ready_or_flying st then SYSTEM_STATE_MANUAL else st, hil)"
| "spec_step Mode_stabilized (st, hil) =
     Some (if ready_or_flying st then SYSTEM_STATE_STABILIZED else st, hil)"
| "spec_step Mode_auto (st, hil) = Some (if ready_or_flying st then SYSTEM_STATE_AUTO else st, hil)"
| "spec_step (Mode_request m) (st, hil) =
     (let st' = (if arms m \<and> st \<in> {SYSTEM_STATE_STANDBY, SYSTEM_STATE_PREFLIGHT}
                 then SYSTEM_STATE_GROUND_READY
                 else if \<not> arms m \<and> st = SYSTEM_STATE_GROUND_READY then SYSTEM_STATE_STANDBY else st)
      in Some (st', hil \<or> (st' = SYSTEM_STATE_STANDBY \<and> wants_hil m)))"
| "spec_step (Custom_mode_request m) (st, hil) =
     (if m = state_code SYSTEM_STATE_REBOOT \<and> st \<in> {SYSTEM_STATE_STANDBY, SYSTEM_STATE_PREFLIGHT}
      then None
      else if m = state_code SYSTEM_STATE_AUTO \<and> st \<in> {SYSTEM_STATE_GROUND_READY, SYSTEM_STATE_MANUAL}
      then Some (SYSTEM_STATE_AUTO, hil)
      else if m = state_code SYSTEM_STATE_MANUAL \<and> st \<in> {SYSTEM_STATE_GROUND_READY, SYSTEM_STATE_AUTO}
      then Some (SYSTEM_STATE_MANUAL, hil)
      else Some (st, hil))"
| "spec_step Emergency (st, hil) =
     Some (if st = SYSTEM_STATE_MANUAL then st else spec_emergency st, hil)"
| "spec_step Emergency_always_critical (st, hil) = Some (spec_emergency st, hil)"

definition view :: "commander \<Rightarrow> commander_state_machine_t \<times> bool" where
  "view c = (state_machine (current_status c), flag_hil_enabled (current_status c))"

section \<open>Refinement\<close>

lemma go_state_enters:
  assumes "n \<notin> {SYSTEM_STATE_PREFLIGHT, SYSTEM_STATE_REBOOT}"
  obtains c' where "go_state n c = Returned () c'" "commander_inv c'" "view c' = (n, snd (view c))"
proof -
  obtain c' where c': "go_state n c = Returned () c'"
  proof (cases "n = SYSTEM_STATE_MISSION_ABORT")
    case True
    then show ?thesis using that by (simp add: go_state_def do_state_update_abort)
  next
    case False
    with assms show ?thesis using that go_state_accepts [of n c] by blast
  qed
  then have "next_commander (go_state n c) = Some c'" by simp
  with commander_inv_go_state [OF assms this] c' show ?thesis
    using that by (simp add: view_def)
qed

text \<open>
  One step of the code is one step of the automaton, the invariant is kept, and the system
  reboots exactly when the automaton stops.
\<close>

definition refines_step :: "unit outcome \<Rightarrow> (commander_state_machine_t \<times> bool) option \<Rightarrow> bool" where
  "refines_step r s = (case next_commander r of
       None \<Rightarrow> s = None
     | Some c' \<Rightarrow> commander_inv c' \<and> s = Some (view c'))"

lemma refines_go:
  "n \<notin> {SYSTEM_STATE_PREFLIGHT, SYSTEM_STATE_REBOOT} \<Longrightarrow> refines_step (go_state n c) (Some (n, snd (view c)))"
  by (rule go_state_enters [of n c]) (auto simp: refines_step_def)

lemma refines_stay: "commander_inv c \<Longrightarrow> refines_step (Returned () c) (Some (view c))"
  by (simp add: refines_step_def)

lemma refines_emergency:
  "commander_inv c \<Longrightarrow> refines_step (state_machine_emergency_always_critical c)
     (Some (spec_emergency (fst (view c)), snd (view c)))"
  using refines_stay [of c]
  by (cases "state_machine (current_status c)")
     (auto simp: state_machine_emergency_always_critical_def Let_def view_def
       intro: refines_go [of _ c, unfolded view_def, simplified])

lemma refines_simple:
  assumes "commander_inv c"
  shows "refines_step (update_state_machine_got_position_fix c) (spec_step Got_position_fix (view c))"
    and "refines_step (update_state_machine_arm c) (spec_step Arm (view c))"
    and "refines_step (update_state_machine_disarm c) (spec_step Disarm (view c))"
  using assms refines_stay [of c] refines_go [of _ c]
  by (cases "state_machine (current_status c)";
      simp add: update_state_machine_got_position_fix_def update_state_machine_arm_def
        update_state_machine_disarm_def view_def ready_or_flying_def)+

lemma refines_modes:
  assumes "commander_inv c"
  shows "refines_step (update_state_machine_mode_manual c) (spec_step Mode_manual (view c))"
    and "refines_step (update_state_machine_mode_stabilized c) (spec_step Mode_stabilized (view c))"
    and "refines_step (update_state_machine_mode_auto c) (spec_step Mode_auto (view c))"
  using assms refines_stay [OF commander_inv_flight_mode, of c] refines_go [of _ "enter_flight_mode _ c"]
  by (cases "state_machine (current_status c)";
      simp add: update_state_machine_mode_manual_def update_state_machine_mode_stabilized_def
        update_state_machine_mode_auto_def view_def ready_or_flying_def)+

lemma refines_emergencies:
  assumes "commander_inv c"
  shows "refines_step (state_machine_emergency c) (spec_step Emergency (view c))"
    and "refines_step (state_machine_emergency_always_critical c)
           (spec_step Emergency_always_critical (view c))"
    and "refines_step (update_state_machine_no_position_fix c) (spec_step No_position_fix (view c))"
  using refines_emergency [OF assms] refines_stay [OF assms]
  by (auto simp: state_machine_emergency_def update_state_machine_no_position_fix_def view_def Let_def)

text \<open>The two request functions also return a code.\<close>

lemma hil_publication_inv:
  "commander_inv c \<Longrightarrow> commander_inv (publish_armed_status (state_machine_publish
     (upd (\<lambda>s. s\<lparr>flag_hil_enabled := True\<rparr>) c)))"
  by (simp add: commander_inv_def same_state_def publish_defs)

lemma request_arming_inv:
  assumes "commander_inv c"
  obtains ret c' where "request_arming m r c = Returned ret c'" "commander_inv c'"
    "view c' = (if arms m \<and> grounded c then SYSTEM_STATE_GROUND_READY else fst (view c), snd (view c))"
    "ret = (if arms m \<and> grounded c then 0 else r)"
proof (cases "arms m \<and> grounded c")
  case True
  with assms have "request_arming m r c =
      and_then (go_state SYSTEM_STATE_GROUND_READY c) (\<lambda>_. Returned (word_of_int OK))"
    by (auto simp: request_arming_def commander_inv_def arms_def grounded_def Let_def)
  moreover obtain c' where "go_state SYSTEM_STATE_GROUND_READY c = Returned () c'"
    "commander_inv c'" "view c' = (SYSTEM_STATE_GROUND_READY, snd (view c))"
    by (rule go_state_enters [of SYSTEM_STATE_GROUND_READY c]) auto
  ultimately show ?thesis using that True by (simp add: OK_def)
next
  case False
  then have "request_arming m r c = Returned r c"
    by (auto simp: request_arming_def arms_def grounded_def Let_def)
  then show ?thesis using that [of r c] assms False by (auto simp: view_def)
qed

lemma request_disarming_inv:
  assumes "commander_inv c"
  obtains ret c' where "request_disarming m r c = Returned ret c'" "commander_inv c'"
    "view c' = (if \<not> arms m \<and> fst (view c) = SYSTEM_STATE_GROUND_READY
                then SYSTEM_STATE_STANDBY else fst (view c), snd (view c))"
    "ret = (if \<not> arms m \<and> fst (view c) = SYSTEM_STATE_GROUND_READY then 0 else r)"
proof (cases "\<not> arms m \<and> fst (view c) = SYSTEM_STATE_GROUND_READY")
  case True
  with assms have "request_disarming m r c =
      and_then (go_state SYSTEM_STATE_STANDBY c) (\<lambda>_. Returned (word_of_int OK))"
    by (auto simp: request_disarming_def commander_inv_def arms_def view_def)
  moreover obtain c' where "go_state SYSTEM_STATE_STANDBY c = Returned () c'"
    "commander_inv c'" "view c' = (SYSTEM_STATE_STANDBY, snd (view c))"
    by (rule go_state_enters [of SYSTEM_STATE_STANDBY c]) auto
  ultimately show ?thesis using that True by (simp add: OK_def)
next
  case False
  then have "request_disarming m r c = Returned r c"
    by (auto simp: request_disarming_def arms_def view_def)
  then show ?thesis using that [of r c] assms False by (auto simp: view_def)
qed

lemma request_hil_inv:
  assumes "commander_inv c"
  obtains ret c' where "request_hil m r c = Returned ret c'" "commander_inv c'"
    "view c' = (fst (view c), snd (view c) \<or> fst (view c) = SYSTEM_STATE_STANDBY \<and> wants_hil m)"
    "ret = (if snd (view c) \<and> \<not> wants_hil m then word_of_int ERROR
            else if \<not> snd (view c) \<and> fst (view c) = SYSTEM_STATE_STANDBY \<and> wants_hil m then 0 else r)"
proof (cases "fst (view c) = SYSTEM_STATE_STANDBY \<and> wants_hil m \<and> \<not> snd (view c)")
  case True
  let ?c = "publish_armed_status (state_machine_publish (upd (\<lambda>s. s\<lparr>flag_hil_enabled := True\<rparr>) c))"
  from True have "request_hil m r c = Returned 0 ?c"
    by (auto simp: request_hil_def view_def wants_hil_def OK_def)
  moreover have "view ?c = (fst (view c), True)"
    by (simp add: view_def publish_defs)
  ultimately show ?thesis
    using that [of 0 ?c] hil_publication_inv [OF assms] True by auto
next
  case False
  then have "request_hil m r c =
      Returned (if snd (view c) \<and> \<not> wants_hil m then word_of_int ERROR else r) c"
    by (auto simp: request_hil_def view_def wants_hil_def)
  then show ?thesis
    using that [OF _ assms] False by (auto simp: view_def)
qed

text \<open>The code returned by a mode request, as a function of the automaton's state.\<close>

definition spec_mode_code :: "u8 \<Rightarrow> commander_state_machine_t \<times> bool \<Rightarrow> u8" where
  "spec_mode_code m s =
     (let st = fst s; hil = snd s;
          handled = (if arms m then st \<in> {SYSTEM_STATE_STANDBY, SYSTEM_STATE_PREFLIGHT}
                     else st = SYSTEM_STATE_GROUND_READY);
          standby = (\<not> arms m \<and> st \<in> {SYSTEM_STATE_STANDBY, SYSTEM_STATE_GROUND_READY})
      in if hil \<and> \<not> wants_hil m then 255
         else if handled \<or> (\<not> hil \<and> standby \<and> wants_hil m) then 0 else 1)"

lemma mode_request_refines:
  assumes "commander_inv c"
  obtains c' where "update_state_machine_mode_request m c = Returned (spec_mode_code m (view c)) c'"
    "commander_inv c'" "spec_step (Mode_request m) (view c) = Some (view c')"
proof -
  obtain r1 c1 where 1: "request_arming m 1 c = Returned r1 c1" "commander_inv c1"
    "view c1 = (if arms m \<and> grounded c then SYSTEM_STATE_GROUND_READY else fst (view c), snd (view c))"
    "r1 = (if arms m \<and> grounded c then 0 else 1)"
    by (rule request_arming_inv [OF assms, of m 1]) blast
  obtain r2 c2 where 2: "request_disarming m r1 c1 = Returned r2 c2" "commander_inv c2"
    "view c2 = (if \<not> arms m \<and> fst (view c1) = SYSTEM_STATE_GROUND_READY
                then SYSTEM_STATE_STANDBY else fst (view c1), snd (view c1))"
    "r2 = (if \<not> arms m \<and> fst (view c1) = SYSTEM_STATE_GROUND_READY then 0 else r1)"
    by (rule request_disarming_inv [OF 1(2), of m r1]) blast
  obtain r3 c3 where 3: "request_hil m r2 c2 = Returned r3 c3" "commander_inv c3"
    "view c3 = (fst (view c2), snd (view c2) \<or> fst (view c2) = SYSTEM_STATE_STANDBY \<and> wants_hil m)"
    "r3 = (if snd (view c2) \<and> \<not> wants_hil m then word_of_int ERROR
            else if \<not> snd (view c2) \<and> fst (view c2) = SYSTEM_STATE_STANDBY \<and> wants_hil m then 0 else r2)"
    by (rule request_hil_inv [OF 2(2), of m r2]) blast
  have g: "grounded c \<longleftrightarrow> fst (view c) \<in> {SYSTEM_STATE_STANDBY, SYSTEM_STATE_PREFLIGHT}"
    by (simp add: grounded_def view_def)
  have "update_state_machine_mode_request m c = Returned r3 c3"
    using 1 2 3 by (simp add: update_state_machine_mode_request_def)
  moreover have "r3 = spec_mode_code m (view c)"
  proof (cases "arms m")
    case True
    then show ?thesis
      using 1(3,4) 2(3,4) 3(4) g by (auto simp: spec_mode_code_def ERROR_def Let_def)
  next
    case False
    then show ?thesis
      using 1(3,4) 2(3,4) 3(4) g by (auto simp: spec_mode_code_def ERROR_def Let_def)
  qed
  moreover have "spec_step (Mode_request m) (view c) = Some (view c3)"
    using 1(3) 2(3) 3(3) g by (cases "view c") auto
  ultimately show ?thesis using that 3(2) by blast
qed

lemma custom_request_refines:
  assumes "commander_inv c"
  shows "case next_commander (update_state_machine_custom_mode_request m c) of
      None \<Rightarrow> spec_step (Custom_mode_request m) (view c) = None
    | Some c' \<Rightarrow> commander_inv c' \<and> spec_step (Custom_mode_request m) (view c) = Some (view c')"
proof -
  obtain ca where a: "go_state SYSTEM_STATE_AUTO c = Returned () ca" "commander_inv ca"
    "view ca = (SYSTEM_STATE_AUTO, snd (view c))"
    by (rule go_state_enters [of SYSTEM_STATE_AUTO c]) auto
  obtain cm where m: "go_state SYSTEM_STATE_MANUAL c = Returned () cm" "commander_inv cm"
    "view cm = (SYSTEM_STATE_MANUAL, snd (view c))"
    by (rule go_state_enters [of SYSTEM_STATE_MANUAL c]) auto
  have view: "view c = (state_machine (current_status c), flag_hil_enabled (current_status c))"
    by (simp add: view_def)
  have r: "grounded c \<Longrightarrow> next_commander (and_then (go_state SYSTEM_STATE_REBOOT c) (\<lambda>_. Returned (0::u8))) = None"
    by (simp add: go_state_def do_state_update_reboot)
  show ?thesis
  proof (cases "m = state_code SYSTEM_STATE_REBOOT")
    case True
    then show ?thesis
      using r assms view
      by (cases "grounded c")
         (auto simp: update_state_machine_custom_mode_request_def grounded_def Let_def)
  next
    case False
    then show ?thesis
    proof (cases "m = state_code SYSTEM_STATE_AUTO")
      case True
      then show ?thesis
        using a assms view
        by (cases "state_machine (current_status c)")
           (simp_all add: update_state_machine_custom_mode_request_def)
    next
      case not_auto: False
      show ?thesis
      proof (cases "m = state_code SYSTEM_STATE_MANUAL")
        case True
        then show ?thesis
          using m assms view
          by (cases "state_machine (current_status c)")
             (simp_all add: update_state_machine_custom_mode_request_def)
      next
        case not_manual: False
        have "update_state_machine_custom_mode_request m c = Returned 1 c"
          unfolding update_state_machine_custom_mode_request_def Let_def
          by (simp only: False not_auto not_manual if_False if_cancel)
        moreover have "spec_step (Custom_mode_request m) (view c) = Some (view c)"
          unfolding view spec_step.simps by (simp only: False not_auto not_manual if_False HOL.simp_thms)
        ultimately show ?thesis using assms by simp
      qed
    qed
  qed
qed

lemma commander_step_refines_inv:
  assumes "commander_inv c"
  shows "case commander_step e c of
      None \<Rightarrow> spec_step e (view c) = None
    | Some c' \<Rightarrow> commander_inv c' \<and> spec_step e (view c) = Some (view c')"
proof (cases e)
  case (Mode_request m)
  obtain c' where "update_state_machine_mode_request m c = Returned (spec_mode_code m (view c)) c'"
    "commander_inv c'" "spec_step (Mode_request m) (view c) = Some (view c')"
    by (rule mode_request_refines [OF assms])
  with Mode_request show ?thesis
    by (simp only: commander_step.simps next_commander.simps option.case simp_thms)
next
  case (Custom_mode_request m)
  then show ?thesis
    using custom_request_refines [OF assms, of m] by (simp only: commander_step.simps)
qed (use refines_simple [OF assms] refines_modes [OF assms] refines_emergencies [OF assms] in
      \<open>simp_all only: refines_step_def commander_step.simps\<close>)

interpretation flight: event_machine commander_step started commander_inv "\<lambda>_. True"
proof unfold_locales
  fix s
  assume "started s"
  then show "commander_inv s" by (rule commander_inv_init)
next
  fix s e s'
  assume "commander_inv s" and "commander_step e s = Some s'"
  then show "commander_inv s'" using commander_step_refines_inv [of s e] by simp
qed

lemma view_run_refines:
  "commander_inv c \<Longrightarrow> map_option view (run_steps commander_step es c) = run_steps spec_step es (view c)"
proof (induction es arbitrary: c)
  case Nil
  then show ?case by simp
next
  case (Cons e es)
  then show ?case using commander_step_refines_inv [of c e]
    by (auto split: option.splits)
qed

section \<open>Properties kept by every publication\<close>

text \<open>
  The operations are built from seven primitive effects. A property of the task's record that
  each of them keeps is kept by every operation.
\<close>

locale effect_property =
  fixes P :: "commander \<Rightarrow> bool"
  assumes publish: "P c \<Longrightarrow> P (state_machine_publish c)"
    and publish_armed: "P c \<Longrightarrow> P (publish_armed_status c)"
    and log: "P c \<Longrightarrow> P (mavlink_log_critical m c)"
    and arming: "P c \<Longrightarrow> P (set_armed b c)"
    and state: "P c \<Longrightarrow> P (upd (\<lambda>s. s\<lparr>state_machine := n\<rparr>) c)"
    and mode: "P c \<Longrightarrow> P (upd (\<lambda>s. s\<lparr>flight_mode := fm, flag_control_manual_enabled := True,
        flag_control_attitude_enabled := 1, flag_control_rates_enabled := 0\<rparr>) c)"
    and hil: "P c \<Longrightarrow> P (upd (\<lambda>s. s\<lparr>flag_hil_enabled := True\<rparr>) c)"
begin

lemma enter: "P c \<Longrightarrow> P (enter_state n c)"
  unfolding enter_state_def by (intro publish_armed publish state)

lemma update: "P c \<Longrightarrow> do_state_update n c = Returned r c' \<Longrightarrow> P c'"
  using do_state_update_accepts [of n c]
  by (cases "n \<in> {SYSTEM_STATE_PREFLIGHT, SYSTEM_STATE_REBOOT, SYSTEM_STATE_MISSION_ABORT}")
     (auto simp: do_state_update_preflight do_state_update_reboot do_state_update_abort
       intro!: enter log arming split: if_splits)

lemma go: "P c \<Longrightarrow> go_state n c = Returned () c' \<Longrightarrow> P c'"
  by (cases "do_state_update n c") (auto simp: go_state_def intro: update)

lemma flight_mode: "P c \<Longrightarrow> P (enter_flight_mode m c)"
  by (auto simp: enter_flight_mode_def Let_def intro: publish mode)

lemma mode_request:
  assumes "P c" "update_state_machine_mode_request m c = Returned r c'"
  shows "P c'"
proof -
  have 1: "request_arming m x y = Returned r' z \<Longrightarrow> P y \<Longrightarrow> P z" for x y r' z
    by (cases "go_state SYSTEM_STATE_GROUND_READY y")
       (auto simp: request_arming_def Let_def split: if_splits intro: go)
  have 2: "request_disarming m x y = Returned r' z \<Longrightarrow> P y \<Longrightarrow> P z" for x y r' z
    by (cases "go_state SYSTEM_STATE_STANDBY y")
       (auto simp: request_disarming_def split: if_splits intro: go)
  have 3: "request_hil m x y = Returned r' z \<Longrightarrow> P y \<Longrightarrow> P z" for x y r' z
    by (auto simp: request_hil_def Let_def split: if_splits intro!: hil publish publish_armed)
  obtain r1 c1 where a: "request_arming m 1 c = Returned r1 c1"
    using assms(2) by (cases "request_arming m 1 c") (auto simp: update_state_machine_mode_request_def)
  obtain r2 c2 where b: "request_disarming m r1 c1 = Returned r2 c2"
    using assms(2) a
    by (cases "request_disarming m r1 c1") (auto simp: update_state_machine_mode_request_def)
  from a b assms(2) have "request_hil m r2 c2 = Returned r c'"
    by (simp add: update_state_machine_mode_request_def)
  with a b assms(1) show ?thesis by (blast intro: 1 2 3)
qed

lemma custom_request:
  "P c \<Longrightarrow> update_state_machine_custom_mode_request m c = Returned r c' \<Longrightarrow> P c'"
  by (cases "go_state SYSTEM_STATE_REBOOT c"; cases "go_state SYSTEM_STATE_AUTO c";
      cases "go_state SYSTEM_STATE_MANUAL c")
     (auto simp: update_state_machine_custom_mode_request_def Let_def split: if_splits intro: go)

lemma go_next: "P c \<Longrightarrow> next_commander (go_state n c) = Some c' \<Longrightarrow> P c'"
  by (cases "go_state n c") (auto intro: go)

lemmas operation_defs = update_state_machine_got_position_fix_def update_state_machine_arm_def
  update_state_machine_no_position_fix_def update_state_machine_disarm_def
  update_state_machine_mode_manual_def update_state_machine_mode_stabilized_def
  update_state_machine_mode_auto_def state_machine_emergency_def
  state_machine_emergency_always_critical_def Let_def

lemma step:
  assumes "P c" "commander_step e c = Some c'"
  shows "P c'"
proof (cases e)
  case (Mode_request m)
  with assms show ?thesis
    by (cases "update_state_machine_mode_request m c") (auto intro: mode_request)
next
  case (Custom_mode_request m)
  with assms show ?thesis
    by (cases "update_state_machine_custom_mode_request m c") (auto intro: custom_request)
qed (use assms in \<open>auto simp: operation_defs split: if_splits intro: flight_mode
       dest!: go_next [rotated] elim: go_next [OF flight_mode]\<close>)

lemma run: "P c \<Longrightarrow> run_steps commander_step es c = Some c' \<Longrightarrow> P c'"
  by (induction es arbitrary: c) (auto split: option.splits dest: step)

end

text \<open>Two such properties. Publications are numbered and carry successive clock readings:\<close>

definition stamped :: "(nat \<Rightarrow> u64) \<Rightarrow> commander \<Rightarrow> bool" where
  "stamped clock c \<longleftrightarrow> hrt c = clock \<and> pub_status c \<noteq> [] \<and>
     length (pub_status c) = Suc (hrt_reads c) \<and>
     counter (current_status c) = of_nat (hrt_reads c) \<and>
     map timestamp (tl (pub_status c)) = map clock [0..<hrt_reads c] \<and>
     map counter (pub_status c) = map of_nat [0..<length (pub_status c)]"

interpretation stamps: effect_property "stamped clock" for clock
  by unfold_locales (auto simp: stamped_def publish_defs)

lemma stamped_init: "stamped clock (commander_init clock)"
  by (simp add: stamped_def commander_init_def initial_status_def publish_defs)

text \<open>
  And once hardware-in-the-loop mode is on, it stays on and every order sent to the actuators
  from then on locks them down.
\<close>

definition locked_since :: "commander \<Rightarrow> commander \<Rightarrow> bool" where
  "locked_since c0 c \<longleftrightarrow> flag_hil_enabled (current_status c) \<and>
     (\<exists>new. pub_armed c = pub_armed c0 @ new \<and> list_all lockdown new)"

interpretation lockdown: effect_property "locked_since c0" for c0
  by unfold_locales (auto simp: locked_since_def publish_defs)

lemma commander_refines_automaton_run:
  "map_option view (run_steps commander_step es (commander_init clock)) =
     run_steps spec_step es (SYSTEM_STATE_PREFLIGHT, False)"
proof -
  have "commander_inv (commander_init clock)"
    by (rule commander_inv_init) (auto simp: started_def)
  moreover have "view (commander_init clock) = (SYSTEM_STATE_PREFLIGHT, False)"
    by (simp add: view_def commander_init_def initial_status_def publish_defs)
  ultimately show ?thesis by (simp add: view_run_refines)
qed

lemma spec_run_of:
  "run_steps commander_step es (commander_init clock) = Some c \<Longrightarrow>
   run_steps spec_step es (SYSTEM_STATE_PREFLIGHT, False) = Some (view c)"
  using commander_refines_automaton_run [of es clock] by simp

section \<open>Properties\<close>

text \<open>
  C1. The state machine refines its automaton: for every sequence of operations from start-up,
  the state and the hardware-in-the-loop flag are those of the automaton, and the system
  reboots exactly where the automaton stops.
\<close>

theorem commander_refines_automaton:
  "map_option view (run_steps commander_step es (commander_init clock)) =
     run_steps spec_step es (SYSTEM_STATE_PREFLIGHT, False)"
  by (rule commander_refines_automaton_run)

text \<open>The order the actuators obey: the last one published, disarmed before any.\<close>

definition actuators :: "commander \<Rightarrow> actuator_armed" where
  "actuators c = (if pub_armed c = [] then \<lparr>armed = False, lockdown = True\<rparr> else last (pub_armed c))"

text \<open>
  C2. After any sequence of operations from start-up, the last order published to the actuators
  arms them exactly in the armed states, and a subscriber of the status topic sees the
  current state, armed flag and hardware-in-the-loop flag.
\<close>

theorem actuators_follow_state:
  assumes "run_steps commander_step es (commander_init clock) = Some c"
  shows "armed (actuators c) = armed_state (state_machine (current_status c)) \<and>
    same_state (last (pub_status c)) (current_status c)"
proof -
  have "commander_inv c"
    using flight.inv_run [OF _ _ assms] by (auto simp: started_def list_all_iff)
  then show ?thesis
    by (auto simp: commander_inv_def actuators_def armed_of_def)
qed

theorem actuators_follow_state_witness:
  "\<exists>c. run_steps commander_step [Got_position_fix, Arm] (commander_init (\<lambda>k. 0)) = Some c \<and>
     armed (actuators c) \<and> same_state (last (pub_status c)) (current_status c)"
proof -
  have v: "map_option view (run_steps commander_step [Got_position_fix, Arm] (commander_init (\<lambda>k. 0))) =
      Some (SYSTEM_STATE_GROUND_READY, False)"
    by (subst view_run_refines [OF commander_inv_init])
       (auto simp: started_def view_def commander_init_def initial_status_def publish_defs)
  then obtain c where c: "run_steps commander_step [Got_position_fix, Arm] (commander_init (\<lambda>k. 0)) = Some c"
    and "view c = (SYSTEM_STATE_GROUND_READY, False)"
    by auto
  then show ?thesis
    using actuators_follow_state [OF c] by (auto simp: view_def)
qed

text \<open>The operations that ask for arming.\<close>

fun arming_event :: "commander_event \<Rightarrow> bool" where
  "arming_event Arm = True"
| "arming_event (Mode_request m) = arms m"
| "arming_event _ = False"

lemma spec_armed_step:
  "spec_step e s = Some s' \<Longrightarrow> armed_state (fst s') \<Longrightarrow> armed_state (fst s) \<or> arming_event e"
  by (cases s; cases e; cases "fst s")
     (auto simp: ready_or_flying_def Let_def split: if_splits)

lemma spec_armed_run:
  "run_steps spec_step es s = Some s' \<Longrightarrow> armed_state (fst s') \<Longrightarrow>
   armed_state (fst s) \<or> (\<exists>e \<in> set es. arming_event e)"
  by (induction es arbitrary: s) (auto split: option.splits dest: spec_armed_step)

text \<open>
  The vehicle never flies unarmed by accident: if the state after a sequence of operations
  is an armed or a flying one, the sequence holds an explicit request to arm.
\<close>

theorem armed_only_on_request:
  assumes "run_steps commander_step es (commander_init clock) = Some c"
    and "armed_state (state_machine (current_status c)) \<or> flying_state (state_machine (current_status c))"
  shows "\<exists>e \<in> set es. arming_event e"
proof -
  have "run_steps spec_step es (SYSTEM_STATE_PREFLIGHT, False) = Some (view c)"
    using assms(1) by (rule spec_run_of)
  moreover have "armed_state (fst (view c))"
    using assms(2) by (cases "state_machine (current_status c)") (simp_all add: view_def)
  ultimately show ?thesis
    using spec_armed_run [of es "(SYSTEM_STATE_PREFLIGHT, False)" "view c"] by simp
qed

theorem armed_only_on_request_witness:
  "\<exists>c. run_steps commander_step [Mode_request 128, Mode_manual] (commander_init (\<lambda>k. 0)) = Some c \<and>
     flying_state (state_machine (current_status c)) \<and>
     (\<exists>e \<in> set [Mode_request 128, Mode_manual]. arming_event e)"
proof -
  have "map_option view (run_steps commander_step [Mode_request 128, Mode_manual] (commander_init (\<lambda>k. 0))) =
      Some (SYSTEM_STATE_MANUAL, False)"
    by (subst commander_refines_automaton_run)
       (simp add: arms_def VEHICLE_MODE_FLAG_SAFETY_ARMED_def ready_or_flying_def Let_def)
  then obtain c where c: "run_steps commander_step [Mode_request 128, Mode_manual] (commander_init (\<lambda>k. 0)) = Some c"
    and s: "state_machine (current_status c) = SYSTEM_STATE_MANUAL"
    by (auto simp: view_def)
  from armed_only_on_request [OF c] s show ?thesis using c by simp
qed

text \<open>
  Hardware-in-the-loop mode is a latch: once on, no sequence of operations turns it off,
  and every order sent to the actuators after that locks them down.
\<close>

theorem hil_latched:
  assumes "flag_hil_enabled (current_status c)"
    and "run_steps commander_step es c = Some c'"
  shows "flag_hil_enabled (current_status c') \<and>
    (\<exists>new. pub_armed c' = pub_armed c @ new \<and> (\<forall>a \<in> set new. lockdown a))"
proof -
  have "locked_since c c" using assms(1) by (simp add: locked_since_def)
  then have "locked_since c c'" using assms(2) by (rule lockdown.run)
  then show ?thesis by (auto simp: locked_since_def list_all_iff)
qed

theorem hil_latched_witness:
  "\<exists>c c'. run_steps commander_step [Got_position_fix, Mode_request 32] (commander_init (\<lambda>k. 0)) = Some c \<and>
     run_steps commander_step [Mode_request 0] c = Some c' \<and>
     flag_hil_enabled (current_status c') \<and>
     (\<exists>new. pub_armed c' = pub_armed c @ new \<and> (\<forall>a \<in> set new. lockdown a))"
proof -
  have "map_option view (run_steps commander_step [Got_position_fix, Mode_request 32]
      (commander_init (\<lambda>k. 0))) = Some (SYSTEM_STATE_STANDBY, True)"
    by (subst commander_refines_automaton_run)
       (simp add: arms_def wants_hil_def VEHICLE_MODE_FLAG_SAFETY_ARMED_def
         VEHICLE_MODE_FLAG_HIL_ENABLED_def Let_def)
  then obtain c where c: "run_steps commander_step [Got_position_fix, Mode_request 32]
      (commander_init (\<lambda>k. 0)) = Some c" and v: "view c = (SYSTEM_STATE_STANDBY, True)"
    by auto
  have "commander_inv c" using flight.inv_run [OF _ _ c] by (auto simp: started_def)
  then have "map_option view (run_steps commander_step [Mode_request 0] c) =
      run_steps spec_step [Mode_request 0] (SYSTEM_STATE_STANDBY, True)"
    using view_run_refines [of c "[Mode_request 0]"] v by simp
  then obtain c' where "run_steps commander_step [Mode_request 0] c = Some c'"
    by (auto simp: Let_def)
  with c v hil_latched [of c "[Mode_request 0]" c'] show ?thesis
    by (auto simp: view_def)
qed

text \<open>
  Every published status is stamped with the next clock reading and numbered consecutively
  (modulo \<open>2 ^ 16\<close>), the initial advertisement having number 0.
\<close>

theorem publications_stamped:
  assumes "run_steps commander_step es (commander_init clock) = Some c"
  shows "map timestamp (tl (pub_status c)) = map clock [0..<hrt_reads c] \<and>
    map counter (pub_status c) = map of_nat [0..<length (pub_status c)] \<and>
    length (pub_status c) = Suc (hrt_reads c)"
  using stamps.run [OF stamped_init assms] by (auto simp: stamped_def)

theorem publications_stamped_witness:
  "\<exists>c. run_steps commander_step [Got_position_fix] (commander_init of_nat) = Some c \<and>
     map counter (pub_status c) = map of_nat [0..<length (pub_status c)]"
proof -
  have "run_steps spec_step [Got_position_fix] (SYSTEM_STATE_PREFLIGHT, False) \<noteq> None"
    by simp
  then obtain c where c: "run_steps commander_step [Got_position_fix] (commander_init of_nat) = Some c"
    using commander_refines_automaton_run [of "[Got_position_fix]" of_nat] by fastforce
  with publications_stamped [OF c] show ?thesis by blast
qed

text \<open>
  The answer to a mode request. In a state that satisfies the invariant the request is
  answered 0 (accepted) when it arms on the ground, disarms from ground-ready or switches
  hardware-in-the-loop mode on in standby; 255 when it would switch that mode off; and 1
  otherwise. The state moves as the automaton's does, and the invariant is kept.
\<close>

theorem mode_request_code:
  assumes "commander_inv c"
  shows "\<exists>c'. update_state_machine_mode_request m c = Returned (spec_mode_code m (view c)) c' \<and>
    commander_inv c' \<and> spec_step (Mode_request m) (view c) = Some (view c')"
  using mode_request_refines [OF assms] by blast

theorem mode_request_code_witness:
  "\<exists>c'. update_state_machine_mode_request 128 (commander_init (\<lambda>k. 7)) = Returned 0 c' \<and>
     view c' = (SYSTEM_STATE_GROUND_READY, False)"
proof -
  have i: "commander_inv (commander_init (\<lambda>k. 7))"
    by (rule commander_inv_init) (auto simp: started_def)
  have v: "view (commander_init (\<lambda>k. 7)) = (SYSTEM_STATE_PREFLIGHT, False)"
    by (simp add: view_def commander_init_def initial_status_def publish_defs)
  show ?thesis
    using mode_request_code [OF i, of 128]
    by (auto simp: v spec_mode_code_def arms_def wants_hil_def VEHICLE_MODE_FLAG_SAFETY_ARMED_def
        VEHICLE_MODE_FLAG_HIL_ENABLED_def Let_def)
qed

text \<open>
  C3. A refused transition is carried out all the same. Asked to enter the preflight state
  while neither in standby nor in preflight, \<open>do_state_update\<close> answers \<open>ERROR\<close>, but the state
  machine is then in the preflight state, the armed flag keeps its value, and the change
  is published: an armed vehicle ends up armed in preflight, outside the invariant.
\<close>

theorem refused_transition_is_taken:
  assumes "state_machine (current_status c) \<notin> {SYSTEM_STATE_STANDBY, SYSTEM_STATE_PREFLIGHT}"
  shows "\<exists>c'. do_state_update SYSTEM_STATE_PREFLIGHT c = Returned ERROR c' \<and>
    state_machine (current_status c') = SYSTEM_STATE_PREFLIGHT \<and>
    flag_system_armed (current_status c') = flag_system_armed (current_status c) \<and>
    last (pub_status c') = current_status c' \<and>
    (commander_inv c' \<longrightarrow> \<not> flag_system_armed (current_status c))"
  using assms
  by (auto simp: do_state_update_preflight grounded_def commander_inv_def)

theorem refused_transition_is_taken_witness:
  "\<exists>c c'. run_steps commander_step [Mode_request 128, Mode_auto] (commander_init (\<lambda>k. 0)) = Some c \<and>
     do_state_update SYSTEM_STATE_PREFLIGHT c = Returned ERROR c' \<and>
     state_machine (current_status c') = SYSTEM_STATE_PREFLIGHT \<and>
     flag_system_armed (current_status c') \<and> \<not> commander_inv c'"
proof -
  have "map_option view (run_steps commander_step [Mode_request 128, Mode_auto] (commander_init (\<lambda>k. 0))) =
      Some (SYSTEM_STATE_AUTO, False)"
    by (subst commander_refines_automaton_run)
       (simp add: arms_def VEHICLE_MODE_FLAG_SAFETY_ARMED_def ready_or_flying_def Let_def)
  then obtain c where c: "run_steps commander_step [Mode_request 128, Mode_auto] (commander_init (\<lambda>k. 0)) = Some c"
    and s: "state_machine (current_status c) = SYSTEM_STATE_AUTO"
    by (auto simp: view_def)
  have "commander_inv c" using flight.inv_run [OF _ _ c] by (auto simp: started_def)
  with s have a: "flag_system_armed (current_status c)" by (simp add: commander_inv_def)
  have "\<exists>c'. do_state_update SYSTEM_STATE_PREFLIGHT c = Returned ERROR c' \<and>
    state_machine (current_status c') = SYSTEM_STATE_PREFLIGHT \<and>
    flag_system_armed (current_status c') = flag_system_armed (current_status c) \<and>
    last (pub_status c') = current_status c' \<and>
    (commander_inv c' \<longrightarrow> \<not> flag_system_armed (current_status c))"
    by (rule refused_transition_is_taken) (simp add: s)
  with a c show ?thesis by blast
qed

text \<open>
  The emergency handlers. On the ground they lead to the error state with motors disarmed,
  in manual and automatic flight to an armed mission abort (manual only when the handler
  is told that the error is always critical); in stabilized flight they do nothing at all.
\<close>

theorem emergency_by_state:
  "\<exists>c'. state_machine_emergency_always_critical c = Returned () c' \<and>
    (case state_machine (current_status c) of
       SYSTEM_STATE_PREFLIGHT \<Rightarrow> view c' = (SYSTEM_STATE_GROUND_ERROR, snd (view c)) \<and> \<not> armed (actuators c')
     | SYSTEM_STATE_STANDBY \<Rightarrow> view c' = (SYSTEM_STATE_GROUND_ERROR, snd (view c)) \<and> \<not> armed (actuators c')
     | SYSTEM_STATE_GROUND_READY \<Rightarrow> view c' = (SYSTEM_STATE_GROUND_ERROR, snd (view c)) \<and> \<not> armed (actuators c')
     | SYSTEM_STATE_AUTO \<Rightarrow> view c' = (SYSTEM_STATE_MISSION_ABORT, snd (view c)) \<and> armed (actuators c')
     | SYSTEM_STATE_MANUAL \<Rightarrow> view c' = (SYSTEM_STATE_MISSION_ABORT, snd (view c)) \<and> armed (actuators c')
     | _ \<Rightarrow> c' = c) \<and>
    (state_machine (current_status c) = SYSTEM_STATE_MANUAL \<longrightarrow> state_machine_emergency c = Returned () c) \<and>
    (state_machine (current_status c) \<noteq> SYSTEM_STATE_MANUAL \<longrightarrow>
       state_machine_emergency c = Returned () c')"
proof -
  obtain m where g: "go_state SYSTEM_STATE_GROUND_ERROR c =
      Returned () (enter_state SYSTEM_STATE_GROUND_ERROR (mavlink_log_critical m (set_armed False c)))"
    using go_state_accepts [of SYSTEM_STATE_GROUND_ERROR c] by auto
  show ?thesis
    by (cases "state_machine (current_status c)")
       (simp_all add: state_machine_emergency_def state_machine_emergency_always_critical_def
         g go_state_def [of SYSTEM_STATE_MISSION_ABORT] do_state_update_abort view_def
         actuators_def armed_of_def)
qed

theorem emergency_by_state_witness:
  "\<exists>c c'. state_machine (current_status c) = SYSTEM_STATE_STABILIZED \<and>
     state_machine_emergency c = Returned () c \<and>
     state_machine_emergency_always_critical c = Returned () c' \<and> c' = c"
proof -
  let ?c = "upd (\<lambda>s. s\<lparr>state_machine := SYSTEM_STATE_STABILIZED\<rparr>) (commander_init (\<lambda>k. 0))"
  show ?thesis
    using emergency_by_state [of ?c] by (intro exI [of _ ?c]) auto
qed

end
