(* ===== verification/Mission.thy ===== *)
theory Mission
  imports Float32
begin

text \<open>
  The MAVLink mission (waypoint) protocol: \<open>apps/mavlink/waypoints.c\<close> and \<open>waypoints.h\<close>.

  The storage structure is the record \<open>wpm_storage\<close>; the messages it exchanges, after the
  MAVLink library has decoded them, are the datatype \<open>mission_msg\<close>; everything the code
  sends is appended to an outbox. Arrays have the code's fixed size and every access is
  checked by the model (not by the code): \<open>None\<close> is an access outside an array. Text
  printed on the console is not modelled. The distance to a waypoint is computed with the
  C library's trigonometry and square root, which are not part of the repository: the two
  distances are parameters, see \<open>nav\<close>.
\<close>

section \<open>Data\<close>

record mission_item =
  param1 :: float_bits
  param2 :: float_bits
  param3 :: float_bits
  param4 :: float_bits
  item_x :: float_bits
  item_y :: float_bits
  item_z :: float_bits
  seq :: u16
  command :: u16
  target_system :: u8
  target_component :: u8
  frame :: u8
  current :: u8
  autocontinue :: u8

datatype wpm_state =
    MAVLINK_WPM_STATE_IDLE
  | MAVLINK_WPM_STATE_SENDLIST
  | MAVLINK_WPM_STATE_SENDLIST_SENDWPS
  | MAVLINK_WPM_STATE_GETLIST
  | MAVLINK_WPM_STATE_GETLIST_GETWPS
  | MAVLINK_WPM_STATE_GETLIST_GOTALL

definition MAVLINK_WPM_MAX_WP_COUNT :: nat where
  "MAVLINK_WPM_MAX_WP_COUNT = 15"

record wpm_storage =
  waypoints :: "mission_item list"
  rcv_waypoints :: "mission_item list"
  wp_size :: u16
  max_size :: u16
  rcv_size :: u16
  current_state :: wpm_state
  current_wp_id :: u16
  current_active_wp_id :: u16
  current_count :: u16
  current_partner_sysid :: u8
  current_partner_compid :: u8
  timestamp_lastaction :: u64
  timestamp_last_send_setpoint :: u64
  timestamp_firstinside_orbit :: u64
  timestamp_lastoutside_orbit :: u64
  timeout :: u32
  delay_setpoint :: u32
  accept_range_yaw :: float_bits
  accept_range_distance :: float_bits
  yaw_reached :: bool
  pos_reached :: bool
  idle :: bool

text \<open>What the component sends: protocol messages, texts, and the new setpoint.\<close>

datatype mission_out =
    Out_ack u8 u8 u8
  | Out_current u16
  | Out_count u8 u8 u16
  | Out_item mission_item
  | Out_request u8 u8 u16
  | Out_reached u16
  | Out_text string
  | Out_setpoint u16 "float_bits list" u8 u16

text \<open>
  The mission component: the structure \<open>*wpm\<close>, the outbox (oldest first), the address
  of this system, and the clock (\<open>clock k\<close> is the value of the \<open>k\<close>-th reading).
\<close>

record mission =
  wpm :: wpm_storage
  outbox :: "mission_out list"
  my_sysid :: u8
  clock :: "nat \<Rightarrow> u64"
  clock_reads :: nat

definition mavlink_wpm_comp_id :: u8 where
  "mavlink_wpm_comp_id = 190"

text \<open>Where the vehicle is, as far as the component asks: its distance to an item.\<close>

record nav =
  dist_wgs84 :: "mission_item \<Rightarrow> float_bits"
  dist_local :: "mission_item \<Rightarrow> float_bits"

abbreviation upd_wpm :: "(wpm_storage \<Rightarrow> wpm_storage) \<Rightarrow> mission \<Rightarrow> mission" where
  "upd_wpm f s \<equiv> s\<lparr>wpm := f (wpm s)\<rparr>"

definition send :: "mission_out \<Rightarrow> mission \<Rightarrow> mission" where
  "send m s = s\<lparr>outbox := outbox s @ [m]\<rparr>"

definition gcs_text :: "string \<Rightarrow> mission \<Rightarrow> mission" where
  "gcs_text t s = send (Out_text t) s"

section \<open>Initialisation and the sending functions\<close>

text \<open>
  \<open>mavlink_wpm_init\<close> sets these fields and leaves the others as they are.
\<close>

definition mavlink_wpm_init :: "wpm_storage \<Rightarrow> wpm_storage" where
  "mavlink_wpm_init w = w\<lparr>wp_size := 0, max_size := of_nat MAVLINK_WPM_MAX_WP_COUNT,
     current_state := MAVLINK_WPM_STATE_IDLE, current_partner_sysid := 0,
     current_partner_compid := 0, timestamp_lastaction := 0, timestamp_last_send_setpoint := 0,
     timeout := 5000000, delay_setpoint := 1000000, idle := False, current_active_wp_id := -1,
     yaw_reached := False, pos_reached := False, timestamp_lastoutside_orbit := 0,
     timestamp_firstinside_orbit := 0\<rparr>"

text \<open>
  The sender functions take the partner's address as arguments that they ignore: they use
  the stored partner. Text feedback is switched off in \<open>waypoints.h\<close>.
\<close>

definition mavlink_wpm_send_waypoint_ack :: "u8 \<Rightarrow> mission \<Rightarrow> mission" where
  "mavlink_wpm_send_waypoint_ack ty s =
     send (Out_ack (current_partner_sysid (wpm s)) (current_partner_compid (wpm s)) ty) s"

definition mavlink_wpm_send_waypoint_current :: "u16 \<Rightarrow> mission \<Rightarrow> mission option" where
  "mavlink_wpm_send_waypoint_current n s =
     (if n < wp_size (wpm s)
      then map_option (\<lambda>cur. send (Out_current (seq cur)) s) (array_get (waypoints (wpm s)) (unat n))
      else Some s)"

definition mavlink_wpm_send_setpoint :: "u16 \<Rightarrow> mission \<Rightarrow> mission option" where
  "mavlink_wpm_send_setpoint n s =
     (if n < wp_size (wpm s)
      then map_option (\<lambda>cur.
        (let s1 = send (Out_setpoint (seq cur) [param1 cur, param2 cur, param3 cur, param4 cur,
                     item_x cur, item_y cur, item_z cur] (frame cur) (command cur)) s
         in (upd_wpm (\<lambda>w. w\<lparr>timestamp_last_send_setpoint := clock s (clock_reads s)\<rparr>) s1)
              \<lparr>clock_reads := Suc (clock_reads s)\<rparr>))
        (array_get (waypoints (wpm s)) (unat n))
      else Some s)"

definition mavlink_wpm_send_waypoint_count :: "u16 \<Rightarrow> mission \<Rightarrow> mission" where
  "mavlink_wpm_send_waypoint_count count s =
     send (Out_count (current_partner_sysid (wpm s)) (current_partner_compid (wpm s)) count) s"

text \<open>Sending an item stores the partner's address in the item itself.\<close>

definition mavlink_wpm_send_waypoint :: "u16 \<Rightarrow> mission \<Rightarrow> mission option" where
  "mavlink_wpm_send_waypoint n s =
     (if n < wp_size (wpm s)
      then (case array_get (waypoints (wpm s)) (unat n) of
          None \<Rightarrow> None
        | Some wp \<Rightarrow>
            (let wp' = wp\<lparr>target_system := current_partner_sysid (wpm s),
                          target_component := current_partner_compid (wpm s)\<rparr>
             in Some (send (Out_item wp')
                  (upd_wpm (\<lambda>w. w\<lparr>waypoints := (waypoints w)[unat n := wp']\<rparr>) s))))
      else Some s)"

definition mavlink_wpm_send_waypoint_request :: "u16 \<Rightarrow> mission \<Rightarrow> mission" where
  "mavlink_wpm_send_waypoint_request n s =
     (if n < max_size (wpm s)
      then send (Out_request (current_partner_sysid (wpm s)) (current_partner_compid (wpm s)) n) s
      else s)"

definition mavlink_wpm_send_waypoint_reached :: "u16 \<Rightarrow> mission \<Rightarrow> mission" where
  "mavlink_wpm_send_waypoint_reached n s = send (Out_reached n) s"

section \<open>Following the mission\<close>

definition MAV_FRAME_GLOBAL :: u8 where "MAV_FRAME_GLOBAL = 0"
definition MAV_FRAME_LOCAL_NED :: u8 where "MAV_FRAME_LOCAL_NED = 1"
definition MAV_FRAME_GLOBAL_RELATIVE_ALT :: u8 where "MAV_FRAME_GLOBAL_RELATIVE_ALT = 3"
definition MAV_FRAME_LOCAL_ENU :: u8 where "MAV_FRAME_LOCAL_ENU = 4"

text \<open>The distance to item \<open>n\<close> in its own frame; \<open>-1.0f\<close> for the other frames.\<close>

definition waypoint_distance :: "nav \<Rightarrow> mission_item \<Rightarrow> float_bits" where
  "waypoint_distance p cur =
     (if frame cur = MAV_FRAME_GLOBAL \<or> frame cur = MAV_FRAME_GLOBAL_RELATIVE_ALT
      then dist_wgs84 p cur
      else if frame cur = MAV_FRAME_LOCAL_ENU \<or> frame cur = MAV_FRAME_LOCAL_NED
      then dist_local p cur
      else 0xBF800000)"

text \<open>First part of \<open>check_waypoints_reached\<close>: is the active waypoint reached?\<close>

definition check_position :: "nav \<Rightarrow> mission \<Rightarrow> mission option" where
  "check_position p s =
     (if current_active_wp_id (wpm s) < wp_size (wpm s)
      then map_option (\<lambda>cur.
        (let orbit = param2 cur; dist = waypoint_distance p cur
         in if f32_le 0 dist \<and> f32_le dist orbit
            then upd_wpm (\<lambda>w. w\<lparr>pos_reached := True\<rparr>) s else s))
        (array_get (waypoints (wpm s)) (unat (current_active_wp_id (wpm s))))
      else Some s)"

text \<open>The waypoint after the active one: from the last back to number 1, which skips number 0.\<close>

definition next_active :: "wpm_storage \<Rightarrow> u16" where
  "next_active w =
     (if uint (current_active_wp_id w) = uint (wp_size w) - 1 \<and> 1 < wp_size w then 1
      else if current_active_wp_id w + 1 < wp_size w then current_active_wp_id w + 1
      else current_active_wp_id w)"

definition fly_to_next :: "mission \<Rightarrow> mission option" where
  "fly_to_next s =
     (let n = next_active (wpm s);
          s1 = upd_wpm (\<lambda>w. w\<lparr>current_active_wp_id := n, timestamp_firstinside_orbit := 0\<rparr>) s
      in Option.bind (mavlink_wpm_send_waypoint_current n s1) (\<lambda>s2.
         Option.bind (mavlink_wpm_send_setpoint n s2) (\<lambda>s3.
         map_option (\<lambda>wp. upd_wpm (\<lambda>w. w\<lparr>
             waypoints := (waypoints w)[unat n := wp\<lparr>current := 1\<rparr>],
             pos_reached := False, yaw_reached := False\<rparr>) s3)
           (array_get (waypoints (wpm s3)) (unat n)))))"

text \<open>Second part: announce the waypoint once, and leave it when it was held long enough.\<close>

definition announce_reached :: "u64 \<Rightarrow> mission_item \<Rightarrow> mission \<Rightarrow> mission" where
  "announce_reached now cur s =
     (if timestamp_firstinside_orbit (wpm s) = 0
      then upd_wpm (\<lambda>w. w\<lparr>timestamp_firstinside_orbit := now\<rparr>)
             (mavlink_wpm_send_waypoint_reached (seq cur) s)
      else s)"

definition held_long_enough :: "u64 \<Rightarrow> mission_item \<Rightarrow> mission \<Rightarrow> bool" where
  "held_long_enough now cur s \<longleftrightarrow>
     f32_le (f32_mul (param2 cur) (f32_of_int 1000))
       (f32_of_int (uint (now - timestamp_firstinside_orbit (wpm s))))"

definition unmark_active :: "mission_item \<Rightarrow> mission \<Rightarrow> mission" where
  "unmark_active cur s = upd_wpm (\<lambda>w. w\<lparr>waypoints :=
     (waypoints w)[unat (current_active_wp_id w) := cur\<lparr>current := 0\<rparr>]\<rparr>) s"

definition check_hold :: "u64 \<Rightarrow> mission \<Rightarrow> mission option" where
  "check_hold now s =
     (if pos_reached (wpm s) \<and> \<not> idle (wpm s)
      then (if current_active_wp_id (wpm s) < wp_size (wpm s)
            then Option.bind (array_get (waypoints (wpm s)) (unat (current_active_wp_id (wpm s)))) (\<lambda>cur.
              let s1 = announce_reached now cur s
              in if held_long_enough now cur s1 \<and> autocontinue cur \<noteq> 0
                 then fly_to_next (unmark_active cur s1)
                 else Some s1)
            else Some s)
      else Some (upd_wpm (\<lambda>w. w\<lparr>timestamp_lastoutside_orbit := now\<rparr>) s))"

definition check_waypoints_reached :: "u64 \<Rightarrow> nav \<Rightarrow> mission \<Rightarrow> mission option" where
  "check_waypoints_reached now p s = Option.bind (check_position p s) (check_hold now)"

text \<open>
  \<open>mavlink_waypoint_eventloop\<close>: a transfer that saw no message for longer than the timeout is
  given up.
\<close>

definition mavlink_waypoint_eventloop :: "u64 \<Rightarrow> nav \<Rightarrow> mission \<Rightarrow> mission option" where
  "mavlink_waypoint_eventloop now p s =
     (let s1 = (if ucast (timeout (wpm s)) < now - timestamp_lastaction (wpm s)
                   \<and> current_state (wpm s) \<noteq> MAVLINK_WPM_STATE_IDLE
                then upd_wpm (\<lambda>w. (if wp_size w = 0 then w\<lparr>current_active_wp_id := -1\<rparr> else w))
                      (upd_wpm (\<lambda>w. w\<lparr>current_state := MAVLINK_WPM_STATE_IDLE, current_count := 0,
                        current_partner_sysid := 0, current_partner_compid := 0,
                        current_wp_id := -1\<rparr>)
                      (gcs_text ''Operation timeout switching -> IDLE'' s))
                else s)
      in check_waypoints_reached now p s1)"

section \<open>The message handler\<close>

text \<open>
  The decoded messages the handler looks at. A MAVLink message also carries the address of its
  sender (system and component). Fields the handler never reads are left out.
\<close>

datatype mission_msg =
    MISSION_ACK u8
  | MISSION_SET_CURRENT u8 u16
  | MISSION_REQUEST_LIST u8
  | MISSION_REQUEST u8 u16
  | MISSION_COUNT u8 u16
  | MISSION_ITEM mission_item
  | MISSION_CLEAR_ALL u8
  | OTHER_MESSAGE

definition from_partner :: "u8 \<Rightarrow> u8 \<Rightarrow> mission \<Rightarrow> bool" where
  "from_partner sysid compid s \<longleftrightarrow>
     sysid = current_partner_sysid (wpm s) \<and> compid = current_partner_compid (wpm s)"

abbreviation last_action :: "u64 \<Rightarrow> mission \<Rightarrow> mission" where
  "last_action now s \<equiv> upd_wpm (\<lambda>w. w\<lparr>timestamp_lastaction := now\<rparr>) s"

definition sending :: "mission \<Rightarrow> bool" where
  "sending s \<longleftrightarrow> current_state (wpm s) = MAVLINK_WPM_STATE_SENDLIST \<or>
     current_state (wpm s) = MAVLINK_WPM_STATE_SENDLIST_SENDWPS"

definition handle_ack :: "u64 \<Rightarrow> u8 \<Rightarrow> u8 \<Rightarrow> u8 \<Rightarrow> mission \<Rightarrow> mission" where
  "handle_ack now sysid compid target s =
     (if from_partner sysid compid s \<and> target = my_sysid s
      then let s1 = last_action now s
           in if sending s1 \<and> uint (current_wp_id (wpm s1)) = uint (wp_size (wpm s1)) - 1
              then upd_wpm (\<lambda>w. w\<lparr>current_state := MAVLINK_WPM_STATE_IDLE, current_wp_id := 0\<rparr>)
                     (gcs_text ''Got last WP ACK state -> IDLE'' s1)
              else s1
      else gcs_text ''REJ. WP CMD: curr partner id mismatch'' s)"

text \<open>The loop that marks exactly the active waypoint as current.\<close>

function mark_current :: "nat \<Rightarrow> nat \<Rightarrow> nat \<Rightarrow> mission_item list \<Rightarrow> mission_item list option" where
  "mark_current i n active ws =
     (if i < n
      then (case array_get ws i of
          None \<Rightarrow> None
        | Some wp \<Rightarrow> mark_current (Suc i) n active
                      (ws[i := wp\<lparr>current := (if i = active then 1 else 0)\<rparr>]))
      else Some ws)"
  by pat_completeness auto
termination
  by (relation "measure (\<lambda>(i, n, active, ws). n - i)") auto

declare mark_current.simps [simp del]

definition handle_set_current :: "u64 \<Rightarrow> u8 \<Rightarrow> u16 \<Rightarrow> mission \<Rightarrow> mission option" where
  "handle_set_current now target n s =
     (if target = my_sysid s
      then let s1 = last_action now s
           in if current_state (wpm s1) = MAVLINK_WPM_STATE_IDLE
              then if n < wp_size (wpm s1)
                   then Option.bind (mark_current 0 (unat (wp_size (wpm s1))) (unat n) (waypoints (wpm s1))) (\<lambda>ws.
                        let s2 = upd_wpm (\<lambda>w. w\<lparr>yaw_reached := False, pos_reached := False\<rparr>)
                              (gcs_text ''NEW WP SET''
                                (upd_wpm (\<lambda>w. w\<lparr>current_active_wp_id := n, waypoints := ws\<rparr>) s1))
                        in Option.bind (mavlink_wpm_send_waypoint_current n s2) (\<lambda>s3.
                           map_option (upd_wpm (\<lambda>w. w\<lparr>timestamp_firstinside_orbit := 0\<rparr>))
                             (mavlink_wpm_send_setpoint n s3)))
                   else Some (gcs_text ''IGN WP CURR CMD: Not in list'' s1)
              else Some (gcs_text ''IGN WP CURR CMD: Busy'' s1)
      else Some (gcs_text ''REJ. WP CMD: target id mismatch'' s))"

definition handle_request_list :: "u64 \<Rightarrow> u8 \<Rightarrow> u8 \<Rightarrow> u8 \<Rightarrow> mission \<Rightarrow> mission" where
  "handle_request_list now sysid compid target s =
     (if target = my_sysid s
      then let s1 = last_action now s
           in if current_state (wpm s1) = MAVLINK_WPM_STATE_IDLE \<or>
                 current_state (wpm s1) = MAVLINK_WPM_STATE_SENDLIST
              then let s2 = (if 0 < wp_size (wpm s1)
                             then upd_wpm (\<lambda>w. w\<lparr>current_state := MAVLINK_WPM_STATE_SENDLIST,
                                    current_wp_id := 0, current_partner_sysid := sysid,
                                    current_partner_compid := compid\<rparr>) s1
                             else s1);
                       s3 = upd_wpm (\<lambda>w. w\<lparr>current_count := wp_size w\<rparr>) s2
                   in mavlink_wpm_send_waypoint_count (current_count (wpm s3)) s3
              else s1
      else s)"

text \<open>
  A request is served when it is the first one and for item 0, or repeats or follows the last
  one served and names an item of the list. The comparison with \<open>current_wp_id + 1\<close> is one of
  \<open>int\<close>s.
\<close>

definition handle_request :: "u64 \<Rightarrow> u8 \<Rightarrow> u8 \<Rightarrow> u8 \<Rightarrow> u16 \<Rightarrow> mission \<Rightarrow> mission option" where
  "handle_request now sysid compid target n s =
     (if from_partner sysid compid s \<and> target = my_sysid s
      then let s1 = last_action now s; w = wpm s1;
               again = (n = current_wp_id w);
               following = (uint n = uint (current_wp_id w) + 1)
           in if (current_state w = MAVLINK_WPM_STATE_SENDLIST \<and> n = 0) \<or>
                 (current_state w = MAVLINK_WPM_STATE_SENDLIST_SENDWPS \<and> (again \<or> following) \<and> n < wp_size w)
              then let s2 = (if current_state w = MAVLINK_WPM_STATE_SENDLIST
                             then gcs_text ''GOT WP REQ, state -> SEND'' s1 else s1);
                       s3 = (if current_state w = MAVLINK_WPM_STATE_SENDLIST_SENDWPS \<and> following
                             then gcs_text ''GOT 2nd WP REQ'' s2 else s2);
                       s4 = (if current_state w = MAVLINK_WPM_STATE_SENDLIST_SENDWPS \<and> again
                             then gcs_text ''GOT 2nd WP REQ'' s3 else s3)
                   in mavlink_wpm_send_waypoint n (upd_wpm (\<lambda>w. w\<lparr>
                        current_state := MAVLINK_WPM_STATE_SENDLIST_SENDWPS, current_wp_id := n\<rparr>) s4)
              else if \<not> sending s1 then Some (gcs_text ''REJ. WP CMD: Busy'' s1)
              else if current_state w = MAVLINK_WPM_STATE_SENDLIST
              then Some (if n \<noteq> 0 then gcs_text ''REJ. WP CMD: First id != 0'' s1 else s1)
              else if \<not> again \<and> \<not> following
              then Some (gcs_text ''REJ. WP CMD: Req. WP was unexpected'' s1)
              else if wp_size w \<le> n then Some (gcs_text ''REJ. WP CMD: Req. WP not in list'' s1)
              else Some s1
      else if target = my_sysid s \<and> \<not> from_partner sysid compid s
      then Some (gcs_text ''REJ. WP CMD: Busy'' s)
      else Some (gcs_text ''REJ. WP CMD: target id mismatch'' s))"

definition handle_count :: "u64 \<Rightarrow> u8 \<Rightarrow> u8 \<Rightarrow> u8 \<Rightarrow> u16 \<Rightarrow> mission \<Rightarrow> mission" where
  "handle_count now sysid compid target count s =
     (if target = my_sysid s
      then let s1 = last_action now s; w = wpm s1
           in if current_state w = MAVLINK_WPM_STATE_IDLE \<or>
                 (current_state w = MAVLINK_WPM_STATE_GETLIST \<and> current_wp_id w = 0)
              then if 0 < count
                   then let s2 = (if current_state w = MAVLINK_WPM_STATE_IDLE
                                  then gcs_text ''WP CMD OK: state -> GETLIST'' s1 else s1);
                            s3 = (if current_state w = MAVLINK_WPM_STATE_GETLIST
                                  then gcs_text ''WP CMD OK AGAIN'' s2 else s2);
                            s4 = upd_wpm (\<lambda>w. w\<lparr>current_state := MAVLINK_WPM_STATE_GETLIST,
                                   current_wp_id := 0, current_partner_sysid := sysid,
                                   current_partner_compid := compid, current_count := count\<rparr>) s3;
                            s5 = upd_wpm (\<lambda>w. w\<lparr>rcv_size := 0\<rparr>) (gcs_text ''CLR RCV BUF: READY'' s4)
                        in mavlink_wpm_send_waypoint_request (current_wp_id (wpm s5)) s5
                   else upd_wpm (\<lambda>w. w\<lparr>rcv_size := 0, current_active_wp_id := -1,
                          yaw_reached := False, pos_reached := False\<rparr>) (gcs_text ''COUNT 0'' s1)
              else if \<not> (current_state w = MAVLINK_WPM_STATE_IDLE \<or>
                         current_state w = MAVLINK_WPM_STATE_GETLIST)
              then gcs_text ''REJ. WP CMD: Busy'' s1
              else if current_state w = MAVLINK_WPM_STATE_GETLIST \<and> current_wp_id w \<noteq> 0
              then gcs_text ''REJ. WP CMD: Busy'' s1
              else gcs_text ''REJ. WP CMD: ?'' s1
      else gcs_text ''REJ. WP CMD: target id mismatch'' s)"

text \<open>The loop that copies the received items to the list.\<close>

function copy_items :: "nat \<Rightarrow> nat \<Rightarrow> mission_item list \<Rightarrow> mission_item list \<Rightarrow> mission_item list option" where
  "copy_items i n src dst =
     (if i < n
      then Option.bind (array_get src i) (\<lambda>v. Option.bind (array_set dst i v) (\<lambda>dst'.
             copy_items (Suc i) n src dst'))
      else Some dst)"
  by pat_completeness auto
termination
  by (relation "measure (\<lambda>(i, n, src, dst). n - i)") auto

declare copy_items.simps [simp del]

text \<open>The loop that looks for an item marked as current, from index \<open>i\<close> on: its index, or \<open>n\<close>.\<close>

function find_current :: "nat \<Rightarrow> nat \<Rightarrow> mission_item list \<Rightarrow> nat option" where
  "find_current i n ws =
     (if i < n
      then Option.bind (array_get ws i) (\<lambda>wp.
             if current wp = 1 then Some i else find_current (Suc i) n ws)
      else Some i)"
  by pat_completeness auto
termination
  by (relation "measure (\<lambda>(i, n, ws). n - i)") auto

declare find_current.simps [simp del]

text \<open>
  The last item has arrived: acknowledge, make the received list the list in force, and
  start over at the item marked as current, if one is. The clamp of the active waypoint
  compares with \<open>rcv_size - 1\<close> as an \<open>int\<close>.
\<close>

definition clamp_active :: "mission \<Rightarrow> mission" where
  "clamp_active s = upd_wpm (\<lambda>w. if uint (rcv_size w) - 1 < uint (current_active_wp_id w)
     then w\<lparr>current_active_wp_id := rcv_size w - 1\<rparr> else w) s"

definition start_over :: "nat \<Rightarrow> mission \<Rightarrow> mission option" where
  "start_over i s =
     map_option (upd_wpm (\<lambda>w. w\<lparr>current_state := MAVLINK_WPM_STATE_IDLE\<rparr>))
       (if i < unat (wp_size (wpm s))
        then let s1 = upd_wpm (\<lambda>w. w\<lparr>current_active_wp_id := of_nat i, yaw_reached := False,
                        pos_reached := False\<rparr>) s
             in Option.bind (mavlink_wpm_send_waypoint_current (of_nat i) s1) (\<lambda>s2.
                map_option (upd_wpm (\<lambda>w. w\<lparr>timestamp_firstinside_orbit := 0\<rparr>))
                  (mavlink_wpm_send_setpoint (of_nat i) s2))
        else Some (upd_wpm (\<lambda>w. w\<lparr>current_active_wp_id := -1, yaw_reached := False,
               pos_reached := False, timestamp_firstinside_orbit := 0\<rparr>) s))"

definition switch_list :: "mission \<Rightarrow> mission option" where
  "switch_list s =
     (let n = unat (current_count (wpm s))
      in Option.bind (copy_items 0 n (rcv_waypoints (wpm s)) (waypoints (wpm s))) (\<lambda>ws.
         Option.bind (find_current 0 n ws) (\<lambda>i.
         start_over i (upd_wpm (\<lambda>w. w\<lparr>waypoints := ws, wp_size := current_count w\<rparr>) s))))"

definition finish_upload :: "mission \<Rightarrow> mission option" where
  "finish_upload s =
     switch_list (clamp_active (mavlink_wpm_send_waypoint_ack 0 (gcs_text ''GOT ALL WPS'' s)))"

definition handle_item :: "u64 \<Rightarrow> mission_item \<Rightarrow> mission \<Rightarrow> mission option" where
  "handle_item now wp s0 =
     (let s = gcs_text ''GOT WP'' s0
      in if target_system wp = my_sysid s \<and> target_component wp = mavlink_wpm_comp_id
         then let s1 = last_action now s; w = wpm s1
              in if (current_state w = MAVLINK_WPM_STATE_GETLIST \<and> seq wp = 0) \<or>
                    (current_state w = MAVLINK_WPM_STATE_GETLIST_GETWPS \<and>
                     seq wp = current_wp_id w \<and> seq wp < current_count w)
                 then Option.bind (array_set (rcv_waypoints w) (unat (seq wp)) wp) (\<lambda>rcv.
                      let s2 = upd_wpm (\<lambda>w. w\<lparr>current_state := MAVLINK_WPM_STATE_GETLIST_GETWPS,
                                 rcv_waypoints := rcv, current_wp_id := seq wp + 1\<rparr>) s1
                      in if current_wp_id (wpm s2) = current_count (wpm s2)
                         then finish_upload s2
                         else Some (mavlink_wpm_send_waypoint_request (current_wp_id (wpm s2)) s2))
                 else if current_state w = MAVLINK_WPM_STATE_IDLE
                 then Some (mavlink_wpm_send_waypoint_ack 0 s1)
                 else if current_state w = MAVLINK_WPM_STATE_GETLIST_GETWPS \<and> seq wp \<noteq> current_wp_id w
                 then Some (mavlink_wpm_send_waypoint_request (current_wp_id w) s1)
                 else Some s1
         else Some s)"

definition handle_clear_all :: "u64 \<Rightarrow> u8 \<Rightarrow> mission \<Rightarrow> mission" where
  "handle_clear_all now target s =
     (if target = my_sysid s \<and> current_state (wpm s) = MAVLINK_WPM_STATE_IDLE
      then upd_wpm (\<lambda>w. w\<lparr>timestamp_lastaction := now, wp_size := 0, current_active_wp_id := -1,
             yaw_reached := False, pos_reached := False\<rparr>) s
      else s)"

fun handle_payload :: "u64 \<Rightarrow> u8 \<Rightarrow> u8 \<Rightarrow> mission_msg \<Rightarrow> mission \<Rightarrow> mission option" where
  "handle_payload now sysid compid (MISSION_ACK t) s = Some (handle_ack now sysid compid t s)"
| "handle_payload now sysid compid (MISSION_SET_CURRENT t n) s = handle_set_current now t n s"
| "handle_payload now sysid compid (MISSION_REQUEST_LIST t) s =
     Some (handle_request_list now sysid compid t s)"
| "handle_payload now sysid compid (MISSION_REQUEST t n) s = handle_request now sysid compid t n s"
| "handle_payload now sysid compid (MISSION_COUNT t n) s = Some (handle_count now sysid compid t n s)"
| "handle_payload now sysid compid (MISSION_ITEM wp) s = handle_item now wp s"
| "handle_payload now sysid compid (MISSION_CLEAR_ALL t) s = Some (handle_clear_all now t s)"
| "handle_payload now sysid compid OTHER_MESSAGE s = Some s"

definition mavlink_wpm_message_handler :: "u8 \<Rightarrow> u8 \<Rightarrow> mission_msg \<Rightarrow> nav \<Rightarrow> mission \<Rightarrow> mission option" where
  "mavlink_wpm_message_handler sysid compid msg p s =
     (let now = clock s (clock_reads s); s1 = s\<lparr>clock_reads := Suc (clock_reads s)\<rparr>
      in Option.bind (handle_payload now sysid compid msg s1) (check_waypoints_reached now p))"

section \<open>The component as an event machine\<close>

text \<open>One message from the link, or one turn of the event loop.\<close>

datatype mission_event =
    Message u8 u8 mission_msg nav
  | Eventloop u64 nav

fun mission_step :: "mission_event \<Rightarrow> mission \<Rightarrow> mission option" where
  "mission_step (Message sysid compid msg p) s = mavlink_wpm_message_handler sysid compid msg p s"
| "mission_step (Eventloop now p) s = mavlink_waypoint_eventloop now p s"

text \<open>
  The code never compares the number of items a partner announces with the size of its
  arrays. Messages that announce no more than the capacity are admissible.
\<close>

fun fits_storage :: "mission_event \<Rightarrow> bool" where
  "fits_storage (Message sysid compid (MISSION_COUNT t n) p) \<longleftrightarrow> unat n \<le> MAVLINK_WPM_MAX_WP_COUNT"
| "fits_storage _ \<longleftrightarrow> True"

definition mission_start :: "mission \<Rightarrow> bool" where
  "mission_start s \<longleftrightarrow> (\<exists>w. wpm s = mavlink_wpm_init w \<and>
     length (waypoints w) = MAVLINK_WPM_MAX_WP_COUNT \<and>
     length (rcv_waypoints w) = MAVLINK_WPM_MAX_WP_COUNT)"

text \<open>
  The invariant: arrays of the declared size, a list that fits in them, an active waypoint
  that is none (\<open>-1\<close>) or an item of the list, and an upload that stays within its announced
  size and within the receive buffer.
\<close>

definition wpm_inv :: "wpm_storage \<Rightarrow> bool" where
  "wpm_inv w \<longleftrightarrow>
     length (waypoints w) = MAVLINK_WPM_MAX_WP_COUNT \<and>
     length (rcv_waypoints w) = MAVLINK_WPM_MAX_WP_COUNT \<and>
     unat (wp_size w) \<le> MAVLINK_WPM_MAX_WP_COUNT \<and>
     max_size w = of_nat MAVLINK_WPM_MAX_WP_COUNT \<and>
     (current_active_wp_id w = -1 \<or> current_active_wp_id w < wp_size w) \<and>
     current_state w \<noteq> MAVLINK_WPM_STATE_GETLIST_GOTALL \<and>
     (current_state w \<in> {MAVLINK_WPM_STATE_GETLIST, MAVLINK_WPM_STATE_GETLIST_GETWPS} \<longrightarrow>
        unat (current_count w) \<le> MAVLINK_WPM_MAX_WP_COUNT \<and> 0 < current_count w) \<and>
     (current_state w = MAVLINK_WPM_STATE_GETLIST_GETWPS \<longrightarrow> current_wp_id w < current_count w)"

definition mission_inv :: "mission \<Rightarrow> bool" where
  "mission_inv s \<longleftrightarrow> wpm_inv (wpm s)"

lemma send_fields [simp]:
  "wpm (send m s) = wpm s" "my_sysid (send m s) = my_sysid s" "outbox (send m s) = outbox s @ [m]"
  "clock (send m s) = clock s" "clock_reads (send m s) = clock_reads s"
  by (simp_all add: send_def)

lemma gcs_text_fields [simp]:
  "wpm (gcs_text t s) = wpm s" "my_sysid (gcs_text t s) = my_sysid s"
  "outbox (gcs_text t s) = outbox s @ [Out_text t]"
  by (simp_all add: gcs_text_def)

lemma sender_fields [simp]:
  "wpm (mavlink_wpm_send_waypoint_ack ty s) = wpm s"
  "wpm (mavlink_wpm_send_waypoint_count n s) = wpm s"
  "wpm (mavlink_wpm_send_waypoint_request n s) = wpm s"
  "wpm (mavlink_wpm_send_waypoint_reached n s) = wpm s"
  by (simp_all add: mavlink_wpm_send_waypoint_ack_def mavlink_wpm_send_waypoint_count_def
      mavlink_wpm_send_waypoint_request_def mavlink_wpm_send_waypoint_reached_def)

lemma small_index:
  "(n::u16) < m \<Longrightarrow> unat m \<le> k \<Longrightarrow> unat n < k"
  by (simp add: word_less_nat_alt)

lemma in_list: "wpm_inv w \<Longrightarrow> n < wp_size w \<Longrightarrow> unat n < length (waypoints w)"
  by (auto simp: wpm_inv_def intro: small_index)

lemma active_in_list:
  "wpm_inv w \<Longrightarrow> current_active_wp_id w < wp_size w \<Longrightarrow>
   array_get (waypoints w) (unat (current_active_wp_id w)) =
     Some (waypoints w ! unat (current_active_wp_id w))"
  using in_list [of w "current_active_wp_id w"] by simp

text \<open>The two senders that read the list never fail, and only the setpoint's time changes.\<close>

lemma send_current_ok:
  assumes "wpm_inv (wpm s)"
  obtains s' where "mavlink_wpm_send_waypoint_current n s = Some s'" "wpm s' = wpm s"
  using assms in_list [of "wpm s" n] that
  by (cases "n < wp_size (wpm s)") (auto simp: mavlink_wpm_send_waypoint_current_def)

lemma send_setpoint_ok:
  assumes "wpm_inv (wpm s)"
  obtains s' t where "mavlink_wpm_send_setpoint n s = Some s'"
    "wpm s' = (wpm s)\<lparr>timestamp_last_send_setpoint := t\<rparr>"
proof (cases "n < wp_size (wpm s)")
  case True
  then show ?thesis using assms in_list [of "wpm s" n] that
    by (auto simp: mavlink_wpm_send_setpoint_def Let_def)
next
  case False
  then show ?thesis
    using that [of s "timestamp_last_send_setpoint (wpm s)"]
    by (simp add: mavlink_wpm_send_setpoint_def)
qed

lemma send_item_ok:
  assumes "wpm_inv (wpm s)"
  obtains s' ws where "mavlink_wpm_send_waypoint n s = Some s'"
    "wpm s' = (wpm s)\<lparr>waypoints := ws\<rparr>" "length ws = length (waypoints (wpm s))"
proof (cases "n < wp_size (wpm s)")
  case True
  then show ?thesis using assms in_list [of "wpm s" n] that
    by (auto simp: mavlink_wpm_send_waypoint_def Let_def)
next
  case False
  then show ?thesis using that [of s "waypoints (wpm s)"]
    by (simp add: mavlink_wpm_send_waypoint_def)
qed

text \<open>Fields the invariant does not look at, and same-length list updates, keep it.\<close>

lemma wpm_inv_frame [simp]:
  "wpm_inv (w\<lparr>timestamp_lastaction := t\<rparr>) = wpm_inv w"
  "wpm_inv (w\<lparr>timestamp_last_send_setpoint := t\<rparr>) = wpm_inv w"
  "wpm_inv (w\<lparr>timestamp_firstinside_orbit := t\<rparr>) = wpm_inv w"
  "wpm_inv (w\<lparr>timestamp_lastoutside_orbit := t\<rparr>) = wpm_inv w"
  "wpm_inv (w\<lparr>yaw_reached := b\<rparr>) = wpm_inv w"
  "wpm_inv (w\<lparr>pos_reached := b\<rparr>) = wpm_inv w"
  "wpm_inv (w\<lparr>yaw_reached := b, pos_reached := b'\<rparr>) = wpm_inv w"
  "wpm_inv (w\<lparr>rcv_size := n\<rparr>) = wpm_inv w"
  "wpm_inv (w\<lparr>current_partner_sysid := x, current_partner_compid := y\<rparr>) = wpm_inv w"
  by (simp_all add: wpm_inv_def)

lemma wpm_inv_waypoints:
  "wpm_inv w \<Longrightarrow> length ws = length (waypoints w) \<Longrightarrow> wpm_inv (w\<lparr>waypoints := ws\<rparr>)"
  by (simp add: wpm_inv_def)

text \<open>The loops over the arrays.\<close>

lemma mark_current_spec:
  assumes "n \<le> length ws" "i \<le> n"
  shows "\<exists>ws'. mark_current i n active ws = Some ws' \<and> length ws' = length ws \<and>
    (\<forall>j < length ws. ws' ! j = (if i \<le> j \<and> j < n
       then (ws ! j)\<lparr>current := (if j = active then 1 else 0)\<rparr> else ws ! j))"
  using assms
proof (induction i n active ws rule: mark_current.induct)
  case (1 i n active ws)
  show ?case
  proof (cases "i < n")
    case True
    let ?ws = "ws[i := (ws ! i)\<lparr>current := (if i = active then 1 else 0)\<rparr>]"
    from True 1 obtain ws' where ws': "mark_current (Suc i) n active ?ws = Some ws'"
      "length ws' = length ws"
      "\<forall>j < length ws. ws' ! j = (if Suc i \<le> j \<and> j < n
         then (?ws ! j)\<lparr>current := (if j = active then 1 else 0)\<rparr> else ?ws ! j)"
      by fastforce
    have eq: "mark_current i n active ws = Some ws'"
      using True 1 ws'(1) by (subst mark_current.simps) simp
    have all: "ws' ! j = (if i \<le> j \<and> j < n
        then (ws ! j)\<lparr>current := (if j = active then 1 else 0)\<rparr> else ws ! j)"
      if "j < length ws" for j
    proof (cases "j = i")
      case False
      then have "Suc i \<le> j \<longleftrightarrow> i \<le> j" by linarith
      then show ?thesis using ws'(3) [rule_format, OF that] False by (simp only: nth_list_update_neq)
    qed (use ws'(3) [rule_format, OF that] True that in simp)
    show ?thesis
      by (rule exI [of _ ws']) (intro conjI eq ws'(2) allI impI all)
  next
    case False
    then have "mark_current i n active ws = Some ws" by (subst mark_current.simps) simp
    with False show ?thesis by auto
  qed
qed

lemma copy_items_spec:
  assumes "n \<le> length src" "n \<le> length dst" "i \<le> n"
  shows "\<exists>dst'. copy_items i n src dst = Some dst' \<and> length dst' = length dst \<and>
    (\<forall>j < length dst. dst' ! j = (if i \<le> j \<and> j < n then src ! j else dst ! j))"
  using assms
proof (induction i n src dst rule: copy_items.induct)
  case (1 i n src dst)
  show ?case
  proof (cases "i < n")
    case True
    with 1 obtain dst' where d: "copy_items (Suc i) n src (dst[i := src ! i]) = Some dst'"
      "length dst' = length dst"
      "\<forall>j < length dst. dst' ! j = (if Suc i \<le> j \<and> j < n then src ! j else (dst[i := src ! i]) ! j)"
      by fastforce
    have eq: "copy_items i n src dst = Some dst'"
      using True 1 d(1) by (subst copy_items.simps) simp
    have all: "dst' ! j = (if i \<le> j \<and> j < n then src ! j else dst ! j)"
      if "j < length dst" for j
    proof (cases "j = i")
      case False
      then have "Suc i \<le> j \<longleftrightarrow> i \<le> j" by linarith
      then show ?thesis using d(3) [rule_format, OF that] False by (simp only: nth_list_update_neq)
    qed (use d(3) [rule_format, OF that] True that in simp)
    show ?thesis
      by (rule exI [of _ dst']) (intro conjI eq d(2) allI impI all)
  next
    case False
    then have "copy_items i n src dst = Some dst" by (subst copy_items.simps) simp
    with False show ?thesis by auto
  qed
qed

lemma copy_items_take:
  assumes "n \<le> length src" "n \<le> length dst"
  shows "copy_items 0 n src dst = Some (take n src @ drop n dst)"
proof -
  obtain d where d: "copy_items 0 n src dst = Some d" "length d = length dst"
    "\<forall>j < length dst. d ! j = (if j < n then src ! j else dst ! j)"
    using copy_items_spec [OF assms, of 0] by auto
  have "d = take n src @ drop n dst"
    using assms d(2,3) by (intro nth_equalityI) (auto simp: nth_append)
  with d(1) show ?thesis by simp
qed

lemma find_current_spec:
  assumes "n \<le> length ws" "i \<le> n"
  shows "\<exists>k. find_current i n ws = Some k \<and> i \<le> k \<and> k \<le> n \<and>
    (\<forall>j. i \<le> j \<and> j < k \<longrightarrow> current (ws ! j) \<noteq> 1) \<and> (k < n \<longrightarrow> current (ws ! k) = 1)"
  using assms
proof (induction i n ws rule: find_current.induct)
  case (1 i n ws)
  consider (stop) "i \<ge> n" | (here) "i < n" "current (ws ! i) = 1" | (next_one) "i < n" "current (ws ! i) \<noteq> 1"
    by fastforce
  then show ?case
  proof cases
    case stop
    then have "find_current i n ws = Some i" by (subst find_current.simps) simp
    with stop "1.prems" show ?thesis by auto
  next
    case here
    then have "find_current i n ws = Some i"
      using "1.prems" by (subst find_current.simps) simp
    with here show ?thesis by auto
  next
    case next_one
    with 1 obtain k where k: "find_current (Suc i) n ws = Some k" "Suc i \<le> k" "k \<le> n"
      "\<forall>j. Suc i \<le> j \<and> j < k \<longrightarrow> current (ws ! j) \<noteq> 1" "k < n \<longrightarrow> current (ws ! k) = 1"
      by fastforce
    have "find_current i n ws = Some k"
      using next_one 1 k(1) by (subst find_current.simps) simp
    moreover have "\<forall>j. i \<le> j \<and> j < k \<longrightarrow> current (ws ! j) \<noteq> 1"
      using k(4) next_one(2) by (metis Suc_leI order_le_less)
    ultimately show ?thesis using k by (intro exI [of _ k]) auto
  qed
qed

section \<open>Every operation keeps the invariant and stays within the arrays\<close>

definition keeps :: "mission option \<Rightarrow> bool" where
  "keeps r \<longleftrightarrow> (\<exists>s'. r = Some s' \<and> mission_inv s')"

lemma keeps_Some [simp]: "keeps (Some s) = mission_inv s"
  by (simp add: keeps_def)

lemma keeps_bind: "keeps r \<Longrightarrow> (\<And>s. mission_inv s \<Longrightarrow> keeps (f s)) \<Longrightarrow> keeps (Option.bind r f)"
  by (auto simp: keeps_def)

lemma check_position_keeps: "mission_inv s \<Longrightarrow> keeps (check_position p s)"
  using active_in_list [of "wpm s"]
  by (auto simp: check_position_def mission_inv_def Let_def)

text \<open>The next active waypoint is an item of the list.\<close>

lemma next_active_in_list:
  assumes "current_active_wp_id w < wp_size w"
  shows "next_active w < wp_size w"
  using assms by (auto simp: next_active_def)

lemma fly_to_next_keeps:
  assumes "mission_inv s" "current_active_wp_id (wpm s) < wp_size (wpm s)"
  shows "keeps (fly_to_next s)"
proof -
  let ?n = "next_active (wpm s)"
  let ?s1 = "upd_wpm (\<lambda>w. w\<lparr>current_active_wp_id := ?n, timestamp_firstinside_orbit := 0\<rparr>) s"
  have n: "?n < wp_size (wpm s)" using assms(2) by (rule next_active_in_list)
  have i1: "wpm_inv (wpm ?s1)" using assms(1) n by (simp add: mission_inv_def wpm_inv_def)
  obtain s2 where 2: "mavlink_wpm_send_waypoint_current ?n ?s1 = Some s2" "wpm s2 = wpm ?s1"
    by (rule send_current_ok [OF i1])
  have i2: "wpm_inv (wpm s2)" using i1 2(2) by simp
  obtain s3 t where 3: "mavlink_wpm_send_setpoint ?n s2 = Some s3"
    "wpm s3 = (wpm s2)\<lparr>timestamp_last_send_setpoint := t\<rparr>"
    by (rule send_setpoint_ok [OF i2])
  have i3: "wpm_inv (wpm s3)" using i2 3(2) by simp
  have "unat ?n < length (waypoints (wpm s3))"
    using in_list [OF i3, of ?n] n 2(2) 3(2) by simp
  then show ?thesis
    using 2 3 i3 by (auto simp: fly_to_next_def Let_def mission_inv_def intro!: wpm_inv_waypoints)
qed

lemma announce_fields [simp]:
  "current_active_wp_id (wpm (announce_reached now cur s)) = current_active_wp_id (wpm s)"
  "wp_size (wpm (announce_reached now cur s)) = wp_size (wpm s)"
  "waypoints (wpm (announce_reached now cur s)) = waypoints (wpm s)"
  "mission_inv (announce_reached now cur s) = mission_inv s"
  by (simp_all add: announce_reached_def mission_inv_def)

lemma unmark_fields [simp]:
  "current_active_wp_id (wpm (unmark_active cur s)) = current_active_wp_id (wpm s)"
  "wp_size (wpm (unmark_active cur s)) = wp_size (wpm s)"
  "mission_inv s \<Longrightarrow> mission_inv (unmark_active cur s)"
  by (simp_all add: unmark_active_def mission_inv_def wpm_inv_waypoints)

lemma check_hold_keeps:
  assumes "mission_inv s"
  shows "keeps (check_hold now s)"
proof (cases "pos_reached (wpm s) \<and> \<not> idle (wpm s) \<and> current_active_wp_id (wpm s) < wp_size (wpm s)")
  case True
  then have "array_get (waypoints (wpm s)) (unat (current_active_wp_id (wpm s))) =
      Some (waypoints (wpm s) ! unat (current_active_wp_id (wpm s)))"
    using assms by (auto simp: mission_inv_def intro: active_in_list)
  then show ?thesis
    using True assms by (simp add: check_hold_def Let_def fly_to_next_keeps)
next
  case False
  then show ?thesis using assms by (auto simp: check_hold_def mission_inv_def)
qed

lemma check_waypoints_reached_keeps: "mission_inv s \<Longrightarrow> keeps (check_waypoints_reached now p s)"
  unfolding check_waypoints_reached_def by (intro keeps_bind check_position_keeps check_hold_keeps)

lemma eventloop_keeps:
  assumes "mission_inv s"
  shows "keeps (mavlink_waypoint_eventloop now p s)"
  unfolding mavlink_waypoint_eventloop_def Let_def
  by (rule check_waypoints_reached_keeps)
     (use assms in \<open>auto simp: mission_inv_def wpm_inv_def\<close>)

lemma handle_ack_keeps: "mission_inv s \<Longrightarrow> mission_inv (handle_ack now sysid compid t s)"
  by (auto simp: handle_ack_def mission_inv_def wpm_inv_def Let_def)

lemma handle_request_list_keeps:
  "mission_inv s \<Longrightarrow> mission_inv (handle_request_list now sysid compid t s)"
  by (auto simp: handle_request_list_def mission_inv_def wpm_inv_def Let_def)

lemma handle_clear_all_keeps: "mission_inv s \<Longrightarrow> mission_inv (handle_clear_all now t s)"
  by (auto simp: handle_clear_all_def mission_inv_def wpm_inv_def)

lemma handle_count_keeps:
  "mission_inv s \<Longrightarrow> unat n \<le> MAVLINK_WPM_MAX_WP_COUNT \<Longrightarrow>
   mission_inv (handle_count now sysid compid t n s)"
  by (auto simp: handle_count_def mission_inv_def wpm_inv_def Let_def)

lemma handle_set_current_keeps:
  assumes "mission_inv s"
  shows "keeps (handle_set_current now t n s)"
proof (cases "t = my_sysid s \<and> current_state (wpm s) = MAVLINK_WPM_STATE_IDLE \<and> n < wp_size (wpm s)")
  case True
  have len: "unat (wp_size (wpm s)) \<le> length (waypoints (wpm s))"
    using assms by (auto simp: mission_inv_def wpm_inv_def)
  then obtain ws where ws: "mark_current 0 (unat (wp_size (wpm s))) (unat n) (waypoints (wpm s)) = Some ws"
    "length ws = length (waypoints (wpm s))"
    using mark_current_spec [of "unat (wp_size (wpm s))" "waypoints (wpm s)" 0] by blast
  let ?s2 = "upd_wpm (\<lambda>w. w\<lparr>yaw_reached := False, pos_reached := False\<rparr>)
      (gcs_text ''NEW WP SET'' (upd_wpm (\<lambda>w. w\<lparr>current_active_wp_id := n, waypoints := ws\<rparr>)
        (last_action now s)))"
  have i2: "wpm_inv (wpm ?s2)"
    using assms True ws(2) by (auto simp: mission_inv_def wpm_inv_def)
  obtain s3 where 3: "mavlink_wpm_send_waypoint_current n ?s2 = Some s3" "wpm s3 = wpm ?s2"
    by (rule send_current_ok [OF i2])
  have i3: "wpm_inv (wpm s3)" using i2 3(2) by simp
  obtain s4 t where 4: "mavlink_wpm_send_setpoint n s3 = Some s4"
    "wpm s4 = (wpm s3)\<lparr>timestamp_last_send_setpoint := t\<rparr>"
    by (rule send_setpoint_ok [OF i3])
  show ?thesis
    using True ws(1) 3(1) 4 i3 by (simp add: handle_set_current_def Let_def mission_inv_def)
next
  case False
  then show ?thesis using assms by (auto simp: handle_set_current_def mission_inv_def Let_def)
qed

lemma send_item_keeps: "mission_inv s \<Longrightarrow> keeps (mavlink_wpm_send_waypoint n s)"
proof -
  assume "mission_inv s"
  then have i: "wpm_inv (wpm s)" by (simp add: mission_inv_def)
  obtain s2 ws where "mavlink_wpm_send_waypoint n s = Some s2"
    "wpm s2 = (wpm s)\<lparr>waypoints := ws\<rparr>" "length ws = length (waypoints (wpm s))"
    by (rule send_item_ok [OF i])
  with i show ?thesis by (simp only: keeps_Some mission_inv_def wpm_inv_waypoints)
qed

lemma handle_request_keeps:
  "mission_inv s \<Longrightarrow> keeps (handle_request now sysid compid t n s)"
  unfolding handle_request_def Let_def
  by (auto intro!: send_item_keeps simp: mission_inv_def wpm_inv_def)

text \<open>
  The last item of an upload. Until the list is switched the invariant does not hold (all
  items are received, and the active waypoint may point anywhere); afterwards it does.
\<close>

definition uploaded :: "wpm_storage \<Rightarrow> bool" where
  "uploaded w \<longleftrightarrow>
     length (waypoints w) = MAVLINK_WPM_MAX_WP_COUNT \<and>
     length (rcv_waypoints w) = MAVLINK_WPM_MAX_WP_COUNT \<and>
     max_size w = of_nat MAVLINK_WPM_MAX_WP_COUNT \<and>
     unat (current_count w) \<le> MAVLINK_WPM_MAX_WP_COUNT"

lemma start_over_keeps:
  assumes u: "uploaded (wpm s)" and n: "unat (wp_size (wpm s)) \<le> MAVLINK_WPM_MAX_WP_COUNT"
  shows "keeps (start_over i s)"
proof (cases "i < unat (wp_size (wpm s))")
  case True
  let ?t = "upd_wpm (\<lambda>w. w\<lparr>current_active_wp_id := of_nat i, yaw_reached := False,
      pos_reached := False\<rparr>) s"
  have i: "unat (of_nat i :: u16) = i"
    using True n by (simp add: MAVLINK_WPM_MAX_WP_COUNT_def unat_of_nat)
  then have lt: "(of_nat i :: u16) < wp_size (wpm s)"
    using True by (simp add: word_less_nat_alt)
  have len: "i < length (waypoints (wpm s))" using True n u by (simp add: uploaded_def)
  show ?thesis
    unfolding start_over_def mavlink_wpm_send_waypoint_current_def
      mavlink_wpm_send_setpoint_def Let_def
    using True lt u n len by (simp add: i mission_inv_def wpm_inv_def uploaded_def)
next
  case False
  then show ?thesis
    using u n by (simp add: start_over_def mission_inv_def wpm_inv_def uploaded_def)
qed

lemma switch_list_eq:
  assumes u: "uploaded (wpm s)"
  defines "ws \<equiv> take (unat (current_count (wpm s))) (rcv_waypoints (wpm s)) @
      drop (unat (current_count (wpm s))) (waypoints (wpm s))"
  obtains i where "find_current 0 (unat (current_count (wpm s))) ws = Some i"
    "switch_list s = start_over i (upd_wpm (\<lambda>w. w\<lparr>waypoints := ws, wp_size := current_count w\<rparr>) s)"
proof -
  have copy: "copy_items 0 (unat (current_count (wpm s))) (rcv_waypoints (wpm s)) (waypoints (wpm s)) = Some ws"
    unfolding ws_def using u by (intro copy_items_take) (simp_all add: uploaded_def)
  have "length ws = MAVLINK_WPM_MAX_WP_COUNT" using u by (simp add: ws_def uploaded_def)
  then obtain i where "find_current 0 (unat (current_count (wpm s))) ws = Some i"
    using find_current_spec [of "unat (current_count (wpm s))" ws 0] u by (auto simp: uploaded_def)
  then show ?thesis using that copy by (simp add: switch_list_def Let_def)
qed

lemma switch_list_keeps:
  assumes u: "uploaded (wpm s)"
  shows "keeps (switch_list s)"
proof -
  let ?ws = "take (unat (current_count (wpm s))) (rcv_waypoints (wpm s)) @
      drop (unat (current_count (wpm s))) (waypoints (wpm s))"
  obtain i where i: "switch_list s = start_over i
      (upd_wpm (\<lambda>w. w\<lparr>waypoints := ?ws, wp_size := current_count w\<rparr>) s)"
    by (rule switch_list_eq [OF u])
  show ?thesis unfolding i
    by (rule start_over_keeps) (use u in \<open>simp_all add: uploaded_def\<close>)
qed

lemma finish_upload_keeps: "uploaded (wpm s) \<Longrightarrow> keeps (finish_upload s)"
  unfolding finish_upload_def
  by (rule switch_list_keeps) (auto simp: uploaded_def clamp_active_def)

definition expects :: "wpm_storage \<Rightarrow> u16 \<Rightarrow> bool" where
  "expects w n \<longleftrightarrow> (current_state w = MAVLINK_WPM_STATE_GETLIST \<and> n = 0) \<or>
     (current_state w = MAVLINK_WPM_STATE_GETLIST_GETWPS \<and> n = current_wp_id w \<and> n < current_count w)"

definition receive_item :: "u64 \<Rightarrow> mission_item \<Rightarrow> mission \<Rightarrow> mission" where
  "receive_item now wp s = upd_wpm (\<lambda>w. w\<lparr>timestamp_lastaction := now,
     current_state := MAVLINK_WPM_STATE_GETLIST_GETWPS,
     rcv_waypoints := (rcv_waypoints w)[unat (seq wp) := wp], current_wp_id := seq wp + 1\<rparr>)
     (gcs_text ''GOT WP'' s)"

lemma handle_item_expected:
  assumes "target_system wp = my_sysid s" "target_component wp = mavlink_wpm_comp_id"
    and "expects (wpm s) (seq wp)" "unat (seq wp) < length (rcv_waypoints (wpm s))"
  shows "handle_item now wp s =
    (if seq wp + 1 = current_count (wpm s) then finish_upload (receive_item now wp s)
     else Some (mavlink_wpm_send_waypoint_request (seq wp + 1) (receive_item now wp s)))"
  unfolding handle_item_def Let_def
  using assms by (simp add: expects_def [symmetric] receive_item_def)

lemma handle_item_keeps:
  assumes "mission_inv s"
  shows "keeps (handle_item now wp s)"
proof -
  consider (foreign) "\<not> (target_system wp = my_sysid s \<and> target_component wp = mavlink_wpm_comp_id)"
    | (expected) "target_system wp = my_sysid s" "target_component wp = mavlink_wpm_comp_id"
        "expects (wpm s) (seq wp)"
    | (unexpected) "target_system wp = my_sysid s" "target_component wp = mavlink_wpm_comp_id"
        "\<not> expects (wpm s) (seq wp)"
    by blast
  then show ?thesis
  proof cases
    case foreign
    then show ?thesis using assms by (auto simp: handle_item_def mission_inv_def)
  next
    case unexpected
    then show ?thesis
      unfolding handle_item_def Let_def using assms
      by (cases "current_state (wpm s)") (auto simp: mission_inv_def expects_def)
  next
    case expected
    let ?c = "current_count (wpm s)"
    have c: "unat ?c \<le> MAVLINK_WPM_MAX_WP_COUNT" "seq wp < ?c"
      using expected(3) assms by (auto simp: mission_inv_def wpm_inv_def expects_def)
    then have ix: "unat (seq wp) < length (rcv_waypoints (wpm s))"
      using assms small_index by (fastforce simp: mission_inv_def wpm_inv_def)
    have "uploaded (wpm (receive_item now wp s))"
      using assms c by (auto simp: receive_item_def mission_inv_def wpm_inv_def uploaded_def)
    moreover have "mission_inv (receive_item now wp s)" if "seq wp + 1 \<noteq> ?c"
    proof -
      have "seq wp + 1 < ?c" using c(2) that by (metis inc_le order_le_less)
      moreover have "0 < ?c" using c(2) by (auto simp: word_gt_0)
      ultimately show ?thesis
        using assms c by (auto simp: receive_item_def mission_inv_def wpm_inv_def)
    qed
    ultimately show ?thesis
      by (simp add: handle_item_expected [OF expected ix] finish_upload_keeps mission_inv_def)
  qed
qed

lemma handle_payload_keeps:
  assumes "mission_inv s" "fits_storage (Message sysid compid msg p)"
  shows "keeps (handle_payload now sysid compid msg s)"
  using assms
  by (cases msg) (simp_all add: handle_ack_keeps handle_set_current_keeps handle_request_list_keeps
      handle_request_keeps handle_count_keeps handle_item_keeps handle_clear_all_keeps)

lemma mission_step_keeps: "mission_inv s \<Longrightarrow> fits_storage e \<Longrightarrow> keeps (mission_step e s)"
proof (cases e)
  case (Message sysid compid msg p)
  assume "mission_inv s" and f: "fits_storage e"
  then have "mission_inv (s\<lparr>clock_reads := Suc (clock_reads s)\<rparr>)" by (simp add: mission_inv_def)
  then show ?thesis
    using Message f
    by (auto simp: mavlink_wpm_message_handler_def Let_def
        intro!: keeps_bind handle_payload_keeps check_waypoints_reached_keeps)
qed (auto intro: eventloop_keeps)

lemma mission_inv_start: "mission_start s \<Longrightarrow> mission_inv s"
  by (auto simp: mission_start_def mission_inv_def wpm_inv_def mavlink_wpm_init_def
      MAVLINK_WPM_MAX_WP_COUNT_def)

interpretation missions: safe_machine mission_step mission_start mission_inv fits_storage
proof unfold_locales
  fix s assume "mission_start s"
  then show "mission_inv s" by (rule mission_inv_start)
next
  fix s e s' assume "mission_inv s" "fits_storage e" "mission_step e s = Some s'"
  then show "mission_inv s'" using mission_step_keeps [of s e] by simp
next
  fix s e assume "mission_inv s" "fits_storage e"
  then show "\<exists>s'. mission_step e s = Some s'" using mission_step_keeps [of s e]
    by (auto simp: keeps_def)
qed

section \<open>Following the mission leaves transfers alone\<close>

text \<open>
  \<open>check_waypoints_reached\<close> runs after every message. It changes which item is marked as current,
  the setpoint and its timestamps; what a transfer reads, stores and sends is unaffected.
\<close>

definition strip :: "mission_item \<Rightarrow> mission_item" where
  "strip w = w\<lparr>current := 0\<rparr>"

fun transfer_out :: "mission_out \<Rightarrow> bool" where
  "transfer_out (Out_ack a b c) = True"
| "transfer_out (Out_count a b c) = True"
| "transfer_out (Out_item w) = True"
| "transfer_out (Out_request a b c) = True"
| "transfer_out _ = False"

record transfer =
  t_state :: wpm_state
  t_size :: u16
  t_max_size :: u16
  t_wp_id :: u16
  t_count :: u16
  t_sysid :: u8
  t_compid :: u8
  t_rcv :: "mission_item list"
  t_list :: "mission_item list"
  t_me :: u8
  t_sent :: "mission_out list"

definition transfer_of :: "mission \<Rightarrow> transfer" where
  "transfer_of s = \<lparr>t_state = current_state (wpm s), t_size = wp_size (wpm s),
     t_max_size = max_size (wpm s), t_wp_id = current_wp_id (wpm s),
     t_count = current_count (wpm s), t_sysid = current_partner_sysid (wpm s),
     t_compid = current_partner_compid (wpm s), t_rcv = rcv_waypoints (wpm s),
     t_list = map strip (waypoints (wpm s)), t_me = my_sysid s,
     t_sent = filter transfer_out (outbox s)\<rparr>"

lemma strip_current [simp]: "strip (w\<lparr>current := c\<rparr>) = strip w"
  by (simp add: strip_def)

lemma map_strip_update:
  "strip v = strip (ws ! i) \<Longrightarrow> map strip (ws[i := v]) = map strip ws"
  by (cases "i < length ws") (simp_all add: map_update list_update_same_conv list_update_beyond)

lemma transfer_send_current:
  "mavlink_wpm_send_waypoint_current n s = Some s' \<Longrightarrow> transfer_of s' = transfer_of s"
  by (auto simp: mavlink_wpm_send_waypoint_current_def transfer_of_def split: if_splits)

lemma transfer_send_setpoint:
  "mavlink_wpm_send_setpoint n s = Some s' \<Longrightarrow> transfer_of s' = transfer_of s"
  by (auto simp: mavlink_wpm_send_setpoint_def transfer_of_def Let_def split: if_splits)

lemma transfer_position: "check_position p s = Some s' \<Longrightarrow> transfer_of s' = transfer_of s"
  by (auto simp: check_position_def transfer_of_def Let_def split: if_splits)

lemma transfer_fly:
  assumes "fly_to_next s = Some s'"
  shows "transfer_of s' = transfer_of s"
proof -
  let ?n = "next_active (wpm s)"
  let ?s1 = "upd_wpm (\<lambda>w. w\<lparr>current_active_wp_id := ?n, timestamp_firstinside_orbit := 0\<rparr>) s"
  obtain s2 s3 wp where 2: "mavlink_wpm_send_waypoint_current ?n ?s1 = Some s2"
    and 3: "mavlink_wpm_send_setpoint ?n s2 = Some s3"
    and wp: "array_get (waypoints (wpm s3)) (unat ?n) = Some wp"
    and s': "s' = upd_wpm (\<lambda>w. w\<lparr>waypoints := (waypoints w)[unat ?n := wp\<lparr>current := 1\<rparr>],
             pos_reached := False, yaw_reached := False\<rparr>) s3"
    using assms by (auto simp: fly_to_next_def Let_def bind_eq_Some_conv)
  have "transfer_of s' = transfer_of s3"
    using wp by (simp add: s' transfer_of_def array_get_Some_iff map_strip_update)
  also have "\<dots> = transfer_of ?s1"
    using transfer_send_current [OF 2] transfer_send_setpoint [OF 3] by simp
  also have "\<dots> = transfer_of s" by (simp add: transfer_of_def)
  finally show ?thesis .
qed

lemma transfer_announce [simp]: "transfer_of (announce_reached now cur s) = transfer_of s"
  by (simp add: announce_reached_def transfer_of_def mavlink_wpm_send_waypoint_reached_def)

lemma transfer_unmark:
  "array_get (waypoints (wpm s)) (unat (current_active_wp_id (wpm s))) = Some cur \<Longrightarrow>
   transfer_of (unmark_active cur s) = transfer_of s"
  by (simp add: unmark_active_def transfer_of_def array_get_Some_iff map_strip_update)

lemma transfer_hold:
  assumes "check_hold now s = Some s'"
  shows "transfer_of s' = transfer_of s"
proof (cases "pos_reached (wpm s) \<and> \<not> idle (wpm s) \<and> current_active_wp_id (wpm s) < wp_size (wpm s)")
  case True
  then obtain cur where cur: "array_get (waypoints (wpm s)) (unat (current_active_wp_id (wpm s))) = Some cur"
    using assms by (auto simp: check_hold_def bind_eq_Some_conv)
  then have "transfer_of (unmark_active cur (announce_reached now cur s)) = transfer_of s"
    by (subst transfer_unmark) simp_all
  then show ?thesis
    using True assms cur by (auto simp: check_hold_def Let_def dest!: transfer_fly split: if_splits)
next
  case False
  then show ?thesis
    using assms by (auto simp: check_hold_def transfer_of_def split: if_splits)
qed

lemma transfer_check:
  "check_waypoints_reached now p s = Some s' \<Longrightarrow> transfer_of s' = transfer_of s"
  by (auto simp: check_waypoints_reached_def bind_eq_Some_conv dest!: transfer_position transfer_hold)

text \<open>Hence a message acts on the transfer as its own handler does.\<close>

lemma transfer_message:
  assumes "mission_inv s" "fits_storage (Message sysid compid msg p)"
  obtains s1 s' where "mission_step (Message sysid compid msg p) s = Some s'" "mission_inv s'"
    "handle_payload (clock s (clock_reads s)) sysid compid msg
       (s\<lparr>clock_reads := Suc (clock_reads s)\<rparr>) = Some s1"
    "transfer_of s' = transfer_of s1"
proof -
  let ?s0 = "s\<lparr>clock_reads := Suc (clock_reads s)\<rparr>"
  obtain s' where s': "mission_step (Message sysid compid msg p) s = Some s'" "mission_inv s'"
    using mission_step_keeps [OF assms] by (auto simp: keeps_def)
  then obtain s1 where
    "handle_payload (clock s (clock_reads s)) sysid compid msg ?s0 = Some s1"
    "check_waypoints_reached (clock s (clock_reads s)) p s1 = Some s'"
    by (auto simp: mavlink_wpm_message_handler_def Let_def bind_eq_Some_conv)
  with s' show ?thesis using that transfer_check by blast
qed

section \<open>Uploads\<close>

lemma transfer_of_fields:
  "t_state (transfer_of s) = current_state (wpm s)" "t_size (transfer_of s) = wp_size (wpm s)"
  "t_wp_id (transfer_of s) = current_wp_id (wpm s)" "t_count (transfer_of s) = current_count (wpm s)"
  "t_rcv (transfer_of s) = rcv_waypoints (wpm s)" "t_me (transfer_of s) = my_sysid s"
  "t_sysid (transfer_of s) = current_partner_sysid (wpm s)"
  "t_compid (transfer_of s) = current_partner_compid (wpm s)"
  "t_max_size (transfer_of s) = max_size (wpm s)"
  "t_list (transfer_of s) = map strip (waypoints (wpm s))"
  "t_sent (transfer_of s) = filter transfer_out (outbox s)"
  by (simp_all add: transfer_of_def)

lemma transfer_of_tick [simp]: "transfer_of (s\<lparr>clock_reads := n\<rparr>) = transfer_of s"
  by (simp add: transfer_of_def)

lemma capacity: "mission_inv s \<Longrightarrow> max_size (wpm s) = 15"
  by (simp add: mission_inv_def wpm_inv_def MAVLINK_WPM_MAX_WP_COUNT_def)

text \<open>The announcement of an upload.\<close>

lemma upload_announced:
  assumes "mission_inv s" "current_state (wpm s) = MAVLINK_WPM_STATE_IDLE"
    and "0 < n" "unat n \<le> MAVLINK_WPM_MAX_WP_COUNT"
  obtains s' where "mission_step (Message sysid compid (MISSION_COUNT (my_sysid s) n) p) s = Some s'"
    "mission_inv s'"
    "transfer_of s' = (transfer_of s)\<lparr>t_state := MAVLINK_WPM_STATE_GETLIST, t_wp_id := 0, t_count := n,
       t_sysid := sysid, t_compid := compid,
       t_sent := t_sent (transfer_of s) @ [Out_request sysid compid 0]\<rparr>"
proof -
  obtain s1 s' where s': "mission_step (Message sysid compid (MISSION_COUNT (my_sysid s) n) p) s = Some s'"
    "mission_inv s'"
    "handle_payload (clock s (clock_reads s)) sysid compid (MISSION_COUNT (my_sysid s) n)
       (s\<lparr>clock_reads := Suc (clock_reads s)\<rparr>) = Some s1"
    "transfer_of s' = transfer_of s1"
    by (rule transfer_message [OF assms(1), of sysid compid "MISSION_COUNT (my_sysid s) n" p])
       (use assms(4) in simp)
  have "transfer_of s1 = (transfer_of s)\<lparr>t_state := MAVLINK_WPM_STATE_GETLIST, t_wp_id := 0,
      t_count := n, t_sysid := sysid, t_compid := compid,
      t_sent := t_sent (transfer_of s) @ [Out_request sysid compid 0]\<rparr>"
    using s'(3) assms(2,3) capacity [OF assms(1)]
    by (auto simp: handle_count_def Let_def transfer_of_def mavlink_wpm_send_waypoint_request_def)
  with s' show ?thesis using that by simp
qed

text \<open>An expected item: it is stored, and either the next one requested or the list switched.\<close>

definition awaits :: "transfer \<Rightarrow> nat \<Rightarrow> bool" where
  "awaits t k \<longleftrightarrow> t_state t = (if k = 0 then MAVLINK_WPM_STATE_GETLIST else MAVLINK_WPM_STATE_GETLIST_GETWPS)
     \<and> t_wp_id t = of_nat k \<and> k < unat (t_count t) \<and> unat (t_count t) \<le> MAVLINK_WPM_MAX_WP_COUNT"

definition store_item :: "nat \<Rightarrow> mission_item \<Rightarrow> transfer \<Rightarrow> transfer" where
  "store_item k wp t = t\<lparr>t_state := MAVLINK_WPM_STATE_GETLIST_GETWPS, t_wp_id := of_nat (Suc k),
     t_rcv := (t_rcv t)[k := wp]\<rparr>"

definition request_next :: "transfer \<Rightarrow> transfer" where
  "request_next t = t\<lparr>t_sent := t_sent t @ [Out_request (t_sysid t) (t_compid t) (t_wp_id t)]\<rparr>"

definition take_over :: "transfer \<Rightarrow> transfer" where
  "take_over t = t\<lparr>t_state := MAVLINK_WPM_STATE_IDLE, t_size := t_count t,
     t_list := map strip (take (unat (t_count t)) (t_rcv t)) @ drop (unat (t_count t)) (t_list t),
     t_sent := t_sent t @ [Out_ack (t_sysid t) (t_compid t) 0]\<rparr>"

lemma transfer_start_over:
  assumes "start_over i s = Some s'"
  shows "transfer_of s' = (transfer_of s)\<lparr>t_state := MAVLINK_WPM_STATE_IDLE\<rparr>"
proof (cases "i < unat (wp_size (wpm s))")
  case True
  define s1 where "s1 = upd_wpm (\<lambda>w. w\<lparr>current_active_wp_id := of_nat i, yaw_reached := False,
      pos_reached := False\<rparr>) s"
  obtain s2 s3 where "mavlink_wpm_send_waypoint_current (of_nat i) s1 = Some s2"
    "mavlink_wpm_send_setpoint (of_nat i) s2 = Some s3"
    and s': "s' = upd_wpm (\<lambda>w. w\<lparr>timestamp_firstinside_orbit := 0,
        current_state := MAVLINK_WPM_STATE_IDLE\<rparr>) s3"
    using assms True by (auto simp: start_over_def s1_def Let_def bind_eq_Some_conv)
  then have "transfer_of s3 = transfer_of s1"
    using transfer_send_current transfer_send_setpoint by metis
  also have "\<dots> = transfer_of s" by (simp add: s1_def transfer_of_def)
  finally show ?thesis by (simp add: s' transfer_of_def)
next
  case False
  then show ?thesis using assms by (auto simp: start_over_def transfer_of_def)
qed

lemma transfer_finish_upload:
  assumes "uploaded (wpm s)" "finish_upload s = Some s'"
  shows "transfer_of s' = take_over (transfer_of s)"
proof -
  define t where "t = clamp_active (mavlink_wpm_send_waypoint_ack 0 (gcs_text ''GOT ALL WPS'' s))"
  have u: "uploaded (wpm t)" using assms(1) by (simp add: t_def clamp_active_def uploaded_def)
  let ?ws = "take (unat (current_count (wpm t))) (rcv_waypoints (wpm t)) @
      drop (unat (current_count (wpm t))) (waypoints (wpm t))"
  obtain i where "switch_list t =
      start_over i (upd_wpm (\<lambda>w. w\<lparr>waypoints := ?ws, wp_size := current_count w\<rparr>) t)"
    by (rule switch_list_eq [OF u])
  then have "transfer_of s' = (transfer_of (upd_wpm (\<lambda>w. w\<lparr>waypoints := ?ws,
      wp_size := current_count w\<rparr>) t))\<lparr>t_state := MAVLINK_WPM_STATE_IDLE\<rparr>"
    using assms(2) transfer_start_over by (simp add: finish_upload_def t_def)
  then show ?thesis
    by (simp add: transfer_of_def take_over_def t_def clamp_active_def
        mavlink_wpm_send_waypoint_ack_def take_map drop_map)
qed

lemma small_count:
  assumes "unat (c::u16) \<le> MAVLINK_WPM_MAX_WP_COUNT" "k < unat c"
  shows "unat (of_nat k :: u16) = k" "of_nat k < c" "(of_nat k + 1 = c) = (Suc k = unat c)"
proof -
  have k: "k < 15" using assms by (simp add: MAVLINK_WPM_MAX_WP_COUNT_def)
  then show u: "unat (of_nat k :: u16) = k" by (simp add: unat_of_nat)
  show "of_nat k < c" using u assms(2) by (simp add: word_less_nat_alt)
  have "unat (of_nat k + 1 :: u16) = Suc k" using k by (simp add: unat_word_ariths unat_of_nat)
  then show "(of_nat k + 1 = c) = (Suc k = unat c)" by (metis word_unat_eq_iff)
qed

lemma upload_item:
  assumes inv: "mission_inv s" and aw: "awaits (transfer_of s) k"
    and wp: "seq wp = of_nat k" "target_system wp = my_sysid s" "target_component wp = mavlink_wpm_comp_id"
  obtains s' where "mission_step (Message sysid compid (MISSION_ITEM wp) p) s = Some s'" "mission_inv s'"
    "transfer_of s' = (let t = store_item k wp (transfer_of s)
       in if Suc k = unat (t_count t) then take_over t else request_next t)"
proof -
  let ?c = "current_count (wpm s)"
  have c: "unat ?c \<le> MAVLINK_WPM_MAX_WP_COUNT" "k < unat ?c"
    using aw by (simp_all add: awaits_def transfer_of_fields)
  note k = small_count [OF c]
  obtain s1 s' where s': "mission_step (Message sysid compid (MISSION_ITEM wp) p) s = Some s'"
    "mission_inv s'"
    "handle_payload (clock s (clock_reads s)) sysid compid (MISSION_ITEM wp)
       (s\<lparr>clock_reads := Suc (clock_reads s)\<rparr>) = Some s1"
    "transfer_of s' = transfer_of s1"
    by (rule transfer_message [OF inv, of sysid compid "MISSION_ITEM wp" p]) simp
  let ?s0 = "s\<lparr>clock_reads := Suc (clock_reads s)\<rparr>"
  define s2 where "s2 = receive_item (clock s (clock_reads s)) wp ?s0"
  have t2: "transfer_of s2 = store_item k wp (transfer_of s)"
    by (simp add: s2_def receive_item_def store_item_def transfer_of_def wp(1) k(1) add.commute)
  have lens: "length (rcv_waypoints (wpm s)) = MAVLINK_WPM_MAX_WP_COUNT"
    "length (waypoints (wpm s)) = MAVLINK_WPM_MAX_WP_COUNT"
    using inv by (simp_all add: mission_inv_def wpm_inv_def)
  have "expects (wpm ?s0) (seq wp)"
    using aw k(2) by (auto simp: expects_def awaits_def transfer_of_fields wp(1) split: if_splits)
  then have "handle_item (clock s (clock_reads s)) wp ?s0 =
      (if seq wp + 1 = current_count (wpm ?s0) then finish_upload s2
       else Some (mavlink_wpm_send_waypoint_request (seq wp + 1) s2))"
    unfolding s2_def using wp lens c k(1) by (intro handle_item_expected) simp_all
  then have h: "(if Suc k = unat ?c then finish_upload s2
       else Some (mavlink_wpm_send_waypoint_request (of_nat (Suc k)) s2)) = Some s1"
  proof -
    assume eq: "handle_item (clock s (clock_reads s)) wp ?s0 =
      (if seq wp + 1 = current_count (wpm ?s0) then finish_upload s2
       else Some (mavlink_wpm_send_waypoint_request (seq wp + 1) s2))"
    have e: "seq wp + 1 = of_nat (Suc k)" by (simp add: wp(1) add.commute)
    have c: "(of_nat (Suc k) = ?c) = (Suc k = unat ?c)" using k(3) by (simp add: add.commute)
    show ?thesis using s'(3) eq unfolding e by (simp del: of_nat_Suc add: c)
  qed
  have "transfer_of s1 = (if Suc k = unat ?c then take_over (transfer_of s2) else request_next (transfer_of s2))"
  proof (cases "Suc k = unat ?c")
    case True
    have "uploaded (wpm s2)"
      using lens c capacity [OF inv]
      by (simp add: uploaded_def s2_def receive_item_def MAVLINK_WPM_MAX_WP_COUNT_def)
    then show ?thesis using True h transfer_finish_upload by simp
  next
    case False
    then have "Suc k < 15" using c by (simp add: MAVLINK_WPM_MAX_WP_COUNT_def)
    then have "(of_nat (Suc k) :: u16) < 15"
      by (simp add: word_less_nat_alt unat_of_nat del: of_nat_Suc)
    then show ?thesis
      using False h capacity [OF inv]
      by (auto simp: mavlink_wpm_send_waypoint_request_def request_next_def transfer_of_def
          s2_def receive_item_def wp(1) add.commute)
  qed
  with s' t2 show ?thesis
    using that by (simp add: Let_def store_item_def transfer_of_fields)
qed

text \<open>The messages of an upload, and the transfer after its first \<open>k\<close> items.\<close>

definition upload_messages ::
  "u8 \<Rightarrow> u8 \<Rightarrow> u8 \<Rightarrow> nav \<Rightarrow> mission_item list \<Rightarrow> mission_event list" where
  "upload_messages me sysid compid p items =
     Message sysid compid (MISSION_COUNT me (of_nat (length items))) p #
     map (\<lambda>w. Message sysid compid (MISSION_ITEM w) p) items"

definition upload_start ::
  "u8 \<Rightarrow> u8 \<Rightarrow> u8 \<Rightarrow> nav \<Rightarrow> mission_item list \<Rightarrow> nat \<Rightarrow> mission_event list" where
  "upload_start me sysid compid p items k =
     Message sysid compid (MISSION_COUNT me (of_nat (length items))) p #
     map (\<lambda>w. Message sysid compid (MISSION_ITEM w) p) (take k items)"

lemma upload_start_Suc:
  "k < length items \<Longrightarrow> upload_start me sysid compid p items (Suc k) =
     upload_start me sysid compid p items k @ [Message sysid compid (MISSION_ITEM (items ! k)) p]"
  by (simp add: upload_start_def take_Suc_conv_app_nth)

lemma upload_start_all:
  "upload_start me sysid compid p items (length items) = upload_messages me sysid compid p items"
  by (simp add: upload_start_def upload_messages_def)

definition numbered :: "u8 \<Rightarrow> mission_item list \<Rightarrow> bool" where
  "numbered me items \<longleftrightarrow> (\<forall>k < length items. seq (items ! k) = of_nat k \<and>
     target_system (items ! k) = me \<and> target_component (items ! k) = mavlink_wpm_comp_id)"

definition uploading :: "u8 \<Rightarrow> u8 \<Rightarrow> mission_item list \<Rightarrow> transfer \<Rightarrow> nat \<Rightarrow> transfer \<Rightarrow> bool" where
  "uploading sysid compid items t0 k t \<longleftrightarrow> awaits t k \<and> t_count t = of_nat (length items) \<and>
     t_sysid t = sysid \<and> t_compid t = compid \<and> t_me t = t_me t0 \<and>
     take k (t_rcv t) = take k items \<and> length (t_rcv t) = MAVLINK_WPM_MAX_WP_COUNT \<and>
     t_list t = t_list t0 \<and>
     t_sent t = t_sent t0 @ map (\<lambda>j. Out_request sysid compid (of_nat j)) [0..<Suc k]"

lemma upload_prefix:
  assumes inv: "mission_inv s" "current_state (wpm s) = MAVLINK_WPM_STATE_IDLE"
    and n: "length items \<le> MAVLINK_WPM_MAX_WP_COUNT" and num: "numbered (my_sysid s) items"
    and k: "k < length items"
  shows "\<exists>s'. run_steps mission_step (upload_start (my_sysid s) sysid compid p items k) s = Some s' \<and>
      mission_inv s' \<and> uploading sysid compid items (transfer_of s) k (transfer_of s')"
  using k
proof (induction k)
  case 0
  have u: "unat (of_nat (length items) :: u16) = length items"
    using n by (simp add: MAVLINK_WPM_MAX_WP_COUNT_def unat_of_nat)
  then have "0 < (of_nat (length items) :: u16)" using 0 by (simp add: word_less_nat_alt)
  then obtain s' where "mission_step (Message sysid compid
      (MISSION_COUNT (my_sysid s) (of_nat (length items))) p) s = Some s'" "mission_inv s'"
    "transfer_of s' = (transfer_of s)\<lparr>t_state := MAVLINK_WPM_STATE_GETLIST, t_wp_id := 0,
       t_count := of_nat (length items), t_sysid := sysid, t_compid := compid,
       t_sent := t_sent (transfer_of s) @ [Out_request sysid compid 0]\<rparr>"
    using upload_announced [OF inv, of "of_nat (length items)" sysid compid p] u n by metis
  moreover have "length (t_rcv (transfer_of s)) = MAVLINK_WPM_MAX_WP_COUNT"
    using inv by (simp add: transfer_of_fields mission_inv_def wpm_inv_def)
  ultimately show ?case
    using u n 0 by (auto simp: uploading_def awaits_def upload_start_def)
next
  case (Suc k)
  then obtain s1 where s1: "run_steps mission_step (upload_start (my_sysid s) sysid compid p items k) s = Some s1"
    and i1: "mission_inv s1" and up: "uploading sysid compid items (transfer_of s) k (transfer_of s1)"
    by auto
  have me: "my_sysid s1 = my_sysid s" using up by (simp add: uploading_def transfer_of_fields)
  have wp: "seq (items ! k) = of_nat k" "target_system (items ! k) = my_sysid s1"
    "target_component (items ! k) = mavlink_wpm_comp_id"
    using num Suc.prems me by (simp_all add: numbered_def)
  have u: "unat (of_nat (length items) :: u16) = length items"
    using n by (simp add: MAVLINK_WPM_MAX_WP_COUNT_def unat_of_nat)
  have aw: "awaits (transfer_of s1) k" using up by (simp add: uploading_def)
  obtain s2 where s2: "mission_step (Message sysid compid (MISSION_ITEM (items ! k)) p) s1 = Some s2"
    "mission_inv s2" "transfer_of s2 = (let t = store_item k (items ! k) (transfer_of s1)
       in if Suc k = unat (t_count t) then take_over t else request_next t)"
    by (rule upload_item [OF i1 aw wp])
  then have t2: "transfer_of s2 = request_next (store_item k (items ! k) (transfer_of s1))"
    using up u Suc.prems by (simp add: uploading_def store_item_def Let_def)
  have "take (Suc k) ((t_rcv (transfer_of s1))[k := items ! k]) = take (Suc k) items"
    using up n Suc.prems
    by (simp add: uploading_def take_Suc_conv_app_nth take_update_cancel)
  then have "uploading sysid compid items (transfer_of s) (Suc k) (transfer_of s2)"
    using up t2 u n Suc.prems
    by (simp add: uploading_def request_next_def store_item_def awaits_def)
  moreover have "run_steps mission_step (upload_start (my_sysid s) sysid compid p items (Suc k)) s = Some s2"
    using run_steps_snoc [OF s1 s2(1)] Suc.prems by (simp add: upload_start_Suc)
  ultimately show ?case using s2(2) by blast
qed


lemma upload_run:
  assumes inv: "mission_inv s" "current_state (wpm s) = MAVLINK_WPM_STATE_IDLE"
    and n: "length items \<le> MAVLINK_WPM_MAX_WP_COUNT" "items \<noteq> []"
    and num: "numbered (my_sysid s) items"
  obtains s' where "run_steps mission_step (upload_messages (my_sysid s) sysid compid p items) s = Some s'"
    "mission_inv s'" "current_state (wpm s') = MAVLINK_WPM_STATE_IDLE"
    "wp_size (wpm s') = of_nat (length items)"
    "map strip (take (length items) (waypoints (wpm s'))) = map strip items"
    "filter transfer_out (outbox s') = filter transfer_out (outbox s) @
       map (\<lambda>j. Out_request sysid compid (of_nat j)) [0..<length items] @ [Out_ack sysid compid 0]"
proof -
  obtain k where k: "length items = Suc k" using n(2) by (cases items) auto
  obtain s1 where s1: "run_steps mission_step (upload_start (my_sysid s) sysid compid p items k) s = Some s1"
    and i1: "mission_inv s1" and up: "uploading sysid compid items (transfer_of s) k (transfer_of s1)"
    using upload_prefix [OF inv n(1) num, of k sysid compid p] k by auto
  have me: "my_sysid s1 = my_sysid s" using up by (simp add: uploading_def transfer_of_fields)
  have wp: "seq (items ! k) = of_nat k" "target_system (items ! k) = my_sysid s1"
    "target_component (items ! k) = mavlink_wpm_comp_id"
    using num k me by (simp_all add: numbered_def)
  have aw: "awaits (transfer_of s1) k" using up by (simp add: uploading_def)
  obtain s2 where s2: "mission_step (Message sysid compid (MISSION_ITEM (items ! k)) p) s1 = Some s2"
    "mission_inv s2" "transfer_of s2 = (let t = store_item k (items ! k) (transfer_of s1)
       in if Suc k = unat (t_count t) then take_over t else request_next t)"
    by (rule upload_item [OF i1 aw wp])
  have u: "unat (of_nat (length items) :: u16) = Suc k"
    using n(1) k by (simp add: MAVLINK_WPM_MAX_WP_COUNT_def unat_of_nat del: of_nat_Suc)
  have "unat (t_count (transfer_of s1)) = Suc k" using up u by (simp add: uploading_def)
  then have t2: "transfer_of s2 = take_over (store_item k (items ! k) (transfer_of s1))"
    using s2(3) by (simp add: store_item_def Let_def)
  have len: "length (t_rcv (transfer_of s1)) = MAVLINK_WPM_MAX_WP_COUNT"
    and pre: "take k (t_rcv (transfer_of s1)) = take k items"
    using up by (simp_all add: uploading_def)
  have "take (Suc k) ((t_rcv (transfer_of s1))[k := items ! k]) = items"
    using pre len n(1) k take_Suc_conv_app_nth [of k items]
    by (simp add: take_Suc_conv_app_nth take_update_cancel)
  moreover have "take (Suc k) (t_list (transfer_of s2)) =
      map strip (take (Suc k) ((t_rcv (transfer_of s1))[k := items ! k]))"
    using t2 up u len n(1) k by (simp add: take_over_def store_item_def uploading_def)
  ultimately have list: "take (Suc k) (map strip (waypoints (wpm s2))) = map strip items"
    by (simp add: transfer_of_fields)
  have "run_steps mission_step (upload_messages (my_sysid s) sysid compid p items) s = Some s2"
    using run_steps_snoc [OF s1 s2(1)] k upload_start_all [of _ sysid compid p items]
    by (simp add: upload_start_Suc)
  moreover have "current_state (wpm s2) = MAVLINK_WPM_STATE_IDLE"
    "wp_size (wpm s2) = of_nat (length items)"
    "filter transfer_out (outbox s2) = filter transfer_out (outbox s) @
       map (\<lambda>j. Out_request sysid compid (of_nat j)) [0..<length items] @ [Out_ack sysid compid 0]"
    using arg_cong [OF t2, of t_state] arg_cong [OF t2, of t_size] arg_cong [OF t2, of t_sent] up k
    by (simp_all add: take_over_def store_item_def uploading_def transfer_of_fields)
  ultimately show ?thesis using that [of s2] s2(2) list k by (simp add: take_map)
qed

section \<open>Downloads\<close>

text \<open>An item as it is sent: addressed to the partner.\<close>

definition addressed :: "u8 \<Rightarrow> u8 \<Rightarrow> mission_item \<Rightarrow> mission_item" where
  "addressed sysid compid w = w\<lparr>target_system := sysid, target_component := compid\<rparr>"

lemma strip_addressed: "strip (addressed sysid compid w) = addressed sysid compid (strip w)"
  by (simp add: strip_def addressed_def)

lemma addressed_twice [simp]:
  "addressed sysid compid (addressed sysid' compid' w) = addressed sysid compid w"
  by (simp add: addressed_def)

definition download_messages :: "u8 \<Rightarrow> u8 \<Rightarrow> u8 \<Rightarrow> nav \<Rightarrow> nat \<Rightarrow> mission_event list" where
  "download_messages me sysid compid p k =
     Message sysid compid (MISSION_REQUEST_LIST me) p #
     map (\<lambda>j. Message sysid compid (MISSION_REQUEST me (of_nat j)) p) [0..<k]"

lemma download_messages_Suc:
  "download_messages me sysid compid p (Suc k) = download_messages me sysid compid p k @
     [Message sysid compid (MISSION_REQUEST me (of_nat k)) p]"
  by (simp add: download_messages_def)

text \<open>The transfer after the first \<open>k\<close> requests of a download.\<close>

definition downloading :: "u8 \<Rightarrow> u8 \<Rightarrow> transfer \<Rightarrow> nat \<Rightarrow> transfer \<Rightarrow> bool" where
  "downloading sysid compid t0 k t \<longleftrightarrow>
     t_state t = (if k = 0 then MAVLINK_WPM_STATE_SENDLIST else MAVLINK_WPM_STATE_SENDLIST_SENDWPS) \<and>
     t_wp_id t = of_nat (k - 1) \<and> t_size t = t_size t0 \<and> t_me t = t_me t0 \<and>
     t_sysid t = sysid \<and> t_compid t = compid \<and>
     t_list t = map (addressed sysid compid) (take k (t_list t0)) @ drop k (t_list t0) \<and>
     (\<exists>ws. t_sent t = t_sent t0 @ Out_count sysid compid (t_size t0) # map Out_item ws \<and>
       map strip ws = map (addressed sysid compid) (take k (t_list t0)))"

definition send_next :: "nat \<Rightarrow> mission_item \<Rightarrow> transfer \<Rightarrow> transfer" where
  "send_next k wp t = t\<lparr>t_state := MAVLINK_WPM_STATE_SENDLIST_SENDWPS, t_wp_id := of_nat k,
     t_list := (t_list t)[k := addressed (t_sysid t) (t_compid t) (t_list t ! k)],
     t_sent := t_sent t @ [Out_item (addressed (t_sysid t) (t_compid t) wp)]\<rparr>"

lemma transfer_send_waypoint:
  assumes "n < wp_size (wpm s)" "unat n < length (waypoints (wpm s))"
  shows "\<exists>s'. mavlink_wpm_send_waypoint n s = Some s' \<and>
    transfer_of s' = (transfer_of s)\<lparr>
      t_list := (t_list (transfer_of s))[unat n := addressed (t_sysid (transfer_of s))
        (t_compid (transfer_of s)) (t_list (transfer_of s) ! unat n)],
      t_sent := t_sent (transfer_of s) @ [Out_item (addressed (t_sysid (transfer_of s))
        (t_compid (transfer_of s)) (waypoints (wpm s) ! unat n))]\<rparr>"
  using assms
  by (simp add: mavlink_wpm_send_waypoint_def Let_def transfer_of_def map_update
      addressed_def [symmetric] strip_addressed)

text \<open>The announcement of the list, and the request of its next item.\<close>

lemma download_announced:
  assumes inv: "mission_inv s" and idle: "current_state (wpm s) = MAVLINK_WPM_STATE_IDLE"
    and n: "0 < wp_size (wpm s)"
  obtains s' where "mission_step (Message sysid compid (MISSION_REQUEST_LIST (my_sysid s)) p) s = Some s'"
    "mission_inv s'" "downloading sysid compid (transfer_of s) 0 (transfer_of s')"
proof -
  obtain s1 s' where s': "mission_step (Message sysid compid (MISSION_REQUEST_LIST (my_sysid s)) p) s = Some s'"
    "mission_inv s'"
    "handle_payload (clock s (clock_reads s)) sysid compid (MISSION_REQUEST_LIST (my_sysid s))
       (s\<lparr>clock_reads := Suc (clock_reads s)\<rparr>) = Some s1"
    "transfer_of s' = transfer_of s1"
    by (rule transfer_message [OF inv, of sysid compid "MISSION_REQUEST_LIST (my_sysid s)" p]) simp
  have "downloading sysid compid (transfer_of s) 0 (transfer_of s1)"
    using s'(3) idle n
    by (auto simp: handle_request_list_def Let_def transfer_of_def downloading_def
        mavlink_wpm_send_waypoint_count_def)
  with s' show ?thesis using that by simp
qed

lemma download_item:
  assumes inv: "mission_inv s" and d: "downloading sysid compid t0 k (transfer_of s)"
    and k: "k < unat (t_size t0)"
  obtains s' wp where "mission_step (Message sysid compid (MISSION_REQUEST (t_me t0) (of_nat k)) p) s = Some s'"
    "mission_inv s'" "transfer_of s' = send_next k wp (transfer_of s)"
    "strip wp = t_list (transfer_of s) ! k"
proof -
  have st: "wp_size (wpm s) = t_size t0" "my_sysid s = t_me t0"
    "current_partner_sysid (wpm s) = sysid" "current_partner_compid (wpm s) = compid"
    "current_state (wpm s) = (if k = 0 then MAVLINK_WPM_STATE_SENDLIST
       else MAVLINK_WPM_STATE_SENDLIST_SENDWPS)" "current_wp_id (wpm s) = of_nat (k - 1)"
    using d by (simp_all add: downloading_def transfer_of_fields)
  have size: "unat (t_size t0) \<le> MAVLINK_WPM_MAX_WP_COUNT" and
    len: "length (waypoints (wpm s)) = MAVLINK_WPM_MAX_WP_COUNT"
    using inv st(1) by (auto simp: mission_inv_def wpm_inv_def)
  note kk = small_count [OF size k]
  have follows: "uint (of_nat k :: u16) = uint (of_nat (k - 1) :: u16) + 1" if "k \<noteq> 0"
  proof -
    have "k < 15" using k size by (simp add: MAVLINK_WPM_MAX_WP_COUNT_def)
    then have "unat (of_nat k :: u16) = k" "unat (of_nat (k - 1) :: u16) = k - 1"
      by (simp_all add: unat_of_nat del: of_nat_diff)
    then show ?thesis unfolding uint_nat using that by (simp del: of_nat_diff)
  qed
  obtain s1 s' where s': "mission_step (Message sysid compid (MISSION_REQUEST (t_me t0) (of_nat k)) p) s = Some s'"
    "mission_inv s'"
    "handle_payload (clock s (clock_reads s)) sysid compid (MISSION_REQUEST (t_me t0) (of_nat k))
       (s\<lparr>clock_reads := Suc (clock_reads s)\<rparr>) = Some s1"
    "transfer_of s' = transfer_of s1"
    by (rule transfer_message [OF inv, of sysid compid "MISSION_REQUEST (t_me t0) (of_nat k)" p]) simp
  obtain s0 where s0: "mavlink_wpm_send_waypoint (of_nat k) s0 = Some s1"
    "transfer_of s0 = (transfer_of s)\<lparr>t_state := MAVLINK_WPM_STATE_SENDLIST_SENDWPS, t_wp_id := of_nat k\<rparr>"
    "waypoints (wpm s0) = waypoints (wpm s)" "wp_size (wpm s0) = wp_size (wpm s)"
  proof (cases "k = 0")
    case True
    then show ?thesis using that s'(3) st
      by (simp add: handle_request_def Let_def from_partner_def transfer_of_def)
  next
    case False
    have "(of_nat k :: u16) \<noteq> of_nat (k - 1)" using follows [OF False] by auto
    with False show ?thesis using that s'(3) st follows [OF False] kk(2)
      by (simp add: handle_request_def Let_def from_partner_def transfer_of_def)
  qed
  have "transfer_of s1 = send_next k (waypoints (wpm s) ! k) (transfer_of s)"
    using transfer_send_waypoint [of "of_nat k" s0] s0 st(1) kk k size len
    by (simp add: send_next_def)
  moreover have "strip (waypoints (wpm s) ! k) = t_list (transfer_of s) ! k"
    using k size len by (simp add: transfer_of_fields)
  ultimately show ?thesis using that s' by simp
qed

lemma download_prefix:
  assumes inv: "mission_inv s" "current_state (wpm s) = MAVLINK_WPM_STATE_IDLE"
    and n: "0 < wp_size (wpm s)" and k: "k \<le> unat (wp_size (wpm s))"
  shows "\<exists>s'. run_steps mission_step (download_messages (my_sysid s) sysid compid p k) s = Some s' \<and>
    mission_inv s' \<and> downloading sysid compid (transfer_of s) k (transfer_of s')"
  using k
proof (induction k)
  case 0
  obtain s' where "mission_step (Message sysid compid (MISSION_REQUEST_LIST (my_sysid s)) p) s = Some s'"
    "mission_inv s'" "downloading sysid compid (transfer_of s) 0 (transfer_of s')"
    by (rule download_announced [OF inv n])
  then show ?case by (simp add: download_messages_def)
next
  case (Suc k)
  then obtain s1 where s1: "run_steps mission_step (download_messages (my_sysid s) sysid compid p k) s = Some s1"
    "mission_inv s1" and d: "downloading sysid compid (transfer_of s) k (transfer_of s1)"
    by auto
  have k: "k < unat (t_size (transfer_of s))" using Suc.prems by (simp add: transfer_of_fields)
  have len: "k < length (t_list (transfer_of s))"
    using inv(1) Suc.prems by (simp add: transfer_of_fields mission_inv_def wpm_inv_def)
  obtain s2 wp where s2: "mission_step (Message sysid compid
      (MISSION_REQUEST (t_me (transfer_of s)) (of_nat k)) p) s1 = Some s2"
    "mission_inv s2" "transfer_of s2 = send_next k wp (transfer_of s1)"
    "strip wp = t_list (transfer_of s1) ! k"
    by (rule download_item [OF s1(2) d k])
  have list: "t_list (transfer_of s1) = map (addressed sysid compid) (take k (t_list (transfer_of s))) @
      drop k (t_list (transfer_of s))"
    using d by (simp add: downloading_def)
  then have at: "t_list (transfer_of s1) ! k = t_list (transfer_of s) ! k"
    using len by (simp add: nth_append)
  have list2: "(t_list (transfer_of s1))[k := addressed sysid compid (t_list (transfer_of s1) ! k)] =
      map (addressed sysid compid) (take (Suc k) (t_list (transfer_of s))) @ drop (Suc k) (t_list (transfer_of s))"
    unfolding at unfolding list using len
    by (simp add: list_update_append take_Suc_conv_app_nth Cons_nth_drop_Suc [symmetric])
  obtain ws where ws: "t_sent (transfer_of s1) = t_sent (transfer_of s) @
      Out_count sysid compid (t_size (transfer_of s)) # map Out_item ws"
    "map strip ws = map (addressed sysid compid) (take k (t_list (transfer_of s)))"
    using d by (auto simp: downloading_def)
  have "map strip (ws @ [addressed sysid compid wp]) =
      map (addressed sysid compid) (take (Suc k) (t_list (transfer_of s)))"
    using ws(2) s2(4) at len by (simp add: strip_addressed take_Suc_conv_app_nth)
  moreover have "t_sent (transfer_of s2) = t_sent (transfer_of s) @
      Out_count sysid compid (t_size (transfer_of s)) # map Out_item (ws @ [addressed sysid compid wp])"
    using s2(3) ws(1) d by (simp add: send_next_def downloading_def)
  ultimately have sent: "\<exists>ws. t_sent (transfer_of s2) = t_sent (transfer_of s) @
      Out_count sysid compid (t_size (transfer_of s)) # map Out_item ws \<and>
      map strip ws = map (addressed sysid compid) (take (Suc k) (t_list (transfer_of s)))"
    by blast
  have "downloading sysid compid (transfer_of s) (Suc k) (transfer_of s2)"
    unfolding downloading_def
    using sent d s2(3) list2 by (simp add: downloading_def send_next_def)
  moreover have "run_steps mission_step (download_messages (my_sysid s) sysid compid p (Suc k)) s = Some s2"
    using run_steps_snoc [OF s1(1)] s2(1) by (simp add: download_messages_Suc transfer_of_fields)
  ultimately show ?case using s2(2) by blast
qed

text \<open>The acknowledgement after the last item ends the download.\<close>

lemma download_acknowledged:
  assumes inv: "mission_inv s" and d: "downloading sysid compid t0 (unat (t_size t0)) (transfer_of s)"
    and n: "0 < t_size t0"
  obtains s' where "mission_step (Message sysid compid (MISSION_ACK (t_me t0) ) p) s = Some s'"
    "mission_inv s'"
    "transfer_of s' = (transfer_of s)\<lparr>t_state := MAVLINK_WPM_STATE_IDLE, t_wp_id := 0\<rparr>"
proof -
  have pos: "0 < unat (t_size t0)" using n by (simp add: word_less_nat_alt)
  have st: "wp_size (wpm s) = t_size t0" "my_sysid s = t_me t0"
    "current_partner_sysid (wpm s) = sysid" "current_partner_compid (wpm s) = compid"
    "current_state (wpm s) = MAVLINK_WPM_STATE_SENDLIST_SENDWPS"
    "current_wp_id (wpm s) = of_nat (unat (t_size t0) - 1)"
    using d pos by (simp_all add: downloading_def transfer_of_fields)
  have "unat (t_size t0) < 2 ^ 16" by (rule order_less_le_trans [OF unsigned_less]) simp
  then have "unat (of_nat (unat (t_size t0) - 1) :: u16) = unat (t_size t0) - 1"
    by (simp add: unat_of_nat del: of_nat_diff)
  then have last: "uint (current_wp_id (wpm s)) = uint (wp_size (wpm s)) - 1"
    unfolding st uint_nat using pos by (simp add: of_nat_diff del: of_nat_unat)
  obtain s1 s' where s': "mission_step (Message sysid compid (MISSION_ACK (t_me t0)) p) s = Some s'"
    "mission_inv s'"
    "handle_payload (clock s (clock_reads s)) sysid compid (MISSION_ACK (t_me t0))
       (s\<lparr>clock_reads := Suc (clock_reads s)\<rparr>) = Some s1"
    "transfer_of s' = transfer_of s1"
    by (rule transfer_message [OF inv, of sysid compid "MISSION_ACK (t_me t0)" p]) simp
  have "transfer_of s1 = (transfer_of s)\<lparr>t_state := MAVLINK_WPM_STATE_IDLE, t_wp_id := 0\<rparr>"
    using s'(3) st(2-5) last
    by (auto simp: handle_ack_def Let_def from_partner_def sending_def transfer_of_def)
  with s' show ?thesis using that by simp
qed

section \<open>An upload larger than the storage\<close>

lemma check_empty:
  "wp_size (wpm s) = 0 \<Longrightarrow> \<exists>t. check_waypoints_reached now p s =
     Some (upd_wpm (\<lambda>w. w\<lparr>timestamp_lastoutside_orbit := t\<rparr>) s)"
proof -
  assume e: "wp_size (wpm s) = 0"
  show ?thesis
  proof (cases "pos_reached (wpm s) \<and> \<not> idle (wpm s)")
    case True
    then show ?thesis using e
      by (intro exI [of _ "timestamp_lastoutside_orbit (wpm s)"])
         (simp add: check_waypoints_reached_def check_position_def check_hold_def)
  next
    case False
    then have "check_waypoints_reached now p s =
        Some (upd_wpm (\<lambda>w. w\<lparr>timestamp_lastoutside_orbit := now\<rparr>) s)"
      using e by (auto simp: check_waypoints_reached_def check_position_def check_hold_def)
    then show ?thesis by blast
  qed
qed

text \<open>The first \<open>k\<close> items of an upload announced too large, into an empty list.\<close>

definition overrun :: "u8 \<Rightarrow> u16 \<Rightarrow> nat \<Rightarrow> mission \<Rightarrow> bool" where
  "overrun me n k s \<longleftrightarrow> wp_size (wpm s) = 0 \<and> my_sysid s = me \<and>
     current_state (wpm s) = (if k = 0 then MAVLINK_WPM_STATE_GETLIST
       else MAVLINK_WPM_STATE_GETLIST_GETWPS) \<and>
     current_wp_id (wpm s) = of_nat k \<and> current_count (wpm s) = n \<and>
     length (rcv_waypoints (wpm s)) = MAVLINK_WPM_MAX_WP_COUNT"

lemma overrun_frame [simp]:
  "overrun me n k (upd_wpm (\<lambda>w. w\<lparr>timestamp_lastoutside_orbit := t\<rparr>) s) = overrun me n k s"
  "overrun me n k (s\<lparr>clock_reads := r\<rparr>) = overrun me n k s"
  "overrun me n k (mavlink_wpm_send_waypoint_request i s) = overrun me n k s"
  by (simp_all add: overrun_def mavlink_wpm_send_waypoint_request_def del: of_nat_Suc)

lemma message_into_empty:
  assumes "handle_payload (clock s (clock_reads s)) sysid compid msg
      (s\<lparr>clock_reads := Suc (clock_reads s)\<rparr>) = Some s1" "overrun me n k s1"
  shows "\<exists>s'. mission_step (Message sysid compid msg p) s = Some s' \<and> overrun me n k s'"
proof -
  obtain t where "check_waypoints_reached (clock s (clock_reads s)) p s1 =
      Some (upd_wpm (\<lambda>w. w\<lparr>timestamp_lastoutside_orbit := t\<rparr>) s1)"
    using check_empty [of s1 "clock s (clock_reads s)" p] assms(2) by (auto simp: overrun_def)
  with assms show ?thesis by (simp add: mavlink_wpm_message_handler_def Let_def)
qed

lemma overrun_item:
  assumes "overrun me n k s" "k \<le> MAVLINK_WPM_MAX_WP_COUNT" "MAVLINK_WPM_MAX_WP_COUNT < unat n"
    and wp: "seq wp = of_nat k" "target_system wp = me" "target_component wp = mavlink_wpm_comp_id"
  shows "if k = MAVLINK_WPM_MAX_WP_COUNT
    then mission_step (Message sysid compid (MISSION_ITEM wp) p) s = None
    else \<exists>s'. mission_step (Message sysid compid (MISSION_ITEM wp) p) s = Some s' \<and> overrun me n (Suc k) s'"
proof -
  let ?s0 = "s\<lparr>clock_reads := Suc (clock_reads s)\<rparr>" and ?now = "clock s (clock_reads s)"
  have k: "k < 16" using assms(2) by (simp add: MAVLINK_WPM_MAX_WP_COUNT_def)
  then have u: "unat (of_nat k :: u16) = k" by (simp add: unat_of_nat)
  then have lt: "(of_nat k :: u16) < n" using assms(2,3) by (simp add: word_less_nat_alt)
  have ex: "expects (wpm ?s0) (seq wp)" "target_system wp = my_sysid ?s0"
    using assms(1) lt wp by (auto simp: expects_def overrun_def)
  show ?thesis
  proof (cases "k = MAVLINK_WPM_MAX_WP_COUNT")
    case True
    then have "handle_item ?now wp ?s0 = None"
      unfolding handle_item_def Let_def
      using ex wp assms(1) u lt True by (simp add: expects_def [symmetric] overrun_def)
    then show ?thesis using True by (simp add: mavlink_wpm_message_handler_def Let_def)
  next
    case False
    have "unat (of_nat (Suc k) :: u16) = Suc k" using k by (simp add: unat_of_nat del: of_nat_Suc)
    then have ne: "seq wp + 1 \<noteq> n"
      using False assms(2,3) wp(1) by (metis Suc_leI le_neq_implies_less leD of_nat_Suc add.commute)
    have "handle_item ?now wp ?s0 =
        Some (mavlink_wpm_send_waypoint_request (seq wp + 1) (receive_item ?now wp ?s0))"
      using handle_item_expected [OF ex(2) wp(3) ex(1)] ne assms(1,2) False u wp(1)
      by (simp add: overrun_def)
    moreover have "overrun me n (Suc k) (receive_item ?now wp ?s0)"
      using assms(1) wp(1) by (simp add: overrun_def receive_item_def add.commute)
    ultimately show ?thesis
      using False message_into_empty [of s sysid compid "MISSION_ITEM wp"] by simp
  qed
qed

lemma overrun_run:
  assumes "overrun me n k s" "MAVLINK_WPM_MAX_WP_COUNT < unat n" "numbered me items"
    and "k + d = MAVLINK_WPM_MAX_WP_COUNT" "length items = Suc MAVLINK_WPM_MAX_WP_COUNT"
  shows "run_steps mission_step (map (\<lambda>w. Message sysid compid (MISSION_ITEM w) p) (drop k items)) s = None"
  using assms(1,4)
proof (induction d arbitrary: k s)
  case (0 k s)
  then have "drop k items = [items ! k]" using assms(5)
    by (simp add: Cons_nth_drop_Suc [symmetric])
  moreover have "mission_step (Message sysid compid (MISSION_ITEM (items ! k)) p) s = None"
    using overrun_item [OF 0(1) _ assms(2), of "items ! k" sysid compid p] 0(2) assms(3,5)
    by (simp add: numbered_def)
  ultimately show ?case by simp
next
  case (Suc d k s)
  then have "drop k items = items ! k # drop (Suc k) items" using assms(5)
    by (simp add: Cons_nth_drop_Suc [symmetric])
  moreover obtain s' where "mission_step (Message sysid compid (MISSION_ITEM (items ! k)) p) s = Some s'"
    "overrun me n (Suc k) s'"
    using overrun_item [OF Suc.prems(1) _ assms(2), of "items ! k" sysid compid p] Suc.prems(2) assms(3,5)
    by (auto simp: numbered_def)
  moreover have "run_steps mission_step
      (map (\<lambda>w. Message sysid compid (MISSION_ITEM w) p) (drop (Suc k) items)) s' = None"
    using Suc.IH [OF calculation(3)] Suc.prems(2) by simp
  ultimately show ?case by simp
qed

text \<open>Leaving the active waypoint, step by step.\<close>

lemma check_when_reached:
  assumes "mission_inv s" "current_active_wp_id (wpm s) < wp_size (wpm s)"
    and "pos_reached (wpm s)" "\<not> idle (wpm s)" "timestamp_firstinside_orbit (wpm s) \<noteq> 0"
    and "held_long_enough now (waypoints (wpm s) ! unat (current_active_wp_id (wpm s))) s"
    and "autocontinue (waypoints (wpm s) ! unat (current_active_wp_id (wpm s))) \<noteq> 0"
  shows "check_waypoints_reached now p s =
    fly_to_next (unmark_active (waypoints (wpm s) ! unat (current_active_wp_id (wpm s))) s)"
proof -
  have a: "array_get (waypoints (wpm s)) (unat (current_active_wp_id (wpm s))) =
      Some (waypoints (wpm s) ! unat (current_active_wp_id (wpm s)))"
    using active_in_list [of "wpm s"] assms(1,2) by (simp add: mission_inv_def)
  have "upd_wpm (\<lambda>w. w\<lparr>pos_reached := True\<rparr>) s = s" using assms(3) by simp
  then have "check_position p s = Some s"
    using a assms(2) by (simp add: check_position_def Let_def)
  then show ?thesis
    using a assms by (simp add: check_waypoints_reached_def check_hold_def Let_def announce_reached_def)
qed

lemma next_active_nat:
  assumes "a < n" "unat n \<le> MAVLINK_WPM_MAX_WP_COUNT" "current_active_wp_id w = a" "wp_size w = n"
  shows "unat (next_active w) = (if 1 < unat n then (if Suc (unat a) = unat n then 1 else Suc (unat a))
    else unat a)"
proof -
  have an: "unat a < unat n" using assms(1) by (simp add: word_less_nat_alt)
  have "unat a < 15" using an assms(2) by (simp add: MAVLINK_WPM_MAX_WP_COUNT_def)
  then have s: "unat (a + 1) = Suc (unat a)" by (simp add: unat_word_ariths)
  then have lt: "a + 1 < n \<longleftrightarrow> Suc (unat a) < unat n" by (simp add: word_less_nat_alt)
  have one: "1 < n \<longleftrightarrow> 1 < unat n" by (simp add: word_less_nat_alt)
  have u: "uint a = uint n - 1 \<longleftrightarrow> Suc (unat a) = unat n"
    unfolding uint_nat by linarith
  show ?thesis
    unfolding next_active_def assms(3,4) u lt one
    using an s by (auto simp: not_less)
qed

lemma fly_to_next_spec:
  assumes "mission_inv s" "current_active_wp_id (wpm s) < wp_size (wpm s)"
  defines "n \<equiv> next_active (wpm s)"
  shows "\<exists>s'. fly_to_next s = Some s' \<and> current_active_wp_id (wpm s') = n \<and>
    waypoints (wpm s') = (waypoints (wpm s))[unat n := (waypoints (wpm s) ! unat n)\<lparr>current := 1\<rparr>] \<and>
    \<not> pos_reached (wpm s') \<and>
    (let cur = waypoints (wpm s) ! unat n
     in outbox s' = outbox s @ [Out_current (seq cur), Out_setpoint (seq cur) [param1 cur, param2 cur,
          param3 cur, param4 cur, item_x cur, item_y cur, item_z cur] (frame cur) (command cur)])"
proof -
  have n: "n < wp_size (wpm s)" unfolding n_def using assms(2) by (rule next_active_in_list)
  have "unat n < length (waypoints (wpm s))"
    using in_list [of "wpm s" n] assms(1) n by (simp add: mission_inv_def)
  with n show ?thesis
    by (simp add: fly_to_next_def n_def [symmetric] Let_def mavlink_wpm_send_waypoint_current_def
        mavlink_wpm_send_setpoint_def)
qed

section \<open>Properties\<close>

text \<open>A concrete start, and concrete items, for the examples below.\<close>

definition plain_item :: "nat \<Rightarrow> mission_item" where
  "plain_item k = \<lparr>param1 = 0, param2 = 0, param3 = 0, param4 = 0, item_x = 0, item_y = 0, item_z = 0,
     seq = of_nat k, command = 16, target_system = 42, target_component = mavlink_wpm_comp_id,
     frame = MAV_FRAME_GLOBAL, current = 0, autocontinue = 1\<rparr>"

definition blank_storage :: wpm_storage where
  "blank_storage = \<lparr>waypoints = replicate MAVLINK_WPM_MAX_WP_COUNT (plain_item 0),
     rcv_waypoints = replicate MAVLINK_WPM_MAX_WP_COUNT (plain_item 0), wp_size = 0, max_size = 0,
     rcv_size = 0, current_state = MAVLINK_WPM_STATE_IDLE, current_wp_id = 0,
     current_active_wp_id = 0, current_count = 0, current_partner_sysid = 0,
     current_partner_compid = 0, timestamp_lastaction = 0, timestamp_last_send_setpoint = 0,
     timestamp_firstinside_orbit = 0, timestamp_lastoutside_orbit = 0, timeout = 0,
     delay_setpoint = 0, accept_range_yaw = 0, accept_range_distance = 0, yaw_reached = False,
     pos_reached = False, idle = False\<rparr>"

definition example_start :: mission where
  "example_start = \<lparr>wpm = mavlink_wpm_init blank_storage, outbox = [], my_sysid = 42,
     clock = (\<lambda>k. of_nat k), clock_reads = 0\<rparr>"

definition here :: nav where
  "here = \<lparr>dist_wgs84 = (\<lambda>w. 0), dist_local = (\<lambda>w. 0)\<rparr>"

text \<open>The state after an upload of \<open>n\<close> items to the list.\<close>

definition example_loaded :: "nat \<Rightarrow> mission" where
  "example_loaded n = upd_wpm (\<lambda>w. w\<lparr>wp_size := of_nat n, waypoints :=
     map plain_item [0..<MAVLINK_WPM_MAX_WP_COUNT], current_active_wp_id := 0, pos_reached := True,
     timestamp_firstinside_orbit := 1\<rparr>) example_start"

lemma example_starts: "mission_start example_start"
  by (auto simp: mission_start_def example_start_def blank_storage_def)

lemma example_numbered: "n \<le> 100 \<Longrightarrow> numbered 42 (map plain_item [0..<n])"
  by (simp add: numbered_def plain_item_def)

lemma example_loaded_inv:
  "0 < n \<Longrightarrow> n \<le> MAVLINK_WPM_MAX_WP_COUNT \<Longrightarrow> mission_inv (example_loaded n)"
  by (simp add: mission_inv_def wpm_inv_def example_loaded_def example_start_def blank_storage_def
      mavlink_wpm_init_def MAVLINK_WPM_MAX_WP_COUNT_def word_less_nat_alt unat_of_nat)

lemma example_fields:
  "my_sysid example_start = 42" "current_state (wpm example_start) = MAVLINK_WPM_STATE_IDLE"
  "my_sysid (example_loaded n) = 42" "current_state (wpm (example_loaded n)) = MAVLINK_WPM_STATE_IDLE"
  "wp_size (wpm (example_loaded n)) = of_nat n" "current_active_wp_id (wpm (example_loaded n)) = 0"
  "pos_reached (wpm (example_loaded n))" "\<not> idle (wpm (example_loaded n))"
  "waypoints (wpm (example_loaded n)) = map plain_item [0..<MAVLINK_WPM_MAX_WP_COUNT]"
  "timestamp_firstinside_orbit (wpm (example_loaded n)) = 1"
  by (simp_all add: example_loaded_def example_start_def mavlink_wpm_init_def)

text \<open>
  C4. Memory safety. Whatever messages arrive in whatever order, with event-loop turns between
  them, and wherever the vehicle is, the component never accesses its arrays out of range
  and keeps its invariant, provided no partner announces more items than the storage holds.
\<close>

theorem mission_storage_safe:
  assumes "mission_start s" and "list_all fits_storage es"
  shows "\<exists>s'. run_steps mission_step es s = Some s' \<and> mission_inv s'"
  using assms by (rule missions.run_safe)

theorem mission_storage_safe_witness:
  "\<exists>s'. run_steps mission_step
      [Message 1 2 (MISSION_COUNT 42 15) here, Message 1 2 (MISSION_ITEM (plain_item 0)) here,
       Eventloop 9000000 here] example_start = Some s' \<and> mission_inv s'"
  by (rule mission_storage_safe [OF example_starts]) (simp add: MAVLINK_WPM_MAX_WP_COUNT_def)

text \<open>
  C5. An upload from the idle state: the partner announces the number of items and sends them.
  Afterwards the list is exactly what was sent (apart from the mark of the current item,
  which following the mission moves), the component is idle again, and it has
  requested every item once, in order, and acknowledged the upload.
\<close>

theorem upload_round_trip:
  assumes "mission_inv s" "current_state (wpm s) = MAVLINK_WPM_STATE_IDLE"
    and "length items \<le> MAVLINK_WPM_MAX_WP_COUNT" "items \<noteq> []"
    and "numbered (my_sysid s) items"
  shows "\<exists>s'. run_steps mission_step (upload_messages (my_sysid s) sysid compid p items) s = Some s' \<and>
    mission_inv s' \<and> current_state (wpm s') = MAVLINK_WPM_STATE_IDLE \<and>
    wp_size (wpm s') = of_nat (length items) \<and>
    map strip (take (length items) (waypoints (wpm s'))) = map strip items \<and>
    filter transfer_out (outbox s') = filter transfer_out (outbox s) @
      map (\<lambda>j. Out_request sysid compid (of_nat j)) [0..<length items] @ [Out_ack sysid compid 0]"
  by (rule upload_run [OF assms, of sysid compid p]) blast

theorem upload_round_trip_witness:
  "\<exists>s'. run_steps mission_step (upload_messages 42 1 2 here (map plain_item [0..<3])) example_start = Some s' \<and>
     wp_size (wpm s') = 3 \<and> current_state (wpm s') = MAVLINK_WPM_STATE_IDLE"
proof -
  have "mission_inv example_start" by (rule mission_inv_start [OF example_starts])
  then show ?thesis
    using upload_round_trip [of example_start "map plain_item [0..<3]" 1 2 here] example_numbered [of 3]
    by (auto simp: example_fields MAVLINK_WPM_MAX_WP_COUNT_def)
qed

text \<open>
  C6. A download from the idle state: asked for its list, then for every item in order, the
  component sends the count and each item, addressed to the partner, and the
  acknowledgement of the last one makes it idle again. (The mark of the current item may
  move while the items are sent.)
\<close>

theorem download_round_trip:
  assumes "mission_inv s" "current_state (wpm s) = MAVLINK_WPM_STATE_IDLE" "0 < wp_size (wpm s)"
  shows "\<exists>s' ws. run_steps mission_step
      (download_messages (my_sysid s) sysid compid p (unat (wp_size (wpm s))) @
       [Message sysid compid (MISSION_ACK (my_sysid s)) p]) s = Some s' \<and>
    mission_inv s' \<and> current_state (wpm s') = MAVLINK_WPM_STATE_IDLE \<and>
    filter transfer_out (outbox s') = filter transfer_out (outbox s) @
      Out_count sysid compid (wp_size (wpm s)) # map Out_item ws \<and>
    map strip ws = map (addressed sysid compid \<circ> strip) (take (unat (wp_size (wpm s))) (waypoints (wpm s)))"
proof -
  let ?n = "unat (wp_size (wpm s))"
  obtain s1 where s1: "run_steps mission_step (download_messages (my_sysid s) sysid compid p ?n) s = Some s1"
    "mission_inv s1" and d: "downloading sysid compid (transfer_of s) ?n (transfer_of s1)"
    using download_prefix [OF assms, of ?n sysid compid p] by auto
  have t0: "t_size (transfer_of s) = wp_size (wpm s)" "t_me (transfer_of s) = my_sysid s"
    by (simp_all add: transfer_of_fields)
  obtain s2 where s2: "mission_step (Message sysid compid (MISSION_ACK (my_sysid s)) p) s1 = Some s2"
    "mission_inv s2"
    "transfer_of s2 = (transfer_of s1)\<lparr>t_state := MAVLINK_WPM_STATE_IDLE, t_wp_id := 0\<rparr>"
    using download_acknowledged [OF s1(2), of sysid compid "transfer_of s" p] d assms(3) unfolding t0
    by blast
  have "t_sent (transfer_of s2) = t_sent (transfer_of s1)"
    "t_state (transfer_of s2) = MAVLINK_WPM_STATE_IDLE"
    unfolding s2(3) by simp_all
  with d show ?thesis
    using run_steps_snoc [OF s1(1) s2(1)] s2(2)
    by (auto simp: downloading_def transfer_of_fields take_map)
qed

theorem download_round_trip_witness:
  "\<exists>s'. run_steps mission_step (download_messages 42 1 2 here 2 @ [Message 1 2 (MISSION_ACK 42) here])
       (example_loaded 2) = Some s' \<and> mission_inv s' \<and> current_state (wpm s') = MAVLINK_WPM_STATE_IDLE"
proof -
  have inv: "mission_inv (example_loaded 2)"
    by (rule example_loaded_inv) (simp_all add: MAVLINK_WPM_MAX_WP_COUNT_def)
  show ?thesis
    using download_round_trip [OF inv, of 1 2 here] by (auto simp: example_fields)
qed

text \<open>
  The announced number of items is never compared with the capacity. After start-up, an
  upload of more than 15 items runs over the end of the receive buffer at its
  sixteenth item.
\<close>

theorem announced_count_unchecked:
  assumes "mission_start s" "MAVLINK_WPM_MAX_WP_COUNT < unat n"
    and "length items = Suc MAVLINK_WPM_MAX_WP_COUNT" "numbered (my_sysid s) items"
  shows "run_steps mission_step (Message sysid compid (MISSION_COUNT (my_sysid s) n) p #
    map (\<lambda>w. Message sysid compid (MISSION_ITEM w) p) items) s = None"
proof -
  obtain w where w: "wpm s = mavlink_wpm_init w" "length (rcv_waypoints w) = MAVLINK_WPM_MAX_WP_COUNT"
    using assms(1) by (auto simp: mission_start_def)
  let ?s0 = "s\<lparr>clock_reads := Suc (clock_reads s)\<rparr>" and ?now = "clock s (clock_reads s)"
  have "0 < n" using assms(2) by (auto simp: word_less_nat_alt)
  then have "overrun (my_sysid s) n 0 (handle_count ?now sysid compid (my_sysid s) n ?s0)"
    using w by (simp add: handle_count_def Let_def mavlink_wpm_init_def overrun_def
        mavlink_wpm_send_waypoint_request_def)
  then obtain s1 where s1: "mission_step (Message sysid compid (MISSION_COUNT (my_sysid s) n) p) s = Some s1"
    "overrun (my_sysid s) n 0 s1"
    using message_into_empty [of s sysid compid "MISSION_COUNT (my_sysid s) n" _ "my_sysid s" n 0 p]
    by auto
  have "run_steps mission_step (map (\<lambda>w. Message sysid compid (MISSION_ITEM w) p) (drop 0 items)) s1 = None"
    by (rule overrun_run [OF s1(2) assms(2,4) _ assms(3)]) simp
  then show ?thesis using s1(1) by simp
qed

theorem announced_count_unchecked_witness:
  "run_steps mission_step (Message 1 2 (MISSION_COUNT 42 16) here #
     map (\<lambda>w. Message 1 2 (MISSION_ITEM w) here) (map plain_item [0..<16])) example_start = None"
  using announced_count_unchecked [OF example_starts, of 16 "map plain_item [0..<16]" 1 2 here]
    example_numbered [of 16]
  by (simp add: example_fields MAVLINK_WPM_MAX_WP_COUNT_def)

text \<open>
  The event loop gives up a transfer exactly when no message of it came for longer than the
  timeout: then the component is idle, has no partner and expects nothing, and the list
  is what it was. Otherwise the transfer goes on untouched.
\<close>

theorem transfer_timeout:
  assumes "mission_inv s"
  shows "\<exists>s'. mavlink_waypoint_eventloop now p s = Some s' \<and> mission_inv s' \<and>
    transfer_of s' = (if ucast (timeout (wpm s)) < now - timestamp_lastaction (wpm s) \<and>
        t_state (transfer_of s) \<noteq> MAVLINK_WPM_STATE_IDLE
      then (transfer_of s)\<lparr>t_state := MAVLINK_WPM_STATE_IDLE, t_wp_id := -1, t_count := 0,
        t_sysid := 0, t_compid := 0\<rparr>
      else transfer_of s)"
proof -
  obtain s' where s': "mavlink_waypoint_eventloop now p s = Some s'" "mission_inv s'"
    using eventloop_keeps [OF assms] by (auto simp: keeps_def)
  have "transfer_of s' = (if ucast (timeout (wpm s)) < now - timestamp_lastaction (wpm s) \<and>
        t_state (transfer_of s) \<noteq> MAVLINK_WPM_STATE_IDLE
      then (transfer_of s)\<lparr>t_state := MAVLINK_WPM_STATE_IDLE, t_wp_id := -1, t_count := 0,
        t_sysid := 0, t_compid := 0\<rparr>
      else transfer_of s)"
    using transfer_check [OF s'(1) [unfolded mavlink_waypoint_eventloop_def Let_def]]
    by (simp add: transfer_of_def split: if_splits)
  with s' show ?thesis by blast
qed

theorem transfer_timeout_witness:
  "\<exists>s'. mavlink_waypoint_eventloop 9000000 here (example_loaded 2) = Some s' \<and> mission_inv s'"
proof -
  have inv: "mission_inv (example_loaded 2)"
    by (rule example_loaded_inv) (simp_all add: MAVLINK_WPM_MAX_WP_COUNT_def)
  show ?thesis using transfer_timeout [OF inv] by blast
qed

text \<open>
  Selecting a waypoint while idle. Exactly the selected item is marked as current, it becomes
  the active one, and the component announces it and sends its setpoint. While a transfer
  is going on, or for a number outside the list, only the time of the last action changes.
\<close>

theorem select_waypoint:
  assumes "mission_inv s"
  shows "\<exists>s'. handle_set_current now (my_sysid s) n s = Some s' \<and> mission_inv s' \<and>
    (if current_state (wpm s) = MAVLINK_WPM_STATE_IDLE \<and> n < wp_size (wpm s)
     then current_active_wp_id (wpm s') = n \<and>
       (\<forall>j < length (waypoints (wpm s)). waypoints (wpm s') ! j = (if j < unat (wp_size (wpm s))
          then (waypoints (wpm s) ! j)\<lparr>current := (if j = unat n then 1 else 0)\<rparr>
          else waypoints (wpm s) ! j)) \<and>
       (let cur = waypoints (wpm s) ! unat n
        in outbox s' = outbox s @ [Out_text ''NEW WP SET'', Out_current (seq cur),
            Out_setpoint (seq cur) [param1 cur, param2 cur, param3 cur, param4 cur,
              item_x cur, item_y cur, item_z cur] (frame cur) (command cur)])
     else wpm s' = (wpm s)\<lparr>timestamp_lastaction := now\<rparr> \<and>
       (\<exists>t. outbox s' = outbox s @ [Out_text t]))"
proof -
  obtain s' where s': "handle_set_current now (my_sysid s) n s = Some s'" "mission_inv s'"
    using handle_set_current_keeps [OF assms, of now "my_sysid s" n] by (auto simp: keeps_def)
  show ?thesis
  proof (cases "current_state (wpm s) = MAVLINK_WPM_STATE_IDLE \<and> n < wp_size (wpm s)")
    case True
    let ?w = "waypoints (wpm s)"
    have len: "unat (wp_size (wpm s)) \<le> length ?w"
      using assms by (auto simp: mission_inv_def wpm_inv_def)
    have n: "unat n < unat (wp_size (wpm s))" using True by (simp add: word_less_nat_alt)
    obtain ws where ws: "mark_current 0 (unat (wp_size (wpm s))) (unat n) ?w = Some ws"
      "length ws = length ?w"
      "\<forall>j < length ?w. ws ! j = (if j < unat (wp_size (wpm s))
         then (?w ! j)\<lparr>current := (if j = unat n then 1 else 0)\<rparr> else ?w ! j)"
      using mark_current_spec [of "unat (wp_size (wpm s))" ?w 0 "unat n"] len by auto
    have wn: "ws ! unat n = (?w ! unat n)\<lparr>current := 1\<rparr>" using ws(3) n len by simp
    have lt: "unat n < length ws" using n len ws(2) by linarith
    have "current_active_wp_id (wpm s') = n \<and> waypoints (wpm s') = ws \<and>
      outbox s' = outbox s @ [Out_text ''NEW WP SET'', Out_current (seq (?w ! unat n)),
        Out_setpoint (seq (?w ! unat n)) [param1 (?w ! unat n), param2 (?w ! unat n),
          param3 (?w ! unat n), param4 (?w ! unat n), item_x (?w ! unat n), item_y (?w ! unat n),
          item_z (?w ! unat n)] (frame (?w ! unat n)) (command (?w ! unat n))]"
      using s'(1) True ws(1) wn lt
      by (auto simp: handle_set_current_def Let_def mavlink_wpm_send_waypoint_current_def
          mavlink_wpm_send_setpoint_def)
    with s' True ws(3) show ?thesis by (simp add: Let_def)
  next
    case False
    then have "\<exists>t. s' = gcs_text t (last_action now s)"
      using s'(1) by (cases "current_state (wpm s) = MAVLINK_WPM_STATE_IDLE")
        (auto simp: handle_set_current_def)
    with s' False show ?thesis by auto
  qed
qed

theorem select_waypoint_witness:
  "\<exists>s'. handle_set_current 5 42 2 (example_loaded 3) = Some s' \<and> current_active_wp_id (wpm s') = 2"
proof -
  have inv: "mission_inv (example_loaded 3)"
    by (rule example_loaded_inv) (simp_all add: MAVLINK_WPM_MAX_WP_COUNT_def)
  show ?thesis using select_waypoint [OF inv, of 5 2] by (auto simp: example_fields)
qed

text \<open>
  C7. Leaving a waypoint. When the active item is reached, was announced, has been held
  for its time and is marked to continue, the next item becomes active: number 1 after the last
  one, its own number again in a list of one, and the following number otherwise. It is
  marked as current, announced and sent as setpoint; the old one is no longer marked.
\<close>

theorem waypoint_advances:
  assumes "mission_inv s" "current_active_wp_id (wpm s) < wp_size (wpm s)"
    and "pos_reached (wpm s)" "\<not> idle (wpm s)" "timestamp_firstinside_orbit (wpm s) \<noteq> 0"
    and "held_long_enough now (waypoints (wpm s) ! unat (current_active_wp_id (wpm s))) s"
    and "autocontinue (waypoints (wpm s) ! unat (current_active_wp_id (wpm s))) \<noteq> 0"
  shows "\<exists>s'. check_waypoints_reached now p s = Some s' \<and> mission_inv s' \<and>
    (let a = unat (current_active_wp_id (wpm s)); n = unat (wp_size (wpm s));
         b = (if 1 < n then (if Suc a = n then 1 else Suc a) else a)
     in unat (current_active_wp_id (wpm s')) = b \<and> current (waypoints (wpm s') ! b) = 1 \<and>
        (a \<noteq> b \<longrightarrow> current (waypoints (wpm s') ! a) = 0) \<and>
        (\<exists>item. outbox s' = outbox s @ [Out_current (seq (waypoints (wpm s) ! b)), item] \<and>
           (case item of Out_setpoint n ps f c \<Rightarrow> n = seq (waypoints (wpm s) ! b) | _ \<Rightarrow> False)) \<and>
        \<not> pos_reached (wpm s'))"
proof -
  let ?a = "current_active_wp_id (wpm s)" and ?n = "wp_size (wpm s)"
  let ?t = "unmark_active (waypoints (wpm s) ! unat ?a) s"
  define b where "b = (if 1 < unat ?n then (if Suc (unat ?a) = unat ?n then 1 else Suc (unat ?a)) else unat ?a)"
  have inv: "wpm_inv (wpm s)" using assms(1) by (simp add: mission_inv_def)
  have ti: "mission_inv ?t" "current_active_wp_id (wpm ?t) < wp_size (wpm ?t)"
    using assms(1,2) by simp_all
  have size: "unat ?n \<le> MAVLINK_WPM_MAX_WP_COUNT" using inv by (simp add: wpm_inv_def)
  have b: "unat (next_active (wpm ?t)) = b"
    using next_active_nat [OF assms(2) size, of "wpm ?t"] by (simp add: b_def)
  have w: "waypoints (wpm ?t) = (waypoints (wpm s))[unat ?a := (waypoints (wpm s) ! unat ?a)\<lparr>current := 0\<rparr>]"
    "outbox ?t = outbox s" by (simp_all add: unmark_active_def)
  have a_in: "unat ?a < length (waypoints (wpm s))" using in_list [OF inv assms(2)] .
  have an: "unat ?a < unat ?n" using assms(2) by (simp add: word_less_nat_alt)
  have b_in: "b < length (waypoints (wpm s))"
    using an size inv by (auto simp: b_def wpm_inv_def)
  obtain s' where s': "fly_to_next ?t = Some s'" "current_active_wp_id (wpm s') = next_active (wpm ?t)"
    "waypoints (wpm s') = (waypoints (wpm ?t))[b := (waypoints (wpm ?t) ! b)\<lparr>current := 1\<rparr>]"
    "\<not> pos_reached (wpm s')"
    "\<exists>item. outbox s' = outbox ?t @ [Out_current (seq (waypoints (wpm ?t) ! b)), item] \<and>
       (case item of Out_setpoint n ps f c \<Rightarrow> n = seq (waypoints (wpm ?t) ! b) | _ \<Rightarrow> False)"
    using fly_to_next_spec [OF ti] unfolding b by (auto simp: Let_def)
  have sq: "seq (waypoints (wpm ?t) ! b) = seq (waypoints (wpm s) ! b)"
    using w(1) a_in b_in by (cases "b = unat ?a") simp_all
  have marks: "current (waypoints (wpm s') ! b) = 1"
    "unat ?a \<noteq> b \<longrightarrow> current (waypoints (wpm s') ! unat ?a) = 0"
    using s'(3) w(1) a_in b_in by auto
  have "mission_inv s'" using fly_to_next_keeps [OF ti] s'(1) by simp
  moreover have "check_waypoints_reached now p s = Some s'"
    using check_when_reached [OF assms] s'(1) by simp
  ultimately show ?thesis
    using s'(2,4) s'(5) [unfolded sq w(2)] marks unfolding Let_def b_def [symmetric]
    by (intro exI [of _ s']) (simp add: b)
qed

theorem waypoint_advances_witness:
  "\<exists>s'. check_waypoints_reached 7 here (example_loaded 3) = Some s' \<and>
     unat (current_active_wp_id (wpm s')) = 1 \<and> current (waypoints (wpm s') ! 1) = 1"
proof -
  have inv: "mission_inv (example_loaded 3)"
    by (rule example_loaded_inv) (simp_all add: MAVLINK_WPM_MAX_WP_COUNT_def)
  have "held_long_enough 7 (plain_item 0) (example_loaded 3)"
    by (simp add: held_long_enough_def plain_item_def example_fields) code_simp
  then show ?thesis
    using waypoint_advances [OF inv, of 7 here]
    by (auto simp: example_fields MAVLINK_WPM_MAX_WP_COUNT_def plain_item_def)
qed

end
