(* ===== verification/Bytes.thy ===== *)
theory Bytes
  imports C_Prelude
begin

text \<open>
  Byte streams: little-endian integers, NUL-terminated strings, the file operations the
  modelled code relies on, and the interface of an encoder with its decoder. These are
  language and POSIX semantics and carry no map entry.

  A file open for writing has room for so many more bytes; a write stores as many bytes as
  fit and returns their number. A file open for reading is the list of its unread bytes; a
  read returns as many bytes as there are, up to the number asked for.
\<close>

type_synonym bytes = "u8 list"

section \<open>Little-endian integers\<close>

fun le_bytes :: "nat \<Rightarrow> int \<Rightarrow> bytes" where
  "le_bytes 0 v = []"
| "le_bytes (Suc k) v = word_of_int v # le_bytes k (v div 256)"

fun le_val :: "bytes \<Rightarrow> int" where
  "le_val [] = 0"
| "le_val (b # bs) = uint b + 256 * le_val bs"

lemma length_le_bytes [simp]: "length (le_bytes k v) = k"
  by (induction k arbitrary: v) simp_all

lemma le_val_bytes: "le_val (le_bytes k v) = v mod 256 ^ k"
proof (induction k arbitrary: v)
  case 0
  then show ?case by simp
next
  case (Suc k)
  have "uint (word_of_int v :: u8) = v mod 256" by (simp add: unsigned_of_int take_bit_eq_mod)
  moreover have "v mod (256 * 256 ^ k) = 256 * (v div 256 mod 256 ^ k) + v mod 256"
    by (simp add: zmod_zmult2_eq)
  ultimately show ?case using Suc by simp
qed

definition le32 :: "u32 \<Rightarrow> bytes" where "le32 w = le_bytes 4 (uint w)"
definition le64 :: "u64 \<Rightarrow> bytes" where "le64 w = le_bytes 8 (uint w)"
definition un_le32 :: "bytes \<Rightarrow> u32" where "un_le32 bs = word_of_int (le_val bs)"
definition un_le64 :: "bytes \<Rightarrow> u64" where "un_le64 bs = word_of_int (le_val bs)"

lemma length_le [simp]: "length (le32 w) = 4" "length (le64 v) = 8"
  by (simp_all add: le32_def le64_def)

lemma un_le32_le32 [simp]: "un_le32 (le32 w) = w"
proof -
  have "uint w mod 256 ^ 4 = uint w" using uint_bounded [of w] by (intro mod_pos_pos_trivial) simp_all
  then show ?thesis by (simp add: un_le32_def le32_def le_val_bytes del: power_numeral)
qed

lemma un_le64_le64 [simp]: "un_le64 (le64 w) = w"
proof -
  have "uint w mod 256 ^ 8 = uint w" using uint_bounded [of w] by (intro mod_pos_pos_trivial) simp_all
  then show ?thesis by (simp add: un_le64_def le64_def le_val_bytes del: power_numeral)
qed

definition le16 :: "u16 \<Rightarrow> bytes" where "le16 w = le_bytes 2 (uint w)"
definition un_le16 :: "bytes \<Rightarrow> u16" where "un_le16 bs = word_of_int (le_val bs)"

lemma length_le16 [simp]: "length (le16 w) = 2"
  by (simp add: le16_def)

lemma un_le16_le16 [simp]: "un_le16 (le16 w) = w"
proof -
  have "uint w mod 256 ^ 2 = uint w" using uint_bounded [of w] by (intro mod_pos_pos_trivial) simp_all
  then show ?thesis by (simp add: un_le16_def le16_def le_val_bytes del: power_numeral)
qed

text \<open>An array of 16-bit integers in memory, and read from memory; an odd last byte is no element.\<close>

definition u16_bytes :: "u16 list \<Rightarrow> bytes" where
  "u16_bytes vs = concat (map le16 vs)"

fun bytes_u16 :: "bytes \<Rightarrow> u16 list" where
  "bytes_u16 (a # b # bs) = un_le16 [a, b] # bytes_u16 bs"
| "bytes_u16 bs = []"

lemma length_u16_bytes [simp]: "length (u16_bytes vs) = 2 * length vs"
  by (induction vs) (simp_all add: u16_bytes_def)

lemma length_bytes_u16 [simp]: "length (bytes_u16 bs) = length bs div 2"
  by (induction bs rule: bytes_u16.induct) simp_all

lemma bytes_u16_bytes_append: "bytes_u16 (u16_bytes vs @ bs) = vs @ bytes_u16 bs"
proof (induction vs)
  case (Cons v vs)
  let ?a = "word_of_int (uint v)" and ?b = "word_of_int (uint v div 256)"
  have "le16 v = [?a, ?b]" by (simp add: le16_def numeral_2_eq_2)
  moreover from this have "un_le16 [?a, ?b] = v" using un_le16_le16 [of v] by simp
  ultimately show ?case using Cons by (simp add: u16_bytes_def)
qed (simp add: u16_bytes_def)

lemma bytes_u16_bytes [simp]: "bytes_u16 (u16_bytes vs) = vs"
  using bytes_u16_bytes_append [of vs "[]"] by simp

lemma drop_u16_bytes: "drop (2 * n) (u16_bytes vs) = u16_bytes (drop n vs)"
proof (induction vs arbitrary: n)
  case (Cons v vs)
  then show ?case by (cases n) (simp_all add: u16_bytes_def)
qed (simp add: u16_bytes_def)

text \<open>A small natural number as a 32-bit size.\<close>

lemma small_size:
  assumes "n < 2 ^ 31"
  shows "unat (of_nat n :: u32) = n" "sint (of_nat n :: u32) = int n" "(of_nat n :: u32) = 0 \<longleftrightarrow> n = 0"
proof -
  show u: "unat (of_nat n :: u32) = n" using assms by (simp add: unat_of_nat)
  have "LENGTH(32) - Suc 0 = 31" by simp
  then have "sint (of_nat n :: u32) = signed_take_bit 31 (uint (of_nat n :: u32))"
    using sint_uint [of "of_nat n :: u32"] by (simp only:)
  also have "uint (of_nat n :: u32) = int n" unfolding uint_nat u ..
  also have "signed_take_bit 31 (int n) = int n"
    using assms by (intro signed_take_bit_int_eq_self) simp_all
  finally show "sint (of_nat n :: u32) = int n" .
  show "(of_nat n :: u32) = 0 \<longleftrightarrow> n = 0" by (simp only: unat_0_iff [symmetric] u)
qed

section \<open>Strings\<close>

text \<open>A C string is the list of its bytes before the terminator; literals are ASCII.\<close>

type_synonym c_string = bytes

definition no_nul :: "c_string \<Rightarrow> bool" where
  "no_nul s \<longleftrightarrow> 0 \<notin> set s"

definition ascii :: "string \<Rightarrow> c_string" where
  "ascii s = map (\<lambda>c. of_nat (of_char c)) s"

section \<open>Files\<close>

record wfile =
  written :: bytes
  room :: nat

definition fwrite :: "bytes \<Rightarrow> wfile \<Rightarrow> int \<times> wfile" where
  "fwrite bs f = (let n = min (length bs) (room f)
     in (int n, f\<lparr>written := written f @ take n bs, room := room f - n\<rparr>))"

lemma fwrite_fits:
  "length bs \<le> room f \<Longrightarrow> fwrite bs f = (int (length bs),
     f\<lparr>written := written f @ bs, room := room f - length bs\<rparr>)"
  by (simp add: fwrite_def Let_def)

lemma fwrite_short: "room f < length bs \<Longrightarrow> fst (fwrite bs f) \<noteq> int (length bs)"
  by (simp add: fwrite_def Let_def)

definition fread :: "nat \<Rightarrow> bytes \<Rightarrow> bytes \<times> bytes" where
  "fread n s = (take n s, drop n s)"

section \<open>Encoders and decoders\<close>

text \<open>
  An encoder of items and a decoder of one item that belong together: what the decoder
  reads off the front of a stream is what was encoded there, for items the format can carry.
\<close>

fun decode_items :: "(bytes \<Rightarrow> ('a \<times> bytes) option) \<Rightarrow> nat \<Rightarrow> bytes \<Rightarrow> ('a list \<times> bytes) option" where
  "decode_items dec 0 s = Some ([], s)"
| "decode_items dec (Suc n) s =
     (case dec s of None \<Rightarrow> None | Some (x, r) \<Rightarrow>
       map_option (\<lambda>(xs, t). (x # xs, t)) (decode_items dec n r))"

locale item_codec =
  fixes enc :: "'a \<Rightarrow> bytes"
    and dec :: "bytes \<Rightarrow> ('a \<times> bytes) option"
    and carries :: "'a \<Rightarrow> bool"
  assumes dec_enc: "carries x \<Longrightarrow> dec (enc x @ r) = Some (x, r)"
    and enc_nonempty: "enc x \<noteq> []"
begin

lemma decode_all:
  "list_all carries xs \<Longrightarrow> decode_items dec (length xs) (concat (map enc xs) @ r) = Some (xs, r)"
  by (induction xs) (simp_all add: dec_enc)

lemma length_bound: "length xs \<le> length (concat (map enc xs))"
proof (induction xs)
  case (Cons x xs)
  have "0 < length (enc x)" using enc_nonempty by simp
  with Cons show ?case by (simp del: length_greater_0_conv)
qed simp

lemma enc_injective: "carries x \<Longrightarrow> carries y \<Longrightarrow> enc x = enc y \<Longrightarrow> x = y"
  using dec_enc [of x "[]"] dec_enc [of y "[]"] by simp

end

end
