(* ===== verification/Bson.thy ===== *)
theory Bson
  imports Bytes
begin

text \<open>
  The BSON coder of \<open>apps/systemlib/bson/tinybson.c\<close>, which the parameter store uses to save
  and load itself: encoder and decoder state as records, one definition per function. A
  coder that hit an error is killed: its file descriptor is -1 (\<open>False\<close> in the first field)
  and every later call answers -1. Return values are the code's (0, -1, or what the callback
  returned). Doubles are their 64-bit patterns.
\<close>

section \<open>Data\<close>

definition BSON_EOO :: u8 where "BSON_EOO = 0"
definition BSON_DOUBLE :: u8 where "BSON_DOUBLE = 1"
definition BSON_STRING :: u8 where "BSON_STRING = 2"
definition BSON_BINDATA :: u8 where "BSON_BINDATA = 5"
definition BSON_UNDEFINED :: u8 where "BSON_UNDEFINED = 6"
definition BSON_INT :: u8 where "BSON_INT = 16"

lemmas bson_types = BSON_EOO_def BSON_DOUBLE_def BSON_STRING_def BSON_BINDATA_def
  BSON_UNDEFINED_def BSON_INT_def

definition BSON_BIN_BINARY :: u8 where "BSON_BIN_BINARY = 0"
definition BSON_MAXNAME :: nat where "BSON_MAXNAME = 32"

record bson_node =
  node_name :: c_string
  node_type :: u8
  node_subtype :: u8
  node_i :: u32
  node_d :: u64

record bson_decoder =
  dec_open :: bool
  input :: bytes
  nesting :: u32
  node :: bson_node
  pending :: u32

record bson_encoder =
  enc_open :: bool
  out :: wfile

section \<open>Encoder\<close>

definition put :: "bytes \<Rightarrow> bson_encoder \<Rightarrow> int \<times> bson_encoder" where
  "put bs e = (let (n, f) = fwrite bs (out e)
     in (if n = int (length bs) then 0 else -1, e\<lparr>out := f\<rparr>))"

definition write_int8 :: "u8 \<Rightarrow> bson_encoder \<Rightarrow> int \<times> bson_encoder" where
  "write_int8 b e = put [b] e"

definition write_int32 :: "u32 \<Rightarrow> bson_encoder \<Rightarrow> int \<times> bson_encoder" where
  "write_int32 i e = put (le32 i) e"

definition write_double :: "u64 \<Rightarrow> bson_encoder \<Rightarrow> int \<times> bson_encoder" where
  "write_double d e = put (le64 d) e"

text \<open>A name is written with its terminator.\<close>

definition write_name :: "c_string \<Rightarrow> bson_encoder \<Rightarrow> int \<times> bson_encoder" where
  "write_name name e = (if BSON_MAXNAME < length name then (-1, e) else put (name @ [0]) e)"

text \<open>A chain \<open>f || g || ...\<close> of writes stops at the first one that fails.\<close>

fun first_failing ::
  "(bson_encoder \<Rightarrow> int \<times> bson_encoder) list \<Rightarrow> bson_encoder \<Rightarrow> bool \<times> bson_encoder" where
  "first_failing [] e = (False, e)"
| "first_failing (f # fs) e =
     (let (r, e') = f e in if r \<noteq> 0 then (True, e') else first_failing fs e')"

text \<open>The frame of the coder functions: \<open>CODER_CHECK\<close>, the writes, \<open>CODER_KILL\<close> if one fails.\<close>

definition checked_writes ::
  "(bson_encoder \<Rightarrow> int \<times> bson_encoder) list \<Rightarrow> bson_encoder \<Rightarrow> int \<times> bson_encoder" where
  "checked_writes fs e =
     (if \<not> enc_open e then (-1, e)
      else let (failed, e') = first_failing fs e
           in if failed then (-1, e'\<lparr>enc_open := False\<rparr>) else (0, e'))"

definition bson_encoder_init :: "wfile \<Rightarrow> int \<times> bson_encoder" where
  "bson_encoder_init f = checked_writes [write_int32 0] \<lparr>enc_open = True, out = f\<rparr>"

definition bson_encoder_fini :: "bson_encoder \<Rightarrow> int \<times> bson_encoder" where
  "bson_encoder_fini = checked_writes [write_int8 BSON_EOO]"

definition bson_encoder_append_int :: "c_string \<Rightarrow> u32 \<Rightarrow> bson_encoder \<Rightarrow> int \<times> bson_encoder" where
  "bson_encoder_append_int name v =
     checked_writes [write_int8 BSON_INT, write_name name, write_int32 v]"

definition bson_encoder_append_double :: "c_string \<Rightarrow> u64 \<Rightarrow> bson_encoder \<Rightarrow> int \<times> bson_encoder" where
  "bson_encoder_append_double name v =
     checked_writes [write_int8 BSON_DOUBLE, write_name name, write_double v]"

text \<open>
  \<open>bson_encoder_append_string\<close> as it is: the type byte is \<open>BSON_DOUBLE\<close>, and the bytes written
  are those of the name, as many as the string has. Reading past the end of the name
  is \<open>None\<close>.
\<close>

definition bson_encoder_append_string ::
  "c_string \<Rightarrow> c_string \<Rightarrow> bson_encoder \<Rightarrow> (int \<times> bson_encoder) option" where
  "bson_encoder_append_string name str e =
     (let (r, e') = checked_writes [write_int8 BSON_DOUBLE, write_name name,
                      write_int32 (of_nat (length str))] e
      in if r \<noteq> 0 then Some (r, e')
         else if length name < length str then None
         else Some (checked_writes [put (take (Suc (length str)) (name @ [0]))] e'))"

definition bson_encoder_append_binary ::
  "c_string \<Rightarrow> u8 \<Rightarrow> bytes \<Rightarrow> bson_encoder \<Rightarrow> int \<times> bson_encoder" where
  "bson_encoder_append_binary name subtype bs =
     checked_writes [write_int8 BSON_BINDATA, write_name name, write_int32 (of_nat (length bs)),
       write_int8 subtype, put bs]"

section \<open>Decoder\<close>

text \<open>Reading \<open>n\<close> bytes succeeds when there are \<open>n\<close>; what was there is consumed in any case.\<close>

definition get :: "nat \<Rightarrow> bson_decoder \<Rightarrow> bytes option \<times> bson_decoder" where
  "get n d = (let (bs, r) = fread n (input d)
     in (if length bs = n then Some bs else None, d\<lparr>input := r\<rparr>))"

abbreviation killed :: "bson_decoder \<Rightarrow> bson_decoder" where
  "killed d \<equiv> d\<lparr>dec_open := False\<rparr>"

definition bson_decoder_init :: "bytes \<Rightarrow> bson_node \<Rightarrow> int \<times> bson_decoder" where
  "bson_decoder_init s junk =
     (let d = \<lparr>dec_open = True, input = s, nesting = 1,
                node = junk\<lparr>node_type := BSON_UNDEFINED\<rparr>, pending = 0\<rparr>
      in case get 4 d of (None, d') \<Rightarrow> (-1, killed d') | (Some _, d') \<Rightarrow> (0, d'))"

text \<open>The loop that discards the data of the previous node, byte by byte.\<close>

fun skip_bytes :: "nat \<Rightarrow> bytes \<Rightarrow> bytes option" where
  "skip_bytes 0 s = Some s"
| "skip_bytes (Suc n) [] = None"
| "skip_bytes (Suc n) (b # s) = skip_bytes n s"

text \<open>
  The loop that reads the name of a node, of which \<open>nlen\<close> bytes were read already: it must be
  terminated within \<open>BSON_MAXNAME\<close> bytes.
\<close>

fun read_name :: "nat \<Rightarrow> bytes \<Rightarrow> (c_string \<times> bytes) option" where
  "read_name nlen [] = None"
| "read_name nlen (b # s) =
     (if BSON_MAXNAME \<le> nlen then None
      else if b = 0 then Some ([], s)
      else map_option (\<lambda>(n, r). (b # n, r)) (read_name (Suc nlen) s))"

text \<open>The payload of a node by its type; \<open>None\<close> where the code kills the decoder.\<close>

definition read_payload :: "bson_decoder \<Rightarrow> bson_decoder option" where
  "read_payload d =
     (let t = node_type (node d)
      in if t = BSON_INT
         then (case get 4 d of (None, d') \<Rightarrow> None
               | (Some bs, d') \<Rightarrow> Some (d'\<lparr>node := (node d')\<lparr>node_i := un_le32 bs\<rparr>\<rparr>))
         else if t = BSON_DOUBLE
         then (case get 8 d of (None, d') \<Rightarrow> None
               | (Some bs, d') \<Rightarrow> Some (d'\<lparr>node := (node d')\<lparr>node_d := un_le64 bs\<rparr>\<rparr>))
         else if t = BSON_STRING
         then (case get 4 d of (None, d') \<Rightarrow> None | (Some bs, d') \<Rightarrow> Some (d'\<lparr>pending := un_le32 bs\<rparr>))
         else if t = BSON_BINDATA
         then (case get 4 d of (None, d') \<Rightarrow> None
               | (Some bs, d') \<Rightarrow>
                   (case get 1 (d'\<lparr>pending := un_le32 bs\<rparr>) of (None, d'') \<Rightarrow> None
                    | (Some sb, d'') \<Rightarrow> Some (d''\<lparr>node := (node d'')\<lparr>node_subtype := hd sb\<rparr>\<rparr>)))
         else None)"

text \<open>The node at the front of the stream, after the pending bytes are discarded.\<close>

definition read_node :: "bson_decoder \<Rightarrow> bson_decoder option" where
  "read_node d =
     (case skip_bytes (nat (sint (pending d))) (input d) of
        None \<Rightarrow> None
      | Some [] \<Rightarrow> None
      | Some (t # s) \<Rightarrow>
          (let d1 = d\<lparr>input := s, node := (node d)\<lparr>node_type := t\<rparr>, pending := 0\<rparr>
           in if t = BSON_EOO then Some d1
              else case read_name 0 s of
                  None \<Rightarrow> None
                | Some (name, r) \<Rightarrow>
                    read_payload (d1\<lparr>input := r, node := (node d1)\<lparr>node_name := name\<rparr>\<rparr>)))"

text \<open>
  What the fields of a killed decoder hold is not modelled: no function looks at them. It
  keeps the fields it had before the call.
  \<open>bson_decoder_next\<close>: the callback may read from the decoder; \<open>'p\<close> is the state it works on.
\<close>

type_synonym 'p bson_callback = "bson_decoder \<Rightarrow> 'p \<Rightarrow> int \<times> bson_decoder \<times> 'p"

definition leave_level :: "bson_decoder \<Rightarrow> bson_decoder" where
  "leave_level d =
     (if node_type (node d) = BSON_EOO \<and> 0 < nesting d then d\<lparr>nesting := nesting d - 1\<rparr> else d)"

definition bson_decoder_next ::
  "'p bson_callback \<Rightarrow> bson_decoder \<Rightarrow> 'p \<Rightarrow> int \<times> bson_decoder \<times> 'p" where
  "bson_decoder_next callback d p =
     (if \<not> dec_open d then (-1, d, p)
      else let d1 = leave_level d
           in if node_type (node d) = BSON_EOO \<and> nesting d1 = 0 then (0, killed d1, p)
              else case read_node d1 of
                  None \<Rightarrow> (-1, killed d1, p)
                | Some d2 \<Rightarrow> callback d2 p)"

definition bson_decoder_data_pending :: "bson_decoder \<Rightarrow> u32" where
  "bson_decoder_data_pending d = pending d"

text \<open>
  Copying a node's data into a buffer of \<open>cap\<close> bytes: the pending size is converted to
  \<open>size_t\<close>, and a read that would store more than the buffer holds is \<open>None\<close>.
\<close>

definition bson_decoder_copy_data :: "nat \<Rightarrow> bson_decoder \<Rightarrow> (int \<times> bytes \<times> bson_decoder) option" where
  "bson_decoder_copy_data cap d =
     (if \<not> dec_open d then Some (-1, [], d)
      else if pending d = 0 then Some (0, [], d)
      else let (bs, r) = fread (unat (pending d)) (input d)
           in if cap < length bs then None
              else if int (length bs) \<noteq> sint (pending d) then Some (-1, bs, killed (d\<lparr>input := r\<rparr>))
              else Some (0, bs, d\<lparr>input := r, pending := 0\<rparr>))"

section \<open>Items\<close>

text \<open>What a document is made of, as far as the parameter store uses it.\<close>

datatype bson_item =
    Item_int c_string u32
  | Item_double c_string u64
  | Item_binary c_string u8 bytes

fun item_name :: "bson_item \<Rightarrow> c_string" where
  "item_name (Item_int n v) = n"
| "item_name (Item_double n v) = n"
| "item_name (Item_binary n st bs) = n"

fun item_bytes :: "bson_item \<Rightarrow> bytes" where
  "item_bytes (Item_int n v) = BSON_INT # n @ 0 # le32 v"
| "item_bytes (Item_double n v) = BSON_DOUBLE # n @ 0 # le64 v"
| "item_bytes (Item_binary n st bs) = BSON_BINDATA # n @ 0 # le32 (of_nat (length bs)) @ st # bs"

fun append_item :: "bson_item \<Rightarrow> bson_encoder \<Rightarrow> int \<times> bson_encoder" where
  "append_item (Item_int n v) = bson_encoder_append_int n v"
| "append_item (Item_double n v) = bson_encoder_append_double n v"
| "append_item (Item_binary n st bs) = bson_encoder_append_binary n st bs"

text \<open>The items whose encoding can be decoded: the name fits the decoder, and so does the data.\<close>

fun carried :: "bson_item \<Rightarrow> bool" where
  "carried (Item_int n v) \<longleftrightarrow> no_nul n \<and> length n < BSON_MAXNAME"
| "carried (Item_double n v) \<longleftrightarrow> no_nul n \<and> length n < BSON_MAXNAME"
| "carried (Item_binary n st bs) \<longleftrightarrow> no_nul n \<and> length n < BSON_MAXNAME \<and> length bs < 2 ^ 31"

section \<open>What the encoder writes\<close>

definition wrote :: "bytes \<Rightarrow> bson_encoder \<Rightarrow> bson_encoder" where
  "wrote bs e = e\<lparr>out := (out e)\<lparr>written := written (out e) @ bs, room := room (out e) - length bs\<rparr>\<rparr>"

lemma wrote_fields [simp]:
  "enc_open (wrote bs e) = enc_open e" "written (out (wrote bs e)) = written (out e) @ bs"
  "room (out (wrote bs e)) = room (out e) - length bs"
  by (simp_all add: wrote_def)

lemma wrote_wrote [simp]: "wrote bs (wrote as e) = wrote (as @ bs) e"
  by (simp add: wrote_def)

lemma put_fits: "length bs \<le> room (out e) \<Longrightarrow> put bs e = (0, wrote bs e)"
  by (simp add: put_def fwrite_fits wrote_def)

lemmas writer_defs = checked_writes_def write_int8_def write_int32_def write_double_def write_name_def

lemma append_item_fits:
  assumes "enc_open e" "length (item_name it) \<le> BSON_MAXNAME" "length (item_bytes it) \<le> room (out e)"
  shows "append_item it e = (0, wrote (item_bytes it) e)"
  using assms
  by (cases it) (simp_all add: bson_encoder_append_int_def bson_encoder_append_double_def
      bson_encoder_append_binary_def writer_defs put_fits)

section \<open>What the decoder reads\<close>

lemma skip_bytes_drop: "n \<le> length s \<Longrightarrow> skip_bytes n s = Some (drop n s)"
  by (induction n s rule: skip_bytes.induct) simp_all

lemma skip_bytes_short: "length s < n \<Longrightarrow> skip_bytes n s = None"
  by (induction n s rule: skip_bytes.induct) simp_all

lemma read_name_spec:
  "no_nul name \<Longrightarrow> nlen + length name < BSON_MAXNAME \<Longrightarrow> read_name nlen (name @ 0 # r) = Some (name, r)"
  by (induction name arbitrary: nlen) (auto simp: no_nul_def)

lemma read_name_overflow:
  "no_nul name \<Longrightarrow> BSON_MAXNAME \<le> nlen + length name \<Longrightarrow> read_name nlen (name @ r) = None"
proof (induction name arbitrary: nlen)
  case Nil
  then show ?case by (cases r) simp_all
next
  case (Cons b name)
  then show ?case by (auto simp: no_nul_def)
qed

lemma read_name_shorter: "read_name nlen s = Some (n, r) \<Longrightarrow> length r < length s"
proof (induction nlen s arbitrary: n r rule: read_name.induct)
  case (2 nlen b s)
  then show ?case by (cases "b = 0") (fastforce split: if_splits)+
qed simp

lemma get_spec: "length bs = n \<Longrightarrow> input d = bs @ r \<Longrightarrow> get n d = (Some bs, d\<lparr>input := r\<rparr>)"
  by (simp add: get_def fread_def)

lemma get_4 [simp]: "get 4 (d\<lparr>input := le32 v @ r\<rparr>) = (Some (le32 v), d\<lparr>input := r\<rparr>)"
  by (rule get_spec [of "le32 v", THEN trans]) simp_all

text \<open>The item a decoder has just read, and the rest of the stream.\<close>

definition item_of :: "bson_decoder \<Rightarrow> (bson_item \<times> bytes) option" where
  "item_of d =
     (let t = node_type (node d); n = node_name (node d)
      in if t = BSON_INT then Some (Item_int n (node_i (node d)), input d)
         else if t = BSON_DOUBLE then Some (Item_double n (node_d (node d)), input d)
         else if t = BSON_BINDATA
         then (case bson_decoder_copy_data (unat (pending d)) d of
             Some (r, bs, d') \<Rightarrow>
               if r = 0 then Some (Item_binary n (node_subtype (node d)) bs, input d') else None
           | None \<Rightarrow> None)
         else None)"

lemma read_node_item:
  assumes "dec_open d" "pending d = 0" "input d = item_bytes it @ r" "carried it"
  shows "\<exists>d'. read_node d = Some d' \<and> item_of d' = Some (it, r) \<and> dec_open d' \<and>
    nesting d' = nesting d \<and> node_type (node d') \<noteq> BSON_EOO \<and>
    (\<forall>n st bs. it = Item_binary n st bs \<longrightarrow> pending d' = of_nat (length bs) \<and> input d' = bs @ r) \<and>
    ((\<forall>n st bs. it \<noteq> Item_binary n st bs) \<longrightarrow> pending d' = 0 \<and> input d' = r)"
proof (cases it)
  case (Item_int n v)
  then show ?thesis using assms
    by (simp add: read_node_def Let_def bson_types read_name_spec read_payload_def item_of_def
        get_spec [of "le32 v"])
next
  case (Item_double n v)
  then show ?thesis using assms
    by (simp add: read_node_def Let_def bson_types read_name_spec read_payload_def item_of_def
        get_spec [of "le64 v"])
next
  case (Item_binary n st bs)
  have len: "length bs < 2 ^ 31" using assms(4) Item_binary by simp
  note size = small_size [OF len]
  show ?thesis using assms Item_binary
    by (simp add: read_node_def Let_def bson_types read_name_spec read_payload_def item_of_def
        get_spec [of "le32 (of_nat (length bs))"] get_spec [of "[st]"]
        bson_decoder_copy_data_def size fread_def)
qed


section \<open>Documents\<close>

text \<open>A decoder on a stream, as the decoding loops find it between two items.\<close>

definition at_item :: "bytes \<Rightarrow> bson_decoder" where
  "at_item s = \<lparr>dec_open = True, input = s, nesting = 1,
     node = \<lparr>node_name = [], node_type = BSON_UNDEFINED, node_subtype = 0, node_i = 0, node_d = 0\<rparr>,
     pending = 0\<rparr>"

definition read_item :: "bytes \<Rightarrow> (bson_item \<times> bytes) option" where
  "read_item s = Option.bind (read_node (at_item s)) item_of"

interpretation bson: item_codec item_bytes read_item carried
proof unfold_locales
  fix it r assume "carried it"
  then show "read_item (item_bytes it @ r) = Some (it, r)"
    using read_node_item [of "at_item (item_bytes it @ r)" it r]
    by (auto simp: read_item_def at_item_def)
next
  fix it show "item_bytes it \<noteq> []" by (cases it) simp_all
qed

text \<open>Writing a whole document, and the decoding loop of the callers of \<open>bson_decoder_next\<close>.\<close>

fun append_items :: "bson_item list \<Rightarrow> bson_encoder \<Rightarrow> int \<times> bson_encoder" where
  "append_items [] e = (0, e)"
| "append_items (it # its) e =
     (let (r, e') = append_item it e in if r \<noteq> 0 then (r, e') else append_items its e')"

definition encode_document :: "bson_item list \<Rightarrow> wfile \<Rightarrow> int \<times> bson_encoder" where
  "encode_document its f =
     (let (r, e) = bson_encoder_init f
      in if r \<noteq> 0 then (r, e)
         else let (r', e') = append_items its e
              in if r' \<noteq> 0 then (r', e') else bson_encoder_fini e')"

definition document :: "bson_item list \<Rightarrow> bytes" where
  "document its = le32 0 @ concat (map item_bytes its) @ [BSON_EOO]"

fun run_decoder :: "nat \<Rightarrow> 'p bson_callback \<Rightarrow> bson_decoder \<Rightarrow> 'p \<Rightarrow> (int \<times> bson_decoder \<times> 'p) option" where
  "run_decoder 0 cb d p = None"
| "run_decoder (Suc fuel) cb d p =
     (let (r, d', p') = bson_decoder_next cb d p
      in if 0 < r then run_decoder fuel cb d' p' else Some (r, d', p'))"

text \<open>
  Each turn of the loop consumes a byte: a callback that does not give bytes back ends the
  loop within as many turns as the stream has bytes, and one more.
\<close>

definition consumes :: "'p bson_callback \<Rightarrow> bool" where
  "consumes cb \<longleftrightarrow> (\<forall>d p r d' p'. cb d p = (r, d', p') \<longrightarrow> length (input d') \<le> length (input d))"

lemma skip_bytes_shorter: "skip_bytes n s = Some r \<Longrightarrow> length r \<le> length s"
  by (induction n s rule: skip_bytes.induct) auto

lemma get_shorter: "get n d = (b, d') \<Longrightarrow> length (input d') \<le> length (input d)"
  by (auto simp: get_def fread_def)

lemma read_payload_shorter: "read_payload d = Some d' \<Longrightarrow> length (input d') \<le> length (input d)"
  by (auto simp: read_payload_def Let_def get_def fread_def split: if_splits)

lemma read_node_shorter:
  assumes "read_node d = Some d'"
  shows "length (input d') < length (input d)"
proof -
  obtain t s where ts: "skip_bytes (nat (sint (pending d))) (input d) = Some (t # s)"
    using assms by (auto simp: read_node_def split: option.splits list.splits)
  then have "length s < length (input d)" using skip_bytes_shorter by fastforce
  moreover have "length (input d') \<le> length s"
  proof (cases "t = BSON_EOO")
    case True
    then show ?thesis using assms ts by (auto simp: read_node_def Let_def)
  next
    case False
    then show ?thesis using assms ts
      by (auto simp: read_node_def Let_def split: option.splits
          dest!: read_payload_shorter read_name_shorter)
  qed
  ultimately show ?thesis by simp
qed

lemma leave_level_input [simp]: "input (leave_level d) = input d"
  by (simp add: leave_level_def)

lemma next_shorter:
  assumes "consumes cb" "bson_decoder_next cb d p = (r, d', p')" "0 < r"
  shows "length (input d') < length (input d)"
proof -
  obtain d2 where "read_node (leave_level d) = Some d2" "cb d2 p = (r, d', p')"
    using assms(2,3) by (auto simp: bson_decoder_next_def Let_def split: if_splits option.splits)
  then show ?thesis
    using assms(1) read_node_shorter [of "leave_level d" d2] by (fastforce simp: consumes_def)
qed

lemma run_decoder_ends:
  assumes "consumes cb" "length (input d) < fuel"
  shows "\<exists>x. run_decoder fuel cb d p = Some x"
  using assms(2)
proof (induction fuel arbitrary: d p)
  case (Suc fuel)
  obtain r d' p' where n: "bson_decoder_next cb d p = (r, d', p')" by (cases "bson_decoder_next cb d p")
  show ?case
  proof (cases "0 < r")
    case True
    then have "length (input d') < fuel" using next_shorter [OF assms(1) n] Suc.prems by simp
    then show ?thesis using Suc.IH n True by simp
  qed (use n in simp)
qed simp

lemma append_items_fits:
  assumes "enc_open e" "list_all carried its" "length (concat (map item_bytes its)) \<le> room (out e)"
  shows "append_items its e = (0, wrote (concat (map item_bytes its)) e)"
  using assms
proof (induction its arbitrary: e)
  case Nil
  then show ?case by (simp add: wrote_def)
next
  case (Cons it its)
  then have "length (item_name it) \<le> BSON_MAXNAME" by (cases it) simp_all
  then show ?case using Cons by (simp add: append_item_fits)
qed

lemma encode_document_fits:
  assumes "list_all carried its" "length (document its) \<le> room f"
  shows "\<exists>e. encode_document its f = (0, e) \<and> written (out e) = written f @ document its"
proof -
  let ?e = "\<lparr>enc_open = True, out = f\<rparr>"
  have i: "bson_encoder_init f = (0, wrote (le32 0) ?e)"
    using assms(2) by (simp add: bson_encoder_init_def writer_defs put_fits document_def)
  have a: "append_items its (wrote (le32 0) ?e) =
      (0, wrote (concat (map item_bytes its)) (wrote (le32 0) ?e))"
    using assms by (intro append_items_fits) (simp_all add: document_def)
  show ?thesis
    using assms(2) unfolding encode_document_def i Let_def
    by (simp add: a bson_encoder_fini_def writer_defs put_fits document_def)
qed

text \<open>A callback that collects the items, as a user of the library would write it.\<close>

definition collect :: "bson_item list bson_callback" where
  "collect d its =
     (if node_type (node d) = BSON_EOO then (0, d, its)
      else case item_of d of
          None \<Rightarrow> (-1, d, its)
        | Some (it, r) \<Rightarrow> (1, d\<lparr>input := r, pending := 0\<rparr>, its @ [it]))"

definition decode_document :: "bytes \<Rightarrow> bson_node \<Rightarrow> (int \<times> bson_item list) option" where
  "decode_document s junk =
     (let (r, d) = bson_decoder_init s junk
      in if r \<noteq> 0 then Some (r, [])
         else map_option (\<lambda>(r, d', its). (r, its)) (run_decoder (Suc (length s)) collect d []))"

definition between_items :: "bson_decoder \<Rightarrow> bool" where
  "between_items d \<longleftrightarrow> dec_open d \<and> nesting d = 1 \<and> pending d = 0 \<and> node_type (node d) \<noteq> BSON_EOO"

lemma next_item:
  assumes "between_items d" "input d = item_bytes it @ r" "carried it"
  shows "\<exists>d'. bson_decoder_next cb d p = cb d' p \<and> item_of d' = Some (it, r) \<and> dec_open d' \<and>
    nesting d' = 1 \<and> node_type (node d') \<noteq> BSON_EOO \<and>
    (\<forall>n st bs. it = Item_binary n st bs \<longrightarrow> pending d' = of_nat (length bs) \<and> input d' = bs @ r) \<and>
    ((\<forall>n st bs. it \<noteq> Item_binary n st bs) \<longrightarrow> pending d' = 0 \<and> input d' = r)"
proof -
  have l: "leave_level d = d" using assms(1) by (simp add: leave_level_def between_items_def)
  obtain d' where "read_node d = Some d'" "item_of d' = Some (it, r)" "dec_open d'" "nesting d' = 1"
    "node_type (node d') \<noteq> BSON_EOO"
    "\<forall>n st bs. it = Item_binary n st bs \<longrightarrow> pending d' = of_nat (length bs) \<and> input d' = bs @ r"
    "(\<forall>n st bs. it \<noteq> Item_binary n st bs) \<longrightarrow> pending d' = 0 \<and> input d' = r"
    using read_node_item [of d it r] assms by (auto simp: between_items_def)
  then show ?thesis
    using assms(1) by (intro exI [of _ d']) (simp add: bson_decoder_next_def l between_items_def)
qed

lemma next_end:
  assumes "between_items d" "input d = BSON_EOO # r"
  shows "bson_decoder_next cb d p =
    cb (d\<lparr>input := r, node := (node d)\<lparr>node_type := BSON_EOO\<rparr>, pending := 0\<rparr>) p"
  using assms by (simp add: bson_decoder_next_def between_items_def leave_level_def read_node_def)

lemma run_collect:
  assumes "between_items d" "input d = concat (map item_bytes its) @ BSON_EOO # r"
    "list_all carried its" "length its < fuel"
  shows "\<exists>d'. run_decoder fuel collect d acc = Some (0, d', acc @ its)"
  using assms
proof (induction its arbitrary: d acc fuel)
  case Nil
  then obtain f where "fuel = Suc f" by (cases fuel) auto
  with Nil show ?case by (simp add: next_end collect_def)
next
  case (Cons it its)
  then obtain f where f: "fuel = Suc f" by (cases fuel) auto
  have "input d = item_bytes it @ concat (map item_bytes its) @ BSON_EOO # r" using Cons.prems(2) by simp
  from next_item [OF Cons.prems(1) this, of collect acc] Cons.prems(3)
  obtain d' where d': "bson_decoder_next collect d acc = collect d' acc"
    "item_of d' = Some (it, concat (map item_bytes its) @ BSON_EOO # r)" "dec_open d'"
    "nesting d' = 1" "node_type (node d') \<noteq> BSON_EOO" by auto
  let ?d = "d'\<lparr>input := concat (map item_bytes its) @ BSON_EOO # r, pending := 0\<rparr>"
  have "collect d' acc = (1, ?d, acc @ [it])" using d' by (simp add: collect_def)
  moreover have "\<exists>d''. run_decoder f collect ?d (acc @ [it]) = Some (0, d'', (acc @ [it]) @ its)"
    using d' Cons.prems(3,4) f by (intro Cons.IH) (simp_all add: between_items_def)
  ultimately show ?case using d'(1) f by simp
qed

lemma put_cases:
  "put bs e = (if length bs \<le> room (out e) then (0, wrote bs e)
     else (-1, wrote (take (room (out e)) bs) e))"
  by (simp add: put_def fwrite_def Let_def wrote_def)

lemma append_item_closed: "\<not> enc_open e \<Longrightarrow> append_item it e = (-1, e)"
  by (cases it) (simp_all add: bson_encoder_append_int_def bson_encoder_append_double_def
      bson_encoder_append_binary_def checked_writes_def)

lemma append_item_short:
  "room (out e) < length (item_bytes it) \<Longrightarrow>
   fst (append_item it e) = -1 \<and> \<not> enc_open (snd (append_item it e))"
  by (cases it) (auto simp: bson_encoder_append_int_def bson_encoder_append_double_def
      bson_encoder_append_binary_def writer_defs put_cases)

section \<open>Properties\<close>

text \<open>
  C8. Round trip. A document of items whose names are shorter than 32 bytes is written without
  error wherever there is room for it, and decoding what was written gives the items back.
\<close>

theorem bson_round_trip:
  assumes "list_all carried its" "length (document its) \<le> room f" "written f = []"
  shows "\<exists>e. encode_document its f = (0, e) \<and>
    decode_document (written (out e)) junk = Some (0, its)"
proof -
  obtain e where e: "encode_document its f = (0, e)" "written (out e) = document its"
    using encode_document_fits [OF assms(1,2)] assms(3) by auto
  let ?s = "concat (map item_bytes its) @ [BSON_EOO]"
  let ?d = "\<lparr>dec_open = True, input = ?s, nesting = 1, node = junk\<lparr>node_type := BSON_UNDEFINED\<rparr>,
    pending = 0\<rparr>"
  have i: "bson_decoder_init (document its) junk = (0, ?d)"
    by (simp add: bson_decoder_init_def document_def get_spec [of "le32 0"])
  have "length its < Suc (length (document its))"
    using bson.length_bound [of its] by (simp add: document_def)
  then obtain d' where "run_decoder (Suc (length (document its))) collect ?d [] = Some (0, d', [] @ its)"
    using run_collect [of ?d its "[]" "Suc (length (document its))" "[]"] assms(1)
    by (auto simp: between_items_def bson_types)
  then have "decode_document (document its) junk = Some (0, its)"
    unfolding decode_document_def i Let_def by simp
  with e show ?thesis by auto
qed

theorem bson_round_trip_witness:
  "\<exists>e. encode_document [Item_int (ascii ''A'') 7, Item_binary (ascii ''B'') 0 [1, 2]]
       \<lparr>written = [], room = 100\<rparr> = (0, e) \<and>
     decode_document (written (out e)) undefined = Some (0, [Item_int (ascii ''A'') 7, Item_binary (ascii ''B'') 0 [1, 2]])"
  by (rule bson_round_trip) (simp_all add: no_nul_def ascii_def document_def BSON_MAXNAME_def)

text \<open>
  A write error is never lost. When the file has no room for an item, the function that
  appends it answers -1, the encoder is killed, and so does every later call.
\<close>

theorem append_without_room:
  assumes "room (out e) < length (item_bytes it)"
  shows "\<exists>e'. append_item it e = (-1, e') \<and> \<not> enc_open e' \<and>
    (\<forall>it'. append_item it' e' = (-1, e')) \<and> bson_encoder_fini e' = (-1, e')"
proof -
  have r: "append_item it e = (-1, snd (append_item it e))" "\<not> enc_open (snd (append_item it e))"
    using append_item_short [OF assms] by (simp_all add: prod_eq_iff)
  show ?thesis
    using r by (intro exI [of _ "snd (append_item it e)"]) (simp add: append_item_closed
        bson_encoder_fini_def checked_writes_def)
qed

theorem append_without_room_witness:
  "\<exists>e'. append_item (Item_int (ascii ''GAIN'') 3) \<lparr>enc_open = True, out = \<lparr>written = [], room = 5\<rparr>\<rparr> = (-1, e') \<and>
     \<not> enc_open e' \<and> bson_encoder_fini e' = (-1, e')"
proof -
  have "room (out \<lparr>enc_open = True, out = \<lparr>written = [], room = 5\<rparr>\<rparr>) <
      length (item_bytes (Item_int (ascii ''GAIN'') 3))"
    by (simp add: ascii_def)
  from append_without_room [OF this] show ?thesis by blast
qed

text \<open>
  The encoder accepts names of 32 bytes, the decoder does not: an item whose name has exactly
  that length is written without error, and the document cannot be decoded.
\<close>

theorem name_of_maximal_length:
  assumes "no_nul n" "length n = BSON_MAXNAME" "room f \<ge> 100" "written f = []"
  shows "\<exists>e. encode_document [Item_int n v] f = (0, e) \<and>
    decode_document (written (out e)) junk = Some (-1, [])"
proof -
  let ?e = "\<lparr>enc_open = True, out = f\<rparr>"
  let ?s = "BSON_INT # n @ 0 # le32 v @ [BSON_EOO]"
  have i: "bson_encoder_init f = (0, wrote (le32 0) ?e)"
    using assms(3) by (simp add: bson_encoder_init_def writer_defs put_fits)
  have a: "append_item (Item_int n v) (wrote (le32 0) ?e) =
      (0, wrote (item_bytes (Item_int n v)) (wrote (le32 0) ?e))"
    using assms(2,3) by (intro append_item_fits) (simp_all add: BSON_MAXNAME_def)
  have "\<exists>e. encode_document [Item_int n v] f = (0, e) \<and> written (out e) = le32 0 @ ?s"
    using assms(2,3,4) unfolding encode_document_def i Let_def append_items.simps a
    by (simp add: a [unfolded append_item.simps] bson_encoder_fini_def writer_defs put_fits BSON_MAXNAME_def)
  then obtain e where e: "encode_document [Item_int n v] f = (0, e)" "written (out e) = le32 0 @ ?s"
    by blast
  let ?d = "\<lparr>dec_open = True, input = ?s, nesting = 1, node = junk\<lparr>node_type := BSON_UNDEFINED\<rparr>,
    pending = 0\<rparr>"
  have j: "bson_decoder_init (le32 0 @ ?s) junk = (0, ?d)"
    by (simp add: bson_decoder_init_def get_spec [of "le32 0"])
  have "read_node ?d = None"
    using read_name_overflow [OF assms(1), of 0] assms(2)
    by (simp add: read_node_def Let_def bson_types)
  then have "bson_decoder_next collect ?d [] = (-1, killed ?d, [])"
    by (simp add: bson_decoder_next_def leave_level_def bson_types)
  then have run: "run_decoder (Suc (length (le32 0 @ ?s))) collect ?d [] = Some (-1, killed ?d, [])"
    by (simp only: run_decoder.simps(2) Let_def prod.case) simp
  have "decode_document (le32 0 @ ?s) junk = Some (-1, [])"
    unfolding decode_document_def j Let_def prod.case run by simp
  then show ?thesis using e by auto
qed

theorem name_of_maximal_length_witness:
  "\<exists>e. encode_document [Item_int (replicate 32 65) 0] \<lparr>written = [], room = 100\<rparr> = (0, e) \<and>
     decode_document (written (out e)) undefined = Some (-1, [])"
  by (rule name_of_maximal_length) (simp_all add: no_nul_def BSON_MAXNAME_def)

text \<open>
  Appending a string writes something else: the bytes of the name instead of those of the
  string, under the type byte of a double, and beyond the name's end when the string is
  longer than it.
\<close>

theorem string_miswritten:
  assumes "enc_open e" "length name \<le> BSON_MAXNAME" "length name + length str + 11 \<le> room (out e)"
  shows "bson_encoder_append_string name str e =
    (if length name < length str then None
     else Some (0, wrote (BSON_DOUBLE # name @ 0 # le32 (of_nat (length str)) @
            take (Suc (length str)) (name @ [0])) e))"
  using assms
  by (simp add: bson_encoder_append_string_def writer_defs put_fits)

theorem string_miswritten_witness:
  "bson_encoder_append_string (ascii ''KEY'') (ascii ''xy'')
     \<lparr>enc_open = True, out = \<lparr>written = [], room = 50\<rparr>\<rparr> =
   Some (0, wrote (BSON_DOUBLE # ascii ''KEY'' @ 0 # le32 2 @ ascii ''KEY'')
     \<lparr>enc_open = True, out = \<lparr>written = [], room = 50\<rparr>\<rparr>)"
proof -
  have "enc_open \<lparr>enc_open = True, out = \<lparr>written = [], room = 50\<rparr>\<rparr>"
    "length (ascii ''KEY'') \<le> BSON_MAXNAME"
    "length (ascii ''KEY'') + length (ascii ''xy'') + 11 \<le> room (out \<lparr>enc_open = True, out = \<lparr>written = [], room = 50\<rparr>\<rparr>)"
    by (simp_all add: ascii_def BSON_MAXNAME_def)
  from string_miswritten [OF this] show ?thesis by (simp add: ascii_def)
qed

end
