(* ===== verification/Param.thy ===== *)
theory Param
  imports Bson Float32 "HOL-Library.Multiset"
begin

text \<open>
  The parameter store of \<open>apps/systemlib/param/param.c\<close>: the table of known parameters with
  their defaults, the array of modified values, and saving to and loading from BSON.

  The table is the linker section \<open>__param\<close>, filled by the \<open>PARAM_DEFINE\<close> macros all over the
  firmware; it is the first argument \<open>T\<close> of the functions here. The array of modified values is the
  \<open>UT_array\<close> of the vendored uthash library: a list, \<open>None\<close> while it is not allocated. Values
  are passed by address in the code; here they are the bytes of the object. \<open>None\<close> as the
  result of a function is an access outside an object. The locks are empty in the code.
\<close>

section \<open>Data\<close>

definition PARAM_TYPE_INT32 :: nat where "PARAM_TYPE_INT32 = 0"
definition PARAM_TYPE_FLOAT :: nat where "PARAM_TYPE_FLOAT = 1"
definition PARAM_TYPE_STRUCT :: nat where "PARAM_TYPE_STRUCT = 100"
definition PARAM_TYPE_STRUCT_MAX :: nat where "PARAM_TYPE_STRUCT_MAX = 16384 + PARAM_TYPE_STRUCT"
definition PARAM_TYPE_UNKNOWN :: nat where "PARAM_TYPE_UNKNOWN = 0xffff"

lemmas param_types = PARAM_TYPE_INT32_def PARAM_TYPE_FLOAT_def PARAM_TYPE_STRUCT_def
  PARAM_TYPE_STRUCT_MAX_def PARAM_TYPE_UNKNOWN_def

type_synonym param_t = u32

definition PARAM_INVALID :: param_t where "PARAM_INVALID = 0xffffffff"

text \<open>
  \<open>union param_value_u\<close>: the four bytes of an \<open>int32_t\<close> or a \<open>float\<close>, or a pointer to a
  structure (NULL or to a block of bytes).
\<close>

datatype param_value_u =
    Bits u32
  | Pointer "bytes option"

record param_info_s =
  pi_name :: c_string
  pi_type :: nat
  pi_val :: param_value_u

record param_wbuf_s =
  wb_param :: param_t
  wb_val :: param_value_u
  wb_unsaved :: bool

text \<open>
  The store: the modified values, the updates announced on the topic \<open>parameter_update\<close> (their
  time stamps, oldest first), the clock, and the outcome of the allocations to come.
\<close>

record param_store =
  param_values :: "param_wbuf_s list option"
  updates :: "u64 list"
  p_clock :: "nat \<Rightarrow> u64"
  p_reads :: nat
  mallocs :: "nat \<Rightarrow> bool"
  malloc_calls :: nat

type_synonym param_table = "param_info_s list"

section \<open>Looking up\<close>

definition param_info_count :: "param_table \<Rightarrow> u32" where
  "param_info_count T = of_nat (length T)"

definition handle_in_range :: "param_table \<Rightarrow> param_t \<Rightarrow> bool" where
  "handle_in_range T p \<longleftrightarrow> p < param_info_count T"

abbreviation info :: "param_table \<Rightarrow> param_t \<Rightarrow> param_info_s" where
  "info T p \<equiv> T ! unat p"

fun first_wbuf :: "param_t \<Rightarrow> param_wbuf_s list \<Rightarrow> param_wbuf_s option" where
  "first_wbuf p [] = None"
| "first_wbuf p (w # ws) = (if wb_param w = p then Some w else first_wbuf p ws)"

definition param_find_changed :: "param_t \<Rightarrow> param_store \<Rightarrow> param_wbuf_s option" where
  "param_find_changed p s = (case param_values s of None \<Rightarrow> None | Some ws \<Rightarrow> first_wbuf p ws)"

definition param_notify_changes :: "param_store \<Rightarrow> param_store" where
  "param_notify_changes s =
     s\<lparr>updates := updates s @ [p_clock s (p_reads s)], p_reads := Suc (p_reads s)\<rparr>"

text \<open>The linear search of \<open>param_find\<close>, from handle \<open>i\<close> on.\<close>

function find_from :: "nat \<Rightarrow> param_table \<Rightarrow> c_string \<Rightarrow> param_t" where
  "find_from i T name =
     (if i < unat (param_info_count T)
      then (if pi_name (T ! i) = name then of_nat i else find_from (Suc i) T name)
      else PARAM_INVALID)"
  by pat_completeness auto
termination
  by (relation "measure (\<lambda>(i, T, name). unat (param_info_count T) - i)") auto

declare find_from.simps [simp del]

definition param_find :: "param_table \<Rightarrow> c_string \<Rightarrow> param_t" where
  "param_find T name = find_from 0 T name"

definition param_count :: "param_table \<Rightarrow> u32" where
  "param_count T = param_info_count T"

definition param_for_index :: "param_table \<Rightarrow> u32 \<Rightarrow> param_t" where
  "param_for_index T i = (if i < param_info_count T then i else PARAM_INVALID)"

definition param_get_index :: "param_table \<Rightarrow> param_t \<Rightarrow> int" where
  "param_get_index T p = (if handle_in_range T p then sint p else -1)"

definition param_name :: "param_table \<Rightarrow> param_t \<Rightarrow> c_string option" where
  "param_name T p = (if handle_in_range T p then Some (pi_name (info T p)) else None)"

definition param_value_is_default :: "param_t \<Rightarrow> param_store \<Rightarrow> bool" where
  "param_value_is_default p s = (case param_find_changed p s of Some w \<Rightarrow> False | None \<Rightarrow> True)"

definition param_value_unsaved :: "param_t \<Rightarrow> param_store \<Rightarrow> bool" where
  "param_value_unsaved p s = (case param_find_changed p s of Some w \<Rightarrow> wb_unsaved w | None \<Rightarrow> False)"

definition param_type :: "param_table \<Rightarrow> param_t \<Rightarrow> nat" where
  "param_type T p = (if handle_in_range T p then pi_type (info T p) else PARAM_TYPE_UNKNOWN)"

definition is_struct :: "nat \<Rightarrow> bool" where
  "is_struct t \<longleftrightarrow> PARAM_TYPE_STRUCT \<le> t \<and> t \<le> PARAM_TYPE_STRUCT_MAX"

definition param_size :: "param_table \<Rightarrow> param_t \<Rightarrow> nat" where
  "param_size T p =
     (if handle_in_range T p
      then (let t = param_type T p
            in if t = PARAM_TYPE_INT32 \<or> t = PARAM_TYPE_FLOAT then 4
               else if is_struct t then t - PARAM_TYPE_STRUCT else 0)
      else 0)"

text \<open>
  The pointer \<open>param_get_value_ptr\<close> answers: NULL, the address of the union, or the pointer
  stored in it. The code takes the latter only when the type is \<open>PARAM_TYPE_STRUCT\<close> itself.
\<close>

datatype value_ptr =
    Null
  | Address_of param_value_u
  | Stored_pointer param_value_u

definition param_get_value_ptr :: "param_table \<Rightarrow> param_t \<Rightarrow> param_store \<Rightarrow> value_ptr" where
  "param_get_value_ptr T p s =
     (if handle_in_range T p
      then (let v = (case param_find_changed p s of Some w \<Rightarrow> wb_val w | None \<Rightarrow> pi_val (info T p))
            in if param_type T p = PARAM_TYPE_STRUCT then Stored_pointer v else Address_of v)
      else Null)"

text \<open>
  Copying \<open>n\<close> bytes from there. The bytes of a stored pointer are not a value of the model.
\<close>

fun memcpy_from :: "value_ptr \<Rightarrow> nat \<Rightarrow> bytes option" where
  "memcpy_from Null n = (if n = 0 then Some [] else None)"
| "memcpy_from (Address_of (Bits w)) n = (if n \<le> 4 then Some (take n (le32 w)) else None)"
| "memcpy_from (Address_of (Pointer p)) n = (if n = 0 then Some [] else None)"
| "memcpy_from (Stored_pointer (Pointer (Some bs))) n = (if n \<le> length bs then Some (take n bs) else None)"
| "memcpy_from (Stored_pointer v) n = (if n = 0 then Some [] else None)"

text \<open>\<open>param_get\<close> for a destination that is given or NULL: its result and the bytes copied.\<close>

definition param_get :: "param_table \<Rightarrow> param_t \<Rightarrow> bool \<Rightarrow> param_store \<Rightarrow> (int \<times> bytes) option" where
  "param_get T p dest s =
     (let v = param_get_value_ptr T p s
      in if dest then map_option (\<lambda>bs. (0, bs)) (memcpy_from v (param_size T p)) else Some (-1, []))"

section \<open>Setting and resetting\<close>

fun update_wbuf ::
  "param_t \<Rightarrow> (param_wbuf_s \<Rightarrow> param_wbuf_s) \<Rightarrow> param_wbuf_s list \<Rightarrow> param_wbuf_s list" where
  "update_wbuf p f [] = []"
| "update_wbuf p f (w # ws) = (if wb_param w = p then f w # ws else w # update_wbuf p f ws)"

text \<open>
  The entry of a parameter, made if there is none: pushed to the back, then the array is sorted.
\<close>

definition with_entry :: "param_t \<Rightarrow> param_wbuf_s list \<Rightarrow> param_wbuf_s list" where
  "with_entry p ws =
     (if first_wbuf p ws = None
      then sort_key wb_param (ws @ [\<lparr>wb_param = p, wb_val = Pointer None, wb_unsaved = False\<rparr>])
      else ws)"

text \<open>
  Storing the value in the entry \<open>w\<close>: the new union and whether a block was allocated, \<open>Inl\<close> when
  the code jumps to its exit, \<open>None\<close> for an access outside an object.
\<close>

definition store_value ::
  "nat \<Rightarrow> nat \<Rightarrow> bool \<Rightarrow> param_wbuf_s \<Rightarrow> bytes \<Rightarrow> (bool + param_value_u \<times> bool) option" where
  "store_value t sz heap_ok w val =
     (if t = PARAM_TYPE_INT32 \<or> t = PARAM_TYPE_FLOAT
      then (if 4 \<le> length val then Some (Inr (Bits (un_le32 (take 4 val)), False)) else None)
      else if is_struct t
      then (case wb_val w of
              Pointer None \<Rightarrow>
                if \<not> heap_ok then Some (Inl True)
                else if sz \<le> length val then Some (Inr (Pointer (Some (take sz val)), True)) else None
            | Pointer (Some bs) \<Rightarrow>
                if sz \<le> length val \<and> sz \<le> length bs
                then Some (Inr (Pointer (Some (take sz val @ drop sz bs)), False)) else None
            | Bits x \<Rightarrow> None)
      else Some (Inl False))"

definition param_set_internal ::
  "param_table \<Rightarrow> param_t \<Rightarrow> bytes \<Rightarrow> bool \<Rightarrow> param_store \<Rightarrow> (int \<times> param_store) option" where
  "param_set_internal T p val mark_saved s =
     (let ws = (case param_values s of None \<Rightarrow> [] | Some ws \<Rightarrow> ws)
      in if handle_in_range T p
         then (let ws1 = with_entry p ws
               in case first_wbuf p ws1 of
                   None \<Rightarrow> None
                 | Some w \<Rightarrow>
                     (case store_value (param_type T p) (param_size T p) (mallocs s (malloc_calls s)) w val of
                        None \<Rightarrow> None
                      | Some (Inl tried) \<Rightarrow>
                          Some (-1, s\<lparr>param_values := Some ws1,
                                 malloc_calls := malloc_calls s + (if tried then 1 else 0)\<rparr>)
                      | Some (Inr (v, allocated)) \<Rightarrow>
                          Some (0, param_notify_changes (s\<lparr>
                            param_values := Some (update_wbuf p
                              (\<lambda>w. w\<lparr>wb_val := v, wb_unsaved := \<not> mark_saved\<rparr>) ws1),
                            malloc_calls := malloc_calls s + (if allocated then 1 else 0)\<rparr>))))
         else Some (-1, s\<lparr>param_values := Some ws\<rparr>))"

definition param_set :: "param_table \<Rightarrow> param_t \<Rightarrow> bytes \<Rightarrow> param_store \<Rightarrow> (int \<times> param_store) option" where
  "param_set T p val s = param_set_internal T p val False s"

text \<open>
  \<open>param_reset\<close> erases the entry at an index that it asks \<open>utarry_eltidx\<close> for. There is no such function or macro: the code
  compiles with an implicit declaration and cannot be linked. What the call answers is the argument \<open>eltidx\<close> here, for the
  array and the entry it is given. Nothing calls \<open>param_reset\<close>.
\<close>

definition utarray_erase :: "int \<Rightarrow> param_wbuf_s list \<Rightarrow> param_wbuf_s list option" where
  "utarray_erase pos ws =
     (if unat (word_of_int (pos + 1) :: u32) < length ws
      then (if 0 \<le> pos then Some (take (nat pos) ws @ drop (Suc (nat pos)) ws) else None)
      else Some (butlast ws))"

definition param_reset ::
  "(param_wbuf_s list \<Rightarrow> param_wbuf_s \<Rightarrow> int) \<Rightarrow> param_table \<Rightarrow> param_t \<Rightarrow> param_store \<Rightarrow> param_store option" where
  "param_reset eltidx T p s =
     (if handle_in_range T p
      then (case param_find_changed p s of
              None \<Rightarrow> Some s
            | Some w \<Rightarrow>
                let ws = the (param_values s)
                in map_option (\<lambda>ws'. param_notify_changes (s\<lparr>param_values := Some ws'\<rparr>))
                     (utarray_erase (eltidx ws w) ws))
      else Some s)"

definition param_reset_all :: "param_store \<Rightarrow> param_store" where
  "param_reset_all s = param_notify_changes (s\<lparr>param_values := None\<rparr>)"

section \<open>Saving and loading\<close>

text \<open>One entry of the array, number \<open>i\<close>, while the parameters are exported.\<close>

definition export_value ::
  "param_table \<Rightarrow> param_t \<Rightarrow> param_store \<Rightarrow> bson_encoder \<Rightarrow> (int \<times> bson_encoder) option" where
  "export_value T p s e =
     (let t = param_type T p; name = pi_name (info T p)
      in if t = PARAM_TYPE_INT32
         then map_option (\<lambda>(r, bs). bson_encoder_append_int name (un_le32 bs) e) (param_get T p True s)
         else if t = PARAM_TYPE_FLOAT
         then map_option (\<lambda>(r, bs). bson_encoder_append_double name (f64_of_f32 (un_le32 bs)) e)
                (param_get T p True s)
         else if is_struct t
         then map_option (\<lambda>bs. bson_encoder_append_binary name BSON_BIN_BINARY bs e)
                (memcpy_from (param_get_value_ptr T p s) (param_size T p))
         else Some (-1, e))"

fun export_loop ::
  "param_table \<Rightarrow> bool \<Rightarrow> nat list \<Rightarrow> bson_encoder \<Rightarrow> param_store \<Rightarrow> (int \<times> bson_encoder \<times> param_store) option" where
  "export_loop T only_unsaved [] e s = Some (0, e, s)"
| "export_loop T only_unsaved (i # is) e s =
     (case param_values s of None \<Rightarrow> None | Some ws \<Rightarrow>
       if only_unsaved \<and> \<not> wb_unsaved (ws ! i) then export_loop T only_unsaved is e s
       else let s1 = s\<lparr>param_values := Some (ws[i := (ws ! i)\<lparr>wb_unsaved := False\<rparr>])\<rparr>
            in case export_value T (wb_param (ws ! i)) s1 e of
                None \<Rightarrow> None
              | Some (r, e') \<Rightarrow>
                  if r \<noteq> 0 then Some (-1, e', s1) else export_loop T only_unsaved is e' s1)"

text \<open>\<open>param_export\<close> to a file: its result, the file, and the store.\<close>

definition param_export ::
  "param_table \<Rightarrow> wfile \<Rightarrow> bool \<Rightarrow> param_store \<Rightarrow> (int \<times> wfile \<times> param_store) option" where
  "param_export T f only_unsaved s =
     (let e = snd (bson_encoder_init f)
      in map_option (\<lambda>(r, e', s').
           if r = 0 then (let (r', e'') = bson_encoder_fini e' in (r', out e'', s')) else (r, out e', s'))
         (case param_values s of
            None \<Rightarrow> Some (0, e, s)
          | Some ws \<Rightarrow> export_loop T only_unsaved [0..<length ws] e s))"

text \<open>
  The value a node carries for the parameter, or the jump to the exit of the code, or an access outside an object. Binary
  data is copied to a buffer of the parameter's size, allocated for it: \<open>bson_decoder_copy_data\<close> knows the room there and
  has no result when more is written.
\<close>

datatype import_result =
    Overrun
  | Exit
  | Value bson_decoder bytes

definition needs_buffer :: "param_table \<Rightarrow> param_t \<Rightarrow> bson_decoder \<Rightarrow> bool" where
  "needs_buffer T p d \<longleftrightarrow> node_type (node d) = BSON_BINDATA \<and>
     node_subtype (node d) = BSON_BIN_BINARY \<and> unat (bson_decoder_data_pending d) = param_size T p"

definition import_value ::
  "param_table \<Rightarrow> param_t \<Rightarrow> bool \<Rightarrow> bson_decoder \<Rightarrow> import_result" where
  "import_value T p heap_ok d =
     (let t = node_type (node d)
      in if t = BSON_INT
         then (if param_type T p \<noteq> PARAM_TYPE_INT32 then Exit else Value d (le32 (node_i (node d))))
         else if t = BSON_DOUBLE
         then (if param_type T p \<noteq> PARAM_TYPE_FLOAT then Exit
               else Value d (le32 (f32_of_f64 (node_d (node d)))))
         else if needs_buffer T p d \<and> heap_ok
         then (case bson_decoder_copy_data (param_size T p) d of
                 None \<Rightarrow> Overrun
               | Some (r, bs, d') \<Rightarrow> if r = 0 then Value d' bs else Exit)
         else Exit)"

text \<open>
  The callback that sets a parameter from a node. Its state is the store, \<open>None\<close> after an
  access outside an object.
\<close>

definition param_import_callback :: "param_table \<Rightarrow> bool \<Rightarrow> param_store option bson_callback" where
  "param_import_callback T mark_saved d so =
     (case so of None \<Rightarrow> (-1, d, None) | Some s \<Rightarrow>
       if node_type (node d) = BSON_EOO then (0, d, Some s)
       else let p = param_find T (node_name (node d))
            in if p = PARAM_INVALID then (1, d, Some s)
               else let s1 = (if needs_buffer T p d then s\<lparr>malloc_calls := Suc (malloc_calls s)\<rparr> else s)
                    in case import_value T p (mallocs s (malloc_calls s)) d of
                         Overrun \<Rightarrow> (-1, d, None)
                       | Exit \<Rightarrow> (-1, d, Some s1)
                       | Value d' v \<Rightarrow>
                           (case param_set_internal T p v mark_saved s1 of
                              None \<Rightarrow> (-1, d', None)
                            | Some (r, s') \<Rightarrow> ((if r \<noteq> 0 then -1 else 1), d', Some s')))"

definition param_import_internal ::
  "param_table \<Rightarrow> bytes \<Rightarrow> bson_node \<Rightarrow> bool \<Rightarrow> param_store \<Rightarrow> (int \<times> param_store) option" where
  "param_import_internal T file junk mark_saved s =
     (let (r, d) = bson_decoder_init file junk
      in if r \<noteq> 0 then Some (-1, s)
         else Option.bind (run_decoder (Suc (length file)) (param_import_callback T mark_saved) d (Some s))
                (\<lambda>(r, d', s'). map_option (\<lambda>t. (r, t)) s'))"

definition param_import ::
  "param_table \<Rightarrow> bytes \<Rightarrow> bson_node \<Rightarrow> param_store \<Rightarrow> (int \<times> param_store) option" where
  "param_import T file junk s = param_import_internal T file junk False s"

definition param_load ::
  "param_table \<Rightarrow> bytes \<Rightarrow> bson_node \<Rightarrow> param_store \<Rightarrow> (int \<times> param_store) option" where
  "param_load T file junk s = param_import_internal T file junk True (param_reset_all s)"

text \<open>Calling \<open>func\<close> for the parameters, all or only the changed ones; \<open>func\<close> may change the store.\<close>

function foreach_from ::
  "nat \<Rightarrow> param_table \<Rightarrow> (param_t \<Rightarrow> param_store \<times> 'a \<Rightarrow> param_store \<times> 'a) \<Rightarrow> bool \<Rightarrow>
   param_store \<times> 'a \<Rightarrow> param_store \<times> 'a" where
  "foreach_from i T func only_changed sa =
     (if i < unat (param_info_count T)
      then foreach_from (Suc i) T func only_changed
             (if only_changed \<and> param_find_changed (of_nat i) (fst sa) = None then sa
              else func (of_nat i) sa)
      else sa)"
  by pat_completeness auto
termination
  by (relation "measure (\<lambda>(i, T, func, oc, sa). unat (param_info_count T) - i)") auto

declare foreach_from.simps [simp del]

definition param_foreach ::
  "param_table \<Rightarrow> (param_t \<Rightarrow> param_store \<times> 'a \<Rightarrow> param_store \<times> 'a) \<Rightarrow> bool \<Rightarrow>
   param_store \<times> 'a \<Rightarrow> param_store \<times> 'a" where
  "param_foreach T func only_changed sa = foreach_from 0 T func only_changed sa"

section \<open>The array of modified values\<close>

lemma first_wbuf_None: "first_wbuf p ws = None \<longleftrightarrow> p \<notin> wb_param ` set ws"
  by (induction ws) auto

lemma first_wbuf_Some: "first_wbuf p ws = Some w \<Longrightarrow> w \<in> set ws \<and> wb_param w = p"
  by (induction ws) (auto split: if_splits)

lemma first_wbuf_iff:
  "distinct (map wb_param ws) \<Longrightarrow> first_wbuf p ws = Some w \<longleftrightarrow> w \<in> set ws \<and> wb_param w = p"
  by (induction ws) (auto simp: image_iff)

lemma first_wbuf_update:
  assumes "\<And>w. wb_param (f w) = wb_param w"
  shows "first_wbuf q (update_wbuf p f ws) =
    (if q = p then map_option f (first_wbuf p ws) else first_wbuf q ws)"
  by (induction ws) (auto simp: assms)

lemma update_wbuf_params:
  "(\<And>w. wb_param (f w) = wb_param w) \<Longrightarrow> map wb_param (update_wbuf p f ws) = map wb_param ws"
  by (induction ws) auto

lemma update_wbuf_set:
  "distinct (map wb_param ws) \<Longrightarrow> x \<in> set (update_wbuf p f ws) \<Longrightarrow>
   (\<exists>w \<in> set ws. wb_param w = p \<and> x = f w) \<or> (x \<in> set ws \<and> wb_param x \<noteq> p)"
  by (induction ws) (auto simp: image_iff split: if_splits)

abbreviation fresh :: "param_t \<Rightarrow> param_wbuf_s" where
  "fresh p \<equiv> \<lparr>wb_param = p, wb_val = Pointer None, wb_unsaved = False\<rparr>"

lemma with_entry_props:
  assumes "sorted (map wb_param ws)" "distinct (map wb_param ws)"
  shows "sorted (map wb_param (with_entry p ws))" "distinct (map wb_param (with_entry p ws))"
    "set (with_entry p ws) = set ws \<union> (if first_wbuf p ws = None then {fresh p} else {})"
proof -
  show "sorted (map wb_param (with_entry p ws))" using assms(1) by (simp add: with_entry_def)
  have "distinct (map wb_param (sort_key wb_param (ws @ [fresh p])))" if "first_wbuf p ws = None"
  proof -
    have "distinct (map wb_param (ws @ [fresh p]))"
      using that assms(2) by (auto simp: first_wbuf_None)
    moreover have "mset (map wb_param (sort_key wb_param (ws @ [fresh p]))) = mset (map wb_param (ws @ [fresh p]))"
      by simp
    ultimately show ?thesis using mset_eq_imp_distinct_iff by blast
  qed
  then show "distinct (map wb_param (with_entry p ws))" using assms(2) by (simp add: with_entry_def)
  show "set (with_entry p ws) = set ws \<union> (if first_wbuf p ws = None then {fresh p} else {})"
    by (simp add: with_entry_def)
qed

lemma first_wbuf_with_entry:
  assumes "sorted (map wb_param ws)" "distinct (map wb_param ws)"
  shows "first_wbuf q (with_entry p ws) =
    (if q = p \<and> first_wbuf p ws = None then Some (fresh p) else first_wbuf q ws)"
proof (cases "first_wbuf q ws")
  case (Some w)
  then have "w \<in> set (with_entry p ws) \<and> wb_param w = q"
    using first_wbuf_Some with_entry_props(3) [OF assms] by fastforce
  then have "first_wbuf q (with_entry p ws) = Some w"
    using first_wbuf_iff [OF with_entry_props(2) [OF assms]] by blast
  with Some show ?thesis by auto
next
  case None
  show ?thesis
  proof (cases "q = p")
    case True
    then have "fresh p \<in> set (with_entry p ws)" using None with_entry_props(3) [OF assms] by simp
    then show ?thesis
      using True None first_wbuf_iff [OF with_entry_props(2) [OF assms, of p], where p = p and w = "fresh p"] by simp
  next
    case False
    then have "q \<notin> wb_param ` set (with_entry p ws)"
      using None with_entry_props(3) [OF assms] by (auto simp: first_wbuf_None)
    then have "first_wbuf q (with_entry p ws) = None" by (simp only: first_wbuf_None not_False_eq_True)
    with False None show ?thesis by simp
  qed
qed

section \<open>The store as a map over its defaults\<close>

text \<open>
  The tables the firmware is built with: every parameter is an integer or a float (the macro
  for structures is not used anywhere), and no name is used twice.
\<close>

definition plain_table :: "param_table \<Rightarrow> bool" where
  "plain_table T \<longleftrightarrow> length T < 2 ^ 31 \<and> distinct (map pi_name T) \<and>
     (\<forall>x \<in> set T. (pi_type x = PARAM_TYPE_INT32 \<or> pi_type x = PARAM_TYPE_FLOAT) \<and>
        (\<exists>w. pi_val x = Bits w))"

definition param_inv :: "param_table \<Rightarrow> param_store \<Rightarrow> bool" where
  "param_inv T s \<longleftrightarrow> plain_table T \<and>
     (case param_values s of None \<Rightarrow> True | Some ws \<Rightarrow>
        sorted (map wb_param ws) \<and> distinct (map wb_param ws) \<and>
        (\<forall>w \<in> set ws. handle_in_range T (wb_param w) \<and> (\<exists>b. wb_val w = Bits b)))"

definition param_start :: "param_table \<Rightarrow> param_store \<Rightarrow> bool" where
  "param_start T s \<longleftrightarrow> plain_table T \<and> param_values s = None"

fun bits_of :: "param_value_u \<Rightarrow> u32" where
  "bits_of (Bits w) = w"
| "bits_of (Pointer p) = 0"

definition changed :: "param_store \<Rightarrow> param_t \<Rightarrow> u32 option" where
  "changed s p = map_option (\<lambda>w. bits_of (wb_val w)) (param_find_changed p s)"

definition default_bits :: "param_table \<Rightarrow> param_t \<Rightarrow> u32" where
  "default_bits T p = bits_of (pi_val (info T p))"

lemma count_length: "plain_table T \<Longrightarrow> unat (param_info_count T) = length T"
  by (simp add: plain_table_def param_info_count_def small_size)

lemma in_range_length: "plain_table T \<Longrightarrow> handle_in_range T p \<longleftrightarrow> unat p < length T"
  using count_length [of T] by (simp add: handle_in_range_def word_less_nat_alt)

lemma plain_type:
  assumes "plain_table T" "handle_in_range T p"
  shows "param_type T p = PARAM_TYPE_INT32 \<or> param_type T p = PARAM_TYPE_FLOAT" "param_size T p = 4"
    "pi_val (info T p) = Bits (default_bits T p)"
proof -
  have "info T p \<in> set T" using assms in_range_length by auto
  then have i: "pi_type (info T p) = PARAM_TYPE_INT32 \<or> pi_type (info T p) = PARAM_TYPE_FLOAT"
    "\<exists>w. pi_val (info T p) = Bits w"
    using assms(1) by (auto simp: plain_table_def)
  then show t: "param_type T p = PARAM_TYPE_INT32 \<or> param_type T p = PARAM_TYPE_FLOAT"
    using assms(2) by (simp add: param_type_def)
  then show "param_size T p = 4" using assms(2) by (auto simp: param_size_def)
  show "pi_val (info T p) = Bits (default_bits T p)" using i(2) by (auto simp: default_bits_def)
qed

lemma notify_fields [simp]:
  "param_values (param_notify_changes s) = param_values s"
  "mallocs (param_notify_changes s) = mallocs s"
  "malloc_calls (param_notify_changes s) = malloc_calls s"
  "updates (param_notify_changes s) = updates s @ [p_clock s (p_reads s)]"
  by (simp_all add: param_notify_changes_def)

text \<open>Reading a parameter gives its changed value, or else its default.\<close>

lemma param_get_value:
  assumes "param_inv T s" "handle_in_range T p"
  shows "param_get T p True s =
    Some (0, le32 (case changed s p of None \<Rightarrow> default_bits T p | Some w \<Rightarrow> w))"
proof -
  have pt: "plain_table T" using assms(1) by (simp add: param_inv_def)
  note t = plain_type [OF pt assms(2)]
  have ns: "param_type T p \<noteq> PARAM_TYPE_STRUCT" using t(1) by (auto simp: param_types)
  show ?thesis
  proof (cases "param_find_changed p s")
    case None
    then show ?thesis
      using assms(2) t ns by (simp add: param_get_def param_get_value_ptr_def changed_def Let_def)
  next
    case (Some w)
    then obtain ws where "param_values s = Some ws" "first_wbuf p ws = Some w"
      by (auto simp: param_find_changed_def split: option.splits)
    then obtain b where "wb_val w = Bits b"
      using assms(1) first_wbuf_Some by (fastforce simp: param_inv_def)
    then show ?thesis
      using Some assms(2) t ns
      by (simp add: param_get_def param_get_value_ptr_def changed_def Let_def)
  qed
qed

text \<open>Setting a parameter that exists, and one that does not.\<close>

lemma param_set_spec:
  assumes inv: "param_inv T s" and p: "handle_in_range T p" and v: "length val = 4"
  shows "\<exists>s'. param_set_internal T p val mark s = Some (0, s') \<and> param_inv T s' \<and>
    changed s' = (changed s)(p \<mapsto> un_le32 val) \<and>
    updates s' = updates s @ [p_clock s (p_reads s)] \<and>
    (\<forall>q. param_value_unsaved q s' = (if q = p then \<not> mark else param_value_unsaved q s))"
proof -
  define ws where "ws = (case param_values s of None \<Rightarrow> [] | Some ws \<Rightarrow> ws)"
  have pt: "plain_table T" using inv by (simp add: param_inv_def)
  note t = plain_type [OF pt p]
  have old: "sorted (map wb_param ws)" "distinct (map wb_param ws)"
    and good: "\<forall>w \<in> set ws. handle_in_range T (wb_param w) \<and> (\<exists>b. wb_val w = Bits b)"
    using inv by (auto simp: param_inv_def ws_def split: option.splits)
  have look: "param_find_changed q s = first_wbuf q ws" for q
    by (simp add: param_find_changed_def ws_def split: option.splits)
  note e = with_entry_props [OF old, of p]
  obtain w where w: "first_wbuf p (with_entry p ws) = Some w"
    using first_wbuf_with_entry [OF old, of p p] by (cases "first_wbuf p ws") auto
  have sv: "store_value (param_type T p) (param_size T p) (mallocs s (malloc_calls s)) w val =
      Some (Inr (Bits (un_le32 val), False))"
    using t v by (auto simp: store_value_def)
  let ?f = "\<lambda>w. w\<lparr>wb_val := Bits (un_le32 val), wb_unsaved := \<not> mark\<rparr>"
  let ?ws = "update_wbuf p ?f (with_entry p ws)"
  let ?s' = "param_notify_changes (s\<lparr>param_values := Some ?ws\<rparr>)"
  have set: "param_set_internal T p val mark s = Some (0, ?s')"
    using p w sv by (simp add: param_set_internal_def Let_def ws_def)
  have par: "map wb_param ?ws = map wb_param (with_entry p ws)" by (rule update_wbuf_params) simp
  have "\<forall>w \<in> set ?ws. handle_in_range T (wb_param w) \<and> (\<exists>b. wb_val w = Bits b)"
  proof
    fix x assume "x \<in> set ?ws"
    then have "(\<exists>w \<in> set (with_entry p ws). wb_param w = p \<and> x = ?f w) \<or>
        (x \<in> set (with_entry p ws) \<and> wb_param x \<noteq> p)"
      by (rule update_wbuf_set [OF e(2)])
    then show "handle_in_range T (wb_param x) \<and> (\<exists>b. wb_val x = Bits b)"
      using e(3) good p by (auto split: if_splits)
  qed
  then have "param_inv T ?s'" using pt e(1,2) par by (simp add: param_inv_def)
  moreover have f: "param_find_changed q ?s' = (if q = p then Some (?f w) else param_find_changed q s)" for q
    using w first_wbuf_with_entry [OF old, of q p]
    by (simp add: param_find_changed_def [of q ?s'] first_wbuf_update look)
  moreover have "changed ?s' = (changed s)(p \<mapsto> un_le32 val)"
    by (rule ext) (simp add: changed_def f)
  ultimately show ?thesis using set by (auto simp: param_value_unsaved_def split: option.splits)
qed

lemma param_set_foreign:
  assumes "param_inv T s" "\<not> handle_in_range T p"
  shows "\<exists>s'. param_set_internal T p val mark s = Some (-1, s') \<and> param_inv T s' \<and>
    changed s' = changed s \<and> updates s' = updates s"
  using assms
  by (auto simp: param_set_internal_def param_inv_def changed_def param_find_changed_def fun_eq_iff
      split: option.splits)

lemma changed_in_range:
  assumes "param_inv T s" "changed s p = Some v"
  shows "handle_in_range T p"
  using assms first_wbuf_Some
  by (fastforce simp: changed_def param_find_changed_def param_inv_def split: option.splits)

text \<open>Resetting what has no changed value does nothing and does not ask for an index.\<close>

lemma param_reset_unchanged: "changed s p = None \<Longrightarrow> param_reset eltidx T p s = Some s"
  by (simp add: param_reset_def changed_def)

lemma param_reset_all_spec:
  assumes "param_inv T s"
  shows "param_inv T (param_reset_all s) \<and> changed (param_reset_all s) = Map.empty"
  using assms
  by (auto simp: param_reset_all_def param_inv_def changed_def param_find_changed_def fun_eq_iff)

text \<open>The operations of the store as an event machine, and what each does to the map of changes.\<close>

datatype param_op =
    Set_param param_t u32
  | Reset_all

fun param_step :: "param_table \<Rightarrow> param_op \<Rightarrow> param_store \<Rightarrow> param_store option" where
  "param_step T (Set_param p v) s = map_option snd (param_set T p (le32 v) s)"
| "param_step T Reset_all s = Some (param_reset_all s)"

fun param_spec :: "param_table \<Rightarrow> param_op \<Rightarrow> (param_t \<Rightarrow> u32 option) \<Rightarrow> param_t \<Rightarrow> u32 option" where
  "param_spec T (Set_param p v) m = (if handle_in_range T p then m(p \<mapsto> v) else m)"
| "param_spec T Reset_all m = Map.empty"

lemma param_step_refines:
  assumes "param_inv T s"
  shows "\<exists>s'. param_step T e s = Some s' \<and> param_inv T s' \<and> changed s' = param_spec T e (changed s)"
proof (cases e)
  case (Set_param p v)
  then show ?thesis
    using param_set_spec [OF assms, of p "le32 v" False] param_set_foreign [OF assms, of p "le32 v" False]
    by (cases "handle_in_range T p") (auto simp: param_set_def)
qed (use param_reset_all_spec [OF assms] in auto)

interpretation params: refined_machine "param_step T" "param_start T" "param_inv T" "\<lambda>e. True"
    changed "param_spec T" for T
proof unfold_locales
  fix s assume "param_start T s"
  then show "param_inv T s" by (simp add: param_start_def param_inv_def)
next
  fix s e s' assume "param_inv T s" "param_step T e s = Some s'"
  then show "param_inv T s'" "changed s' = param_spec T e (changed s)"
    using param_step_refines [of T s e] by auto
next
  fix s e assume "param_inv T s"
  then show "\<exists>s'. param_step T e s = Some s'" using param_step_refines [of T s e] by blast
qed

section \<open>Finding a parameter by its name\<close>

lemma find_from_spec:
  assumes "plain_table T" "i \<le> j" "j < length T"
  shows "find_from i T (pi_name (T ! j)) = of_nat j"
  using assms(2)
proof (induction "j - i" arbitrary: i)
  case 0
  then show ?case using assms by (subst find_from.simps) (simp add: count_length)
next
  case (Suc d)
  then have "i < j" by simp
  then have "pi_name (T ! i) \<noteq> pi_name (T ! j)"
    using assms(1,3) nth_eq_iff_index_eq [of "map pi_name T" i j] by (auto simp: plain_table_def)
  moreover have "find_from (Suc i) T (pi_name (T ! j)) = of_nat j" using Suc by simp
  ultimately show ?case
    using \<open>i < j\<close> assms by (subst find_from.simps) (simp add: count_length)
qed

lemma find_from_range:
  assumes "plain_table T"
  shows "find_from i T name = PARAM_INVALID \<or> handle_in_range T (find_from i T name)"
proof (induction i T name rule: find_from.induct)
  case (1 i T name)
  show ?case
  proof (cases "i < unat (param_info_count T)")
    case True
    then have "handle_in_range T (of_nat i)"
      by (simp add: handle_in_range_def word_less_nat_alt unat_of_nat)
    then show ?thesis using True 1 by (subst (1 2) find_from.simps) simp
  next
    case False
    then show ?thesis by (subst find_from.simps) simp
  qed
qed

lemma param_find_name:
  assumes "plain_table T" "handle_in_range T p"
  shows "param_find T (pi_name (info T p)) = p" "p \<noteq> PARAM_INVALID"
proof -
  have l: "unat p < length T" "length T < 2 ^ 31"
    using assms in_range_length by (auto simp: plain_table_def)
  show "param_find T (pi_name (info T p)) = p"
    using find_from_spec [OF assms(1), of 0 "unat p"] l by (simp add: param_find_def)
  show "p \<noteq> PARAM_INVALID"
  proof
    assume "p = PARAM_INVALID"
    then have "unat p = 0xffffffff" by (simp add: PARAM_INVALID_def)
    with l show False by simp
  qed
qed

section \<open>Importing arbitrary bytes\<close>

text \<open>A value that announces four bytes fits a buffer of four bytes.\<close>

lemma copy_data_within:
  assumes "unat (pending d) = 4"
  shows "\<exists>r bs d'. bson_decoder_copy_data 4 d = Some (r, bs, d') \<and> (r = 0 \<longrightarrow> length bs = 4)"
proof -
  have "(of_nat (unat (pending d)) :: u32) = of_nat 4" using assms by simp
  then have "sint (pending d) = 4" by simp
  then show ?thesis using assms by (auto simp: bson_decoder_copy_data_def fread_def)
qed

lemma import_value_cases:
  assumes "param_size T p = 4"
  shows "import_value T p heap_ok d = Exit \<or>
    (\<exists>d' v. import_value T p heap_ok d = Value d' v \<and> length v = 4)"
proof -
  have "\<exists>r bs d'. bson_decoder_copy_data (param_size T p) d = Some (r, bs, d') \<and> (r = 0 \<longrightarrow> length bs = 4)"
    if "needs_buffer T p d"
    using copy_data_within [of d] that assms by (simp add: needs_buffer_def bson_decoder_data_pending_def)
  then show ?thesis by (auto simp: import_value_def Let_def)
qed

definition import_ok :: "param_table \<Rightarrow> param_store option \<Rightarrow> bool" where
  "import_ok T so \<longleftrightarrow> (\<exists>s. so = Some s \<and> param_inv T s)"

lemma import_callback_ok:
  assumes "import_ok T so"
  shows "import_ok T (snd (snd (param_import_callback T mark d so)))"
proof -
  obtain s where s: "so = Some s" "param_inv T s" using assms by (auto simp: import_ok_def)
  have pt: "plain_table T" using s(2) by (simp add: param_inv_def)
  define p where "p = param_find T (node_name (node d))"
  define s1 where "s1 = (if needs_buffer T p d then s\<lparr>malloc_calls := Suc (malloc_calls s)\<rparr> else s)"
  have s1: "param_inv T s1" using s(2) by (simp add: s1_def param_inv_def)
  consider (eoo) "node_type (node d) = BSON_EOO" | (unknown) "node_type (node d) \<noteq> BSON_EOO" "p = PARAM_INVALID"
    | (known) "node_type (node d) \<noteq> BSON_EOO" "p \<noteq> PARAM_INVALID" by blast
  then show ?thesis
  proof cases
    case known
    then have r: "handle_in_range T p" using find_from_range [OF pt] by (auto simp: p_def param_find_def)
    have cb: "param_import_callback T mark d so =
        (case import_value T p (mallocs s (malloc_calls s)) d of
           Overrun \<Rightarrow> (-1, d, None)
         | Exit \<Rightarrow> (-1, d, Some s1)
         | Value d' v \<Rightarrow>
             (case param_set_internal T p v mark s1 of
                None \<Rightarrow> (-1, d', None) | Some (r, s') \<Rightarrow> ((if r \<noteq> 0 then -1 else 1), d', Some s')))"
      unfolding param_import_callback_def s(1) option.case Let_def p_def [symmetric] s1_def [symmetric]
      using known by simp
    from import_value_cases [OF plain_type(2) [OF pt r], of "mallocs s (malloc_calls s)" d]
    show ?thesis
    proof (elim disjE exE conjE)
      assume "import_value T p (mallocs s (malloc_calls s)) d = Exit"
      then show ?thesis unfolding cb using s1 by (simp add: import_ok_def)
    next
      fix d' v assume "import_value T p (mallocs s (malloc_calls s)) d = Value d' v" "length v = 4"
      then show ?thesis
        unfolding cb using param_set_spec [OF s1 r, of v mark] by (auto simp: import_ok_def)
    qed
  qed (use s in \<open>simp_all add: param_import_callback_def import_ok_def p_def [symmetric]\<close>)
qed

lemma copy_data_shorter:
  "bson_decoder_copy_data cap d = Some (r, bs, d') \<Longrightarrow> length (input d') \<le> length (input d)"
  by (auto simp: bson_decoder_copy_data_def fread_def split: if_splits)

lemma import_value_shorter:
  "import_value T p heap_ok d = Value d' v \<Longrightarrow> length (input d') \<le> length (input d)"
  by (auto simp: import_value_def Let_def split: if_splits option.splits dest: copy_data_shorter)

lemma import_callback_consumes: "consumes (param_import_callback T mark)"
  unfolding consumes_def param_import_callback_def Let_def
  by (auto split: option.splits import_result.splits if_splits dest: import_value_shorter)

lemma run_decoder_keeps:
  assumes "\<And>d p. P p \<Longrightarrow> P (snd (snd (cb d p)))"
  shows "P p \<Longrightarrow> run_decoder fuel cb d p = Some (r, d', p') \<Longrightarrow> P p' \<and> r \<le> 0"
proof (induction fuel arbitrary: d p)
  case (Suc fuel)
  obtain r1 d1 p1 where n: "bson_decoder_next cb d p = (r1, d1, p1)" by (cases "bson_decoder_next cb d p")
  have "P p1"
  proof -
    have "p1 = p \<or> (\<exists>d2. cb d2 p = (r1, d1, p1))"
      using n by (auto simp: bson_decoder_next_def Let_def split: if_splits option.splits)
    moreover have "P p1" if "cb d2 p = (r1, d1, p1)" for d2
      using assms [OF Suc.prems(1), of d2] that by simp
    ultimately show ?thesis using Suc.prems(1) by blast
  qed
  then show ?case using Suc n by (auto split: if_splits)
qed simp

lemma import_total:
  assumes "param_inv T s"
  shows "\<exists>r s'. param_import_internal T file junk mark s = Some (r, s') \<and> r \<le> 0 \<and> param_inv T s'"
proof (cases "fst (bson_decoder_init file junk) = 0")
  case True
  then obtain d where d: "bson_decoder_init file junk = (0, d)" by (cases "bson_decoder_init file junk") auto
  then have "length (input d) < Suc (length file)"
    by (auto simp: bson_decoder_init_def get_def fread_def Let_def split: if_splits)
  from run_decoder_ends [OF import_callback_consumes this]
  obtain r d' so where run: "run_decoder (Suc (length file)) (param_import_callback T mark) d (Some s) =
      Some (r, d', so)" by (metis prod_cases3)
  have "import_ok T so \<and> r \<le> 0"
    by (rule run_decoder_keeps [of "import_ok T" "param_import_callback T mark", OF import_callback_ok _ run]) (use assms in \<open>simp_all add: import_ok_def\<close>)
  then show ?thesis using d run by (auto simp: param_import_internal_def import_ok_def)
next
  case False
  then show ?thesis using assms
    by (cases "bson_decoder_init file junk") (simp add: param_import_internal_def)
qed

section \<open>Saving and loading\<close>

text \<open>The item an entry is saved as.\<close>

definition wb_item :: "param_table \<Rightarrow> param_wbuf_s \<Rightarrow> bson_item" where
  "wb_item T w =
     (let n = pi_name (info T (wb_param w)); v = bits_of (wb_val w)
      in if param_type T (wb_param w) = PARAM_TYPE_INT32 then Item_int n v
         else Item_double n (f64_of_f32 v))"

definition savable :: "param_table \<Rightarrow> bool" where
  "savable T \<longleftrightarrow> (\<forall>x \<in> set T. no_nul (pi_name x) \<and> length (pi_name x) < BSON_MAXNAME)"

definition no_nans :: "param_table \<Rightarrow> param_store \<Rightarrow> bool" where
  "no_nans T s \<longleftrightarrow> (\<forall>p v. changed s p = Some v \<and> param_type T p = PARAM_TYPE_FLOAT \<longrightarrow> \<not> f32_is_nan v)"

lemma savable_name:
  assumes "plain_table T" "savable T" "handle_in_range T p"
  shows "no_nul (pi_name (info T p))" "length (pi_name (info T p)) < BSON_MAXNAME"
  using assms in_range_length by (auto simp: savable_def)

lemma wb_item_carried:
  "plain_table T \<Longrightarrow> savable T \<Longrightarrow> handle_in_range T (wb_param w) \<Longrightarrow> carried (wb_item T w)"
  using savable_name by (auto simp: wb_item_def Let_def)

lemma wb_item_length:
  "plain_table T \<Longrightarrow> savable T \<Longrightarrow> handle_in_range T (wb_param w) \<Longrightarrow> length (item_bytes (wb_item T w)) \<le> 41"
  using savable_name(2) [of T "wb_param w"]
  by (auto simp: wb_item_def Let_def BSON_MAXNAME_def)

text \<open>Exporting one entry is appending its item.\<close>

lemma export_value_item:
  assumes inv: "param_inv T s" and w: "param_values s = Some ws" "w \<in> set ws"
  shows "export_value T (wb_param w) s e = Some (append_item (wb_item T w) e)"
proof -
  have pt: "plain_table T" using inv by (simp add: param_inv_def)
  have d: "distinct (map wb_param ws)" and r: "handle_in_range T (wb_param w)"
    using inv w by (auto simp: param_inv_def)
  have "first_wbuf (wb_param w) ws = Some w" using first_wbuf_iff [OF d] w(2) by simp
  then have "changed s (wb_param w) = Some (bits_of (wb_val w))"
    using w(1) by (simp add: changed_def param_find_changed_def)
  then have "param_get T (wb_param w) True s = Some (0, le32 (bits_of (wb_val w)))"
    using param_get_value [OF inv r] by simp
  then show ?thesis
    using plain_type(1) [OF pt r] by (auto simp: export_value_def wb_item_def Let_def param_types)
qed

abbreviation saved :: "param_wbuf_s \<Rightarrow> param_wbuf_s" where
  "saved w \<equiv> w\<lparr>wb_unsaved := False\<rparr>"

lemma param_inv_values:
  assumes "param_inv T s" "param_values s = Some ws" "map wb_param ws' = map wb_param ws"
    "map wb_val ws' = map wb_val ws"
  shows "param_inv T (s\<lparr>param_values := Some ws'\<rparr>)"
proof -
  have len: "length ws' = length ws" using assms(3) by (metis length_map)
  have "handle_in_range T (wb_param w) \<and> (\<exists>b. wb_val w = Bits b)" if mem: "w \<in> set ws'" for w
  proof -
    obtain i where i: "i < length ws'" "w = ws' ! i" using mem by (auto simp: in_set_conv_nth)
    have "wb_param w = wb_param (ws ! i)" "wb_val w = wb_val (ws ! i)"
      using i len assms(3,4) by (metis nth_map)+
    then show ?thesis using assms(1,2) i(1) len by (auto simp: param_inv_def)
  qed
  then show ?thesis using assms by (simp add: param_inv_def)
qed

lemma export_loop_spec:
  assumes inv: "param_inv T s" and ws: "param_values s = Some ws" and sv: "savable T"
    and k: "k + m = length ws" and e: "enc_open e" "41 * m \<le> room (out e)"
  shows "export_loop T False [k..<length ws] e s =
    Some (0, wrote (concat (map (\<lambda>w. item_bytes (wb_item T w)) (drop k ws))) e,
      s\<lparr>param_values := Some (take k ws @ map saved (drop k ws))\<rparr>)"
  using assms
proof (induction m arbitrary: k e s ws)
  case 0
  then show ?case by (simp add: wrote_def)
next
  case (Suc m)
  have pt: "plain_table T" using Suc.prems(1) by (simp add: param_inv_def)
  let ?w = "ws ! k"
  let ?ws = "ws[k := saved ?w]"
  let ?s = "s\<lparr>param_values := Some ?ws\<rparr>"
  have k: "k < length ws" using Suc.prems(4) by simp
  have r: "handle_in_range T (wb_param ?w)" using Suc.prems(1,2) k by (auto simp: param_inv_def)
  have inv: "param_inv T ?s"
    by (rule param_inv_values [OF Suc.prems(1,2)]) (simp_all add: map_update k list_update_same_conv)
  have "saved ?w \<in> set ?ws" using k by (simp add: set_update_memI)
  then have ex: "export_value T (wb_param ?w) ?s e = Some (append_item (wb_item T (saved ?w)) e)"
    using export_value_item [OF inv, of ?ws "saved ?w" e] by simp
  have it: "wb_item T (saved ?w) = wb_item T ?w" by (simp add: wb_item_def)
  have len: "length (item_bytes (wb_item T ?w)) \<le> 41" by (rule wb_item_length [OF pt Suc.prems(3) r])
  have nm: "length (item_name (wb_item T ?w)) \<le> BSON_MAXNAME"
    using savable_name(2) [OF pt Suc.prems(3) r] by (simp add: wb_item_def Let_def)
  have ap: "append_item (wb_item T ?w) e = (0, wrote (item_bytes (wb_item T ?w)) e)"
    using len nm Suc.prems(5,6) by (intro append_item_fits) simp_all
  have up: "[k..<length ws] = k # [Suc k..<length ws]" using k by (simp add: upt_conv_Cons)
  have dr: "drop k ws = ?w # drop (Suc k) ws" using k by (simp add: Cons_nth_drop_Suc)
  have "export_loop T False [Suc k..<length ?ws] (wrote (item_bytes (wb_item T ?w)) e) ?s =
    Some (0, wrote (concat (map (\<lambda>w. item_bytes (wb_item T w)) (drop (Suc k) ?ws)))
        (wrote (item_bytes (wb_item T ?w)) e),
      ?s\<lparr>param_values := Some (take (Suc k) ?ws @ map saved (drop (Suc k) ?ws))\<rparr>)"
    using inv Suc.prems(3-6) len by (intro Suc.IH) simp_all
  then show ?case
    unfolding up using Suc.prems(2) ex ap it k
    by (simp add: dr take_Suc_conv_app_nth drop_update_cancel)
qed

text \<open>An export ends with a result, whatever room the file has, and keeps the values.\<close>

lemma first_wbuf_vals:
  "map (\<lambda>w. (wb_param w, wb_val w)) ws' = map (\<lambda>w. (wb_param w, wb_val w)) ws \<Longrightarrow>
   map_option wb_val (first_wbuf p ws') = map_option wb_val (first_wbuf p ws)"
proof (induction ws arbitrary: ws')
  case (Cons w ws)
  then obtain w' vs where ws': "ws' = w' # vs" by (cases ws') simp_all
  with Cons.prems have "wb_param w' = wb_param w" "wb_val w' = wb_val w"
    "map (\<lambda>w. (wb_param w, wb_val w)) vs = map (\<lambda>w. (wb_param w, wb_val w)) ws" by simp_all
  with Cons.IH [of vs] show ?case by (simp add: ws')
qed simp

lemma changed_marked:
  assumes "param_values s = Some ws"
  shows "changed (s\<lparr>param_values := Some (ws[i := saved (ws ! i)])\<rparr>) = changed s"
proof
  fix p
  have "map (\<lambda>w. (wb_param w, wb_val w)) (ws[i := saved (ws ! i)]) = map (\<lambda>w. (wb_param w, wb_val w)) ws"
  proof (cases "i < length ws")
    case True
    then show ?thesis by (simp add: map_update list_update_same_conv)
  next
    case False
    then have "ws[i := saved (ws ! i)] = ws" by (intro list_update_beyond) simp
    then show ?thesis by (simp only:)
  qed
  then have "map_option wb_val (first_wbuf p (ws[i := saved (ws ! i)])) = map_option wb_val (first_wbuf p ws)"
    by (rule first_wbuf_vals)
  then have "map_option bits_of (map_option wb_val (first_wbuf p (ws[i := saved (ws ! i)]))) =
      map_option bits_of (map_option wb_val (first_wbuf p ws))" by (rule arg_cong)
  then show "changed (s\<lparr>param_values := Some (ws[i := saved (ws ! i)])\<rparr>) p = changed s p"
    using assms by (simp add: changed_def param_find_changed_def option.map_comp comp_def)
qed

lemma export_loop_total:
  assumes "param_inv T s" "param_values s = Some ws" "\<forall>i \<in> set is. i < length ws"
  shows "\<exists>r e' s'. export_loop T only_unsaved is e s = Some (r, e', s') \<and> param_inv T s' \<and> changed s' = changed s"
  using assms
proof (induction "is" arbitrary: e s ws)
  case (Cons i "is")
  let ?ws = "ws[i := saved (ws ! i)]"
  let ?s = "s\<lparr>param_values := Some ?ws\<rparr>"
  have i: "i < length ws" using Cons.prems(3) by simp
  have inv: "param_inv T ?s"
    by (rule param_inv_values [OF Cons.prems(1,2)]) (simp_all add: map_update i list_update_same_conv)
  have c: "changed ?s = changed s" by (rule changed_marked [OF Cons.prems(2)])
  have "saved (ws ! i) \<in> set ?ws" using i by (simp add: set_update_memI)
  then have ex: "export_value T (wb_param (ws ! i)) ?s e = Some (append_item (wb_item T (saved (ws ! i))) e)"
    using export_value_item [OF inv, of ?ws "saved (ws ! i)" e] by simp
  obtain r e1 where a: "append_item (wb_item T (saved (ws ! i))) e = (r, e1)" by fastforce
  have skip: "\<exists>r e' s'. export_loop T only_unsaved is e s = Some (r, e', s') \<and> param_inv T s' \<and> changed s' = changed s"
    using Cons.IH [OF Cons.prems(1,2)] Cons.prems(3) by simp
  have go: "\<exists>r e' s'. export_loop T only_unsaved is e1 ?s = Some (r, e', s') \<and> param_inv T s' \<and> changed s' = changed s"
    using Cons.IH [OF inv, of ?ws e1] Cons.prems(3) c by simp
  show ?case
    using Cons.prems(2) skip go inv c by (auto simp: ex a Let_def)
qed simp

lemma param_export_total:
  assumes "param_inv T s"
  shows "\<exists>r f' s'. param_export T f only_unsaved s = Some (r, f', s') \<and> param_inv T s' \<and> changed s' = changed s"
proof (cases "param_values s")
  case None
  then show ?thesis using assms by (auto simp: param_export_def Let_def split: prod.splits)
next
  case (Some ws)
  obtain r e' s' where "export_loop T only_unsaved [0..<length ws] (snd (bson_encoder_init f)) s = Some (r, e', s')"
    "param_inv T s'" "changed s' = changed s"
    using export_loop_total [OF assms Some, of "[0..<length ws]" only_unsaved "snd (bson_encoder_init f)"] by auto
  then show ?thesis using Some by (auto simp: param_export_def Let_def split: prod.splits)
qed

text \<open>Importing the items of some entries sets their parameters.\<close>

definition loads :: "param_table \<Rightarrow> param_wbuf_s list \<Rightarrow> (param_t \<Rightarrow> u32 option) \<Rightarrow> param_t \<Rightarrow> u32 option" where
  "loads T ws m = fold (\<lambda>w m. m(wb_param w \<mapsto> bits_of (wb_val w))) ws m"

lemma import_item:
  assumes inv: "param_inv T s" and w: "handle_in_range T (wb_param w)" and sv: "savable T"
    and nan: "param_type T (wb_param w) = PARAM_TYPE_FLOAT \<Longrightarrow> \<not> f32_is_nan (bits_of (wb_val w))"
    and d: "between_items d" "input d = item_bytes (wb_item T w) @ r"
  shows "\<exists>d' s'. bson_decoder_next (param_import_callback T True) d (Some s) = (1, d', Some s') \<and>
    between_items d' \<and> input d' = r \<and> param_inv T s' \<and>
    changed s' = (changed s)(wb_param w \<mapsto> bits_of (wb_val w)) \<and>
    (\<forall>q. param_value_unsaved q s' \<longrightarrow> param_value_unsaved q s)"
proof -
  have pt: "plain_table T" using inv by (simp add: param_inv_def)
  let ?p = "wb_param w" and ?v = "bits_of (wb_val w)"
  obtain d' where d': "bson_decoder_next (param_import_callback T True) d (Some s) =
      param_import_callback T True d' (Some s)" "item_of d' = Some (wb_item T w, r)"
    "dec_open d'" "nesting d' = 1" "node_type (node d') \<noteq> BSON_EOO" "pending d' = 0" "input d' = r"
    using next_item [OF d wb_item_carried [OF pt sv w], of "param_import_callback T True" "Some s"]
    by (auto simp: wb_item_def Let_def split: if_splits)
  have n: "node_name (node d') = pi_name (info T ?p)"
    "param_type T ?p = PARAM_TYPE_INT32 \<longrightarrow> node_type (node d') = BSON_INT \<and> node_i (node d') = ?v"
    "param_type T ?p \<noteq> PARAM_TYPE_INT32 \<longrightarrow> node_type (node d') = BSON_DOUBLE \<and>
       node_d (node d') = f64_of_f32 ?v"
    using d'(2) by (auto simp: item_of_def wb_item_def Let_def split: if_splits option.splits)
  have t: "param_type T ?p = PARAM_TYPE_INT32 \<or> param_type T ?p = PARAM_TYPE_FLOAT"
    using plain_type(1) [OF pt w] .
  have iv: "import_value T ?p h d' = Value d' (le32 ?v)" for h
    using t n nan f32_of_f64_of_f32 by (auto simp: import_value_def bson_types param_types)
  have nb: "\<not> needs_buffer T ?p d'" using t n by (auto simp: needs_buffer_def bson_types)
  obtain s' where s': "param_set_internal T ?p (le32 ?v) True s = Some (0, s')" "param_inv T s'"
    "changed s' = (changed s)(?p \<mapsto> ?v)"
    "\<forall>q. param_value_unsaved q s' = (if q = ?p then False else param_value_unsaved q s)"
    using param_set_spec [OF inv w, of "le32 ?v" True] by auto
  have "param_import_callback T True d' (Some s) = (1, d', Some s')"
    using d'(5) n(1) param_find_name [OF pt w] iv nb s'(1)
    by (simp add: param_import_callback_def Let_def)
  then show ?thesis using d' s' by (auto simp: between_items_def split: if_splits)
qed

lemma import_items:
  assumes "param_inv T s" "savable T" "\<forall>w \<in> set ws. handle_in_range T (wb_param w) \<and>
      (param_type T (wb_param w) = PARAM_TYPE_FLOAT \<longrightarrow> \<not> f32_is_nan (bits_of (wb_val w)))"
    and "between_items d" "input d = concat (map (\<lambda>w. item_bytes (wb_item T w)) ws) @ BSON_EOO # r"
    and "length ws < fuel"
  shows "\<exists>d' s'. run_decoder fuel (param_import_callback T True) d (Some s) = Some (0, d', Some s') \<and>
    param_inv T s' \<and> changed s' = loads T ws (changed s) \<and>
    (\<forall>q. param_value_unsaved q s' \<longrightarrow> param_value_unsaved q s)"
  using assms
proof (induction ws arbitrary: s d fuel)
  case Nil
  then obtain f where "fuel = Suc f" by (cases fuel) auto
  with Nil show ?case by (simp add: next_end param_import_callback_def loads_def)
next
  case (Cons w ws)
  then obtain f where f: "fuel = Suc f" by (cases fuel) auto
  have inp: "input d = item_bytes (wb_item T w) @ concat (map (\<lambda>w. item_bytes (wb_item T w)) ws) @ BSON_EOO # r"
    using Cons.prems(5) by simp
  have w: "handle_in_range T (wb_param w)"
    "param_type T (wb_param w) = PARAM_TYPE_FLOAT \<Longrightarrow> \<not> f32_is_nan (bits_of (wb_val w))"
    using Cons.prems(3) by simp_all
  obtain d1 s1 where 1: "bson_decoder_next (param_import_callback T True) d (Some s) = (1, d1, Some s1)"
    "between_items d1" "input d1 = concat (map (\<lambda>w. item_bytes (wb_item T w)) ws) @ BSON_EOO # r"
    "param_inv T s1" "changed s1 = (changed s)(wb_param w \<mapsto> bits_of (wb_val w))"
    "\<forall>q. param_value_unsaved q s1 \<longrightarrow> param_value_unsaved q s"
    using import_item [OF Cons.prems(1) w(1) Cons.prems(2) w(2) Cons.prems(4) inp] by blast
  have "\<exists>d' s'. run_decoder f (param_import_callback T True) d1 (Some s1) = Some (0, d', Some s') \<and>
    param_inv T s' \<and> changed s' = loads T ws (changed s1) \<and>
    (\<forall>q. param_value_unsaved q s' \<longrightarrow> param_value_unsaved q s1)"
    using Cons.prems(2,3,6) 1 f by (intro Cons.IH) simp_all
  then show ?case using 1 f by (auto simp: loads_def)
qed

lemma loads_lookup:
  "distinct (map wb_param ws) \<Longrightarrow> loads T ws m p =
   (case first_wbuf p ws of None \<Rightarrow> m p | Some w \<Rightarrow> Some (bits_of (wb_val w)))"
proof (induction ws arbitrary: m)
  case (Cons w ws)
  have "loads T (w # ws) m p = loads T ws (m(wb_param w \<mapsto> bits_of (wb_val w))) p" by (simp add: loads_def)
  also have "\<dots> = (case first_wbuf p ws of None \<Rightarrow> (m(wb_param w \<mapsto> bits_of (wb_val w))) p
      | Some w \<Rightarrow> Some (bits_of (wb_val w)))"
    using Cons by simp
  finally show ?case using Cons.prems first_wbuf_None [of "wb_param w" ws]
    by (auto simp: image_iff split: option.splits)
qed (simp add: loads_def)

text \<open>What was exported loads.\<close>

lemma saved_file_loads:
  assumes "param_inv T s" "savable T" "no_nans T s"
    and "param_values s = Some ws" "written f = []" "41 * length ws + 5 \<le> room f"
    and "param_inv T t"
  shows "\<exists>file s1 s2. param_export T f False s = Some (0, file, s1) \<and> changed s1 = changed s \<and>
    param_load T (written file) junk t = Some (0, s2) \<and> changed s2 = changed s \<and>
    (\<forall>q. \<not> param_value_unsaved q s2)"
proof -
  let ?e = "wrote (le32 0) \<lparr>enc_open = True, out = f\<rparr>"
  let ?body = "concat (map (\<lambda>w. item_bytes (wb_item T w)) ws)"
  have pt: "plain_table T" using assms(1) by (simp add: param_inv_def)
  have dist: "distinct (map wb_param ws)" using assms(1,4) by (simp add: param_inv_def)
  have ran: "\<forall>w \<in> set ws. handle_in_range T (wb_param w)" using assms(1,4) by (simp add: param_inv_def)
  have look: "changed s p = map_option (\<lambda>w. bits_of (wb_val w)) (first_wbuf p ws)" for p
    using assms(4) by (simp add: changed_def param_find_changed_def)
  have i: "bson_encoder_init f = (0, ?e)"
    using assms(6) by (simp add: bson_encoder_init_def writer_defs put_fits)
  have x: "export_loop T False [0..<length ws] ?e s = Some (0, wrote ?body ?e,
      s\<lparr>param_values := Some (map saved ws)\<rparr>)"
    using export_loop_spec [OF assms(1,4,2), of 0 "length ws" ?e] assms(6) by simp
  have "length ?body \<le> 41 * length ws"
    using ran wb_item_length [OF pt assms(2)] by (induction ws) fastforce+
  then have fini: "bson_encoder_fini (wrote ?body ?e) = (0, wrote [BSON_EOO] (wrote ?body ?e))"
    using assms(6) by (simp add: bson_encoder_fini_def writer_defs put_fits)
  let ?s1 = "s\<lparr>param_values := Some (map saved ws)\<rparr>"
  have "first_wbuf p (map saved ws) = map_option saved (first_wbuf p ws)" for p
    by (induction ws) auto
  then have c1: "changed ?s1 = changed s"
    by (simp add: fun_eq_iff look changed_def [of ?s1] param_find_changed_def option.map_comp comp_def)
  have ex: "param_export T f False s = Some (0, out (wrote [BSON_EOO] (wrote ?body ?e)), ?s1)"
    by (simp add: param_export_def i Let_def assms(4) x fini del: wrote_wrote)
  let ?t = "param_reset_all t"
  let ?file = "le32 0 @ ?body @ [BSON_EOO]"
  let ?d = "\<lparr>dec_open = True, input = ?body @ [BSON_EOO], nesting = 1,
    node = junk\<lparr>node_type := BSON_UNDEFINED\<rparr>, pending = 0\<rparr>"
  have j: "bson_decoder_init ?file junk = (0, ?d)"
    by (simp add: bson_decoder_init_def get_spec [of "le32 0"])
  have rt: "param_inv T ?t" "changed ?t = Map.empty" using param_reset_all_spec [OF assms(7)] by simp_all
  have unt: "\<not> param_value_unsaved q ?t" for q
    by (simp add: param_value_unsaved_def param_reset_all_def param_find_changed_def)
  have "changed s (wb_param w) = Some (bits_of (wb_val w))" if "w \<in> set ws" for w
    using first_wbuf_iff [OF dist, of "wb_param w" w] that look by simp
  then have good: "\<forall>w \<in> set ws. handle_in_range T (wb_param w) \<and>
      (param_type T (wb_param w) = PARAM_TYPE_FLOAT \<longrightarrow> \<not> f32_is_nan (bits_of (wb_val w)))"
    using ran assms(3) unfolding no_nans_def by blast
  have "length ws \<le> length ?body"
    using bson.length_bound [of "map (wb_item T) ws"] by (simp add: comp_def)
  then have fuel: "length ws < Suc (length ?file)" by simp
  have bi: "between_items ?d" by (simp add: between_items_def bson_types)
  have inp: "input ?d = ?body @ BSON_EOO # []" by simp
  obtain d' s2 where s2: "run_decoder (Suc (length ?file)) (param_import_callback T True) ?d (Some ?t) =
      Some (0, d', Some s2)" "changed s2 = loads T ws (changed ?t)"
      "\<forall>q. param_value_unsaved q s2 \<longrightarrow> param_value_unsaved q ?t"
    using import_items [OF rt(1) assms(2) good bi inp fuel] by blast
  have "changed s2 = changed s"
    by (rule ext) (simp add: s2(2) loads_lookup [OF dist] look rt(2) split: option.splits)
  moreover have "param_load T ?file junk t = Some (0, s2)"
    unfolding param_load_def param_import_internal_def j Let_def prod.case s2(1) by simp
  ultimately show ?thesis using ex c1 s2(3) unt assms(5) by auto
qed

section \<open>Properties\<close>

text \<open>A table and stores for the examples.\<close>

definition example_table :: param_table where
  "example_table = [\<lparr>pi_name = ascii ''SYS_ID'', pi_type = PARAM_TYPE_INT32, pi_val = Bits 1\<rparr>,
     \<lparr>pi_name = ascii ''BAT_V_EMPTY'', pi_type = PARAM_TYPE_FLOAT, pi_val = Bits 0x404CCCCD\<rparr>]"

definition example_store :: param_store where
  "example_store = \<lparr>param_values = None, updates = [], p_clock = of_nat, p_reads = 0,
     mallocs = (\<lambda>k. True), malloc_calls = 0\<rparr>"

definition example_changed :: param_store where
  "example_changed = example_store\<lparr>param_values :=
     Some [\<lparr>wb_param = 0, wb_val = Bits 7, wb_unsaved = True\<rparr>,
           \<lparr>wb_param = 1, wb_val = Bits 0x40800000, wb_unsaved = True\<rparr>]\<rparr>"

lemma example_plain: "plain_table example_table"
  by (simp add: plain_table_def example_table_def ascii_def param_types)

lemma example_savable: "savable example_table"
  by (simp add: savable_def example_table_def ascii_def no_nul_def BSON_MAXNAME_def)

lemma example_changed_inv: "param_inv example_table example_changed"
  using example_plain
  by (simp add: param_inv_def example_changed_def in_range_length) (simp add: example_table_def)

text \<open>
  C9. The store is a map over its defaults. After any sequence of settings and resettings of everything from the start, reading a
  parameter gives the value set last since everything was last reset, and the default of the table when there is none; settings of
  handles outside the table change nothing. (\<open>param_reset\<close>, for one parameter, calls a function that does not exist, cannot be
  linked, and is not one of the operations.)
\<close>

theorem param_values_refine:
  assumes "param_start T s"
  shows "\<exists>s'. run_steps (param_step T) ops s = Some s' \<and>
    (\<forall>p. handle_in_range T p \<longrightarrow>
       param_get T p True s' = Some (0, le32 (case fold (param_spec T) ops Map.empty p of
         None \<Rightarrow> default_bits T p | Some v \<Rightarrow> v)) \<and>
       param_value_is_default p s' = (fold (param_spec T) ops Map.empty p = None))"
proof -
  have e: "changed s = Map.empty"
    using assms by (simp add: param_start_def changed_def param_find_changed_def fun_eq_iff)
  obtain s' where s': "run_steps (param_step T) ops s = Some s'" "param_inv T s'"
    "changed s' = fold (param_spec T) ops Map.empty"
    using params.run_refines [OF assms, of ops] e by (auto simp: list_all_iff)
  have "param_value_is_default p s' = (changed s' p = None)" for p
    by (simp add: param_value_is_default_def changed_def split: option.splits)
  then show ?thesis using s' param_get_value [OF s'(2)] by auto
qed

theorem param_values_refine_witness:
  "\<exists>s'. run_steps (param_step example_table) [Set_param 0 5, Reset_all, Set_param 1 9] example_store = Some s' \<and>
     param_get example_table 1 True s' = Some (0, le32 9) \<and>
     param_get example_table 0 True s' = Some (0, le32 1)"
proof -
  have st: "param_start example_table example_store"
    by (simp add: param_start_def example_plain example_store_def)
  have r: "handle_in_range example_table 0" "handle_in_range example_table 1"
    by (simp_all add: in_range_length example_plain) (simp_all add: example_table_def)
  from param_values_refine [OF st, of "[Set_param 0 5, Reset_all, Set_param 1 9]"] r
  show ?thesis by (auto simp: default_bits_def example_table_def)
qed

text \<open>
  C10. Saving and loading. Where there is room for the file, exporting all parameters succeeds,
  and loading what was written, into any store, gives back exactly the changed values, all
  of them marked as saved. (Names must be shorter than 32 bytes, and no float may be a NaN.)
\<close>

theorem save_load_round_trip:
  assumes "param_inv T s" "savable T" "no_nans T s"
    and "param_values s = Some ws" "written f = []" "41 * length ws + 5 \<le> room f"
    and "param_inv T t"
  shows "\<exists>file s1 s2. param_export T f False s = Some (0, file, s1) \<and> changed s1 = changed s \<and>
    param_load T (written file) junk t = Some (0, s2) \<and> changed s2 = changed s \<and>
    (\<forall>q. \<not> param_value_unsaved q s2)"
  by (rule saved_file_loads [OF assms])

theorem save_load_round_trip_witness:
  "\<exists>file s1 s2. param_export example_table \<lparr>written = [], room = 4096\<rparr> False example_changed = Some (0, file, s1) \<and>
     param_load example_table (written file) undefined example_store = Some (0, s2) \<and>
     changed s2 0 = Some 7 \<and> changed s2 1 = Some 0x40800000"
proof -
  let ?ws = "[\<lparr>wb_param = 0, wb_val = Bits 7, wb_unsaved = True\<rparr>,
    \<lparr>wb_param = 1, wb_val = Bits 0x40800000, wb_unsaved = True\<rparr>]"
  have v: "param_values example_changed = Some ?ws" by (simp add: example_changed_def)
  have c: "changed example_changed 0 = Some 7" "changed example_changed 1 = Some 0x40800000"
    by (simp_all add: changed_def param_find_changed_def v)
  have n: "no_nans example_table example_changed"
    by (auto simp: no_nans_def changed_def param_find_changed_def v f32_is_nan_def split: if_splits)
  have i: "param_inv example_table example_store"
    by (simp add: param_inv_def example_plain example_store_def)
  show ?thesis
    using save_load_round_trip [OF example_changed_inv example_savable n v _ _ i,
        of "\<lparr>written = [], room = 4096\<rparr>" undefined] c by auto
qed

text \<open>
  C11. Importing any bytes whatsoever ends, and leaves a well-formed store; its result is 0 or -1. It has a result, so
  nothing is read or written outside an object on the way: no value is copied beyond the buffer allocated for it.
\<close>

theorem import_any_bytes:
  assumes "param_inv T s"
  shows "\<exists>r s'. param_import T file junk s = Some (r, s') \<and> r \<le> 0 \<and> param_inv T s'"
  unfolding param_import_def by (rule import_total [OF assms])

theorem import_any_bytes_witness:
  "\<exists>r s'. param_import example_table [1, 2, 3, 4, 5, 255, 0, 17] undefined example_changed = Some (r, s') \<and>
     r \<le> 0 \<and> param_inv example_table s'"
  by (rule import_any_bytes [OF example_changed_inv])

text \<open>
  Parameters that are structures cannot be read back. The pointer stored for them is
  followed only for the type value that encodes the size 0, so for every structure \<open>param_get\<close>
  copies from the address of the pointer itself, although \<open>param_set\<close> has stored the value.
\<close>

theorem struct_parameter_unreadable:
  assumes "handle_in_range T p" "is_struct (pi_type (info T p))" "pi_type (info T p) \<noteq> PARAM_TYPE_STRUCT"
    and "length val = pi_type (info T p) - PARAM_TYPE_STRUCT" "mallocs s (malloc_calls s)"
    and "param_values s = None"
  shows "\<exists>s'. param_set T p val s = Some (0, s') \<and>
    param_find_changed p s' = Some \<lparr>wb_param = p, wb_val = Pointer (Some val), wb_unsaved = True\<rparr> \<and>
    param_get T p True s' = None"
proof -
  have t: "param_type T p = pi_type (info T p)" "param_size T p = length val"
    using assms(1-4) by (auto simp: param_type_def param_size_def is_struct_def param_types)
  have "0 < length val" using assms(2-4) by (auto simp: is_struct_def)
  then show ?thesis
    using assms t
    by (auto simp: param_set_def param_set_internal_def with_entry_def store_value_def is_struct_def
        param_types param_find_changed_def param_get_def param_get_value_ptr_def Let_def)
qed

theorem struct_parameter_unreadable_witness:
  "\<exists>s'. param_set [\<lparr>pi_name = [65], pi_type = 108, pi_val = Pointer None\<rparr>] 0 [1, 2, 3, 4, 5, 6, 7, 8] example_store = Some (0, s') \<and>
     param_get [\<lparr>pi_name = [65], pi_type = 108, pi_val = Pointer None\<rparr>] 0 True s' = None"
  using struct_parameter_unreadable [of "[\<lparr>pi_name = [65], pi_type = 108, pi_val = Pointer None\<rparr>]" 0
      "[1, 2, 3, 4, 5, 6, 7, 8]" example_store]
  by (auto simp: handle_in_range_def param_info_count_def is_struct_def param_types example_store_def)

text \<open>
  A failed save loses changes. The export marks an entry as saved before it writes it: when
  the medium is full, the export answers -1, but the entry it could not write does not
  count as unsaved any more.
\<close>

theorem failed_export_marks_saved:
  assumes "param_inv T s" "savable T" "param_values s = Some (w # ws)" "wb_unsaved w" "room f < 10"
  shows "\<exists>file s'. param_export T f only_unsaved s = Some (-1, file, s') \<and>
    param_value_unsaved (wb_param w) s \<and> \<not> param_value_unsaved (wb_param w) s'"
proof -
  let ?s1 = "s\<lparr>param_values := Some (saved w # ws)\<rparr>"
  have pt: "plain_table T" using assms(1) by (simp add: param_inv_def)
  have r: "handle_in_range T (wb_param w)" using assms(1,3) by (auto simp: param_inv_def)
  have inv: "param_inv T ?s1" by (rule param_inv_values [OF assms(1,3)]) simp_all
  define e where "e = snd (bson_encoder_init f)"
  have e: "enc_open e \<longrightarrow> room (out e) < 6"
    using assms(5) by (auto simp: e_def bson_encoder_init_def writer_defs put_cases)
  have ex: "export_value T (wb_param w) ?s1 e = Some (append_item (wb_item T (saved w)) e)"
    using export_value_item [OF inv, of "saved w # ws" "saved w" e] by simp
  have "6 \<le> length (item_bytes (wb_item T (saved w)))" by (simp add: wb_item_def Let_def)
  then have "fst (append_item (wb_item T (saved w)) e) = -1"
    using e by (cases "enc_open e") (auto simp: append_item_closed append_item_short)
  then obtain e' where "append_item (wb_item T (saved w)) e = (-1, e')"
    by (cases "append_item (wb_item T (saved w)) e") auto
  then have "export_loop T only_unsaved [0..<length (w # ws)] e s = Some (-1, e', ?s1)"
    using ex assms(3,4) by (simp add: upt_conv_Cons del: upt_Suc)
  then have "param_export T f only_unsaved s = Some (-1, out e', ?s1)"
    by (simp add: param_export_def e_def [symmetric] assms(3) Let_def del: upt_Suc)
  then show ?thesis
    using assms(3,4) by (simp add: param_value_unsaved_def param_find_changed_def)
qed

theorem failed_export_marks_saved_witness:
  "\<exists>file s'. param_export example_table \<lparr>written = [], room = 8\<rparr> True example_changed = Some (-1, file, s') \<and>
     param_value_unsaved 0 example_changed \<and> \<not> param_value_unsaved 0 s'"
  using failed_export_marks_saved [OF example_changed_inv example_savable, of _ _ "\<lparr>written = [], room = 8\<rparr>" True]
  by (simp add: example_changed_def)

end
