(* ===== verification/Perf_Counter.thy ===== *)
theory Perf_Counter
  imports C_Prelude
begin

text \<open>
  Performance counters: \<open>apps/systemlib/perf_counter.c\<close>. A handle is NULL (\<open>None\<close>) or
  the address of a counter; the heap maps addresses to counters and the list \<open>perf_counters\<close>
  holds the known ones, newest first. An operation on an address that holds no counter is
  \<open>None\<close>. The functions that only print are not modelled.
\<close>

record perf_ctr_elapsed =
  event_count :: u64
  time_start :: u64
  time_total :: u64
  time_least :: u64
  time_most :: u64

datatype perf_ctr =
    PC_COUNT u64
  | PC_ELAPSED perf_ctr_elapsed

datatype perf_counter_type = TYPE_PC_COUNT | TYPE_PC_ELAPSED | TYPE_OTHER

record perf_state =
  ctr_heap :: "nat \<Rightarrow> (string \<times> perf_ctr) option"
  perf_counters :: "nat list"
  ctr_next :: nat
  ctr_memory :: bool
  pf_clock :: "nat \<Rightarrow> u64"
  pf_reads :: nat

text \<open>A zeroed counter of the type; \<open>ctr_memory\<close> says whether \<open>calloc\<close> finds memory.\<close>

fun zeroed :: "perf_counter_type \<Rightarrow> perf_ctr option" where
  "zeroed TYPE_PC_COUNT = Some (PC_COUNT 0)"
| "zeroed TYPE_PC_ELAPSED = Some (PC_ELAPSED \<lparr>event_count = 0, time_start = 0, time_total = 0,
     time_least = 0, time_most = 0\<rparr>)"
| "zeroed TYPE_OTHER = None"

definition perf_alloc :: "perf_counter_type \<Rightarrow> string \<Rightarrow> perf_state \<Rightarrow> nat option \<times> perf_state" where
  "perf_alloc ty name st =
     (case zeroed ty of
        Some c \<Rightarrow>
          if ctr_memory st
          then (Some (ctr_next st), st\<lparr>ctr_heap := (ctr_heap st)(ctr_next st \<mapsto> (name, c)),
                  perf_counters := ctr_next st # perf_counters st, ctr_next := Suc (ctr_next st)\<rparr>)
          else (None, st)
      | None \<Rightarrow> (None, st))"

definition perf_free :: "nat option \<Rightarrow> perf_state \<Rightarrow> perf_state option" where
  "perf_free handle st =
     (case handle of None \<Rightarrow> Some st
      | Some h \<Rightarrow> if ctr_heap st h = None then None
                  else Some (st\<lparr>ctr_heap := (ctr_heap st)(h := None),
                         perf_counters := remove1 h (perf_counters st)\<rparr>))"

definition on_counter :: "(perf_ctr \<Rightarrow> perf_ctr) \<Rightarrow> nat \<Rightarrow> perf_state \<Rightarrow> perf_state option" where
  "on_counter f h st = map_option (\<lambda>(name, c). st\<lparr>ctr_heap := (ctr_heap st)(h \<mapsto> (name, f c))\<rparr>) (ctr_heap st h)"

fun count_event :: "perf_ctr \<Rightarrow> perf_ctr" where
  "count_event (PC_COUNT n) = PC_COUNT (n + 1)"
| "count_event c = c"

definition perf_count :: "nat option \<Rightarrow> perf_state \<Rightarrow> perf_state option" where
  "perf_count handle st = (case handle of None \<Rightarrow> Some st | Some h \<Rightarrow> on_counter count_event h st)"

fun is_elapsed :: "perf_ctr \<Rightarrow> bool" where
  "is_elapsed (PC_ELAPSED e) = True"
| "is_elapsed (PC_COUNT n) = False"

text \<open>Only a counter of elapsed times reads the clock.\<close>

definition timed :: "(u64 \<Rightarrow> perf_ctr_elapsed \<Rightarrow> perf_ctr_elapsed) \<Rightarrow> nat option \<Rightarrow> perf_state \<Rightarrow> perf_state option" where
  "timed f handle st =
     (case handle of None \<Rightarrow> Some st
      | Some h \<Rightarrow>
          (case ctr_heap st h of None \<Rightarrow> None
           | Some (name, PC_ELAPSED e) \<Rightarrow>
               Some (st\<lparr>ctr_heap := (ctr_heap st)(h \<mapsto> (name, PC_ELAPSED (f (pf_clock st (pf_reads st)) e))),
                        pf_reads := Suc (pf_reads st)\<rparr>)
           | Some (name, PC_COUNT n) \<Rightarrow> Some st))"

definition perf_begin :: "nat option \<Rightarrow> perf_state \<Rightarrow> perf_state option" where
  "perf_begin = timed (\<lambda>now e. e\<lparr>time_start := now\<rparr>)"

definition account :: "u64 \<Rightarrow> perf_ctr_elapsed \<Rightarrow> perf_ctr_elapsed" where
  "account elapsed e = e\<lparr>event_count := event_count e + 1, time_total := time_total e + elapsed,
     time_least := (if elapsed < time_least e \<or> time_least e = 0 then elapsed else time_least e),
     time_most := (if time_most e < elapsed then elapsed else time_most e)\<rparr>"

definition perf_end :: "nat option \<Rightarrow> perf_state \<Rightarrow> perf_state option" where
  "perf_end = timed (\<lambda>now e. account (now - time_start e) e)"

section \<open>Measurements\<close>

text \<open>The durations of \<open>n\<close> measurements in a row, the first one from clock reading \<open>r\<close> on.\<close>

definition durations :: "(nat \<Rightarrow> u64) \<Rightarrow> nat \<Rightarrow> nat \<Rightarrow> u64 list" where
  "durations clk r n = map (\<lambda>k. clk (r + 2 * k + 1) - clk (r + 2 * k)) [0..<n]"

lemma durations_Suc:
  "durations clk r (Suc n) = durations clk r n @ [clk (r + 2 * n + 1) - clk (r + 2 * n)]"
  by (simp add: durations_def)

fun measure_times :: "nat \<Rightarrow> nat \<Rightarrow> perf_state \<Rightarrow> perf_state option" where
  "measure_times h 0 st = Some st"
| "measure_times h (Suc n) st =
     Option.bind (measure_times h n st) (\<lambda>st1. Option.bind (perf_begin (Some h) st1) (perf_end (Some h)))"

definition statistics_of :: "perf_ctr_elapsed \<Rightarrow> u64 list \<Rightarrow> bool" where
  "statistics_of e ds \<longleftrightarrow> event_count e = of_nat (length ds) \<and> time_total e = sum_list ds \<and>
     (ds \<noteq> [] \<longrightarrow> time_least e = Min (set ds) \<and> time_most e = Max (set ds)) \<and>
     (ds = [] \<longrightarrow> time_least e = 0 \<and> time_most e = 0)"

lemma account_statistics:
  assumes "statistics_of e ds" "0 \<notin> set ds"
  shows "statistics_of (account d (e\<lparr>time_start := t\<rparr>)) (ds @ [d])"
proof (cases "ds = []")
  case True
  then show ?thesis using assms(1)
    by (auto simp: statistics_of_def account_def not_less)
next
  case False
  have old: "event_count e = of_nat (length ds)" "time_total e = sum_list ds"
    "time_least e = Min (set ds)" "time_most e = Max (set ds)"
    using assms(1) False by (simp_all add: statistics_of_def)
  have "Min (set ds) \<in> set ds" using False by (intro Min_in) simp_all
  then have nz: "Min (set ds) \<noteq> 0" using assms(2) by metis
  have least: "Min (set (ds @ [d])) = min d (Min (set ds))"
    and most: "Max (set (ds @ [d])) = max d (Max (set ds))"
    using False by (simp_all add: Min_insert Max_insert)
  have "time_least (account d (e\<lparr>time_start := t\<rparr>)) = min d (Min (set ds))"
    using nz by (auto simp: account_def old min_def)
  moreover have "time_most (account d (e\<lparr>time_start := t\<rparr>)) = max d (Max (set ds))"
    by (auto simp: account_def old max_def not_less)
  moreover have "event_count (account d (e\<lparr>time_start := t\<rparr>)) = of_nat (length (ds @ [d]))"
    "time_total (account d (e\<lparr>time_start := t\<rparr>)) = sum_list (ds @ [d])"
    by (simp_all add: account_def old)
  ultimately show ?thesis
    unfolding statistics_of_def least most by simp
qed

text \<open>
  A counter of elapsed times, new and then used for any number of measurements that
  each take some time, holds their number, their sum, the shortest and the longest of them.
\<close>

theorem elapsed_statistics:
  assumes "ctr_heap st h = Some (name, c)" "zeroed TYPE_PC_ELAPSED = Some c"
    and "0 \<notin> set (durations (pf_clock st) (pf_reads st) n)"
  shows "\<exists>st' e. measure_times h n st = Some st' \<and> ctr_heap st' h = Some (name, PC_ELAPSED e) \<and>
    statistics_of e (durations (pf_clock st) (pf_reads st) n)"
proof -
  have "\<exists>st' e. measure_times h n st = Some st' \<and> ctr_heap st' h = Some (name, PC_ELAPSED e) \<and>
    pf_clock st' = pf_clock st \<and> pf_reads st' = pf_reads st + 2 * n \<and>
    statistics_of e (durations (pf_clock st) (pf_reads st) n)"
    using assms(3)
  proof (induction n)
    case 0
    then show ?case using assms(1,2) by (auto simp: durations_def statistics_of_def)
  next
    case (Suc n)
    then obtain st1 e where 1: "measure_times h n st = Some st1" "ctr_heap st1 h = Some (name, PC_ELAPSED e)"
      "pf_clock st1 = pf_clock st" "pf_reads st1 = pf_reads st + 2 * n"
      "statistics_of e (durations (pf_clock st) (pf_reads st) n)"
      by (auto simp: durations_Suc)
    have "statistics_of (account d (e\<lparr>time_start := t\<rparr>)) (durations (pf_clock st) (pf_reads st) n @ [d])" for d t
      using account_statistics [OF 1(5)] Suc.prems by (auto simp: durations_Suc)
    then show ?case using 1 by (simp add: perf_begin_def perf_end_def timed_def durations_Suc)
  qed
  then show ?thesis by blast
qed

theorem elapsed_statistics_witness:
  "\<exists>st' e. measure_times 0 2 \<lparr>ctr_heap = Map.empty(0 \<mapsto> (''loop'', PC_ELAPSED \<lparr>event_count = 0,
       time_start = 0, time_total = 0, time_least = 0, time_most = 0\<rparr>)), perf_counters = [0], ctr_next = 1,
       ctr_memory = True, pf_clock = (\<lambda>k. of_nat (k * k)), pf_reads = 0\<rparr> = Some st' \<and>
     ctr_heap st' 0 = Some (''loop'', PC_ELAPSED e) \<and> event_count e = 2 \<and> time_total e = 6 \<and>
     time_least e = 1 \<and> time_most e = 5"
proof -
  define st :: perf_state where "st = \<lparr>ctr_heap = Map.empty(0 \<mapsto> (''loop'', PC_ELAPSED \<lparr>event_count = 0,
       time_start = 0, time_total = 0, time_least = 0, time_most = 0\<rparr>)), perf_counters = [0], ctr_next = 1,
       ctr_memory = True, pf_clock = (\<lambda>k. of_nat (k * k)), pf_reads = 0\<rparr>"
  have d: "durations (pf_clock st) (pf_reads st) 2 = [1, 5]"
    by (simp add: durations_def numeral_2_eq_2 st_def)
  have c: "ctr_heap st 0 = Some (''loop'', PC_ELAPSED \<lparr>event_count = 0,
       time_start = 0, time_total = 0, time_least = 0, time_most = 0\<rparr>)" by (simp add: st_def)
  have "\<exists>st' e. measure_times 0 2 st = Some st' \<and> ctr_heap st' 0 = Some (''loop'', PC_ELAPSED e) \<and>
    statistics_of e (durations (pf_clock st) (pf_reads st) 2)"
    by (rule elapsed_statistics [OF c]) (simp_all add: d)
  then show ?thesis unfolding d st_def [symmetric] by (auto simp: statistics_of_def)
qed

end
