(* ===== verification/Hx_Stream.thy ===== *)
theory Hx_Stream
  imports Crc32 Perf_Counter
begin

text \<open>
  The framed serial stream between the flight management unit and the I/O processor:
  \<open>apps/systemlib/hx_stream.c\<close>, HDLC byte stuffing with a CRC. A stream writes to its file
  byte by byte, and hands complete frames to a callback: \<open>received\<close> lists the frames handed
  over, oldest first. The counters are those of \<open>Perf_Counter\<close>, each owned by its stream;
  NULL is \<open>None\<close>. The setting of \<open>errno\<close> is not modelled.
\<close>

definition HX_STREAM_MAX_FRAME :: nat where "HX_STREAM_MAX_FRAME = 64"
definition FBO :: u8 where "FBO = 0x7e"
definition CEO :: u8 where "CEO = 0x7c"

record hx_stream =
  buf :: bytes
  frame_bytes :: u32
  escaped :: bool
  txerror :: bool
  tx_file :: wfile
  received :: "bytes list"
  pc_tx_frames :: "perf_ctr option"
  pc_rx_frames :: "perf_ctr option"
  pc_rx_errors :: "perf_ctr option"

text \<open>\<open>hx_stream_init\<close>: zeroed memory, if there is any.\<close>

definition hx_stream_init :: "bool \<Rightarrow> wfile \<Rightarrow> hx_stream option" where
  "hx_stream_init memory fd =
     (if memory
      then Some \<lparr>buf = replicate (HX_STREAM_MAX_FRAME + 4) 0, frame_bytes = 0, escaped = False,
             txerror = False, tx_file = fd, received = [], pc_tx_frames = None, pc_rx_frames = None,
             pc_rx_errors = None\<rparr>
      else None)"

definition hx_stream_set_counters ::
  "perf_ctr option \<Rightarrow> perf_ctr option \<Rightarrow> perf_ctr option \<Rightarrow> hx_stream \<Rightarrow> hx_stream" where
  "hx_stream_set_counters tx_frames rx_frames rx_errors s =
     s\<lparr>pc_tx_frames := tx_frames, pc_rx_frames := rx_frames, pc_rx_errors := rx_errors\<rparr>"

section \<open>Sending\<close>

definition hx_tx_raw :: "u8 \<Rightarrow> hx_stream \<Rightarrow> hx_stream" where
  "hx_tx_raw c s = (let (n, f) = fwrite [c] (tx_file s)
     in s\<lparr>tx_file := f, txerror := (txerror s \<or> n \<noteq> 1)\<rparr>)"

definition hx_tx_byte :: "u8 \<Rightarrow> hx_stream \<Rightarrow> hx_stream" where
  "hx_tx_byte c s =
     (if c = FBO \<or> c = CEO then hx_tx_raw (c XOR 0x20) (hx_tx_raw CEO s) else hx_tx_raw c s)"

definition hx_stream_send :: "bytes \<Rightarrow> hx_stream \<Rightarrow> int \<times> hx_stream" where
  "hx_stream_send data s =
     (if HX_STREAM_MAX_FRAME < length data then (-1, s)
      else let s1 = hx_tx_raw FBO s;
               s2 = fold hx_tx_byte data s1;
               s3 = fold hx_tx_byte (le32 (crc32 data)) s2;
               s4 = hx_tx_raw FBO s3
           in if txerror s4 then (-1, s4\<lparr>txerror := False\<rparr>) else (-1, s4))"

section \<open>Receiving\<close>

definition count_on :: "perf_ctr option \<Rightarrow> perf_ctr option" where
  "count_on = map_option count_event"

text \<open>The end of a frame: the result, and \<open>None\<close> for an access outside the buffer.\<close>

definition hx_rx_frame :: "hx_stream \<Rightarrow> (int \<times> hx_stream) option" where
  "hx_rx_frame s =
     (let len = unat (frame_bytes s); s1 = s\<lparr>frame_bytes := 0, escaped := False\<rparr>
      in if len < 4
         then Some (0, if 1 < len then s1\<lparr>pc_rx_errors := count_on (pc_rx_errors s1)\<rparr> else s1)
         else if length (buf s) < len then None
         else let n = len - 4; crc = le32 (crc32 (take n (buf s)))
              in if \<exists>i \<in> {0, 1, 2, 3}. crc ! i \<noteq> buf s ! (n + i)
                 then Some (0, s1\<lparr>pc_rx_errors := count_on (pc_rx_errors s1)\<rparr>)
                 else Some (1, s1\<lparr>pc_rx_frames := count_on (pc_rx_frames s1),
                                received := received s1 @ [take n (buf s)]\<rparr>))"

definition save_byte :: "u8 \<Rightarrow> hx_stream \<Rightarrow> hx_stream option" where
  "save_byte c s =
     (if unat (frame_bytes s) < HX_STREAM_MAX_FRAME + 4
      then map_option (\<lambda>b. s\<lparr>buf := b, frame_bytes := frame_bytes s + 1\<rparr>)
             (array_set (buf s) (unat (frame_bytes s)) c)
      else Some s)"

definition hx_stream_rx :: "u8 \<Rightarrow> hx_stream \<Rightarrow> hx_stream option" where
  "hx_stream_rx c s =
     (if c = FBO then map_option snd (hx_rx_frame s)
      else if escaped s then save_byte (c XOR 0x20) (s\<lparr>escaped := False\<rparr>)
      else if c = CEO then Some (s\<lparr>escaped := True\<rparr>)
      else save_byte c s)"

section \<open>Every byte keeps the invariant\<close>

definition hx_inv :: "hx_stream \<Rightarrow> bool" where
  "hx_inv s \<longleftrightarrow> length (buf s) = HX_STREAM_MAX_FRAME + 4 \<and>
     unat (frame_bytes s) \<le> HX_STREAM_MAX_FRAME + 4 \<and>
     (\<forall>f \<in> set (received s). length f \<le> HX_STREAM_MAX_FRAME)"

definition hx_start :: "hx_stream \<Rightarrow> bool" where
  "hx_start s \<longleftrightarrow> (\<exists>fd. hx_stream_init True fd = Some s)"

lemma save_byte_ok: "hx_inv s \<Longrightarrow> \<exists>s'. save_byte c s = Some s' \<and> hx_inv s'"
proof (cases "unat (frame_bytes s) < HX_STREAM_MAX_FRAME + 4")
  case True
  assume "hx_inv s"
  moreover have "unat (frame_bytes s + 1) = unat (frame_bytes s) + 1"
    using True by (simp add: unat_word_ariths HX_STREAM_MAX_FRAME_def)
  ultimately show ?thesis using True by (simp add: save_byte_def hx_inv_def)
qed (simp add: save_byte_def)

lemma hx_rx_frame_ok: "hx_inv s \<Longrightarrow> \<exists>r s'. hx_rx_frame s = Some (r, s') \<and> hx_inv s'"
  by (auto simp: hx_rx_frame_def hx_inv_def Let_def)

lemma hx_rx_ok:
  assumes "hx_inv s"
  shows "\<exists>s'. hx_stream_rx c s = Some s' \<and> hx_inv s'"
proof -
  have "hx_inv (s\<lparr>escaped := b\<rparr>)" for b using assms by (simp add: hx_inv_def)
  then show ?thesis
    using save_byte_ok hx_rx_frame_ok [OF assms] assms by (auto simp: hx_stream_rx_def)
qed

interpretation hx: safe_machine hx_stream_rx hx_start hx_inv "\<lambda>c. True"
proof unfold_locales
  fix s assume "hx_start s"
  then show "hx_inv s" by (auto simp: hx_start_def hx_stream_init_def hx_inv_def)
next
  fix s c s' assume "hx_inv s" "hx_stream_rx c s = Some s'"
  then show "hx_inv s'" using hx_rx_ok [of s c] by auto
next
  fix s c assume "hx_inv s"
  then show "\<exists>s'. hx_stream_rx c s = Some s'" using hx_rx_ok [of s c] by blast
qed

section \<open>Frames\<close>

definition stuff :: "u8 \<Rightarrow> bytes" where
  "stuff c = (if c = FBO \<or> c = CEO then [CEO, c XOR 0x20] else [c])"

definition frame :: "bytes \<Rightarrow> bytes" where
  "frame data = FBO # concat (map stuff (data @ le32 (crc32 data))) @ [FBO]"

definition sent :: "bytes \<Rightarrow> hx_stream \<Rightarrow> hx_stream" where
  "sent bs s = s\<lparr>tx_file := (tx_file s)\<lparr>written := written (tx_file s) @ bs,
     room := room (tx_file s) - length bs\<rparr>\<rparr>"

lemma sent_fields [simp]:
  "room (tx_file (sent bs s)) = room (tx_file s) - length bs" "txerror (sent bs s) = txerror s"
  "written (tx_file (sent bs s)) = written (tx_file s) @ bs"
  by (simp_all add: sent_def)

lemma sent_sent [simp]: "sent bs (sent as s) = sent (as @ bs) s"
  by (simp add: sent_def)

lemma hx_tx_raw_sent: "1 \<le> room (tx_file s) \<Longrightarrow> hx_tx_raw c s = sent [c] s"
  by (simp add: hx_tx_raw_def fwrite_fits sent_def)

lemma stuff_length: "length (stuff c) \<le> 2" "1 \<le> length (stuff c)"
  by (simp_all add: stuff_def)

lemma hx_tx_byte_sent: "length (stuff c) \<le> room (tx_file s) \<Longrightarrow> hx_tx_byte c s = sent (stuff c) s"
  by (auto simp: hx_tx_byte_def stuff_def hx_tx_raw_sent)

lemma hx_tx_bytes_sent:
  "length (concat (map stuff bs)) \<le> room (tx_file s) \<Longrightarrow>
   fold hx_tx_byte bs s = sent (concat (map stuff bs)) s"
proof (induction bs arbitrary: s)
  case Nil
  then show ?case by (simp add: sent_def)
next
  case (Cons b bs)
  then show ?case by (simp add: hx_tx_byte_sent)
qed

lemma stuffed_length: "length (concat (map stuff bs)) \<le> 2 * length bs"
proof (induction bs)
  case (Cons b bs)
  then show ?case using stuff_length(1) [of b] by simp
qed simp

text \<open>Receiving stuffed bytes stores the bytes.\<close>

lemma escape_bytes: "CEO \<noteq> FBO" "FBO XOR 0x20 \<noteq> FBO" "CEO XOR 0x20 \<noteq> FBO"
  "(FBO XOR 0x20) XOR 0x20 = FBO" "(CEO XOR 0x20) XOR 0x20 = CEO"
  by (simp_all add: FBO_def CEO_def)

definition stored :: "bytes \<Rightarrow> hx_stream \<Rightarrow> hx_stream" where
  "stored bs s = s\<lparr>buf := take (unat (frame_bytes s)) (buf s) @ bs @ drop (unat (frame_bytes s) + length bs) (buf s),
     frame_bytes := frame_bytes s + of_nat (length bs)\<rparr>"

lemma save_byte_stored:
  assumes "hx_inv s" "unat (frame_bytes s) < HX_STREAM_MAX_FRAME + 4"
  shows "save_byte c s = Some (stored [c] s)"
  using assms by (simp add: save_byte_def stored_def hx_inv_def upd_conv_take_nth_drop)

lemma stored_inv:
  assumes "hx_inv s" "unat (frame_bytes s) + length bs \<le> HX_STREAM_MAX_FRAME + 4"
  shows "hx_inv (stored bs s)" "unat (frame_bytes (stored bs s)) = unat (frame_bytes s) + length bs"
proof -
  have "unat (frame_bytes s + of_nat (length bs)) = unat (frame_bytes s) + length bs"
    using assms(2) by (simp add: unat_word_ariths unat_of_nat HX_STREAM_MAX_FRAME_def)
  then show "unat (frame_bytes (stored bs s)) = unat (frame_bytes s) + length bs"
    "hx_inv (stored bs s)"
    using assms by (simp_all add: stored_def hx_inv_def)
qed

lemma stored_stored:
  assumes "hx_inv s" "unat (frame_bytes s) + length as + length bs \<le> HX_STREAM_MAX_FRAME + 4"
  shows "stored bs (stored as s) = stored (as @ bs) s"
  using assms stored_inv(2) [of s as]
  by (simp add: stored_def hx_inv_def ac_simps)

lemma rx_stuffed_byte:
  assumes "hx_inv s" "\<not> escaped s" "unat (frame_bytes s) < HX_STREAM_MAX_FRAME + 4"
  shows "run_steps hx_stream_rx (stuff c) s = Some (stored [c] s)"
proof -
  have e: "hx_inv (s\<lparr>escaped := False\<rparr>)" "s\<lparr>escaped := False\<rparr> = s"
    using assms(1,2) by (simp_all add: hx_inv_def)
  have "save_byte c' (s\<lparr>escaped := False\<rparr>) = Some (stored [c'] s)" for c'
    unfolding e(2) by (rule save_byte_stored [OF assms(1,3)])
  then show ?thesis
    using save_byte_stored [OF assms(1,3)] assms(2)
    by (auto simp: stuff_def hx_stream_rx_def escape_bytes)
qed

lemma rx_stuffed:
  "hx_inv s \<Longrightarrow> \<not> escaped s \<Longrightarrow> unat (frame_bytes s) + length bs \<le> HX_STREAM_MAX_FRAME + 4 \<Longrightarrow>
   run_steps hx_stream_rx (concat (map stuff bs)) s = Some (stored bs s)"
proof (induction bs arbitrary: s)
  case Nil
  then show ?case by (simp add: stored_def)
next
  case (Cons b bs)
  have 1: "run_steps hx_stream_rx (stuff b) s = Some (stored [b] s)"
    using Cons.prems by (intro rx_stuffed_byte) simp_all
  have "run_steps hx_stream_rx (concat (map stuff bs)) (stored [b] s) = Some (stored bs (stored [b] s))"
    using Cons.prems stored_inv [OF Cons.prems(1), of "[b]"] by (intro Cons.IH) (simp_all add: stored_def)
  then show ?case
    using 1 stored_stored [OF Cons.prems(1), of "[b]" bs] Cons.prems(3) by (simp add: run_steps_append)
qed

lemma rx_separator:
  assumes "hx_inv s"
  obtains s' junk where "hx_stream_rx FBO s = Some s'" "hx_inv s'" "frame_bytes s' = 0" "\<not> escaped s'"
    "received s' = received s @ junk" "length junk \<le> 1" "frame_bytes s = 0 \<Longrightarrow> junk = []"
proof -
  obtain s' where s': "hx_stream_rx FBO s = Some s'" "hx_inv s'" using hx_rx_ok [OF assms] by blast
  moreover have "frame_bytes s' = 0" "\<not> escaped s'"
    using s'(1) by (auto simp: hx_stream_rx_def hx_rx_frame_def Let_def split: if_splits)
  moreover have "received s' = received s \<or> (\<exists>f. received s' = received s @ [f])"
    using s'(1) by (auto simp: hx_stream_rx_def hx_rx_frame_def Let_def split: if_splits)
  moreover have "received s' = received s" if "frame_bytes s = 0"
    using s'(1) that by (auto simp: hx_stream_rx_def hx_rx_frame_def Let_def split: if_splits)
  ultimately show ?thesis using that [of s' "[]"] that [of s' "[_]"] by auto
qed

lemma rx_good_frame:
  assumes "hx_inv s" "frame_bytes s = 0" "\<not> escaped s" "length data \<le> HX_STREAM_MAX_FRAME"
  shows "\<exists>s'. run_steps hx_stream_rx (concat (map stuff (data @ le32 (crc32 data))) @ [FBO]) s = Some s' \<and>
    hx_inv s' \<and> received s' = received s @ [data] \<and> frame_bytes s' = 0 \<and> \<not> escaped s'"
proof -
  let ?bs = "data @ le32 (crc32 data)"
  have fits: "unat (frame_bytes s) + length ?bs \<le> HX_STREAM_MAX_FRAME + 4" using assms(2,4) by simp
  have run: "run_steps hx_stream_rx (concat (map stuff ?bs)) s = Some (stored ?bs s)"
    by (rule rx_stuffed [OF assms(1,3) fits])
  have inv: "hx_inv (stored ?bs s)" and n: "unat (frame_bytes (stored ?bs s)) = length data + 4"
    using stored_inv [OF assms(1) fits] assms(2) by simp_all
  have b: "take (length data) (buf (stored ?bs s)) = data"
    "\<And>i. i < 4 \<Longrightarrow> buf (stored ?bs s) ! (length data + i) = le32 (crc32 data) ! i"
    using assms(2) by (simp_all add: stored_def nth_append)
  have len: "length data + 4 \<le> length (buf (stored ?bs s))" using inv n by (simp add: hx_inv_def)
  obtain s' where s': "hx_stream_rx FBO (stored ?bs s) = Some s'" "hx_inv s'"
    using hx_rx_ok [OF inv] by blast
  have "received s' = received (stored ?bs s) @ [data] \<and> frame_bytes s' = 0 \<and> \<not> escaped s'"
    using s'(1) n len b(1) b(2) [of 0] b(2) [of 1] b(2) [of 2] b(2) [of 3]
    by (auto simp: hx_stream_rx_def hx_rx_frame_def Let_def)
  moreover have "received (stored ?bs s) = received s" by (simp add: stored_def)
  ultimately show ?thesis using run_steps_snoc [OF run s'(1)] s'(2) by auto
qed

text \<open>What sending writes, and what any receiver makes of it.\<close>

lemma frame_length: "length (frame data) \<le> 2 * length data + 10"
  using stuffed_length [of "data @ le32 (crc32 data)"] by (simp add: frame_def)

lemma send_writes:
  assumes "length data \<le> HX_STREAM_MAX_FRAME" "length (frame data) \<le> room (tx_file t)"
  shows "hx_stream_send data t = (-1, (sent (frame data) t)\<lparr>txerror := False\<rparr>)"
proof -
  have f: "hx_tx_raw FBO (fold hx_tx_byte (le32 (crc32 data)) (fold hx_tx_byte data (hx_tx_raw FBO t))) =
      sent (frame data) t"
    using assms(2) by (simp add: hx_tx_raw_sent hx_tx_bytes_sent frame_def)
  have e: "\<not> txerror t \<Longrightarrow> (sent (frame data) t)\<lparr>txerror := False\<rparr> = sent (frame data) t"
    by (simp add: sent_def)
  show ?thesis
    using assms(1) e unfolding hx_stream_send_def Let_def f by (cases "txerror t") auto
qed

lemma frame_received:
  assumes "length data \<le> HX_STREAM_MAX_FRAME" "hx_inv s"
  obtains s' junk where "run_steps hx_stream_rx (frame data) s = Some s'"
    "received s' = received s @ junk @ [data]" "length junk \<le> 1" "frame_bytes s = 0 \<Longrightarrow> junk = []"
    "hx_inv s'" "frame_bytes s' = 0" "\<not> escaped s'"
proof -
  obtain s1 junk where s1: "hx_stream_rx FBO s = Some s1" "hx_inv s1" "frame_bytes s1 = 0" "\<not> escaped s1"
    "received s1 = received s @ junk" "length junk \<le> 1" "frame_bytes s = 0 \<Longrightarrow> junk = []"
    by (rule rx_separator [OF assms(2)]) blast
  obtain s2 where s2: "run_steps hx_stream_rx (concat (map stuff (data @ le32 (crc32 data))) @ [FBO]) s1 = Some s2"
    "hx_inv s2" "received s2 = received s1 @ [data]" "frame_bytes s2 = 0" "\<not> escaped s2"
    using rx_good_frame [OF s1(2-4) assms(1)] by blast
  have "run_steps hx_stream_rx (frame data) s = Some s2"
    using s1(1) s2(1) by (simp add: frame_def)
  then show ?thesis using that s1(5-7) s2 by simp
qed

section \<open>Properties\<close>

text \<open>
  C13. What is sent is received. A frame of at most 64 bytes, sent over a file with room for it,
  and received by any stream in any state, is handed to the callback as it was; before it
  at most one frame that the receiver had pending. Afterwards the receiver is ready.
\<close>

theorem frame_round_trip:
  assumes "length data \<le> HX_STREAM_MAX_FRAME" "2 * HX_STREAM_MAX_FRAME + 10 \<le> room (tx_file t)"
    and "hx_inv s"
  shows "\<exists>t' s' wire junk. hx_stream_send data t = (-1, t') \<and>
    written (tx_file t') = written (tx_file t) @ wire \<and>
    run_steps hx_stream_rx wire s = Some s' \<and>
    received s' = received s @ junk @ [data] \<and> length junk \<le> 1 \<and>
    hx_inv s' \<and> frame_bytes s' = 0 \<and> \<not> escaped s'"
proof -
  have "length (frame data) \<le> room (tx_file t)"
    using frame_length [of data] assms(1,2) by linarith
  note send = send_writes [OF assms(1) this]
  obtain s' junk where "run_steps hx_stream_rx (frame data) s = Some s'"
    "received s' = received s @ junk @ [data]" "length junk \<le> 1" "hx_inv s'" "frame_bytes s' = 0" "\<not> escaped s'"
    by (rule frame_received [OF assms(1,3)]) blast
  then show ?thesis
    unfolding send
    by (intro exI [of _ "(sent (frame data) t)\<lparr>txerror := False\<rparr>"] exI [of _ s'] exI [of _ "frame data"] exI [of _ junk])
      simp
qed

text \<open>A stream as it is after start.\<close>

definition example_stream :: hx_stream where
  "example_stream = the (hx_stream_init True \<lparr>written = [], room = 500\<rparr>)"

lemma example_stream_start: "hx_start example_stream" "room (tx_file example_stream) = 500"
  by (auto simp: hx_start_def example_stream_def hx_stream_init_def)

lemma example_stream_inv: "hx_inv example_stream"
  using example_stream_start(1) by (rule hx.inv_start)

theorem frame_round_trip_witness:
  "\<exists>t' s' wire junk. hx_stream_send [0x7e, 1, 0x7c] example_stream = (-1, t') \<and>
     run_steps hx_stream_rx wire example_stream = Some s' \<and>
     received s' = received example_stream @ junk @ [[0x7e, 1, 0x7c]] \<and> length junk \<le> 1"
proof -
  have "length [0x7e, 1, 0x7c :: u8] \<le> HX_STREAM_MAX_FRAME"
    "2 * HX_STREAM_MAX_FRAME + 10 \<le> room (tx_file example_stream)"
    by (simp_all add: HX_STREAM_MAX_FRAME_def example_stream_start)
  from frame_round_trip [OF this example_stream_inv] show ?thesis by blast
qed

text \<open>
  Whatever bytes arrive, the receiver stays within its buffer, and no frame it hands
  over is longer than the maximum.
\<close>

theorem receiver_safe:
  assumes "hx_start s"
  shows "\<exists>s'. run_steps hx_stream_rx bs s = Some s' \<and>
    (\<forall>f \<in> set (received s'). length f \<le> HX_STREAM_MAX_FRAME)"
  using hx.run_safe [OF assms, of bs] by (auto simp: list_all_iff hx_inv_def)

theorem receiver_safe_witness:
  "\<exists>s'. run_steps hx_stream_rx (replicate 200 0x41 @ [0x7e]) example_stream = Some s' \<and>
     (\<forall>f \<in> set (received s'). length f \<le> HX_STREAM_MAX_FRAME)"
  by (rule receiver_safe [OF example_stream_start(1)])

text \<open>
  Sending never reports success: the result is -1 for every frame on every stream, and the
  counter of sent frames is never touched.
\<close>

theorem send_never_succeeds:
  "fst (hx_stream_send data s) = -1 \<and> pc_tx_frames (snd (hx_stream_send data s)) = pc_tx_frames s"
proof -
  have raw: "pc_tx_frames (hx_tx_raw c t) = pc_tx_frames t" for c t
    by (simp add: hx_tx_raw_def fwrite_def Let_def)
  have "pc_tx_frames (fold hx_tx_byte bs t) = pc_tx_frames t" for bs t
    by (induction bs arbitrary: t) (simp_all add: hx_tx_byte_def raw)
  then show ?thesis by (simp add: hx_stream_send_def Let_def raw)
qed

end
