(* ===== verification/Commander_Loop.thy ===== *)
theory Commander_Loop
  imports Commander_State Param "HOL-Library.Monad_Syntax" "HOL-Library.Sublist"
begin

text \<open>
  The monitoring loop of the commander: \<open>commander_thread_main\<close> of
  \<open>apps/commander/commander.c\<close> with the battery estimate, the indicators, the stick gestures,
  and the supervision of the remote control and offboard signals.

  One turn of the loop is \<open>commander_turn\<close>, the composition of one definition per block of its
  body. What a turn receives from other tasks is its \<open>turn_input\<close>. The calls of the clock
  are made in the code's order; the static variables of the code are fields of the task. A result
  \<open>None\<close> is an access outside an object or a reboot. Floating-point expressions are evaluated
  operation by operation. The GPS topic, whose value the loop copies and never reads, the
  console output, and variables that are never read are left out.
\<close>

section \<open>Data\<close>

datatype offboard_control_mode =
    OFFBOARD_CONTROL_MODE_DIRECT
  | OFFBOARD_CONTROL_MODE_DIRECT_RATES
  | OFFBOARD_CONTROL_MODE_DIRECT_ATTITUDE
  | OFFBOARD_CONTROL_MODE_DIRECT_VELOCITY
  | OFFBOARD_CONTROL_MODE_DIRECT_POSITION
  | OFFBOARD_CONTROL_MODE_ATT_YAW_RATE
  | OFFBOARD_CONTROL_MODE_ATT_YAW_POS
  | OFFBOARD_CONTROL_MODE_MULTIROTOR_SIMPLE

text \<open>The fields of the setpoint topics that the commander reads.\<close>

record manual_control_setpoint =
  man_timestamp :: u64
  man_yaw :: float_bits
  man_throttle :: float_bits
  man_override_mode_switch :: float_bits

record offboard_control_setpoint =
  off_timestamp :: u64
  off_mode :: offboard_control_mode
  off_armed :: bool

record turn_input =
  new_sp_man :: "manual_control_setpoint option"
  new_sp_offboard :: "offboard_control_setpoint option"
  battery_voltage_v :: float_bits
  battery_voltage_valid :: bool
  idle_runtime :: u64

record sensor_sample =
  gyro_rad_s :: "float_bits \<times> float_bits \<times> float_bits"
  accelerometer_m_s2 :: "float_bits \<times> float_bits \<times> float_bits"
  magnetometer_ga :: "float_bits \<times> float_bits \<times> float_bits"

text \<open>The requests to the drivers of the LEDs and of the tone alarm.\<close>

datatype led = LED_AMBER | LED_BLUE

datatype ioctl_call =
    Led led bool
  | Tone_set_alarm nat

text \<open>The static variables of \<open>battery_remaining_estimate_voltage\<close>.\<close>

record estimator =
  bat_volt_empty :: param_t
  bat_volt_full :: param_t
  est_initialized :: bool
  est_counter :: u32

datatype sensor_device = GYRO_DEVICE | MAG_DEVICE | ACCEL_DEVICE

text \<open>
  The task. \<open>core\<close> holds the status structure and the publications; the fields up to
  \<open>ioctls\<close> belong to the monitoring loop, the others to the command handler: the samples that
  its calls of \<open>poll\<close> will find (\<open>None\<close> for a timeout), the scales it has given to the sensor
  drivers, the parameter file, and what will become of the files it opens for writing
  (\<open>None\<close>: \<open>open\<close> fails; otherwise the space there is).
\<close>

record commander_task =
  core :: commander
  store :: param_store
  loop_counter :: u16
  bat_remain :: float_bits
  battery :: estimator
  low_battery_voltage_actions_done :: bool
  critical_battery_voltage_actions_done :: bool
  low_voltage_counter :: u8
  critical_voltage_counter :: u16
  stick_off_counter :: u16
  stick_on_counter :: u16
  sp_man :: manual_control_setpoint
  sp_offboard :: offboard_control_setpoint
  last_idle_time :: u64
  start_time :: u64
  state_changed :: bool
  failsafe_lowlevel_timeout_ms :: u32
  rc_last_print_time :: u64
  offboard_last_print_time :: u64
  last_blue :: bool
  last_amber :: bool
  ioctls :: "ioctl_call list"
  polls :: "nat \<Rightarrow> sensor_sample option"
  poll_calls :: nat
  scales :: "(sensor_device \<times> (float_bits \<times> float_bits) list) list"
  parameter_file :: "bytes option"
  opens :: "nat \<Rightarrow> nat option"
  open_calls :: nat
  log_info :: "string list"

abbreviation status :: "commander_task \<Rightarrow> vehicle_status" where
  "status m \<equiv> current_status (core m)"

definition upd_status :: "(vehicle_status \<Rightarrow> vehicle_status) \<Rightarrow> commander_task \<Rightarrow> commander_task" where
  "upd_status f m = m\<lparr>core := upd f (core m)\<rparr>"

definition log_crit :: "string \<Rightarrow> commander_task \<Rightarrow> commander_task" where
  "log_crit msg m = m\<lparr>core := mavlink_log_critical msg (core m)\<rparr>"

text \<open>A call of a function of the state machine; its result is ignored.\<close>

definition call :: "(commander \<Rightarrow> 'a outcome) \<Rightarrow> commander_task \<Rightarrow> commander_task option" where
  "call f m = (case f (core m) of Returned a c \<Rightarrow> Some (m\<lparr>core := c\<rparr>) | Rebooted c \<Rightarrow> None)"

definition hrt_absolute_time :: "commander_task \<Rightarrow> u64 \<times> commander_task" where
  "hrt_absolute_time m = (hrt (core m) (hrt_reads (core m)),
     m\<lparr>core := (core m)\<lparr>hrt_reads := Suc (hrt_reads (core m))\<rparr>\<rparr>)"

section \<open>Constants\<close>

text \<open>
  The counter limits are floating-point expressions over the loop period in microseconds. Literals
  are the nearest single-precision numbers: 0.75, 0.3, 0.2, 0.15, 0.1, 1 and so on.
\<close>

definition COMMANDER_MONITORING_INTERVAL :: int where
  "COMMANDER_MONITORING_INTERVAL = 50000"

definition COMMANDER_MONITORING_LOOPSPERMSEC :: float_bits where
  "COMMANDER_MONITORING_LOOPSPERMSEC =
     f32_div (f32_of_int 1) (f32_div (f32_of_int COMMANDER_MONITORING_INTERVAL) (f32_of_int 1000))"

definition LOW_VOLTAGE_BATTERY_COUNTER_LIMIT :: float_bits where
  "LOW_VOLTAGE_BATTERY_COUNTER_LIMIT = f32_mul (f32_of_int 1000) COMMANDER_MONITORING_LOOPSPERMSEC"

definition CRITICAL_VOLTAGE_BATTERY_COUNTER_LIMIT :: float_bits where
  "CRITICAL_VOLTAGE_BATTERY_COUNTER_LIMIT = f32_mul (f32_of_int 100) COMMANDER_MONITORING_LOOPSPERMSEC"

definition STICK_ON_OFF_COUNTER_LIMIT :: float_bits where
  "STICK_ON_OFF_COUNTER_LIMIT = f32_mul (f32_of_int 1000) COMMANDER_MONITORING_LOOPSPERMSEC"

definition STICK_ON_OFF_LIMIT :: float_bits where "STICK_ON_OFF_LIMIT = 0x3F400000"
definition minus_STICK_ON_OFF_LIMIT :: float_bits where "minus_STICK_ON_OFF_LIMIT = 0xBF400000"
definition STICK_THRUST_RANGE :: float_bits where "STICK_THRUST_RANGE = 0x3F800000"
definition f0_3 :: float_bits where "f0_3 = 0x3E99999A"
definition f0_2 :: float_bits where "f0_2 = 0x3E4CCCCD"
definition f0_15 :: float_bits where "f0_15 = 0x3E19999A"
definition f0_1 :: float_bits where "f0_1 = 0x3DCCCCCD"

definition above_limit :: "int \<Rightarrow> float_bits \<Rightarrow> bool" where
  "above_limit n limit \<longleftrightarrow> f32_lt limit (f32_of_int n)"

text \<open>Turns per second, and the loop counter modulo a part of a second.\<close>

definition every :: "int \<Rightarrow> commander_task \<Rightarrow> int" where
  "every per_second m =
     uint (loop_counter m) mod (1000000 div COMMANDER_MONITORING_INTERVAL div per_second)"

section \<open>Battery\<close>

text \<open>
  A float parameter read into a local variable that keeps its value when nothing is copied.
\<close>

definition get_float :: "param_table \<Rightarrow> param_t \<Rightarrow> float_bits \<Rightarrow> param_store \<Rightarrow> float_bits option" where
  "get_float T p old s =
     (case param_get T p True s of None \<Rightarrow> None
      | Some (r, bs) \<Rightarrow> if bs = [] then Some old
                       else if length bs = 4 then Some (un_le32 bs) else None)"

text \<open>
  \<open>battery_remaining_estimate_voltage\<close> for one chemistry. The voltages of the cells are local: they
  start from the built-in values in every call, and the parameters are read every 100th call.
\<close>

definition battery_remaining_estimate_voltage ::
  "param_table \<Rightarrow> int \<Rightarrow> nat \<Rightarrow> float_bits \<Rightarrow> param_store \<Rightarrow> estimator \<Rightarrow> (float_bits \<times> estimator) option" where
  "battery_remaining_estimate_voltage T cells chemistry voltage s b0 = do {
     let b = (if est_initialized b0 then b0
              else b0\<lparr>bat_volt_empty := param_find T (ascii ''BAT_V_EMPTY''),
                      bat_volt_full := param_find T (ascii ''BAT_V_FULL''),
                      est_initialized := True\<rparr>);
     let chemistry_voltage_empty = [0x404CCCCD];
     let chemistry_voltage_full = [0x4081999A];
     (es, fs) \<leftarrow>
       (if est_counter b mod 100 = 0
        then do { e \<leftarrow> get_float T (bat_volt_empty b) (chemistry_voltage_empty ! 0) s;
                  f \<leftarrow> get_float T (bat_volt_full b) (chemistry_voltage_full ! 0) s;
                  Some ([e], [f]) }
        else Some (chemistry_voltage_empty, chemistry_voltage_full));
     e \<leftarrow> array_get es chemistry;
     f \<leftarrow> array_get fs chemistry;
     let ret = f32_div (f32_sub voltage (f32_mul (f32_of_int cells) e))
                       (f32_mul (f32_of_int cells) (f32_sub f e));
     let ret1 = (if f32_lt ret (f32_of_int 0) then f32_of_int 0 else ret);
     let ret2 = (if f32_lt (f32_of_int 1) ret1 then f32_of_int 1 else ret1);
     Some (ret2, b\<lparr>est_counter := est_counter b + 1\<rparr>) }"

definition update_bat_remain :: "param_table \<Rightarrow> turn_input \<Rightarrow> commander_task \<Rightarrow> commander_task option" where
  "update_bat_remain T i m =
     (if battery_voltage_valid i
      then (let (t, m1) = hrt_absolute_time m
            in if t - start_time m1 > 2500000
               then do { (r, b) \<leftarrow> battery_remaining_estimate_voltage T 3 0 (battery_voltage_v i)
                                    (store m1) (battery m1);
                         Some (m1\<lparr>bat_remain := r, battery := b\<rparr>) }
               else Some m1)
      else Some m)"

section \<open>Indicators\<close>

fun led_toggle :: "led \<Rightarrow> commander_task \<Rightarrow> commander_task" where
  "led_toggle LED_BLUE m =
     m\<lparr>last_blue := \<not> last_blue m, ioctls := ioctls m @ [Led LED_BLUE (\<not> last_blue m)]\<rparr>"
| "led_toggle LED_AMBER m =
     m\<lparr>last_amber := \<not> last_amber m, ioctls := ioctls m @ [Led LED_AMBER (\<not> last_amber m)]\<rparr>"

definition tone :: "nat list \<Rightarrow> commander_task \<Rightarrow> commander_task" where
  "tone ns m = m\<lparr>ioctls := ioctls m @ map Tone_set_alarm ns\<rparr>"

definition toggle_activity_led :: "commander_task \<Rightarrow> commander_task" where
  "toggle_activity_led m =
     (let st = state_machine (status m)
      in if st = SYSTEM_STATE_GROUND_READY \<or> st = SYSTEM_STATE_AUTO \<or> st = SYSTEM_STATE_MANUAL
         then led_toggle LED_BLUE m
         else if every 1 m = 0 then led_toggle LED_BLUE m else m)"

definition toggle_error_led :: "commander_task \<Rightarrow> commander_task" where
  "toggle_error_led m =
     (if flag_hil_enabled (status m) then led_toggle LED_AMBER m
      else if f32_lt (bat_remain m) f0_3 \<and>
              above_limit (uint (low_voltage_counter m)) LOW_VOLTAGE_BATTERY_COUNTER_LIMIT
      then led_toggle LED_AMBER m else m)"

text \<open>
  The load is computed in unsigned 64-bit arithmetic and then converted.
\<close>

definition update_load :: "turn_input \<Rightarrow> commander_task \<Rightarrow> commander_task" where
  "update_load i m =
     (let interval_runtime = idle_runtime i - last_idle_time m;
          m1 = (if last_idle_time m > 0
                then upd_status (\<lambda>s. s\<lparr>load := f32_of_int (uint (1000 - interval_runtime div 1000))\<rparr>) m
                else m)
      in m1\<lparr>last_idle_time := idle_runtime i\<rparr>)"

definition slow_checks :: "turn_input \<Rightarrow> commander_task \<Rightarrow> commander_task" where
  "slow_checks i m =
     (if every 8 m = 0
      then (let m1 = toggle_error_led (toggle_activity_led m)
            in if every 1 m1 = 0 then update_load i m1 else m1)
      else m)"

definition battery_alarm :: "turn_input \<Rightarrow> commander_task \<Rightarrow> commander_task" where
  "battery_alarm i m =
     (if f32_lt (bat_remain m) f0_1 \<and> battery_voltage_valid i \<and> every 4 m = 0 then tone [0, 3] m
      else if f32_lt (bat_remain m) f0_1 \<and> battery_voltage_valid i \<and> every 4 m = 2 then tone [0] m
      else if f32_lt (bat_remain m) f0_2 \<and> battery_voltage_valid i \<and> every 2 m = 0 then tone [0, 2] m
      else if f32_lt (bat_remain m) f0_2 \<and> battery_voltage_valid i \<and> every 2 m = 2 then tone [0] m
      else m)"


text \<open>
  The battery check. The first branch also counts the turn after it has raised the alarm.
\<close>

definition check_battery :: "turn_input \<Rightarrow> commander_task \<Rightarrow> commander_task option" where
  "check_battery i m0 =
     (let m = upd_status (\<lambda>s. s\<lparr>voltage_battery := battery_voltage_v i\<rparr>) m0
      in if battery_voltage_valid i \<and> f32_lt (bat_remain m) f0_15 \<and>
            \<not> low_battery_voltage_actions_done m
         then (let m1 = (if above_limit (uint (low_voltage_counter m)) LOW_VOLTAGE_BATTERY_COUNTER_LIMIT
                         then log_crit ''[commander] WARNING! LOW BATTERY!''
                                (m\<lparr>low_battery_voltage_actions_done := True\<rparr>)
                         else m)
               in Some (m1\<lparr>low_voltage_counter := low_voltage_counter m1 + 1\<rparr>))
         else if battery_voltage_valid i \<and> f32_lt (bat_remain m) f0_1 \<and>
                 \<not> critical_battery_voltage_actions_done m \<and> low_battery_voltage_actions_done m
         then do { m1 \<leftarrow> (if above_limit (uint (critical_voltage_counter m))
                                        CRITICAL_VOLTAGE_BATTERY_COUNTER_LIMIT
                          then call state_machine_emergency
                                 (log_crit ''[commander] EMERGENCY! CIRITICAL BATTERY!''
                                   (m\<lparr>critical_battery_voltage_actions_done := True\<rparr>))
                          else Some m);
                   Some (m1\<lparr>critical_voltage_counter := critical_voltage_counter m1 + 1\<rparr>) }
         else Some (m\<lparr>low_voltage_counter := 0, critical_voltage_counter := 0\<rparr>))"

section \<open>Remote control\<close>

definition throttle_low :: "manual_control_setpoint \<Rightarrow> bool" where
  "throttle_low sp \<longleftrightarrow> f32_lt (man_throttle sp) (f32_mul STICK_THRUST_RANGE f0_2)"

definition stick_off_gesture :: "manual_control_setpoint \<Rightarrow> bool" where
  "stick_off_gesture sp \<longleftrightarrow> f32_lt (man_yaw sp) minus_STICK_ON_OFF_LIMIT \<and> throttle_low sp"

definition stick_on_gesture :: "manual_control_setpoint \<Rightarrow> bool" where
  "stick_on_gesture sp \<longleftrightarrow> f32_lt STICK_ON_OFF_LIMIT (man_yaw sp) \<and> throttle_low sp"

definition check_stick_off :: "commander_task \<Rightarrow> commander_task option" where
  "check_stick_off m =
     (if stick_off_gesture (sp_man m)
      then if above_limit (uint (stick_off_counter m)) STICK_ON_OFF_COUNTER_LIMIT
           then do { m1 \<leftarrow> call update_state_machine_disarm m; Some (m1\<lparr>stick_on_counter := 0\<rparr>) }
           else Some (m\<lparr>stick_off_counter := stick_off_counter m + 1, stick_on_counter := 0\<rparr>)
      else Some m)"

definition check_stick_on :: "commander_task \<Rightarrow> commander_task option" where
  "check_stick_on m =
     (if stick_on_gesture (sp_man m)
      then if above_limit (uint (stick_on_counter m)) STICK_ON_OFF_COUNTER_LIMIT
           then do { m1 \<leftarrow> call update_state_machine_arm m; Some (m1\<lparr>stick_on_counter := 0\<rparr>) }
           else Some (m\<lparr>stick_on_counter := stick_on_counter m + 1, stick_off_counter := 0\<rparr>)
      else Some m)"

definition check_mode_switch :: "commander_task \<Rightarrow> commander_task option" where
  "check_mode_switch m =
     (let sw = man_override_mode_switch (sp_man m)
      in if f32_lt STICK_ON_OFF_LIMIT sw then call update_state_machine_mode_manual m
         else if f32_lt sw minus_STICK_ON_OFF_LIMIT then call update_state_machine_mode_auto m
         else call update_state_machine_mode_stabilized m)"

definition rc_regained :: "commander_task \<Rightarrow> commander_task" where
  "rc_regained m =
     (let m1 = (if \<not> rc_signal_found_once (status m)
                then log_crit ''[commander] DETECTED RC SIGNAL FIRST TIME.''
                       (upd_status (\<lambda>s. s\<lparr>rc_signal_found_once := True\<rparr>) m)
                else if rc_signal_lost (status m)
                then log_crit ''[commander] RECOVERY - RC SIGNAL GAINED!'' m
                else m)
      in upd_status (\<lambda>s. s\<lparr>rc_signal_cutting_off := False, rc_signal_lost := False,
                           rc_signal_lost_interval := 0\<rparr>) m1)"

text \<open>
  The warning about a missing signal: the clock is read in the condition unless the flag decides
  it, and again for the time of the warning.
\<close>

definition rc_warning :: "commander_task \<Rightarrow> commander_task" where
  "rc_warning m =
     (let (due, m1) = (if \<not> rc_signal_cutting_off (status m) then (True, m)
                       else (let (t, m1) = hrt_absolute_time m in (t - rc_last_print_time m > 5000000, m1)))
      in if due
         then (let (t, m2) = hrt_absolute_time
                 (log_crit ''[commander] CRITICAL - NO REMOTE SIGNAL!''
                   (upd_status (\<lambda>s. s\<lparr>rc_signal_cutting_off := True\<rparr>) m1))
               in m2\<lparr>rc_last_print_time := t\<rparr>)
         else m1)"

definition rc_missing :: "commander_task \<Rightarrow> commander_task" where
  "rc_missing m =
     (let (t, m1) = hrt_absolute_time (rc_warning m);
          m2 = upd_status (\<lambda>s. s\<lparr>rc_signal_lost_interval := t - man_timestamp (sp_man m1)\<rparr>) m1
      in if rc_signal_lost_interval (status m2) > 1000000
         then (upd_status (\<lambda>s. s\<lparr>rc_signal_lost := True, failsave_lowlevel := True\<rparr>) m2)
                \<lparr>state_changed := True\<rparr>
         else m2)"

definition check_rc :: "commander_task \<Rightarrow> commander_task option" where
  "check_rc m =
     (if \<not> offboard_control_signal_found_once (status m) \<and> man_timestamp (sp_man m) \<noteq> 0
      then (let (t, m1) = hrt_absolute_time m
            in if t - man_timestamp (sp_man m1) < 100000
               then do { m2 \<leftarrow> check_stick_off m1;
                         m3 \<leftarrow> check_stick_on m2;
                         m4 \<leftarrow> check_mode_switch m3;
                         Some (rc_regained m4) }
               else Some (rc_missing m1))
      else Some m)"

section \<open>Offboard control\<close>

definition set_offboard_control_mode :: "commander_task \<Rightarrow> commander_task" where
  "set_offboard_control_mode m =
     (let att = (if off_mode (sp_offboard m) \<in> {OFFBOARD_CONTROL_MODE_DIRECT_ATTITUDE,
                     OFFBOARD_CONTROL_MODE_DIRECT_VELOCITY, OFFBOARD_CONTROL_MODE_DIRECT_POSITION}
                 then 1 else 0);
          m1 = (if flag_control_attitude_enabled (status m) \<noteq> att
                then (upd_status (\<lambda>s. s\<lparr>flag_control_attitude_enabled := att\<rparr>) m)\<lparr>state_changed := True\<rparr>
                else m)
      in if flag_control_rates_enabled (status m1) \<noteq> 1
         then (upd_status (\<lambda>s. s\<lparr>flag_control_rates_enabled := 1\<rparr>) m1)\<lparr>state_changed := True\<rparr>
         else m1)"

definition offboard_regained :: "commander_task \<Rightarrow> commander_task" where
  "offboard_regained m =
     (let m1 = (if \<not> offboard_control_signal_found_once (status m)
                then log_crit ''[commander] DETECTED OFFBOARD CONTROL SIGNAL FIRST TIME.''
                       ((upd_status (\<lambda>s. s\<lparr>offboard_control_signal_found_once := True,
                          flag_control_manual_enabled := False, flag_control_offboard_enabled := True\<rparr>) m)
                        \<lparr>state_changed := True\<rparr>)
                else if offboard_control_signal_lost (status m)
                then (log_crit ''[commander] RECOVERY - OFFBOARD CONTROL SIGNAL GAINED!'' m)
                       \<lparr>state_changed := True\<rparr>
                else m)
      in upd_status (\<lambda>s. s\<lparr>offboard_control_signal_weak := False, offboard_control_signal_lost := False,
                           offboard_control_signal_lost_interval := 0\<rparr>) m1)"

definition offboard_arming :: "commander_task \<Rightarrow> commander_task option" where
  "offboard_arming m =
     (if off_armed (sp_offboard m) \<and> \<not> flag_system_armed (status m)
      then do { m1 \<leftarrow> call update_state_machine_arm m; call update_state_machine_mode_stabilized m1 }
      else if \<not> off_armed (sp_offboard m) \<and> flag_system_armed (status m)
      then call update_state_machine_disarm m
      else Some m)"

definition offboard_warning :: "commander_task \<Rightarrow> commander_task" where
  "offboard_warning m =
     (let (due, m1) = (if \<not> offboard_control_signal_weak (status m) then (True, m)
                       else (let (t, m1) = hrt_absolute_time m
                             in (t - offboard_last_print_time m > 5000000, m1)))
      in if due
         then (let (t, m2) = hrt_absolute_time
                 (log_crit ''[commander] CRITICAL - NO OFFBOARD CONTROL SIGNAL!''
                   (upd_status (\<lambda>s. s\<lparr>offboard_control_signal_weak := True\<rparr>) m1))
               in m2\<lparr>offboard_last_print_time := t\<rparr>)
         else m1)"

definition offboard_missing :: "commander_task \<Rightarrow> commander_task" where
  "offboard_missing m =
     (let (t, m1) = hrt_absolute_time (offboard_warning m);
          m2 = upd_status (\<lambda>s. s\<lparr>offboard_control_signal_lost_interval :=
                                  t - off_timestamp (sp_offboard m1)\<rparr>) m1
      in if offboard_control_signal_lost_interval (status m2) > 100000
         then (let m3 = upd_status (\<lambda>s. s\<lparr>offboard_control_signal_lost := True\<rparr>) m2;
                   (t1, m4) = hrt_absolute_time m3;
                   m5 = upd_status (\<lambda>s. s\<lparr>failsave_lowlevel_start_time := t1, failsave_lowlevel := True\<rparr>) m4;
                   (t2, m6) = hrt_absolute_time m5
               in if t2 - failsave_lowlevel_start_time (status m6) >
                     ucast (failsafe_lowlevel_timeout_ms m6 * 1000)
                  then m6\<lparr>state_changed := True\<rparr> else m6)
         else m2)"

definition check_offboard :: "commander_task \<Rightarrow> commander_task option" where
  "check_offboard m =
     (if \<not> rc_signal_found_once (status m) \<and> off_timestamp (sp_offboard m) \<noteq> 0
      then (let (t, m1) = hrt_absolute_time m
            in if t - off_timestamp (sp_offboard m1) < 5000000
               then offboard_arming (offboard_regained (set_offboard_control_mode m1))
               else Some (offboard_missing m1))
      else Some m)"

section \<open>One turn\<close>

definition read_setpoints :: "turn_input \<Rightarrow> commander_task \<Rightarrow> commander_task" where
  "read_setpoints i m =
     m\<lparr>sp_man := (case new_sp_man i of None \<Rightarrow> sp_man m | Some sp \<Rightarrow> sp),
       sp_offboard := (case new_sp_offboard i of None \<Rightarrow> sp_offboard m | Some sp \<Rightarrow> sp)\<rparr>"

definition stamp_status :: "commander_task \<Rightarrow> commander_task" where
  "stamp_status m =
     (let m1 = upd_status (\<lambda>s. s\<lparr>counter := counter s + 1\<rparr>) m;
          (t, m2) = hrt_absolute_time m1
      in upd_status (\<lambda>s. s\<lparr>timestamp := t\<rparr>) m2)"

text \<open>
  A commander that finds itself in preflight, with no calibration going on, goes to standby.
\<close>

definition leave_preflight :: "commander_task \<Rightarrow> commander_task option" where
  "leave_preflight m =
     (let s = status m
      in if state_machine s = SYSTEM_STATE_PREFLIGHT \<and> \<not> flag_preflight_gyro_calibration s \<and>
            \<not> flag_preflight_mag_calibration s \<and> \<not> flag_preflight_accel_calibration s
         then call (do_state_update SYSTEM_STATE_STANDBY) m
         else Some m)"

definition publish_turn :: "commander_task \<Rightarrow> commander_task" where
  "publish_turn m =
     (if every 1 m = 0 \<or> state_changed m
      then (let c = publish_armed_status (core m)
            in m\<lparr>core := c\<lparr>pub_status := pub_status c @ [current_status c]\<rparr>, state_changed := False\<rparr>)
      else m)"

definition commander_turn :: "param_table \<Rightarrow> turn_input \<Rightarrow> commander_task \<Rightarrow> commander_task option" where
  "commander_turn T i m = do {
     m1 \<leftarrow> update_bat_remain T i (read_setpoints i m);
     m2 \<leftarrow> check_battery i (battery_alarm i (slow_checks i m1));
     m3 \<leftarrow> check_rc m2;
     m4 \<leftarrow> check_offboard m3;
     m5 \<leftarrow> leave_preflight (stamp_status m4);
     let m6 = publish_turn m5;
     Some (m6\<lparr>loop_counter := loop_counter m6 + 1\<rparr>) }"


section \<open>Facts about the blocks\<close>

lemma counter_limits:
  "LOW_VOLTAGE_BATTERY_COUNTER_LIMIT = f32_of_int 20"
  "CRITICAL_VOLTAGE_BATTERY_COUNTER_LIMIT = f32_of_int 2"
  "STICK_ON_OFF_COUNTER_LIMIT = f32_of_int 20"
  by code_simp+

lemma above_limit_stick: "above_limit (uint (n :: u16)) STICK_ON_OFF_COUNTER_LIMIT \<longleftrightarrow> 20 < n"
proof -
  have "uint n < 2 ^ 24" using uint_bounded [of n] by simp
  then show ?thesis
    by (simp add: above_limit_def counter_limits f32_lt_of_int word_less_def)
qed

lemma every_second: "every 1 m = uint (loop_counter m) mod 20"
  by (simp add: every_def COMMANDER_MONITORING_INTERVAL_def)

text \<open>The core as the blocks leave it.\<close>

lemma core_upd_status [simp]: "core (upd_status f m) = upd f (core m)"
  by (simp add: upd_status_def)

lemma core_log_crit [simp]: "core (log_crit msg m) = mavlink_log_critical msg (core m)"
  by (simp add: log_crit_def)

definition same_signals :: "commander \<Rightarrow> commander \<Rightarrow> bool" where
  "same_signals c d \<longleftrightarrow> hrt c = hrt d \<and> pub_status c = pub_status d \<and> pub_armed c = pub_armed d \<and>
     same_state (current_status c) (current_status d)"

lemma same_signals_refl [simp]: "same_signals c c"
  by (simp add: same_signals_def same_state_def)

lemma same_signals_trans: "same_signals a b \<Longrightarrow> same_signals b c \<Longrightarrow> same_signals a c"
  by (simp add: same_signals_def same_state_def)

lemma same_signals_inv: "same_signals c d \<Longrightarrow> commander_inv d \<Longrightarrow> commander_inv c"
  by (auto simp: same_signals_def same_state_def commander_inv_def)

lemma same_signals_view: "same_signals c d \<Longrightarrow> view c = view d"
  by (simp add: same_signals_def same_state_def view_def)

lemma same_signals_steps [simp]:
  "same_signals (core (snd (hrt_absolute_time m))) d = same_signals (core m) d"
  "same_signals (mavlink_log_critical msg c) d = same_signals c d"
  by (simp_all add: hrt_absolute_time_def mavlink_log_critical_def same_signals_def)

lemma same_signals_upd [simp]:
  "state_machine s = state_machine (current_status c) \<Longrightarrow>
   flag_system_armed s = flag_system_armed (current_status c) \<Longrightarrow>
   flag_hil_enabled s = flag_hil_enabled (current_status c) \<Longrightarrow>
   same_signals (c\<lparr>current_status := s\<rparr>) d = same_signals c d"
  by (simp add: same_signals_def same_state_def)

lemma core_leds [simp]: "core (led_toggle l m) = core m" "core (tone ns m) = core m"
  by (cases l) (simp_all add: tone_def)

lemma same_signals_indicators:
  "same_signals (core (slow_checks i m)) (core m)"
  "same_signals (core (battery_alarm i m)) (core m)"
  "same_signals (core (read_setpoints i m)) (core m)"
  by (simp_all add: slow_checks_def toggle_activity_led_def toggle_error_led_def update_load_def
      battery_alarm_def read_setpoints_def Let_def)

lemma same_signals_warnings [simp]:
  "same_signals (core (rc_warning m)) d = same_signals (core m) d"
  "same_signals (core (offboard_warning m)) d = same_signals (core m) d"
  by (simp_all add: rc_warning_def offboard_warning_def prod.case_eq_if Let_def)

lemma same_signals_of_signals:
  "same_signals (core (rc_regained m)) (core m)"
  "same_signals (core (rc_missing m)) (core m)"
  "same_signals (core (set_offboard_control_mode m)) (core m)"
  "same_signals (core (offboard_regained m)) (core m)"
  "same_signals (core (offboard_missing m)) (core m)"
  "same_signals (core (stamp_status m)) (core m)"
  by (simp_all add: rc_regained_def rc_missing_def set_offboard_control_mode_def
      offboard_regained_def offboard_missing_def stamp_status_def
      prod.case_eq_if Let_def)

lemmas same_signals_blocks = same_signals_indicators same_signals_of_signals

text \<open>
  \<open>frame m m'\<close>: \<open>m'\<close> has the parameters, setpoints, stick counters and turn number of \<open>m\<close>.
\<close>

definition frame :: "commander_task \<Rightarrow> commander_task \<Rightarrow> bool" where
  "frame m m' \<longleftrightarrow> store m' = store m \<and> sp_man m' = sp_man m \<and> sp_offboard m' = sp_offboard m \<and>
     stick_on_counter m' = stick_on_counter m \<and> stick_off_counter m' = stick_off_counter m \<and>
     loop_counter m' = loop_counter m"

lemma frame_refl [simp]: "frame m m" by (simp add: frame_def)

lemma frame_trans: "frame a b \<Longrightarrow> frame b c \<Longrightarrow> frame a c" by (simp add: frame_def)

lemma frame_core [simp]: "frame m (m\<lparr>core := c\<rparr>)" by (simp add: frame_def)

lemma frame_updates [simp]:
  "frame a (upd_status f m) = frame a m" "frame a (log_crit msg m) = frame a m"
  "frame a (snd (hrt_absolute_time m)) = frame a m"
  "frame a (m\<lparr>state_changed := b\<rparr>) = frame a m" "frame a (m\<lparr>ioctls := l\<rparr>) = frame a m"
  "frame a (m\<lparr>last_blue := b\<rparr>) = frame a m" "frame a (m\<lparr>last_amber := b\<rparr>) = frame a m"
  "frame a (m\<lparr>last_idle_time := t\<rparr>) = frame a m"
  "frame a (m\<lparr>rc_last_print_time := t\<rparr>) = frame a m"
  "frame a (m\<lparr>offboard_last_print_time := t\<rparr>) = frame a m"
  "frame a (m\<lparr>core := c\<rparr>) = frame a m"
  by (simp_all add: upd_status_def log_crit_def hrt_absolute_time_def frame_def)

lemma frame_leds [simp]: "frame a (led_toggle l m) = frame a m" "frame a (tone ns m) = frame a m"
  by (cases l) (simp_all add: tone_def)

lemma frame_indicators:
  "frame m (slow_checks i m)" "frame m (battery_alarm i m)"
  by (simp_all add: slow_checks_def toggle_activity_led_def toggle_error_led_def update_load_def
      battery_alarm_def Let_def)

lemma frame_warnings [simp]:
  "frame a (rc_warning m) = frame a m" "frame a (offboard_warning m) = frame a m"
  by (simp_all add: rc_warning_def offboard_warning_def prod.case_eq_if Let_def)

lemma frame_signals:
  "frame m (rc_regained m)" "frame m (rc_missing m)" "frame m (set_offboard_control_mode m)"
  "frame m (offboard_regained m)" "frame m (stamp_status m)" "frame m (publish_turn m)"
  by (simp_all add: rc_regained_def rc_missing_def set_offboard_control_mode_def
      offboard_regained_def stamp_status_def publish_turn_def prod.case_eq_if Let_def)

lemma frame_offboard_missing: "frame m (offboard_missing m)"
  by (simp add: offboard_missing_def prod.case_eq_if Let_def)

lemmas frame_blocks = frame_indicators frame_signals frame_offboard_missing

lemma get_float_total:
  assumes "param_inv T s"
  shows "\<exists>v. get_float T p old s = Some v"
proof (cases "handle_in_range T p")
  case True
  then show ?thesis using param_get_value [OF assms True] by (simp add: get_float_def)
next
  case False
  then show ?thesis by (simp add: get_float_def param_get_def param_get_value_ptr_def param_size_def)
qed

lemma estimate_total:
  assumes "param_inv T s"
  shows "\<exists>r b'. battery_remaining_estimate_voltage T n 0 v s b = Some (r, b')"
proof -
  define b1 where "b1 = (if est_initialized b then b
      else b\<lparr>bat_volt_empty := param_find T (ascii ''BAT_V_EMPTY''),
             bat_volt_full := param_find T (ascii ''BAT_V_FULL''), est_initialized := True\<rparr>)"
  obtain e f where "get_float T (bat_volt_empty b1) 0x404CCCCD s = Some e"
    "get_float T (bat_volt_full b1) 0x4081999A s = Some f"
    using get_float_total [OF assms] by blast
  then show ?thesis
    unfolding battery_remaining_estimate_voltage_def Let_def b1_def [symmetric] by simp
qed

text \<open>The stick counters: a turn counts at most one gesture, and arms after more than 20.\<close>

definition stick_on :: "commander_task \<Rightarrow> nat" where
  "stick_on m = unat (stick_on_counter m)"

definition gesture :: "manual_control_setpoint \<Rightarrow> nat" where
  "gesture sp = (if stick_on_gesture sp then 1 else 0)"

text \<open>What the remote control check keeps.\<close>

definition same_inputs :: "commander_task \<Rightarrow> commander_task \<Rightarrow> bool" where
  "same_inputs m m' \<longleftrightarrow> store m' = store m \<and> sp_man m' = sp_man m \<and> sp_offboard m' = sp_offboard m \<and>
     loop_counter m' = loop_counter m"

lemma frame_same_inputs: "frame m m' \<Longrightarrow> same_inputs m m' \<and> stick_on m' = stick_on m"
  by (simp add: frame_def same_inputs_def stick_on_def)

text \<open>The state after the setpoints were read.\<close>

definition current_man :: "turn_input \<Rightarrow> commander_task \<Rightarrow> manual_control_setpoint" where
  "current_man i m = (case new_sp_man i of None \<Rightarrow> sp_man m | Some sp \<Rightarrow> sp)"

definition current_offboard :: "turn_input \<Rightarrow> commander_task \<Rightarrow> offboard_control_setpoint" where
  "current_offboard i m = (case new_sp_offboard i of None \<Rightarrow> sp_offboard m | Some sp \<Rightarrow> sp)"

text \<open>
  Why a turn may arm: a gesture after more than 20 counted ones, or an offboard setpoint that asks
  for it.
\<close>

definition arming_turn :: "turn_input \<Rightarrow> commander_task \<Rightarrow> bool" where
  "arming_turn i m \<longleftrightarrow> (stick_on_gesture (current_man i m) \<and> 20 < stick_on m) \<or>
     off_armed (current_offboard i m)"

definition task_inv :: "param_table \<Rightarrow> commander_task \<Rightarrow> bool" where
  "task_inv T m \<longleftrightarrow> commander_inv (core m) \<and> param_inv T (store m)"


text \<open>The calls the loop makes, and its publication.\<close>

definition loop_event :: "commander_event \<Rightarrow> bool" where
  "loop_event e \<longleftrightarrow> e \<in> {Arm, Disarm, Mode_manual, Mode_stabilized, Mode_auto, Emergency}"

definition publish_both :: "commander \<Rightarrow> commander" where
  "publish_both c = (let d = publish_armed_status c in d\<lparr>pub_status := pub_status d @ [current_status d]\<rparr>)"

lemma call_next: "call f m = map_option (\<lambda>c. m\<lparr>core := c\<rparr>) (next_commander (f (core m)))"
  by (cases "f (core m)") (simp_all add: call_def)

section \<open>The contract of the state machine with the loop\<close>

definition keeps ::
  "(commander \<Rightarrow> bool) \<Rightarrow> (bool \<Rightarrow> commander \<Rightarrow> commander \<Rightarrow> bool) \<Rightarrow> bool \<Rightarrow> commander_task \<Rightarrow> commander_task \<Rightarrow> bool" where
  "keeps P R a m m' \<longleftrightarrow> P (core m') \<and> R a (core m) (core m')"

text \<open>
  What the loop needs of the state machine to get through a turn: a condition \<open>P\<close> under which
  the calls it makes return and which they keep, and a relation \<open>R a\<close> between the states before
  and after, where \<open>a\<close> says that arming was called for. Everything else the loop does
  leaves the signals alone.
\<close>

locale loop_contract =
  fixes P :: "commander \<Rightarrow> bool"
    and R :: "bool \<Rightarrow> commander \<Rightarrow> commander \<Rightarrow> bool"
  assumes R_trans: "R a x y \<Longrightarrow> R b y z \<Longrightarrow> R (a \<or> b) x z"
    and R_weaken: "R a x y \<Longrightarrow> (a \<Longrightarrow> b) \<Longrightarrow> R b x y"
    and quiet: "P c \<Longrightarrow> same_signals d c \<Longrightarrow> P d \<and> R False c d"
    and event: "P c \<Longrightarrow> loop_event e \<Longrightarrow>
      \<exists>d. commander_step e c = Some d \<and> P d \<and> R (e = Arm) c d"
    and standby: "P c \<Longrightarrow> state_machine (current_status c) = SYSTEM_STATE_PREFLIGHT \<Longrightarrow>
      \<exists>d. next_commander (do_state_update SYSTEM_STATE_STANDBY c) = Some d \<and> P d \<and> R False c d"
    and published: "P c \<Longrightarrow> P (publish_both c) \<and> R False c (publish_both c)"
begin

abbreviation good :: "bool \<Rightarrow> commander_task \<Rightarrow> commander_task \<Rightarrow> bool" where
  "good \<equiv> keeps P R"

lemma good_trans: "good a x y \<Longrightarrow> good b y z \<Longrightarrow> good (a \<or> b) x z"
  using R_trans by (auto simp: keeps_def)

lemma good_weaken: "good a m m' \<Longrightarrow> (a \<Longrightarrow> b) \<Longrightarrow> good b m m'"
  using R_weaken by (auto simp: keeps_def)

lemma good_inv: "good a m m' \<Longrightarrow> P (core m')"
  by (simp add: keeps_def)

lemma good_same: "P (core m) \<Longrightarrow> same_signals (core m') (core m) \<Longrightarrow> good a m m'"
  using quiet [of "core m" "core m'"] R_weaken [of False "core m" "core m'" a] by (simp add: keeps_def)

lemma good_counters [simp]:
  "good a m (m'\<lparr>stick_on_counter := n\<rparr>) = good a m m'"
  "good a m (m'\<lparr>stick_off_counter := n\<rparr>) = good a m m'"
  by (simp_all add: keeps_def)

lemma good_refl: "P (core m) \<Longrightarrow> good a m m"
  by (rule good_same) simp_all

lemma call_good:
  assumes "P (core m)" "next_commander (f (core m)) = commander_step e (core m)" "loop_event e"
  shows "\<exists>c. call f m = Some (m\<lparr>core := c\<rparr>) \<and> good (e = Arm) m (m\<lparr>core := c\<rparr>)"
  using event [OF assms(1,3)] assms(2) by (auto simp: call_next keeps_def)

text \<open>The blocks that may change the state.\<close>

lemma check_battery_good:
  assumes "P (core m)"
  shows "\<exists>m'. check_battery i m = Some m' \<and> good False m m' \<and> frame m m'"
proof -
  define m0 where "m0 = upd_status (\<lambda>s. s\<lparr>voltage_battery := battery_voltage_v i\<rparr>) m"
  have s0: "same_signals (core m0) (core m)" by (simp add: m0_def)
  have f0: "frame m m0" by (simp add: m0_def upd_status_def)
  define m1 where "m1 = log_crit ''[commander] EMERGENCY! CIRITICAL BATTERY!''
      (m0\<lparr>critical_battery_voltage_actions_done := True\<rparr>)"
  have s1: "same_signals (core m1) (core m)" by (simp add: m1_def s0)
  have f1: "frame m m1" using f0 by (simp add: m1_def log_crit_def frame_def)
  have "P (core m1)" using quiet [OF assms s1] by simp
  then obtain c where c: "call state_machine_emergency m1 = Some (m1\<lparr>core := c\<rparr>)"
    "good False m1 (m1\<lparr>core := c\<rparr>)"
    using call_good [of m1 state_machine_emergency Emergency] by (auto simp: loop_event_def)
  have g1: "good False m m1" using assms s1 by (rule good_same)
  have gc: "good False m (m1\<lparr>core := c\<rparr>)" using good_trans [OF g1 c(2)] by simp
  have gw: "good False m x \<Longrightarrow> core y = core x \<Longrightarrow> good False m y" for x y by (simp add: keeps_def)
  have g0: "good False m m0" using assms s0 by (rule good_same)
  have gl: "good False m (log_crit msg m0)" for msg using assms s0 by (auto intro: good_same)
  show ?thesis
    unfolding check_battery_def Let_def m0_def [symmetric] m1_def [symmetric]
    using c(1) gw [OF gc] gw [OF g0] gw [OF gl] f0 f1
    by (auto simp: frame_def log_crit_def)
qed


lemma update_bat_remain_good:
  assumes "P (core m)" "param_inv T (store m)"
  shows "\<exists>m'. update_bat_remain T i m = Some m' \<and> good False m m' \<and> frame m m'"
proof -
  define m1 where "m1 = snd (hrt_absolute_time m)"
  have m1: "same_signals (core m1) (core m)" "frame m m1" "store m1 = store m"
    by (simp_all add: m1_def) (simp add: hrt_absolute_time_def)
  obtain r b where rb: "battery_remaining_estimate_voltage T 3 0 (battery_voltage_v i) (store m1) (battery m1) = Some (r, b)"
    using estimate_total assms(2) m1(3) by metis
  have "same_signals (core (m1\<lparr>bat_remain := r, battery := b\<rparr>)) (core m)"
    "frame m (m1\<lparr>bat_remain := r, battery := b\<rparr>)"
    using m1 by (simp_all add: frame_def)
  then show ?thesis
    using m1 rb assms(1) good_refl [OF assms(1)]
    by (auto simp: update_bat_remain_def prod.case_eq_if Let_def m1_def intro: good_same)
qed

lemma check_stick_off_good:
  assumes "P (core m)"
  shows "\<exists>m'. check_stick_off m = Some m' \<and> good False m m' \<and> same_inputs m m' \<and> stick_on m' \<le> stick_on m"
proof -
  obtain c where "call update_state_machine_disarm m = Some (m\<lparr>core := c\<rparr>)"
    "good (Disarm = Arm) m (m\<lparr>core := c\<rparr>)"
    using call_good [OF assms, of update_state_machine_disarm Disarm] by (auto simp: loop_event_def)
  then show ?thesis
    using good_refl [OF assms] by (auto simp: check_stick_off_def same_inputs_def stick_on_def)
qed

lemma check_stick_on_good:
  assumes "P (core m)"
  shows "\<exists>m'. check_stick_on m = Some m' \<and>
    good (stick_on_gesture (sp_man m) \<and> 20 < stick_on m) m m' \<and> same_inputs m m' \<and>
    stick_on m' \<le> stick_on m + gesture (sp_man m)"
proof -
  obtain c where c: "call update_state_machine_arm m = Some (m\<lparr>core := c\<rparr>)"
    "good (Arm = Arm) m (m\<lparr>core := c\<rparr>)"
    using call_good [OF assms, of update_state_machine_arm Arm] by (auto simp: loop_event_def)
  have n: "20 < stick_on_counter m \<longleftrightarrow> 20 < stick_on m"
    by (simp add: stick_on_def word_less_nat_alt)
  have "unat (stick_on_counter m + 1) \<le> Suc (stick_on m)"
    by (simp add: stick_on_def unat_word_ariths)
  then show ?thesis
    using c good_refl [OF assms] good_weaken [OF c(2)] n
    by (auto simp: check_stick_on_def above_limit_stick same_inputs_def stick_on_def gesture_def)
qed

lemma check_mode_switch_good:
  assumes "P (core m)"
  shows "\<exists>m'. check_mode_switch m = Some m' \<and> good False m m' \<and> frame m m'"
proof -
  obtain a b c where
    "call update_state_machine_mode_manual m = Some (m\<lparr>core := a\<rparr>)"
    "good (Mode_manual = Arm) m (m\<lparr>core := a\<rparr>)"
    "call update_state_machine_mode_auto m = Some (m\<lparr>core := b\<rparr>)"
    "good (Mode_auto = Arm) m (m\<lparr>core := b\<rparr>)"
    "call update_state_machine_mode_stabilized m = Some (m\<lparr>core := c\<rparr>)"
    "good (Mode_stabilized = Arm) m (m\<lparr>core := c\<rparr>)"
    using call_good [OF assms, of update_state_machine_mode_manual Mode_manual]
      call_good [OF assms, of update_state_machine_mode_auto Mode_auto]
      call_good [OF assms, of update_state_machine_mode_stabilized Mode_stabilized]
    by (auto simp: loop_event_def)
  then show ?thesis by (auto simp: check_mode_switch_def Let_def)
qed

lemma check_rc_good:
  assumes "P (core m)"
  shows "\<exists>m'. check_rc m = Some m' \<and>
    good (stick_on_gesture (sp_man m) \<and> 20 < stick_on m) m m' \<and> same_inputs m m' \<and>
    stick_on m' \<le> stick_on m + gesture (sp_man m)"
proof -
  define m1 where "m1 = snd (hrt_absolute_time m)"
  have m1: "good False m m1" "frame m m1"
    using good_same [OF assms] by (simp_all add: m1_def)
  note i1 = good_inv [OF m1(1)] and s1 = frame_same_inputs [OF m1(2)]
  obtain m2 where m2: "check_stick_off m1 = Some m2" "good False m1 m2" "same_inputs m1 m2"
    "stick_on m2 \<le> stick_on m1"
    using check_stick_off_good [OF i1] by blast
  obtain m3 where m3: "check_stick_on m2 = Some m3"
    "good (stick_on_gesture (sp_man m2) \<and> 20 < stick_on m2) m2 m3" "same_inputs m2 m3"
    "stick_on m3 \<le> stick_on m2 + gesture (sp_man m2)"
    using check_stick_on_good [OF good_inv [OF m2(2)]] by blast
  obtain m4 where m4: "check_mode_switch m3 = Some m4" "good False m3 m4" "frame m3 m4"
    using check_mode_switch_good [OF good_inv [OF m3(2)]] by blast
  have m5: "good False m4 (rc_regained m4)" "frame m4 (rc_regained m4)"
    using good_same [OF good_inv [OF m4(2)]] same_signals_blocks frame_blocks by blast+
  have g: "good (stick_on_gesture (sp_man m) \<and> 20 < stick_on m) m (rc_regained m4)"
    using good_trans [OF good_trans [OF good_trans [OF good_trans [OF m1(1) m2(2)] m3(2)] m4(2)] m5(1)]
      s1 m2(3,4) by (elim good_weaken) (auto simp: same_inputs_def)
  have k: "same_inputs m (rc_regained m4)" "stick_on (rc_regained m4) \<le> stick_on m + gesture (sp_man m)"
    using s1 m2 m3 frame_same_inputs [OF m4(3)] frame_same_inputs [OF m5(2)]
    by (auto simp: same_inputs_def)
  have x: "good False m1 (rc_missing m1)" "frame m1 (rc_missing m1)"
    using good_same [OF i1] same_signals_blocks frame_blocks by blast+
  have gx: "good False m (rc_missing m1)" "frame m (rc_missing m1)"
    using good_trans [OF m1(1) x(1)] frame_trans [OF m1(2) x(2)] by simp_all
  then have kx: "same_inputs m (rc_missing m1)" "stick_on (rc_missing m1) \<le> stick_on m + gesture (sp_man m)"
    using frame_same_inputs [OF gx(2)] by simp_all
  have gx': "good (stick_on_gesture (sp_man m) \<and> 20 < stick_on m) m (rc_missing m1)"
    using gx(1) by (rule good_weaken) simp
  have z: "good (stick_on_gesture (sp_man m) \<and> 20 < stick_on m) m m" "same_inputs m m"
    using good_refl [OF assms] by (simp_all add: same_inputs_def)
  show ?thesis
    unfolding check_rc_def prod.case_eq_if Let_def m1_def [symmetric]
    using g k gx' kx z m2(1) m3(1) m4(1) by simp
qed


lemma good_blocks:
  assumes "P (core m)"
  shows "good False m (battery_alarm i (slow_checks i m))" "frame m (battery_alarm i (slow_checks i m))"
    "good False m (set_offboard_control_mode m)" "frame m (set_offboard_control_mode m)"
    "good False m (offboard_regained m)" "frame m (offboard_regained m)"
    "good False m (offboard_missing m)" "frame m (offboard_missing m)"
    "good False m (stamp_status m)" "frame m (stamp_status m)"
proof -
  have "same_signals (core (battery_alarm i (slow_checks i m))) (core m)"
    by (rule same_signals_trans [OF same_signals_blocks(2) same_signals_blocks(1)])
  then show "good False m (battery_alarm i (slow_checks i m))" by (rule good_same [OF assms])
  show "frame m (battery_alarm i (slow_checks i m))"
    by (rule frame_trans [OF frame_blocks(1) frame_blocks(2)])
qed (use assms in \<open>intro good_same same_signals_blocks frame_blocks | assumption\<close>)+

lemma offboard_arming_good:
  assumes "P (core m)"
  shows "\<exists>m'. offboard_arming m = Some m' \<and> good (off_armed (sp_offboard m)) m m' \<and> frame m m'"
proof -
  obtain a where a: "call update_state_machine_arm m = Some (m\<lparr>core := a\<rparr>)"
    "good (Arm = Arm) m (m\<lparr>core := a\<rparr>)"
    using call_good [OF assms, of update_state_machine_arm Arm] by (auto simp: loop_event_def)
  have "P (core (m\<lparr>core := a\<rparr>))" using a(2) by (rule good_inv)
  then obtain b where b: "call update_state_machine_mode_stabilized (m\<lparr>core := a\<rparr>) = Some (m\<lparr>core := b\<rparr>)"
    "good (Mode_stabilized = Arm) (m\<lparr>core := a\<rparr>) (m\<lparr>core := b\<rparr>)"
    using call_good [of "m\<lparr>core := a\<rparr>" update_state_machine_mode_stabilized Mode_stabilized]
    by (auto simp: loop_event_def)
  obtain c where c: "call update_state_machine_disarm m = Some (m\<lparr>core := c\<rparr>)"
    "good (Disarm = Arm) m (m\<lparr>core := c\<rparr>)"
    using call_good [OF assms, of update_state_machine_disarm Disarm] by (auto simp: loop_event_def)
  have "good (Arm = Arm) m (m\<lparr>core := b\<rparr>)" using good_trans [OF a(2) b(2)] by simp
  then show ?thesis
    using a b c good_refl [OF assms] good_weaken by (auto simp: offboard_arming_def)
qed

lemma check_offboard_good:
  assumes "P (core m)"
  shows "\<exists>m'. check_offboard m = Some m' \<and> good (off_armed (sp_offboard m)) m m' \<and> frame m m'"
proof -
  define m1 where "m1 = snd (hrt_absolute_time m)"
  have m1: "good False m m1" "frame m m1"
    using good_same [OF assms] by (simp_all add: m1_def)
  note i1 = good_inv [OF m1(1)]
  define m2 where "m2 = set_offboard_control_mode m1"
  have m2: "good False m1 m2" "frame m1 m2"
    unfolding m2_def by (rule good_blocks [OF i1])+
  define m3 where "m3 = offboard_regained m2"
  have m3: "good False m2 m3" "frame m2 m3"
    unfolding m3_def by (rule good_blocks [OF good_inv [OF m2(1)]])+
  obtain m4 where m4: "offboard_arming m3 = Some m4" "good (off_armed (sp_offboard m3)) m3 m4" "frame m3 m4"
    using offboard_arming_good [OF good_inv [OF m3(1)]] by blast
  have f: "frame m m3" using m1 m2 m3 by (blast intro: frame_trans)
  then have o: "sp_offboard m3 = sp_offboard m" by (simp add: frame_def)
  have g: "good (off_armed (sp_offboard m)) m m4" "frame m m4"
    using good_trans [OF good_trans [OF good_trans [OF m1(1) m2(1)] m3(1)] m4(2)] frame_trans [OF f m4(3)]
    by (simp_all add: o)
  have x: "good False m1 (offboard_missing m1)" "frame m1 (offboard_missing m1)"
    by (rule good_blocks [OF i1])+
  have "good False m (offboard_missing m1)" using good_trans [OF m1(1) x(1)] by simp
  then have gx: "good (off_armed (sp_offboard m)) m (offboard_missing m1)" "frame m (offboard_missing m1)"
    using good_weaken [of False m "offboard_missing m1"] frame_trans [OF m1(2) x(2)] by simp_all
  show ?thesis
    unfolding check_offboard_def prod.case_eq_if Let_def m1_def [symmetric] m2_def [symmetric]
      m3_def [symmetric]
    using g gx m4(1) good_refl [OF assms] by simp
qed

lemma leave_preflight_good:
  assumes "P (core m)"
  shows "\<exists>m'. leave_preflight m = Some m' \<and> good False m m' \<and> frame m m'"
  using standby [OF assms] good_refl [OF assms]
  by (auto simp: leave_preflight_def call_next keeps_def Let_def)

lemma publish_turn_good:
  assumes "P (core m)"
  shows "good False m (publish_turn m)"
  using published [OF assms] good_refl [OF assms]
  by (auto simp: publish_turn_def publish_both_def keeps_def Let_def)

lemma turn_good:
  assumes "P (core m)" "param_inv T (store m)"
  shows "\<exists>m7. commander_turn T i m =
      Some ((publish_turn m7)\<lparr>loop_counter := loop_counter (publish_turn m7) + 1\<rparr>) \<and>
    good (arming_turn i m) m m7 \<and> good False m7 (publish_turn m7) \<and> store m7 = store m \<and>
    sp_man m7 = current_man i m \<and> sp_offboard m7 = current_offboard i m \<and>
    loop_counter m7 = loop_counter m \<and> stick_on m7 \<le> stick_on m + gesture (current_man i m)"
proof -
  note inv = assms(1) and ps = assms(2)
  define m0 where "m0 = read_setpoints i m"
  have m0: "good False m m0" "store m0 = store m" "sp_man m0 = current_man i m"
    "sp_offboard m0 = current_offboard i m" "loop_counter m0 = loop_counter m" "stick_on m0 = stick_on m"
    using good_same [OF inv, of m0] same_signals_blocks(3) [of i m]
    by (simp_all add: m0_def) (simp_all add: read_setpoints_def current_man_def current_offboard_def stick_on_def)
  obtain m1 where m1: "update_bat_remain T i m0 = Some m1" "good False m0 m1" "frame m0 m1"
    using update_bat_remain_good [OF good_inv [OF m0(1)]] ps m0(2) by auto
  define m2 where "m2 = battery_alarm i (slow_checks i m1)"
  have m2: "good False m1 m2" "frame m1 m2"
    unfolding m2_def by (rule good_blocks [OF good_inv [OF m1(2)]])+
  obtain m3 where m3: "check_battery i m2 = Some m3" "good False m2 m3" "frame m2 m3"
    using check_battery_good [OF good_inv [OF m2(1)]] by blast
  have f3: "frame m0 m3" using m1(3) m2(2) m3(3) by (blast intro: frame_trans)
  obtain m4 where m4: "check_rc m3 = Some m4"
    "good (stick_on_gesture (sp_man m3) \<and> 20 < stick_on m3) m3 m4" "same_inputs m3 m4"
    "stick_on m4 \<le> stick_on m3 + gesture (sp_man m3)"
    using check_rc_good [OF good_inv [OF m3(2)]] by blast
  obtain m5 where m5: "check_offboard m4 = Some m5" "good (off_armed (sp_offboard m4)) m4 m5" "frame m4 m5"
    using check_offboard_good [OF good_inv [OF m4(2)]] by blast
  define m6 where "m6 = stamp_status m5"
  have m6: "good False m5 m6" "frame m5 m6"
    unfolding m6_def by (rule good_blocks [OF good_inv [OF m5(2)]])+
  obtain m7 where m7: "leave_preflight m6 = Some m7" "good False m6 m7" "frame m6 m7"
    using leave_preflight_good [OF good_inv [OF m6(1)]] by blast
  have run: "commander_turn T i m = Some ((publish_turn m7)\<lparr>loop_counter := loop_counter (publish_turn m7) + 1\<rparr>)"
    unfolding commander_turn_def m0_def [symmetric]
    using m1(1) m3(1) m4(1) m5(1) m7(1) by (simp add: m2_def m6_def Let_def)
  have e3: "sp_man m3 = current_man i m" "sp_offboard m3 = current_offboard i m" "stick_on m3 = stick_on m"
    "store m3 = store m" "loop_counter m3 = loop_counter m"
    using f3 m0 by (simp_all add: frame_def stick_on_def)
  have e7: "frame m4 m7" using m5(3) m6(2) m7(3) by (blast intro: frame_trans)
  have m03: "good False m m3" using good_trans [OF good_trans [OF good_trans [OF m0(1) m1(2)] m2(1)] m3(2)] by simp
  have "good (arming_turn i m) m m7"
    by (rule good_weaken [OF good_trans [OF good_trans [OF m03 m4(2)] good_trans [OF m5(2) good_trans [OF m6(1) m7(2)]]]])
       (use m4(3) e3 in \<open>auto simp: arming_turn_def same_inputs_def\<close>)
  then show ?thesis
    using run e3 e7 m4(3,4) publish_turn_good [OF good_inv [OF m7(2)]]
    by (intro exI [of _ m7]) (auto simp: frame_def same_inputs_def stick_on_def)
qed

end

text \<open>
  What the loop does in a consistent state: it keeps the hardware-in-the-loop flag, arms only when
  called for, and takes no published order back.
\<close>

interpretation growing: effect_property "\<lambda>c. prefix orders (pub_armed c)" for orders
  by unfold_locales (auto simp: publish_defs)

definition watched :: "bool \<Rightarrow> commander \<Rightarrow> commander \<Rightarrow> bool" where
  "watched a c d \<longleftrightarrow> snd (view d) = snd (view c) \<and>
     (armed_state (fst (view d)) \<longrightarrow> armed_state (fst (view c)) \<or> a) \<and>
     prefix (pub_armed c) (pub_armed d)"

lemma watched_event:
  assumes "commander_inv c" "loop_event e"
  shows "\<exists>d. commander_step e c = Some d \<and> commander_inv d \<and> watched (e = Arm) c d"
proof -
  obtain st hil where v: "view c = (st, hil)" by fastforce
  obtain st' where s: "spec_step e (view c) = Some (st', hil)"
    and a: "armed_state st' \<longrightarrow> armed_state st \<or> e = Arm"
    using assms(2) unfolding v loop_event_def by (cases st) (auto simp: ready_or_flying_def)
  obtain d where d: "commander_step e c = Some d" "commander_inv d" "view d = (st', hil)"
    using commander_step_refines_inv [OF assms(1), of e] s by (auto split: option.splits)
  have "prefix (pub_armed c) (pub_armed d)" by (rule growing.step [OF _ d(1)]) simp
  then show ?thesis using a v d by (simp add: watched_def)
qed

lemma standby_returns:
  obtains d where "next_commander (do_state_update SYSTEM_STATE_STANDBY c) = Some d" "commander_inv d"
    "view d = (SYSTEM_STATE_STANDBY, snd (view c))" "prefix (pub_armed c) (pub_armed d)"
proof -
  obtain d where d: "go_state SYSTEM_STATE_STANDBY c = Returned () d" "commander_inv d"
    "view d = (SYSTEM_STATE_STANDBY, snd (view c))"
    by (rule go_state_enters [of SYSTEM_STATE_STANDBY c]) auto
  then have "next_commander (do_state_update SYSTEM_STATE_STANDBY c) = Some d"
    by (cases "do_state_update SYSTEM_STATE_STANDBY c") (auto simp: go_state_def)
  moreover have "prefix (pub_armed c) (pub_armed d)" by (rule growing.go [OF _ d(1)]) simp
  ultimately show ?thesis using that d by blast
qed

interpretation watch: loop_contract commander_inv watched
proof unfold_locales
  show "watched a c d \<Longrightarrow> watched b d e \<Longrightarrow> watched (a \<or> b) c e" for a b c d e
    by (auto simp: watched_def)
  show "watched a c d \<Longrightarrow> (a \<Longrightarrow> b) \<Longrightarrow> watched b c d" for a b c d
    by (auto simp: watched_def)
  show "commander_inv c \<Longrightarrow> same_signals d c \<Longrightarrow> commander_inv d \<and> watched False c d" for c d
    using same_signals_inv [of d c] same_signals_view [of d c] by (simp add: watched_def same_signals_def)
  show "commander_inv c \<Longrightarrow> loop_event e \<Longrightarrow>
      \<exists>d. commander_step e c = Some d \<and> commander_inv d \<and> watched (e = Arm) c d" for c e
    by (rule watched_event)
  show "\<exists>d. next_commander (do_state_update SYSTEM_STATE_STANDBY c) = Some d \<and> commander_inv d \<and> watched False c d" for c
    by (rule standby_returns [of c]) (auto simp: watched_def)
  show "commander_inv c \<Longrightarrow> commander_inv (publish_both c) \<and> watched False c (publish_both c)" for c
    by (auto simp: publish_both_def watched_def commander_inv_def same_state_def view_def
      publish_armed_status_def armed_of_def Let_def)
qed

lemma commander_turn_good:
  assumes "task_inv T m"
  shows "\<exists>m'. commander_turn T i m = Some m' \<and> commander_inv (core m') \<and>
    watched (arming_turn i m) (core m) (core m') \<and> store m' = store m \<and>
    sp_man m' = current_man i m \<and> sp_offboard m' = current_offboard i m \<and>
    loop_counter m' = loop_counter m + 1 \<and> stick_on m' \<le> stick_on m + gesture (current_man i m) \<and>
    (uint (loop_counter m) mod 20 = 0 \<longrightarrow>
       length (pub_armed (core m)) + 2 \<le> length (pub_armed (core m')))"
proof -
  have "commander_inv (core m)" "param_inv T (store m)" using assms by (simp_all add: task_inv_def)
  then obtain m7 where m7: "commander_turn T i m =
      Some ((publish_turn m7)\<lparr>loop_counter := loop_counter (publish_turn m7) + 1\<rparr>)"
    "commander_inv (core m7)" "watched (arming_turn i m) (core m) (core m7)"
    "commander_inv (core (publish_turn m7))" "watched False (core m7) (core (publish_turn m7))"
    "store m7 = store m" "sp_man m7 = current_man i m" "sp_offboard m7 = current_offboard i m"
    "loop_counter m7 = loop_counter m" "stick_on m7 \<le> stick_on m + gesture (current_man i m)"
    using watch.turn_good [of m T i] by (auto simp: keeps_def)
  have w: "watched (arming_turn i m) (core m) (core (publish_turn m7))"
    using watch.R_trans [OF m7(3,5)] by simp
  have "length (pub_armed (core m)) \<le> length (pub_armed (core m7))"
    using m7(3) prefix_length_le by (auto simp: watched_def)
  then have "length (pub_armed (core m)) + 2 \<le> length (pub_armed (core (publish_turn m7)))"
    if "uint (loop_counter m) mod 20 = 0"
    using that m7(9) by (simp add: publish_turn_def every_second publish_armed_status_def Let_def)
  then show ?thesis
    using m7 w frame_blocks(8) [of m7] by (auto simp: frame_def stick_on_def)
qed

section \<open>Start of the task\<close>

text \<open>
  What \<open>commander_thread_main\<close> does before its loop, and the initial values of the variables. The
  \<open>float\<close> variables hold 1.0 (remaining battery), the setpoints are zeroed. The LED driver
  is taken to accept the two requests.
\<close>

definition commander_start ::
  "param_table \<Rightarrow> param_store \<Rightarrow> (nat \<Rightarrow> u64) \<Rightarrow> (nat \<Rightarrow> sensor_sample option) \<Rightarrow> (nat \<Rightarrow> nat option) \<Rightarrow>
   bytes option \<Rightarrow> commander_task option" where
  "commander_start T s clock samples files file = do {
     timeout \<leftarrow> get_float T (param_find T (ascii ''SYS_FAILSAVE_LL'')) 0 s;
     let m = \<lparr>core = commander_init clock, store = s, loop_counter = 0, bat_remain = f32_of_int 1,
       battery = \<lparr>bat_volt_empty = 0, bat_volt_full = 0, est_initialized = False, est_counter = 0\<rparr>,
       low_battery_voltage_actions_done = False, critical_battery_voltage_actions_done = False,
       low_voltage_counter = 0, critical_voltage_counter = 0, stick_off_counter = 0,
       stick_on_counter = 0,
       sp_man = \<lparr>man_timestamp = 0, man_yaw = 0, man_throttle = 0, man_override_mode_switch = 0\<rparr>,
       sp_offboard = \<lparr>off_timestamp = 0, off_mode = OFFBOARD_CONTROL_MODE_DIRECT, off_armed = False\<rparr>,
       last_idle_time = 0, start_time = 0, state_changed = True,
       failsafe_lowlevel_timeout_ms = timeout, rc_last_print_time = 0, offboard_last_print_time = 0,
       last_blue = True, last_amber = True, ioctls = [Led LED_BLUE True, Led LED_AMBER True],
       polls = samples, poll_calls = 0, scales = [], parameter_file = file, opens = files,
       open_calls = 0, log_info = [''[commander] system is running'']\<rparr>;
     let (t, m1) = hrt_absolute_time m;
     Some (m1\<lparr>start_time := t\<rparr>) }"

definition task_start :: "param_table \<Rightarrow> commander_task \<Rightarrow> bool" where
  "task_start T m \<longleftrightarrow> (\<exists>s clock samples files file. param_inv T s \<and>
     commander_start T s clock samples files file = Some m)"

lemma commander_start_total:
  "param_inv T s \<Longrightarrow> \<exists>m. commander_start T s clock samples files file = Some m"
  using get_float_total [of T s "param_find T (ascii ''SYS_FAILSAVE_LL'')" 0]
  by (auto simp: commander_start_def hrt_absolute_time_def Let_def)

lemma commander_start_fields:
  assumes "commander_start T s clock samples files file = Some m"
  shows "same_signals (core m) (commander_init clock)" "store m = s" "stick_on m = 0"
    "\<not> off_armed (sp_offboard m)" "loop_counter m = 0" "pub_armed (core m) = []"
  using assms
  by (auto simp: commander_start_def hrt_absolute_time_def same_signals_def same_state_def stick_on_def
      commander_init_def state_machine_publish_def Let_def split: bind_splits)

lemma task_start_inv: "task_start T m \<Longrightarrow> task_inv T m"
  using commander_start_fields same_signals_inv commander_inv_init
  by (fastforce simp: task_start_def task_inv_def started_def)

lemma commander_turn_inv:
  assumes "task_inv T m"
  shows "\<exists>m'. commander_turn T i m = Some m' \<and> task_inv T m'"
  using commander_turn_good [OF assms, of i] assms by (auto simp: task_inv_def watched_def)

interpretation monitoring: safe_machine "commander_turn T" "task_start T" "task_inv T" "\<lambda>i. True" for T
proof unfold_locales
  show "task_start T s \<Longrightarrow> task_inv T s" for s by (rule task_start_inv)
  show "task_inv T s \<Longrightarrow> \<exists>s'. commander_turn T e s = Some s'" for s e
    using commander_turn_inv by blast
  show "task_inv T s \<Longrightarrow> commander_turn T e s = Some s' \<Longrightarrow> task_inv T s'" for s e s'
    using commander_turn_inv [of T s e] by auto
qed

section \<open>Runs of the loop\<close>

text \<open>The gestures in a series of turns, from the setpoint \<open>sp\<close> on.\<close>

fun gestures :: "manual_control_setpoint \<Rightarrow> turn_input list \<Rightarrow> nat" where
  "gestures sp [] = 0"
| "gestures sp (i # is) =
     (let sp' = (case new_sp_man i of None \<Rightarrow> sp | Some sp' \<Rightarrow> sp') in gesture sp' + gestures sp' is)"

definition no_offboard_arming :: "turn_input \<Rightarrow> bool" where
  "no_offboard_arming i \<longleftrightarrow> (case new_sp_offboard i of None \<Rightarrow> True | Some sp \<Rightarrow> \<not> off_armed sp)"

lemma armed_after_gestures:
  assumes "task_inv T m" "run_steps (commander_turn T) is m = Some m'"
    and "list_all no_offboard_arming is" "\<not> off_armed (sp_offboard m)"
    and "\<not> armed_state (fst (view (core m)))" "armed_state (fst (view (core m')))"
  shows "22 \<le> stick_on m + gestures (sp_man m) is"
  using assms
proof (induction "is" arbitrary: m)
  case (Cons i "is")
  obtain m1 where m1: "commander_turn T i m = Some m1" "watched (arming_turn i m) (core m) (core m1)"
    "sp_man m1 = current_man i m" "sp_offboard m1 = current_offboard i m"
    "stick_on m1 \<le> stick_on m + gesture (current_man i m)"
    using commander_turn_good [OF Cons.prems(1), of i] by blast
  have run: "run_steps (commander_turn T) is m1 = Some m'" using Cons.prems(2) m1(1) by simp
  have inv: "task_inv T m1" using commander_turn_inv [OF Cons.prems(1), of i] m1(1) by auto
  have off: "\<not> off_armed (sp_offboard m1)"
    using Cons.prems(3,4) m1(4) by (simp add: no_offboard_arming_def current_offboard_def split: option.splits)
  have g: "gestures (sp_man m) (i # is) = gesture (current_man i m) + gestures (sp_man m1) is"
    by (simp add: m1(3) current_man_def Let_def)
  show ?case
  proof (cases "armed_state (fst (view (core m1)))")
    case True
    then have "arming_turn i m" using m1(2) Cons.prems(5) by (simp add: watched_def)
    then show ?thesis using off m1(4) g by (auto simp: arming_turn_def gesture_def)
  next
    case False
    then have "22 \<le> stick_on m1 + gestures (sp_man m1) is"
      using Cons.IH [OF inv run] Cons.prems(3,6) off by simp
    then show ?thesis using m1(5) g by simp
  qed
qed simp

lemma turns_extend:
  assumes "task_inv T m" "run_steps (commander_turn T) is m = Some m'"
  shows "prefix (pub_armed (core m)) (pub_armed (core m'))"
  using assms
proof (induction "is" arbitrary: m)
  case (Cons i "is")
  obtain m1 where m1: "commander_turn T i m = Some m1" "watched (arming_turn i m) (core m) (core m1)"
    using commander_turn_good [OF Cons.prems(1), of i] by blast
  have "task_inv T m1" using commander_turn_inv [OF Cons.prems(1), of i] m1(1) by auto
  then have "prefix (pub_armed (core m1)) (pub_armed (core m'))"
    using Cons m1(1) by simp
  then show ?case using m1(2) prefix_order.trans by (fastforce simp: watched_def)
qed simp

lemma turns_count:
  assumes "task_inv T m" "run_steps (commander_turn T) is m = Some m'"
  shows "loop_counter m' = loop_counter m + of_nat (length is)"
  using assms
proof (induction "is" arbitrary: m)
  case (Cons i "is")
  obtain m1 where m1: "commander_turn T i m = Some m1" "loop_counter m1 = loop_counter m + 1"
    using commander_turn_good [OF Cons.prems(1), of i] by blast
  have "task_inv T m1" using commander_turn_inv [OF Cons.prems(1), of i] m1(1) by auto
  then show ?case using Cons m1 by simp
qed simp


lemma u16_multiple_of_20:
  obtains k where "k < 20" "uint (n + of_nat k :: u16) mod 20 = 0"
proof -
  define q r where "q = uint n div 20" and "r = uint n mod 20"
  have n: "uint n = 20 * q + r" "0 \<le> r" "r < 20" "uint n < 65536" "0 \<le> q"
    using uint_bounded [of n] by (simp_all add: q_def r_def pos_imp_zdiv_nonneg_iff)
  define k where "k = (if 65520 < uint n then nat (65536 - uint n) else if r = 0 then 0 else nat (20 - r))"
  have k20: "k < 20" using n by (auto simp: k_def nat_less_iff)
  have u: "uint (n + of_nat k) = (uint n + int k) mod 65536"
    using k20 by (simp add: uint_word_ariths unsigned_of_nat take_bit_eq_mod)
  consider (wrap) "65520 < uint n" | (here) "uint n \<le> 65520" "r = 0" | (up) "uint n \<le> 65520" "r \<noteq> 0"
    by linarith
  then have "(uint n + int k) mod 65536 mod 20 = 0"
  proof cases
    case wrap
    then show ?thesis using n by (simp add: k_def)
  next
    case here
    then have e: "uint n + int k = 20 * q" using n by (simp add: k_def)
    have "(uint n + int k) mod 65536 = 20 * q"
      unfolding e using n here by (intro mod_pos_pos_trivial) linarith+
    then show ?thesis by simp
  next
    case up
    then have e: "uint n + int k = 20 * (q + 1)" using n by (simp add: k_def)
    have "q < 3276" using up n by linarith
    then have "(uint n + int k) mod 65536 = 20 * (q + 1)"
      unfolding e by (intro mod_pos_pos_trivial) (use \<open>q < 3276\<close> \<open>0 \<le> q\<close> in simp_all)
    then show ?thesis by simp
  qed
  then have "uint (n + of_nat k) mod 20 = 0" by (simp only: u)
  with k20 show ?thesis by (rule that)
qed

lemma publishes_within_20:
  assumes "task_inv T m" "length is = 20"
  shows "\<exists>m'. run_steps (commander_turn T) is m = Some m' \<and> task_inv T m' \<and>
    length (pub_armed (core m)) + 2 \<le> length (pub_armed (core m'))"
proof -
  obtain k where k: "k < 20" "uint (loop_counter m + of_nat k) mod 20 = 0"
    by (rule u16_multiple_of_20 [of "loop_counter m"])
  have split: "is = take k is @ is ! k # drop (Suc k) is" by (rule id_take_nth_drop, use k(1) assms(2) in simp)
  obtain m1 where m1: "run_steps (commander_turn T) (take k is) m = Some m1" "task_inv T m1"
    using monitoring.run_safe_from [OF assms(1), of "take k is"] by (auto simp: list_all_iff)
  have lc: "loop_counter m1 = loop_counter m + of_nat k"
    using turns_count [OF assms(1) m1(1)] k(1) assms(2) by simp
  obtain m2 where m2: "commander_turn T (is ! k) m1 = Some m2"
    "length (pub_armed (core m1)) + 2 \<le> length (pub_armed (core m2))"
    using commander_turn_good [OF m1(2), of "is ! k"] k(2) lc by auto
  have i2: "task_inv T m2" using commander_turn_inv [OF m1(2), of "is ! k"] m2(1) by auto
  obtain m3 where m3: "run_steps (commander_turn T) (drop (Suc k) is) m2 = Some m3" "task_inv T m3"
    using monitoring.run_safe_from [OF i2, of "drop (Suc k) is"] by (auto simp: list_all_iff)
  have "run_steps (commander_turn T) (take k is @ is ! k # drop (Suc k) is) m = Some m3"
    by (simp add: run_steps_append m1(1) m2(1) m3(1))
  then have "run_steps (commander_turn T) is m = Some m3" by (simp only: split [symmetric])
  moreover have "length (pub_armed (core m)) \<le> length (pub_armed (core m1))"
    "length (pub_armed (core m2)) \<le> length (pub_armed (core m3))"
    using turns_extend [OF assms(1) m1(1)] turns_extend [OF i2 m3(1)] by (simp_all add: prefix_length_le)
  ultimately show ?thesis using m2(2) m3(2) by auto
qed

text \<open>The estimate of the remaining battery.\<close>

lemma f32_clamp:
  assumes "r = (if f32_lt (f32_of_int 1) r1 then f32_of_int 1 else r1)"
    and "r1 = (if f32_lt x (f32_of_int 0) then f32_of_int 0 else x)"
  shows "f32_is_nan r \<or> (f32_le (f32_of_int 0) r \<and> f32_le r (f32_of_int 1))"
proof -
  have c: "f32_of_int 0 = 0" "f32_of_int 1 = 0x3F800000" by code_simp+
  have n: "\<not> f32_is_nan 0" "\<not> f32_is_nan 0x3F800000" "f32_key 0 = 0" "f32_key 0x3F800000 = 0x3F800000"
    by code_simp+
  show ?thesis
  proof (cases "f32_is_nan x")
    case True
    then show ?thesis using assms c by (simp add: f32_lt_def)
  next
    case False
    then show ?thesis using assms c n by (auto simp: f32_lt_def f32_le_def split: if_splits)
  qed
qed


section \<open>Properties\<close>

text \<open>A task and inputs for the examples: no parameters, one clock tick per microsecond.\<close>

definition example_input :: "manual_control_setpoint option \<Rightarrow> turn_input" where
  "example_input sp = \<lparr>new_sp_man = sp, new_sp_offboard = None, battery_voltage_v = 0,
     battery_voltage_valid = False, idle_runtime = 0\<rparr>"

definition arming_sticks :: manual_control_setpoint where
  "arming_sticks = \<lparr>man_timestamp = 1, man_yaw = 0x3F800000, man_throttle = 0, man_override_mode_switch = 0\<rparr>"

lemma example_start:
  obtains m where "commander_start [] example_store of_nat (\<lambda>k. None) (\<lambda>k. None) None = Some m"
    "task_start [] m"
proof -
  have p: "param_inv [] example_store" by (simp add: param_inv_def example_store_def plain_table_def)
  then obtain m where "commander_start [] example_store of_nat (\<lambda>k. None) (\<lambda>k. None) None = Some m"
    using commander_start_total by blast
  then show ?thesis using that p unfolding task_start_def by blast
qed

text \<open>
  C14. The loop keeps the commander consistent. From the start of the task every series of turns
  runs without an error or a reboot; afterwards the last order to the actuators arms them exactly
  in the armed states, subscribers know the state, armed flag and simulation flag, and the
  simulation flag is off.
\<close>

theorem loop_keeps_consistent:
  assumes "task_start T m"
  shows "\<exists>m'. run_steps (commander_turn T) is m = Some m' \<and>
    armed (actuators (core m')) = armed_state (state_machine (status m')) \<and>
    same_state (last (pub_status (core m'))) (status m') \<and>
    loop_counter m' = loop_counter m + of_nat (length is)"
proof -
  obtain m' where "run_steps (commander_turn T) is m = Some m'" "task_inv T m'"
    using monitoring.run_safe [OF assms, of "is"] by (auto simp: list_all_iff)
  then show ?thesis using turns_count [OF task_start_inv [OF assms]]
    by (auto simp: task_inv_def commander_inv_def actuators_def)
qed

theorem loop_keeps_consistent_witness:
  "\<exists>m m'. task_start [] m \<and> run_steps (commander_turn []) [example_input None, example_input (Some arming_sticks)] m = Some m' \<and>
     armed (actuators (core m')) = armed_state (state_machine (status m'))"
proof -
  obtain m where "task_start [] m" by (rule example_start)
  then show ?thesis using loop_keeps_consistent by blast
qed

text \<open>
  C15. Arming by the sticks takes 22 turns. If no offboard setpoint asks for arming, a vehicle that
  is disarmed with a stick counter of n and armed at the end of a series of turns has seen
  at least 22 - n turns whose manual setpoint is the arming gesture (yaw beyond 0.75, throttle
  below 0.2).
\<close>

theorem stick_arming_takes_22_turns:
  assumes "task_inv T m" "run_steps (commander_turn T) is m = Some m'"
    and "list_all no_offboard_arming is" "\<not> off_armed (sp_offboard m)"
    and "\<not> armed_state (state_machine (status m))" "armed_state (state_machine (status m'))"
  shows "22 \<le> unat (stick_on_counter m) + gestures (sp_man m) is"
  using armed_after_gestures [OF assms(1-4)] assms(5,6) by (simp add: view_def stick_on_def)

lemma example_arming:
  "map_option (\<lambda>m. state_machine (status m))
     (Option.bind (commander_start [] example_store of_nat (\<lambda>k. None) (\<lambda>k. None) None) (\<lambda>m.
      Option.bind (commander_turn [] (example_input None) m) (\<lambda>m1.
      commander_turn [] (example_input (Some arming_sticks)) (m1\<lparr>stick_on_counter := 21\<rparr>)))) =
   Some SYSTEM_STATE_STABILIZED"
  by code_simp

theorem stick_arming_takes_22_turns_witness:
  "\<exists>m m'. task_inv [] m \<and> stick_on_counter m = 21 \<and>
     run_steps (commander_turn []) [example_input (Some arming_sticks)] m = Some m' \<and>
     state_machine (status m') = SYSTEM_STATE_STABILIZED \<and>
     22 \<le> unat (stick_on_counter m) + gestures (sp_man m) [example_input (Some arming_sticks)]"
proof -
  obtain m where m: "commander_start [] example_store of_nat (\<lambda>k. None) (\<lambda>k. None) None = Some m"
    "task_start [] m" by (rule example_start)
  obtain m1 where m1: "commander_turn [] (example_input None) m = Some m1" "watched False (core m) (core m1)"
    "sp_offboard m1 = sp_offboard m" "task_inv [] m1"
    using commander_turn_good [OF task_start_inv [OF m(2)], of "example_input None"]
      commander_turn_inv [OF task_start_inv [OF m(2)], of "example_input None"]
      commander_start_fields [OF m(1)]
    by (auto simp: arming_turn_def current_offboard_def example_input_def)
  let ?m = "m1\<lparr>stick_on_counter := 21\<rparr>"
  have o: "\<not> off_armed (sp_offboard m)" "fst (view (core m)) = SYSTEM_STATE_PREFLIGHT"
    using commander_start_fields [OF m(1)] same_signals_view [of "core m" "commander_init of_nat"]
    by (simp_all add: view_def commander_init_def initial_status_def publish_defs)
  have i: "task_inv [] ?m" using m1(4) by (simp add: task_inv_def)
  obtain m2 where m2: "commander_turn [] (example_input (Some arming_sticks)) ?m = Some m2"
    "state_machine (status m2) = SYSTEM_STATE_STABILIZED"
    using example_arming by (auto simp: m(1) m1(1))
  have "\<not> armed_state (state_machine (status ?m))" using m1(2) o by (simp add: watched_def view_def)
  moreover have r: "run_steps (commander_turn []) [example_input (Some arming_sticks)] ?m = Some m2"
    using m2(1) by simp
  moreover have "no_offboard_arming (example_input (Some arming_sticks))"
    by (simp add: no_offboard_arming_def example_input_def)
  ultimately have "22 \<le> unat (stick_on_counter ?m) + gestures (sp_man ?m) [example_input (Some arming_sticks)]"
    using i o(1) m1(3) m2(2) by (intro stick_arming_takes_22_turns [OF i r]) simp_all
  then show ?thesis using i r m2(2) by (intro exI [of _ ?m] exI [of _ m2]) simp
qed

text \<open>
  At least once in 20 turns (one second) the armed state is published, whatever the inputs
  are, and also where the 16-bit turn counter wraps around.
\<close>

theorem published_every_second:
  assumes "task_inv T m" "length is = 20"
  shows "\<exists>m'. run_steps (commander_turn T) is m = Some m' \<and>
    length (pub_armed (core m)) + 2 \<le> length (pub_armed (core m'))"
  using publishes_within_20 [OF assms] by blast

theorem published_every_second_witness:
  "\<exists>m m'. task_start [] m \<and> run_steps (commander_turn []) (replicate 20 (example_input None)) m = Some m' \<and>
     length (pub_armed (core m)) + 2 \<le> length (pub_armed (core m'))"
proof -
  obtain m where m: "task_start [] m" by (rule example_start)
  show ?thesis
    using m published_every_second [OF task_start_inv [OF m], of "replicate 20 (example_input None)"] by auto
qed


definition clamp :: "float_bits \<Rightarrow> float_bits" where
  "clamp x = (let y = (if f32_lt x (f32_of_int 0) then f32_of_int 0 else x)
              in if f32_lt (f32_of_int 1) y then f32_of_int 1 else y)"

lemma clamp_range: "f32_is_nan (clamp x) \<or> (f32_le (f32_of_int 0) (clamp x) \<and> f32_le (clamp x) (f32_of_int 1))"
  by (rule f32_clamp [where x = x, OF _ refl]) (simp add: clamp_def Let_def)

lemma estimate_clamped:
  assumes "battery_remaining_estimate_voltage T cells n v s b = Some (r, b')"
  shows "(\<exists>x. r = clamp x) \<and> est_counter b' = est_counter b + 1"
  using assms
  unfolding battery_remaining_estimate_voltage_def Let_def bind_eq_Some_conv prod.case_eq_if
    clamp_def [unfolded Let_def, symmetric]
  by (elim exE conjE) (cases "est_initialized b"; auto split del: if_split)

text \<open>The estimate of the calls that do not read the parameters.\<close>

lemma estimate_builtin:
  assumes "est_counter b mod 100 \<noteq> 0"
  shows "map_option fst (battery_remaining_estimate_voltage T cells 0 v s b) =
    Some (clamp (f32_div (f32_sub v (f32_mul (f32_of_int cells) 0x404CCCCD))
      (f32_mul (f32_of_int cells) (f32_sub 0x4081999A 0x404CCCCD))))"
  using assms unfolding battery_remaining_estimate_voltage_def Let_def clamp_def
  by (cases "est_initialized b") (simp_all split del: if_split)

text \<open>
  The battery estimate is a number between 0 and 1, or not a number at all; the function
  counts its calls; and only the calls whose number is a multiple of 100 depend on the
  battery parameters, the other 99 of 100 use the built-in voltages.
\<close>

theorem battery_estimate_range:
  assumes "param_inv T s"
  shows "\<exists>r b'. battery_remaining_estimate_voltage T cells 0 v s b = Some (r, b') \<and>
    (f32_is_nan r \<or> (f32_le (f32_of_int 0) r \<and> f32_le r (f32_of_int 1))) \<and>
    est_counter b' = est_counter b + 1 \<and>
    (est_counter b mod 100 \<noteq> 0 \<longrightarrow>
       (\<forall>T' s' b1. est_counter b1 = est_counter b \<longrightarrow>
          map_option fst (battery_remaining_estimate_voltage T' cells 0 v s' b1) = Some r))"
proof -
  obtain r b' where e: "battery_remaining_estimate_voltage T cells 0 v s b = Some (r, b')"
    using estimate_total [OF assms] by blast
  note c = estimate_clamped [OF e]
  have "f32_is_nan r \<or> (f32_le (f32_of_int 0) r \<and> f32_le r (f32_of_int 1))"
    using c clamp_range by blast
  moreover note c
  moreover have "map_option fst (battery_remaining_estimate_voltage T' cells 0 v s' b1) = Some r"
    if "est_counter b mod 100 \<noteq> 0" "est_counter b1 = est_counter b" for T' s' b1
    using e estimate_builtin [of b T cells v s] estimate_builtin [of b1 T' cells v s'] that by simp
  ultimately show ?thesis using e by blast
qed

theorem battery_estimate_range_witness:
  "\<exists>r b'. battery_remaining_estimate_voltage example_table 3 0 0x41300000 example_changed
       \<lparr>bat_volt_empty = 1, bat_volt_full = 1, est_initialized = True, est_counter = 7\<rparr> = Some (r, b') \<and>
     (f32_is_nan r \<or> (f32_le (f32_of_int 0) r \<and> f32_le r (f32_of_int 1))) \<and> est_counter b' = 8"
  using battery_estimate_range [OF example_changed_inv, of 3 "0x41300000"
      "\<lparr>bat_volt_empty = 1, bat_volt_full = 1, est_initialized = True, est_counter = 7\<rparr>"]
  by auto

text \<open>
  The offboard failsafe never kills the motors. However long the signal has been missing,
  the handler sets the start of the failsafe anew in every turn, so the time it compares with
  the timeout is the time between two consecutive readings of the clock: where that is
  below the timeout, no publication is requested, and in no case does the state, the
  armed flag or an order to the actuators change.
\<close>

theorem offboard_timeout_restarts:
  assumes "\<And>k. hrt (core m) (Suc k) - hrt (core m) k \<le> ucast (failsafe_lowlevel_timeout_ms m * 1000)"
  shows "state_changed (offboard_missing m) = state_changed m \<and>
    same_state (status (offboard_missing m)) (status m) \<and>
    pub_armed (core (offboard_missing m)) = pub_armed (core m) \<and>
    (offboard_control_signal_lost_interval (status (offboard_missing m)) > 100000 \<longrightarrow>
       failsave_lowlevel (status (offboard_missing m)) \<and>
       failsave_lowlevel_start_time (status (offboard_missing m)) =
         hrt (core m) (hrt_reads (core (offboard_missing m)) - 2))"
proof -
  define w where "w = offboard_warning m"
  have w: "hrt (core w) = hrt (core m)" "failsafe_lowlevel_timeout_ms w = failsafe_lowlevel_timeout_ms m"
    "state_changed w = state_changed m"
    by (simp_all add: w_def offboard_warning_def hrt_absolute_time_def upd_status_def log_crit_def
        mavlink_log_critical_def Let_def)
  have k: "\<not> hrt (core m) (Suc k) - hrt (core m) k > ucast (failsafe_lowlevel_timeout_ms m * 1000)" for k
    using assms [of k] by (simp add: not_less)
  have s: "same_signals (core (offboard_missing m)) (core m)" by (rule same_signals_blocks)
  have r: "state_changed (offboard_missing m) = state_changed m \<and>
    (offboard_control_signal_lost_interval (status (offboard_missing m)) > 100000 \<longrightarrow>
       failsave_lowlevel (status (offboard_missing m)) \<and>
       failsave_lowlevel_start_time (status (offboard_missing m)) =
         hrt (core m) (hrt_reads (core (offboard_missing m)) - 2))"
    unfolding offboard_missing_def w_def [symmetric]
    using w k by (simp add: hrt_absolute_time_def upd_status_def prod.case_eq_if Let_def)
  show ?thesis using s r by (simp add: same_signals_def)
qed

theorem offboard_timeout_restarts_witness:
  "\<exists>m. failsafe_lowlevel_timeout_ms m = 1 \<and> state_changed (offboard_missing m) = state_changed m \<and>
     same_state (status (offboard_missing m)) (status m)"
proof -
  obtain m where m: "commander_start [] example_store of_nat (\<lambda>k. None) (\<lambda>k. None) None = Some m"
    by (rule example_start)
  let ?m = "m\<lparr>failsafe_lowlevel_timeout_ms := 1\<rparr>"
  have h: "hrt (core ?m) = of_nat" using commander_start_fields(1) [OF m]
    by (simp add: same_signals_def commander_init_def state_machine_publish_def Let_def)
  have "hrt (core ?m) (Suc k) - hrt (core ?m) k \<le> ucast (failsafe_lowlevel_timeout_ms ?m * 1000)" for k
    unfolding h by simp
  from offboard_timeout_restarts [OF this] show ?thesis by (intro exI [of _ ?m]) simp
qed

end
