(* ===== verification/Commander_Command.thy ===== *)
theory Commander_Command
  imports Commander_Loop
begin

text \<open>
  The commands to the commander: \<open>handle_command\<close> of \<open>apps/commander/commander.c\<close>, the three
  sensor calibrations and the saving of the parameters.

  The command thread shares the status structure with the monitoring loop; a command is one
  step here. Its outcome is a result with the task afterwards, a reboot, undefined behaviour (a
  float that does not fit the integer it is converted to, or an access outside an
  object), or no return at all. The function of the C code keeps its result to itself:
  acknowledging commands is not written yet there. Failures of the sensor drivers are only reported on
  the console, so the model records the scales requested of them. A failing \<open>poll\<close> (a negative
  result) is not modelled.
\<close>

section \<open>Outcomes\<close>

datatype 'a command_outcome =
    Done 'a commander_task
  | Restarting commander_task
  | Undefined
  | Endless

fun cmd_then :: "'a command_outcome \<Rightarrow> ('a \<Rightarrow> commander_task \<Rightarrow> 'b command_outcome) \<Rightarrow> 'b command_outcome" where
  "cmd_then (Done a m) f = f a m"
| "cmd_then (Restarting m) f = Restarting m"
| "cmd_then Undefined f = Undefined"
| "cmd_then Endless f = Endless"

text \<open>Conversions of a parameter of a command; undefined when the value does not fit.\<close>

definition f32_to_int32 :: "float_bits \<Rightarrow> int option" where
  "f32_to_int32 x = (case f32_to_int x of None \<Rightarrow> None
     | Some v \<Rightarrow> if - (2 ^ 31) \<le> v \<and> v < 2 ^ 31 then Some v else None)"

definition f32_to_u8 :: "float_bits \<Rightarrow> u8 option" where
  "f32_to_u8 x = (case f32_to_int x of None \<Rightarrow> None
     | Some v \<Rightarrow> if 0 \<le> v \<and> v < 256 then Some (word_of_int v) else None)"

definition with_int :: "float_bits \<Rightarrow> (int \<Rightarrow> 'a command_outcome) \<Rightarrow> 'a command_outcome" where
  "with_int x f = (case f32_to_int32 x of None \<Rightarrow> Undefined | Some v \<Rightarrow> f v)"

definition with_u8 :: "float_bits \<Rightarrow> (u8 \<Rightarrow> 'a command_outcome) \<Rightarrow> 'a command_outcome" where
  "with_u8 x f = (case f32_to_u8 x of None \<Rightarrow> Undefined | Some v \<Rightarrow> f v)"

section \<open>Calls\<close>

definition on_core :: "(commander \<Rightarrow> 'a outcome) \<Rightarrow> commander_task \<Rightarrow> 'a command_outcome" where
  "on_core f m = (case f (core m) of
       Returned a c \<Rightarrow> Done a (m\<lparr>core := c\<rparr>)
     | Rebooted c \<Rightarrow> Restarting (m\<lparr>core := c\<rparr>))"

definition publish_status :: "commander_task \<Rightarrow> commander_task" where
  "publish_status m = m\<lparr>core := state_machine_publish (core m)\<rparr>"

definition mavlink_log_info :: "string \<Rightarrow> commander_task \<Rightarrow> commander_task" where
  "mavlink_log_info msg m = m\<lparr>log_info := log_info m @ [msg]\<rparr>"

text \<open>
  Setting a parameter by name; the message \<open>complaint\<close>, if any, goes to the critical log on failure.
\<close>

definition set_parameter ::
  "param_table \<Rightarrow> string \<Rightarrow> float_bits \<Rightarrow> string option \<Rightarrow> commander_task \<Rightarrow> unit command_outcome" where
  "set_parameter T name v complaint m =
     (case param_set T (param_find T (ascii name)) (le32 v) (store m) of
        None \<Rightarrow> Undefined
      | Some (r, s) \<Rightarrow>
          Done () (if r \<noteq> 0 then (case complaint of None \<Rightarrow> m\<lparr>store := s\<rparr>
                                  | Some msg \<Rightarrow> log_crit msg (m\<lparr>store := s\<rparr>))
                   else m\<lparr>store := s\<rparr>))"

fun set_parameters ::
  "param_table \<Rightarrow> (string \<times> float_bits \<times> string option) list \<Rightarrow> commander_task \<Rightarrow> unit command_outcome" where
  "set_parameters T [] m = Done () m"
| "set_parameters T ((name, v, msg) # ps) m =
     cmd_then (set_parameter T name v msg m) (\<lambda>_. set_parameters T ps)"

text \<open>
  \<open>pm_save_eeprom\<close>: the old file is deleted before the new one is opened; if writing fails the
  new file is deleted as well.
\<close>

definition pm_save_eeprom :: "param_table \<Rightarrow> bool \<Rightarrow> commander_task \<Rightarrow> int command_outcome" where
  "pm_save_eeprom T only_unsaved m =
     (let m1 = m\<lparr>parameter_file := None, open_calls := Suc (open_calls m)\<rparr>
      in case opens m (open_calls m) of
           None \<Rightarrow> Done (-1) m1
         | Some space \<Rightarrow>
             (case param_export T \<lparr>written = [], room = space\<rparr> only_unsaved (store m1) of
                None \<Rightarrow> Undefined
              | Some (result, f, s) \<Rightarrow>
                  if result \<noteq> 0 then Done (-2) (m1\<lparr>store := s\<rparr>)
                  else Done 0 (m1\<lparr>store := s, parameter_file := Some (written f)\<rparr>)))"

section \<open>Calibration\<close>

type_synonym triple = "float_bits \<times> float_bits \<times> float_bits"

definition set_scale ::
  "sensor_device \<Rightarrow> (float_bits \<times> float_bits) list \<Rightarrow> commander_task \<Rightarrow> commander_task" where
  "set_scale dev s m = m\<lparr>scales := scales m @ [(dev, s)]\<rparr>"

definition scale_null :: "(float_bits \<times> float_bits) list" where
  "scale_null = [(f32_of_int 0, f32_of_int 1), (f32_of_int 0, f32_of_int 1), (f32_of_int 0, f32_of_int 1)]"

definition calibration_count :: nat where
  "calibration_count = 5000"

fun add_triple :: "triple \<Rightarrow> triple \<Rightarrow> triple" where
  "add_triple (a, b, c) (x, y, z) = (f32_add a x, f32_add b y, f32_add c z)"

definition poll :: "commander_task \<Rightarrow> sensor_sample option \<times> commander_task" where
  "poll m = (polls m (poll_calls m), m\<lparr>poll_calls := Suc (poll_calls m)\<rparr>)"

text \<open>
  The loop of the gyro and of the accelerometer calibration: \<open>n\<close> more samples are added up, the first
  timeout ends it without a sum.
\<close>

fun sample_loop :: "nat \<Rightarrow> (sensor_sample \<Rightarrow> triple) \<Rightarrow> triple \<Rightarrow> commander_task \<Rightarrow> triple option \<times> commander_task" where
  "sample_loop 0 sensor acc m = (Some acc, m)"
| "sample_loop (Suc n) sensor acc m =
     (case poll m of
        (Some raw, m1) \<Rightarrow> sample_loop n sensor (add_triple acc (sensor raw)) m1
      | (None, m1) \<Rightarrow> (None, m1))"

definition mean :: "triple \<Rightarrow> triple" where
  "mean s = (case s of (a, b, c) \<Rightarrow>
     let n = f32_of_int (int calibration_count) in (f32_div a n, f32_div b n, f32_div c n))"

definition do_gyro_calibration :: "param_table \<Rightarrow> commander_task \<Rightarrow> unit command_outcome" where
  "do_gyro_calibration T m0 =
     (let m1 = set_scale GYRO_DEVICE scale_null
                 (publish_status (upd_status (\<lambda>s. s\<lparr>flag_preflight_gyro_calibration := True\<rparr>) m0))
      in case sample_loop calibration_count gyro_rad_s (f32_of_int 0, f32_of_int 0, f32_of_int 0) m1 of
           (None, m2) \<Rightarrow> Done () (mavlink_log_info ''[commander] gyro calibration aborted, retry'' m2)
         | (Some acc, m2) \<Rightarrow>
             (case mean acc of (x, y, z) \<Rightarrow>
               cmd_then (set_parameters T
                 [(''SENS_GYRO_XOFF'', x, Some ''[commander] Setting X gyro offset failed!''),
                  (''SENS_GYRO_YOFF'', y, Some ''[commander] Setting Y gyro offset failed!''),
                  (''SENS_GYRO_ZOFF'', z, Some ''[commander] Setting Z gyro offset failed!'')] m2) (\<lambda>_ m3.
               cmd_then (pm_save_eeprom T False
                 (set_scale GYRO_DEVICE [(x, f32_of_int 1), (y, f32_of_int 1), (z, f32_of_int 1)] m3)) (\<lambda>_ m4.
               Done () (mavlink_log_info ''[commander] gyro calibration finished''
                 (publish_status (upd_status (\<lambda>s. s\<lparr>flag_preflight_gyro_calibration := False\<rparr>) m4)))))))"

text \<open>
  The accelerometer calibration also corrects the z offset by the length of the vector, and sets one
  scale for all axes: 9.80665 over that length.
\<close>

definition do_accel_calibration :: "param_table \<Rightarrow> commander_task \<Rightarrow> unit command_outcome" where
  "do_accel_calibration T m0 =
     (let m1 = set_scale ACCEL_DEVICE scale_null
                 (publish_status (upd_status (\<lambda>s. s\<lparr>flag_preflight_accel_calibration := True\<rparr>)
                   (mavlink_log_info ''[commander] keep it level and still'' m0)))
      in case sample_loop calibration_count accelerometer_m_s2 (f32_of_int 0, f32_of_int 0, f32_of_int 0) m1 of
           (None, m2) \<Rightarrow> Done () (mavlink_log_info ''[commander] acceleration calibration aborted'' m2)
         | (Some acc, m2) \<Rightarrow>
             (case mean acc of (x, y, z0) \<Rightarrow>
               let total_len = f32_sqrt (f32_add (f32_add (f32_mul x x) (f32_mul y y)) (f32_mul z0 z0));
                   z = f32_add z0 total_len;
                   scale = f32_div 0x411CE80A total_len
               in cmd_then (set_parameters T
                    [(''SENS_ACC_XOFF'', x, Some ''[commander] Setting X accel offset failed!''),
                     (''SENS_ACC_YOFF'', y, Some ''[commander] Setting Y accel offset failed!''),
                     (''SENS_ACC_ZOFF'', z, Some ''[commander] Setting Z accel offset failed!''),
                     (''SENS_ACC_XSCALE'', scale, Some ''[commander] Setting X accel offset failed!''),
                     (''SENS_ACC_YSCALE'', scale, Some ''[commander] Setting Y accel offset failed!''),
                     (''SENS_ACC_ZSCALE'', scale, Some ''[commander] Setting Z accel offset failed!'')] m2) (\<lambda>_ m3.
                  cmd_then (pm_save_eeprom T False
                    (set_scale ACCEL_DEVICE [(x, scale), (y, scale), (z, scale)] m3)) (\<lambda>_ m4.
                  Done () (mavlink_log_info ''[commander] acceleration calibration finished''
                    (publish_status (upd_status (\<lambda>s. s\<lparr>flag_preflight_accel_calibration := False\<rparr>) m4)))))))"

text \<open>
  The magnetometer calibration collects minimum and maximum of each axis for 30 seconds. A sample
  that is a new minimum is not compared with the maximum.
\<close>

definition FLT_MAX :: float_bits where "FLT_MAX = 0x7F7FFFFF"
definition minus_FLT_MAX :: float_bits where "minus_FLT_MAX = 0xFF7FFFFF"

definition track :: "float_bits \<Rightarrow> float_bits \<times> float_bits \<Rightarrow> float_bits \<times> float_bits" where
  "track v mm = (if f32_lt v (fst mm) then (v, snd mm)
                 else if f32_lt (snd mm) v then (fst mm, v) else mm)"

type_synonym ranges = "(float_bits \<times> float_bits) \<times> (float_bits \<times> float_bits) \<times> (float_bits \<times> float_bits)"

definition track_sample :: "sensor_sample \<Rightarrow> ranges \<Rightarrow> ranges" where
  "track_sample raw r =
     (case magnetometer_ga raw of (x, y, z) \<Rightarrow> (track x (fst r), track y (fst (snd r)), track z (snd (snd r))))"

definition calibration_interval_ms :: u64 where
  "calibration_interval_ms = 30 * 1000"

partial_function (option) mag_loop :: "u64 \<Rightarrow> ranges \<Rightarrow> commander_task \<Rightarrow> (ranges \<times> commander_task) option" where
  "mag_loop start r m =
     (let (now, m1) = hrt_absolute_time m
      in if (now - start) div 1000 < calibration_interval_ms
         then (case poll m1 of
                 (Some raw, m2) \<Rightarrow> mag_loop start (track_sample raw r) m2
               | (None, m2) \<Rightarrow> Some (r, mavlink_log_info ''[commander] mag cal canceled'' m2))
         else Some (r, m1))"

definition centre :: "float_bits \<times> float_bits \<Rightarrow> float_bits" where
  "centre mm = f32_div (f32_add (snd mm) (fst mm)) (f32_of_int 2)"

definition do_mag_calibration :: "param_table \<Rightarrow> commander_task \<Rightarrow> unit command_outcome" where
  "do_mag_calibration T m0 =
     (let m1 = mavlink_log_info ''[commander] Please rotate around X'' (set_scale MAG_DEVICE scale_null
                 (publish_status (upd_status (\<lambda>s. s\<lparr>flag_preflight_mag_calibration := True\<rparr>) m0)));
          (start, m2) = hrt_absolute_time m1;
          r0 = ((FLT_MAX, minus_FLT_MAX), (FLT_MAX, minus_FLT_MAX), (FLT_MAX, minus_FLT_MAX))
      in case mag_loop start r0 m2 of
           None \<Rightarrow> Endless
         | Some ((rx, ry, rz), m3) \<Rightarrow>
             (let m4 = publish_status (upd_status (\<lambda>s. s\<lparr>flag_preflight_mag_calibration := False\<rparr>)
                         (mavlink_log_info ''[commander] mag calibration done'' m3));
                  x = centre rx; y = centre ry; z = centre rz
              in cmd_then (set_parameters T
                   [(''SENS_MAG_XOFF'', x, None), (''SENS_MAG_YOFF'', y, None), (''SENS_MAG_ZOFF'', z, None)] m4) (\<lambda>_ m5.
                 cmd_then (pm_save_eeprom T False
                   (set_scale MAG_DEVICE [(x, f32_of_int 1), (y, f32_of_int 1), (z, f32_of_int 1)] m5)) (\<lambda>_ m6.
                 Done () (mavlink_log_info ''[commander] magnetometer calibration finished'' m6)))))"

section \<open>Commands\<close>

record vehicle_command =
  param1 :: float_bits
  param2 :: float_bits
  param3 :: float_bits
  param4 :: float_bits
  param5 :: float_bits
  command :: u16

definition MAV_CMD_DO_SET_MODE :: u16 where "MAV_CMD_DO_SET_MODE = 176"
definition MAV_CMD_PREFLIGHT_CALIBRATION :: u16 where "MAV_CMD_PREFLIGHT_CALIBRATION = 241"
definition MAV_CMD_PREFLIGHT_STORAGE :: u16 where "MAV_CMD_PREFLIGHT_STORAGE = 245"
definition MAV_CMD_PREFLIGHT_REBOOT_SHUTDOWN :: u16 where "MAV_CMD_PREFLIGHT_REBOOT_SHUTDOWN = 246"
definition MAV_CMD_COMPONENT_ARM_DISARM :: u16 where "MAV_CMD_COMPONENT_ARM_DISARM = 400"
definition PX4_CMD_CONTROLLER_SELECTION :: u16 where "PX4_CMD_CONTROLLER_SELECTION = 1000"

lemmas command_ids = MAV_CMD_DO_SET_MODE_def MAV_CMD_PREFLIGHT_CALIBRATION_def
  MAV_CMD_PREFLIGHT_STORAGE_def MAV_CMD_PREFLIGHT_REBOOT_SHUTDOWN_def MAV_CMD_COMPONENT_ARM_DISARM_def
  PX4_CMD_CONTROLLER_SELECTION_def

definition MAV_RESULT_ACCEPTED :: u8 where "MAV_RESULT_ACCEPTED = 0"
definition MAV_RESULT_DENIED :: u8 where "MAV_RESULT_DENIED = 2"
definition MAV_RESULT_UNSUPPORTED :: u8 where "MAV_RESULT_UNSUPPORTED = 3"

lemmas result_codes = MAV_RESULT_ACCEPTED_def MAV_RESULT_DENIED_def MAV_RESULT_UNSUPPORTED_def

text \<open>Accepted when the call answers \<open>OK\<close>, else denied.\<close>

definition request_mode :: "u8 \<Rightarrow> commander_task \<Rightarrow> u8 command_outcome" where
  "request_mode mode m =
     cmd_then (on_core (update_state_machine_mode_request mode) m) (\<lambda>r m1.
       Done (if r = 0 then MAV_RESULT_ACCEPTED else MAV_RESULT_DENIED) m1)"

definition command_arm_disarm :: "vehicle_command \<Rightarrow> commander_task \<Rightarrow> u8 command_outcome" where
  "command_arm_disarm cmd m =
     with_int (param1 cmd) (\<lambda>p.
       if p = 1 then request_mode VEHICLE_MODE_FLAG_SAFETY_ARMED m
       else if p = 0 then request_mode VEHICLE_MODE_FLAG_SAFETY_ARMED m
       else Done MAV_RESULT_UNSUPPORTED m)"

definition command_reboot :: "vehicle_command \<Rightarrow> commander_task \<Rightarrow> u8 command_outcome" where
  "command_reboot cmd m =
     with_int (param1 cmd) (\<lambda>p.
       if p = 1
       then cmd_then (on_core (do_state_update SYSTEM_STATE_REBOOT) m) (\<lambda>r m1.
              Done (if r = OK then MAV_RESULT_ACCEPTED else MAV_RESULT_DENIED) m1)
       else Done MAV_RESULT_UNSUPPORTED m)"

text \<open>
  One control flag of the controller selection: compared as an integer, set to the parameter
  converted to a byte.
\<close>

definition select_flag ::
  "float_bits \<Rightarrow> (vehicle_status \<Rightarrow> u8) \<Rightarrow> (u8 \<Rightarrow> vehicle_status \<Rightarrow> vehicle_status) \<Rightarrow>
   bool \<Rightarrow> commander_task \<Rightarrow> bool command_outcome" where
  "select_flag p get_flag set_flag ch m =
     with_int p (\<lambda>v. if v \<noteq> uint (get_flag (status m))
       then with_u8 p (\<lambda>b. Done True (upd_status (set_flag b) m))
       else Done ch m)"

definition command_controller_selection :: "vehicle_command \<Rightarrow> commander_task \<Rightarrow> unit command_outcome" where
  "command_controller_selection cmd m =
     cmd_then (select_flag (param1 cmd) flag_control_rates_enabled
       (\<lambda>b s. s\<lparr>flag_control_rates_enabled := b\<rparr>) False m) (\<lambda>ch1 m1.
     cmd_then (select_flag (param2 cmd) flag_control_attitude_enabled
       (\<lambda>b s. s\<lparr>flag_control_attitude_enabled := b\<rparr>) ch1 m1) (\<lambda>ch2 m2.
     cmd_then (select_flag (param3 cmd) flag_control_velocity_enabled
       (\<lambda>b s. s\<lparr>flag_control_velocity_enabled := b\<rparr>) ch2 m2) (\<lambda>ch3 m3.
     cmd_then (select_flag (param4 cmd) flag_control_position_enabled
       (\<lambda>b s. s\<lparr>flag_control_position_enabled := b\<rparr>) ch3 m3) (\<lambda>ch4 m4.
     Done () (if ch4 then publish_status m4 else m4)))))"

text \<open>
  One of the three blocks of the calibration command: to the preflight state, calibrate, to
  standby.
\<close>

definition calibrate ::
  "string \<Rightarrow> string \<Rightarrow> string \<Rightarrow> (commander_task \<Rightarrow> unit command_outcome) \<Rightarrow> commander_task \<Rightarrow> u8 command_outcome" where
  "calibrate starting finished rejecting routine m =
     cmd_then (on_core (do_state_update SYSTEM_STATE_PREFLIGHT) m) (\<lambda>_ m1.
       if state_machine (status m1) = SYSTEM_STATE_PREFLIGHT
       then cmd_then (routine (mavlink_log_info starting m1)) (\<lambda>_ m2.
            cmd_then (on_core (do_state_update SYSTEM_STATE_STANDBY) (mavlink_log_info finished m2)) (\<lambda>_ m3.
            Done MAV_RESULT_ACCEPTED m3))
       else Done MAV_RESULT_DENIED (log_crit rejecting m1))"

text \<open>A block that is entered when its parameter is 1; whether one was, and the result so far.\<close>

definition calibrate_if ::
  "float_bits \<Rightarrow> (commander_task \<Rightarrow> u8 command_outcome) \<Rightarrow> bool \<times> u8 \<Rightarrow> commander_task \<Rightarrow> (bool \<times> u8) command_outcome" where
  "calibrate_if p block hr m =
     with_int p (\<lambda>v. if v = 1 then cmd_then (block m) (\<lambda>r m1. Done (True, r) m1) else Done hr m)"

definition command_calibration :: "param_table \<Rightarrow> vehicle_command \<Rightarrow> commander_task \<Rightarrow> u8 command_outcome" where
  "command_calibration T cmd m =
     cmd_then (calibrate_if (param1 cmd) (calibrate ''[commander] CMD starting gyro calibration''
       ''[commander] CMD finished gyro calibration'' ''[commander] REJECTING gyro calibration''
       (do_gyro_calibration T)) (False, MAV_RESULT_UNSUPPORTED) m) (\<lambda>hr1 m1.
     cmd_then (calibrate_if (param2 cmd) (calibrate ''[commander] CMD starting mag calibration''
       ''[commander] CMD finished mag calibration'' ''[commander] CMD REJECTING mag calibration''
       (do_mag_calibration T)) hr1 m1) (\<lambda>hr2 m2.
     cmd_then (calibrate_if (param5 cmd) (calibrate ''[commander] CMD starting accel calibration''
       ''[commander] CMD finished accel calibration'' ''[commander] REJECTING accel calibration''
       (do_accel_calibration T)) hr2 m2) (\<lambda>(handled, result) m3.
     if \<not> handled
     then Done MAV_RESULT_UNSUPPORTED (log_crit ''[commander] CMD refusing unsup. calib. request'' m3)
     else Done result m3)))"

text \<open>
  The switch over the command. The case of the controller selection has no \<open>break\<close>: it goes on
  with the calibration.
\<close>

definition handle_command :: "param_table \<Rightarrow> vehicle_command \<Rightarrow> commander_task \<Rightarrow> u8 command_outcome" where
  "handle_command T cmd m =
     (if command cmd = MAV_CMD_DO_SET_MODE then with_u8 (param1 cmd) (\<lambda>mode. request_mode mode m)
      else if command cmd = MAV_CMD_COMPONENT_ARM_DISARM then command_arm_disarm cmd m
      else if command cmd = MAV_CMD_PREFLIGHT_REBOOT_SHUTDOWN then command_reboot cmd m
      else if command cmd = PX4_CMD_CONTROLLER_SELECTION
      then cmd_then (command_controller_selection cmd m) (\<lambda>_. command_calibration T cmd)
      else if command cmd = MAV_CMD_PREFLIGHT_CALIBRATION then command_calibration T cmd m
      else if command cmd = MAV_CMD_PREFLIGHT_STORAGE then Done MAV_RESULT_UNSUPPORTED m
      else Done MAV_RESULT_UNSUPPORTED (log_crit ''[commander] refusing unsupported command'' m))"


section \<open>What single commands do\<close>

lemma on_core_request:
  assumes "commander_inv (core m)"
  obtains m' where "request_mode mode m = Done (if spec_mode_code mode (view (core m)) = 0
      then MAV_RESULT_ACCEPTED else MAV_RESULT_DENIED) m'"
    "commander_inv (core m')" "spec_step (Mode_request mode) (view (core m)) = Some (view (core m'))"
proof -
  obtain c where "update_state_machine_mode_request mode (core m) =
      Returned (spec_mode_code mode (view (core m))) c" "commander_inv c"
    "spec_step (Mode_request mode) (view (core m)) = Some (view c)"
    by (rule mode_request_refines [OF assms])
  then show ?thesis using that [of "m\<lparr>core := c\<rparr>"] by (simp add: request_mode_def on_core_def)
qed

text \<open>Once in the reboot state, no operation of the loop leaves it or changes the armed flag.\<close>

definition stuck :: "bool \<Rightarrow> commander \<Rightarrow> bool" where
  "stuck a c \<longleftrightarrow> state_machine (current_status c) = SYSTEM_STATE_REBOOT \<and>
     flag_system_armed (current_status c) = a"

lemma stuck_event:
  assumes "stuck a c" "loop_event e"
  shows "\<exists>d. commander_step e c = Some d \<and> stuck a d"
  using assms
  by (auto simp: loop_event_def stuck_def growing.operation_defs)

interpretation stranded: loop_contract "stuck a" "\<lambda>b c d. True" for a
  by unfold_locales
     (use stuck_event in \<open>auto simp: stuck_def same_signals_def same_state_def publish_both_def publish_defs\<close>)

lemma stuck_turns:
  assumes "stuck a (core m)" "param_inv T (store m)"
  shows "\<exists>m'. run_steps (commander_turn T) is m = Some m' \<and> stuck a (core m')"
  using assms
proof (induction "is" arbitrary: m)
  case (Cons i "is")
  obtain m7 where m7: "commander_turn T i m =
      Some ((publish_turn m7)\<lparr>loop_counter := loop_counter (publish_turn m7) + 1\<rparr>)"
    "stuck a (core (publish_turn m7))" "store m7 = store m"
    using stranded.turn_good [OF Cons.prems, of i] by (auto simp: keeps_def)
  have "store (publish_turn m7) = store m" using m7(3) by (simp add: publish_turn_def Let_def)
  then show ?case using Cons.IH [of "(publish_turn m7)\<lparr>loop_counter := loop_counter (publish_turn m7) + 1\<rparr>"]
      m7(1,2) Cons.prems(2) by simp
qed simp

section \<open>Calibrating\<close>

text \<open>Setting a parameter by name, and a list of them.\<close>

definition set_named :: "param_table \<Rightarrow> string \<Rightarrow> float_bits \<Rightarrow> (param_t \<Rightarrow> u32 option) \<Rightarrow> param_t \<Rightarrow> u32 option" where
  "set_named T name v f =
     (let p = param_find T (ascii name) in if handle_in_range T p then f(p \<mapsto> v) else f)"

definition quiet_update :: "commander_task \<Rightarrow> commander_task \<Rightarrow> bool" where
  "quiet_update m m' \<longleftrightarrow> same_signals (core m') (core m) \<and>
     flag_preflight_gyro_calibration (status m') = flag_preflight_gyro_calibration (status m) \<and>
     polls m' = polls m \<and> opens m' = opens m \<and> open_calls m' = open_calls m"

lemma set_parameter_spec:
  assumes "param_inv T (store m)"
  shows "\<exists>m'. set_parameter T name v msg m = Done () m' \<and> param_inv T (store m') \<and>
    changed (store m') = set_named T name v (changed (store m)) \<and> quiet_update m m'"
proof -
  let ?p = "param_find T (ascii name)"
  obtain r s where s: "param_set T ?p (le32 v) (store m) = Some (r, s)" "param_inv T s"
    "changed s = set_named T name v (changed (store m))"
  proof (cases "handle_in_range T ?p")
    case True
    then show ?thesis using that param_set_spec [OF assms True, of "le32 v" False]
      by (auto simp: param_set_def set_named_def)
  next
    case False
    then show ?thesis using that param_set_foreign [OF assms False, of "le32 v" False]
      by (auto simp: param_set_def set_named_def)
  qed
  then show ?thesis
    by (auto simp: set_parameter_def quiet_update_def log_crit_def mavlink_log_critical_def
        same_signals_def same_state_def split: option.split)
qed

fun set_all_named ::
  "param_table \<Rightarrow> (string \<times> float_bits \<times> string option) list \<Rightarrow> (param_t \<Rightarrow> u32 option) \<Rightarrow> param_t \<Rightarrow> u32 option" where
  "set_all_named T [] f = f"
| "set_all_named T ((name, v, msg) # ps) f = set_all_named T ps (set_named T name v f)"

lemma quiet_update_trans: "quiet_update a b \<Longrightarrow> quiet_update b c \<Longrightarrow> quiet_update a c"
  by (auto simp: quiet_update_def intro: same_signals_trans)

lemma set_parameters_spec:
  assumes "param_inv T (store m)"
  shows "\<exists>m'. set_parameters T ps m = Done () m' \<and> param_inv T (store m') \<and>
    changed (store m') = set_all_named T ps (changed (store m)) \<and> quiet_update m m'"
  using assms
proof (induction ps arbitrary: m)
  case Nil
  then show ?case by (simp add: quiet_update_def)
next
  case (Cons p ps)
  obtain name v msg where p: "p = (name, v, msg)" by (cases p)
  obtain m1 where m1: "set_parameter T name v msg m = Done () m1" "param_inv T (store m1)"
    "changed (store m1) = set_named T name v (changed (store m))" "quiet_update m m1"
    using set_parameter_spec [OF Cons.prems] by blast
  obtain m2 where "set_parameters T ps m1 = Done () m2" "param_inv T (store m2)"
    "changed (store m2) = set_all_named T ps (changed (store m1))" "quiet_update m1 m2"
    using Cons.IH [OF m1(2)] by blast
  then show ?case using m1 quiet_update_trans [OF m1(4)] by (simp add: p)
qed


lemma pm_save_total:
  assumes "param_inv T (store m)"
  shows "\<exists>r m'. pm_save_eeprom T b m = Done r m' \<and> param_inv T (store m') \<and>
    changed (store m') = changed (store m) \<and> core m' = core m \<and> scales m' = scales m"
proof (cases "opens m (open_calls m)")
  case None
  then show ?thesis using assms by (simp add: pm_save_eeprom_def)
next
  case (Some space)
  obtain r f s where "param_export T \<lparr>written = [], room = space\<rparr> b (store m) = Some (r, f, s)"
    "param_inv T s" "changed s = changed (store m)"
    using param_export_total [OF assms] by blast
  then show ?thesis using Some by (simp add: pm_save_eeprom_def Let_def)
qed

lemma sample_loop_task:
  "sample_loop n sensor acc m = (r, m') \<Longrightarrow> m' = m\<lparr>poll_calls := poll_calls m'\<rparr>"
proof (induction n arbitrary: acc m)
  case (Suc n)
  then show ?case
    by (cases "polls m (poll_calls m)") (auto simp: poll_def dest!: Suc.IH)
qed simp

text \<open>The samples a calibration that is not interrupted adds up.\<close>

definition samples_from :: "commander_task \<Rightarrow> nat \<Rightarrow> (sensor_sample \<Rightarrow> triple) \<Rightarrow> triple list" where
  "samples_from m n sensor = map (\<lambda>k. sensor (the (polls m (poll_calls m + k)))) [0..<n]"

lemma sample_loop_all:
  assumes "\<forall>k < n. polls m (poll_calls m + k) \<noteq> None"
  shows "sample_loop n sensor acc m =
    (Some (foldl add_triple acc (samples_from m n sensor)), m\<lparr>poll_calls := poll_calls m + n\<rparr>)"
  using assms
proof (induction n arbitrary: acc m)
  case 0
  then show ?case by (simp add: samples_from_def)
next
  case (Suc n)
  obtain raw where raw: "polls m (poll_calls m) = Some raw" using Suc.prems by fastforce
  let ?m = "m\<lparr>poll_calls := Suc (poll_calls m)\<rparr>"
  have "\<forall>k < n. polls ?m (poll_calls ?m + k) \<noteq> None" using Suc.prems by auto
  then have "sample_loop n sensor (add_triple acc (sensor raw)) ?m =
      (Some (foldl add_triple (add_triple acc (sensor raw)) (samples_from ?m n sensor)),
       ?m\<lparr>poll_calls := poll_calls ?m + n\<rparr>)" by (rule Suc.IH)
  moreover have "samples_from m (Suc n) sensor = sensor raw # samples_from ?m n sensor"
    unfolding samples_from_def by (subst upt_conv_Cons) (simp_all add: raw map_Suc_upt [symmetric] comp_def del: upt_Suc)
  ultimately show ?case using raw by (simp add: poll_def)
qed

lemma core_steps [simp]:
  "core (set_scale d s m) = core m" "core (mavlink_log_info msg m) = core m"
  "core (publish_status m) = state_machine_publish (core m)"
  "store (set_scale d s m) = store m" "store (mavlink_log_info msg m) = store m"
  "store (publish_status m) = store m" "store (upd_status f m) = store m"
  "polls (set_scale d s m) = polls m" "polls (mavlink_log_info msg m) = polls m"
  "polls (publish_status m) = polls m" "polls (upd_status f m) = polls m"
  "poll_calls (set_scale d s m) = poll_calls m" "poll_calls (mavlink_log_info msg m) = poll_calls m"
  "poll_calls (publish_status m) = poll_calls m" "poll_calls (upd_status f m) = poll_calls m"
  by (simp_all add: set_scale_def mavlink_log_info_def publish_status_def upd_status_def)

text \<open>
  The environment a command needs to come to an end: a parameter store in order, and a clock that
  gets 30 seconds ahead of any of its readings.
\<close>

definition ongoing :: "(nat \<Rightarrow> u64) \<Rightarrow> bool" where
  "ongoing clock \<longleftrightarrow> (\<forall>n. \<exists>k > n. calibration_interval_ms \<le> (clock k - clock n) div 1000)"

definition env_ok :: "param_table \<Rightarrow> commander_task \<Rightarrow> bool" where
  "env_ok T m \<longleftrightarrow> param_inv T (store m) \<and> ongoing (hrt (core m))"

interpretation clocked: effect_property "\<lambda>c. hrt c = clock" for clock
  by unfold_locales (auto simp: publish_defs)

lemma env_ok_steps [simp]:
  "env_ok T (set_scale d s m) = env_ok T m" "env_ok T (mavlink_log_info msg m) = env_ok T m"
  "env_ok T (publish_status m) = env_ok T m" "env_ok T (upd_status f m) = env_ok T m"
  "env_ok T (m\<lparr>poll_calls := n\<rparr>) = env_ok T m"
  by (simp_all add: env_ok_def state_machine_publish_def Let_def)

lemma quiet_update_env: "quiet_update m m' \<Longrightarrow> param_inv T (store m') \<Longrightarrow> env_ok T m \<Longrightarrow> env_ok T m'"
  by (simp add: env_ok_def quiet_update_def same_signals_def)

text \<open>The magnetometer loop ends once the clock has advanced enough.\<close>

lemma mag_loop_ends:
  assumes "calibration_interval_ms \<le> (hrt (core m) (hrt_reads (core m) + n) - start) div 1000"
  shows "\<exists>x. mag_loop start r m = Some x \<and> store (snd x) = store m \<and> hrt (core (snd x)) = hrt (core m)"
  using assms
proof (induction n arbitrary: r m)
  case 0
  then have "\<not> (hrt (core m) (hrt_reads (core m)) - start) div 1000 < calibration_interval_ms"
    by (simp add: not_less)
  then show ?case by (subst mag_loop.simps) (simp add: hrt_absolute_time_def)
next
  case (Suc n)
  show ?case
  proof (cases "(hrt (core m) (hrt_reads (core m)) - start) div 1000 < calibration_interval_ms")
    case False
    then show ?thesis by (subst mag_loop.simps) (simp add: hrt_absolute_time_def)
  next
    case True
    show ?thesis
    proof (cases "polls m (poll_calls m)")
      case None
      then show ?thesis using True
        by (subst mag_loop.simps) (simp add: hrt_absolute_time_def poll_def mavlink_log_info_def)
    next
      case (Some raw)
      let ?m = "snd (poll (snd (hrt_absolute_time m)))"
      have m: "hrt (core ?m) = hrt (core m)" "hrt_reads (core ?m) = Suc (hrt_reads (core m))" "store ?m = store m"
        by (simp_all add: hrt_absolute_time_def poll_def)
      have "\<exists>x. mag_loop start (track_sample raw r) ?m = Some x \<and> store (snd x) = store ?m \<and>
          hrt (core (snd x)) = hrt (core ?m)"
        by (rule Suc.IH) (use Suc.prems m in simp)
      then show ?thesis using True Some m
        by (subst mag_loop.simps) (simp add: hrt_absolute_time_def poll_def)
    qed
  qed
qed

lemma do_mag_total:
  assumes "env_ok T m"
  shows "\<exists>m'. do_mag_calibration T m = Done () m' \<and> env_ok T m'"
proof -
  define m1 where "m1 = mavlink_log_info ''[commander] Please rotate around X'' (set_scale MAG_DEVICE scale_null
    (publish_status (upd_status (\<lambda>s. s\<lparr>flag_preflight_mag_calibration := True\<rparr>) m)))"
  have e1: "env_ok T m1" using assms by (simp add: m1_def)
  obtain start m2 where m2: "hrt_absolute_time m1 = (start, m2)" by fastforce
  then have h: "start = hrt (core m1) (hrt_reads (core m1))" "hrt (core m2) = hrt (core m1)"
    "hrt_reads (core m2) = Suc (hrt_reads (core m1))" "store m2 = store m1"
    by (auto simp: hrt_absolute_time_def)
  obtain k where k: "hrt_reads (core m1) < k" "calibration_interval_ms \<le> (hrt (core m1) k - start) div 1000"
    using e1 unfolding h(1) env_ok_def ongoing_def by blast
  then have "calibration_interval_ms \<le> (hrt (core m2) (hrt_reads (core m2) + (k - Suc (hrt_reads (core m1)))) - start) div 1000"
    by (simp add: h(2,3))
  then obtain rx ry rz m3 where m3: "mag_loop start ((FLT_MAX, minus_FLT_MAX), (FLT_MAX, minus_FLT_MAX), (FLT_MAX, minus_FLT_MAX)) m2
      = Some ((rx, ry, rz), m3)" "store m3 = store m2" "hrt (core m3) = hrt (core m2)"
    using mag_loop_ends [of m2] by (metis prod.exhaust snd_conv)
  define m4 where "m4 = publish_status (upd_status (\<lambda>s. s\<lparr>flag_preflight_mag_calibration := False\<rparr>)
    (mavlink_log_info ''[commander] mag calibration done'' m3))"
  have e4: "env_ok T m4" using e1 m3(2,3) h by (simp add: m4_def env_ok_def state_machine_publish_def Let_def)
  then have i4: "param_inv T (store m4)" by (simp add: env_ok_def)
  let ?ps = "[(''SENS_MAG_XOFF'', centre rx, None), (''SENS_MAG_YOFF'', centre ry, None), (''SENS_MAG_ZOFF'', centre rz, None)]"
  obtain m5 where m5: "set_parameters T ?ps m4 = Done () m5" "env_ok T m5"
    using set_parameters_spec [OF i4] e4 quiet_update_env by blast
  let ?m5 = "set_scale MAG_DEVICE [(centre rx, f32_of_int 1), (centre ry, f32_of_int 1), (centre rz, f32_of_int 1)] m5"
  obtain q m6 where "pm_save_eeprom T False ?m5 = Done q m6" "env_ok T m6"
    using pm_save_total [of T ?m5 False] m5(2) by (auto simp: env_ok_def)
  then show ?thesis
    using m5 unfolding do_mag_calibration_def m1_def [symmetric] Let_def m2 prod.case m3(1) option.case
      m4_def [symmetric] by (simp del: set_parameters.simps)
qed

lemma do_gyro_total:
  assumes "env_ok T m"
  shows "\<exists>m'. do_gyro_calibration T m = Done () m' \<and> env_ok T m'"
proof -
  define m1 where "m1 = set_scale GYRO_DEVICE scale_null
    (publish_status (upd_status (\<lambda>s. s\<lparr>flag_preflight_gyro_calibration := True\<rparr>) m))"
  obtain r m2 where m2: "sample_loop calibration_count gyro_rad_s (f32_of_int 0, f32_of_int 0, f32_of_int 0) m1 = (r, m2)"
    by fastforce
  obtain n where n: "m2 = m1\<lparr>poll_calls := n\<rparr>" using sample_loop_task [OF m2] by blast
  have e2: "env_ok T m2" using assms by (simp add: n m1_def)
  then have i2: "param_inv T (store m2)" by (simp add: env_ok_def)
  show ?thesis
  proof (cases r)
    case None
    then show ?thesis using m2 e2 by (simp add: do_gyro_calibration_def m1_def [symmetric])
  next
    case (Some acc)
    obtain x y z where xyz: "mean acc = (x, y, z)" by (cases "mean acc") auto
    let ?ps = "[(''SENS_GYRO_XOFF'', x, Some ''[commander] Setting X gyro offset failed!''),
      (''SENS_GYRO_YOFF'', y, Some ''[commander] Setting Y gyro offset failed!''),
      (''SENS_GYRO_ZOFF'', z, Some ''[commander] Setting Z gyro offset failed!'')]"
    obtain m3 where m3: "set_parameters T ?ps m2 = Done () m3" "env_ok T m3"
      using set_parameters_spec [OF i2] e2 quiet_update_env by blast
    let ?m3 = "set_scale GYRO_DEVICE [(x, f32_of_int 1), (y, f32_of_int 1), (z, f32_of_int 1)] m3"
    obtain q m4 where "pm_save_eeprom T False ?m3 = Done q m4" "env_ok T m4"
      using pm_save_total [of T ?m3 False] m3(2) by (auto simp: env_ok_def)
    then show ?thesis
      using m2 m3 Some xyz by (simp add: do_gyro_calibration_def m1_def [symmetric] del: set_parameters.simps)
  qed
qed

lemma do_accel_total:
  assumes "env_ok T m"
  shows "\<exists>m'. do_accel_calibration T m = Done () m' \<and> env_ok T m'"
proof -
  define m1 where "m1 = set_scale ACCEL_DEVICE scale_null
    (publish_status (upd_status (\<lambda>s. s\<lparr>flag_preflight_accel_calibration := True\<rparr>)
      (mavlink_log_info ''[commander] keep it level and still'' m)))"
  obtain r m2 where m2: "sample_loop calibration_count accelerometer_m_s2 (f32_of_int 0, f32_of_int 0, f32_of_int 0) m1 = (r, m2)"
    by fastforce
  obtain n where n: "m2 = m1\<lparr>poll_calls := n\<rparr>" using sample_loop_task [OF m2] by blast
  have e2: "env_ok T m2" using assms by (simp add: n m1_def)
  then have i2: "param_inv T (store m2)" by (simp add: env_ok_def)
  show ?thesis
  proof (cases r)
    case None
    then show ?thesis using m2 e2 by (simp add: do_accel_calibration_def m1_def [symmetric])
  next
    case (Some acc)
    obtain x y z0 where xyz: "mean acc = (x, y, z0)" by (cases "mean acc") auto
    define len where "len = f32_sqrt (f32_add (f32_add (f32_mul x x) (f32_mul y y)) (f32_mul z0 z0))"
    define z where "z = f32_add z0 len"
    define scale where "scale = f32_div 0x411CE80A len"
    let ?ps = "[(''SENS_ACC_XOFF'', x, Some ''[commander] Setting X accel offset failed!''),
      (''SENS_ACC_YOFF'', y, Some ''[commander] Setting Y accel offset failed!''),
      (''SENS_ACC_ZOFF'', z, Some ''[commander] Setting Z accel offset failed!''),
      (''SENS_ACC_XSCALE'', scale, Some ''[commander] Setting X accel offset failed!''),
      (''SENS_ACC_YSCALE'', scale, Some ''[commander] Setting Y accel offset failed!''),
      (''SENS_ACC_ZSCALE'', scale, Some ''[commander] Setting Z accel offset failed!'')]"
    obtain m3 where m3: "set_parameters T ?ps m2 = Done () m3" "env_ok T m3"
      using set_parameters_spec [OF i2] e2 quiet_update_env by blast
    let ?m3 = "set_scale ACCEL_DEVICE [(x, scale), (y, scale), (z, scale)] m3"
    obtain q m4 where "pm_save_eeprom T False ?m3 = Done q m4" "env_ok T m4"
      using pm_save_total [of T ?m3 False] m3(2) by (auto simp: env_ok_def)
    then show ?thesis
      using m2 m3 Some xyz
      by (simp add: do_accel_calibration_def m1_def [symmetric] len_def [symmetric] z_def [symmetric]
          scale_def [symmetric] Let_def del: set_parameters.simps)
  qed
qed


lemma to_preflight:
  "\<exists>r m'. on_core (do_state_update SYSTEM_STATE_PREFLIGHT) m = Done r m' \<and>
     state_machine (status m') = SYSTEM_STATE_PREFLIGHT \<and> store m' = store m \<and>
     hrt (core m') = hrt (core m)"
proof -
  obtain r c where r: "do_state_update SYSTEM_STATE_PREFLIGHT (core m) = Returned r c"
    "state_machine (current_status c) = SYSTEM_STATE_PREFLIGHT"
    using that by (cases "grounded (core m)") (simp_all add: do_state_update_preflight)
  have "hrt c = hrt (core m)" by (rule clocked.update [OF refl r(1)])
  then show ?thesis using r by (simp add: on_core_def)
qed

lemma to_standby:
  "\<exists>r c. on_core (do_state_update SYSTEM_STATE_STANDBY) m = Done r (m\<lparr>core := c\<rparr>) \<and>
     commander_inv c \<and> state_machine (current_status c) = SYSTEM_STATE_STANDBY \<and> hrt c = hrt (core m)"
proof -
  obtain msg where "do_state_update SYSTEM_STATE_STANDBY (core m) = Returned OK (enter_state SYSTEM_STATE_STANDBY
      (mavlink_log_critical msg (set_armed (armed_state SYSTEM_STATE_STANDBY) (core m))))"
    using do_state_update_accepts [of SYSTEM_STATE_STANDBY "core m"] by auto
  moreover from this have "hrt (enter_state SYSTEM_STATE_STANDBY (mavlink_log_critical msg
      (set_armed (armed_state SYSTEM_STATE_STANDBY) (core m)))) = hrt (core m)"
    by (rule clocked.update [OF refl])
  ultimately show ?thesis by (auto simp: on_core_def intro!: commander_inv_enter)
qed

text \<open>What holds after a calibration that was carried out, whatever held before.\<close>

definition at_standby :: "param_table \<Rightarrow> commander_task \<Rightarrow> bool" where
  "at_standby T m \<longleftrightarrow> task_inv T m \<and> env_ok T m \<and> state_machine (status m) = SYSTEM_STATE_STANDBY"

lemma calibrate_returns:
  assumes "env_ok T m"
    and "\<And>m1. env_ok T m1 \<Longrightarrow> \<exists>m2. routine m1 = Done () m2 \<and> env_ok T m2"
  shows "\<exists>m'. calibrate a b c routine m = Done MAV_RESULT_ACCEPTED m' \<and> at_standby T m'"
proof -
  obtain r m1 where m1: "on_core (do_state_update SYSTEM_STATE_PREFLIGHT) m = Done r m1"
    "state_machine (status m1) = SYSTEM_STATE_PREFLIGHT" "store m1 = store m"
    "hrt (core m1) = hrt (core m)"
    using to_preflight by blast
  obtain m2 where m2: "routine (mavlink_log_info a m1) = Done () m2" "env_ok T m2"
    using assms(2) [of "mavlink_log_info a m1"] m1(3,4) assms(1) by (auto simp: env_ok_def)
  obtain q d where "on_core (do_state_update SYSTEM_STATE_STANDBY) (mavlink_log_info b m2) =
      Done q ((mavlink_log_info b m2)\<lparr>core := d\<rparr>)" "commander_inv d"
    "state_machine (current_status d) = SYSTEM_STATE_STANDBY" "hrt d = hrt (core (mavlink_log_info b m2))"
    using to_standby by blast
  then show ?thesis using m1 m2 by (simp add: calibrate_def at_standby_def task_inv_def env_ok_def)
qed

lemma calibrate_if_returns:
  assumes "f32_to_int32 p = Some v" "env_ok T m"
    and "\<And>m1. env_ok T m1 \<Longrightarrow> \<exists>m2. routine m1 = Done () m2 \<and> env_ok T m2"
  shows "\<exists>m'. calibrate_if p (calibrate a b c routine) hr m =
      Done (if v = 1 then (True, MAV_RESULT_ACCEPTED) else hr) m' \<and> env_ok T m' \<and>
    (if v = 1 then at_standby T m' else m' = m)"
  using calibrate_returns [where T = T and routine = routine and m = m and a = a and b = b and c = c, OF assms(2,3)] assms(1,2)
  by (auto simp: calibrate_if_def with_int_def at_standby_def task_inv_def)

lemma calibration_ends_at_standby:
  assumes "f32_to_int32 (param1 cmd) = Some p1" "f32_to_int32 (param2 cmd) = Some p2"
    and "f32_to_int32 (param5 cmd) = Some p5" "env_ok T m"
  shows "\<exists>m'. command_calibration T cmd m =
      Done (if p1 = 1 \<or> p2 = 1 \<or> p5 = 1 then MAV_RESULT_ACCEPTED else MAV_RESULT_UNSUPPORTED) m' \<and>
    env_ok T m' \<and> (p1 = 1 \<or> p2 = 1 \<or> p5 = 1 \<longrightarrow> at_standby T m') \<and>
    (\<not> (p1 = 1 \<or> p2 = 1 \<or> p5 = 1) \<longrightarrow> same_signals (core m') (core m))"
proof -
  let ?none = "(False, MAV_RESULT_UNSUPPORTED)" and ?one = "(True, MAV_RESULT_ACCEPTED)"
  let ?hr1 = "if p1 = 1 then ?one else ?none"
  let ?hr2 = "if p2 = 1 then ?one else ?hr1"
  let ?hr3 = "if p5 = 1 then ?one else ?hr2"
  obtain m1 where m1: "calibrate_if (param1 cmd) (calibrate ''[commander] CMD starting gyro calibration''
      ''[commander] CMD finished gyro calibration'' ''[commander] REJECTING gyro calibration''
      (do_gyro_calibration T)) ?none m = Done ?hr1 m1" "env_ok T m1"
    "if p1 = 1 then at_standby T m1 else m1 = m"
    using calibrate_if_returns [where routine = "do_gyro_calibration T", OF assms(1,4) do_gyro_total] by blast
  obtain m2 where m2: "calibrate_if (param2 cmd) (calibrate ''[commander] CMD starting mag calibration''
      ''[commander] CMD finished mag calibration'' ''[commander] CMD REJECTING mag calibration''
      (do_mag_calibration T)) ?hr1 m1 = Done ?hr2 m2" "env_ok T m2"
    "if p2 = 1 then at_standby T m2 else m2 = m1"
    using calibrate_if_returns [where routine = "do_mag_calibration T", OF assms(2) m1(2) do_mag_total] by blast
  obtain m3 where m3: "calibrate_if (param5 cmd) (calibrate ''[commander] CMD starting accel calibration''
      ''[commander] CMD finished accel calibration'' ''[commander] REJECTING accel calibration''
      (do_accel_calibration T)) ?hr2 m2 = Done ?hr3 m3" "env_ok T m3"
    "if p5 = 1 then at_standby T m3 else m3 = m2"
    using calibrate_if_returns [where routine = "do_accel_calibration T", OF assms(3) m2(2) do_accel_total] by blast
  have "command_calibration T cmd m = cmd_then (Done ?hr3 m3)
      (\<lambda>(handled, result) m3. if \<not> handled
       then Done MAV_RESULT_UNSUPPORTED (log_crit ''[commander] CMD refusing unsup. calib. request'' m3)
       else Done result m3)"
    unfolding command_calibration_def m1(1) m2(1) m3(1) cmd_then.simps ..
  then show ?thesis using m1(3) m2(3) m3(2,3)
    by (cases "p5 = 1"; cases "p2 = 1"; cases "p1 = 1") (auto simp: env_ok_def log_crit_def mavlink_log_critical_def same_signals_def same_state_def)
qed

text \<open>The controller selection.\<close>

lemma select_flag_returns:
  assumes "f32_to_u8 p = Some b"
  shows "\<exists>ch' m'. select_flag p get_flag set_flag ch m = Done ch' m' \<and>
    (m' = m \<and> ch' = ch \<and> get_flag (status m) = b \<or>
     m' = upd_status (set_flag b) m \<and> ch' \<and> get_flag (status m) \<noteq> b)"
proof -
  obtain v where v: "f32_to_int p = Some v" "0 \<le> v" "v < 256" "b = word_of_int v"
    using assms by (auto simp: f32_to_u8_def split: option.splits if_splits)
  then have "f32_to_int32 p = Some v" by (simp add: f32_to_int32_def)
  moreover have "v = uint (get_flag (status m)) \<longleftrightarrow> get_flag (status m) = b"
    using v by (auto simp: unsigned_of_int take_bit_int_eq_self)
  ultimately show ?thesis using assms by (auto simp: select_flag_def with_int_def with_u8_def)
qed

lemma controller_selection_returns:
  assumes "f32_to_u8 (param1 cmd) = Some b1" "f32_to_u8 (param2 cmd) = Some b2"
    and "f32_to_u8 (param3 cmd) = Some b3" "f32_to_u8 (param4 cmd) = Some b4"
  shows "\<exists>m'. command_controller_selection cmd m = Done () m' \<and> store m' = store m \<and> hrt (core m') = hrt (core m)"
proof -
  obtain c1 m1 where 1: "select_flag (param1 cmd) flag_control_rates_enabled
      (\<lambda>b s. s\<lparr>flag_control_rates_enabled := b\<rparr>) False m = Done c1 m1" "store m1 = store m" "hrt (core m1) = hrt (core m)"
    using select_flag_returns [OF assms(1)] by fastforce
  obtain c2 m2 where 2: "select_flag (param2 cmd) flag_control_attitude_enabled
      (\<lambda>b s. s\<lparr>flag_control_attitude_enabled := b\<rparr>) c1 m1 = Done c2 m2" "store m2 = store m1" "hrt (core m2) = hrt (core m1)"
    using select_flag_returns [OF assms(2)] by fastforce
  obtain c3 m3 where 3: "select_flag (param3 cmd) flag_control_velocity_enabled
      (\<lambda>b s. s\<lparr>flag_control_velocity_enabled := b\<rparr>) c2 m2 = Done c3 m3" "store m3 = store m2" "hrt (core m3) = hrt (core m2)"
    using select_flag_returns [OF assms(3)] by fastforce
  obtain c4 m4 where 4: "select_flag (param4 cmd) flag_control_position_enabled
      (\<lambda>b s. s\<lparr>flag_control_position_enabled := b\<rparr>) c3 m3 = Done c4 m4" "store m4 = store m3" "hrt (core m4) = hrt (core m3)"
    using select_flag_returns [OF assms(4)] by fastforce
  show ?thesis using 1 2 3 4 by (simp add: command_controller_selection_def state_machine_publish_def Let_def)
qed

lemma f32_u8_int32: "f32_to_u8 p = Some b \<Longrightarrow> f32_to_int32 p = Some (uint b)"
  by (auto simp: f32_to_u8_def f32_to_int32_def unsigned_of_int take_bit_int_eq_self
      split: option.splits if_splits)


text \<open>A gyro calibration that is not interrupted, with room for the file.\<close>

lemma entries_bound:
  assumes "param_inv T s" "param_values s = Some ws"
  shows "length ws \<le> length T"
proof -
  have pt: "plain_table T" and d: "distinct (map wb_param ws)"
    and r: "\<forall>w \<in> set ws. handle_in_range T (wb_param w)"
    using assms by (auto simp: param_inv_def)
  have "inj_on unat (set (map wb_param ws))" by (rule inj_onI) (rule unsigned_word_eqI)
  then have "card (unat ` set (map wb_param ws)) = length ws"
    using distinct_card [OF d] by (simp only: card_image length_map)
  moreover have "unat ` set (map wb_param ws) \<subseteq> {..<length T}"
    using r in_range_length [OF pt] by auto
  ultimately show ?thesis using card_mono [of "{..<length T}" "unat ` set (map wb_param ws)"] by simp
qed

lemma pm_save_loads:
  assumes "param_inv T (store m)" "savable T" "no_nans T (store m)" "changed (store m) p \<noteq> None"
    and "opens m (open_calls m) = Some space" "41 * length T + 5 \<le> space" "param_inv T t"
  shows "\<exists>m' img s2. pm_save_eeprom T False m = Done 0 m' \<and> parameter_file m' = Some img \<and>
    param_load T img junk t = Some (0, s2) \<and> changed s2 = changed (store m) \<and>
    core m' = core m \<and> scales m' = scales m"
proof -
  obtain ws where ws: "param_values (store m) = Some ws"
    using assms(4) by (auto simp: changed_def param_find_changed_def split: option.splits)
  have "41 * length ws + 5 \<le> room \<lparr>written = [], room = space\<rparr>"
    using entries_bound [OF assms(1) ws] assms(6) by simp
  from saved_file_loads [OF assms(1-3) ws _ this assms(7), of junk]
  obtain img s1 s2 where "param_export T \<lparr>written = [], room = space\<rparr> False (store m) = Some (0, img, s1)"
    "param_load T (written img) junk t = Some (0, s2)" "changed s2 = changed (store m)" by auto
  then show ?thesis using assms(5) by (simp add: pm_save_eeprom_def Let_def)
qed

definition gyro_sum :: "commander_task \<Rightarrow> triple" where
  "gyro_sum m = foldl add_triple (f32_of_int 0, f32_of_int 0, f32_of_int 0) (samples_from m calibration_count gyro_rad_s)"

lemma do_gyro_complete:
  assumes inv: "param_inv T (store m)" "savable T" "no_nans T (store m)"
    and polls: "\<forall>k < calibration_count. polls m (poll_calls m + k) \<noteq> None"
    and space: "opens m (open_calls m) = Some space" "41 * length T + 5 \<le> space"
    and offsets: "mean (gyro_sum m) = (x, y, z)" "\<not> f32_is_nan x" "\<not> f32_is_nan y" "\<not> f32_is_nan z"
    and names: "handle_in_range T (param_find T (ascii ''SENS_GYRO_XOFF''))"
      "handle_in_range T (param_find T (ascii ''SENS_GYRO_YOFF''))"
      "handle_in_range T (param_find T (ascii ''SENS_GYRO_ZOFF''))"
    and t: "param_inv T t"
  shows "\<exists>m' img s2. do_gyro_calibration T m = Done () m' \<and> parameter_file m' = Some img \<and>
    param_load T img junk t = Some (0, s2) \<and>
    changed s2 = (changed (store m))
      (param_find T (ascii ''SENS_GYRO_XOFF'') \<mapsto> x, param_find T (ascii ''SENS_GYRO_YOFF'') \<mapsto> y,
       param_find T (ascii ''SENS_GYRO_ZOFF'') \<mapsto> z) \<and>
    last (scales m') = (GYRO_DEVICE, [(x, f32_of_int 1), (y, f32_of_int 1), (z, f32_of_int 1)]) \<and>
    \<not> flag_preflight_gyro_calibration (status m')"
proof -
  define m1 where "m1 = set_scale GYRO_DEVICE scale_null
    (publish_status (upd_status (\<lambda>s. s\<lparr>flag_preflight_gyro_calibration := True\<rparr>) m))"
  have m1: "store m1 = store m" "polls m1 = polls m" "poll_calls m1 = poll_calls m"
    "opens m1 = opens m" "open_calls m1 = open_calls m"
    by (simp_all add: m1_def) (simp_all add: set_scale_def publish_status_def upd_status_def)
  define m2 where "m2 = m1\<lparr>poll_calls := poll_calls m1 + calibration_count\<rparr>"
  have loop: "sample_loop calibration_count gyro_rad_s (f32_of_int 0, f32_of_int 0, f32_of_int 0) m1 = (Some (gyro_sum m), m2)"
    using sample_loop_all [of calibration_count m1] polls m1
    by (simp add: m2_def gyro_sum_def samples_from_def)
  let ?ps = "[(''SENS_GYRO_XOFF'', x, Some ''[commander] Setting X gyro offset failed!''),
    (''SENS_GYRO_YOFF'', y, Some ''[commander] Setting Y gyro offset failed!''),
    (''SENS_GYRO_ZOFF'', z, Some ''[commander] Setting Z gyro offset failed!'')]"
  let ?f = "(changed (store m))
      (param_find T (ascii ''SENS_GYRO_XOFF'') \<mapsto> x, param_find T (ascii ''SENS_GYRO_YOFF'') \<mapsto> y,
       param_find T (ascii ''SENS_GYRO_ZOFF'') \<mapsto> z)"
  have i2: "param_inv T (store m2)" using inv(1) m1 by (simp add: m2_def)
  obtain m3 where m3: "set_parameters T ?ps m2 = Done () m3" "param_inv T (store m3)"
    "changed (store m3) = ?f" "quiet_update m2 m3"
    using set_parameters_spec [OF i2, of ?ps] names m1(1) by (auto simp: m2_def set_named_def Let_def)
  let ?m3 = "set_scale GYRO_DEVICE [(x, f32_of_int 1), (y, f32_of_int 1), (z, f32_of_int 1)] m3"
  have "no_nans T (store ?m3)"
    using inv(3) offsets(2-4) by (auto simp: no_nans_def m3(3) split: if_splits)
  moreover have "changed (store ?m3) (param_find T (ascii ''SENS_GYRO_ZOFF'')) \<noteq> None"
    by (simp add: m3(3))
  moreover have "opens ?m3 (open_calls ?m3) = Some space"
    using m3(4) m1 space(1) by (simp add: quiet_update_def m2_def set_scale_def)
  ultimately obtain m4 img s2 where m4: "pm_save_eeprom T False ?m3 = Done 0 m4" "parameter_file m4 = Some img"
    "param_load T img junk t = Some (0, s2)" "changed s2 = changed (store m3)" "scales m4 = scales ?m3"
    using pm_save_loads [of T ?m3 "param_find T (ascii ''SENS_GYRO_ZOFF'')" space t junk] m3(2) inv(2) space(2) t
    by auto
  let ?m5 = "mavlink_log_info ''[commander] gyro calibration finished''
    (publish_status (upd_status (\<lambda>s. s\<lparr>flag_preflight_gyro_calibration := False\<rparr>) m4))"
  have "do_gyro_calibration T m = Done () ?m5"
    unfolding do_gyro_calibration_def m1_def [symmetric] Let_def loop
    using m3(1) m4(1) offsets(1) by (simp del: set_parameters.simps)
  moreover have "parameter_file ?m5 = Some img" "last (scales ?m5) = last (scales ?m3)"
    "\<not> flag_preflight_gyro_calibration (status ?m5)"
    using m4(2,5) by (simp_all add: mavlink_log_info_def publish_status_def upd_status_def
        state_machine_publish_def Let_def)
  moreover have "last (scales ?m3) = (GYRO_DEVICE, [(x, f32_of_int 1), (y, f32_of_int 1), (z, f32_of_int 1)])"
    by (simp add: set_scale_def)
  ultimately show ?thesis using m4(3,4) m3(3) by auto
qed

text \<open>A calibration in which the sensor goes silent.\<close>

lemma sample_loop_silent:
  assumes "j < n" "\<forall>k < j. polls m (poll_calls m + k) \<noteq> None" "polls m (poll_calls m + j) = None"
  shows "fst (sample_loop n sensor acc m) = None"
  using assms
proof (induction n arbitrary: acc m j)
  case (Suc n)
  show ?case
  proof (cases j)
    case 0
    then show ?thesis using Suc.prems by (simp add: poll_def)
  next
    case (Suc i)
    obtain raw where raw: "polls m (poll_calls m) = Some raw" using Suc.prems Suc by fastforce
    have "fst (sample_loop n sensor (add_triple acc (sensor raw)) (m\<lparr>poll_calls := Suc (poll_calls m)\<rparr>)) = None"
      using Suc.prems Suc by (intro Suc.IH [of i]) auto
    then show ?thesis using raw by (simp add: poll_def)
  qed
qed simp

lemma do_gyro_silent:
  assumes "j < calibration_count" "\<forall>k < j. polls m (poll_calls m + k) \<noteq> None" "polls m (poll_calls m + j) = None"
  shows "\<exists>m'. do_gyro_calibration T m = Done () m' \<and> flag_preflight_gyro_calibration (status m') \<and>
    store m' = store m \<and> parameter_file m' = parameter_file m \<and> last (scales m') = (GYRO_DEVICE, scale_null)"
proof -
  define m1 where "m1 = set_scale GYRO_DEVICE scale_null
    (publish_status (upd_status (\<lambda>s. s\<lparr>flag_preflight_gyro_calibration := True\<rparr>) m))"
  have m1: "polls m1 = polls m" "poll_calls m1 = poll_calls m" by (simp_all add: m1_def)
  obtain m2 where m2: "sample_loop calibration_count gyro_rad_s (f32_of_int 0, f32_of_int 0, f32_of_int 0) m1 = (None, m2)"
    using sample_loop_silent [OF assms(1), of m1 gyro_rad_s] assms(2,3) m1 by (metis eq_fst_iff)
  have "do_gyro_calibration T m = Done () (mavlink_log_info ''[commander] gyro calibration aborted, retry'' m2)"
    unfolding do_gyro_calibration_def m1_def [symmetric] Let_def m2 by simp
  moreover obtain n where "m2 = m1\<lparr>poll_calls := n\<rparr>" using sample_loop_task [OF m2] by blast
  then have "core m2 = core m1" "store m2 = store m1" "parameter_file m2 = parameter_file m1" "scales m2 = scales m1"
    by simp_all
  ultimately show ?thesis
    by (auto simp: m1_def) (auto simp: set_scale_def mavlink_log_info_def publish_status_def upd_status_def
        state_machine_publish_def Let_def)
qed


text \<open>The extremes the magnetometer calibration finds.\<close>

lemma track_fold_min:
  assumes "\<forall>v \<in> set vs. \<not> f32_is_nan v" "\<not> f32_is_nan (fst mm)"
  shows "\<not> f32_is_nan (fst (fold track vs mm)) \<and> f32_le (fst (fold track vs mm)) (fst mm) \<and>
    (\<forall>v \<in> set vs. f32_le (fst (fold track vs mm)) v)"
  using assms
proof (induction vs arbitrary: mm)
  case Nil
  then show ?case by (simp add: f32_le_def)
next
  case (Cons v vs)
  have t: "\<not> f32_is_nan (fst (track v mm)) \<and> f32_le (fst (track v mm)) (fst mm) \<and> f32_le (fst (track v mm)) v"
    using Cons.prems by (auto simp: track_def f32_le_def f32_lt_def)
  then show ?case using Cons.IH [of "track v mm"] Cons.prems(1) by (auto intro: f32_le_trans)
qed

lemma track_fold_max:
  assumes "\<forall>v \<in> set vs. \<not> f32_is_nan v" "\<not> f32_is_nan (snd mm)"
  shows "\<not> f32_is_nan (snd (fold track vs mm)) \<and> f32_le (snd mm) (snd (fold track vs mm))"
  using assms
proof (induction vs arbitrary: mm)
  case Nil
  then show ?case by (simp add: f32_le_def)
next
  case (Cons v vs)
  have t: "\<not> f32_is_nan (snd (track v mm)) \<and> f32_le (snd mm) (snd (track v mm))"
    using Cons.prems by (auto simp: track_def f32_le_def f32_lt_def)
  then show ?case using Cons.IH [of "track v mm"] Cons.prems(1) by (auto intro: f32_le_trans)
qed

text \<open>A sample that is no new minimum counts for the maximum.\<close>

lemma track_fold_seen:
  assumes "\<forall>w \<in> set (us @ v # ws). \<not> f32_is_nan w" "\<not> f32_is_nan (fst mm)" "\<not> f32_is_nan (snd mm)"
    and "f32_le (fst (fold track us mm)) v"
  shows "f32_le v (snd (fold track (us @ v # ws) mm))"
proof -
  let ?m = "fold track us mm"
  have n: "\<not> f32_is_nan (snd ?m)" "\<not> f32_is_nan v"
    using track_fold_max [of us mm] assms(1,3) by auto
  then have "f32_le v (snd (track v ?m))" "\<not> f32_is_nan (snd (track v ?m))"
    using assms(4) by (auto simp: track_def f32_le_def f32_lt_def)
  then show ?thesis using track_fold_max [of ws "track v ?m"] assms(1) by (auto intro: f32_le_trans)
qed

lemma track_decreasing:
  "sorted_wrt (\<lambda>v w. f32_lt w v) vs \<Longrightarrow> (\<forall>v \<in> set vs. f32_lt v mn) \<Longrightarrow> snd (fold track vs (mn, mx)) = mx"
proof (induction vs arbitrary: mn)
  case (Cons v vs)
  then show ?case by (simp add: track_def)
qed simp

section \<open>Properties\<close>

text \<open>
  C16. Every command comes to an end: in a consistent task with a running clock, a command whose
  parameters fit a byte is answered, and the task stays in order; only the reboot command
  restarts the system, and only on the ground.
\<close>

theorem handle_command_returns:
  assumes "task_inv T m" "ongoing (hrt (core m))"
    and "f32_to_u8 (param1 cmd) = Some b1" "f32_to_u8 (param2 cmd) = Some b2"
    and "f32_to_u8 (param3 cmd) = Some b3" "f32_to_u8 (param4 cmd) = Some b4"
    and "f32_to_u8 (param5 cmd) = Some b5"
  shows "(\<exists>r m'. handle_command T cmd m = Done r m' \<and> param_inv T (store m')) \<or>
    (\<exists>m'. handle_command T cmd m = Restarting m' \<and> command cmd = MAV_CMD_PREFLIGHT_REBOOT_SHUTDOWN \<and>
       state_machine (status m) \<in> {SYSTEM_STATE_STANDBY, SYSTEM_STATE_PREFLIGHT})"
proof -
  have inv: "commander_inv (core m)" "env_ok T m" "param_inv T (store m)"
    using assms(1,2) by (simp_all add: task_inv_def env_ok_def)
  note i = f32_u8_int32 [OF assms(3)] f32_u8_int32 [OF assms(4)] f32_u8_int32 [OF assms(7)]
  have mode: "\<exists>r m'. request_mode b m = Done r m' \<and> param_inv T (store m')" for b
  proof -
    have "\<exists>r c. update_state_machine_mode_request b (core m) = Returned r c"
      by (rule mode_request_refines [OF inv(1), of b]) blast
    then show ?thesis using inv(3) by (auto simp: request_mode_def on_core_def)
  qed
  have cal: "\<exists>r m'. command_calibration T cmd m1 = Done r m' \<and> param_inv T (store m')" if ok: "env_ok T m1" for m1
    using calibration_ends_at_standby [OF i ok] by (auto simp: env_ok_def)
  obtain m1 where m1: "command_controller_selection cmd m = Done () m1" "env_ok T m1"
    using controller_selection_returns [OF assms(3-6), of m] inv(2) by (auto simp: env_ok_def)
  consider "command cmd = MAV_CMD_PREFLIGHT_REBOOT_SHUTDOWN" | "command cmd \<noteq> MAV_CMD_PREFLIGHT_REBOOT_SHUTDOWN"
    by blast
  then show ?thesis
  proof cases
    case 1
    then show ?thesis using i(1) inv(3)
      by (auto simp: handle_command_def command_ids command_reboot_def with_int_def on_core_def
          do_state_update_reboot grounded_def)
  next
    case 2
    then have "\<exists>r m'. handle_command T cmd m = Done r m' \<and> param_inv T (store m')"
      using mode cal [OF inv(2)] cal [OF m1(2)] m1(1) inv(3) assms(3) i(1)
      by (auto simp: handle_command_def command_arm_disarm_def with_u8_def with_int_def log_crit_def)
    then show ?thesis by blast
  qed
qed


text \<open>Examples: whole numbers as parameters, a task that has just started.\<close>

definition example_command :: "u16 \<Rightarrow> bool \<Rightarrow> vehicle_command" where
  "example_command c one = \<lparr>param1 = (if one then 0x3F800000 else 0), param2 = 0, param3 = 0, param4 = 0,
     param5 = 0, command = c\<rparr>"

lemma example_numbers:
  "f32_to_u8 0 = Some 0" "f32_to_u8 0x3F800000 = Some 1" "f32_to_int32 0 = Some 0" "f32_to_int32 0x3F800000 = Some 1"
  by code_simp+

lemma ongoing_example: "ongoing of_nat"
  unfolding ongoing_def
proof
  fix n
  have "(of_nat (n + 30000000) :: u64) - of_nat n = 30000000" by simp
  then show "\<exists>k > n. calibration_interval_ms \<le> ((of_nat k :: u64) - of_nat n) div 1000"
    by (intro exI [of _ "n + 30000000"]) (simp add: calibration_interval_ms_def)
qed

lemma example_running:
  obtains m where "task_inv [] m" "ongoing (hrt (core m))" "view (core m) = (SYSTEM_STATE_PREFLIGHT, False)"
    "env_ok [] m"
proof -
  obtain m where m: "commander_start [] example_store of_nat (\<lambda>k. None) (\<lambda>k. None) None = Some m" "task_start [] m"
    by (rule example_start)
  have s: "same_signals (core m) (commander_init of_nat)" using commander_start_fields(1) [OF m(1)] .
  then have h: "hrt (core m) = of_nat"
    by (simp add: same_signals_def commander_init_def state_machine_publish_def Let_def)
  have "view (core m) = (SYSTEM_STATE_PREFLIGHT, False)"
    using same_signals_view [OF s] by (simp add: view_def commander_init_def initial_status_def publish_defs)
  moreover have "ongoing (hrt (core m))" unfolding h by (rule ongoing_example)
  ultimately show ?thesis
    using that task_start_inv [OF m(2)] by (simp add: env_ok_def task_inv_def)
qed

theorem handle_command_returns_witness:
  "\<exists>m r m'. task_inv [] m \<and>
     handle_command [] (example_command MAV_CMD_PREFLIGHT_CALIBRATION True) m = Done r m' \<and> param_inv [] (store m')"
proof -
  obtain m where m: "task_inv [] m" "ongoing (hrt (core m))" by (rule example_running)
  from handle_command_returns [OF m, of "example_command MAV_CMD_PREFLIGHT_CALIBRATION True"]
  show ?thesis using m(1) by (auto simp: example_command_def example_numbers command_ids)
qed

text \<open>
  The command to disarm arms. With a first parameter of 0 as with 1, it puts a vehicle in
  standby or preflight into the ground-ready state, with motors armed, and it leaves every
  other state alone: no armed vehicle is disarmed by it. It is answered accepted exactly when it
  armed outside the simulation mode.
\<close>

theorem disarm_command_arms:
  assumes "commander_inv (core m)" "command cmd = MAV_CMD_COMPONENT_ARM_DISARM"
    and "f32_to_int32 (param1 cmd) = Some p" "p \<in> {0, 1}"
  shows "\<exists>r m'. handle_command T cmd m = Done r m' \<and> commander_inv (core m') \<and>
    state_machine (status m') =
      (if state_machine (status m) \<in> {SYSTEM_STATE_STANDBY, SYSTEM_STATE_PREFLIGHT}
       then SYSTEM_STATE_GROUND_READY else state_machine (status m)) \<and>
    (flag_system_armed (status m) \<longrightarrow> flag_system_armed (status m')) \<and>
    (r = MAV_RESULT_ACCEPTED \<longleftrightarrow> \<not> flag_hil_enabled (status m) \<and>
       state_machine (status m) \<in> {SYSTEM_STATE_STANDBY, SYSTEM_STATE_PREFLIGHT})"
proof -
  have a: "arms VEHICLE_MODE_FLAG_SAFETY_ARMED" "\<not> wants_hil VEHICLE_MODE_FLAG_SAFETY_ARMED"
    by (simp_all add: arms_def wants_hil_def VEHICLE_MODE_FLAG_SAFETY_ARMED_def VEHICLE_MODE_FLAG_HIL_ENABLED_def)
  obtain m' where m': "request_mode VEHICLE_MODE_FLAG_SAFETY_ARMED m =
      Done (if spec_mode_code VEHICLE_MODE_FLAG_SAFETY_ARMED (view (core m)) = 0
        then MAV_RESULT_ACCEPTED else MAV_RESULT_DENIED) m'" "commander_inv (core m')"
    "spec_step (Mode_request VEHICLE_MODE_FLAG_SAFETY_ARMED) (view (core m)) = Some (view (core m'))"
    by (rule on_core_request [OF assms(1)])
  have h: "handle_command T cmd m = request_mode VEHICLE_MODE_FLAG_SAFETY_ARMED m"
    using assms(2-4) by (auto simp: handle_command_def command_ids command_arm_disarm_def with_int_def)
  have st: "state_machine (status m') =
      (if state_machine (status m) \<in> {SYSTEM_STATE_STANDBY, SYSTEM_STATE_PREFLIGHT}
       then SYSTEM_STATE_GROUND_READY else state_machine (status m))"
    using m'(3) a by (auto simp: view_def Let_def split: if_splits)
  have "flag_system_armed (status m) \<longrightarrow> flag_system_armed (status m')"
    using assms(1) m'(2) st by (auto simp: commander_inv_def split: if_splits)
  then show ?thesis
    using h m'(1,2) st a by (auto simp: spec_mode_code_def view_def result_codes Let_def)
qed

theorem disarm_command_arms_witness:
  "\<exists>m r m'. state_machine (status m) = SYSTEM_STATE_PREFLIGHT \<and>
     handle_command [] (example_command MAV_CMD_COMPONENT_ARM_DISARM False) m = Done r m' \<and>
     state_machine (status m') = SYSTEM_STATE_GROUND_READY \<and> r = MAV_RESULT_ACCEPTED"
proof -
  obtain m where m: "task_inv [] m" "view (core m) = (SYSTEM_STATE_PREFLIGHT, False)"
    using example_running by metis
  have "commander_inv (core m)" using m(1) by (simp add: task_inv_def)
  from disarm_command_arms [OF this, of "example_command MAV_CMD_COMPONENT_ARM_DISARM False" 0 "[]"] m(2)
  show ?thesis by (auto simp: example_command_def example_numbers view_def)
qed

text \<open>
  A reboot command in the air strands the vehicle. It is answered as denied, but the state
  machine is then in the reboot state with the armed flag as it was, and no later turn of
  the monitoring loop, whatever the sticks, the offboard setpoints or the battery say, leaves that
  state or changes the armed flag: an armed vehicle cannot be disarmed by its sticks any more.
\<close>

theorem refused_reboot_strands:
  assumes "state_machine (status m) \<notin> {SYSTEM_STATE_STANDBY, SYSTEM_STATE_PREFLIGHT}"
    and "command cmd = MAV_CMD_PREFLIGHT_REBOOT_SHUTDOWN" "f32_to_int32 (param1 cmd) = Some 1"
    and "param_inv T (store m)"
  shows "\<exists>m'. handle_command T cmd m = Done MAV_RESULT_DENIED m' \<and>
    (\<forall>is. \<exists>m''. run_steps (commander_turn T) is m' = Some m'' \<and>
       state_machine (status m'') = SYSTEM_STATE_REBOOT \<and>
       flag_system_armed (status m'') = flag_system_armed (status m))"
proof -
  obtain c where c: "do_state_update SYSTEM_STATE_REBOOT (core m) = Returned ERROR c"
    "stuck (flag_system_armed (status m)) c"
    using that assms(1)
    by (cases "state_machine (status m) = SYSTEM_STATE_REBOOT") (simp_all add: do_state_update_reboot grounded_def stuck_def)
  have "handle_command T cmd m = Done MAV_RESULT_DENIED (m\<lparr>core := c\<rparr>)"
    using assms(2,3) c(1) by (simp add: handle_command_def command_ids command_reboot_def with_int_def
        on_core_def OK_def ERROR_def)
  moreover have "\<exists>m''. run_steps (commander_turn T) is (m\<lparr>core := c\<rparr>) = Some m'' \<and>
      stuck (flag_system_armed (status m)) (core m'')" for "is"
    using stuck_turns [of "flag_system_armed (status m)" "m\<lparr>core := c\<rparr>" T "is"] c(2) assms(4) by simp
  ultimately show ?thesis by (auto simp: stuck_def)
qed

theorem refused_reboot_strands_witness:
  "\<exists>m m' m''. flag_system_armed (status m) \<and>
     handle_command [] (example_command MAV_CMD_PREFLIGHT_REBOOT_SHUTDOWN True) m = Done MAV_RESULT_DENIED m' \<and>
     run_steps (commander_turn []) (replicate 100 (example_input None)) m' = Some m'' \<and>
     state_machine (status m'') = SYSTEM_STATE_REBOOT \<and> flag_system_armed (status m'')"
proof -
  obtain m where m: "task_inv [] m" by (rule example_running)
  let ?m = "upd_status (\<lambda>s. s\<lparr>state_machine := SYSTEM_STATE_AUTO, flag_system_armed := True\<rparr>) m"
  have "param_inv [] (store ?m)" using m by (simp add: task_inv_def)
  from refused_reboot_strands [OF _ _ _ this, of "example_command MAV_CMD_PREFLIGHT_REBOOT_SHUTDOWN True"]
  obtain m' where "handle_command [] (example_command MAV_CMD_PREFLIGHT_REBOOT_SHUTDOWN True) ?m = Done MAV_RESULT_DENIED m'"
    "\<forall>is. \<exists>m''. run_steps (commander_turn []) is m' = Some m'' \<and>
       state_machine (status m'') = SYSTEM_STATE_REBOOT \<and> flag_system_armed (status m'') = flag_system_armed (status ?m)"
    by (auto simp: example_command_def example_numbers)
  then obtain m'' where "run_steps (commander_turn []) (replicate 100 (example_input None)) m' = Some m''"
    "state_machine (status m'') = SYSTEM_STATE_REBOOT" "flag_system_armed (status m'') = flag_system_armed (status ?m)"
    by blast
  moreover have "flag_system_armed (status ?m)" by simp
  ultimately show ?thesis using \<open>handle_command [] _ ?m = _\<close> by metis
qed


text \<open>
  C17. A calibration in the air lands the state machine. Whatever the state was, flight included, a
  calibration command that names at least one sensor, and also a controller selection whose
  first, second or fifth parameter is 1 (its case runs on into the calibration), is answered
  as accepted and ends in standby with the actuators ordered to disarm.
\<close>

theorem calibration_disarms_in_flight:
  assumes "command cmd \<in> {MAV_CMD_PREFLIGHT_CALIBRATION, PX4_CMD_CONTROLLER_SELECTION}"
    and "f32_to_u8 (param1 cmd) = Some b1" "f32_to_u8 (param2 cmd) = Some b2"
    and "f32_to_u8 (param3 cmd) = Some b3" "f32_to_u8 (param4 cmd) = Some b4"
    and "f32_to_u8 (param5 cmd) = Some b5" "b1 = 1 \<or> b2 = 1 \<or> b5 = 1"
    and "param_inv T (store m)" "ongoing (hrt (core m))"
  shows "\<exists>m'. handle_command T cmd m = Done MAV_RESULT_ACCEPTED m' \<and>
    state_machine (status m') = SYSTEM_STATE_STANDBY \<and> \<not> armed (actuators (core m')) \<and>
    commander_inv (core m')"
proof -
  note i = f32_u8_int32 [OF assms(2)] f32_u8_int32 [OF assms(3)] f32_u8_int32 [OF assms(6)]
  have one: "uint b = 1 \<longleftrightarrow> b = 1" for b :: u8 by (metis uint_1 word_uint_eqI)
  have cal: "\<exists>m'. command_calibration T cmd m1 = Done MAV_RESULT_ACCEPTED m' \<and> at_standby T m'"
    if ok: "env_ok T m1" for m1
    using calibration_ends_at_standby [OF i ok] assms(7) by (auto simp: one)
  have e: "env_ok T m" using assms(8,9) by (simp add: env_ok_def)
  obtain m1 where m1: "command_controller_selection cmd m = Done () m1" "env_ok T m1"
    using controller_selection_returns [OF assms(2-5), of m] e by (auto simp: env_ok_def)
  have "\<exists>m'. handle_command T cmd m = Done MAV_RESULT_ACCEPTED m' \<and> at_standby T m'"
  proof (cases "command cmd = PX4_CMD_CONTROLLER_SELECTION")
    case True
    then have "handle_command T cmd m = command_calibration T cmd m1"
      using m1(1) by (simp add: handle_command_def command_ids)
    then show ?thesis using cal [OF m1(2)] by simp
  next
    case False
    then have "handle_command T cmd m = command_calibration T cmd m"
      using assms(1) by (simp add: handle_command_def command_ids)
    then show ?thesis using cal [OF e] by simp
  qed
  then obtain m' where m': "handle_command T cmd m = Done MAV_RESULT_ACCEPTED m'" "at_standby T m'" by blast
  then have "commander_inv (core m')" "state_machine (status m') = SYSTEM_STATE_STANDBY"
    by (simp_all add: at_standby_def task_inv_def)
  moreover from this have "\<not> armed (actuators (core m'))"
    by (simp add: commander_inv_def actuators_def)
  ultimately show ?thesis using m'(1) by blast
qed

theorem calibration_disarms_in_flight_witness:
  "\<exists>m m'. state_machine (status m) = SYSTEM_STATE_AUTO \<and> flag_system_armed (status m) \<and>
     handle_command [] (example_command PX4_CMD_CONTROLLER_SELECTION True) m = Done MAV_RESULT_ACCEPTED m' \<and>
     \<not> armed (actuators (core m'))"
proof -
  obtain m where m: "task_inv [] m" "ongoing (hrt (core m))" by (rule example_running)
  let ?m = "upd_status (\<lambda>s. s\<lparr>state_machine := SYSTEM_STATE_AUTO, flag_system_armed := True\<rparr>) m"
  have "param_inv [] (store ?m)" "ongoing (hrt (core ?m))" using m by (simp_all add: task_inv_def)
  then obtain m' where "handle_command [] (example_command PX4_CMD_CONTROLLER_SELECTION True) ?m = Done MAV_RESULT_ACCEPTED m'"
    "\<not> armed (actuators (core m'))"
    using calibration_disarms_in_flight [of "example_command PX4_CMD_CONTROLLER_SELECTION True" 1 0 0 0 0 "[]" ?m]
    by (auto simp: example_command_def example_numbers)
  moreover have "state_machine (status ?m) = SYSTEM_STATE_AUTO" "flag_system_armed (status ?m)" by simp_all
  ultimately show ?thesis by metis
qed

text \<open>
  A gyro calibration persists. If none of the 5000 samples is late, no offset is a NaN and the
  medium has room, then the sensor's driver gets the means of the samples as offsets, and the
  parameter file that is written, loaded into any store, gives the parameters as they were
  with the three offsets set.
\<close>

theorem gyro_calibration_persists:
  assumes "param_inv T (store m)" "savable T" "no_nans T (store m)"
    and "\<forall>k < calibration_count. polls m (poll_calls m + k) \<noteq> None"
    and "opens m (open_calls m) = Some space" "41 * length T + 5 \<le> space"
    and "mean (gyro_sum m) = (x, y, z)" "\<not> f32_is_nan x" "\<not> f32_is_nan y" "\<not> f32_is_nan z"
    and "handle_in_range T (param_find T (ascii ''SENS_GYRO_XOFF''))"
    and "handle_in_range T (param_find T (ascii ''SENS_GYRO_YOFF''))"
    and "handle_in_range T (param_find T (ascii ''SENS_GYRO_ZOFF''))"
    and "param_inv T t"
  shows "\<exists>m' img s2. do_gyro_calibration T m = Done () m' \<and> parameter_file m' = Some img \<and>
    param_load T img junk t = Some (0, s2) \<and>
    changed s2 = (changed (store m))
      (param_find T (ascii ''SENS_GYRO_XOFF'') \<mapsto> x, param_find T (ascii ''SENS_GYRO_YOFF'') \<mapsto> y,
       param_find T (ascii ''SENS_GYRO_ZOFF'') \<mapsto> z) \<and>
    last (scales m') = (GYRO_DEVICE, [(x, f32_of_int 1), (y, f32_of_int 1), (z, f32_of_int 1)]) \<and>
    \<not> flag_preflight_gyro_calibration (status m')"
  by (rule do_gyro_complete [OF assms])

definition gyro_table :: param_table where
  "gyro_table = map (\<lambda>n. \<lparr>pi_name = ascii n, pi_type = PARAM_TYPE_FLOAT, pi_val = Bits 0\<rparr>)
     [''SENS_GYRO_XOFF'', ''SENS_GYRO_YOFF'', ''SENS_GYRO_ZOFF'']"

definition still_sample :: sensor_sample where
  "still_sample = \<lparr>gyro_rad_s = (0, 0, 0), accelerometer_m_s2 = (0, 0, 0), magnetometer_ga = (0, 0, 0)\<rparr>"

lemma gyro_table_facts:
  "plain_table gyro_table" "savable gyro_table"
  "handle_in_range gyro_table (param_find gyro_table (ascii ''SENS_GYRO_XOFF''))"
  "handle_in_range gyro_table (param_find gyro_table (ascii ''SENS_GYRO_YOFF''))"
  "handle_in_range gyro_table (param_find gyro_table (ascii ''SENS_GYRO_ZOFF''))"
proof -
  show p: "plain_table gyro_table" by (simp add: plain_table_def gyro_table_def ascii_def param_types)
  show "savable gyro_table" by (simp add: savable_def gyro_table_def ascii_def no_nul_def BSON_MAXNAME_def)
  show "handle_in_range gyro_table (param_find gyro_table (ascii ''SENS_GYRO_XOFF''))"
    "handle_in_range gyro_table (param_find gyro_table (ascii ''SENS_GYRO_YOFF''))"
    "handle_in_range gyro_table (param_find gyro_table (ascii ''SENS_GYRO_ZOFF''))"
    by code_simp+
qed

lemma still_mean: "polls m = (\<lambda>k. Some still_sample) \<Longrightarrow> mean (gyro_sum m) = (0, 0, 0)"
proof -
  assume "polls m = (\<lambda>k. Some still_sample)"
  then have "samples_from m calibration_count gyro_rad_s = replicate calibration_count (0, 0, 0)"
    by (simp add: samples_from_def still_sample_def map_replicate_const)
  moreover have z: "f32_of_int 0 = 0" "f32_add 0 0 = 0" by code_simp+
  moreover have "foldl add_triple (0, 0, 0) (replicate n (0, 0, 0)) = (0, 0, 0)" for n
    by (induction n) (simp_all add: z)
  moreover have "f32_div 0 (f32_of_int 5000) = 0" by code_simp
  ultimately show ?thesis by (simp add: gyro_sum_def mean_def calibration_count_def Let_def)
qed

theorem gyro_calibration_persists_witness:
  "\<exists>m m' img s2. do_gyro_calibration gyro_table m = Done () m' \<and> parameter_file m' = Some img \<and>
     param_load gyro_table img undefined example_store = Some (0, s2) \<and>
     changed s2 (param_find gyro_table (ascii ''SENS_GYRO_ZOFF'')) = Some 0"
proof -
  have p: "param_inv gyro_table example_store"
    using gyro_table_facts(1) by (simp add: param_inv_def example_store_def)
  obtain m0 where m0: "commander_start gyro_table example_store of_nat (\<lambda>k. None) (\<lambda>k. None) None = Some m0"
    using commander_start_total [OF p] by blast
  let ?m = "m0\<lparr>polls := \<lambda>k. Some still_sample, opens := \<lambda>k. Some 4096\<rparr>"
  have s: "store ?m = example_store" using commander_start_fields(2) [OF m0] by simp
  have n: "no_nans gyro_table example_store"
    by (simp add: no_nans_def changed_def param_find_changed_def example_store_def)
  have "\<exists>m' img s2. do_gyro_calibration gyro_table ?m = Done () m' \<and> parameter_file m' = Some img \<and>
    param_load gyro_table img undefined example_store = Some (0, s2) \<and>
    changed s2 = (changed (store ?m))
      (param_find gyro_table (ascii ''SENS_GYRO_XOFF'') \<mapsto> 0, param_find gyro_table (ascii ''SENS_GYRO_YOFF'') \<mapsto> 0,
       param_find gyro_table (ascii ''SENS_GYRO_ZOFF'') \<mapsto> 0) \<and>
    last (scales m') = (GYRO_DEVICE, [(0, f32_of_int 1), (0, f32_of_int 1), (0, f32_of_int 1)]) \<and>
    \<not> flag_preflight_gyro_calibration (status m')"
  proof (rule gyro_calibration_persists)
    show "param_inv gyro_table (store ?m)" "no_nans gyro_table (store ?m)" using p n by (simp_all only: s)
    show "mean (gyro_sum ?m) = (0, 0, 0)" by (rule still_mean) simp
    show "opens ?m (open_calls ?m) = Some 4096" by simp
    show "41 * length gyro_table + 5 \<le> 4096" by (simp add: gyro_table_def)
  qed (use gyro_table_facts p in \<open>simp_all add: f32_is_nan_def\<close>)
  then show ?thesis by (metis fun_upd_same)
qed

text \<open>
  What the magnetometer calibration takes for minimum and maximum of an axis: the minimum is
  below every sample; the maximum is above every sample that was no new minimum when it came;
  but if every sample is a new minimum, the maximum stays at the value it starts with, the
  largest negative number.
\<close>

theorem mag_extremes:
  assumes "\<forall>v \<in> set vs. \<not> f32_is_nan v"
  shows "(\<forall>v \<in> set vs. f32_le (fst (fold track vs (FLT_MAX, minus_FLT_MAX))) v) \<and>
    (\<forall>us v ws. vs = us @ v # ws \<longrightarrow> f32_le (fst (fold track us (FLT_MAX, minus_FLT_MAX))) v \<longrightarrow>
       f32_le v (snd (fold track vs (FLT_MAX, minus_FLT_MAX)))) \<and>
    (sorted_wrt (\<lambda>v w. f32_lt w v) vs \<longrightarrow> (\<forall>v \<in> set vs. f32_lt v FLT_MAX) \<longrightarrow>
       snd (fold track vs (FLT_MAX, minus_FLT_MAX)) = minus_FLT_MAX)"
proof -
  have n: "\<not> f32_is_nan FLT_MAX" "\<not> f32_is_nan minus_FLT_MAX"
    by (simp_all add: FLT_MAX_def minus_FLT_MAX_def f32_is_nan_def)
  show ?thesis
    using track_fold_min [OF assms, of "(FLT_MAX, minus_FLT_MAX)"] assms n
      track_fold_seen [of _ _ _ "(FLT_MAX, minus_FLT_MAX)"] track_decreasing [of vs FLT_MAX minus_FLT_MAX]
    by auto
qed

theorem mag_extremes_witness:
  "f32_le 0x3F800000 (snd (fold track [0, 0x3F800000] (FLT_MAX, minus_FLT_MAX))) \<and>
   snd (fold track [0x3F800000, 0] (FLT_MAX, minus_FLT_MAX)) = minus_FLT_MAX"
proof -
  have f: "f32_lt 0 FLT_MAX" "f32_lt 0x3F800000 FLT_MAX" "f32_lt 0 0x3F800000" "\<not> f32_is_nan 0"
    "\<not> f32_is_nan 0x3F800000" "f32_le (fst (track 0 (FLT_MAX, minus_FLT_MAX))) 0x3F800000"
    by code_simp+
  have n: "\<forall>v \<in> set [0, 0x3F800000]. \<not> f32_is_nan v" "\<forall>v \<in> set [0x3F800000, 0]. \<not> f32_is_nan v"
    using f by simp_all
  have "f32_le (fst (fold track [0] (FLT_MAX, minus_FLT_MAX))) 0x3F800000" using f(6) by simp
  then have "f32_le 0x3F800000 (snd (fold track [0, 0x3F800000] (FLT_MAX, minus_FLT_MAX)))"
    by (intro mag_extremes [OF n(1), THEN conjunct2, THEN conjunct1, rule_format, of "[0]" _ "[]"]) simp_all
  moreover have "snd (fold track [0x3F800000, 0] (FLT_MAX, minus_FLT_MAX)) = minus_FLT_MAX"
    by (rule mag_extremes [OF n(2), THEN conjunct2, THEN conjunct2, rule_format]) (use f in auto)
  ultimately show ?thesis ..
qed

end
