(* ===== verification/Commander_Rates.thy ===== *)
theory Commander_Rates
  imports Commander_Command
begin

text \<open>
  The commander as a whole: turns of its loop, and commands that its other thread handles between them. The theorem
  that the control of the rates stays off, in every status that is published, unless an offboard setpoint arrives or a
  command selects the controllers: these two are the only places that switch it on (\<open>commander.c\<close>, lines 679 and 1385).
\<close>

datatype vehicle_event =
    Turn turn_input
  | Command vehicle_command

text \<open>A restart, an endless loop and undefined behaviour have no next state.\<close>

fun vehicle_step :: "param_table \<Rightarrow> vehicle_event \<Rightarrow> commander_task \<Rightarrow> commander_task option" where
  "vehicle_step T (Turn i) m = commander_turn T i m"
| "vehicle_step T (Command v) m = (case handle_command T v m of Done r m' \<Rightarrow> Some m' | _ \<Rightarrow> None)"

section \<open>The state machine\<close>

definition rates_off :: "commander \<Rightarrow> bool" where
  "rates_off c \<longleftrightarrow> flag_control_rates_enabled (current_status c) = 0 \<and> (\<forall>v \<in> set (pub_status c). flag_control_rates_enabled v = 0)"

interpretation rates_off: effect_property rates_off
  by unfold_locales (auto simp: rates_off_def publish_defs)

lemma rates_off_init: "rates_off (commander_init hrt_clk)"
  by (simp add: rates_off_def commander_init_def initial_status_def publish_defs)

lemma rates_off_simps [simp]:
  "rates_off (core (snd (Commander_Loop.hrt_absolute_time m))) = rates_off (core m)"
  "rates_off (mavlink_log_critical msg c) = rates_off c"
  "flag_control_rates_enabled s = flag_control_rates_enabled (current_status c) \<Longrightarrow>
   rates_off (c\<lparr>current_status := s\<rparr>) = rates_off c"
  by (simp_all add: Commander_Loop.hrt_absolute_time_def mavlink_log_critical_def rates_off_def)

lemma rates_off_event: "rates_off c \<Longrightarrow> commander_step e c = Some d \<Longrightarrow> rates_off d"
  by (rule rates_off.step)

text \<open>A task whose commander never enabled the rates, and that has never seen an offboard setpoint.\<close>

abbreviation quiet_task :: "commander_task \<Rightarrow> bool" where
  "quiet_task m \<equiv> rates_off (core m) \<and> off_timestamp (sp_offboard m) = 0"

lemma sp_offboard_simps [simp]:
  "sp_offboard (snd (Commander_Loop.hrt_absolute_time m)) = sp_offboard m" "sp_offboard (upd_status f m) = sp_offboard m"
  "sp_offboard (log_crit msg m) = sp_offboard m" "sp_offboard (led_toggle l m) = sp_offboard m"
  "sp_offboard (tone ns m) = sp_offboard m" "sp_offboard (set_scale d sc m) = sp_offboard m"
  "sp_offboard (mavlink_log_info msg m) = sp_offboard m" "sp_offboard (publish_status m) = sp_offboard m"
  by (cases l; simp add: Commander_Loop.hrt_absolute_time_def upd_status_def log_crit_def tone_def set_scale_def
      mavlink_log_info_def publish_status_def)+

section \<open>A turn of the loop\<close>

lemma quiet_call:
  assumes "quiet_task m" "next_commander (f (core m)) = commander_step e (core m)" "call f m = Some m'"
  shows "quiet_task m'"
  using assms rates_off_event [of "core m" e] by (auto simp: call_next)

lemma quiet_calls:
  assumes "quiet_task m"
  shows "call update_state_machine_disarm m = Some m' \<Longrightarrow> quiet_task m'"
    "call update_state_machine_arm m = Some m' \<Longrightarrow> quiet_task m'"
    "call update_state_machine_mode_manual m = Some m' \<Longrightarrow> quiet_task m'"
    "call update_state_machine_mode_auto m = Some m' \<Longrightarrow> quiet_task m'"
    "call update_state_machine_mode_stabilized m = Some m' \<Longrightarrow> quiet_task m'"
    "call state_machine_emergency m = Some m' \<Longrightarrow> quiet_task m'"
  using quiet_call [OF assms, where f = update_state_machine_disarm and e = Disarm]
    quiet_call [OF assms, where f = update_state_machine_arm and e = Arm]
    quiet_call [OF assms, where f = update_state_machine_mode_manual and e = Mode_manual]
    quiet_call [OF assms, where f = update_state_machine_mode_auto and e = Mode_auto]
    quiet_call [OF assms, where f = update_state_machine_mode_stabilized and e = Mode_stabilized]
    quiet_call [OF assms, where f = state_machine_emergency and e = Emergency]
  by simp_all

lemma quiet_blocks [simp]:
  "quiet_task (slow_checks i m) = quiet_task m" "quiet_task (battery_alarm i m) = quiet_task m"
  "quiet_task (rc_regained m) = quiet_task m"
  "quiet_task (rc_warning m) = quiet_task m" "quiet_task (stamp_status m) = quiet_task m"
  by (simp_all add: slow_checks_def toggle_activity_led_def toggle_error_led_def update_load_def
      battery_alarm_def rc_regained_def rc_warning_def stamp_status_def prod.case_eq_if Let_def)

lemma quiet_rc_missing [simp]: "quiet_task (rc_missing m) = quiet_task m"
  by (simp add: rc_missing_def prod.case_eq_if Let_def)

lemma quiet_publish: "quiet_task m \<Longrightarrow> quiet_task (publish_turn m)"
  by (auto simp: publish_turn_def Let_def rates_off_def publish_defs)

lemma quiet_battery:
  assumes "quiet_task m" "check_battery i m = Some m'"
  shows "quiet_task m'"
  using assms
  by (auto simp: check_battery_def Let_def split: if_splits bind_splits dest!: quiet_calls(6) [rotated])

lemma quiet_bat_remain: "quiet_task m \<Longrightarrow> update_bat_remain T i m = Some m' \<Longrightarrow> quiet_task m'"
  by (auto simp: update_bat_remain_def prod.case_eq_if Let_def split: if_splits bind_splits)

lemma quiet_sticks:
  assumes "quiet_task m"
  shows "check_stick_off m = Some m' \<Longrightarrow> quiet_task m'" "check_stick_on m = Some m' \<Longrightarrow> quiet_task m'"
    "check_mode_switch m = Some m' \<Longrightarrow> quiet_task m'"
  using assms
  by (auto simp: check_stick_off_def check_stick_on_def check_mode_switch_def Let_def split: if_splits bind_splits
      dest!: quiet_calls [rotated])

lemma quiet_rc:
  assumes "quiet_task m" "check_rc m = Some m'"
  shows "quiet_task m'"
proof (cases "\<not> offboard_control_signal_found_once (status m) \<and> man_timestamp (sp_man m) \<noteq> 0")
  case True
  obtain t m1 where r: "Commander_Loop.hrt_absolute_time m = (t, m1)" by fastforce
  then have q: "quiet_task m1" using assms(1) rates_off_simps(1) [of m] sp_offboard_simps(1) [of m] by simp
  show ?thesis
  proof (cases "t - man_timestamp (sp_man m1) < 100000")
    case fresh: True
    obtain m2 m3 m4 where m: "check_stick_off m1 = Some m2" "check_stick_on m2 = Some m3" "check_mode_switch m3 = Some m4"
      "m' = rc_regained m4"
      using assms(2) True r fresh by (auto simp: check_rc_def split: bind_splits)
    have "quiet_task m4" by (rule quiet_sticks(3) [OF quiet_sticks(2) [OF quiet_sticks(1) [OF q m(1)] m(2)] m(3)])
    then show ?thesis unfolding m(4) quiet_blocks .
  next
    case False
    then have "m' = rc_missing m1" using assms(2) True r by (simp add: check_rc_def)
    with q show ?thesis by simp
  qed
next
  case False
  then show ?thesis using assms by (auto simp: check_rc_def)
qed

lemma quiet_leave_preflight: "quiet_task m \<Longrightarrow> leave_preflight m = Some m' \<Longrightarrow> quiet_task m'"
  using rates_off.update [of "core m" SYSTEM_STATE_STANDBY]
  by (cases "do_state_update SYSTEM_STATE_STANDBY (core m)")
    (auto simp: leave_preflight_def call_def Let_def split: if_splits)

section \<open>A command\<close>

text \<open>An outcome that, if there is a next state, leaves the rates off there; kept by sequencing.\<close>

definition quiet_outcome :: "'a command_outcome \<Rightarrow> bool" where
  "quiet_outcome x \<longleftrightarrow> (case x of Done a m \<Rightarrow> quiet_task m | _ \<Rightarrow> True)"

lemma quiet_outcome_simps [simp]:
  "quiet_outcome (Done a m) = quiet_task m" "quiet_outcome (Restarting m)" "quiet_outcome Undefined" "quiet_outcome Endless"
  by (simp_all add: quiet_outcome_def)

lemma quiet_then: "quiet_outcome x \<Longrightarrow> (\<And>a m. quiet_task m \<Longrightarrow> quiet_outcome (f a m)) \<Longrightarrow> quiet_outcome (cmd_then x f)"
  by (cases x) simp_all

lemma quiet_with:
  "(\<And>v. quiet_outcome (f v)) \<Longrightarrow> quiet_outcome (with_int p f)"
  "(\<And>b. quiet_outcome (g b)) \<Longrightarrow> quiet_outcome (with_u8 p g)"
  by (simp_all add: with_int_def with_u8_def split: option.split)

lemma quiet_update: "quiet_task m \<Longrightarrow> quiet_outcome (on_core (do_state_update n) m)"
  using rates_off.update [of "core m" n] by (cases "do_state_update n (core m)") (auto simp: on_core_def)

lemma quiet_request: "quiet_task m \<Longrightarrow> quiet_outcome (request_mode mode m)"
  using rates_off.mode_request [of "core m" mode]
  by (cases "update_state_machine_mode_request mode (core m)") (auto simp: request_mode_def on_core_def)

lemma quiet_set_parameters: "quiet_task m \<Longrightarrow> quiet_outcome (set_parameters T ps m)"
proof (induction ps arbitrary: m)
  case (Cons p ps)
  obtain name v msg where p: "p = (name, v, msg)" by (cases p)
  have "quiet_outcome (set_parameter T name v msg m)"
    using Cons.prems by (simp add: set_parameter_def split: option.split)
  then show ?case unfolding p set_parameters.simps by (rule quiet_then) (rule Cons.IH)
qed simp

lemma quiet_save: "quiet_task m \<Longrightarrow> quiet_outcome (pm_save_eeprom T only_unsaved m)"
  by (simp add: pm_save_eeprom_def Let_def split: option.split)

lemma quiet_samples: "sample_loop n sensor acc m = (r, m') \<Longrightarrow> core m' = core m \<and> sp_offboard m' = sp_offboard m"
  by (drule sample_loop_task, erule ssubst) simp

lemma quiet_clock: "Commander_Loop.hrt_absolute_time m = (t, m') \<Longrightarrow> quiet_task m' = quiet_task m"
  using rates_off_simps(1) [of m] sp_offboard_simps(1) [of m] by simp

lemma quiet_mag_loop:
  assumes "mag_loop start r m = Some y" "quiet_task m"
  shows "quiet_task (snd y)"
proof -
  have "quiet_task m \<longrightarrow> quiet_task (snd y)"
  proof (rule mag_loop.raw_induct [OF _ assms(1), where P = "\<lambda>start r m y. quiet_task m \<longrightarrow> quiet_task (snd y)"])
    fix rec start r m y
    assume IH: "\<And>start r m y. rec start r m = Some y \<Longrightarrow> quiet_task m \<longrightarrow> quiet_task (snd y)"
      and turn: "(let (now, m1) = Commander_Loop.hrt_absolute_time m
        in if (now - start) div 1000 < calibration_interval_ms
           then (case poll m1 of
                   (None, m2) \<Rightarrow> Some (r, mavlink_log_info ''[commander] mag cal canceled'' m2)
                 | (Some raw, m2) \<Rightarrow> rec start (track_sample raw r) m2)
           else Some (r, m1)) = Some y"
    obtain now m1 where t: "Commander_Loop.hrt_absolute_time m = (now, m1)" by fastforce
    obtain s m2 where s: "poll m1 = (s, m2)" by fastforce
    have q: "quiet_task m1 = quiet_task m" "quiet_task m2 = quiet_task m"
      using quiet_clock [OF t] s by (auto simp: poll_def)
    show "quiet_task m \<longrightarrow> quiet_task (snd y)"
    proof (cases s)
      case None
      then show ?thesis using turn q by (auto simp: t s split: if_splits)
    next
      case (Some raw)
      then show ?thesis using turn q IH [of start "track_sample raw r" m2 y] by (auto simp: t s split: if_splits)
    qed
  qed
  with assms(2) show ?thesis by simp
qed

lemma quiet_calibrations:
  assumes "quiet_task m"
  shows "quiet_outcome (do_gyro_calibration T m)" "quiet_outcome (do_accel_calibration T m)"
    "quiet_outcome (do_mag_calibration T m)"
proof -
  show "quiet_outcome (do_gyro_calibration T m)"
    using assms unfolding do_gyro_calibration_def Let_def
    by (auto simp: rates_off.publish simp del: set_parameters.simps split: prod.split option.split dest!: quiet_samples
        intro!: quiet_then quiet_set_parameters quiet_save)
  show "quiet_outcome (do_accel_calibration T m)"
    using assms unfolding do_accel_calibration_def Let_def
    by (auto simp: rates_off.publish simp del: set_parameters.simps split: prod.split option.split dest!: quiet_samples
        intro!: quiet_then quiet_set_parameters quiet_save)
  show "quiet_outcome (do_mag_calibration T m)"
    using assms unfolding do_mag_calibration_def Let_def
    by (auto simp: rates_off.publish simp del: set_parameters.simps split: prod.split option.split dest!: quiet_mag_loop quiet_clock
        intro!: quiet_then quiet_set_parameters quiet_save)
qed

lemma quiet_calibrate:
  assumes "\<And>m. quiet_task m \<Longrightarrow> quiet_outcome (routine m)" "quiet_task m"
  shows "quiet_outcome (calibrate starting finished rejecting routine m)"
  using assms by (auto simp: calibrate_def intro!: quiet_then quiet_update)

lemma quiet_calibration: "quiet_task m \<Longrightarrow> quiet_outcome (command_calibration T cmd m)"
  by (auto simp: command_calibration_def calibrate_if_def
      intro!: quiet_then quiet_with quiet_calibrate quiet_calibrations)

text \<open>Every command but the selection of controllers.\<close>

lemma quiet_command:
  assumes "quiet_task m" "command cmd \<noteq> PX4_CMD_CONTROLLER_SELECTION"
  shows "quiet_outcome (handle_command T cmd m)"
  using assms
  by (auto simp: handle_command_def command_arm_disarm_def command_reboot_def
      intro!: quiet_with quiet_request quiet_then quiet_update quiet_calibration)

section \<open>A run\<close>

text \<open>No offboard setpoint arrives, and no command selects controllers.\<close>

definition rates_untouched :: "vehicle_event \<Rightarrow> bool" where
  "rates_untouched e \<longleftrightarrow>
     (case e of Turn i \<Rightarrow> new_sp_offboard i = None | Command v \<Rightarrow> command v \<noteq> PX4_CMD_CONTROLLER_SELECTION)"

lemma quiet_turn:
  assumes "quiet_task m" "new_sp_offboard i = None" "commander_turn T i m = Some m'"
  shows "quiet_task m'"
proof -
  obtain m1 m2 m3 m4 m5 where m1: "update_bat_remain T i (read_setpoints i m) = Some m1"
    and m2: "check_battery i (battery_alarm i (slow_checks i m1)) = Some m2" and m3: "check_rc m2 = Some m3"
    and m4: "check_offboard m3 = Some m4" and m5: "leave_preflight (stamp_status m4) = Some m5"
    and m': "m' = (publish_turn m5)\<lparr>loop_counter := loop_counter (publish_turn m5) + 1\<rparr>"
    using assms(3) by (auto simp: commander_turn_def Let_def split: bind_splits)
  have "quiet_task (read_setpoints i m)" using assms(1,2) by (simp add: read_setpoints_def)
  from quiet_rc [OF quiet_battery [OF _ m2] m3] quiet_bat_remain [OF this m1] have q: "quiet_task m3"
    by (simp only: quiet_blocks)
  then have "m4 = m3" using m4 by (simp add: check_offboard_def)
  with q have "quiet_task m5" using quiet_leave_preflight [OF _ m5] by (simp only: quiet_blocks)
  from quiet_publish [OF this] show ?thesis by (simp add: m')
qed

lemma quiet_step:
  assumes "quiet_task m" "rates_untouched e" "vehicle_step T e m = Some m'"
  shows "quiet_task m'"
proof (cases e)
  case (Turn i)
  then have "new_sp_offboard i = None" "commander_turn T i m = Some m'"
    using assms(2,3) by (simp_all add: rates_untouched_def)
  then show ?thesis by (rule quiet_turn [OF assms(1)])
next
  case (Command v)
  then have "command v \<noteq> PX4_CMD_CONTROLLER_SELECTION" using assms(2) by (simp add: rates_untouched_def)
  then have "quiet_outcome (handle_command T v m)" by (rule quiet_command [OF assms(1)])
  then show ?thesis using assms(3) Command by (cases "handle_command T v m") simp_all
qed

lemma quiet_run:
  "quiet_task m \<Longrightarrow> list_all rates_untouched es \<Longrightarrow> run_steps (vehicle_step T) es m = Some m' \<Longrightarrow> quiet_task m'"
proof (induction es arbitrary: m)
  case (Cons e es)
  then obtain t where t: "vehicle_step T e m = Some t" "run_steps (vehicle_step T) es t = Some m'"
    by (auto split: option.splits)
  from Cons.prems(2) have e: "rates_untouched e" "list_all rates_untouched es" by simp_all
  show ?case by (rule Cons.IH [OF quiet_step [OF Cons.prems(1) e(1) t(1)] e(2) t(2)])
qed simp

lemma quiet_start: "task_start T m \<Longrightarrow> quiet_task m"
  using rates_off_init
  by (auto simp: task_start_def commander_start_def prod.case_eq_if Let_def split: bind_splits)

lemmas rates_stay_off = quiet_run [OF quiet_start]

text \<open>An example: the command that asks for the armed mode.\<close>

definition arm_command :: vehicle_command where
  "arm_command = \<lparr>param1 = 0x43000000, param2 = 0, param3 = 0, param4 = 0, param5 = 0, command = MAV_CMD_DO_SET_MODE\<rparr>"

lemma arm_command_obeyed:
  assumes "task_inv T m"
  shows "\<exists>m'. vehicle_step T (Command arm_command) m = Some m' \<and> commander_inv (core m')"
proof -
  have "f32_to_u8 0x43000000 = Some 128" by code_simp
  then have "handle_command T arm_command m = request_mode 128 m"
    by (simp add: handle_command_def arm_command_def with_u8_def)
  moreover have "commander_inv (core m)" using assms by (simp add: task_inv_def)
  then obtain r m' where "request_mode 128 m = Done r m'" "commander_inv (core m')" by (rule on_core_request)
  ultimately show ?thesis by (intro exI [of _ m'] conjI) simp_all
qed

lemma arm_command_untouched: "rates_untouched (Command arm_command)"
  by (simp add: rates_untouched_def arm_command_def command_ids)

end
