(* ===== verification/Ppm_Input.thy ===== *)
theory Ppm_Input
  imports Bytes
begin

text \<open>
  The receiver of the remote control on the I/O processor:
  \<open>nuttx/configs/px4io/src/drv_ppm_input.c\<close>. An interrupt handler is called at every
  edge of the pulse train with the time of the edge (16 bits, wrapping), or with the news that an
  edge was lost; it measures the channels, and hands complete frames to a message queue.

  \<open>ppm_queue\<close> lists the messages sent, oldest first: a handler's \<open>mq_send\<close> is accepted
  whatever the queue holds. Channel counts are natural numbers, the code never lets them exceed
  \<open>PPM_MAX_CHANNELS\<close>. The registration of the device and the configuration of the pin
  are not modelled.
\<close>

definition PPM_MAX_PULSE_WIDTH :: u16 where "PPM_MAX_PULSE_WIDTH = 500"
definition PPM_MIN_CHANNEL_VALUE :: u16 where "PPM_MIN_CHANNEL_VALUE = 800"
definition PPM_MAX_CHANNEL_VALUE :: u16 where "PPM_MAX_CHANNEL_VALUE = 2200"
definition PPM_MIN_START :: u16 where "PPM_MIN_START = 2500"
definition PPM_INPUT_TIMEOUT :: u64 where "PPM_INPUT_TIMEOUT = 100 * 1000"
definition PPM_CHANNEL_LOCK :: nat where "PPM_CHANNEL_LOCK = 3"
definition PPM_MIN_CHANNELS :: nat where "PPM_MIN_CHANNELS = 4"
definition PPM_MAX_CHANNELS :: nat where "PPM_MAX_CHANNELS = 12"

lemmas ppm_constants = PPM_MAX_PULSE_WIDTH_def PPM_MIN_CHANNEL_VALUE_def PPM_MAX_CHANNEL_VALUE_def
  PPM_MIN_START_def PPM_CHANNEL_LOCK_def PPM_MIN_CHANNELS_def PPM_MAX_CHANNELS_def

datatype ppm_phase = UNSYNCH | ARM | ACTIVE | INACTIVE

record ppm_input =
  ppm_buffer :: "u16 list"
  ppm_decoded_channels :: nat
  ppm_temp_buffer :: "u16 list"
  last_edge :: u16
  last_mark :: u16
  next_channel :: nat
  phase :: ppm_phase
  ppm_timestamp :: u64
  ppm_fresh_data :: bool
  new_channel_count :: nat
  new_channel_holdoff :: nat
  ppm_queue :: "bytes list"

text \<open>All of the state is static and starts as zeros.\<close>

definition ppm_start :: ppm_input where
  "ppm_start = \<lparr>ppm_buffer = replicate PPM_MAX_CHANNELS 0, ppm_decoded_channels = 0,
     ppm_temp_buffer = replicate PPM_MAX_CHANNELS 0, last_edge = 0, last_mark = 0, next_channel = 0,
     phase = UNSYNCH, ppm_timestamp = 0, ppm_fresh_data = False, new_channel_count = 0,
     new_channel_holdoff = 0, ppm_queue = []\<rparr>"

section \<open>The decoder\<close>

definition decode_error :: "ppm_input \<Rightarrow> ppm_input" where
  "decode_error p = p\<lparr>phase := UNSYNCH, ppm_decoded_channels := 0\<rparr>"

text \<open>A start gap ends a frame: settle on its number of channels, or publish it.\<close>

definition settle_channels :: "ppm_input \<Rightarrow> ppm_input" where
  "settle_channels p =
     (if new_channel_count p \<noteq> next_channel p
      then p\<lparr>new_channel_count := next_channel p, new_channel_holdoff := PPM_CHANNEL_LOCK\<rparr>
      else if 0 < new_channel_holdoff p
      then p\<lparr>new_channel_holdoff := new_channel_holdoff p - 1\<rparr>
      else p\<lparr>ppm_decoded_channels := new_channel_count p, new_channel_count := 0\<rparr>)"

fun copy_channels :: "nat \<Rightarrow> u16 list \<Rightarrow> u16 list \<Rightarrow> u16 list option" where
  "copy_channels 0 src dst = Some dst"
| "copy_channels (Suc n) src dst =
     Option.bind (copy_channels n src dst) (\<lambda>d. Option.bind (array_get src n) (array_set d n))"

definition publish_frame :: "u64 \<Rightarrow> ppm_input \<Rightarrow> ppm_input option" where
  "publish_frame now p =
     map_option (\<lambda>b. p\<lparr>ppm_buffer := b, ppm_timestamp := now, ppm_fresh_data := True,
         ppm_queue := ppm_queue p @ [take (2 * ppm_decoded_channels p) (u16_bytes b)]\<rparr>)
       (copy_channels (next_channel p) (ppm_temp_buffer p) (ppm_buffer p))"

definition frame_end :: "u64 \<Rightarrow> ppm_input \<Rightarrow> ppm_input option" where
  "frame_end now p =
     (if next_channel p \<noteq> ppm_decoded_channels p then Some (settle_channels p)
      else if PPM_MIN_CHANNELS < next_channel p then publish_frame now p
      else Some p)"

text \<open>The end of a pulse in the phase \<open>ACTIVE\<close> is the mark of a channel.\<close>

definition channel_mark :: "u16 \<Rightarrow> ppm_input \<Rightarrow> ppm_input option" where
  "channel_mark count p =
     (let interval = count - last_mark p; p1 = p\<lparr>last_mark := count\<rparr>
      in if interval < PPM_MIN_CHANNEL_VALUE \<or> PPM_MAX_CHANNEL_VALUE < interval
         then Some (decode_error p1)
         else if next_channel p1 < PPM_MAX_CHANNELS
         then map_option (\<lambda>b. p1\<lparr>ppm_temp_buffer := b, next_channel := next_channel p1 + 1, phase := INACTIVE\<rparr>)
                (array_set (ppm_temp_buffer p1) (next_channel p1) interval)
         else Some (p1\<lparr>phase := INACTIVE\<rparr>))"

definition ppm_input_decode :: "bool \<Rightarrow> u16 \<Rightarrow> u64 \<Rightarrow> ppm_input \<Rightarrow> ppm_input option" where
  "ppm_input_decode reset count now p =
     (if reset then Some (decode_error p)
      else let width = count - last_edge p; p1 = p\<lparr>last_edge := count\<rparr>
           in if PPM_MIN_START \<le> width
              then map_option (\<lambda>q. q\<lparr>next_channel := 0, phase := ARM\<rparr>) (frame_end now p1)
              else case phase p1 of
                UNSYNCH \<Rightarrow> Some p1
              | ARM \<Rightarrow> Some (if PPM_MAX_PULSE_WIDTH < width then decode_error p1
                           else p1\<lparr>last_mark := count, phase := INACTIVE\<rparr>)
              | INACTIVE \<Rightarrow> Some (p1\<lparr>phase := ACTIVE\<rparr>)
              | ACTIVE \<Rightarrow> if PPM_MAX_PULSE_WIDTH < width then Some (decode_error p1)
                          else channel_mark count p1)"

section \<open>The device\<close>

definition EIO :: int where "EIO = 5"
definition EAGAIN :: int where "EAGAIN = 11"
definition ENOTTY :: int where "ENOTTY = 25"
definition EFBIG :: int where "EFBIG = 27"

text \<open>Reading: the result, and what was copied to the caller's buffer.\<close>

definition ppm_read :: "bool \<Rightarrow> nat \<Rightarrow> ppm_input \<Rightarrow> int \<times> bytes \<times> ppm_input" where
  "ppm_read nonblock len p =
     (let avail = 2 * ppm_decoded_channels p
      in if avail = 0 then (- EIO, [], p)
         else if len < avail then (- EFBIG, [], p)
         else if nonblock \<and> \<not> ppm_fresh_data p then (- EAGAIN, [], p)
         else (OK, take avail (u16_bytes (ppm_buffer p)), p\<lparr>ppm_fresh_data := False\<rparr>))"

datatype ppm_request = PPM_INPUT_STATUS | PPM_INPUT_CHANNELS | Other_request
datatype ppm_answer = PPM_STATUS_NO_SIGNAL | PPM_STATUS_SIGNAL_CURRENT | Channels nat | No_answer

definition ppm_ioctl :: "ppm_request \<Rightarrow> u64 \<Rightarrow> ppm_input \<Rightarrow> int \<times> ppm_answer \<times> ppm_input" where
  "ppm_ioctl cmd now p =
     (case cmd of
        PPM_INPUT_STATUS \<Rightarrow>
          if now - ppm_timestamp p < PPM_INPUT_TIMEOUT then (OK, PPM_STATUS_SIGNAL_CURRENT, p)
          else (OK, PPM_STATUS_NO_SIGNAL, p\<lparr>ppm_decoded_channels := 0\<rparr>)
      | PPM_INPUT_CHANNELS \<Rightarrow> (OK, Channels (ppm_decoded_channels p), p)
      | Other_request \<Rightarrow> (- ENOTTY, No_answer, p))"

text \<open>What happens to the decoder, in any order.\<close>

datatype ppm_event =
    Edge bool u16 u64
  | Read bool nat
  | Ioctl ppm_request u64

fun ppm_step :: "ppm_event \<Rightarrow> ppm_input \<Rightarrow> ppm_input option" where
  "ppm_step (Edge reset count now) p = ppm_input_decode reset count now p"
| "ppm_step (Read nonblock len) p = Some (snd (snd (ppm_read nonblock len p)))"
| "ppm_step (Ioctl cmd now) p = Some (snd (snd (ppm_ioctl cmd now p)))"

section \<open>Only valid frames are published\<close>

definition valid_channel :: "u16 \<Rightarrow> bool" where
  "valid_channel v \<longleftrightarrow> PPM_MIN_CHANNEL_VALUE \<le> v \<and> v \<le> PPM_MAX_CHANNEL_VALUE"

definition frame_message :: "bytes \<Rightarrow> bool" where
  "frame_message m \<longleftrightarrow> (\<exists>vs. m = u16_bytes vs \<and> list_all valid_channel vs \<and>
     PPM_MIN_CHANNELS < length vs \<and> length vs \<le> PPM_MAX_CHANNELS)"

definition ppm_inv :: "ppm_input \<Rightarrow> bool" where
  "ppm_inv p \<longleftrightarrow> length (ppm_buffer p) = PPM_MAX_CHANNELS \<and> length (ppm_temp_buffer p) = PPM_MAX_CHANNELS \<and>
     next_channel p \<le> PPM_MAX_CHANNELS \<and> ppm_decoded_channels p \<le> PPM_MAX_CHANNELS \<and>
     new_channel_count p \<le> PPM_MAX_CHANNELS \<and>
     list_all valid_channel (take (next_channel p) (ppm_temp_buffer p)) \<and>
     list_all frame_message (ppm_queue p)"

lemma copy_channels_take:
  "n \<le> length src \<Longrightarrow> n \<le> length dst \<Longrightarrow> copy_channels n src dst = Some (take n src @ drop n dst)"
proof (induction n)
  case (Suc n)
  then show ?case
    by (simp add: take_Suc_conv_app_nth list_update_append Cons_nth_drop_Suc [symmetric])
qed simp

lemma take_u16_bytes: "take (2 * n) (u16_bytes vs) = u16_bytes (take n vs)"
proof (induction vs arbitrary: n)
  case (Cons v vs)
  then show ?case by (cases n) (simp_all add: u16_bytes_def)
qed (simp add: u16_bytes_def)

lemma publish_frame_fields:
  assumes "publish_frame now p = Some q"
  shows "next_channel q = next_channel p" "ppm_decoded_channels q = ppm_decoded_channels p"
    "new_channel_count q = new_channel_count p" "ppm_temp_buffer q = ppm_temp_buffer p"
    "last_edge q = last_edge p"
  using assms by (auto simp: publish_frame_def)

lemma publish_frame_ok:
  assumes "ppm_inv p" "next_channel p = ppm_decoded_channels p"
  obtains q where "publish_frame now p = Some q" "length (ppm_buffer q) = PPM_MAX_CHANNELS"
    "ppm_queue q = ppm_queue p @ [u16_bytes (take (next_channel p) (ppm_temp_buffer p))]"
proof -
  let ?n = "next_channel p" and ?vs = "take (next_channel p) (ppm_temp_buffer p)"
  let ?b = "?vs @ drop ?n (ppm_buffer p)"
  have len: "length ?b = PPM_MAX_CHANNELS" "length ?vs = ?n" using assms(1) by (simp_all add: ppm_inv_def)
  have "copy_channels ?n (ppm_temp_buffer p) (ppm_buffer p) = Some ?b"
    using assms(1) by (intro copy_channels_take) (simp_all add: ppm_inv_def)
  then have "publish_frame now p = Some (p\<lparr>ppm_buffer := ?b, ppm_timestamp := now, ppm_fresh_data := True,
      ppm_queue := ppm_queue p @ [u16_bytes ?vs]\<rparr>)"
    using len(2) unfolding publish_frame_def assms(2) [symmetric] take_u16_bytes by simp
  then show ?thesis using that len(1) by simp
qed

lemma temp_message:
  assumes "ppm_inv p" "PPM_MIN_CHANNELS < next_channel p"
  shows "frame_message (u16_bytes (take (next_channel p) (ppm_temp_buffer p)))"
  unfolding frame_message_def
  using assms by (intro exI [of _ "take (next_channel p) (ppm_temp_buffer p)"]) (simp add: ppm_inv_def)

lemma frame_end_ok:
  assumes "ppm_inv p"
  shows "\<exists>q. frame_end now p = Some q \<and> ppm_inv (q\<lparr>next_channel := 0, phase := ARM\<rparr>)"
proof (cases "next_channel p = ppm_decoded_channels p \<and> PPM_MIN_CHANNELS < next_channel p")
  case True
  obtain q where q: "publish_frame now p = Some q" "length (ppm_buffer q) = PPM_MAX_CHANNELS"
    "ppm_queue q = ppm_queue p @ [u16_bytes (take (next_channel p) (ppm_temp_buffer p))]"
    by (rule publish_frame_ok [OF assms]) (use True in simp_all)
  note publish_frame_fields [OF q(1)]
  with q True assms temp_message [OF assms] show ?thesis by (simp add: frame_end_def ppm_inv_def)
next
  case False
  then have "frame_end now p =
      Some (if next_channel p \<noteq> ppm_decoded_channels p then settle_channels p else p)"
    by (simp add: frame_end_def)
  with assms show ?thesis by (simp add: settle_channels_def ppm_inv_def)
qed

lemma channel_mark_ok:
  assumes "ppm_inv p"
  shows "\<exists>q. channel_mark count p = Some q \<and> ppm_inv q"
proof (cases "next_channel p < PPM_MAX_CHANNELS")
  case True
  with assms show ?thesis
    by (auto simp: channel_mark_def ppm_inv_def decode_error_def Let_def take_Suc_conv_app_nth valid_channel_def
        not_less)
next
  case False
  with assms show ?thesis by (auto simp: channel_mark_def ppm_inv_def decode_error_def Let_def)
qed

lemma ppm_decode_ok:
  assumes "ppm_inv p"
  shows "\<exists>q. ppm_input_decode reset count now p = Some q \<and> ppm_inv q"
proof -
  have inv: "ppm_inv (p\<lparr>last_edge := count\<rparr>)" "ppm_inv (decode_error p)"
    "ppm_inv (decode_error (p\<lparr>last_edge := count\<rparr>))"
    "ppm_inv (p\<lparr>last_edge := count, last_mark := count, phase := INACTIVE\<rparr>)"
    "ppm_inv (p\<lparr>last_edge := count, phase := ACTIVE\<rparr>)"
    using assms by (simp_all add: ppm_inv_def decode_error_def)
  obtain q where "frame_end now (p\<lparr>last_edge := count\<rparr>) = Some q" "ppm_inv (q\<lparr>next_channel := 0, phase := ARM\<rparr>)"
    using frame_end_ok [OF inv(1)] by blast
  with inv channel_mark_ok [OF inv(1)] show ?thesis
    by (auto simp: ppm_input_decode_def Let_def split: ppm_phase.split)
qed

lemma ppm_step_ok:
  assumes "ppm_inv p"
  shows "\<exists>q. ppm_step e p = Some q \<and> ppm_inv q"
proof (cases e)
  case (Edge reset count now)
  then show ?thesis using ppm_decode_ok [OF assms] by simp
next
  case (Read nonblock len)
  with assms show ?thesis by (simp add: ppm_read_def Let_def ppm_inv_def)
next
  case (Ioctl cmd now)
  with assms show ?thesis by (cases cmd) (simp_all add: ppm_ioctl_def ppm_inv_def)
qed

interpretation ppm: safe_machine ppm_step "\<lambda>p. p = ppm_start" ppm_inv "\<lambda>e. True"
proof unfold_locales
  fix p :: ppm_input assume "p = ppm_start"
  then show "ppm_inv p" by (simp add: ppm_start_def ppm_inv_def)
next
  fix p e q assume "ppm_inv p" "ppm_step e p = Some q"
  then show "ppm_inv q" using ppm_step_ok [of p e] by auto
next
  fix p e assume "ppm_inv p"
  then show "\<exists>q. ppm_step e p = Some q" using ppm_step_ok [of p e] by blast
qed

section \<open>Locking on to a pulse train\<close>

text \<open>
  The edges of a transmitter: a frame starts with an edge at time \<open>t\<close>, each channel ends
  \<open>v\<close> after the mark before it, every pulse is \<open>w\<close> long, and a gap of \<open>g\<close> follows
  the last channel. Times wrap at 16 bits.
\<close>

fun channel_edges :: "u16 \<Rightarrow> u16 \<Rightarrow> u16 list \<Rightarrow> u16 list" where
  "channel_edges w t [] = []"
| "channel_edges w t (v # vs) = (t + v - w) # (t + v) # channel_edges w (t + v) vs"

fun pulse_train :: "u16 \<Rightarrow> u16 \<Rightarrow> u16 \<Rightarrow> u16 list list \<Rightarrow> u16 list" where
  "pulse_train w g t [] = [t]"
| "pulse_train w g t (vs # fs) =
     t # (t + w) # channel_edges w (t + w) vs @ pulse_train w g (t + w + sum_list vs + g) fs"

text \<open>An edge comes with its time and a reading of the clock.\<close>

fun decode_edge :: "u16 \<times> u64 \<Rightarrow> ppm_input \<Rightarrow> ppm_input option" where
  "decode_edge (count, now) p = ppm_step (Edge False count now) p"

definition same_lock :: "ppm_input \<Rightarrow> ppm_input \<Rightarrow> bool" where
  "same_lock p q \<longleftrightarrow> ppm_decoded_channels q = ppm_decoded_channels p \<and>
     new_channel_count q = new_channel_count p \<and> new_channel_holdoff q = new_channel_holdoff p \<and>
     ppm_queue q = ppm_queue p"

text \<open>The decoder between two channels of a frame: so many values stored, the last mark at \<open>t\<close>.\<close>

definition within :: "u16 list \<Rightarrow> u16 \<Rightarrow> ppm_input \<Rightarrow> bool" where
  "within vs t p \<longleftrightarrow> ppm_inv p \<and> phase p = INACTIVE \<and> last_edge p = t \<and> last_mark p = t \<and>
     next_channel p = length vs \<and> take (length vs) (ppm_temp_buffer p) = vs"

lemma pulse_short:
  assumes "valid_channel v" "w \<le> PPM_MAX_PULSE_WIDTH"
  shows "\<not> PPM_MIN_START \<le> v - w" "\<not> PPM_MIN_START \<le> w" "\<not> PPM_MAX_PULSE_WIDTH < w"
proof -
  have "unat w \<le> 500" "800 \<le> unat v" "unat v \<le> 2200"
    using assms by (simp_all add: valid_channel_def ppm_constants word_le_nat_alt)
  moreover from this have "unat (v - w) = unat v - unat w" by (intro unat_sub) (simp add: word_le_nat_alt)
  ultimately show "\<not> PPM_MIN_START \<le> v - w" "\<not> PPM_MIN_START \<le> w" "\<not> PPM_MAX_PULSE_WIDTH < w"
    by (simp_all add: ppm_constants word_le_nat_alt word_less_nat_alt)
qed

lemma decode_channel:
  assumes "within vs t p" "valid_channel v" "w \<le> PPM_MAX_PULSE_WIDTH" "length vs < PPM_MAX_CHANNELS"
  obtains q where "run_steps decode_edge [(t + v - w, n1), (t + v, n2)] p = Some q"
    "within (vs @ [v]) (t + v) q" "same_lock p q"
proof -
  note short = pulse_short [OF assms(2,3)]
  define p1 where "p1 = p\<lparr>last_edge := t + v - w, phase := ACTIVE\<rparr>"
  define q where "q = p\<lparr>last_edge := t + v, last_mark := t + v,
    ppm_temp_buffer := (ppm_temp_buffer p)[length vs := v], next_channel := Suc (length vs), phase := INACTIVE\<rparr>"
  have p: "phase p = INACTIVE" "last_edge p = t" "last_mark p = t" "next_channel p = length vs"
    "take (length vs) (ppm_temp_buffer p) = vs" "ppm_inv p"
    using assms(1) by (simp_all add: within_def)
  then have len: "length (ppm_temp_buffer p) = PPM_MAX_CHANNELS" by (simp add: ppm_inv_def)
  have 1: "decode_edge (t + v - w, n1) p = Some p1"
    using p short by (simp add: ppm_input_decode_def p1_def)
  have "t + v - (t + v - w) = w" by (simp add: algebra_simps)
  moreover have "t + v - t = v" by simp
  moreover have "\<not> v < PPM_MIN_CHANNEL_VALUE" "\<not> PPM_MAX_CHANNEL_VALUE < v"
    using assms(2) by (simp_all add: valid_channel_def not_less)
  ultimately have 2: "decode_edge (t + v, n2) p1 = Some q"
    using p len short assms(4) by (simp add: ppm_input_decode_def p1_def q_def channel_mark_def Let_def)
  from 1 2 have run: "run_steps decode_edge [(t + v - w, n1), (t + v, n2)] p = Some q" by simp
  have "ppm_inv q"
    using ppm_step_ok [OF p(6)] ppm_step_ok [of p1] 1 2 by (metis decode_edge.simps option.inject)
  moreover have "take (Suc (length vs)) ((ppm_temp_buffer p)[length vs := v]) = vs @ [v]"
    using p(5) len assms(4) by (simp add: take_Suc_conv_app_nth)
  ultimately show ?thesis
    by (intro that [OF run]) (simp_all add: within_def same_lock_def q_def)
qed

lemma same_lock_trans: "same_lock p q \<Longrightarrow> same_lock q r \<Longrightarrow> same_lock p r"
  by (simp add: same_lock_def)

lemma decode_channels:
  assumes "within us t p" "list_all valid_channel vs" "w \<le> PPM_MAX_PULSE_WIDTH"
    and "length us + length vs \<le> PPM_MAX_CHANNELS" "map fst es = channel_edges w t vs"
  shows "\<exists>q. run_steps decode_edge es p = Some q \<and> within (us @ vs) (t + sum_list vs) q \<and> same_lock p q"
  using assms
proof (induction vs arbitrary: us t p es)
  case Nil
  then show ?case by (simp add: same_lock_def)
next
  case (Cons v vs)
  from Cons.prems(5) obtain n1 n2 es' where es: "es = [(t + v - w, n1), (t + v, n2)] @ es'"
    "map fst es' = channel_edges w (t + v) vs"
    by (auto simp: map_eq_Cons_conv)
  obtain p1 where p1: "run_steps decode_edge [(t + v - w, n1), (t + v, n2)] p = Some p1"
    "within (us @ [v]) (t + v) p1" "same_lock p p1"
    by (rule decode_channel [OF Cons.prems(1) _ Cons.prems(3)]) (use Cons.prems in auto)
  obtain q where "run_steps decode_edge es' p1 = Some q" "within ((us @ [v]) @ vs) (t + v + sum_list vs) q"
    "same_lock p1 q"
    using Cons.IH [OF p1(2) _ Cons.prems(3) _ es(2)] Cons.prems by auto
  then show ?case
    unfolding es(1) run_steps_append p1(1) using same_lock_trans [OF p1(3)] by (auto simp: add.assoc)
qed

text \<open>The decoder after a start edge.\<close>

definition armed_at :: "u16 \<Rightarrow> ppm_input \<Rightarrow> bool" where
  "armed_at t p \<longleftrightarrow> ppm_inv p \<and> phase p = ARM \<and> last_edge p = t \<and> next_channel p = 0"

lemma decode_first_mark:
  assumes "armed_at t p" "w \<le> PPM_MAX_PULSE_WIDTH"
  shows "\<exists>q. decode_edge (t + w, n) p = Some q \<and> within [] (t + w) q \<and> same_lock p q"
proof -
  have "\<not> PPM_MIN_START \<le> w" "\<not> PPM_MAX_PULSE_WIDTH < w"
    using assms(2) by (simp_all add: ppm_constants word_le_nat_alt word_less_nat_alt)
  with assms show ?thesis
    by (simp add: armed_at_def within_def ppm_input_decode_def same_lock_def ppm_inv_def)
qed

text \<open>What a frame does to the lock.\<close>

lemma decode_start_edge:
  assumes "within vs t p" "PPM_MIN_START \<le> g"
  obtains q r where "decode_edge (t + g, n) p = Some (q\<lparr>next_channel := 0, phase := ARM\<rparr>)"
    "armed_at (t + g) (q\<lparr>next_channel := 0, phase := ARM\<rparr>)"
    "frame_end n (p\<lparr>last_edge := t + g\<rparr>) = Some q" "ppm_inv (p\<lparr>last_edge := t + g\<rparr>)"
proof -
  let ?p = "p\<lparr>last_edge := t + g\<rparr>"
  have p: "ppm_inv p" and t: "last_edge p = t" using assms(1) by (simp_all add: within_def)
  have inv: "ppm_inv ?p" using p by (simp add: ppm_inv_def)
  obtain q where q: "frame_end n ?p = Some q" "ppm_inv (q\<lparr>next_channel := 0, phase := ARM\<rparr>)"
    using frame_end_ok [OF inv] by blast
  have "last_edge q = t + g"
    using q(1) publish_frame_fields(5) [of n ?p q]
    by (auto simp: frame_end_def settle_channels_def split: if_splits)
  with q t inv assms(2) show ?thesis
    by (intro that [of q]) (simp_all add: ppm_input_decode_def armed_at_def)
qed

fun lock_progress :: "nat \<Rightarrow> nat \<Rightarrow> ppm_input \<Rightarrow> bool" where
  "lock_progress n k p =
     (if k = 0 then ppm_decoded_channels p = 0 \<and> new_channel_count p \<noteq> n
      else if k \<le> 4 then ppm_decoded_channels p = 0 \<and> new_channel_count p = n \<and> new_channel_holdoff p = 4 - k
      else ppm_decoded_channels p = n)"

lemma lock_progress_same: "lock_progress n k p \<Longrightarrow> same_lock p q \<Longrightarrow> lock_progress n k q"
  by (simp add: same_lock_def split: if_splits)

text \<open>One more frame, up to the start edge of the next one.\<close>

lemma lock_step:
  assumes "frame_end m p = Some q" "ppm_inv p" "next_channel p = length vs" "take (length vs) (ppm_temp_buffer p) = vs"
    and "PPM_MIN_CHANNELS < length vs" "lock_progress (length vs) k p"
  shows "lock_progress (length vs) (Suc k) q \<and>
    ppm_queue q = ppm_queue p @ (if 5 \<le> k then [u16_bytes vs] else [])"
proof (cases "5 \<le> k")
  case True
  with assms have "ppm_decoded_channels p = next_channel p" "publish_frame m p = Some q"
    by (simp_all add: frame_end_def)
  then have "ppm_queue q = ppm_queue p @ [u16_bytes vs]"
    using publish_frame_ok [OF assms(2), of m] assms(3,4) by auto
  then show ?thesis using True publish_frame_fields(2) [OF \<open>publish_frame m p = Some q\<close>] assms(6) by simp
next
  case False
  have n: "length vs \<noteq> 0" using assms(5) by (auto simp: PPM_MIN_CHANNELS_def)
  with assms False have "q = settle_channels p" by (auto simp: frame_end_def split: if_splits)
  with n False assms(3,6) show ?thesis
    by (auto simp: settle_channels_def PPM_CHANNEL_LOCK_def split: if_splits)
qed

lemma decode_frame:
  assumes "armed_at t p" "lock_progress (length vs) k p" "list_all valid_channel vs"
    and "PPM_MIN_CHANNELS < length vs" "length vs \<le> PPM_MAX_CHANNELS"
    and "w \<le> PPM_MAX_PULSE_WIDTH" "PPM_MIN_START \<le> g"
    and "map fst es = (t + w) # channel_edges w (t + w) vs @ [t + w + sum_list vs + g]"
  shows "\<exists>q. run_steps decode_edge es p = Some q \<and> armed_at (t + w + sum_list vs + g) q \<and>
    lock_progress (length vs) (Suc k) q \<and>
    ppm_queue q = ppm_queue p @ (if 5 \<le> k then [u16_bytes vs] else [])"
proof -
  obtain n1 cs n2 where es: "es = (t + w, n1) # cs @ [(t + w + sum_list vs + g, n2)]"
    "map fst cs = channel_edges w (t + w) vs"
    using assms(8) by (auto simp: map_eq_Cons_conv map_eq_append_conv)
  obtain p1 where p1: "decode_edge (t + w, n1) p = Some p1" "within [] (t + w) p1" "same_lock p p1"
    using decode_first_mark [OF assms(1,6)] by blast
  obtain p2 where p2: "run_steps decode_edge cs p1 = Some p2" "within vs (t + w + sum_list vs) p2" "same_lock p1 p2"
    using decode_channels [OF p1(2) assms(3,6) _ es(2)] assms(5) by auto
  let ?p3 = "p2\<lparr>last_edge := t + w + sum_list vs + g\<rparr>"
  obtain q where q: "decode_edge (t + w + sum_list vs + g, n2) p2 = Some (q\<lparr>next_channel := 0, phase := ARM\<rparr>)"
    "armed_at (t + w + sum_list vs + g) (q\<lparr>next_channel := 0, phase := ARM\<rparr>)"
    "frame_end n2 ?p3 = Some q" "ppm_inv ?p3"
    by (rule decode_start_edge [OF p2(2) assms(7)])
  have "same_lock p ?p3" using same_lock_trans [OF p1(3) p2(3)] by (simp add: same_lock_def)
  then have k: "lock_progress (length vs) k ?p3" "ppm_queue ?p3 = ppm_queue p"
    using lock_progress_same [OF assms(2)] by (blast, simp add: same_lock_def)
  have "lock_progress (length vs) (Suc k) q \<and>
      ppm_queue q = ppm_queue ?p3 @ (if 5 \<le> k then [u16_bytes vs] else [])"
    using lock_step [OF q(3,4) _ _ assms(4) k(1)] p2(2) by (simp add: within_def)
  with q(1,2) k(2) p1(1) p2(1) show ?thesis
    unfolding es(1) by (simp add: run_steps_append split: if_splits)
qed

lemma pulse_train_tail:
  "tl (pulse_train w g t (vs # fs)) =
     ((t + w) # channel_edges w (t + w) vs) @ pulse_train w g (t + w + sum_list vs + g) fs"
  by simp

lemma pulse_train_split: "xs @ pulse_train w g t fs = (xs @ [t]) @ tl (pulse_train w g t fs)"
  by (cases fs) simp_all

lemma decode_train:
  assumes "armed_at t p" "lock_progress n k p" "list_all (\<lambda>vs. length vs = n \<and> list_all valid_channel vs) fs"
    and "PPM_MIN_CHANNELS < n" "n \<le> PPM_MAX_CHANNELS"
    and "w \<le> PPM_MAX_PULSE_WIDTH" "PPM_MIN_START \<le> g" "map fst es = tl (pulse_train w g t fs)"
  shows "\<exists>q. run_steps decode_edge es p = Some q \<and> ppm_inv q \<and>
    ppm_queue q = ppm_queue p @ map u16_bytes (drop (5 - k) fs)"
  using assms
proof (induction fs arbitrary: t p k es)
  case Nil
  then show ?case by (simp add: armed_at_def)
next
  case (Cons vs fs)
  let ?t = "t + w + sum_list vs + g"
  have "map fst es = (((t + w) # channel_edges w (t + w) vs) @ [?t]) @ tl (pulse_train w g ?t fs)"
    using Cons.prems(8) unfolding pulse_train_tail pulse_train_split [of _ w g ?t fs] .
  then obtain as bs where es: "es = as @ bs" "map fst as = ((t + w) # channel_edges w (t + w) vs) @ [?t]"
    "map fst bs = tl (pulse_train w g ?t fs)"
    unfolding map_eq_append_conv [of fst es "((t + w) # channel_edges w (t + w) vs) @ [?t]"]
    by (elim exE conjE) (rule that, assumption, erule sym, erule sym)
  then have as: "map fst as = (t + w) # channel_edges w (t + w) vs @ [?t]" by simp
  have n: "n = length vs" "list_all valid_channel vs"
    "list_all (\<lambda>vs. length vs = n \<and> list_all valid_channel vs) fs" using Cons.prems(3) by auto
  obtain p1 where p1: "run_steps decode_edge as p = Some p1" "armed_at ?t p1" "lock_progress n (Suc k) p1"
    "ppm_queue p1 = ppm_queue p @ (if 5 \<le> k then [u16_bytes vs] else [])"
    using decode_frame [OF Cons.prems(1) _ n(2) _ _ Cons.prems(6,7) as] Cons.prems(2,4,5) unfolding n(1) by blast
  obtain q where q: "run_steps decode_edge bs p1 = Some q" "ppm_inv q"
    "ppm_queue q = ppm_queue p1 @ map u16_bytes (drop (5 - Suc k) fs)"
    using Cons.IH [OF p1(2,3) n(3) Cons.prems(4-7) es(3)] by blast
  have "run_steps decode_edge es p = Some q" using p1(1) q(1) by (simp add: es(1) run_steps_append)
  moreover have "ppm_queue q = ppm_queue p @ map u16_bytes (drop (5 - k) (vs # fs))"
  proof (cases "5 \<le> k")
    case True
    then show ?thesis using p1(4) q(3) by simp
  next
    case False
    then have "5 - k = Suc (5 - Suc k)" by simp
    then show ?thesis using False p1(4) q(3) by (simp only: drop_Suc_Cons if_False append_Nil2)
  qed
  ultimately show ?case using q(2) by blast
qed

text \<open>From the decoder at rest, with the start edge of the first frame.\<close>

lemma train_decoded:
  assumes "ppm_inv p" "next_channel p = 0" "ppm_decoded_channels p = 0" "new_channel_count p = 0"
    and "PPM_MIN_START \<le> t - last_edge p" "PPM_MIN_START \<le> g" "w \<le> PPM_MAX_PULSE_WIDTH"
    and "list_all (\<lambda>vs. length vs = n \<and> list_all valid_channel vs) fs" "PPM_MIN_CHANNELS < n" "n \<le> PPM_MAX_CHANNELS"
    and "map fst es = pulse_train w g t fs"
  shows "\<exists>q. run_steps decode_edge es p = Some q \<and> ppm_queue q = ppm_queue p @ map u16_bytes (drop 5 fs)"
proof -
  have "map fst es = t # tl (pulse_train w g t fs)"
    by (rule trans [OF assms(11)]) (cases fs, simp_all)
  then obtain m es' where es: "es = (t, m) # es'" "map fst es' = tl (pulse_train w g t fs)"
    by (cases es) auto
  let ?p = "p\<lparr>last_edge := t, next_channel := 0, phase := ARM\<rparr>"
  have "decode_edge (t, m) p = Some ?p"
    using assms(2,3,5) by (simp add: ppm_input_decode_def frame_end_def PPM_MIN_CHANNELS_def)
  moreover have "armed_at t ?p" using assms(1) by (simp add: armed_at_def ppm_inv_def)
  moreover have "lock_progress n 0 ?p" using assms(3,4,9) by simp
  ultimately show ?thesis
    using decode_train [OF _ _ assms(8-10,7,6) es(2)] unfolding es(1) by fastforce
qed

section \<open>Properties\<close>

text \<open>
  Whatever edges arrive, and whatever clients ask of the device, the decoder stays within its buffers,
  and every message it puts on the queue holds 5 to 12 channels with values from 800 to 2200.
\<close>

theorem ppm_messages_valid:
  "\<exists>p. run_steps ppm_step es ppm_start = Some p \<and>
    (\<forall>m \<in> set (ppm_queue p). \<exists>vs. m = u16_bytes vs \<and> 4 < length vs \<and> length vs \<le> 12 \<and>
       (\<forall>v \<in> set vs. 800 \<le> v \<and> v \<le> 2200))"
proof -
  obtain p where p: "run_steps ppm_step es ppm_start = Some p" "ppm_inv p"
    using ppm.run_safe [of ppm_start es] by (auto simp: list_all_iff)
  have "\<exists>vs. m = u16_bytes vs \<and> 4 < length vs \<and> length vs \<le> 12 \<and> (\<forall>v \<in> set vs. 800 \<le> v \<and> v \<le> 2200)"
    if "m \<in> set (ppm_queue p)" for m
  proof -
    have "frame_message m" using that p(2) by (simp add: ppm_inv_def list_all_iff)
    then show ?thesis by (auto simp: frame_message_def valid_channel_def ppm_constants list_all_iff)
  qed
  with p(1) show ?thesis by blast
qed

theorem ppm_messages_valid_witness:
  "\<exists>p. run_steps ppm_step (map (\<lambda>c. Edge False c 7) (pulse_train 300 5000 3000 (replicate 6 (replicate 5 1500))))
     ppm_start = Some p \<and>
    (\<forall>m \<in> set (ppm_queue p). \<exists>vs. m = u16_bytes vs \<and> 4 < length vs \<and> length vs \<le> 12 \<and>
       (\<forall>v \<in> set vs. 800 \<le> v \<and> v \<le> 2200))"
  by (rule ppm_messages_valid)

text \<open>
  C21. A transmitter that sends well-formed frames of the same number of channels is decoded, across wrap-arounds of
  the 16-bit timer: the first five frames settle the number of channels, and from the sixth on the
  messages are exactly the channel values of the frames.
\<close>

theorem ppm_train_decoded:
  assumes "ppm_inv p" "next_channel p = 0" "ppm_decoded_channels p = 0" "new_channel_count p = 0"
    and "PPM_MIN_START \<le> t - last_edge p" "PPM_MIN_START \<le> g" "w \<le> PPM_MAX_PULSE_WIDTH"
    and "list_all (\<lambda>vs. length vs = n \<and> list_all valid_channel vs) fs" "PPM_MIN_CHANNELS < n" "n \<le> PPM_MAX_CHANNELS"
    and "map fst es = pulse_train w g t fs"
  shows "\<exists>q. run_steps decode_edge es p = Some q \<and> ppm_queue q = ppm_queue p @ map u16_bytes (drop 5 fs)"
  by (rule train_decoded [OF assms])

theorem ppm_train_decoded_witness:
  "\<exists>q. run_steps decode_edge (map (\<lambda>c. (c, 7)) (pulse_train 300 5000 65000 (replicate 6 [1000, 1100, 1200, 1300, 2000])))
     ppm_start = Some q \<and> ppm_queue q = [u16_bytes [1000, 1100, 1200, 1300, 2000]]"
proof -
  let ?fs = "replicate 6 [1000, 1100, 1200, 1300, 2000 :: u16]"
  have "ppm_inv ppm_start" by (rule ppm.inv_start) simp
  moreover have "list_all (\<lambda>vs. length vs = 5 \<and> list_all valid_channel vs) ?fs"
    by (simp add: list_all_iff valid_channel_def ppm_constants)
  moreover have "PPM_MIN_START \<le> 65000 - last_edge ppm_start" "PPM_MIN_START \<le> 5000" "(300 :: u16) \<le> PPM_MAX_PULSE_WIDTH"
    "PPM_MIN_CHANNELS < 5" "5 \<le> PPM_MAX_CHANNELS"
    by (simp_all add: ppm_start_def ppm_constants)
  moreover have "map fst (map (\<lambda>c. (c, 7 :: u64)) (pulse_train 300 5000 65000 ?fs)) = pulse_train 300 5000 65000 ?fs"
    by (simp add: comp_def)
  ultimately show ?thesis
    using ppm_train_decoded [of ppm_start 65000 5000 300 5 ?fs] by (simp add: ppm_start_def)
qed

text \<open>Four channels, the announced minimum, are never published.\<close>

lemma four_channels_ignored:
  "next_channel p = PPM_MIN_CHANNELS \<Longrightarrow> frame_end now p = Some q \<Longrightarrow> ppm_queue q = ppm_queue p"
  by (auto simp: frame_end_def settle_channels_def split: if_splits)

end
