(* ===== verification/Px4io.thy ===== *)
theory Px4io
  imports Hx_Stream Ppm_Input
begin

text \<open>
  The firmware of the I/O processor, \<open>apps/px4io\<close>: the link to the flight management unit
  (\<open>comms.c\<close>), the mixer that drives the servos (\<open>mixer.c\<close>), the safety button
  (\<open>safety.c\<close>) and the main loop (\<open>px4io.c\<close>). The link uses \<open>Hx_Stream\<close>,
  the remote control arrives from \<open>Ppm_Input\<close> through a message queue.

  \<open>sys_state_s\<close> is the shared state of the parts. Flags the code only sets to true and false
  are truth values; those that come off the wire are bytes. The static variables of the parts are
  the other fields of \<open>io\<close>. \<open>servo_log\<close> and \<open>gpio_log\<close> list the calls of the servo and
  GPIO drivers, oldest first. The clock is \<open>io_clock\<close> at the number of readings so far.
  Not modelled: console output, the opening of the drivers (a failure stops the processor).
\<close>

definition PX4IO_OUTPUT_CHANNELS :: nat where "PX4IO_OUTPUT_CHANNELS = 8"
definition PX4IO_INPUT_CHANNELS :: nat where "PX4IO_INPUT_CHANNELS = 12"
definition PX4IO_RELAY_CHANNELS :: nat where "PX4IO_RELAY_CHANNELS = 2"
definition F2I_MAGIC :: u16 where "F2I_MAGIC = 0x636d"
definition I2F_MAGIC :: u16 where "I2F_MAGIC = 0x7570"
definition FMU_MIN_REPORT_INTERVAL :: u64 where "FMU_MIN_REPORT_INTERVAL = 5000"
definition FMU_MAX_REPORT_INTERVAL :: u64 where "FMU_MAX_REPORT_INTERVAL = 100000"
definition MIXER_INPUT_DROP_LIMIT :: u32 where "MIXER_INPUT_DROP_LIMIT = 10"
definition FMU_INPUT_DROP_LIMIT :: u32 where "FMU_INPUT_DROP_LIMIT = 10"
definition ARM_COUNTER_THRESHOLD :: u32 where "ARM_COUNTER_THRESHOLD = 10"

lemmas px4io_constants = PX4IO_OUTPUT_CHANNELS_def PX4IO_INPUT_CHANNELS_def PX4IO_RELAY_CHANNELS_def
  FMU_MIN_REPORT_INTERVAL_def FMU_MAX_REPORT_INTERVAL_def MIXER_INPUT_DROP_LIMIT_def
  FMU_INPUT_DROP_LIMIT_def ARM_COUNTER_THRESHOLD_def

section \<open>State\<close>

record sys_state_s =
  armed :: bool
  arm_ok :: u8
  rc_channels :: nat
  rc_channel_data :: "u16 list"
  fmu_channel_data :: "u16 list"
  relays :: "u8 list"
  mixer_use_fmu :: bool
  fmu_report_due :: bool
  fmu_data_received :: bool

record px4io_report =
  i2f_magic :: u16
  rc_channel :: "u16 list"
  rep_armed :: u8
  channel_count :: u8

record px4io_command =
  f2i_magic :: u16
  servo_command :: "u16 list"
  relay_state :: "u8 list"
  cmd_arm_ok :: u8

datatype servo_call = PWM_SERVO_SET nat u16 | PWM_SERVO_ARM | PWM_SERVO_DISARM
datatype gpio_call = LED_AMBER bool | LED_BLUE bool | LED_SAFETY bool | POWER_SERVO bool

record io =
  system_state :: sys_state_s
  stream :: "hx_stream option"
  report :: px4io_report
  last_report_time :: u64
  mixer_input_drops :: u32
  fmu_input_drops :: u32
  mixers :: "u16 list"
  mixer_servos_armed :: bool
  arm_counter :: u32
  safety_led_state :: bool
  timers :: "int list"
  heartbeat :: bool
  failsafe :: bool
  servo_log :: "servo_call list"
  gpio_log :: "gpio_call list"
  io_clock :: "nat \<Rightarrow> u64"
  io_reads :: nat

abbreviation upd_sys :: "(sys_state_s \<Rightarrow> sys_state_s) \<Rightarrow> io \<Rightarrow> io" where
  "upd_sys f s \<equiv> s\<lparr>system_state := f (system_state s)\<rparr>"

definition io_time :: "io \<Rightarrow> u64 \<times> io" where
  "io_time s = (io_clock s (io_reads s), s\<lparr>io_reads := Suc (io_reads s)\<rparr>)"

definition gpio :: "gpio_call \<Rightarrow> io \<Rightarrow> io" where
  "gpio c s = s\<lparr>gpio_log := gpio_log s @ [c]\<rparr>"

definition servo :: "servo_call \<Rightarrow> io \<Rightarrow> io" where
  "servo c s = s\<lparr>servo_log := servo_log s @ [c]\<rparr>"

section \<open>The packets (protocol.h)\<close>

text \<open>Packed structures in little-endian memory.\<close>

definition report_bytes :: "px4io_report \<Rightarrow> bytes" where
  "report_bytes r = le16 (i2f_magic r) @ u16_bytes (rc_channel r) @ [rep_armed r, channel_count r]"

definition command_bytes :: "px4io_command \<Rightarrow> bytes" where
  "command_bytes c = le16 (f2i_magic c) @ u16_bytes (servo_command c) @ relay_state c @ [cmd_arm_ok c]"

definition read_report :: "bytes \<Rightarrow> px4io_report" where
  "read_report b = \<lparr>i2f_magic = un_le16 (take 2 b),
     rc_channel = bytes_u16 (take (2 * PX4IO_INPUT_CHANNELS) (drop 2 b)),
     rep_armed = b ! 26, channel_count = b ! 27\<rparr>"

definition read_command :: "bytes \<Rightarrow> px4io_command" where
  "read_command b = \<lparr>f2i_magic = un_le16 (take 2 b),
     servo_command = bytes_u16 (take (2 * PX4IO_OUTPUT_CHANNELS) (drop 2 b)),
     relay_state = take PX4IO_RELAY_CHANNELS (drop 18 b), cmd_arm_ok = b ! 20\<rparr>"

definition command_size :: nat where
  "command_size = 2 + 2 * PX4IO_OUTPUT_CHANNELS + PX4IO_RELAY_CHANNELS + 1"

section \<open>The link to the flight management unit (comms.c)\<close>

text \<open>
  The statements of \<open>comms_handle_frame\<close>. The handlers of the mixer and the safety button
  interrupt it between any two of them.
\<close>

datatype frame_stmt =
    Store_channel nat u16
  | Store_arm_ok u8
  | Set_use_fmu
  | Set_data_received
  | Disarm_if_not_ok
  | Store_relay nat u8

fun exec_stmt :: "frame_stmt \<Rightarrow> sys_state_s \<Rightarrow> sys_state_s" where
  "exec_stmt (Store_channel i v) y = y\<lparr>fmu_channel_data := (fmu_channel_data y)[i := v]\<rparr>"
| "exec_stmt (Store_arm_ok v) y = y\<lparr>arm_ok := v\<rparr>"
| "exec_stmt Set_use_fmu y = y\<lparr>mixer_use_fmu := True\<rparr>"
| "exec_stmt Set_data_received y = y\<lparr>fmu_data_received := True\<rparr>"
| "exec_stmt Disarm_if_not_ok y = (if arm_ok y = 0 \<and> armed y then y\<lparr>armed := False\<rparr> else y)"
| "exec_stmt (Store_relay i v) y = y\<lparr>relays := (relays y)[i := v]\<rparr>"

definition frame_stmts :: "bytes \<Rightarrow> frame_stmt list" where
  "frame_stmts buffer =
     (if length buffer \<noteq> command_size then []
      else let cmd = read_command buffer
           in map (\<lambda>i. Store_channel i (servo_command cmd ! i)) [0..<PX4IO_OUTPUT_CHANNELS] @
              [Store_arm_ok (cmd_arm_ok cmd), Set_use_fmu, Set_data_received, Disarm_if_not_ok] @
              map (\<lambda>i. Store_relay i (relay_state cmd ! i)) [0..<PX4IO_RELAY_CHANNELS])"

definition comms_handle_frame :: "bytes \<Rightarrow> io \<Rightarrow> io" where
  "comms_handle_frame buffer = upd_sys (fold exec_stmt (frame_stmts buffer))"

definition comms_init :: "bool \<Rightarrow> wfile \<Rightarrow> io \<Rightarrow> io" where
  "comms_init memory fd s =
     s\<lparr>stream := hx_stream_init memory fd, report := (report s)\<lparr>i2f_magic := I2F_MAGIC\<rparr>\<rparr>"

text \<open>A byte for the receive engine: the frames it completes. A missing stream is a NULL pointer.\<close>

definition take_byte :: "u8 \<Rightarrow> io \<Rightarrow> (bytes list \<times> io) option" where
  "take_byte c s =
     (case stream s of None \<Rightarrow> None | Some x \<Rightarrow>
        map_option (\<lambda>x'. (drop (length (received x)) (received x'), s\<lparr>stream := Some x'\<rparr>))
          (hx_stream_rx c x))"

definition receive_byte :: "u8 \<Rightarrow> io \<Rightarrow> io option" where
  "receive_byte c s = map_option (\<lambda>(frames, s'). fold comms_handle_frame frames s') (take_byte c s)"

definition send_report :: "io \<Rightarrow> io option" where
  "send_report s =
     (let y = system_state s
      in case copy_channels (rc_channels y) (rc_channel_data y) (rc_channel (report s)) of
           None \<Rightarrow> None
         | Some ch \<Rightarrow>
             let r = (report s)\<lparr>rc_channel := ch, channel_count := of_nat (rc_channels y),
                                rep_armed := (if armed y then 1 else 0)\<rparr>
             in map_option (\<lambda>x. s\<lparr>report := r, stream := Some (snd (hx_stream_send (report_bytes r) x))\<rparr>)
                  (stream s))"

definition report_if_due :: "io \<Rightarrow> io option" where
  "report_if_due s0 =
     (let (now, s) = io_time s0; delta = now - last_report_time s
      in if FMU_MIN_REPORT_INTERVAL < delta \<and>
            (fmu_report_due (system_state s) \<or> FMU_MAX_REPORT_INTERVAL < delta)
         then send_report ((upd_sys (\<lambda>y. y\<lparr>fmu_report_due := False\<rparr>) s)\<lparr>last_report_time := now\<rparr>)
         else Some s)"

text \<open>The bytes are those the file has when the report is done.\<close>

definition comms_check :: "bytes \<Rightarrow> io \<Rightarrow> io option" where
  "comms_check available s = Option.bind (report_if_due s) (run_steps receive_byte available)"

section \<open>The mixer (mixer.c)\<close>

text \<open>
  The result of \<open>mq_receive\<close> is the message, \<open>None\<close> without one. A message overwrites the first
  bytes of the channel data; what an odd last byte does to its channel is part of it.
\<close>

definition overwrite :: "bytes \<Rightarrow> u16 list \<Rightarrow> u16 list option" where
  "overwrite m vs = (if length m \<le> 2 * length vs
     then Some (bytes_u16 (m @ drop (length m) (u16_bytes vs))) else None)"

definition mixer_get_rc_input :: "bytes option \<Rightarrow> io \<Rightarrow> io option" where
  "mixer_get_rc_input message s =
     (let len = (case message of None \<Rightarrow> 0 | Some m \<Rightarrow> length m)
      in if 0 < len
         then map_option (\<lambda>d. (upd_sys (\<lambda>y. y\<lparr>rc_channel_data := d, rc_channels := len div 2,
                                  fmu_report_due := True\<rparr>) s)\<lparr>mixer_input_drops := 0\<rparr>)
                (overwrite (the message) (rc_channel_data (system_state s)))
         else if mixer_input_drops s < MIXER_INPUT_DROP_LIMIT
         then let s1 = s\<lparr>mixer_input_drops := mixer_input_drops s + 1\<rparr>
              in Some (if mixer_input_drops s1 = MIXER_INPUT_DROP_LIMIT
                       then upd_sys (\<lambda>y. y\<lparr>rc_channels := 0, fmu_report_due := True\<rparr>) s1
                       else s1)
         else Some s)"

text \<open>Which inputs are used: the values and their number.\<close>

definition control_inputs :: "io \<Rightarrow> (u16 list \<times> nat) \<times> io" where
  "control_inputs s =
     (let y = system_state s
      in if mixer_use_fmu y
         then ((fmu_channel_data y, PX4IO_OUTPUT_CHANNELS),
               if \<not> fmu_data_received y
               then let s1 = s\<lparr>fmu_input_drops := fmu_input_drops s + 1\<rparr>
                    in if FMU_INPUT_DROP_LIMIT \<le> fmu_input_drops s1
                       then upd_sys (\<lambda>y. y\<lparr>mixer_use_fmu := False\<rparr>) s1 else s1
               else upd_sys (\<lambda>y. y\<lparr>fmu_data_received := False\<rparr>) (s\<lparr>fmu_input_drops := 0\<rparr>))
         else if 0 < rc_channels y then ((rc_channel_data y, rc_channels y), s)
         else (([], 0), s))"

definition mixer_update :: "nat \<Rightarrow> u16 list \<Rightarrow> nat \<Rightarrow> io \<Rightarrow> io option" where
  "mixer_update i inputs input_count s =
     Option.bind (if i < input_count then array_get inputs i else Some 0) (\<lambda>v.
       map_option (\<lambda>ms. s\<lparr>mixers := ms\<rparr>) (array_set (mixers s) i v))"

definition drive_output :: "u16 list \<Rightarrow> nat \<Rightarrow> nat \<Rightarrow> io \<Rightarrow> io option" where
  "drive_output inputs input_count i s =
     map_option (\<lambda>s1. if armed (system_state s1) then servo (PWM_SERVO_SET i (mixers s1 ! i)) s1 else s1)
       (mixer_update i inputs input_count s)"

definition arm_servos :: "bool \<Rightarrow> io \<Rightarrow> io" where
  "arm_servos should_arm s =
     (if should_arm \<and> \<not> mixer_servos_armed s then (servo PWM_SERVO_ARM s)\<lparr>mixer_servos_armed := True\<rparr>
      else if \<not> should_arm \<and> mixer_servos_armed s
      then (servo PWM_SERVO_DISARM s)\<lparr>mixer_servos_armed := False\<rparr>
      else s)"

definition mixer_tick :: "bytes option \<Rightarrow> io \<Rightarrow> io option" where
  "mixer_tick message s0 =
     Option.bind (mixer_get_rc_input message s0) (\<lambda>s.
       let ((values, control_count), s1) = control_inputs s
       in map_option (\<lambda>s2. arm_servos (armed (system_state s2) \<and> 0 < control_count) s2)
            (if 0 < control_count
             then run_steps (drive_output values control_count) [0..<PX4IO_OUTPUT_CHANNELS] s1
             else Some s1))"

section \<open>The safety button (safety.c)\<close>

definition button_state :: "bool \<Rightarrow> io \<Rightarrow> io" where
  "button_state pressed s =
     (if pressed \<and> arm_ok (system_state s) \<noteq> 0
      then if arm_counter s < ARM_COUNTER_THRESHOLD then s\<lparr>arm_counter := arm_counter s + 1\<rparr>
           else if arm_counter s = ARM_COUNTER_THRESHOLD
           then (upd_sys (\<lambda>y. y\<lparr>armed := \<not> armed y, fmu_report_due := True\<rparr>) s)\<lparr>arm_counter := arm_counter s + 1\<rparr>
           else s
      else s\<lparr>arm_counter := 0\<rparr>)"

definition safety_check_button :: "bool \<Rightarrow> io \<Rightarrow> io" where
  "safety_check_button pressed s0 =
     (let s = button_state pressed s0;
          led = (if armed (system_state s) then \<not> safety_led_state s else True)
      in gpio (LED_SAFETY led) (s\<lparr>safety_led_state := led\<rparr>))"

section \<open>The main loop (px4io.c)\<close>

definition TIMER_BLINK_AMBER :: nat where "TIMER_BLINK_AMBER = 0"
definition TIMER_BLINK_BLUE :: nat where "TIMER_BLINK_BLUE = 1"
definition TIMER_STATUS_PRINT :: nat where "TIMER_STATUS_PRINT = 2"
definition TIMER_NUM_TIMERS :: nat where "TIMER_NUM_TIMERS = 8"

definition timer_tick :: "io \<Rightarrow> io" where
  "timer_tick s = s\<lparr>timers := map (\<lambda>t. if 0 < t then t - 1 else t) (timers s)\<rparr>"

definition blank_io :: "(nat \<Rightarrow> u64) \<Rightarrow> io" where
  "blank_io clock = \<lparr>system_state = \<lparr>armed = False, arm_ok = 0, rc_channels = 0,
       rc_channel_data = replicate PX4IO_INPUT_CHANNELS 0, fmu_channel_data = replicate PX4IO_OUTPUT_CHANNELS 0,
       relays = replicate PX4IO_RELAY_CHANNELS 0, mixer_use_fmu = False, fmu_report_due = False,
       fmu_data_received = False\<rparr>,
     stream = None, report = \<lparr>i2f_magic = 0, rc_channel = replicate PX4IO_INPUT_CHANNELS 0, rep_armed = 0,
       channel_count = 0\<rparr>, last_report_time = 0, mixer_input_drops = 0, fmu_input_drops = 0,
     mixers = replicate 8 0, mixer_servos_armed = False, arm_counter = 0, safety_led_state = False,
     timers = replicate TIMER_NUM_TIMERS 0, heartbeat = False, failsafe = False, servo_log = [],
     gpio_log = [], io_clock = clock, io_reads = 0\<rparr>"

text \<open>The part of \<open>user_start\<close> before its loop: the LEDs, the power, the link, the timers.\<close>

definition user_start :: "bool \<Rightarrow> wfile \<Rightarrow> (nat \<Rightarrow> u64) \<Rightarrow> io" where
  "user_start memory fd clock =
     (let s1 = fold gpio [LED_AMBER False, LED_BLUE False, LED_SAFETY False, POWER_SERVO True] (blank_io clock);
          s2 = comms_init memory fd s1
      in s2\<lparr>timers := (timers s2)[TIMER_BLINK_AMBER := 250, TIMER_STATUS_PRINT := 1000]\<rparr>)"

definition blink_amber :: "io \<Rightarrow> io" where
  "blink_amber s =
     (if timers s ! TIMER_BLINK_AMBER = 0
      then gpio (LED_AMBER (\<not> heartbeat s))
             (s\<lparr>timers := (timers s)[TIMER_BLINK_AMBER := 250], heartbeat := \<not> heartbeat s\<rparr>)
      else s)"

definition blink_blue :: "io \<Rightarrow> io" where
  "blink_blue s =
     (if \<not> mixer_use_fmu (system_state s)
      then if timers s ! TIMER_BLINK_BLUE = 0
           then gpio (LED_BLUE (\<not> failsafe s))
                  (s\<lparr>timers := (timers s)[TIMER_BLINK_BLUE := 125], failsafe := \<not> failsafe s\<rparr>)
           else s
      else gpio (LED_BLUE False) (s\<lparr>failsafe := False\<rparr>))"

definition print_status :: "io \<Rightarrow> io" where
  "print_status s =
     (if timers s ! TIMER_STATUS_PRINT = 0
      then s\<lparr>timers := (timers s)[TIMER_STATUS_PRINT := 1000]\<rparr> else s)"

definition main_turn :: "bytes \<Rightarrow> io \<Rightarrow> io option" where
  "main_turn available s =
     map_option (print_status \<circ> blink_blue \<circ> blink_amber) (comms_check available s)"

section \<open>The processor as a machine\<close>

text \<open>A turn of the main loop, and the handlers the timer calls, one after the other.\<close>

datatype io_event =
    Main_turn bytes
  | Mixer_tick "bytes option"
  | Button bool
  | Timer_tick

fun io_step :: "io_event \<Rightarrow> io \<Rightarrow> io option" where
  "io_step (Main_turn available) s = main_turn available s"
| "io_step (Mixer_tick message) s = mixer_tick message s"
| "io_step (Button pressed) s = Some (safety_check_button pressed s)"
| "io_step Timer_tick s = Some (timer_tick s)"

section \<open>The frames of the flight management unit\<close>

lemma exec_channels:
  "n \<le> length vs \<Longrightarrow> n \<le> length (fmu_channel_data y) \<Longrightarrow>
   fold exec_stmt (map (\<lambda>i. Store_channel i (vs ! i)) [0..<n]) y =
     y\<lparr>fmu_channel_data := take n vs @ drop n (fmu_channel_data y)\<rparr>"
proof (induction n)
  case (Suc n)
  then show ?case
    by (simp add: take_Suc_conv_app_nth list_update_append Cons_nth_drop_Suc [symmetric])
qed simp

lemma exec_relays:
  "n \<le> length vs \<Longrightarrow> n \<le> length (relays y) \<Longrightarrow>
   fold exec_stmt (map (\<lambda>i. Store_relay i (vs ! i)) [0..<n]) y =
     y\<lparr>relays := take n vs @ drop n (relays y)\<rparr>"
proof (induction n)
  case (Suc n)
  then show ?case
    by (simp add: take_Suc_conv_app_nth list_update_append Cons_nth_drop_Suc [symmetric])
qed simp

lemma read_command_lengths:
  assumes "length b = command_size"
  shows "length (servo_command (read_command b)) = PX4IO_OUTPUT_CHANNELS"
    "length (relay_state (read_command b)) = PX4IO_RELAY_CHANNELS"
  using assms by (simp_all add: read_command_def command_size_def px4io_constants)

definition apply_command :: "px4io_command \<Rightarrow> sys_state_s \<Rightarrow> sys_state_s" where
  "apply_command c y = y\<lparr>armed := armed y \<and> cmd_arm_ok c \<noteq> 0, arm_ok := cmd_arm_ok c,
     fmu_channel_data := servo_command c, relays := relay_state c, mixer_use_fmu := True,
     fmu_data_received := True\<rparr>"

definition sys_shape :: "sys_state_s \<Rightarrow> bool" where
  "sys_shape y \<longleftrightarrow> length (rc_channel_data y) = PX4IO_INPUT_CHANNELS \<and>
     length (fmu_channel_data y) = PX4IO_OUTPUT_CHANNELS \<and> length (relays y) = PX4IO_RELAY_CHANNELS \<and>
     rc_channels y \<le> PX4IO_INPUT_CHANNELS"

lemma exec_frame:
  assumes "sys_shape y"
  shows "fold exec_stmt (frame_stmts b) y =
    (if length b = command_size then apply_command (read_command b) y else y)"
proof (cases "length b = command_size")
  case True
  then show ?thesis
    using assms read_command_lengths [OF True]
    by (cases y) (auto simp: frame_stmts_def Let_def exec_channels exec_relays sys_shape_def apply_command_def)
qed (simp add: frame_stmts_def)

lemma command_bytes_size:
  assumes "length (servo_command c) = PX4IO_OUTPUT_CHANNELS" "length (relay_state c) = PX4IO_RELAY_CHANNELS"
  shows "length (command_bytes c) = command_size" "read_command (command_bytes c) = c"
proof -
  have "bytes_u16 (take (2 * PX4IO_OUTPUT_CHANNELS) (u16_bytes (servo_command c) @ r)) = servo_command c" for r
    using assms(1) by simp
  with assms show "length (command_bytes c) = command_size" "read_command (command_bytes c) = c"
    by (simp_all add: command_bytes_def command_size_def read_command_def px4io_constants nth_append)
qed

lemma report_bytes_read:
  assumes "length (rc_channel r) = PX4IO_INPUT_CHANNELS"
  shows "length (report_bytes r) = 28" "read_report (report_bytes r) = r"
  using assms by (simp_all add: report_bytes_def read_report_def px4io_constants nth_append)

section \<open>No step goes out of bounds\<close>

definition stream_ok :: "hx_stream option \<Rightarrow> bool" where
  "stream_ok x \<longleftrightarrow> (case x of None \<Rightarrow> False | Some x' \<Rightarrow> hx_inv x')"

definition io_shape :: "io \<Rightarrow> bool" where
  "io_shape s \<longleftrightarrow> sys_shape (system_state s) \<and> stream_ok (stream s) \<and>
     length (mixers s) = PX4IO_OUTPUT_CHANNELS \<and> length (rc_channel (report s)) = PX4IO_INPUT_CHANNELS \<and>
     length (timers s) = TIMER_NUM_TIMERS"

text \<open>Sending leaves the receiving side of a stream alone.\<close>

definition same_receiver :: "hx_stream \<Rightarrow> hx_stream \<Rightarrow> bool" where
  "same_receiver x x' \<longleftrightarrow> buf x' = buf x \<and> frame_bytes x' = frame_bytes x \<and> escaped x' = escaped x \<and>
     received x' = received x"

lemma hx_tx_raw_same: "same_receiver x (hx_tx_raw c x)"
  by (simp add: same_receiver_def hx_tx_raw_def fwrite_def Let_def)

lemma same_receiver_trans: "same_receiver x y \<Longrightarrow> same_receiver y z \<Longrightarrow> same_receiver x z"
  by (simp add: same_receiver_def)

lemma hx_tx_bytes_same: "same_receiver x (fold hx_tx_byte bs x)"
proof (induction bs arbitrary: x)
  case Nil
  then show ?case by (simp add: same_receiver_def)
next
  case (Cons b bs)
  have "same_receiver x (hx_tx_byte b x)"
    using hx_tx_raw_same [of x] same_receiver_trans [OF hx_tx_raw_same [of x CEO] hx_tx_raw_same]
    by (simp add: hx_tx_byte_def)
  with Cons show ?case using same_receiver_trans by simp
qed

lemma hx_send_same: "same_receiver x (snd (hx_stream_send data x))"
proof -
  have e: "same_receiver x x' \<Longrightarrow> same_receiver x (x'\<lparr>txerror := e\<rparr>)" for x' e by (simp add: same_receiver_def)
  have "same_receiver x x" by (simp add: same_receiver_def)
  with e show ?thesis
    using same_receiver_trans [OF same_receiver_trans [OF same_receiver_trans
        [OF hx_tx_raw_same hx_tx_bytes_same] hx_tx_bytes_same] hx_tx_raw_same]
    by (simp add: hx_stream_send_def Let_def)
qed

lemma hx_send_inv: "hx_inv x \<Longrightarrow> hx_inv (snd (hx_stream_send data x))"
  using hx_send_same [of x data] by (simp add: same_receiver_def hx_inv_def)

lemma take_byte_ok:
  assumes "io_shape s"
  obtains frames x where "take_byte c s = Some (frames, s\<lparr>stream := Some x\<rparr>)" "hx_inv x"
proof -
  obtain x where x: "stream s = Some x" "hx_inv x"
    using assms by (auto simp: io_shape_def stream_ok_def split: option.splits)
  then obtain x' where "hx_stream_rx c x = Some x'" "hx_inv x'" using hx_rx_ok by blast
  with x show ?thesis
    by (intro that [of "drop (length (received x)) (received x')" x']) (simp_all add: take_byte_def)
qed

lemma comms_handle_frame_shape: "io_shape s \<Longrightarrow> io_shape (comms_handle_frame b s)"
  using read_command_lengths [of b]
  by (simp add: comms_handle_frame_def io_shape_def exec_frame) (simp add: sys_shape_def apply_command_def)

lemma send_report_ok:
  assumes "io_shape s"
  obtains r x where "send_report s = Some (s\<lparr>report := r, stream := Some x\<rparr>)"
    "length (rc_channel r) = PX4IO_INPUT_CHANNELS" "hx_inv x"
proof -
  let ?y = "system_state s"
  let ?ch = "take (rc_channels ?y) (rc_channel_data ?y) @ drop (rc_channels ?y) (rc_channel (report s))"
  let ?r = "(report s)\<lparr>rc_channel := ?ch, channel_count := of_nat (rc_channels ?y),
    rep_armed := (if armed ?y then 1 else 0)\<rparr>"
  obtain x where x: "stream s = Some x" "hx_inv x"
    using assms by (auto simp: io_shape_def stream_ok_def split: option.splits)
  have len: "rc_channels ?y \<le> length (rc_channel_data ?y)" "rc_channels ?y \<le> length (rc_channel (report s))"
    "length ?ch = PX4IO_INPUT_CHANNELS"
    using assms by (simp_all add: io_shape_def sys_shape_def)
  have "send_report s = Some (s\<lparr>report := ?r, stream := Some (snd (hx_stream_send (report_bytes ?r) x))\<rparr>)"
    using x(1) by (simp add: send_report_def Let_def copy_channels_take [OF len(1,2)])
  moreover have "length (rc_channel ?r) = PX4IO_INPUT_CHANNELS" using len(3) by simp
  ultimately show ?thesis using hx_send_inv [OF x(2)] by (rule that)
qed

lemma report_if_due_ok:
  assumes "io_shape s"
  obtains r x due t n where "report_if_due s = Some ((upd_sys (\<lambda>y. y\<lparr>fmu_report_due := due\<rparr>) s)
      \<lparr>last_report_time := t, io_reads := n, report := r, stream := Some x\<rparr>)"
    "length (rc_channel r) = PX4IO_INPUT_CHANNELS" "hx_inv x"
proof (cases "FMU_MIN_REPORT_INTERVAL < io_clock s (io_reads s) - last_report_time s \<and>
    (fmu_report_due (system_state s) \<or> FMU_MAX_REPORT_INTERVAL < io_clock s (io_reads s) - last_report_time s)")
  case True
  let ?s = "(upd_sys (\<lambda>y. y\<lparr>fmu_report_due := False\<rparr>) (s\<lparr>io_reads := Suc (io_reads s)\<rparr>))
    \<lparr>last_report_time := io_clock s (io_reads s)\<rparr>"
  have "io_shape ?s" using assms by (simp add: io_shape_def sys_shape_def)
  then obtain r x where "send_report ?s = Some (?s\<lparr>report := r, stream := Some x\<rparr>)"
    "length (rc_channel r) = PX4IO_INPUT_CHANNELS" "hx_inv x" by (rule send_report_ok)
  moreover from True have "report_if_due s = send_report ?s"
    by (simp add: report_if_due_def io_time_def Let_def)
  ultimately show ?thesis
    by (intro that [where r = r and x = x and due = False and t = "io_clock s (io_reads s)" and n = "Suc (io_reads s)"]) (cases s, simp_all)
next
  case False
  obtain x where x: "stream s = Some x" "hx_inv x"
    using assms by (auto simp: io_shape_def stream_ok_def split: option.splits)
  have "s\<lparr>io_reads := n\<rparr> = (upd_sys (\<lambda>y. y\<lparr>fmu_report_due := fmu_report_due (system_state s)\<rparr>) s)
      \<lparr>last_report_time := last_report_time s, io_reads := n, report := report s, stream := Some x\<rparr>" for n
    using x(1) by simp
  with False x(2) assms show ?thesis
    by (intro that [where r = "report s" and x = x and due = "fmu_report_due (system_state s)"
          and t = "last_report_time s" and n = "Suc (io_reads s)"])
      (auto simp: report_if_due_def io_time_def Let_def io_shape_def)
qed

text \<open>The mixer: its inputs, and what it drives the outputs with.\<close>

definition fits :: "bytes option \<Rightarrow> bool" where
  "fits message \<longleftrightarrow> (case message of None \<Rightarrow> True | Some m \<Rightarrow> length m \<le> 2 * PX4IO_INPUT_CHANNELS)"

definition silent :: "bytes option \<Rightarrow> bool" where
  "silent message \<longleftrightarrow> (case message of None \<Rightarrow> True | Some m \<Rightarrow> m = [])"

definition drops_ok :: "io \<Rightarrow> bool" where
  "drops_ok s \<longleftrightarrow> mixer_input_drops s \<le> 10 \<and> (mixer_input_drops s = 10 \<longrightarrow> rc_channels (system_state s) = 0)"

lemma small_succ: "(k :: u32) < 10 \<Longrightarrow> unat (k + 1) = unat k + 1"
proof -
  assume "k < 10"
  then have "unat k < 10" by (simp add: word_less_nat_alt)
  then show ?thesis by (simp add: unat_word_ariths)
qed

lemma small_succ_le: "(k :: u32) < 10 \<Longrightarrow> k + 1 \<le> 10"
  using small_succ [of k] by (simp add: word_le_nat_alt word_less_nat_alt)

lemma u32_at_limit: "(k :: u32) \<le> 10 \<Longrightarrow> (k = 10) = (\<not> k < 10)"
  by auto

lemma rc_input_message:
  assumes "message = Some m" "m \<noteq> []" "length m \<le> 2 * PX4IO_INPUT_CHANNELS" "sys_shape (system_state s)"
  obtains d where "mixer_get_rc_input message s = Some ((upd_sys (\<lambda>y. y\<lparr>rc_channel_data := d,
      rc_channels := length m div 2, fmu_report_due := True\<rparr>) s)\<lparr>mixer_input_drops := 0\<rparr>)"
    "d = bytes_u16 (m @ drop (length m) (u16_bytes (rc_channel_data (system_state s))))"
    "length d = PX4IO_INPUT_CHANNELS"
  using assms by (auto simp: mixer_get_rc_input_def overwrite_def sys_shape_def Let_def)

lemma rc_input_silent:
  assumes "silent message" "drops_ok s"
  obtains y where "mixer_get_rc_input message s =
      Some (s\<lparr>system_state := y, mixer_input_drops := (if mixer_input_drops s < 10 then mixer_input_drops s + 1 else 10)\<rparr>)"
    "y = (system_state s)\<lparr>rc_channels := (if mixer_input_drops s + 1 < 10 then rc_channels (system_state s) else 0),
       fmu_report_due := fmu_report_due y\<rparr>"
proof -
  have len: "(case message of None \<Rightarrow> 0 | Some m \<Rightarrow> length m) = 0"
    using assms(1) by (auto simp: silent_def split: option.splits)
  show ?thesis
  proof (cases "mixer_input_drops s < 10")
    case True
    define y where "y = (if mixer_input_drops s + 1 = 10
      then (system_state s)\<lparr>rc_channels := 0, fmu_report_due := True\<rparr> else system_state s)"
    have "mixer_get_rc_input message s = Some (s\<lparr>system_state := y, mixer_input_drops := mixer_input_drops s + 1\<rparr>)"
      using True by (cases s) (simp add: mixer_get_rc_input_def len MIXER_INPUT_DROP_LIMIT_def y_def Let_def)
    moreover have "(mixer_input_drops s + 1 = 10) = (\<not> mixer_input_drops s + 1 < 10)"
      by (rule u32_at_limit [OF small_succ_le [OF True]])
    then have "y = (system_state s)\<lparr>rc_channels := (if mixer_input_drops s + 1 < 10 then rc_channels (system_state s) else 0),
       fmu_report_due := fmu_report_due y\<rparr>"
      unfolding y_def by (simp only: if_not_P if_P split: if_split) simp
    ultimately show ?thesis using True by (intro that [of y]) simp_all
  next
    case False
    then have "mixer_input_drops s = 10" "rc_channels (system_state s) = 0"
      using assms(2) by (auto simp: drops_ok_def)
    with False show ?thesis
      by (intro that [of "system_state s"])
        (cases s, simp_all add: mixer_get_rc_input_def len MIXER_INPUT_DROP_LIMIT_def)
  qed
qed

definition output_value :: "u16 list \<Rightarrow> nat \<Rightarrow> nat \<Rightarrow> u16" where
  "output_value inputs count i = (if i < count then inputs ! i else 0)"

definition driven :: "nat \<Rightarrow> u16 list \<Rightarrow> nat \<Rightarrow> io \<Rightarrow> io" where
  "driven n inputs count s = s\<lparr>mixers := map (output_value inputs count) [0..<n] @ drop n (mixers s),
     servo_log := servo_log s @ (if armed (system_state s)
       then map (\<lambda>i. PWM_SERVO_SET i (output_value inputs count i)) [0..<n] else [])\<rparr>"

lemma drive_outputs:
  "count \<le> length inputs \<Longrightarrow> length (mixers s) = PX4IO_OUTPUT_CHANNELS \<Longrightarrow> n \<le> PX4IO_OUTPUT_CHANNELS \<Longrightarrow>
   run_steps (drive_output inputs count) [0..<n] s = Some (driven n inputs count s)"
proof (induction n)
  case 0
  then show ?case by (simp add: driven_def)
next
  case (Suc n)
  have v: "(if n < count then array_get inputs n else Some 0) = Some (output_value inputs count n)"
    using Suc.prems(1) by (simp add: output_value_def)
  have "drive_output inputs count n (driven n inputs count s) = Some (driven (Suc n) inputs count s)"
    using Suc.prems(2,3)
    by (simp add: drive_output_def mixer_update_def v driven_def servo_def list_update_append
        Cons_nth_drop_Suc [symmetric] nth_append)
  with Suc show ?case by (simp add: run_steps_append)
qed

lemma control_inputs_bound:
  assumes "sys_shape (system_state s)" "control_inputs s = ((inputs, count), s')"
  shows "count \<le> length inputs"
  using assms by (auto simp: control_inputs_def sys_shape_def Let_def split: if_splits)

lemma mixer_tick_parts:
  assumes "io_shape s" "mixer_get_rc_input message s = Some s1" "io_shape s1"
    and "control_inputs s1 = ((inputs, count), s2)" "io_shape s2"
  shows "mixer_tick message s = Some (arm_servos (armed (system_state s2) \<and> 0 < count)
    (if 0 < count then driven PX4IO_OUTPUT_CHANNELS inputs count s2 else s2))"
proof -
  have "count \<le> length inputs" using control_inputs_bound [OF _ assms(4)] assms(3) by (simp add: io_shape_def)
  moreover have "length (mixers s2) = PX4IO_OUTPUT_CHANNELS" using assms(5) by (simp add: io_shape_def)
  ultimately show ?thesis
    using drive_outputs [of count inputs s2 PX4IO_OUTPUT_CHANNELS] assms(2,4)
    by (simp add: mixer_tick_def driven_def)
qed

text \<open>The mixer and the button keep the shape; the mixer does not touch the arming.\<close>

definition same_arming :: "sys_state_s \<Rightarrow> sys_state_s \<Rightarrow> bool" where
  "same_arming y y' \<longleftrightarrow> armed y' = armed y \<and> arm_ok y' = arm_ok y"

lemma rc_input_shape:
  assumes "io_shape s" "fits message"
  obtains y k where "mixer_get_rc_input message s = Some (s\<lparr>system_state := y, mixer_input_drops := k\<rparr>)"
    "sys_shape y" "same_arming (system_state s) y" "mixer_use_fmu y = mixer_use_fmu (system_state s)"
    "fmu_data_received y = fmu_data_received (system_state s)"
proof (cases "silent message")
  case True
  then have len: "(case message of None \<Rightarrow> 0 | Some m \<Rightarrow> length m) = 0"
    by (auto simp: silent_def split: option.splits)
  define y where "y = (if mixer_input_drops s < 10 \<and> mixer_input_drops s + 1 = 10
    then (system_state s)\<lparr>rc_channels := 0, fmu_report_due := True\<rparr> else system_state s)"
  define k where "k = (if mixer_input_drops s < 10 then mixer_input_drops s + 1 else mixer_input_drops s)"
  have "mixer_get_rc_input message s = Some (s\<lparr>system_state := y, mixer_input_drops := k\<rparr>)"
    by (cases s) (simp add: mixer_get_rc_input_def len MIXER_INPUT_DROP_LIMIT_def y_def k_def Let_def)
  moreover have "sys_shape y" "same_arming (system_state s) y"
    "mixer_use_fmu y = mixer_use_fmu (system_state s)" "fmu_data_received y = fmu_data_received (system_state s)"
    using assms(1) by (simp_all add: y_def io_shape_def sys_shape_def same_arming_def)
  ultimately show ?thesis by (rule that)
next
  case False
  then obtain m where m: "message = Some m" "m \<noteq> []" by (auto simp: silent_def split: option.splits)
  have shape: "sys_shape (system_state s)" using assms(1) by (simp add: io_shape_def)
  have fit: "length m \<le> 2 * PX4IO_INPUT_CHANNELS" using assms(2) m(1) by (simp add: fits_def)
  obtain d where d: "mixer_get_rc_input message s = Some ((upd_sys (\<lambda>y. y\<lparr>rc_channel_data := d,
      rc_channels := length m div 2, fmu_report_due := True\<rparr>) s)\<lparr>mixer_input_drops := 0\<rparr>)"
    "length d = PX4IO_INPUT_CHANNELS"
    by (rule rc_input_message [OF m fit shape])
  from fit have "length m div 2 \<le> PX4IO_INPUT_CHANNELS" by simp
  with d shape show ?thesis
    by (intro that [OF d(1)]) (simp_all add: sys_shape_def same_arming_def)
qed

lemma control_inputs_shape:
  assumes "io_shape s"
  obtains inputs count y k where "control_inputs s = ((inputs, count), s\<lparr>system_state := y, fmu_input_drops := k\<rparr>)"
    "sys_shape y" "same_arming (system_state s) y"
proof -
  define y where "y = (let y = system_state s in
    if mixer_use_fmu y then if fmu_data_received y then y\<lparr>fmu_data_received := False\<rparr>
      else if FMU_INPUT_DROP_LIMIT \<le> fmu_input_drops s + 1 then y\<lparr>mixer_use_fmu := False\<rparr> else y else y)"
  define k where "k = (if mixer_use_fmu (system_state s)
    then if fmu_data_received (system_state s) then 0 else fmu_input_drops s + 1 else fmu_input_drops s)"
  have "snd (control_inputs s) = s\<lparr>system_state := y, fmu_input_drops := k\<rparr>"
    by (cases s) (simp add: control_inputs_def y_def k_def Let_def)
  moreover have "sys_shape y" "same_arming (system_state s) y"
    using assms by (simp_all add: y_def io_shape_def sys_shape_def same_arming_def Let_def)
  ultimately show ?thesis
    by (intro that [where inputs = "fst (fst (control_inputs s))" and count = "snd (fst (control_inputs s))"
          and y = y and k = k])
      (simp_all add: prod_eq_iff)
qed

definition servos_on :: "servo_call list \<Rightarrow> bool" where
  "servos_on log = fold (\<lambda>c on. case c of PWM_SERVO_ARM \<Rightarrow> True | PWM_SERVO_DISARM \<Rightarrow> False | _ \<Rightarrow> on) log False"

lemma servos_on_simps [simp]:
  "servos_on (log @ [PWM_SERVO_ARM])" "\<not> servos_on (log @ [PWM_SERVO_DISARM])"
  "servos_on (log @ map (\<lambda>i. PWM_SERVO_SET i (f i)) is) = servos_on log"
proof -
  have "fold (\<lambda>c on. case c of PWM_SERVO_ARM \<Rightarrow> True | PWM_SERVO_DISARM \<Rightarrow> False | _ \<Rightarrow> on)
      (map (\<lambda>i. PWM_SERVO_SET i (f i)) is) b = b" for b
    by (induction "is") simp_all
  then show "servos_on (log @ map (\<lambda>i. PWM_SERVO_SET i (f i)) is) = servos_on log"
    by (simp add: servos_on_def)
qed (simp_all add: servos_on_def)

text \<open>Nothing but the mixer talks to the servos: its flag tells whether they are on.\<close>

definition servos_known :: "io \<Rightarrow> bool" where
  "servos_known s \<longleftrightarrow> mixer_servos_armed s = servos_on (servo_log s)"

lemma arm_servos_effect:
  "arm_servos b s = s\<lparr>mixer_servos_armed := b, servo_log := servo_log s @
     (if b = mixer_servos_armed s then [] else if b then [PWM_SERVO_ARM] else [PWM_SERVO_DISARM])\<rparr>"
  by (cases s) (simp add: arm_servos_def servo_def)

lemma arm_servos_known: "servos_known s \<Longrightarrow> servos_known (arm_servos b s) \<and> mixer_servos_armed (arm_servos b s) = b"
  by (simp add: arm_servos_effect servos_known_def)

lemma driven_shape: "io_shape s \<Longrightarrow> n \<le> PX4IO_OUTPUT_CHANNELS \<Longrightarrow> io_shape (driven n inputs count s)"
  "servos_known s \<Longrightarrow> servos_known (driven n inputs count s)"
  by (simp_all add: driven_def io_shape_def servos_known_def)

lemma mixer_tick_ok:
  assumes "io_shape s" "fits message" "servos_known s"
  shows "\<exists>s'. mixer_tick message s = Some s' \<and> io_shape s' \<and> servos_known s' \<and>
    same_arming (system_state s) (system_state s') \<and> arm_counter s' = arm_counter s \<and>
    (mixer_servos_armed s' \<longrightarrow> armed (system_state s'))"
proof -
  obtain y k where 1: "mixer_get_rc_input message s = Some (s\<lparr>system_state := y, mixer_input_drops := k\<rparr>)"
    "sys_shape y" "same_arming (system_state s) y"
    by (rule rc_input_shape [OF assms(1,2)]) blast
  let ?s1 = "s\<lparr>system_state := y, mixer_input_drops := k\<rparr>"
  have s1: "io_shape ?s1" using assms(1) 1(2) by (simp add: io_shape_def)
  obtain inputs count z j where 2: "control_inputs ?s1 = ((inputs, count), ?s1\<lparr>system_state := z, fmu_input_drops := j\<rparr>)"
    "sys_shape z" "same_arming (system_state ?s1) z"
    by (rule control_inputs_shape [OF s1])
  let ?s2 = "?s1\<lparr>system_state := z, fmu_input_drops := j\<rparr>"
  define s3 where "s3 = (if 0 < count then driven PX4IO_OUTPUT_CHANNELS inputs count ?s2 else ?s2)"
  have s2: "io_shape ?s2" "servos_known ?s2" using assms(1,3) 2(2) by (simp_all add: io_shape_def servos_known_def)
  then have s3: "io_shape s3" "servos_known s3" using driven_shape [of ?s2] by (simp_all add: s3_def)
  have sys: "system_state s3 = z" "arm_counter s3 = arm_counter s" by (simp_all add: s3_def driven_def)
  let ?s' = "arm_servos (armed z \<and> 0 < count) s3"
  have "mixer_tick message s = Some ?s'"
    using mixer_tick_parts [OF assms(1) 1(1) s1 2(1) s2(1)] by (simp add: s3_def)
  moreover have "system_state (arm_servos b s3) = z" "arm_counter (arm_servos b s3) = arm_counter s" for b
    using sys by (simp_all add: arm_servos_effect)
  moreover have "same_arming (system_state s) z" using 1(3) 2(3) by (simp add: same_arming_def)
  moreover have "io_shape ?s'" using s3(1) by (simp add: arm_servos_effect io_shape_def)
  ultimately show ?thesis using arm_servos_known [OF s3(2)] by (intro exI [of _ ?s']) simp
qed

lemma button_state_fields:
  "io_shape s \<Longrightarrow> io_shape (safety_check_button pressed s)"
  "servos_known s \<Longrightarrow> servos_known (safety_check_button pressed s)"
  "drops_ok s \<Longrightarrow> drops_ok (safety_check_button pressed s)"
  "arm_ok (system_state (safety_check_button pressed s)) = arm_ok (system_state s)"
  by (simp_all add: safety_check_button_def button_state_def gpio_def Let_def io_shape_def sys_shape_def
      servos_known_def drops_ok_def)

text \<open>The counters of lost input.\<close>

lemma rc_input_drops:
  assumes "drops_ok s" "mixer_get_rc_input message s = Some s1" "sys_shape (system_state s)" "fits message"
  shows "drops_ok s1"
proof (cases "silent message")
  case True
  obtain y where y: "mixer_get_rc_input message s = Some (s\<lparr>system_state := y,
      mixer_input_drops := (if mixer_input_drops s < 10 then mixer_input_drops s + 1 else 10)\<rparr>)"
    "y = (system_state s)\<lparr>rc_channels := (if mixer_input_drops s + 1 < 10 then rc_channels (system_state s) else 0),
       fmu_report_due := fmu_report_due y\<rparr>"
    by (rule rc_input_silent [OF True assms(1)])
  have f: "rc_channels y = (if mixer_input_drops s + 1 < 10 then rc_channels (system_state s) else 0)"
    "mixer_use_fmu y = mixer_use_fmu (system_state s)" "fmu_data_received y = fmu_data_received (system_state s)"
    by (subst y(2), simp)+
  have "mixer_input_drops s + 1 = 10 \<Longrightarrow> \<not> mixer_input_drops s + 1 < 10" by (simp only: less_irrefl not_False_eq_True)
  with f y(1) assms(1,2) small_succ_le [of "mixer_input_drops s"] show ?thesis
    by (cases "mixer_input_drops s < 10") (auto simp: drops_ok_def)
next
  case False
  then obtain m where m: "message = Some m" "m \<noteq> []" by (auto simp: silent_def split: option.splits)
  have fit: "length m \<le> 2 * PX4IO_INPUT_CHANNELS" using assms(4) m(1) by (simp add: fits_def)
  obtain d where "mixer_get_rc_input message s = Some ((upd_sys (\<lambda>y. y\<lparr>rc_channel_data := d,
      rc_channels := length m div 2, fmu_report_due := True\<rparr>) s)\<lparr>mixer_input_drops := 0\<rparr>)"
    by (rule rc_input_message [OF m fit assms(3)])
  with assms(1,2) show ?thesis by (auto simp: drops_ok_def)
qed

lemma control_inputs_drops: "drops_ok s \<Longrightarrow> drops_ok (snd (control_inputs s))"
  by (auto simp: control_inputs_def drops_ok_def Let_def)

lemma mixer_tick_drops:
  assumes "io_shape s" "fits message" "drops_ok s" "mixer_tick message s = Some s'"
  shows "drops_ok s'"
proof -
  obtain y k where 1: "mixer_get_rc_input message s = Some (s\<lparr>system_state := y, mixer_input_drops := k\<rparr>)"
    "sys_shape y" by (rule rc_input_shape [OF assms(1,2)]) blast
  let ?s1 = "s\<lparr>system_state := y, mixer_input_drops := k\<rparr>"
  have s1: "io_shape ?s1" "drops_ok ?s1"
    using assms(1) 1(2) rc_input_drops [OF assms(3) 1(1) _ assms(2)] by (simp_all add: io_shape_def)
  obtain inputs count z j where 2: "control_inputs ?s1 = ((inputs, count), ?s1\<lparr>system_state := z, fmu_input_drops := j\<rparr>)"
    "sys_shape z" by (rule control_inputs_shape [OF s1(1)]) blast
  let ?s2 = "?s1\<lparr>system_state := z, fmu_input_drops := j\<rparr>"
  have "io_shape ?s2" "drops_ok ?s2"
    using s1 2(2) control_inputs_drops [OF s1(2)] 2(1) by (simp_all add: io_shape_def)
  then show ?thesis
    using mixer_tick_parts [OF assms(1) 1(1) s1(1) 2(1)] assms(4)
    by (auto simp: arm_servos_effect driven_def drops_ok_def)
qed

section \<open>The processor keeps its invariant\<close>

definition io_inv :: "io \<Rightarrow> bool" where
  "io_inv s \<longleftrightarrow> io_shape s \<and> drops_ok s \<and> servos_known s \<and>
     (armed (system_state s) \<longrightarrow> arm_ok (system_state s) \<noteq> 0)"

definition event_ok :: "io_event \<Rightarrow> bool" where
  "event_ok e \<longleftrightarrow> (case e of Mixer_tick message \<Rightarrow> fits message | _ \<Rightarrow> True)"

lemma comms_handle_frame_inv: "io_inv s \<Longrightarrow> io_inv (comms_handle_frame b s)"
  using comms_handle_frame_shape [of s b]
  by (auto simp: io_inv_def comms_handle_frame_def io_shape_def exec_frame drops_ok_def servos_known_def
      apply_command_def)

lemma handle_frames_inv: "io_inv s \<Longrightarrow> io_inv (fold comms_handle_frame frames s)"
  by (induction frames arbitrary: s) (simp_all add: comms_handle_frame_inv)

lemma receive_byte_inv:
  assumes "io_inv s"
  shows "\<exists>s'. receive_byte c s = Some s' \<and> io_inv s'"
proof -
  have "io_shape s" using assms by (simp add: io_inv_def)
  then obtain frames x where x: "take_byte c s = Some (frames, s\<lparr>stream := Some x\<rparr>)" "hx_inv x"
    by (rule take_byte_ok)
  have "io_inv (s\<lparr>stream := Some x\<rparr>)"
    using assms x(2) by (simp add: io_inv_def io_shape_def stream_ok_def drops_ok_def servos_known_def)
  from handle_frames_inv [OF this] x(1) show ?thesis by (simp add: receive_byte_def)
qed

interpretation receiver: safe_machine receive_byte io_inv io_inv "\<lambda>c. True"
proof unfold_locales
  fix s c s' assume "io_inv s" "receive_byte c s = Some s'"
  then show "io_inv s'" using receive_byte_inv [of s c] by auto
next
  fix s c assume "io_inv s"
  then show "\<exists>s'. receive_byte c s = Some s'" using receive_byte_inv [of s c] by blast
qed

lemma report_if_due_inv:
  assumes "io_inv s"
  shows "\<exists>s'. report_if_due s = Some s' \<and> io_inv s'"
proof -
  have "io_shape s" using assms by (simp add: io_inv_def)
  then obtain r x due t n where r: "report_if_due s = Some ((upd_sys (\<lambda>y. y\<lparr>fmu_report_due := due\<rparr>) s)
      \<lparr>last_report_time := t, io_reads := n, report := r, stream := Some x\<rparr>)"
    "length (rc_channel r) = PX4IO_INPUT_CHANNELS" "hx_inv x"
    by (rule report_if_due_ok)
  with assms show ?thesis
    by (simp add: io_inv_def io_shape_def sys_shape_def stream_ok_def drops_ok_def servos_known_def)
qed

lemma comms_check_inv:
  assumes "io_inv s"
  shows "\<exists>s'. comms_check available s = Some s' \<and> io_inv s'"
proof -
  obtain s1 where s1: "report_if_due s = Some s1" "io_inv s1" using report_if_due_inv [OF assms] by blast
  then obtain s2 where "run_steps receive_byte available s1 = Some s2" "io_inv s2"
    using receiver.run_safe_from [of s1 available] by (auto simp: list_all_iff)
  with s1(1) show ?thesis by (simp add: comms_check_def)
qed

lemma blink_inv: "io_inv s \<Longrightarrow> io_inv ((print_status \<circ> blink_blue \<circ> blink_amber) s)"
  by (simp add: print_status_def blink_blue_def blink_amber_def gpio_def io_inv_def io_shape_def drops_ok_def
      servos_known_def)

lemma button_inv:
  assumes "io_inv s"
  shows "io_inv (safety_check_button pressed s)"
proof -
  have "armed (system_state (safety_check_button pressed s)) \<Longrightarrow> arm_ok (system_state s) \<noteq> 0"
    using assms
    by (auto simp: safety_check_button_def button_state_def gpio_def Let_def io_inv_def split: if_splits)
  then show ?thesis using assms button_state_fields [where s = s] by (simp add: io_inv_def)
qed

lemma io_step_inv:
  assumes "io_inv s" "event_ok e"
  shows "\<exists>s'. io_step e s = Some s' \<and> io_inv s'"
proof (cases e)
  case (Main_turn available)
  then show ?thesis using comms_check_inv [OF assms(1), of available] blink_inv by (auto simp: main_turn_def)
next
  case (Mixer_tick message)
  then have "fits message" using assms(2) by (simp add: event_ok_def)
  moreover have "io_shape s" "drops_ok s" "servos_known s" "armed (system_state s) \<longrightarrow> arm_ok (system_state s) \<noteq> 0"
    using assms(1) by (simp_all add: io_inv_def)
  ultimately show ?thesis
    using Mixer_tick mixer_tick_ok [of s message] mixer_tick_drops [of s message]
    by (auto simp: io_inv_def same_arming_def)
next
  case (Button pressed)
  then show ?thesis using button_inv [OF assms(1)] by simp
next
  case Timer_tick
  then show ?thesis
    using assms(1) by (simp add: timer_tick_def io_inv_def io_shape_def drops_ok_def servos_known_def)
qed

definition io_start :: "io \<Rightarrow> bool" where
  "io_start s \<longleftrightarrow> (\<exists>fd clock. s = user_start True fd clock)"

lemma io_start_inv: "io_start s \<Longrightarrow> io_inv s"
  using hx.inv_start
  by (auto simp: io_start_def user_start_def comms_init_def blank_io_def gpio_def hx_start_def Let_def
      io_inv_def io_shape_def sys_shape_def stream_ok_def drops_ok_def servos_known_def servos_on_def
      px4io_constants hx_stream_init_def)

interpretation processor: safe_machine io_step io_start io_inv event_ok
proof unfold_locales
  fix s assume "io_start s"
  then show "io_inv s" by (rule io_start_inv)
next
  fix s e s' assume "io_inv s" "event_ok e" "io_step e s = Some s'"
  then show "io_inv s'" using io_step_inv [of s e] by auto
next
  fix s e assume "io_inv s" "event_ok e"
  then show "\<exists>s'. io_step e s = Some s'" using io_step_inv [of s e] by blast
qed

section \<open>Interrupts between the statements\<close>

text \<open>
  The handlers of the mixer, the button and the timers are interrupts: they run between any two
  statements of \<open>comms_handle_frame\<close>. A configuration is the rest of the frame being handled
  and the state.
\<close>

inductive interleaved :: "frame_stmt list \<times> io \<Rightarrow> frame_stmt list \<times> io \<Rightarrow> bool" where
  Statement: "interleaved (st # sts, s) (sts, upd_sys (exec_stmt st) s)"
| Report: "report_if_due s = Some s' \<Longrightarrow> interleaved ([], s) ([], s')"
| Byte: "take_byte c s = Some (frames, s') \<Longrightarrow> interleaved ([], s) (concat (map frame_stmts frames), s')"
| Blink: "interleaved ([], s) ([], (print_status \<circ> blink_blue \<circ> blink_amber) s)"
| Mixer: "fits message \<Longrightarrow> mixer_tick message s = Some s' \<Longrightarrow> interleaved (sts, s) (sts, s')"
| Safety_button: "interleaved (sts, s) (sts, safety_check_button pressed s)"
| Timers: "interleaved (sts, s) (sts, timer_tick s)"

fun guarded :: "frame_stmt list \<Rightarrow> bool" where
  "guarded [] = True"
| "guarded (Store_arm_ok v # sts) = (Disarm_if_not_ok \<in> set sts \<and> guarded sts)"
| "guarded (st # sts) = guarded sts"

lemma guarded_append: "guarded xs \<Longrightarrow> guarded ys \<Longrightarrow> guarded (xs @ ys)"
  by (induction xs rule: guarded.induct) auto

lemma guarded_maps: "guarded (map (\<lambda>i. Store_channel i (f i)) is)" "guarded (map (\<lambda>i. Store_relay i (g i)) is)"
  by (induction "is") simp_all

lemma guarded_frames: "guarded (concat (map frame_stmts frames))"
proof (induction frames)
  case (Cons b frames)
  have "guarded (frame_stmts b)"
    by (simp add: frame_stmts_def Let_def guarded_append guarded_maps)
  with Cons show ?case by (simp add: guarded_append)
qed simp

lemma guarded_tl: "guarded (st # sts) \<Longrightarrow> guarded sts"
  by (cases st) simp_all

definition interlock :: "frame_stmt list \<times> io \<Rightarrow> bool" where
  "interlock c \<longleftrightarrow> (case c of (sts, s) \<Rightarrow> io_shape s \<and> servos_known s \<and> drops_ok s \<and> guarded sts \<and>
     (armed (system_state s) \<and> arm_ok (system_state s) = 0 \<longrightarrow> Disarm_if_not_ok \<in> set sts))"

lemma exec_stmt_shape: "sys_shape y \<Longrightarrow> sys_shape (exec_stmt st y)"
  by (cases st) (simp_all add: sys_shape_def)

lemma interlock_statement:
  assumes "interlock (st # sts, s)"
  shows "interlock (sts, upd_sys (exec_stmt st) s)"
proof -
  have "io_shape (upd_sys (exec_stmt st) s)" "servos_known (upd_sys (exec_stmt st) s)" "guarded sts"
    using assms exec_stmt_shape guarded_tl by (auto simp: interlock_def io_shape_def servos_known_def)
  moreover have "drops_ok (upd_sys (exec_stmt st) s)"
    using assms by (cases st) (simp_all add: interlock_def drops_ok_def)
  moreover have "armed (exec_stmt st (system_state s)) \<and> arm_ok (exec_stmt st (system_state s)) = 0 \<Longrightarrow>
      Disarm_if_not_ok \<in> set sts"
    using assms by (cases st) (auto simp: interlock_def split: if_splits)
  ultimately show ?thesis by (simp add: interlock_def)
qed

lemma interlock_step: "interleaved c c' \<Longrightarrow> interlock c \<Longrightarrow> interlock c'"
proof (induction rule: interleaved.induct)
  case (Statement st sts s)
  then show ?case by (rule interlock_statement)
next
  case (Report s s')
  then have "io_shape s" by (simp add: interlock_def)
  then obtain r x due t n where r: "report_if_due s = Some ((upd_sys (\<lambda>y. y\<lparr>fmu_report_due := due\<rparr>) s)
      \<lparr>last_report_time := t, io_reads := n, report := r, stream := Some x\<rparr>)"
    "length (rc_channel r) = PX4IO_INPUT_CHANNELS" "hx_inv x"
    by (rule report_if_due_ok)
  with Report show ?case
    by (auto simp: interlock_def io_shape_def sys_shape_def stream_ok_def servos_known_def drops_ok_def)
next
  case (Byte c s frames s')
  then have "io_shape s" by (simp add: interlock_def)
  then obtain frames' x where x: "take_byte c s = Some (frames', s\<lparr>stream := Some x\<rparr>)" "hx_inv x"
    by (rule take_byte_ok)
  with Byte guarded_frames show ?case
    by (auto simp: interlock_def io_shape_def stream_ok_def servos_known_def drops_ok_def)
next
  case (Blink s)
  then show ?case
    by (simp add: print_status_def blink_blue_def blink_amber_def gpio_def interlock_def io_shape_def servos_known_def
        drops_ok_def)
next
  case (Mixer message s s' sts)
  then show ?case using mixer_tick_ok [of s message] mixer_tick_drops [of s message] by (auto simp: interlock_def same_arming_def)
next
  case (Safety_button sts s pressed)
  have "armed (system_state (safety_check_button pressed s)) \<and> arm_ok (system_state s) = 0 \<Longrightarrow> armed (system_state s)"
    by (auto simp: safety_check_button_def button_state_def gpio_def Let_def split: if_splits)
  with Safety_button button_state_fields [where s = s] show ?case by (auto simp: interlock_def)
next
  case (Timers sts s)
  then show ?case by (simp add: timer_tick_def interlock_def io_shape_def servos_known_def drops_ok_def)
qed

lemma interlock_run: "interleaved\<^sup>*\<^sup>* c c' \<Longrightarrow> interlock c \<Longrightarrow> interlock c'"
  by (induction rule: rtranclp_induct) (auto intro: interlock_step)

lemma io_start_interlock: "io_start s \<Longrightarrow> interlock ([], s)"
  using io_start_inv by (simp add: interlock_def io_inv_def)

lemma interlock_inv: "interlock ([], s) \<Longrightarrow> io_inv s"
  by (simp add: interlock_def io_inv_def)

text \<open>The steps of the machine, one handler after the other, are such runs.\<close>

lemma statements_run: "interleaved\<^sup>*\<^sup>* (sts, s) ([], upd_sys (fold exec_stmt sts) s)"
proof (induction sts arbitrary: s)
  case (Cons st sts)
  from converse_rtranclp_into_rtranclp [OF Statement Cons.IH] show ?case by simp
qed simp

lemma frames_statements:
  "fold comms_handle_frame frames s = upd_sys (fold exec_stmt (concat (map frame_stmts frames))) s"
  by (induction frames arbitrary: s) (simp_all add: comms_handle_frame_def)

lemma receive_interleaved: "receive_byte c s = Some s' \<Longrightarrow> interleaved\<^sup>*\<^sup>* ([], s) ([], s')"
  by (auto simp: receive_byte_def frames_statements
      intro: converse_rtranclp_into_rtranclp [OF Byte statements_run])

lemma receive_run_interleaved: "run_steps receive_byte bs s = Some s' \<Longrightarrow> interleaved\<^sup>*\<^sup>* ([], s) ([], s')"
  by (induction bs arbitrary: s) (auto split: option.splits intro: rtranclp_trans receive_interleaved)

lemma io_step_interleaved:
  assumes "event_ok e" "io_step e s = Some s'"
  shows "interleaved\<^sup>*\<^sup>* ([], s) ([], s')"
proof (cases e)
  case (Main_turn available)
  then obtain s1 s2 where t: "report_if_due s = Some s1" "run_steps receive_byte available s1 = Some s2"
    "s' = (print_status \<circ> blink_blue \<circ> blink_amber) s2"
    using assms(2) by (auto simp: main_turn_def comms_check_def bind_eq_Some_conv)
  have "interleaved\<^sup>*\<^sup>* ([], s) ([], s2)"
    using converse_rtranclp_into_rtranclp [OF Report [OF t(1)] receive_run_interleaved [OF t(2)]] .
  then show ?thesis unfolding t(3) by (rule rtranclp.rtrancl_into_rtrancl) (rule Blink)
next
  case (Mixer_tick message)
  then show ?thesis using assms by (auto simp: event_ok_def intro: Mixer)
next
  case (Button pressed)
  then show ?thesis using assms by (auto intro: Safety_button)
next
  case Timer_tick
  then show ?thesis using assms by (auto intro: Timers)
qed

lemma io_run_interleaved:
  "list_all event_ok es \<Longrightarrow> run_steps io_step es s = Some s' \<Longrightarrow> interleaved\<^sup>*\<^sup>* ([], s) ([], s')"
  by (induction es arbitrary: s) (auto split: option.splits intro: rtranclp_trans io_step_interleaved)

text \<open>
  The two flags of a frame are set in this order: a tick of the mixer between them, after the link
  was lost, takes the link for lost again, and the frame has no effect on the outputs.
\<close>

lemma recovery_race:
  assumes "io_shape s" "servos_known s" "fits message" "fmu_input_drops s = 10" "\<not> fmu_data_received (system_state s)"
  shows "\<exists>s'. mixer_tick message (upd_sys (exec_stmt Set_use_fmu) s) = Some s' \<and>
    \<not> mixer_use_fmu (system_state (upd_sys (exec_stmt Set_data_received) s'))"
proof -
  let ?s = "upd_sys (exec_stmt Set_use_fmu) s"
  have shape: "io_shape ?s" using assms(1) by (simp add: io_shape_def sys_shape_def)
  obtain y k where 1: "mixer_get_rc_input message ?s = Some (?s\<lparr>system_state := y, mixer_input_drops := k\<rparr>)"
    "sys_shape y" "mixer_use_fmu y" "\<not> fmu_data_received y"
    by (rule rc_input_shape [OF shape assms(3)]) (use assms(5) in simp)
  let ?s1 = "?s\<lparr>system_state := y, mixer_input_drops := k\<rparr>"
  have s1: "io_shape ?s1" using shape 1(2) by (simp add: io_shape_def)
  obtain inputs count z j where 2: "control_inputs ?s1 = ((inputs, count), ?s1\<lparr>system_state := z, fmu_input_drops := j\<rparr>)"
    "sys_shape z" by (rule control_inputs_shape [OF s1]) blast
  have "FMU_INPUT_DROP_LIMIT \<le> fmu_input_drops ?s1 + 1"
    using assms(4) by (simp add: FMU_INPUT_DROP_LIMIT_def)
  then have "\<not> mixer_use_fmu (system_state (snd (control_inputs ?s1)))"
    using 1(3,4) by (simp add: control_inputs_def Let_def)
  then have "\<not> mixer_use_fmu z" unfolding 2(1) by simp
  moreover have "io_shape (?s1\<lparr>system_state := z, fmu_input_drops := j\<rparr>)" using s1 2(2) by (simp add: io_shape_def)
  ultimately show ?thesis
    using mixer_tick_parts [OF shape 1(1) s1 2(1)] by (simp add: arm_servos_effect driven_def)
qed

section \<open>The button is held before the processor arms\<close>

fun button_checks :: "io_event list \<Rightarrow> bool list" where
  "button_checks [] = []"
| "button_checks (Button b # es) = b # button_checks es"
| "button_checks (e # es) = button_checks es"

text \<open>How many of the last checks of the button in a row found it pressed.\<close>

definition held :: "io_event list \<Rightarrow> nat" where
  "held es = length (takeWhile (\<lambda>b. b) (rev (button_checks es)))"

lemma button_checks_append: "button_checks (es @ fs) = button_checks es @ button_checks fs"
  by (induction es rule: button_checks.induct) simp_all

lemma held_snoc:
  "held (es @ [Button True]) = Suc (held es)" "held (es @ [Button False]) = 0"
  "button_checks [e] = [] \<Longrightarrow> held (es @ [e]) = held es"
  by (simp_all add: held_def button_checks_append)

lemma frames_arming:
  "io_inv s \<Longrightarrow> arm_counter (fold comms_handle_frame frames s) = arm_counter s \<and>
    (armed (system_state (fold comms_handle_frame frames s)) \<longrightarrow> armed (system_state s))"
proof (induction frames arbitrary: s)
  case (Cons b frames)
  have "sys_shape (system_state s)" using Cons.prems by (simp add: io_inv_def io_shape_def)
  then have "arm_counter (comms_handle_frame b s) = arm_counter s"
    "armed (system_state (comms_handle_frame b s)) \<longrightarrow> armed (system_state s)"
    by (simp_all add: comms_handle_frame_def exec_frame apply_command_def)
  with Cons.IH [OF comms_handle_frame_inv [OF Cons.prems]] show ?case by simp
qed simp

lemma receive_arming:
  assumes "io_inv s" "run_steps receive_byte bs s = Some s'"
  shows "arm_counter s' = arm_counter s \<and> (armed (system_state s') \<longrightarrow> armed (system_state s))"
  using assms
proof (induction bs arbitrary: s)
  case (Cons b bs)
  obtain frames x where x: "take_byte b s = Some (frames, s\<lparr>stream := Some x\<rparr>)" "hx_inv x"
    using take_byte_ok [of s b] Cons.prems(1) by (auto simp: io_inv_def)
  obtain s1 where s1: "receive_byte b s = Some s1" "io_inv s1" using receive_byte_inv [OF Cons.prems(1)] by blast
  have "io_inv (s\<lparr>stream := Some x\<rparr>)"
    using Cons.prems(1) x(2) by (simp add: io_inv_def io_shape_def stream_ok_def drops_ok_def servos_known_def)
  from frames_arming [OF this] x(1) s1(1)
  have "arm_counter s1 = arm_counter s \<and> (armed (system_state s1) \<longrightarrow> armed (system_state s))"
    by (auto simp: receive_byte_def)
  with Cons.IH [OF s1(2)] Cons.prems(2) s1(1) show ?case by simp
qed simp

lemma main_turn_arming:
  assumes "io_inv s" "main_turn available s = Some s'"
  shows "arm_counter s' = arm_counter s \<and> (armed (system_state s') \<longrightarrow> armed (system_state s))"
proof -
  have "io_shape s" using assms(1) by (simp add: io_inv_def)
  then obtain r x due t n where r: "report_if_due s = Some ((upd_sys (\<lambda>y. y\<lparr>fmu_report_due := due\<rparr>) s)
      \<lparr>last_report_time := t, io_reads := n, report := r, stream := Some x\<rparr>)"
    "length (rc_channel r) = PX4IO_INPUT_CHANNELS" "hx_inv x"
    by (rule report_if_due_ok)
  let ?s1 = "(upd_sys (\<lambda>y. y\<lparr>fmu_report_due := due\<rparr>) s)
      \<lparr>last_report_time := t, io_reads := n, report := r, stream := Some x\<rparr>"
  have "io_inv ?s1"
    using assms(1) r(2,3) by (simp add: io_inv_def io_shape_def sys_shape_def stream_ok_def drops_ok_def servos_known_def)
  moreover obtain s2 where "run_steps receive_byte available ?s1 = Some s2"
    "s' = (print_status \<circ> blink_blue \<circ> blink_amber) s2"
    using assms(2) r(1) by (auto simp: main_turn_def comms_check_def)
  ultimately show ?thesis
    using receive_arming [of ?s1 available s2]
    by (simp add: print_status_def blink_blue_def blink_amber_def gpio_def)
qed

lemma counter_held:
  assumes "io_inv s" "event_ok e" "io_step e s = Some s'" "unat (arm_counter s) \<le> held es" "arm_counter s \<le> 11"
  shows "unat (arm_counter s') \<le> held (es @ [e]) \<and> arm_counter s' \<le> 11 \<and>
    (armed (system_state s') \<longrightarrow> armed (system_state s) \<or> 11 \<le> held (es @ [e]))"
proof (cases e)
  case (Button pressed)
  have up: "unat (arm_counter s + 1) = Suc (unat (arm_counter s))" "arm_counter s + 1 \<le> 11" if "arm_counter s \<le> 10"
    using that by (simp_all add: unat_word_ariths word_le_nat_alt)
  have s': "s' = safety_check_button pressed s" using assms(3) Button by simp
  consider (up) "pressed" "arm_ok (system_state s) \<noteq> 0" "arm_counter s < 10"
    | (toggle) "pressed" "arm_ok (system_state s) \<noteq> 0" "arm_counter s = 10"
    | (over) "pressed" "arm_ok (system_state s) \<noteq> 0" "\<not> arm_counter s < 10" "arm_counter s \<noteq> 10"
    | (reset) "\<not> (pressed \<and> arm_ok (system_state s) \<noteq> 0)"
    by (cases "arm_counter s < 10"; cases "arm_counter s = 10") auto
  then show ?thesis
  proof cases
    case up
    then show ?thesis
      using \<open>unat (arm_counter s) \<le> held es\<close> Button \<open>arm_counter s \<le> 10 \<Longrightarrow> unat (arm_counter s + 1) = _\<close>
        \<open>arm_counter s \<le> 10 \<Longrightarrow> arm_counter s + 1 \<le> 11\<close>
      by (simp add: s' held_snoc safety_check_button_def button_state_def gpio_def Let_def ARM_COUNTER_THRESHOLD_def)
  next
    case toggle
    then show ?thesis
      using assms(4) Button
      by (simp add: s' held_snoc safety_check_button_def button_state_def gpio_def Let_def ARM_COUNTER_THRESHOLD_def)
  next
    case over
    then show ?thesis
      using assms(4,5) Button
      by (simp add: s' held_snoc safety_check_button_def button_state_def gpio_def Let_def ARM_COUNTER_THRESHOLD_def)
  next
    case reset
    then have "button_state pressed s = s\<lparr>arm_counter := 0\<rparr>" unfolding button_state_def by (rule if_not_P)
    then show ?thesis
      by (simp add: s' safety_check_button_def gpio_def Let_def)
  qed
next
  case (Main_turn available)
  then show ?thesis using main_turn_arming [OF assms(1)] assms(3-5) by (simp add: held_snoc)
next
  case (Mixer_tick message)
  then have "fits message" using assms(2) by (simp add: event_ok_def)
  then show ?thesis
    using mixer_tick_ok [of s message] assms Mixer_tick
    by (auto simp: held_snoc io_inv_def same_arming_def)
next
  case Timer_tick
  then show ?thesis using assms(3-5) by (simp add: held_snoc timer_tick_def) (auto simp: timer_tick_def)
qed

lemma armed_was_held:
  assumes "io_inv s" "arm_counter s = 0" "\<not> armed (system_state s)"
    and "list_all event_ok es" "run_steps io_step es s = Some s'"
  shows "unat (arm_counter s') \<le> held es \<and> arm_counter s' \<le> 11 \<and>
    (armed (system_state s') \<longrightarrow> (\<exists>us vs. es = us @ vs \<and> 11 \<le> held us))"
  using assms(4,5)
proof (induction es arbitrary: s' rule: rev_induct)
  case Nil
  then show ?case using assms(2,3) by auto
next
  case (snoc e es)
  then obtain t where t: "run_steps io_step es s = Some t" "io_step e t = Some s'"
    by (auto simp: run_steps_append split: option.splits)
  have ok: "list_all event_ok es" "event_ok e" using snoc.prems(1) by simp_all
  have inv: "io_inv t" using processor.inv_run_from [OF assms(1) ok(1) t(1)] .
  note IH = snoc.IH [OF ok(1) t(1)]
  have step: "unat (arm_counter s') \<le> held (es @ [e]) \<and> arm_counter s' \<le> 11 \<and>
      (armed (system_state s') \<longrightarrow> armed (system_state t) \<or> 11 \<le> held (es @ [e]))"
    using counter_held [OF inv ok(2) t(2)] IH by blast
  show ?case
  proof (intro conjI impI)
    assume "armed (system_state s')"
    with step consider "armed (system_state t)" | "11 \<le> held (es @ [e])" by blast
    then show "\<exists>us vs. es @ [e] = us @ vs \<and> 11 \<le> held us"
    proof cases
      case 1
      then obtain us vs where "es = us @ vs" "11 \<le> held us" using IH by blast
      then show ?thesis by (intro exI [of _ us] exI [of _ "vs @ [e]"]) simp
    next
      case 2
      then show ?thesis by (intro exI [of _ "es @ [e]"] exI [of _ "[]"]) simp
    qed
  qed (use step in blast)+
qed

section \<open>Without input the servos are switched off\<close>

text \<open>
  How many more ticks the flight management unit and the remote control are trusted without input. The number of lost frames
  is not bounded by the limit: a tick between the two flags of a frame counts on beyond it (\<open>recovery_race\<close>), so the measure is
  defined for every value of the counter.
\<close>

definition fmu_trust :: "io \<Rightarrow> nat" where
  "fmu_trust s = (if \<not> mixer_use_fmu (system_state s) then 0
     else if fmu_data_received (system_state s) then 11
     else if fmu_input_drops s + 1 < FMU_INPUT_DROP_LIMIT then 11 - unat (fmu_input_drops s + 1) else 1)"

definition rc_trust :: "io \<Rightarrow> nat" where
  "rc_trust s = 10 - unat (mixer_input_drops s)"

definition trust :: "io \<Rightarrow> nat" where
  "trust s = max (fmu_trust s) (rc_trust s)"

definition silent_event :: "io_event \<Rightarrow> bool" where
  "silent_event e \<longleftrightarrow> (case e of Mixer_tick message \<Rightarrow> silent message | Main_turn available \<Rightarrow> available = [] | _ \<Rightarrow> True)"

fun is_tick :: "io_event \<Rightarrow> bool" where
  "is_tick (Mixer_tick message) = True"
| "is_tick e = False"

lemma trust_bound: "trust s \<le> 11"
  by (auto simp: trust_def fmu_trust_def rc_trust_def intro: le_trans [OF diff_le_self])

lemma trust_outputs: "trust (driven n inputs count s) = trust s" "trust (arm_servos b s) = trust s"
  by (simp_all add: arm_servos_effect driven_def trust_def fmu_trust_def rc_trust_def)

lemma control_inputs_trust:
  "fmu_trust (snd (control_inputs s)) \<le> fmu_trust s - 1" "rc_trust (snd (control_inputs s)) = rc_trust s"
  "fmu_trust s = 0 \<Longrightarrow> snd (fst (control_inputs s)) = rc_channels (system_state s)"
proof -
  have limit: "unat k < 10" if "k < FMU_INPUT_DROP_LIMIT" for k
    using that by (simp add: word_less_nat_alt FMU_INPUT_DROP_LIMIT_def)
  have succ: "unat (k + 1) = unat k + 1" if "k < FMU_INPUT_DROP_LIMIT" for k
    using small_succ [of k] that by (simp add: FMU_INPUT_DROP_LIMIT_def)
  have 0: "(0 :: u32) + 1 < FMU_INPUT_DROP_LIMIT" by (simp add: FMU_INPUT_DROP_LIMIT_def)
  show "fmu_trust (snd (control_inputs s)) \<le> fmu_trust s - 1"
    using succ [of "fmu_input_drops s + 1"] limit [of "fmu_input_drops s + 1"] 0
    by (auto simp: control_inputs_def fmu_trust_def Let_def)
  show "rc_trust (snd (control_inputs s)) = rc_trust s"
    by (simp add: control_inputs_def rc_trust_def Let_def)
  have "\<not> mixer_use_fmu (system_state s)" if "fmu_trust s = 0"
    using that limit [of "fmu_input_drops s + 1"] by (auto simp: fmu_trust_def split: if_splits)
  then show "snd (fst (control_inputs s)) = rc_channels (system_state s)" if "fmu_trust s = 0"
    using that by (simp add: control_inputs_def Let_def)
qed

lemma silent_tick:
  assumes "io_inv s" "silent message" "mixer_tick message s = Some s'"
  shows "trust s' \<le> trust s - 1 \<and> (trust s = 0 \<longrightarrow> \<not> mixer_servos_armed s')"
proof -
  have inv: "io_shape s" "drops_ok s" using assms(1) by (simp_all add: io_inv_def)
  have fit: "fits message" using assms(2) by (auto simp: silent_def fits_def split: option.splits)
  let ?k = "if mixer_input_drops s < 10 then mixer_input_drops s + 1 else 10"
  obtain y where y: "mixer_get_rc_input message s = Some (s\<lparr>system_state := y, mixer_input_drops := ?k\<rparr>)"
    "y = (system_state s)\<lparr>rc_channels := (if mixer_input_drops s + 1 < 10 then rc_channels (system_state s) else 0),
       fmu_report_due := fmu_report_due y\<rparr>"
    by (rule rc_input_silent [OF assms(2) inv(2)])
  let ?s1 = "s\<lparr>system_state := y, mixer_input_drops := ?k\<rparr>"
  have f: "rc_channels y = (if mixer_input_drops s + 1 < 10 then rc_channels (system_state s) else 0)"
    "mixer_use_fmu y = mixer_use_fmu (system_state s)" "fmu_data_received y = fmu_data_received (system_state s)"
    "sys_shape y"
    using inv(1) by (subst y(2), simp add: io_shape_def sys_shape_def)+
  have s1: "io_shape ?s1" using inv(1) f(4) by (simp add: io_shape_def)
  have drops1: "drops_ok ?s1" using rc_input_drops [OF inv(2) y(1) _ fit] inv(1) by (simp add: io_shape_def)
  have rc: "rc_trust ?s1 \<le> rc_trust s - 1"
    using small_succ [of "mixer_input_drops s"] by (auto simp: rc_trust_def)
  have fmu: "fmu_trust ?s1 = fmu_trust s" using f(2,3) by (simp add: fmu_trust_def)
  obtain inputs count z j where 2: "control_inputs ?s1 = ((inputs, count), ?s1\<lparr>system_state := z, fmu_input_drops := j\<rparr>)"
    "sys_shape z" by (rule control_inputs_shape [OF s1]) blast
  let ?s2 = "?s1\<lparr>system_state := z, fmu_input_drops := j\<rparr>"
  have s2: "io_shape ?s2" using s1 2(2) by (simp add: io_shape_def)
  have snds: "snd (control_inputs ?s1) = ?s2" "snd (fst (control_inputs ?s1)) = count" by (simp_all only: 2(1) snd_conv fst_conv)
  have s': "s' = arm_servos (armed (system_state ?s2) \<and> 0 < count)
      (if 0 < count then driven PX4IO_OUTPUT_CHANNELS inputs count ?s2 else ?s2)"
    using mixer_tick_parts [OF inv(1) y(1) s1 2(1) s2] assms(3) by simp
  have "trust s' = trust ?s2" unfolding s' by (cases "0 < count") (simp_all only: if_True if_False trust_outputs)
  moreover have "fmu_trust ?s2 \<le> fmu_trust s - 1" "rc_trust ?s2 \<le> rc_trust s - 1"
    using control_inputs_trust(1,2) [of ?s1] rc fmu unfolding snds(1) by simp_all
  moreover have "\<not> mixer_servos_armed s'" if "trust s = 0"
  proof -
    have "fmu_trust s = 0" "rc_trust s = 0" using that by (simp_all add: trust_def)
    then have "10 \<le> mixer_input_drops s" by (simp add: rc_trust_def word_le_nat_alt)
    then have "mixer_input_drops s = 10" using inv(2) by (simp add: drops_ok_def)
    then have "count = 0"
      using control_inputs_trust(3) [of ?s1] fmu \<open>fmu_trust s = 0\<close> f(1) unfolding snds(2) by simp
    then show ?thesis unfolding s' by (simp add: arm_servos_effect)
  qed
  ultimately show ?thesis by (auto simp: trust_def)
qed

lemma same_trust:
  "system_state t = system_state s \<Longrightarrow> mixer_input_drops t = mixer_input_drops s \<Longrightarrow>
   fmu_input_drops t = fmu_input_drops s \<Longrightarrow> trust t = trust s"
  by (simp add: trust_def fmu_trust_def rc_trust_def)

lemma gpio_fields [simp]:
  "system_state (gpio c s) = system_state s" "mixer_input_drops (gpio c s) = mixer_input_drops s"
  "fmu_input_drops (gpio c s) = fmu_input_drops s" "mixer_servos_armed (gpio c s) = mixer_servos_armed s"
  by (simp_all add: gpio_def)

lemma blink_fields:
  "system_state (blink_amber s) = system_state s \<and> mixer_input_drops (blink_amber s) = mixer_input_drops s \<and>
   fmu_input_drops (blink_amber s) = fmu_input_drops s \<and> mixer_servos_armed (blink_amber s) = mixer_servos_armed s"
  "system_state (blink_blue s) = system_state s \<and> mixer_input_drops (blink_blue s) = mixer_input_drops s \<and>
   fmu_input_drops (blink_blue s) = fmu_input_drops s \<and> mixer_servos_armed (blink_blue s) = mixer_servos_armed s"
  "system_state (print_status s) = system_state s \<and> mixer_input_drops (print_status s) = mixer_input_drops s \<and>
   fmu_input_drops (print_status s) = fmu_input_drops s \<and> mixer_servos_armed (print_status s) = mixer_servos_armed s"
  by (simp_all add: print_status_def blink_blue_def blink_amber_def)

lemma blink_trust:
  "trust (print_status (blink_blue (blink_amber s))) = trust s"
  "mixer_servos_armed (print_status (blink_blue (blink_amber s))) = mixer_servos_armed s"
  by (rule same_trust) (simp_all add: blink_fields)

lemma button_trust:
  "trust (safety_check_button pressed s) = trust s \<and>
   mixer_servos_armed (safety_check_button pressed s) = mixer_servos_armed s"
proof -
  have "trust (button_state pressed s) = trust s" "mixer_servos_armed (button_state pressed s) = mixer_servos_armed s"
    unfolding button_state_def by (simp_all add: trust_def fmu_trust_def rc_trust_def del: disj_not1)
  moreover have "trust (gpio c (t\<lparr>safety_led_state := b\<rparr>)) = trust t"
    "mixer_servos_armed (gpio c (t\<lparr>safety_led_state := b\<rparr>)) = mixer_servos_armed t" for c t b
    by (simp_all add: gpio_def trust_def fmu_trust_def rc_trust_def)
  ultimately show ?thesis by (simp add: safety_check_button_def Let_def)
qed

lemma silent_other:
  assumes "io_inv s" "silent_event e" "\<not> is_tick e" "io_step e s = Some s'"
  shows "trust s' = trust s \<and> mixer_servos_armed s' = mixer_servos_armed s"
proof (cases e)
  case (Main_turn available)
  then have "available = []" using assms(2) by (simp add: silent_event_def)
  have "io_shape s" using assms(1) by (simp add: io_inv_def)
  then obtain r x due t n where "report_if_due s = Some ((upd_sys (\<lambda>y. y\<lparr>fmu_report_due := due\<rparr>) s)
      \<lparr>last_report_time := t, io_reads := n, report := r, stream := Some x\<rparr>)"
    "length (rc_channel r) = PX4IO_INPUT_CHANNELS" "hx_inv x"
    by (rule report_if_due_ok)
  then have "s' = (print_status \<circ> blink_blue \<circ> blink_amber) ((upd_sys (\<lambda>y. y\<lparr>fmu_report_due := due\<rparr>) s)
      \<lparr>last_report_time := t, io_reads := n, report := r, stream := Some x\<rparr>)"
    using assms(4) Main_turn \<open>available = []\<close> by (simp add: main_turn_def comms_check_def)
  then show ?thesis by (simp add: blink_trust) (simp add: trust_def fmu_trust_def rc_trust_def)
next
  case (Button pressed)
  then have "s' = safety_check_button pressed s" using assms(4) by simp
  then show ?thesis by (simp only: button_trust)
next
  case Timer_tick
  then have "s' = timer_tick s" using assms(4) by simp
  then show ?thesis by (simp add: timer_tick_def trust_def fmu_trust_def rc_trust_def)
qed (use assms(3) in simp)

definition ticks_left :: "io \<Rightarrow> nat" where
  "ticks_left s = (if trust s = 0 \<and> \<not> mixer_servos_armed s then 0 else Suc (trust s))"

lemma silent_step:
  assumes "io_inv s" "silent_event e" "io_step e s = Some s'"
  shows "ticks_left s' \<le> ticks_left s - (if is_tick e then 1 else 0)"
proof (cases "is_tick e")
  case True
  then obtain message where e: "e = Mixer_tick message" "silent message"
    using assms(2) by (cases e) (simp_all add: silent_event_def)
  have "trust s' \<le> trust s - 1 \<and> (trust s = 0 \<longrightarrow> \<not> mixer_servos_armed s')"
    using silent_tick [OF assms(1) e(2)] assms(3) e(1) by simp
  then show ?thesis using True by (auto simp: ticks_left_def)
next
  case False
  then show ?thesis using silent_other [OF assms(1,2) False assms(3)] by (simp add: ticks_left_def)
qed

lemma silent_ok: "silent_event e \<Longrightarrow> event_ok e"
  by (auto simp: silent_event_def event_ok_def silent_def fits_def split: io_event.splits option.splits)

lemma silent_run:
  "io_inv s \<Longrightarrow> list_all silent_event es \<Longrightarrow> run_steps io_step es s = Some s' \<Longrightarrow>
   ticks_left s' \<le> ticks_left s - length (filter is_tick es)"
proof (induction es arbitrary: s)
  case (Cons e es)
  then obtain t where t: "io_step e s = Some t" "run_steps io_step es t = Some s'"
    by (auto split: option.splits)
  have e: "silent_event e" "list_all silent_event es" using Cons.prems(2) by simp_all
  have inv: "io_inv t" using io_step_inv [OF Cons.prems(1) silent_ok [OF e(1)]] t(1) by auto
  show ?case using Cons.IH [OF inv e(2) t(2)] silent_step [OF Cons.prems(1) e(1) t(1)] by auto
qed simp

section \<open>Frames over the wire\<close>

lemma hx_rx_extends:
  assumes "hx_stream_rx c x = Some x'"
  shows "\<exists>new. received x' = received x @ new"
  using assms
  by (auto simp: hx_stream_rx_def hx_rx_frame_def save_byte_def Let_def split: if_splits)

lemma hx_run_extends:
  "run_steps hx_stream_rx bs x = Some x' \<Longrightarrow> \<exists>new. received x' = received x @ new"
proof (induction bs arbitrary: x)
  case (Cons b bs)
  then obtain y where y: "hx_stream_rx b x = Some y" "run_steps hx_stream_rx bs y = Some x'"
    by (auto split: option.splits)
  show ?case using hx_rx_extends [OF y(1)] Cons.IH [OF y(2)] by auto
qed simp

lemma fold_frames:
  "sys_shape (system_state s) \<Longrightarrow> fold comms_handle_frame frames s =
     s\<lparr>system_state := fold (\<lambda>b y. if length b = command_size then apply_command (read_command b) y else y) frames
        (system_state s)\<rparr>"
proof (induction frames arbitrary: s)
  case (Cons b frames)
  have "comms_handle_frame b s = s\<lparr>system_state :=
      if length b = command_size then apply_command (read_command b) (system_state s) else system_state s\<rparr>"
    using Cons.prems by (simp add: comms_handle_frame_def exec_frame)
  moreover have "sys_shape (if length b = command_size then apply_command (read_command b) (system_state s)
      else system_state s)"
    using Cons.prems read_command_lengths [of b] by (simp add: sys_shape_def apply_command_def)
  ultimately show ?case using Cons.IH by simp
qed simp

lemma sys_shape_frames:
  "sys_shape y \<Longrightarrow> sys_shape (fold (\<lambda>b y. if length b = command_size then apply_command (read_command b) y else y) frames y)"
proof (induction frames arbitrary: y)
  case (Cons b frames)
  have "sys_shape (if length b = command_size then apply_command (read_command b) y else y)"
    using Cons.prems read_command_lengths [of b] by (simp add: sys_shape_def apply_command_def)
  with Cons show ?case by simp
qed simp

text \<open>The bytes received have the effect of the frames the stream completes.\<close>

lemma receive_frames:
  "sys_shape (system_state s) \<Longrightarrow> stream s = Some x \<Longrightarrow> run_steps hx_stream_rx bs x = Some x' \<Longrightarrow>
   received x' = received x @ new \<Longrightarrow>
   run_steps receive_byte bs s = Some (s\<lparr>stream := Some x', system_state :=
     fold (\<lambda>b y. if length b = command_size then apply_command (read_command b) y else y) new (system_state s)\<rparr>)"
proof (induction bs arbitrary: s x new)
  case Nil
  then show ?case by simp
next
  case (Cons b bs)
  let ?f = "fold (\<lambda>b y. if length b = command_size then apply_command (read_command b) y else y)"
  obtain y where y: "hx_stream_rx b x = Some y" "run_steps hx_stream_rx bs y = Some x'"
    using Cons.prems(3) by (auto split: option.splits)
  obtain n1 n2 where n: "received y = received x @ n1" "received x' = received y @ n2"
    using hx_rx_extends [OF y(1)] hx_run_extends [OF y(2)] by blast
  let ?s = "s\<lparr>stream := Some y, system_state := ?f n1 (system_state s)\<rparr>"
  have "receive_byte b s = Some ?s"
    using Cons.prems(1,2) y(1) n(1) by (simp add: receive_byte_def take_byte_def fold_frames)
  moreover have "new = n1 @ n2" using n Cons.prems(4) by simp
  ultimately show ?case
    using Cons.IH [of ?s y n2] y(2) n(2) sys_shape_frames [OF Cons.prems(1)] by simp
qed

text \<open>A tick of the mixer with a message from the remote control.\<close>

lemma mixer_tick_rc:
  assumes "io_inv s" "\<not> mixer_use_fmu (system_state s)" "vs \<noteq> []" "length vs \<le> PX4IO_INPUT_CHANNELS"
  obtains s' where "mixer_tick (Some (u16_bytes vs)) s = Some s'"
    "servo_log s' = servo_log s @
      (if armed (system_state s) then map (\<lambda>i. PWM_SERVO_SET i (output_value vs (length vs) i)) [0..<PX4IO_OUTPUT_CHANNELS]
       else []) @
      (if armed (system_state s) = mixer_servos_armed s then []
       else if armed (system_state s) then [PWM_SERVO_ARM] else [PWM_SERVO_DISARM])"
    "rc_channels (system_state s') = length vs" "take (length vs) (rc_channel_data (system_state s')) = vs"
proof -
  have shape: "io_shape s" "sys_shape (system_state s)" using assms(1) by (simp_all add: io_inv_def io_shape_def)
  have ne: "u16_bytes vs \<noteq> []" using assms(3) length_u16_bytes [of vs] by (metis length_0_conv mult_is_0 zero_neq_numeral)
  have fit: "length (u16_bytes vs) \<le> 2 * PX4IO_INPUT_CHANNELS" using assms(4) by simp
  obtain d where d: "mixer_get_rc_input (Some (u16_bytes vs)) s = Some ((upd_sys (\<lambda>y. y\<lparr>rc_channel_data := d,
      rc_channels := length (u16_bytes vs) div 2, fmu_report_due := True\<rparr>) s)\<lparr>mixer_input_drops := 0\<rparr>)"
    "d = bytes_u16 (u16_bytes vs @ drop (length (u16_bytes vs)) (u16_bytes (rc_channel_data (system_state s))))"
    "length d = PX4IO_INPUT_CHANNELS"
    by (rule rc_input_message [OF refl ne fit shape(2)])
  let ?s1 = "(upd_sys (\<lambda>y. y\<lparr>rc_channel_data := d,
      rc_channels := length (u16_bytes vs) div 2, fmu_report_due := True\<rparr>) s)\<lparr>mixer_input_drops := 0\<rparr>"
  have t: "take (length vs) d = vs" using d(2) by (simp add: bytes_u16_bytes_append)
  have s1: "io_shape ?s1" using shape d(3) assms(4) by (simp add: io_shape_def sys_shape_def)
  have inputs: "control_inputs ?s1 = ((d, length vs), ?s1)"
    using assms(2,3) by (simp add: control_inputs_def)
  have out: "output_value d (length vs) = output_value vs (length vs)"
    unfolding output_value_def using t by (intro ext) (metis nth_take)
  let ?s' = "arm_servos (armed (system_state ?s1) \<and> 0 < length vs)
    (if 0 < length vs then driven PX4IO_OUTPUT_CHANNELS d (length vs) ?s1 else ?s1)"
  have "mixer_tick (Some (u16_bytes vs)) s = Some ?s'"
    by (rule mixer_tick_parts [OF shape(1) d(1) s1 inputs s1])
  then show ?thesis
    using assms(3) t by (intro that [of ?s']) (simp_all add: arm_servos_effect driven_def out)
qed

lemma armed_at_start: "\<not> armed (system_state (user_start memory fd clock))" "arm_counter (user_start memory fd clock) = 0"
  by (simp_all add: user_start_def comms_init_def blank_io_def gpio_def Let_def)

text \<open>A processor after start, on a file with room for 500 bytes.\<close>

definition example_io :: io where
  "example_io = user_start True \<lparr>written = [], room = 500\<rparr> (\<lambda>n. of_nat (200000 * Suc n))"

lemma example_io_start: "io_start example_io"
  by (auto simp: io_start_def example_io_def)

lemma example_io_inv: "io_inv example_io"
  by (rule io_start_inv [OF example_io_start])

lemma example_io_stream: "stream example_io = Some example_stream"
  by (simp add: example_io_def user_start_def comms_init_def blank_io_def gpio_def example_stream_def
      hx_stream_init_def)

section \<open>Properties\<close>

text \<open>
  C19. The safety interlock holds whatever the interrupts do. However the handlers of the mixer, the button and the
  timers interleave with the statements that handle a frame, between two frames an armed processor has
  the permission of the flight management unit; the flag of the mixer is the state of the servos; and the mixer
  can always run.
\<close>

theorem interlock_under_interrupts:
  assumes "io_start s0" "interleaved\<^sup>*\<^sup>* ([], s0) ([], s)"
  shows "(armed (system_state s) \<longrightarrow> arm_ok (system_state s) \<noteq> 0) \<and>
    mixer_servos_armed s = servos_on (servo_log s) \<and>
    (\<forall>message. fits message \<longrightarrow> (\<exists>s'. mixer_tick message s = Some s'))"
proof -
  have i: "interlock ([], s)" using interlock_run [OF assms(2) io_start_interlock [OF assms(1)]] .
  then have "io_shape s" "servos_known s" by (simp_all add: interlock_def)
  then have "\<exists>s'. mixer_tick message s = Some s'" if "fits message" for message
    using mixer_tick_ok [OF _ that] by blast
  with i show ?thesis by (simp add: interlock_def servos_known_def)
qed

theorem interlock_under_interrupts_witness:
  "\<exists>s. interleaved\<^sup>*\<^sup>* ([], example_io) ([], s) \<and> io_reads s = 1 \<and>
    (armed (system_state s) \<longrightarrow> arm_ok (system_state s) \<noteq> 0) \<and> mixer_servos_armed s = servos_on (servo_log s)"
proof -
  obtain s where s: "report_if_due (safety_check_button True example_io) = Some s" "io_inv s"
    using report_if_due_inv [OF button_inv [OF example_io_inv]] by blast
  have "interleaved\<^sup>*\<^sup>* ([], example_io) ([], s)"
    using Safety_button [of "[]" example_io True] Report [OF s(1)] by (meson converse_rtranclp_into_rtranclp r_into_rtranclp)
  moreover have "io_reads s = 1"
    using s(1) by (auto simp: report_if_due_def io_time_def send_report_def Let_def safety_check_button_def
        button_state_def gpio_def example_io_def user_start_def comms_init_def blank_io_def split: if_splits option.splits)
  ultimately show ?thesis using interlock_under_interrupts [OF example_io_start] by blast
qed

text \<open>
  The processor arms itself only while the button is held: if it is armed after a run, there was a point at which the last
  11 checks of the button, one every 100 ms, all found it pressed.
\<close>

theorem arming_needs_button:
  assumes "io_start s" "list_all event_ok es" "run_steps io_step es s = Some s'" "armed (system_state s')"
  shows "\<exists>us vs. es = us @ vs \<and> 11 \<le> length (takeWhile (\<lambda>b. b) (rev (button_checks us)))"
proof -
  have "arm_counter s = 0" "\<not> armed (system_state s)"
    using assms(1) armed_at_start by (auto simp: io_start_def)
  then show ?thesis
    using armed_was_held [OF io_start_inv [OF assms(1)] _ _ assms(2,3)] assms(4) by (simp add: held_def)
qed

text \<open>A frame that allows arming, and the button held for eleven checks.\<close>

definition allow_arming :: px4io_command where
  "allow_arming = \<lparr>f2i_magic = F2I_MAGIC, servo_command = [1000, 1100, 1200, 1300, 1400, 1500, 1600, 1700],
     relay_state = [0, 1], cmd_arm_ok = 1\<rparr>"

lemma allow_arming_size:
  "length (servo_command allow_arming) = PX4IO_OUTPUT_CHANNELS" "length (relay_state allow_arming) = PX4IO_RELAY_CHANNELS"
  by (simp_all add: allow_arming_def px4io_constants)

lemma silence_disarms:
  assumes "io_inv s" "list_all silent_event es" "12 \<le> length (filter is_tick es)"
  shows "\<exists>s'. run_steps io_step es s = Some s' \<and> \<not> servos_on (servo_log s') \<and>
    \<not> mixer_use_fmu (system_state s') \<and> rc_channels (system_state s') = 0"
proof -
  have "list_all event_ok es" using assms(2) silent_ok by (auto simp: list_all_iff)
  then obtain s' where s': "run_steps io_step es s = Some s'" "io_inv s'"
    using processor.run_safe_from [OF assms(1)] by blast
  have "ticks_left s \<le> 12" using trust_bound [of s] by (simp add: ticks_left_def)
  then have "ticks_left s' = 0" using silent_run [OF assms(1,2) s'(1)] assms(3) by simp
  then have t: "trust s' = 0" "\<not> mixer_servos_armed s'" by (simp_all add: ticks_left_def split: if_splits)
  then have z: "fmu_trust s' = 0" "rc_trust s' = 0" by (simp_all add: trust_def)
  have inv: "drops_ok s'" "servos_known s'" using s'(2) by (simp_all add: io_inv_def)
  have "mixer_input_drops s' = 10"
    using z(2) inv(1) by (auto simp: rc_trust_def drops_ok_def word_le_nat_alt intro: word_unat_eq_iff [THEN iffD2])
  moreover have "\<not> mixer_use_fmu (system_state s')"
    using z(1) inv(1) by (auto simp: fmu_trust_def word_less_nat_alt FMU_INPUT_DROP_LIMIT_def split: if_splits)
  ultimately show ?thesis using s'(1) t(2) inv by (simp add: drops_ok_def servos_known_def)
qed

lemma command_received:
  assumes "io_inv s" "stream s = Some x" "frame_bytes x = 0"
    and "length (servo_command c) = PX4IO_OUTPUT_CHANNELS" "length (relay_state c) = PX4IO_RELAY_CHANNELS"
  obtains x' where "run_steps receive_byte (frame (command_bytes c)) s =
      Some (s\<lparr>stream := Some x', system_state := apply_command c (system_state s)\<rparr>)"
    "frame_bytes x' = 0"
proof -
  have hx: "hx_inv x" and shape: "sys_shape (system_state s)"
    using assms(1,2) by (simp_all add: io_inv_def io_shape_def stream_ok_def)
  have size: "length (command_bytes c) = command_size" "read_command (command_bytes c) = c"
    using command_bytes_size assms(4,5) by blast+
  then have "length (command_bytes c) \<le> HX_STREAM_MAX_FRAME"
    by (simp add: command_size_def px4io_constants HX_STREAM_MAX_FRAME_def)
  then obtain x' junk where x': "run_steps hx_stream_rx (frame (command_bytes c)) x = Some x'"
    "received x' = received x @ junk @ [command_bytes c]" "frame_bytes x = 0 \<Longrightarrow> junk = []" "frame_bytes x' = 0"
    by (rule frame_received [OF _ hx]) blast
  have "received x' = received x @ [command_bytes c]" using x'(2,3) assms(3) by simp
  from receive_frames [OF shape assms(2) x'(1) this] size x'(4) show ?thesis by (intro that) simp_all
qed

lemma report_keeps_receiver:
  assumes "io_inv s" "stream s = Some x"
  obtains s1 x1 where "report_if_due s = Some s1" "io_inv s1" "stream s1 = Some x1" "same_receiver x x1"
    "arm_counter s1 = arm_counter s" "same_arming (system_state s) (system_state s1)"
proof -
  obtain s1 where s1: "report_if_due s = Some s1" "io_inv s1" using report_if_due_inv [OF assms(1)] by blast
  have self: "same_receiver x x" by (simp add: same_receiver_def)
  have "\<exists>x1. stream s1 = Some x1 \<and> same_receiver x x1 \<and> arm_counter s1 = arm_counter s \<and>
      same_arming (system_state s) (system_state s1)"
    using s1(1) assms(2) self hx_send_same [of x]
    by (auto simp: report_if_due_def io_time_def send_report_def Let_def same_arming_def split: if_splits option.splits)
  with s1 that show ?thesis by blast
qed

lemma button_run:
  "k \<le> 10 \<Longrightarrow> arm_counter s = 0 \<Longrightarrow> arm_ok (system_state s) \<noteq> 0 \<Longrightarrow>
   \<exists>s'. run_steps io_step (replicate k (Button True)) s = Some s' \<and> arm_counter s' = of_nat k \<and>
     armed (system_state s') = armed (system_state s) \<and> arm_ok (system_state s') = arm_ok (system_state s) \<and>
     mixer_use_fmu (system_state s') = mixer_use_fmu (system_state s)"
proof (induction k)
  case (Suc k)
  then obtain t where t: "run_steps io_step (replicate k (Button True)) s = Some t" "arm_counter t = of_nat k"
    "armed (system_state t) = armed (system_state s)" "arm_ok (system_state t) = arm_ok (system_state s)"
    "mixer_use_fmu (system_state t) = mixer_use_fmu (system_state s)"
    by auto
  have "(of_nat k :: u32) < 10" using Suc.prems(1) by (simp add: word_less_nat_alt unat_of_nat)
  then have "button_state True t = t\<lparr>arm_counter := of_nat (Suc k)\<rparr>"
    using t(2,4) Suc.prems(3) by (simp add: button_state_def ARM_COUNTER_THRESHOLD_def)
  then have "arm_counter (safety_check_button True t) = of_nat (Suc k) \<and>
      system_state (safety_check_button True t) = system_state t"
    by (simp add: safety_check_button_def gpio_def Let_def)
  then show ?case
    using t unfolding replicate_Suc replicate_append_same [symmetric]
    by (simp add: run_steps_append)
qed simp

lemma button_toggles:
  assumes "arm_counter s = 0" "arm_ok (system_state s) \<noteq> 0"
  shows "\<exists>s'. run_steps io_step (replicate 11 (Button True)) s = Some s' \<and>
    armed (system_state s') = (\<not> armed (system_state s)) \<and>
    mixer_use_fmu (system_state s') = mixer_use_fmu (system_state s)"
proof -
  obtain t where t: "run_steps io_step (replicate 10 (Button True)) s = Some t" "arm_counter t = 10"
    "armed (system_state t) = armed (system_state s)" "arm_ok (system_state t) = arm_ok (system_state s)"
    "mixer_use_fmu (system_state t) = mixer_use_fmu (system_state s)"
    using button_run [of 10 s] assms by auto
  have "armed (system_state (safety_check_button True t)) = (\<not> armed (system_state t))"
    "mixer_use_fmu (system_state (safety_check_button True t)) = mixer_use_fmu (system_state t)"
    using t(2,4) assms(2) by (simp_all add: safety_check_button_def button_state_def gpio_def Let_def ARM_COUNTER_THRESHOLD_def)
  moreover have "replicate 11 (Button True) = replicate 10 (Button True) @ [Button True]"
    by (simp add: numeral_eq_Suc)
  ultimately show ?thesis using t(1,3,5) by (simp add: run_steps_append)
qed

text \<open>The whole way: a frame that allows arming arrives, then the button is held.\<close>

lemma example_arms:
  "\<exists>s. run_steps io_step (Main_turn (frame (command_bytes allow_arming)) # replicate 11 (Button True)) example_io = Some s \<and>
     armed (system_state s) \<and> mixer_use_fmu (system_state s)"
proof -
  obtain s1 x1 where s1: "report_if_due example_io = Some s1" "io_inv s1" "stream s1 = Some x1"
    "same_receiver example_stream x1" "arm_counter s1 = arm_counter example_io"
    "same_arming (system_state example_io) (system_state s1)"
    by (rule report_keeps_receiver [OF example_io_inv example_io_stream])
  have idle: "frame_bytes x1 = 0" "\<not> armed (system_state s1)" "arm_counter s1 = 0"
    using s1(4-6) armed_at_start
    by (simp_all add: same_receiver_def example_stream_def hx_stream_init_def same_arming_def example_io_def)
  obtain x2 where x2: "run_steps receive_byte (frame (command_bytes allow_arming)) s1 =
      Some (s1\<lparr>stream := Some x2, system_state := apply_command allow_arming (system_state s1)\<rparr>)"
    by (rule command_received [OF s1(2,3) idle(1) allow_arming_size])
  let ?s2 = "(print_status \<circ> blink_blue \<circ> blink_amber)
    (s1\<lparr>stream := Some x2, system_state := apply_command allow_arming (system_state s1)\<rparr>)"
  have "io_step (Main_turn (frame (command_bytes allow_arming))) example_io = Some ?s2"
    using s1(1) x2 by (simp add: main_turn_def comms_check_def)
  moreover have sys: "system_state ?s2 = apply_command allow_arming (system_state s1)" by (simp add: blink_fields)
  moreover have "arm_counter ?s2 = 0"
    using idle(3) by (simp add: print_status_def blink_blue_def blink_amber_def gpio_def)
  moreover have "arm_ok (system_state ?s2) \<noteq> 0" "\<not> armed (system_state ?s2)" "mixer_use_fmu (system_state ?s2)"
    unfolding sys using idle(2) by (simp_all add: apply_command_def allow_arming_def)
  ultimately show ?thesis using button_toggles [of ?s2] by auto
qed

text \<open>The next tick of the mixer switches the servos of an armed processor on.\<close>

lemma tick_arms:
  assumes "io_inv s" "fits message" "armed (system_state s)" "mixer_use_fmu (system_state s)"
  shows "\<exists>s'. mixer_tick message s = Some s' \<and> servos_on (servo_log s')"
proof -
  have shape: "io_shape s" "servos_known s" using assms(1) by (simp_all add: io_inv_def)
  obtain y k where 1: "mixer_get_rc_input message s = Some (s\<lparr>system_state := y, mixer_input_drops := k\<rparr>)"
    "sys_shape y" "same_arming (system_state s) y" "mixer_use_fmu y"
    by (rule rc_input_shape [OF shape(1) assms(2)]) (use assms(4) in simp)
  let ?s1 = "s\<lparr>system_state := y, mixer_input_drops := k\<rparr>"
  have s1: "io_shape ?s1" using shape(1) 1(2) by (simp add: io_shape_def)
  obtain inputs count z j where 2: "control_inputs ?s1 = ((inputs, count), ?s1\<lparr>system_state := z, fmu_input_drops := j\<rparr>)"
    "sys_shape z" "same_arming (system_state ?s1) z"
    by (rule control_inputs_shape [OF s1])
  let ?s2 = "?s1\<lparr>system_state := z, fmu_input_drops := j\<rparr>"
  have s2: "io_shape ?s2" using s1 2(2) by (simp add: io_shape_def)
  have "snd (fst (control_inputs ?s1)) = PX4IO_OUTPUT_CHANNELS" using 1(4) by (simp add: control_inputs_def Let_def)
  then have "0 < count" unfolding 2(1) by (simp add: PX4IO_OUTPUT_CHANNELS_def)
  moreover have "armed z" using 1(3) 2(3) assms(3) by (simp add: same_arming_def)
  ultimately obtain s' where s': "mixer_tick message s = Some s'" "mixer_servos_armed s'"
    using mixer_tick_parts [OF shape(1) 1(1) s1 2(1) s2] by (simp add: arm_servos_effect)
  moreover have "servos_known s'" using mixer_tick_ok [OF shape(1) assms(2) shape(2)] s'(1) by auto
  ultimately show ?thesis by (simp add: servos_known_def)
qed

lemma example_flies:
  "\<exists>s. interleaved\<^sup>*\<^sup>* ([], example_io) ([], s) \<and> servos_on (servo_log s)"
proof -
  let ?es = "Main_turn (frame (command_bytes allow_arming)) # replicate 11 (Button True)"
  have ok: "list_all event_ok ?es" by (simp add: event_ok_def list_all_iff)
  obtain s where s: "run_steps io_step ?es example_io = Some s" "armed (system_state s)" "mixer_use_fmu (system_state s)"
    using example_arms by blast
  have "io_inv s" by (rule processor.inv_run_from [OF example_io_inv ok s(1)])
  from tick_arms [OF this _ s(2,3), of None] obtain s' where s': "mixer_tick None s = Some s'" "servos_on (servo_log s')"
    by (auto simp: fits_def)
  have "interleaved ([], s) ([], s')" by (rule Mixer [OF _ s'(1)]) (simp add: fits_def)
  with io_run_interleaved [OF ok s(1)] s'(2) show ?thesis by (meson rtranclp.rtrancl_into_rtrancl)
qed

theorem arming_needs_button_witness:
  "\<exists>us vs. Main_turn (frame (command_bytes allow_arming)) # replicate 11 (Button True) = us @ vs \<and>
     11 \<le> length (takeWhile (\<lambda>b. b) (rev (button_checks us)))"
proof -
  obtain s where s: "run_steps io_step (Main_turn (frame (command_bytes allow_arming)) # replicate 11 (Button True))
      example_io = Some s" "armed (system_state s)"
    using example_arms by blast
  have "list_all event_ok (Main_turn (frame (command_bytes allow_arming)) # replicate 11 (Button True))"
    by (simp add: event_ok_def list_all_iff)
  from arming_needs_button [OF example_io_start this s] show ?thesis .
qed

text \<open>
  C20. Without input the servos are switched off. Whatever the processor went through since its start, with interrupts between
  any two statements of a frame: if no frame and no message of the remote control arrives from then on, the servos are
  disarmed after 12 ticks of the mixer (240 ms), and neither input is trusted any more, whatever the button does.
\<close>

theorem input_loss_disarms:
  assumes "io_start s0" "interleaved\<^sup>*\<^sup>* ([], s0) ([], s)" "list_all silent_event es" "12 \<le> length (filter is_tick es)"
  shows "\<exists>s'. run_steps io_step es s = Some s' \<and> \<not> servos_on (servo_log s') \<and>
    \<not> mixer_use_fmu (system_state s') \<and> rc_channels (system_state s') = 0"
  using silence_disarms [OF interlock_inv [OF interlock_run [OF assms(2) io_start_interlock [OF assms(1)]]] assms(3,4)] .

text \<open>A processor that a frame and the button armed, with its servos on, loses the flight management unit.\<close>

theorem input_loss_disarms_witness:
  "\<exists>s s'. interleaved\<^sup>*\<^sup>* ([], example_io) ([], s) \<and> servos_on (servo_log s) \<and>
    run_steps io_step (concat (replicate 12 [Mixer_tick None, Button True, Main_turn []])) s = Some s' \<and>
    \<not> servos_on (servo_log s')"
proof -
  obtain s where s: "interleaved\<^sup>*\<^sup>* ([], example_io) ([], s)" "servos_on (servo_log s)"
    using example_flies by blast
  have "list_all silent_event (concat (replicate 12 [Mixer_tick None, Button True, Main_turn []]))"
    "12 \<le> length (filter is_tick (concat (replicate 12 [Mixer_tick None, Button True, Main_turn []])))"
    by (simp_all add: silent_event_def silent_def numeral_eq_Suc)
  from input_loss_disarms [OF example_io_start s(1) this] s show ?thesis by blast
qed

text \<open>
  C18. A command of the flight management unit takes effect. The frame that \<open>hx_stream_send\<close> writes for it, read by
  the processor between two frames, sets the outputs, the relays and the permission to arm, disarms without
  that permission and never arms, and selects the flight management unit as source of the outputs.
\<close>

theorem command_takes_effect:
  assumes "io_inv s" "stream s = Some x" "frame_bytes x = 0"
    and "length (servo_command c) = PX4IO_OUTPUT_CHANNELS" "length (relay_state c) = PX4IO_RELAY_CHANNELS"
    and "52 \<le> room (tx_file t)"
  shows "\<exists>t' wire s'. hx_stream_send (command_bytes c) t = (-1, t') \<and>
    written (tx_file t') = written (tx_file t) @ wire \<and> run_steps receive_byte wire s = Some s' \<and>
    system_state s' = (system_state s)\<lparr>armed := armed (system_state s) \<and> cmd_arm_ok c \<noteq> 0, arm_ok := cmd_arm_ok c,
      fmu_channel_data := servo_command c, relays := relay_state c, mixer_use_fmu := True, fmu_data_received := True\<rparr>"
proof -
  obtain x' where x': "run_steps receive_byte (frame (command_bytes c)) s =
      Some (s\<lparr>stream := Some x', system_state := apply_command c (system_state s)\<rparr>)"
    by (rule command_received [OF assms(1-5)])
  have n: "length (command_bytes c) = 21"
    using command_bytes_size(1) [OF assms(4,5)] by (simp add: command_size_def px4io_constants)
  then have "length (frame (command_bytes c)) \<le> room (tx_file t)"
    using frame_length [of "command_bytes c"] assms(6) by simp
  with n have "hx_stream_send (command_bytes c) t = (-1, (sent (frame (command_bytes c)) t)\<lparr>txerror := False\<rparr>)"
    by (intro send_writes) (simp_all add: HX_STREAM_MAX_FRAME_def)
  with x' show ?thesis by (auto simp: apply_command_def)
qed

theorem command_takes_effect_witness:
  "\<exists>t' wire s'. hx_stream_send (command_bytes allow_arming) example_stream = (-1, t') \<and>
     written (tx_file t') = wire \<and> run_steps receive_byte wire example_io = Some s' \<and>
     arm_ok (system_state s') = 1 \<and> fmu_channel_data (system_state s') = [1000, 1100, 1200, 1300, 1400, 1500, 1600, 1700]"
proof -
  have e: "frame_bytes example_stream = 0" "52 \<le> room (tx_file example_stream)" "written (tx_file example_stream) = []"
    by (simp_all add: example_stream_def hx_stream_init_def)
  have a: "cmd_arm_ok allow_arming = 1" "servo_command allow_arming = [1000, 1100, 1200, 1300, 1400, 1500, 1600, 1700]"
    by (simp_all add: allow_arming_def)
  from command_takes_effect [OF example_io_inv example_io_stream e(1) allow_arming_size e(2)] e(3) a
  show ?thesis by fastforce
qed

text \<open>
  Reports reach the flight management unit. A report is sent when more than 5 ms passed since the last one and either news are
  due or more than 100 ms passed; any receiver between two frames gets a packet with the armed flag, the number of channels and
  the values of the channels, and no other. Otherwise nothing is written.
\<close>

theorem report_reaches_fmu:
  assumes "io_inv s" "stream s = Some x" "66 \<le> room (tx_file x)" "hx_inv r" "frame_bytes r = 0"
  shows "\<exists>s' x' wire r'. report_if_due s = Some s' \<and> stream s' = Some x' \<and>
    written (tx_file x') = written (tx_file x) @ wire \<and> run_steps hx_stream_rx wire r = Some r' \<and>
    (let now = io_clock s (io_reads s); delta = now - last_report_time s; y = system_state s
     in if 5000 < delta \<and> (fmu_report_due y \<or> 100000 < delta)
        then last_report_time s' = now \<and> \<not> fmu_report_due (system_state s') \<and>
          (\<exists>b. received r' = received r @ [b] \<and> rep_armed (read_report b) = (if armed y then 1 else 0) \<and>
             channel_count (read_report b) = of_nat (rc_channels y) \<and>
             take (rc_channels y) (rc_channel (read_report b)) = take (rc_channels y) (rc_channel_data y) \<and>
             i2f_magic (read_report b) = i2f_magic (report s))
        else wire = [] \<and> s' = s\<lparr>io_reads := Suc (io_reads s)\<rparr>)"
proof (cases "5000 < io_clock s (io_reads s) - last_report_time s \<and>
    (fmu_report_due (system_state s) \<or> 100000 < io_clock s (io_reads s) - last_report_time s)")
  case True
  let ?y = "system_state s" and ?now = "io_clock s (io_reads s)"
  let ?ch = "take (rc_channels ?y) (rc_channel_data ?y) @ drop (rc_channels ?y) (rc_channel (report s))"
  let ?r = "(report s)\<lparr>rc_channel := ?ch, channel_count := of_nat (rc_channels ?y), rep_armed := (if armed ?y then 1 else 0)\<rparr>"
  let ?b = "report_bytes ?r"
  let ?x = "(sent (frame ?b) x)\<lparr>txerror := False\<rparr>"
  let ?s = "(upd_sys (\<lambda>y. y\<lparr>fmu_report_due := False\<rparr>) (s\<lparr>io_reads := Suc (io_reads s)\<rparr>))
    \<lparr>last_report_time := ?now, report := ?r, stream := Some ?x\<rparr>"
  have len: "rc_channels ?y \<le> length (rc_channel_data ?y)" "rc_channels ?y \<le> length (rc_channel (report s))"
    "length ?ch = PX4IO_INPUT_CHANNELS"
    using assms(1) by (simp_all add: io_inv_def io_shape_def sys_shape_def)
  have b: "length ?b = 28" "read_report ?b = ?r" using len(3) by (simp_all add: report_bytes_read)
  have fits: "length ?b \<le> HX_STREAM_MAX_FRAME" "length (frame ?b) \<le> room (tx_file x)"
    using b(1) frame_length [of ?b] assms(3) by (simp_all add: HX_STREAM_MAX_FRAME_def)
  have "report_if_due s = Some ?s"
    using True assms(2) send_writes [OF fits]
    by (simp add: report_if_due_def io_time_def send_report_def Let_def copy_channels_take [OF len(1,2)]
        FMU_MIN_REPORT_INTERVAL_def FMU_MAX_REPORT_INTERVAL_def)
  moreover obtain r' junk where r': "run_steps hx_stream_rx (frame ?b) r = Some r'"
    "received r' = received r @ junk @ [?b]" "frame_bytes r = 0 \<Longrightarrow> junk = []"
    by (rule frame_received [OF fits(1) assms(4)]) blast
  then have "received r' = received r @ [?b]" using assms(5) by simp
  moreover have "take (rc_channels ?y) ?ch = take (rc_channels ?y) (rc_channel_data ?y)" using len(1) by simp
  ultimately show ?thesis
    using True r'(1) b(2)
    by (intro exI [of _ ?s] exI [of _ ?x] exI [of _ "frame ?b"] exI [of _ r']) (simp add: Let_def)
next
  case False
  then have "report_if_due s = Some (s\<lparr>io_reads := Suc (io_reads s)\<rparr>)"
    by (auto simp: report_if_due_def io_time_def Let_def FMU_MIN_REPORT_INTERVAL_def FMU_MAX_REPORT_INTERVAL_def)
  with False assms(2) show ?thesis
    by (intro exI [of _ "s\<lparr>io_reads := Suc (io_reads s)\<rparr>"] exI [of _ x] exI [of _ "[]"] exI [of _ r]) (simp add: Let_def)
qed

theorem report_reaches_fmu_witness:
  "\<exists>s' x' b r'. report_if_due example_io = Some s' \<and> last_report_time s' = 200000 \<and> stream s' = Some x' \<and>
     run_steps hx_stream_rx (written (tx_file x')) example_stream = Some r' \<and> received r' = [b] \<and> rep_armed (read_report b) = 0 \<and> i2f_magic (read_report b) = I2F_MAGIC"
proof -
  have e: "frame_bytes example_stream = 0" "66 \<le> room (tx_file example_stream)" "received example_stream = []"
    "written (tx_file example_stream) = []"
    by (simp_all add: example_stream_def hx_stream_init_def)
  have s: "io_clock example_io (io_reads example_io) = 200000" "last_report_time example_io = 0"
    "\<not> armed (system_state example_io)" "i2f_magic (report example_io) = I2F_MAGIC"
    by (simp_all add: example_io_def user_start_def comms_init_def blank_io_def gpio_def Let_def)
  show ?thesis
    using report_reaches_fmu [OF example_io_inv example_io_stream e(2) example_stream_inv e(1)]
    unfolding Let_def s e(3,4) append_Nil using s(3) by (simp split: if_splits) blast
qed

text \<open>
  The sticks drive the servos. When the flight management unit is silent and the processor armed, the pulses of a
  transmitter, six frames or more after the receiver started, end up at the servos: the mixer sets output \<open>i\<close>
  to the value of channel \<open>i\<close> of the last frame, and to 0 where the transmitter has no such channel.
\<close>

theorem sticks_drive_servos:
  assumes "map fst es = pulse_train w g t fs" "6 \<le> length fs" "PPM_MIN_START \<le> t" "PPM_MIN_START \<le> g" "w \<le> PPM_MAX_PULSE_WIDTH"
    and "list_all (\<lambda>vs. length vs = n \<and> list_all valid_channel vs) fs" "PPM_MIN_CHANNELS < n" "n \<le> PPM_MAX_CHANNELS"
    and "io_inv s" "armed (system_state s)" "mixer_servos_armed s" "\<not> mixer_use_fmu (system_state s)"
  shows "\<exists>p s'. run_steps decode_edge es ppm_start = Some p \<and> mixer_tick (Some (last (ppm_queue p))) s = Some s' \<and>
    servo_log s' = servo_log s @ map (\<lambda>i. PWM_SERVO_SET i (if i < n then last fs ! i else 0)) [0..<8]"
proof -
  have "ppm_inv ppm_start" by (rule ppm.inv_start) simp
  then obtain p where p: "run_steps decode_edge es ppm_start = Some p" "ppm_queue p = map u16_bytes (drop 5 fs)"
    using train_decoded [of ppm_start t g w n fs es] assms(1-8) by (auto simp: ppm_start_def)
  have m: "last (ppm_queue p) = u16_bytes (last fs)" using p(2) assms(2) by (simp add: last_map)
  have "last fs \<in> set fs" using assms(2) by (intro last_in_set) auto
  then have l: "length (last fs) = n" using assms(6) by (auto simp: list_all_iff)
  then have "last fs \<noteq> []" "length (last fs) \<le> PX4IO_INPUT_CHANNELS"
    using assms(7,8) by (auto simp: ppm_constants px4io_constants)
  then obtain s' where "mixer_tick (Some (u16_bytes (last fs))) s = Some s'"
    "servo_log s' = servo_log s @
      map (\<lambda>i. PWM_SERVO_SET i (output_value (last fs) (length (last fs)) i)) [0..<PX4IO_OUTPUT_CHANNELS]"
    using mixer_tick_rc [OF assms(9,12), of "last fs"] assms(10,11) by auto
  with p(1) m l show ?thesis by (auto simp: output_value_def PX4IO_OUTPUT_CHANNELS_def)
qed

text \<open>A processor armed by hand, without a flight management unit.\<close>

definition armed_io :: io where
  "armed_io = (upd_sys (\<lambda>y. y\<lparr>armed := True, arm_ok := 1\<rparr>) example_io)
     \<lparr>mixer_servos_armed := True, servo_log := [PWM_SERVO_ARM]\<rparr>"

theorem sticks_drive_servos_witness:
  "\<exists>p s'. run_steps decode_edge (map (\<lambda>c. (c, 7)) (pulse_train 300 5000 65000 (replicate 6 [1000, 1100, 1200, 1300, 2000])))
      ppm_start = Some p \<and> mixer_tick (Some (last (ppm_queue p))) armed_io = Some s' \<and>
    servo_log s' = [PWM_SERVO_ARM, PWM_SERVO_SET 0 1000, PWM_SERVO_SET 1 1100, PWM_SERVO_SET 2 1200,
      PWM_SERVO_SET 3 1300, PWM_SERVO_SET 4 2000, PWM_SERVO_SET 5 0, PWM_SERVO_SET 6 0, PWM_SERVO_SET 7 0]"
proof -
  let ?fs = "replicate 6 [1000, 1100, 1200, 1300, 2000 :: u16]"
  have fs: "list_all (\<lambda>vs. length vs = 5 \<and> list_all valid_channel vs) ?fs" "6 \<le> length ?fs"
    by (simp_all add: list_all_iff valid_channel_def ppm_constants)
  have c: "PPM_MIN_START \<le> 65000" "PPM_MIN_START \<le> 5000" "(300 :: u16) \<le> PPM_MAX_PULSE_WIDTH"
    "PPM_MIN_CHANNELS < 5" "5 \<le> PPM_MAX_CHANNELS"
    by (simp_all add: ppm_constants)
  have es: "map fst (map (\<lambda>c. (c, 7 :: u64)) (pulse_train 300 5000 65000 ?fs)) = pulse_train 300 5000 65000 ?fs"
    by (simp add: comp_def)
  have "io_inv armed_io"
    using example_io_inv
    by (simp add: armed_io_def io_inv_def io_shape_def sys_shape_def drops_ok_def servos_known_def servos_on_def)
  moreover have "armed (system_state armed_io)" "mixer_servos_armed armed_io" "servo_log armed_io = [PWM_SERVO_ARM]"
    "\<not> mixer_use_fmu (system_state armed_io)"
    by (simp_all add: armed_io_def example_io_def user_start_def comms_init_def blank_io_def gpio_def Let_def)
  moreover have "last ?fs = [1000, 1100, 1200, 1300, 2000]" by (simp add: numeral_eq_Suc)
  moreover have "[0..<8] = [0, 1, 2, 3, 4, 5, 6, 7 :: nat]" by (simp add: upt_rec)
  ultimately show ?thesis
    using sticks_drive_servos [OF es fs(2) c(1-3) fs(1) c(4,5)] by fastforce
qed

end
