(* ===== verification/Calendar.thy ===== *)
theory Calendar
  imports C_Prelude
begin

text \<open>
  Calendar time: \<open>mktime\<close> and \<open>gmtime_r\<close> of \<open>nuttx/lib/time\<close> with their tables, as this
  configuration builds them (\<open>CONFIG_GREGORIAN_TIME\<close> is off: the simple versions for dates since 1970).
  \<open>time_t\<close> is an unsigned 32-bit number of seconds. The reference counts days from the lengths of the months and the Gregorian
  leap years, independently of the tables of the code.
\<close>

record tm =
  tm_sec :: int
  tm_min :: int
  tm_hour :: int
  tm_mday :: int
  tm_mon :: int
  tm_year :: int

section \<open>The code\<close>

definition clock_isleapyear :: "int \<Rightarrow> bool" where
  "clock_isleapyear year =
     (if year mod 400 \<noteq> 0 then (if year mod 100 \<noteq> 0 then (if year mod 4 \<noteq> 0 then False else True) else False)
      else True)"

definition g_daysbeforemonth :: "int list" where
  "g_daysbeforemonth = [0, 31, 59, 90, 120, 151, 181, 212, 243, 273, 304, 334, 365]"

text \<open>The table has an entry for every month used; another month is read outside of it.\<close>

definition clock_daysbeforemonth :: "int \<Rightarrow> bool \<Rightarrow> int option" where
  "clock_daysbeforemonth month leapyear =
     (if month < 0 then None
      else map_option (\<lambda>retval. if 2 \<le> month \<and> leapyear then retval + 1 else retval)
             (array_get g_daysbeforemonth (nat month)))"

definition mktime :: "tm \<Rightarrow> u32 option" where
  "mktime tp =
     map_option (\<lambda>before.
         let days = word_of_int ((tm_year tp - 70) * 365) + word_of_int ((tm_year tp - 69) div 4) +
               word_of_int before + word_of_int (tm_mday tp - 1)
         in ((days * 24 + word_of_int (tm_hour tp)) * 60 + word_of_int (tm_min tp)) * 60 + word_of_int (tm_sec tp))
       (clock_daysbeforemonth (tm_mon tp) (clock_isleapyear (tm_year tp + 1900)))"

definition year_length :: "int \<Rightarrow> nat" where
  "year_length year = (if clock_isleapyear year then 366 else 365)"

text \<open>The loop over the last years: the years since 1970, and the days left.\<close>

function skip_years :: "nat \<Rightarrow> nat \<Rightarrow> nat \<times> nat" where
  "skip_years val days =
     (if year_length (int val + 1970) \<le> days then skip_years (val + 1) (days - year_length (int val + 1970))
      else (val, days))"
  by pat_completeness auto
termination
  by (relation "measure snd") (auto simp: year_length_def split: if_splits)

declare skip_years.simps [simp del]

text \<open>The binary search of the month, one turn of the loop at a time.\<close>

function find_month :: "nat \<Rightarrow> bool \<Rightarrow> int \<Rightarrow> int \<Rightarrow> int option" where
  "find_month days leapyear mi ma =
     (let val = (mi + ma) div 2
      in case clock_daysbeforemonth (val + 1) leapyear of
           None \<Rightarrow> None
         | Some tmp \<Rightarrow>
             if int days < tmp
             then (case clock_daysbeforemonth val leapyear of
                     None \<Rightarrow> None
                   | Some tmp' \<Rightarrow>
                       if int days < tmp' then if mi < val - 1 then find_month days leapyear mi (val - 1) else Some mi
                       else Some val)
             else if val + 1 < ma then find_month days leapyear (val + 1) ma else Some (val + 1))"
  by pat_completeness auto
termination
  by (relation "measure (\<lambda>(d, l, mi, ma). nat (ma - mi))") auto

declare find_month.simps [simp del]

text \<open>Year, month (from 1) and day (from 1) of a day since 1970.\<close>

definition clock_utc2calendar :: "nat \<Rightarrow> (int \<times> int \<times> int) option" where
  "clock_utc2calendar utc =
     (let periods = utc div (4 * 365 + 1);
          (val, days) = skip_years (4 * periods) (utc - periods * (4 * 365 + 1));
          leapyear = clock_isleapyear (int val + 1970)
      in Option.bind (find_month days leapyear 0 11) (\<lambda>month.
           map_option (\<lambda>before. (1970 + int val, month + 1, int days - before + 1))
             (clock_daysbeforemonth month leapyear)))"

definition gmtime_r :: "u32 \<Rightarrow> tm option" where
  "gmtime_r timer =
     (let epoch = unat timer; jdn = epoch div (24 * (60 * 60)); e1 = epoch - 24 * (60 * 60) * jdn;
          hour = e1 div (60 * 60); e2 = e1 - 60 * 60 * hour; mins = e2 div 60; sec = e2 - 60 * mins
      in map_option (\<lambda>(year, month, day). \<lparr>tm_sec = int sec, tm_min = int mins, tm_hour = int hour,
             tm_mday = day, tm_mon = month - 1, tm_year = year - 1900\<rparr>)
           (clock_utc2calendar jdn))"

section \<open>The calendar as a count of days\<close>

text \<open>
  The reference is stated on its own, from the lengths of the months and the Gregorian rule for leap years; it uses neither
  the table nor the leap test of the code. A year is leap if four divides it, but not a hundred, or if 400 does.
\<close>

definition is_leap :: "int \<Rightarrow> bool" where
  "is_leap year \<longleftrightarrow> 4 dvd year \<and> \<not> 100 dvd year \<or> 400 dvd year"

definition month_days :: "bool \<Rightarrow> nat \<Rightarrow> nat" where
  "month_days leap m = [31, 28, 31, 30, 31, 30, 31, 31, 30, 31, 30, 31] ! m + (if leap \<and> m = 1 then 1 else 0)"

text \<open>Days of a year before its month \<open>m\<close> (from 0), and days before the \<open>k\<close>-th year after 1970.\<close>

fun month_start :: "bool \<Rightarrow> nat \<Rightarrow> nat" where
  "month_start leap 0 = 0"
| "month_start leap (Suc m) = month_start leap m + month_days leap m"

fun days_before_year :: "nat \<Rightarrow> nat" where
  "days_before_year 0 = 0"
| "days_before_year (Suc k) = days_before_year k + month_start (is_leap (1970 + int k)) 12"

definition days_before :: "int \<Rightarrow> bool \<Rightarrow> int" where
  "days_before month leap = int (month_start leap (nat month))"

definition civil_days :: "tm \<Rightarrow> int" where
  "civil_days t = int (days_before_year (nat (tm_year t - 70))) +
     days_before (tm_mon t) (is_leap (tm_year t + 1900)) + tm_mday t - 1"

definition civil_seconds :: "tm \<Rightarrow> int" where
  "civil_seconds t = ((civil_days t * 24 + tm_hour t) * 60 + tm_min t) * 60 + tm_sec t"

definition valid_tm :: "tm \<Rightarrow> bool" where
  "valid_tm t \<longleftrightarrow> 70 \<le> tm_year t \<and> 0 \<le> tm_mon t \<and> tm_mon t < 12 \<and> 1 \<le> tm_mday t \<and>
     tm_mday t \<le> int (month_days (is_leap (tm_year t + 1900)) (nat (tm_mon t))) \<and>
     0 \<le> tm_hour t \<and> tm_hour t < 24 \<and> 0 \<le> tm_min t \<and> tm_min t < 60 \<and> 0 \<le> tm_sec t \<and> tm_sec t < 60"

section \<open>The tables and tests of the code agree with the reference\<close>

lemma clock_isleapyear_is_leap: "clock_isleapyear year = is_leap year"
proof -
  have "100 dvd year" if "400 dvd year" by (rule dvd_trans [OF _ that]) simp
  moreover have "4 dvd year" if "100 dvd year" by (rule dvd_trans [OF _ that]) simp
  ultimately show ?thesis unfolding clock_isleapyear_def is_leap_def dvd_eq_mod_eq_0 by argo
qed

lemma month_cases:
  assumes "0 \<le> (m :: int)" "m \<le> 12"
  obtains "m = 0" | "m = 1" | "m = 2" | "m = 3" | "m = 4" | "m = 5" | "m = 6" | "m = 7" | "m = 8" | "m = 9"
    | "m = 10" | "m = 11" | "m = 12"
proof -
  have "m = 0 \<or> m = 1 \<or> m = 2 \<or> m = 3 \<or> m = 4 \<or> m = 5 \<or> m = 6 \<or> m = 7 \<or> m = 8 \<or> m = 9 \<or> m = 10 \<or>
      m = 11 \<or> m = 12"
    using assms by presburger
  then show ?thesis using that by blast
qed

lemma daysbeforemonth_Some:
  assumes "0 \<le> m" "m \<le> 12"
  shows "clock_daysbeforemonth m l = Some (days_before m l)"
  by (rule month_cases [OF assms])
    (simp_all add: clock_daysbeforemonth_def days_before_def g_daysbeforemonth_def month_days_def numeral_eq_Suc)

lemma days_before_ends: "days_before 0 l = 0" "days_before 12 l = (if l then 366 else 365)"
  by (simp_all add: days_before_def month_days_def numeral_eq_Suc)

lemma days_before_Suc:
  assumes "0 \<le> m"
  shows "days_before (m + 1) l = days_before m l + int (month_days l (nat m))"
  using assms by (simp add: days_before_def nat_add_distrib)

lemma days_before_step:
  assumes "0 \<le> m" "m < 12"
  shows "days_before m l < days_before (m + 1) l"
  unfolding days_before_Suc [OF assms(1)]
  by (rule month_cases [of m]) (use assms in \<open>simp_all add: month_days_def numeral_eq_Suc\<close>)

lemma days_before_mono:
  assumes "0 \<le> m" "m \<le> n" "n \<le> 12"
  shows "days_before m l \<le> days_before n l"
  using assms(2,1,3)
proof (induction n rule: int_ge_induct)
  case (step n)
  then show ?case using days_before_step [of n l] by simp
qed simp

lemma year_length_is: "month_start (is_leap year) 12 = year_length year"
  using days_before_ends(2) [of "is_leap year"]
  by (simp add: days_before_def year_length_def clock_isleapyear_is_leap split: if_splits)

lemma days_before_year_Suc: "days_before_year (Suc k) = days_before_year k + year_length (1970 + int k)"
  by (simp add: year_length_is)

declare days_before_year.simps(2) [simp del] days_before_year_Suc [simp]

text \<open>The reference in terms of the tests of the code.\<close>

lemma civil_days_code:
  "civil_days t = int (days_before_year (nat (tm_year t - 70))) +
     days_before (tm_mon t) (clock_isleapyear (tm_year t + 1900)) + tm_mday t - 1"
  by (simp add: civil_days_def clock_isleapyear_is_leap)

lemma valid_tm_code:
  "valid_tm t \<longleftrightarrow> 70 \<le> tm_year t \<and> 0 \<le> tm_mon t \<and> tm_mon t < 12 \<and> 1 \<le> tm_mday t \<and>
     tm_mday t \<le> days_before (tm_mon t + 1) (clock_isleapyear (tm_year t + 1900)) -
       days_before (tm_mon t) (clock_isleapyear (tm_year t + 1900)) \<and>
     0 \<le> tm_hour t \<and> tm_hour t < 24 \<and> 0 \<le> tm_min t \<and> tm_min t < 60 \<and> 0 \<le> tm_sec t \<and> tm_sec t < 60"
  unfolding valid_tm_def by (auto simp: days_before_Suc clock_isleapyear_is_leap)

section \<open>The search of the month\<close>

lemma find_month_correct:
  "0 \<le> mi \<Longrightarrow> mi \<le> ma \<Longrightarrow> ma \<le> 11 \<Longrightarrow> days_before mi l \<le> int days \<Longrightarrow> int days < days_before (ma + 1) l \<Longrightarrow>
   \<exists>m. find_month days l mi ma = Some m \<and> 0 \<le> m \<and> m \<le> 11 \<and> days_before m l \<le> int days \<and>
     int days < days_before (m + 1) l"
proof (induction days l mi ma rule: find_month.induct)
  case (1 days l mi ma)
  let ?v = "(mi + ma) div 2"
  have v: "mi \<le> ?v" "?v \<le> ma" using 1(4) by auto
  have tabs: "clock_daysbeforemonth (?v + 1) l = Some (days_before (?v + 1) l)"
    "clock_daysbeforemonth ?v l = Some (days_before ?v l)"
    using v 1(3,5) by (intro daysbeforemonth_Some; simp)+
  show ?case
  proof (cases "int days < days_before (?v + 1) l")
    case True
    show ?thesis
    proof (cases "int days < days_before ?v l")
      case below: True
      have "mi \<noteq> ?v" using below 1(6) by auto
      with v have lt: "mi \<le> ?v - 1" by simp
      show ?thesis
      proof (cases "mi < ?v - 1")
        case True
        then show ?thesis
          using 1(1) [OF refl tabs(1) \<open>int days < days_before (?v + 1) l\<close> tabs(2) below True] 1(3,5,6) v below tabs
            \<open>int days < days_before (?v + 1) l\<close>
          by (subst find_month.simps) (simp add: Let_def)
      next
        case False
        with lt have e: "mi + 1 = ?v" by simp
        have "find_month days l mi ma = Some mi"
          using False tabs below \<open>int days < days_before (?v + 1) l\<close> by (subst find_month.simps) (simp add: Let_def)
        moreover have "int days < days_before (mi + 1) l" unfolding e by (rule below)
        ultimately show ?thesis using 1(3-6) by auto
      qed
    next
      case False
      then have "find_month days l mi ma = Some ?v"
        using tabs True by (subst find_month.simps) (simp add: Let_def)
      with False True v 1(3,5) show ?thesis by auto
    qed
  next
    case False
    have "?v \<noteq> ma" using False 1(7) by auto
    with v have lt: "?v + 1 \<le> ma" by simp
    show ?thesis
    proof (cases "?v + 1 < ma")
      case True
      then show ?thesis
        using 1(2) [OF refl tabs(1) False True] 1(3,5,7) v False tabs
        by (subst find_month.simps) (simp add: Let_def)
    next
      case False
      then have "?v + 1 = ma" using lt by simp
      then have "find_month days l mi ma = Some ma"
        using tabs \<open>\<not> int days < days_before (?v + 1) l\<close> by (subst find_month.simps) (simp add: Let_def)
      then show ?thesis using \<open>?v + 1 = ma\<close> \<open>\<not> int days < days_before (?v + 1) l\<close> 1(3-5,7) by auto
    qed
  qed
qed

section \<open>Years\<close>

lemma leap_years: "k \<le> 129 \<Longrightarrow> clock_isleapyear (1970 + int k) = ((k + 2) mod 4 = 0)"
proof -
  have "list_all (\<lambda>k. clock_isleapyear (1970 + int k) = ((k + 2) mod 4 = 0)) [0..<130]" by code_simp
  then show "k \<le> 129 \<Longrightarrow> clock_isleapyear (1970 + int k) = ((k + 2) mod 4 = 0)" by (simp add: list_all_iff)
qed

lemma days_before_year_formula: "k \<le> 130 \<Longrightarrow> days_before_year k = 365 * k + (k + 1) div 4"
proof (induction k)
  case (Suc k)
  have "(k + 2) mod 4 = 0 \<Longrightarrow> (Suc k + 1) div 4 = (k + 1) div 4 + 1"
    "(k + 2) mod 4 \<noteq> 0 \<Longrightarrow> (Suc k + 1) div 4 = (k + 1) div 4" by presburger+
  with Suc leap_years [of k] show ?case by (auto simp: year_length_def)
qed simp

lemma days_before_year_mono: "k \<le> m \<Longrightarrow> days_before_year k \<le> days_before_year m"
  by (induction m rule: dec_induct) simp_all

lemma days_before_year_unique:
  assumes "days_before_year k + d = days_before_year m + e"
    and "d < year_length (1970 + int k)" "e < year_length (1970 + int m)"
  shows "k = m \<and> d = e"
proof -
  have no: "\<not> k' < m'" if "days_before_year k' + d' = days_before_year m' + e'" "d' < year_length (1970 + int k')"
    for k' m' d' e'
    using that days_before_year_mono [of "Suc k'" m'] by auto
  have "k = m" using no [OF assms(1,2)] no [OF assms(1) [symmetric] assms(3)] by simp
  with assms(1) show ?thesis by simp
qed

lemma skip_years_correct:
  "skip_years v d = (v', d') \<Longrightarrow>
   days_before_year v' + d' = days_before_year v + d \<and> d' < year_length (1970 + int v') \<and> v \<le> v'"
proof (induction v d rule: skip_years.induct)
  case (1 v d)
  show ?case
  proof (cases "year_length (int v + 1970) \<le> d")
    case True
    then have "skip_years (v + 1) (d - year_length (int v + 1970)) = (v', d')"
      using 1(2) by (subst (asm) skip_years.simps) simp
    from 1(1) [OF True this] True show ?thesis by (simp add: add.commute)
  next
    case False
    then show ?thesis using 1(2) by (subst (asm) skip_years.simps) (auto simp: add.commute)
  qed
qed

section \<open>Both conversions against the reference\<close>

lemma utc2calendar_correct:
  assumes "utc < 33 * 1461"
  obtains k m d where "clock_utc2calendar utc = Some (1970 + int k, m + 1, d)" "0 \<le> m" "m \<le> 11" "1 \<le> d"
    "d \<le> days_before (m + 1) (clock_isleapyear (1970 + int k)) - days_before m (clock_isleapyear (1970 + int k))"
    "int utc = int (days_before_year k) + days_before m (clock_isleapyear (1970 + int k)) + d - 1"
proof -
  let ?p = "utc div 1461"
  have p: "?p \<le> 32" using assms by (simp add: less_mult_imp_div_less less_Suc_eq_le [symmetric])
  obtain k r where kr: "skip_years (4 * ?p) (utc - ?p * 1461) = (k, r)" by fastforce
  have "(4 * ?p + 1) div 4 = ?p" by simp
  then have "days_before_year (4 * ?p) = 1461 * ?p" using days_before_year_formula [of "4 * ?p"] p by simp
  moreover have "?p * 1461 \<le> utc" by simp
  ultimately have k: "days_before_year k + r = utc" "r < year_length (1970 + int k)"
    using skip_years_correct [OF kr] by (simp_all add: mult.commute)
  let ?l = "clock_isleapyear (1970 + int k)"
  have "int r < days_before (11 + 1) ?l" using k(2) by (simp add: days_before_ends year_length_def split: if_splits)
  then obtain m where m: "find_month r ?l 0 11 = Some m" "0 \<le> m" "m \<le> 11" "days_before m ?l \<le> int r"
    "int r < days_before (m + 1) ?l"
    using find_month_correct [of 0 11 ?l r] by (auto simp: days_before_ends)
  have "clock_utc2calendar utc = Some (1970 + int k, m + 1, int r - days_before m ?l + 1)"
    using kr m(1-3) daysbeforemonth_Some [of m ?l] by (simp add: clock_utc2calendar_def Let_def add.commute mult.commute)
  then show ?thesis using m k(1) by (intro that [of k m "int r - days_before m ?l + 1"]) auto
qed

lemma split_seconds:
  assumes "h = e1 div (60 * 60)" "e2 = e1 mod (60 * 60)" "e1 = s mod (24 * (60 * 60))"
  shows "h < 24" "e2 div 60 < 60" "((s div (24 * (60 * 60)) * 24 + h) * 60 + e2 div 60) * 60 + e2 mod 60 = (s :: nat)"
proof -
  have "e1 < 24 * (60 * 60)" "e2 < 60 * 60" using assms by simp_all
  then show "h < 24" "e2 div 60 < 60" using assms(1) by (simp_all add: less_mult_imp_div_less)
  define q where "q = s div (24 * (60 * 60))"
  define m n where "m = e2 div 60" and "n = e2 mod 60"
  have 1: "s = q * (24 * (60 * 60)) + e1" unfolding assms(3) q_def by (rule div_mult_mod_eq [symmetric])
  have 2: "e1 = h * (60 * 60) + e2" unfolding assms(1,2) by (rule div_mult_mod_eq [symmetric])
  have 3: "e2 = m * 60 + n" unfolding m_def n_def by (rule div_mult_mod_eq [symmetric])
  have "((q * 24 + h) * 60 + m) * 60 + n = q * (24 * (60 * 60)) + (h * (60 * 60) + (m * 60 + n))"
    by (simp add: algebra_simps)
  then have "((q * 24 + h) * 60 + m) * 60 + n = s" by (simp only: 1 2 3)
  then show "((s div (24 * (60 * 60)) * 24 + h) * 60 + e2 div 60) * 60 + e2 mod 60 = s"
    unfolding q_def m_def n_def .
qed

lemma gmtime_r_split:
  "gmtime_r timer = (let s = unat timer; e1 = s mod (24 * (60 * 60)); e2 = e1 mod (60 * 60)
     in map_option (\<lambda>(year, month, day). \<lparr>tm_sec = int (e2 mod 60), tm_min = int (e2 div 60), tm_hour = int (e1 div (60 * 60)),
          tm_mday = day, tm_mon = month - 1, tm_year = year - 1900\<rparr>) (clock_utc2calendar (s div (24 * (60 * 60)))))"
  unfolding gmtime_r_def Let_def minus_mult_div_eq_mod ..

lemma gmtime_correct:
  assumes "unat timer < 33 * 1461 * (24 * (60 * 60))"
  shows "\<exists>t. gmtime_r timer = Some t \<and> valid_tm t \<and> civil_seconds t = uint timer"
proof -
  define s where "s = unat timer"
  define e1 where "e1 = s mod (24 * (60 * 60))"
  define e2 where "e2 = e1 mod (60 * 60)"
  define h where "h = e1 div (60 * 60)"
  note sp = split_seconds [OF h_def e2_def e1_def]
  have "s div (24 * (60 * 60)) < 33 * 1461" using assms by (simp add: s_def less_mult_imp_div_less)
  then obtain k m d where c: "clock_utc2calendar (s div (24 * (60 * 60))) = Some (1970 + int k, m + 1, d)" "0 \<le> m" "m \<le> 11" "1 \<le> d"
    "d \<le> days_before (m + 1) (clock_isleapyear (1970 + int k)) - days_before m (clock_isleapyear (1970 + int k))"
    "int (s div (24 * (60 * 60))) = int (days_before_year k) + days_before m (clock_isleapyear (1970 + int k)) + d - 1"
    by (rule utc2calendar_correct)
  let ?t = "\<lparr>tm_sec = int (e2 mod 60), tm_min = int (e2 div 60), tm_hour = int h, tm_mday = d, tm_mon = m, tm_year = 70 + int k\<rparr>"
  have "gmtime_r timer = Some ?t"
    unfolding gmtime_r_split Let_def s_def [symmetric] e1_def [symmetric] e2_def [symmetric] h_def [symmetric] c(1) by simp
  moreover have "valid_tm ?t" using c(2-5) sp(1,2) by (simp add: valid_tm_code add.commute)
  moreover have "civil_days ?t = int (s div (24 * (60 * 60)))"
    unfolding c(6) by (simp add: civil_days_code add.commute)
  then have "civil_seconds ?t = ((int (s div (24 * (60 * 60))) * 24 + int h) * 60 + int (e2 div 60)) * 60 + int (e2 mod 60)"
    by (simp only: civil_seconds_def tm.select_convs)
  then have "civil_seconds ?t = int (((s div (24 * (60 * 60)) * 24 + h) * 60 + e2 div 60) * 60 + e2 mod 60)"
    by (simp only: of_nat_add of_nat_mult of_nat_numeral)
  then have "civil_seconds ?t = uint timer" unfolding sp(3) by (simp only: s_def uint_nat)
  ultimately show ?thesis by blast
qed

lemma mktime_sum:
  assumes "valid_tm t" "int (days_before_year (nat (tm_year t - 70))) + e = (tm_year t - 70) * 365 + (tm_year t - 69) div 4"
  shows "mktime t = Some (word_of_int (civil_seconds t + e * 86400))"
proof -
  have "clock_daysbeforemonth (tm_mon t) (clock_isleapyear (tm_year t + 1900)) =
      Some (days_before (tm_mon t) (clock_isleapyear (tm_year t + 1900)))"
    using assms(1) by (intro daysbeforemonth_Some) (simp_all add: valid_tm_code)
  moreover have "civil_days t = (tm_year t - 70) * 365 + (tm_year t - 69) div 4 - e +
      days_before (tm_mon t) (clock_isleapyear (tm_year t + 1900)) + (tm_mday t - 1)"
    using assms(2) by (simp add: civil_days_code)
  then have "civil_seconds t + e * 86400 = ((((tm_year t - 70) * 365 + (tm_year t - 69) div 4 +
      days_before (tm_mon t) (clock_isleapyear (tm_year t + 1900)) + (tm_mday t - 1)) * 24 + tm_hour t) * 60 + tm_min t) * 60 +
      tm_sec t"
    by (simp add: civil_seconds_def)
  ultimately show ?thesis by (simp add: mktime_def)
qed

lemma day_of_year:
  assumes "valid_tm t"
  defines "l \<equiv> clock_isleapyear (tm_year t + 1900)"
  shows "0 \<le> days_before (tm_mon t) l" "days_before (tm_mon t) l + tm_mday t - 1 < int (year_length (tm_year t + 1900))"
proof -
  show "0 \<le> days_before (tm_mon t) l"
    using days_before_mono [of 0 "tm_mon t" l] assms(1) by (simp add: valid_tm_code days_before_ends)
  have "days_before (tm_mon t + 1) l \<le> days_before 12 l"
    using assms(1) by (intro days_before_mono) (simp_all add: valid_tm_code)
  then show "days_before (tm_mon t) l + tm_mday t - 1 < int (year_length (tm_year t + 1900))"
    using assms(1) by (cases l) (simp_all add: valid_tm_code days_before_ends year_length_def l_def [symmetric])
qed

lemma civil_range:
  assumes "valid_tm t" "tm_year t \<le> 200"
  shows "0 \<le> civil_seconds t" "civil_seconds t < 33 * 1461 * (24 * (60 * 60))"
proof -
  have "days_before_year (nat (tm_year t - 70)) \<le> days_before_year 130"
    using assms by (intro days_before_year_mono) simp
  moreover have "days_before_year 130 = 47482" using days_before_year_formula [of 130] by simp
  ultimately have "0 \<le> civil_days t" "civil_days t < 33 * 1461"
    using day_of_year [OF assms(1)] assms(1) by (simp_all add: civil_days_code valid_tm_code year_length_def split: if_splits)
  with assms(1) show "0 \<le> civil_seconds t" "civil_seconds t < 33 * 1461 * (24 * (60 * 60))"
    by (simp_all add: civil_seconds_def valid_tm_code)
qed

lemma year_plain:
  assumes "valid_tm t" "tm_year t \<le> 200"
  shows "int (days_before_year (nat (tm_year t - 70))) + 0 = (tm_year t - 70) * 365 + (tm_year t - 69) div 4"
proof -
  obtain k where k: "tm_year t = 70 + int k" using assms(1) zle_iff_zadd [of 70 "tm_year t"] by (auto simp: valid_tm_code)
  then have "k \<le> 130" using assms(2) by simp
  then show ?thesis using days_before_year_formula [of k] k by (simp add: zdiv_int)
qed

lemma mixed_radix:
  assumes "(a * n + r :: int) = a' * n + r'" "0 \<le> r" "r < n" "0 \<le> r'" "r' < n"
  shows "a = a' \<and> r = r'"
proof -
  have "a = (a * n + r) div n" "r = (a * n + r) mod n" "a' = (a' * n + r') div n" "r' = (a' * n + r') mod n"
    using assms(2-5) by simp_all
  then show ?thesis using assms(1) by metis
qed

lemma month_unique:
  assumes "0 \<le> m" "m < 12" "0 \<le> m'" "m' < 12" "days_before m l \<le> x" "x < days_before (m + 1) l"
    and "days_before m' l \<le> x" "x < days_before (m' + 1) l"
  shows "m = m'"
proof -
  have no: "\<not> a < b" if "0 \<le> a" "b < 12" "x < days_before (a + 1) l" "days_before b l \<le> x" for a b
    using days_before_mono [of "a + 1" b l] that by fastforce
  show ?thesis using no [OF assms(1,4,6,7)] no [OF assms(3,2,8,5)] by simp
qed

lemma civil_seconds_inject:
  assumes "valid_tm t" "valid_tm t'" "civil_seconds t = civil_seconds t'"
  shows "t = t'"
proof -
  have 1: "(civil_days t * 24 + tm_hour t) * 60 + tm_min t = (civil_days t' * 24 + tm_hour t') * 60 + tm_min t' \<and>
      tm_sec t = tm_sec t'"
    using assms by (intro mixed_radix [where n = 60]) (simp_all add: civil_seconds_def valid_tm_code)
  then have 2: "civil_days t * 24 + tm_hour t = civil_days t' * 24 + tm_hour t' \<and> tm_min t = tm_min t'"
    using assms(1,2) by (intro mixed_radix [where n = 60]) (simp_all add: valid_tm_code)
  then have 3: "civil_days t = civil_days t' \<and> tm_hour t = tm_hour t'"
    using assms(1,2) by (intro mixed_radix [where n = 24]) (simp_all add: valid_tm_code)
  obtain k where k: "tm_year t = 70 + int k" using assms(1) zle_iff_zadd [of 70 "tm_year t"] by (auto simp: valid_tm_code)
  obtain k' where k': "tm_year t' = 70 + int k'" using assms(2) zle_iff_zadd [of 70 "tm_year t'"] by (auto simp: valid_tm_code)
  let ?l = "clock_isleapyear (tm_year t + 1900)" and ?l' = "clock_isleapyear (tm_year t' + 1900)"
  define d where "d = nat (days_before (tm_mon t) ?l + tm_mday t - 1)"
  define d' where "d' = nat (days_before (tm_mon t') ?l' + tm_mday t' - 1)"
  have d: "int d = days_before (tm_mon t) ?l + tm_mday t - 1" "int d' = days_before (tm_mon t') ?l' + tm_mday t' - 1"
    using day_of_year(1) [OF assms(1)] day_of_year(1) [OF assms(2)] assms(1,2) by (simp_all add: d_def d'_def valid_tm_code)
  have "days_before_year k + d = days_before_year k' + d'"
    using 3 d k k' by (simp add: civil_days_code flip: of_nat_add)
  moreover have "d < year_length (1970 + int k)" "d' < year_length (1970 + int k')"
    using day_of_year(2) [OF assms(1)] day_of_year(2) [OF assms(2)] d k k' by (simp_all add: add.commute)
  ultimately have "k = k'" "d = d'" using days_before_year_unique by blast+
  then have y: "tm_year t = tm_year t'" using k k' by simp
  have x: "days_before (tm_mon t') ?l \<le> int d" "int d < days_before (tm_mon t' + 1) ?l"
    "days_before (tm_mon t) ?l \<le> int d" "int d < days_before (tm_mon t + 1) ?l"
    using d \<open>d = d'\<close> y assms(1,2) by (simp_all add: valid_tm_code)
  have "tm_mon t = tm_mon t'"
    using month_unique [OF _ _ _ _ x(3,4,1,2)] assms(1,2) by (simp add: valid_tm_code)
  then have "tm_mday t = tm_mday t'" using d \<open>d = d'\<close> y by simp
  with 1 2 3 y \<open>tm_mon t = tm_mon t'\<close> show ?thesis by simp
qed

lemma mktime_correct:
  assumes "valid_tm t" "tm_year t \<le> 200"
  shows "\<exists>w. mktime t = Some w \<and> uint w = civil_seconds t"
proof -
  have "mktime t = Some (word_of_int (civil_seconds t))"
    using mktime_sum [OF assms(1) year_plain [OF assms]] by simp
  moreover have "uint (word_of_int (civil_seconds t) :: u32) = civil_seconds t"
    using civil_range [OF assms] by (simp add: unsigned_of_int take_bit_int_eq_self)
  ultimately show ?thesis by blast
qed

text \<open>From 2101 on \<open>mktime\<close> counts 2100 as a leap year and is a day late.\<close>

lemma days_before_year_late:
  "days_before_year 131 = 47847" "days_before_year 132 = 48212" "days_before_year 133 = 48577"
  "days_before_year 134 = 48942" "days_before_year 135 = 49308"
proof -
  note step = days_before_year_Suc year_length_def clock_isleapyear_def
  show 1: "days_before_year 131 = 47847"
    using days_before_year_formula [of 130] step(1) [of 130] by (simp add: step(2,3))
  show 2: "days_before_year 132 = 48212" using 1 step(1) [of 131] by (simp add: step(2,3))
  show 3: "days_before_year 133 = 48577" using 2 step(1) [of 132] by (simp add: step(2,3))
  show 4: "days_before_year 134 = 48942" using 3 step(1) [of 133] by (simp add: step(2,3))
  show "days_before_year 135 = 49308" using 4 step(1) [of 134] by (simp add: step(2,3))
qed

lemma mktime_2101:
  assumes "valid_tm t" "201 \<le> tm_year t" "tm_year t \<le> 205"
  shows "mktime t = Some (word_of_int (civil_seconds t + 86400))"
proof -
  have "tm_year t = 201 \<or> tm_year t = 202 \<or> tm_year t = 203 \<or> tm_year t = 204 \<or> tm_year t = 205"
    using assms(2,3) by linarith
  then have "int (days_before_year (nat (tm_year t - 70))) + 1 = (tm_year t - 70) * 365 + (tm_year t - 69) div 4"
    by (elim disjE) (simp_all add: days_before_year_late del: days_before_year_Suc)
  from mktime_sum [OF assms(1) this] show ?thesis by simp
qed

section \<open>Properties\<close>

text \<open>
  C22. Calendar times survive the conversion to seconds and back: for every valid time of the years 1970 to 2100, \<open>mktime\<close>
  gives the seconds since 1970 by the count of days, and \<open>gmtime_r\<close> gives the time back.
\<close>

theorem calendar_round_trip:
  assumes "valid_tm t" "tm_year t \<le> 200"
  shows "\<exists>w. mktime t = Some w \<and> uint w = civil_seconds t \<and> gmtime_r w = Some t"
proof -
  obtain w where w: "mktime t = Some w" "uint w = civil_seconds t" using mktime_correct [OF assms] by blast
  have "int (unat w) < int (33 * 1461 * (24 * (60 * 60)))"
    using civil_range(2) [OF assms] w(2) by simp
  then have "unat w < 33 * 1461 * (24 * (60 * 60))" by (rule of_nat_less_imp_less)
  from gmtime_correct [OF this] obtain t' where t': "gmtime_r w = Some t'" "valid_tm t'" "civil_seconds t' = uint w"
    by blast
  then have "t' = t" using civil_seconds_inject [OF t'(2) assms(1)] w(2) by simp
  with w t'(1) show ?thesis by blast
qed

theorem calendar_round_trip_witness:
  "\<exists>w. mktime \<lparr>tm_sec = 59, tm_min = 59, tm_hour = 23, tm_mday = 29, tm_mon = 1, tm_year = 112\<rparr> = Some w \<and>
     gmtime_r w = Some \<lparr>tm_sec = 59, tm_min = 59, tm_hour = 23, tm_mday = 29, tm_mon = 1, tm_year = 112\<rparr>"
proof -
  have "valid_tm \<lparr>tm_sec = 59, tm_min = 59, tm_hour = 23, tm_mday = 29, tm_mon = 1, tm_year = 112\<rparr>"
    by (simp add: valid_tm_def month_days_def is_leap_def)
  from calendar_round_trip [OF this] show ?thesis by auto
qed

text \<open>
  C23. \<open>gmtime_r\<close> is the calendar: up to the second of January 2102 it terminates with a valid time whose count of
  seconds is the argument, with the search for the month staying in its table; \<open>mktime\<close> inverts it up to the
  year 2100.
\<close>

theorem gmtime_is_calendar:
  assumes "unat timer < 33 * 1461 * 86400"
  shows "\<exists>t. gmtime_r timer = Some t \<and> valid_tm t \<and> civil_seconds t = uint timer \<and>
    (tm_year t \<le> 200 \<longrightarrow> mktime t = Some timer)"
proof -
  obtain t where t: "gmtime_r timer = Some t" "valid_tm t" "civil_seconds t = uint timer"
    using gmtime_correct [of timer] assms by auto
  moreover have "mktime t = Some timer" if "tm_year t \<le> 200"
    using mktime_correct [OF t(2) that] t(3) by (auto intro: word_uint_eqI)
  ultimately show ?thesis by blast
qed

theorem gmtime_is_calendar_witness:
  "\<exists>t. gmtime_r 1356998399 = Some t \<and> valid_tm t \<and> civil_seconds t = 1356998399"
  using gmtime_is_calendar [of 1356998399] by auto

end
