(* ===== verification/Queue.thy ===== *)
theory Queue
  imports C_Prelude
begin

text \<open>
  The linked queues of \<open>nuttx/lib/queue\<close>: singly linked (\<open>sq_*\<close>) and doubly linked
  (\<open>dq_*\<close>). An entry is its address, of any type; the links of all entries are functions from
  addresses to pointers, where \<open>None\<close> is \<open>NULL\<close>. A dereference of \<open>NULL\<close> and
  a walk over the links that does not end are \<open>None\<close> as results of an operation. Both kinds are shown to implement lists.
\<close>

section \<open>Singly linked queues\<close>

record 'p sq =
  sq_head :: "'p option"
  sq_tail :: "'p option"
  sq_flink :: "'p \<Rightarrow> 'p option"

definition sq_init :: "'p sq \<Rightarrow> 'p sq" where
  "sq_init q = q\<lparr>sq_head := None, sq_tail := None\<rparr>"

definition sq_addfirst :: "'p \<Rightarrow> 'p sq \<Rightarrow> 'p sq" where
  "sq_addfirst node q =
     q\<lparr>sq_head := Some node, sq_tail := if sq_head q = None then Some node else sq_tail q,
       sq_flink := (sq_flink q)(node := sq_head q)\<rparr>"

definition sq_addlast :: "'p \<Rightarrow> 'p sq \<Rightarrow> 'p sq option" where
  "sq_addlast node q =
     (let links = (sq_flink q)(node := None)
      in if sq_head q = None
         then Some (q\<lparr>sq_head := Some node, sq_tail := Some node, sq_flink := links\<rparr>)
         else map_option (\<lambda>t. q\<lparr>sq_tail := Some node, sq_flink := links(t := Some node)\<rparr>) (sq_tail q))"

definition sq_addafter :: "'p \<Rightarrow> 'p \<Rightarrow> 'p sq \<Rightarrow> 'p sq option" where
  "sq_addafter prev node q =
     (if sq_head q = None \<or> Some prev = sq_tail q then sq_addlast node q
      else Some (q\<lparr>sq_flink := (sq_flink q)(node := sq_flink q prev, prev := Some node)\<rparr>))"

definition sq_remafter :: "'p \<Rightarrow> 'p sq \<Rightarrow> 'p option \<times> 'p sq" where
  "sq_remafter node q =
     (let ret = sq_flink q node
      in (ret, case ret of
           Some r \<Rightarrow>
             if sq_head q \<noteq> None
             then (if sq_tail q = Some r
                   then q\<lparr>sq_tail := Some node, sq_flink := (sq_flink q)(node := None, r := None)\<rparr>
                   else q\<lparr>sq_flink := (sq_flink q)(node := sq_flink q r, r := None)\<rparr>)
             else q
         | None \<Rightarrow> q))"

text \<open>The walk to the entry before \<open>node\<close>; \<open>Some None\<close> when the end was reached without finding it.\<close>

partial_function (option) sq_prev :: "('p \<Rightarrow> 'p option) \<Rightarrow> 'p \<Rightarrow> 'p option \<Rightarrow> 'p option option" where
  "sq_prev links node prev =
     (case prev of None \<Rightarrow> Some None
      | Some p \<Rightarrow> if links p \<noteq> Some node then sq_prev links node (links p) else Some (Some p))"

definition sq_rem :: "'p \<Rightarrow> 'p sq \<Rightarrow> 'p sq option" where
  "sq_rem node q =
     (if sq_head q \<noteq> None
      then (if sq_head q = Some node
            then Some (q\<lparr>sq_head := sq_flink q node, sq_tail := if sq_tail q = Some node then None else sq_tail q\<rparr>)
            else map_option (\<lambda>prev. case prev of None \<Rightarrow> q | Some p \<Rightarrow> snd (sq_remafter p q))
                   (sq_prev (sq_flink q) node (sq_head q)))
      else Some q)"

definition sq_remfirst :: "'p sq \<Rightarrow> 'p option \<times> 'p sq" where
  "sq_remfirst q =
     (case sq_head q of
        None \<Rightarrow> (None, q)
      | Some ret \<Rightarrow>
          (Some ret, q\<lparr>sq_head := sq_flink q ret, sq_tail := if sq_flink q ret = None then None else sq_tail q,
                       sq_flink := (sq_flink q)(ret := None)\<rparr>))"

definition sq_remlast :: "'p sq \<Rightarrow> ('p option \<times> 'p sq) option" where
  "sq_remlast q =
     (case sq_tail q of
        None \<Rightarrow> Some (None, q)
      | Some ret \<Rightarrow>
          map_option (\<lambda>q'. (Some ret, q'\<lparr>sq_flink := (sq_flink q')(ret := None)\<rparr>))
            (if sq_head q = sq_tail q then Some (q\<lparr>sq_head := None, sq_tail := None\<rparr>)
             else map_option (\<lambda>prev. case prev of None \<Rightarrow> q
                      | Some p \<Rightarrow> q\<lparr>sq_tail := Some p, sq_flink := (sq_flink q)(p := None)\<rparr>)
                    (sq_prev (sq_flink q) ret (sq_head q))))"

section \<open>Doubly linked queues\<close>

record 'p dq =
  dq_head :: "'p option"
  dq_tail :: "'p option"
  dq_flink :: "'p \<Rightarrow> 'p option"
  dq_blink :: "'p \<Rightarrow> 'p option"

definition dq_addfirst :: "'p \<Rightarrow> 'p dq \<Rightarrow> 'p dq" where
  "dq_addfirst node q =
     (let forth = (dq_flink q)(node := dq_head q); back = (dq_blink q)(node := None)
      in case dq_head q of
           None \<Rightarrow> q\<lparr>dq_head := Some node, dq_tail := Some node, dq_flink := forth, dq_blink := back\<rparr>
         | Some h \<Rightarrow> q\<lparr>dq_head := Some node, dq_flink := forth, dq_blink := back(h := Some node)\<rparr>)"

definition dq_addlast :: "'p \<Rightarrow> 'p dq \<Rightarrow> 'p dq option" where
  "dq_addlast node q =
     (let forth = (dq_flink q)(node := None); back = (dq_blink q)(node := dq_tail q)
      in if dq_head q = None
         then Some (q\<lparr>dq_head := Some node, dq_tail := Some node, dq_flink := forth, dq_blink := back\<rparr>)
         else map_option (\<lambda>t. q\<lparr>dq_tail := Some node, dq_flink := forth(t := Some node), dq_blink := back\<rparr>) (dq_tail q))"

definition dq_addafter :: "'p \<Rightarrow> 'p \<Rightarrow> 'p dq \<Rightarrow> 'p dq option" where
  "dq_addafter prev node q =
     (if dq_head q = None \<or> Some prev = dq_tail q then dq_addlast node q
      else map_option (\<lambda>next. q\<lparr>dq_flink := (dq_flink q)(node := Some next, prev := Some node),
                                dq_blink := (dq_blink q)(node := Some prev, next := Some node)\<rparr>)
             (dq_flink q prev))"

definition dq_addbefore :: "'p \<Rightarrow> 'p \<Rightarrow> 'p dq \<Rightarrow> 'p dq option" where
  "dq_addbefore next node q =
     (if dq_head q = None \<or> Some next = dq_head q then Some (dq_addfirst node q)
      else map_option (\<lambda>prev. q\<lparr>dq_flink := (dq_flink q)(node := Some next, prev := Some node),
                                dq_blink := (dq_blink q)(node := Some prev, next := Some node)\<rparr>)
             (dq_blink q next))"

definition dq_rem :: "'p \<Rightarrow> 'p dq \<Rightarrow> 'p dq" where
  "dq_rem node q =
     (let prev = dq_blink q node; next = dq_flink q node;
          q1 = (case prev of None \<Rightarrow> q\<lparr>dq_head := next\<rparr> | Some p \<Rightarrow> q\<lparr>dq_flink := (dq_flink q)(p := next)\<rparr>);
          q2 = (case next of None \<Rightarrow> q1\<lparr>dq_tail := prev\<rparr> | Some n \<Rightarrow> q1\<lparr>dq_blink := (dq_blink q1)(n := prev)\<rparr>)
      in q2\<lparr>dq_flink := (dq_flink q2)(node := None), dq_blink := (dq_blink q2)(node := None)\<rparr>)"

definition dq_remfirst :: "'p dq \<Rightarrow> 'p option \<times> 'p dq" where
  "dq_remfirst q =
     (case dq_head q of
        None \<Rightarrow> (None, q)
      | Some ret \<Rightarrow>
          (let q1 = (case dq_flink q ret of
                       None \<Rightarrow> q\<lparr>dq_head := None, dq_tail := None\<rparr>
                     | Some next \<Rightarrow> q\<lparr>dq_head := Some next, dq_blink := (dq_blink q)(next := None)\<rparr>)
           in (Some ret, q1\<lparr>dq_flink := (dq_flink q1)(ret := None), dq_blink := (dq_blink q1)(ret := None)\<rparr>)))"

definition dq_remlast :: "'p dq \<Rightarrow> 'p option \<times> 'p dq" where
  "dq_remlast q =
     (case dq_tail q of
        None \<Rightarrow> (None, q)
      | Some ret \<Rightarrow>
          (let q1 = (case dq_blink q ret of
                       None \<Rightarrow> q\<lparr>dq_head := None, dq_tail := None\<rparr>
                     | Some prev \<Rightarrow> q\<lparr>dq_tail := Some prev, dq_flink := (dq_flink q)(prev := None)\<rparr>)
           in (Some ret, q1\<lparr>dq_flink := (dq_flink q1)(ret := None), dq_blink := (dq_blink q1)(ret := None)\<rparr>)))"

section \<open>The list at a pointer\<close>

text \<open>The entries met on the way from \<open>p\<close> to \<open>e\<close> along the links.\<close>

fun path :: "('p \<Rightarrow> 'p option) \<Rightarrow> 'p option \<Rightarrow> 'p list \<Rightarrow> 'p option \<Rightarrow> bool" where
  "path f p [] e = (p = e)"
| "path f p (x # xs) e = (p = Some x \<and> path f (f x) xs e)"

definition last_entry :: "'p list \<Rightarrow> 'p option" where
  "last_entry xs = (if xs = [] then None else Some (last xs))"

definition sq_repr :: "'p sq \<Rightarrow> 'p list \<Rightarrow> bool" where
  "sq_repr q xs \<longleftrightarrow> path (sq_flink q) (sq_head q) xs None \<and> distinct xs \<and> sq_tail q = last_entry xs"

definition dq_repr :: "'p dq \<Rightarrow> 'p list \<Rightarrow> bool" where
  "dq_repr q xs \<longleftrightarrow> path (dq_flink q) (dq_head q) xs None \<and> path (dq_blink q) (dq_tail q) (rev xs) None \<and> distinct xs"

lemma path_append [simp]: "path f p (xs @ ys) e \<longleftrightarrow> (\<exists>m. path f p xs m \<and> path f m ys e)"
  by (induction xs arbitrary: p) auto

lemma path_upd [simp]: "n \<notin> set xs \<Longrightarrow> path (f(n := v)) p xs e = path f p xs e"
  by (induction xs arbitrary: p) auto

lemma path_None [simp]: "path f None xs None \<longleftrightarrow> xs = []"
  by (cases xs) auto

lemma last_entry_simps [simp]: "last_entry [] = None" "last_entry (xs @ [x]) = Some x"
  "last_entry (xs @ y # ys) = Some (last (y # ys))" "last_entry (x # xs) = Some (last (x # xs))"
  by (simp_all add: last_entry_def)

lemma last_entry_None [simp]: "last_entry xs = None \<longleftrightarrow> xs = []" "None = last_entry xs \<longleftrightarrow> xs = []"
  by (simp_all add: last_entry_def)

text \<open>A path that ends determines its entries and never meets one twice.\<close>

lemma path_unique: "path f p xs None \<Longrightarrow> path f p ys None \<Longrightarrow> xs = ys"
proof (induction xs arbitrary: p ys)
  case (Cons x xs)
  then show ?case by (cases ys) auto
qed simp

lemma path_distinct: "path f p xs None \<Longrightarrow> distinct xs"
proof (induction xs arbitrary: p)
  case (Cons x xs)
  have "x \<notin> set xs"
  proof
    assume "x \<in> set xs"
    then obtain ys zs where xs: "xs = ys @ x # zs" by (meson split_list)
    then have "path f (f x) (ys @ x # zs) None" "path f (f x) zs None" using Cons.prems by auto
    then have "ys @ x # zs = zs" by (rule path_unique)
    then have "length (ys @ x # zs) = length zs" by (rule arg_cong)
    then show False by simp
  qed
  with Cons show ?case by auto
qed simp

section \<open>Every operation as an operation on lists\<close>

lemma sq_reprI:
  assumes "path (sq_flink q) (sq_head q) xs None" "sq_tail q = last_entry xs"
  shows "sq_repr q xs"
  using assms path_distinct by (auto simp: sq_repr_def)

lemma sq_init_repr: "sq_repr (sq_init q) []"
  by (simp add: sq_init_def sq_repr_def)

lemma sq_head_repr: "sq_repr q xs \<Longrightarrow> sq_head q = (case xs of [] \<Rightarrow> None | x # _ \<Rightarrow> Some x)"
  by (cases xs) (auto simp: sq_repr_def)

lemma sq_addfirst_repr: "sq_repr q xs \<Longrightarrow> n \<notin> set xs \<Longrightarrow> sq_repr (sq_addfirst n q) (n # xs)"
  by (cases xs) (auto simp: sq_repr_def sq_addfirst_def)

lemma sq_addlast_repr:
  assumes "sq_repr q xs" "n \<notin> set xs"
  shows "\<exists>q'. sq_addlast n q = Some q' \<and> sq_repr q' (xs @ [n])"
proof (cases xs rule: rev_cases)
  case Nil
  then show ?thesis using assms by (auto simp: sq_repr_def sq_addlast_def)
next
  case (snoc ys y)
  then show ?thesis using assms by (cases ys) (auto simp: sq_repr_def sq_addlast_def)
qed

fun insert_after :: "'p \<Rightarrow> 'p \<Rightarrow> 'p list \<Rightarrow> 'p list" where
  "insert_after p n [] = []"
| "insert_after p n (x # xs) = (if x = p then x # n # xs else x # insert_after p n xs)"

lemma insert_after_middle [simp]: "p \<notin> set ys \<Longrightarrow> insert_after p n (ys @ p # zs) = ys @ p # n # zs"
  by (induction ys) auto

lemma insert_after_last: "p \<notin> set ys \<Longrightarrow> insert_after p n (ys @ [p]) = ys @ [p, n]"
  by simp

lemma sq_addafter_repr:
  assumes "sq_repr q xs" "n \<notin> set xs" "p \<in> set xs"
  shows "\<exists>q'. sq_addafter p n q = Some q' \<and> sq_repr q' (insert_after p n xs)"
proof -
  obtain ys zs where xs: "xs = ys @ p # zs" using assms(3) by (meson split_list)
  have d: "p \<notin> set ys" "distinct zs" "p \<notin> set zs" using assms(1) by (auto simp: sq_repr_def xs)
  have h: "sq_head q \<noteq> None" using sq_head_repr [OF assms(1)] by (auto simp: xs split: list.split)
  show ?thesis
  proof (cases zs)
    case Nil
    then have "sq_addafter p n q = sq_addlast n q" using assms(1) by (simp add: sq_addafter_def sq_repr_def xs)
    then show ?thesis using sq_addlast_repr [OF assms(1,2)] d by (simp add: xs Nil)
  next
    case (Cons z zs')
    then have "sq_tail q \<noteq> Some p" using assms(1) by (auto simp: sq_repr_def xs)
    then show ?thesis using assms h d by (auto simp: sq_addafter_def sq_repr_def xs Cons)
  qed
qed

lemma sq_remfirst_repr:
  assumes "sq_repr q xs"
  shows "\<exists>q'. sq_remfirst q = (case xs of [] \<Rightarrow> None | x # _ \<Rightarrow> Some x, q') \<and> sq_repr q' (tl xs)"
proof (cases xs)
  case (Cons x ys)
  then show ?thesis using assms by (cases ys) (auto simp: sq_repr_def sq_remfirst_def)
qed (use assms in \<open>simp add: sq_repr_def sq_remfirst_def\<close>)

lemma sq_prev_found:
  "path f p (xs @ [x]) (Some n) \<Longrightarrow> n \<notin> set (xs @ [x]) \<Longrightarrow> sq_prev f n p = Some (Some x)"
proof (induction xs arbitrary: p)
  case Nil
  then show ?case by (subst sq_prev.simps) simp
next
  case (Cons y ys)
  then have "f y \<noteq> Some n" by (cases ys) auto
  with Cons show ?case by (subst sq_prev.simps) simp
qed

lemma sq_prev_absent: "path f p xs None \<Longrightarrow> n \<notin> set xs \<Longrightarrow> sq_prev f n p = Some None"
proof (induction xs arbitrary: p)
  case Nil
  then show ?case by (subst sq_prev.simps) simp
next
  case (Cons y ys)
  then have "f y \<noteq> Some n" by (cases ys) auto
  with Cons show ?case by (subst sq_prev.simps) simp
qed

lemma sq_remafter_repr:
  assumes "sq_repr q (ys @ p # n # zs)"
  shows "fst (sq_remafter p q) = Some n \<and> sq_repr (snd (sq_remafter p q)) (ys @ p # zs)"
proof (cases zs rule: rev_cases)
  case Nil
  then show ?thesis using assms by (cases ys) (auto simp: sq_repr_def sq_remafter_def Let_def)
next
  case (snoc vs w)
  then show ?thesis using assms by (cases ys) (auto simp: sq_repr_def sq_remafter_def Let_def)
qed

lemma sq_rem_repr:
  assumes "sq_repr q xs"
  shows "\<exists>q'. sq_rem n q = Some q' \<and> sq_repr q' (remove1 n xs)"
proof (cases "n \<in> set xs")
  case True
  then obtain ys zs where xs: "xs = ys @ n # zs" by (meson split_list)
  have d: "n \<notin> set ys" "n \<notin> set zs" using assms by (auto simp: sq_repr_def xs)
  show ?thesis
  proof (cases ys rule: rev_cases)
    case Nil
    then show ?thesis using assms by (cases zs) (auto simp: sq_repr_def sq_rem_def xs)
  next
    case (snoc us u)
    have "path (sq_flink q) (sq_head q) (us @ [u]) (Some n)" using assms by (auto simp: sq_repr_def xs snoc)
    from sq_prev_found [OF this] have "sq_prev (sq_flink q) n (sq_head q) = Some (Some u)" using d by (simp add: snoc)
    moreover have "sq_head q \<noteq> None" "sq_head q \<noteq> Some n"
      using sq_head_repr [OF assms] d(1) by (auto simp: xs snoc split: list.split) (cases us; simp)+
    ultimately show ?thesis using sq_remafter_repr [of q us u n zs] assms d(1)
      by (simp add: sq_rem_def xs snoc remove1_append)
  qed
next
  case False
  then have "sq_prev (sq_flink q) n (sq_head q) = Some None"
    using assms by (intro sq_prev_absent) (auto simp: sq_repr_def)
  moreover have "sq_head q \<noteq> Some n" using sq_head_repr [OF assms] False by (cases xs) auto
  ultimately show ?thesis using assms False by (simp add: sq_rem_def remove1_idem)
qed

lemma sq_remlast_repr:
  assumes "sq_repr q xs"
  shows "\<exists>q'. sq_remlast q = Some (last_entry xs, q') \<and> sq_repr q' (butlast xs)"
proof (cases xs rule: rev_cases)
  case (snoc ys y)
  show ?thesis
  proof (cases ys rule: rev_cases)
    case Nil
    then show ?thesis using assms by (auto simp: sq_repr_def sq_remlast_def snoc)
  next
    case us: (snoc us u)
    have "path (sq_flink q) (sq_head q) (us @ [u]) (Some y)" using assms by (auto simp: sq_repr_def snoc us)
    from sq_prev_found [OF this] have "sq_prev (sq_flink q) y (sq_head q) = Some (Some u)"
      using assms by (auto simp: sq_repr_def snoc us)
    moreover have "sq_head q \<noteq> sq_tail q"
      using sq_head_repr [OF assms] assms by (cases us) (auto simp: sq_repr_def snoc us)
    moreover have "sq_tail q = Some y" using assms by (simp add: sq_repr_def snoc)
    ultimately show ?thesis using assms
      by (auto simp: sq_remlast_def sq_repr_def snoc us butlast_append)
  qed
qed (use assms in \<open>simp add: sq_repr_def sq_remlast_def\<close>)

text \<open>The doubly linked queue: the links backwards from the tail are the reverse list.\<close>

lemma dq_reprI:
  "path (dq_flink q) (dq_head q) xs None \<Longrightarrow> path (dq_blink q) (dq_tail q) (rev xs) None \<Longrightarrow> dq_repr q xs"
  using path_distinct by (auto simp: dq_repr_def)

lemma dq_head_repr: "dq_repr q xs \<Longrightarrow> dq_head q = (case xs of [] \<Rightarrow> None | x # _ \<Rightarrow> Some x)"
  by (cases xs) (auto simp: dq_repr_def)

lemma dq_tail_repr: "dq_repr q xs \<Longrightarrow> dq_tail q = last_entry xs"
  by (cases xs rule: rev_cases) (auto simp: dq_repr_def)

lemma dq_addfirst_repr: "dq_repr q xs \<Longrightarrow> n \<notin> set xs \<Longrightarrow> dq_repr (dq_addfirst n q) (n # xs)"
  by (cases xs) (auto simp: dq_repr_def dq_addfirst_def Let_def)

lemma dq_addlast_repr:
  assumes "dq_repr q xs" "n \<notin> set xs"
  shows "\<exists>q'. dq_addlast n q = Some q' \<and> dq_repr q' (xs @ [n])"
proof (cases xs rule: rev_cases)
  case Nil
  then show ?thesis using assms by (auto simp: dq_repr_def dq_addlast_def)
next
  case (snoc ys y)
  have "dq_head q \<noteq> None" using dq_head_repr [OF assms(1)] by (cases ys) (auto simp: snoc)
  then show ?thesis using assms by (auto simp: dq_repr_def dq_addlast_def Let_def snoc)
qed

lemma dq_addafter_repr:
  assumes "dq_repr q xs" "n \<notin> set xs" "p \<in> set xs"
  shows "\<exists>q'. dq_addafter p n q = Some q' \<and> dq_repr q' (insert_after p n xs)"
proof -
  obtain ys zs where xs: "xs = ys @ p # zs" using assms(3) by (meson split_list)
  have d: "p \<notin> set ys" "distinct zs" "p \<notin> set zs" using assms(1) by (auto simp: dq_repr_def xs)
  have h: "dq_head q \<noteq> None" using dq_head_repr [OF assms(1)] by (auto simp: xs split: list.split)
  show ?thesis
  proof (cases zs)
    case Nil
    then have "dq_addafter p n q = dq_addlast n q" using dq_tail_repr [OF assms(1)] by (simp add: dq_addafter_def xs)
    then show ?thesis using dq_addlast_repr [OF assms(1,2)] d by (simp add: xs Nil)
  next
    case (Cons z zs')
    then have "dq_tail q \<noteq> Some p" using dq_tail_repr [OF assms(1)] d(3) by (auto simp: xs split: if_splits)
    then show ?thesis using assms h d by (auto simp: dq_addafter_def dq_repr_def xs Cons)
  qed
qed

lemma dq_addbefore_repr:
  assumes "dq_repr q (ys @ p # zs)" "n \<notin> set (ys @ p # zs)"
  shows "\<exists>q'. dq_addbefore p n q = Some q' \<and> dq_repr q' (ys @ n # p # zs)"
proof (cases ys rule: rev_cases)
  case Nil
  then have "dq_addbefore p n q = Some (dq_addfirst n q)"
    using dq_head_repr [OF assms(1)] by (simp add: dq_addbefore_def)
  then show ?thesis using dq_addfirst_repr [OF assms] by (simp add: Nil)
next
  case (snoc us u)
  have "dq_head q \<noteq> None" "dq_head q \<noteq> Some p"
    using dq_head_repr [OF assms(1)] assms(1) by (cases us; auto simp: snoc dq_repr_def)+
  then show ?thesis using assms by (auto simp: dq_addbefore_def dq_repr_def snoc)
qed

lemma dq_rem_repr:
  assumes "dq_repr q xs" "n \<in> set xs"
  shows "dq_repr (dq_rem n q) (remove1 n xs)"
proof -
  obtain ys zs where xs: "xs = ys @ n # zs" using assms(2) by (meson split_list)
  have "n \<notin> set ys" using assms(1) by (auto simp: dq_repr_def xs)
  then show ?thesis using assms(1)
    by (cases ys rule: rev_cases; cases zs) (auto simp: dq_repr_def dq_rem_def Let_def xs remove1_append)
qed

lemma dq_remfirst_repr:
  assumes "dq_repr q xs"
  shows "\<exists>q'. dq_remfirst q = (case xs of [] \<Rightarrow> None | x # _ \<Rightarrow> Some x, q') \<and> dq_repr q' (tl xs)"
proof (cases xs)
  case (Cons x ys)
  then show ?thesis using assms by (cases ys) (auto simp: dq_repr_def dq_remfirst_def Let_def)
qed (use assms in \<open>simp add: dq_repr_def dq_remfirst_def\<close>)

lemma dq_remlast_repr:
  assumes "dq_repr q xs"
  shows "\<exists>q'. dq_remlast q = (last_entry xs, q') \<and> dq_repr q' (butlast xs)"
proof (cases xs rule: rev_cases)
  case (snoc ys y)
  then show ?thesis using assms
    by (cases ys rule: rev_cases) (auto simp: dq_repr_def dq_remlast_def Let_def butlast_append)
qed (use assms in \<open>simp add: dq_repr_def dq_remlast_def\<close>)

text \<open>
  \<open>dq_rem\<close> trusts its caller: an entry that is in no queue, with both links \<open>NULL\<close>, makes it
  forget the whole queue. \<open>sq_rem\<close> leaves the queue as it is.
\<close>

lemma dq_rem_absent:
  "dq_flink q n = None \<Longrightarrow> dq_blink q n = None \<Longrightarrow> dq_head (dq_rem n q) = None \<and> dq_tail (dq_rem n q) = None"
  by (simp add: dq_rem_def)

section \<open>Sequences of operations\<close>

datatype 'p queue_op =
    Add_first 'p | Add_last 'p | Add_after 'p 'p | Remove 'p | Remove_first | Remove_last

fun queue_legal :: "'p queue_op \<Rightarrow> 'p list \<Rightarrow> bool" where
  "queue_legal (Add_first n) xs = (n \<notin> set xs)"
| "queue_legal (Add_last n) xs = (n \<notin> set xs)"
| "queue_legal (Add_after p n) xs = (p \<in> set xs \<and> n \<notin> set xs)"
| "queue_legal (Remove n) xs = (n \<in> set xs)"
| "queue_legal Remove_first xs = True"
| "queue_legal Remove_last xs = True"

fun queue_spec :: "'p queue_op \<Rightarrow> 'p list \<Rightarrow> 'p list" where
  "queue_spec (Add_first n) xs = n # xs"
| "queue_spec (Add_last n) xs = xs @ [n]"
| "queue_spec (Add_after p n) xs = insert_after p n xs"
| "queue_spec (Remove n) xs = remove1 n xs"
| "queue_spec Remove_first xs = tl xs"
| "queue_spec Remove_last xs = butlast xs"

fun queue_ret :: "'p queue_op \<Rightarrow> 'p list \<Rightarrow> 'p option" where
  "queue_ret Remove_first xs = (case xs of [] \<Rightarrow> None | x # _ \<Rightarrow> Some x)"
| "queue_ret Remove_last xs = last_entry xs"
| "queue_ret _ xs = None"

fun sq_exec :: "'p queue_op \<Rightarrow> 'p sq \<Rightarrow> ('p option \<times> 'p sq) option" where
  "sq_exec (Add_first n) q = Some (None, sq_addfirst n q)"
| "sq_exec (Add_last n) q = map_option (Pair None) (sq_addlast n q)"
| "sq_exec (Add_after p n) q = map_option (Pair None) (sq_addafter p n q)"
| "sq_exec (Remove n) q = map_option (Pair None) (sq_rem n q)"
| "sq_exec Remove_first q = Some (sq_remfirst q)"
| "sq_exec Remove_last q = sq_remlast q"

fun dq_exec :: "'p queue_op \<Rightarrow> 'p dq \<Rightarrow> ('p option \<times> 'p dq) option" where
  "dq_exec (Add_first n) q = Some (None, dq_addfirst n q)"
| "dq_exec (Add_last n) q = map_option (Pair None) (dq_addlast n q)"
| "dq_exec (Add_after p n) q = map_option (Pair None) (dq_addafter p n q)"
| "dq_exec (Remove n) q = Some (None, dq_rem n q)"
| "dq_exec Remove_first q = Some (dq_remfirst q)"
| "dq_exec Remove_last q = Some (dq_remlast q)"

text \<open>The results and the queue after a sequence; legality and the results by the lists.\<close>

fun queue_run :: "('p queue_op \<Rightarrow> 'q \<Rightarrow> ('p option \<times> 'q) option) \<Rightarrow> 'p queue_op list \<Rightarrow> 'q \<Rightarrow>
    ('p option list \<times> 'q) option" where
  "queue_run exec [] q = Some ([], q)"
| "queue_run exec (op # ops) q =
     Option.bind (exec op q) (\<lambda>(r, q'). map_option (\<lambda>(rs, q''). (r # rs, q'')) (queue_run exec ops q'))"

fun legal_run :: "'p queue_op list \<Rightarrow> 'p list \<Rightarrow> bool" where
  "legal_run [] xs = True"
| "legal_run (op # ops) xs = (queue_legal op xs \<and> legal_run ops (queue_spec op xs))"

fun queue_rets :: "'p queue_op list \<Rightarrow> 'p list \<Rightarrow> 'p option list" where
  "queue_rets [] xs = []"
| "queue_rets (op # ops) xs = queue_ret op xs # queue_rets ops (queue_spec op xs)"

locale pointer_queue =
  fixes exec :: "'p queue_op \<Rightarrow> 'q \<Rightarrow> ('p option \<times> 'q) option"
    and repr :: "'q \<Rightarrow> 'p list \<Rightarrow> bool"
  assumes exec_repr: "repr q xs \<Longrightarrow> queue_legal op xs \<Longrightarrow>
    \<exists>q'. exec op q = Some (queue_ret op xs, q') \<and> repr q' (queue_spec op xs)"
begin

lemma run_repr:
  "repr q xs \<Longrightarrow> legal_run ops xs \<Longrightarrow>
   \<exists>q'. queue_run exec ops q = Some (queue_rets ops xs, q') \<and> repr q' (fold queue_spec ops xs)"
proof (induction ops arbitrary: q xs)
  case (Cons op ops)
  then obtain q1 where q1: "exec op q = Some (queue_ret op xs, q1)" "repr q1 (queue_spec op xs)"
    using exec_repr by fastforce
  then show ?case using Cons.IH [OF q1(2)] Cons.prems by auto
qed simp

lemma add_all:
  "repr q xs \<Longrightarrow> distinct (xs @ ns) \<Longrightarrow>
   \<exists>q'. queue_run exec (map Add_last ns) q = Some (replicate (length ns) None, q') \<and> repr q' (xs @ ns)"
proof (induction ns arbitrary: q xs)
  case (Cons n ns)
  then obtain q1 where "exec (Add_last n) q = Some (None, q1)" "repr q1 (xs @ [n])"
    using exec_repr [of q xs "Add_last n"] by auto
  then show ?case using Cons.IH [of q1 "xs @ [n]"] Cons.prems(2) by auto
qed simp

lemma remove_all:
  "repr q xs \<Longrightarrow> \<exists>q'. queue_run exec (replicate (length xs) Remove_first) q = Some (map Some xs, q') \<and> repr q' []"
proof (induction xs arbitrary: q)
  case (Cons x xs)
  then obtain q1 where "exec Remove_first q = Some (Some x, q1)" "repr q1 xs"
    using exec_repr [of q "x # xs" Remove_first] by auto
  then show ?case using Cons.IH by fastforce
qed simp

end

interpretation sqs: pointer_queue sq_exec sq_repr
proof
  fix q :: "'a sq" and xs op
  assume *: "sq_repr q xs" "queue_legal op xs"
  then show "\<exists>q'. sq_exec op q = Some (queue_ret op xs, q') \<and> sq_repr q' (queue_spec op xs)"
    using sq_addlast_repr [OF *(1)] sq_addafter_repr [OF *(1)] sq_rem_repr [OF *(1)] sq_remfirst_repr [OF *(1)]
      sq_remlast_repr [OF *(1)] by (cases op) (fastforce intro: sq_addfirst_repr)+
qed

interpretation dqs: pointer_queue dq_exec dq_repr
proof
  fix q :: "'a dq" and xs op
  assume *: "dq_repr q xs" "queue_legal op xs"
  then show "\<exists>q'. dq_exec op q = Some (queue_ret op xs, q') \<and> dq_repr q' (queue_spec op xs)"
    using dq_addlast_repr [OF *(1)] dq_addafter_repr [OF *(1)] dq_rem_repr [OF *(1)] dq_remfirst_repr [OF *(1)]
      dq_remlast_repr [OF *(1)] by (cases op) (fastforce intro: dq_addfirst_repr)+
qed

section \<open>Properties\<close>

text \<open>
  C24. Both kinds of queue implement lists: every sequence of operations that adds only entries not yet queued, and adds
  after or removes only queued ones, runs without a \<open>NULL\<close> dereference or an endless walk, returns what the
  list operations return and leaves the entries of the resulting list linked in order.
\<close>

theorem queues_run_as_lists:
  assumes "legal_run ops xs" "sq_repr q xs" "dq_repr d xs"
  shows "\<exists>q' d'. queue_run sq_exec ops q = Some (queue_rets ops xs, q') \<and> sq_repr q' (fold queue_spec ops xs) \<and>
    queue_run dq_exec ops d = Some (queue_rets ops xs, d') \<and> dq_repr d' (fold queue_spec ops xs)"
  using sqs.run_repr [OF assms(2,1)] dqs.run_repr [OF assms(3,1)] by blast

theorem queues_run_as_lists_witness:
  "\<exists>q' d'. queue_run sq_exec [Add_last 1, Add_first 2, Add_after 2 (3 :: nat), Remove 1, Remove_last]
       \<lparr>sq_head = None, sq_tail = None, sq_flink = \<lambda>p. Some 7\<rparr> = Some ([None, None, None, None, Some 3], q') \<and>
     sq_repr q' [2] \<and>
     queue_run dq_exec [Add_last 1, Add_first 2, Add_after 2 (3 :: nat), Remove 1, Remove_last]
       \<lparr>dq_head = None, dq_tail = None, dq_flink = \<lambda>p. Some 7, dq_blink = \<lambda>p. Some 7\<rparr> =
         Some ([None, None, None, None, Some 3], d') \<and> dq_repr d' [2]"
proof -
  let ?ops = "[Add_last 1, Add_first 2, Add_after 2 (3 :: nat), Remove 1, Remove_last]"
  have l: "legal_run ?ops []" "queue_rets ?ops [] = [None, None, None, None, Some 3]" "fold queue_spec ?ops [] = [2]"
    by (simp_all add: last_entry_def)
  have "sq_repr \<lparr>sq_head = None, sq_tail = None, sq_flink = \<lambda>p. Some (7 :: nat)\<rparr> []"
    "dq_repr \<lparr>dq_head = None, dq_tail = None, dq_flink = \<lambda>p. Some (7 :: nat), dq_blink = \<lambda>p. Some 7\<rparr> []"
    by (simp_all add: sq_repr_def dq_repr_def)
  from queues_run_as_lists [OF l(1) this] show ?thesis unfolding l(2,3) .
qed

text \<open>
  Queues are first in, first out: entries added at the end of an empty queue come back from its head in the same
  order, each once, and leave it empty.
\<close>

theorem queues_fifo:
  assumes "distinct ns" "sq_repr q []" "dq_repr d []"
  shows "\<exists>q1 q2 d1 d2. queue_run sq_exec (map Add_last ns) q = Some (replicate (length ns) None, q1) \<and>
      queue_run sq_exec (replicate (length ns) Remove_first) q1 = Some (map Some ns, q2) \<and> sq_head q2 = None \<and>
      queue_run dq_exec (map Add_last ns) d = Some (replicate (length ns) None, d1) \<and>
      queue_run dq_exec (replicate (length ns) Remove_first) d1 = Some (map Some ns, d2) \<and> dq_head d2 = None"
proof -
  obtain q1 where q1: "queue_run sq_exec (map Add_last ns) q = Some (replicate (length ns) None, q1)" "sq_repr q1 ns"
    using sqs.add_all [OF assms(2), of ns] assms(1) by auto
  obtain d1 where d1: "queue_run dq_exec (map Add_last ns) d = Some (replicate (length ns) None, d1)" "dq_repr d1 ns"
    using dqs.add_all [OF assms(3), of ns] assms(1) by auto
  show ?thesis
    using q1 d1 sqs.remove_all [OF q1(2)] dqs.remove_all [OF d1(2)] sq_head_repr [of _ "[]"] dq_head_repr [of _ "[]"]
    by fastforce
qed

theorem queues_fifo_witness:
  "\<exists>q1 q2. queue_run sq_exec (map Add_last [CHR ''a'', CHR ''b'']) \<lparr>sq_head = None, sq_tail = None, sq_flink = Some\<rparr> =
      Some ([None, None], q1) \<and>
     queue_run sq_exec [Remove_first, Remove_first] q1 = Some ([Some CHR ''a'', Some CHR ''b''], q2) \<and> sq_head q2 = None"
proof -
  have "distinct [CHR ''a'', CHR ''b'']" "sq_repr \<lparr>sq_head = None, sq_tail = None, sq_flink = Some\<rparr> ([] :: char list)"
    "dq_repr \<lparr>dq_head = None, dq_tail = None, dq_flink = Some, dq_blink = Some\<rparr> ([] :: char list)"
    by (simp_all add: sq_repr_def dq_repr_def)
  from queues_fifo [OF this] show ?thesis by (fastforce simp: numeral_2_eq_2)
qed

end
