(* ===== verification/Hrt.thy ===== *)
theory Hrt
  imports Queue
begin

text \<open>
  The high-resolution timer of the flight management unit (\<open>up_hrt.c\<close>): the 64-bit clock kept from a
  16-bit counter, the queue of callouts, the interrupt handler with its latency statistics, and the decoder for remote
  control pulses that shares the timer.

  The hardware is explicit: \<open>hw_time\<close> is the true time in microseconds, of which the counter shows the low
  16 bits, and \<open>match_at\<close> the time of the next match of the compare register. Every access to a timer register
  takes some time: the \<open>n\<close>-th access comes \<open>L n\<close> microseconds after what was before it. The callouts
  are functions given by the environment: \<open>E f a\<close> is the effect on the timer of calling function \<open>f\<close>
  with argument \<open>a\<close>.
\<close>

unbundle bit_operations_syntax

definition HRT_INTERVAL_MIN :: u64 where "HRT_INTERVAL_MIN = 50"
definition HRT_INTERVAL_MAX :: u64 where "HRT_INTERVAL_MAX = 50000"
definition HRT_COUNTER_PERIOD :: u64 where "HRT_COUNTER_PERIOD = 65536"

definition GTIM_SR_CC1IF :: u32 where "GTIM_SR_CC1IF = push_bit 1 1"
definition GTIM_SR_CC3IF :: u32 where "GTIM_SR_CC3IF = push_bit 3 1"
definition GTIM_SR_CC3OF :: u32 where "GTIM_SR_CC3OF = push_bit 11 1"

definition PPM_MAX_PULSE_WIDTH :: int where "PPM_MAX_PULSE_WIDTH = 500"
definition PPM_MIN_CHANNEL_VALUE :: int where "PPM_MIN_CHANNEL_VALUE = 800"
definition PPM_MAX_CHANNEL_VALUE :: int where "PPM_MAX_CHANNEL_VALUE = 2200"
definition PPM_MIN_START :: int where "PPM_MIN_START = 2500"
definition PPM_MAX_CHANNELS :: nat where "PPM_MAX_CHANNELS = 12"

section \<open>State\<close>

record hrt_call =
  deadline :: u64
  period :: u64
  callout :: "nat option"
  arg :: nat

datatype ppm_phase = UNSYNCH | ARM | ACTIVE | INACTIVE

text \<open>The indices are \<open>unsigned\<close> in the code; they never exceed the lengths of the arrays.\<close>

record ppm_decoder =
  ppm_buffer :: "u16 list"
  ppm_decoded_channels :: nat
  ppm_last_valid_decode :: u64
  ppm_edge_history :: "u16 list"
  ppm_edge_next :: nat
  ppm_pulse_history :: "u16 list"
  ppm_pulse_next :: nat
  ppm_temp_buffer :: "u16 list"
  last_edge :: u16
  last_mark :: u16
  next_channel :: nat
  phase :: ppm_phase

text \<open>
  \<open>called\<close> records what the dispatcher does: the entries it took from the queue, with the time it compared
  their deadline with.
\<close>

record hrt =
  hw_time :: nat
  accesses :: nat
  match_at :: nat
  rCCR_HRT :: u32
  rCCR_PPM :: u32
  base_time :: u64
  last_count :: u32
  callout_queue :: "nat sq"
  calls :: "nat \<Rightarrow> hrt_call"
  latency_baseline :: u16
  latency_actual :: u16
  latency_counters :: "u32 list"
  called :: "(nat \<times> u64) list"
  ppm :: ppm_decoder

section \<open>The clock\<close>

text \<open>An access to a register: the time passes, then the counter shows the low bits of the time.\<close>

definition timer_access :: "(nat \<Rightarrow> nat) \<Rightarrow> hrt \<Rightarrow> hrt" where
  "timer_access L s = s\<lparr>hw_time := hw_time s + L (accesses s), accesses := accesses s + 1\<rparr>"

definition rCNT :: "hrt \<Rightarrow> u32" where
  "rCNT s = word_of_nat (hw_time s mod 65536)"

text \<open>The compare unit matches when the counter next reaches the value of its register.\<close>

definition next_match :: "u32 \<Rightarrow> nat \<Rightarrow> nat" where
  "next_match c t = t + 1 + nat ((uint c - int (t + 1)) mod 65536)"

definition hrt_absolute_time :: "(nat \<Rightarrow> nat) \<Rightarrow> hrt \<Rightarrow> u64 \<times> hrt" where
  "hrt_absolute_time L s =
     (let s1 = timer_access L s; count = rCNT s1;
          base = (if count < last_count s1 then base_time s1 + HRT_COUNTER_PERIOD else base_time s1)
      in (base + ucast count, s1\<lparr>base_time := base, last_count := count\<rparr>))"

record timespec =
  tv_sec :: u32
  tv_nsec :: "32 word"

definition ts_to_abstime :: "timespec \<Rightarrow> u64" where
  "ts_to_abstime ts =
     (let ns = sint (tv_nsec ts)
      in ucast (tv_sec ts) * 1000000 + word_of_int (if ns < 0 then - (- ns div 1000) else ns div 1000))"

definition abstime_to_ts :: "u64 \<Rightarrow> timespec" where
  "abstime_to_ts abstime =
     (let sec = ucast (abstime div 1000000); rest = abstime - ucast (sec * 1000000)
      in \<lparr>tv_sec = sec, tv_nsec = ucast (rest * 1000)\<rparr>)"

section \<open>Callouts\<close>

definition hrt_call_reschedule :: "(nat \<Rightarrow> nat) \<Rightarrow> hrt \<Rightarrow> hrt" where
  "hrt_call_reschedule L s =
     (let (now, s1) = hrt_absolute_time L s;
          latest = now + HRT_INTERVAL_MAX;
          target = (case sq_head (callout_queue s1) of
                      None \<Rightarrow> latest
                    | Some next \<Rightarrow>
                        if deadline (calls s1 next) \<le> now + HRT_INTERVAL_MIN then now + HRT_INTERVAL_MIN
                        else if deadline (calls s1 next) < latest then deadline (calls s1 next)
                        else latest);
          s2 = timer_access L s1; low = target AND 0xffff
      in s2\<lparr>rCCR_HRT := ucast low, latency_baseline := ucast low, match_at := next_match (ucast low) (hw_time s2)\<rparr>)"

text \<open>The entry after which a call with deadline \<open>d\<close> belongs, from a call that is not behind it.\<close>

partial_function (option) insert_position :: "(nat \<Rightarrow> nat option) \<Rightarrow> (nat \<Rightarrow> u64) \<Rightarrow> u64 \<Rightarrow> nat \<Rightarrow> nat option" where
  "insert_position links dl d call =
     (case links call of
        None \<Rightarrow> Some call
      | Some next \<Rightarrow> if d < dl next then Some call else insert_position links dl d next)"

definition hrt_call_enter :: "(nat \<Rightarrow> nat) \<Rightarrow> nat \<Rightarrow> hrt \<Rightarrow> hrt option" where
  "hrt_call_enter L entry s =
     (let q = callout_queue s; dl = (\<lambda>e. deadline (calls s e))
      in case sq_head q of
           None \<Rightarrow> Some (hrt_call_reschedule L (s\<lparr>callout_queue := sq_addfirst entry q\<rparr>))
         | Some call \<Rightarrow>
             if dl entry < dl call
             then Some (hrt_call_reschedule L (s\<lparr>callout_queue := sq_addfirst entry q\<rparr>))
             else Option.bind (insert_position (sq_flink q) dl (dl entry) call) (\<lambda>prev.
                    map_option (\<lambda>q'. s\<lparr>callout_queue := q'\<rparr>) (sq_addafter prev entry q)))"

definition hrt_call_internal :: "(nat \<Rightarrow> nat) \<Rightarrow> nat \<Rightarrow> u64 \<Rightarrow> u64 \<Rightarrow> nat option \<Rightarrow> nat \<Rightarrow> hrt \<Rightarrow> hrt option" where
  "hrt_call_internal L entry dl interval f a s =
     Option.bind
       (if deadline (calls s entry) \<noteq> 0
        then map_option (\<lambda>q. s\<lparr>callout_queue := q\<rparr>) (sq_rem entry (callout_queue s))
        else Some s)
       (\<lambda>s1. hrt_call_enter L entry
          (s1\<lparr>calls := (calls s1)(entry := \<lparr>deadline = dl, period = interval, callout = f, arg = a\<rparr>)\<rparr>))"

definition hrt_call_after :: "(nat \<Rightarrow> nat) \<Rightarrow> nat \<Rightarrow> u64 \<Rightarrow> nat option \<Rightarrow> nat \<Rightarrow> hrt \<Rightarrow> hrt option" where
  "hrt_call_after L entry delay f a s =
     (let (now, s1) = hrt_absolute_time L s in hrt_call_internal L entry (now + delay) 0 f a s1)"

definition hrt_call_at :: "(nat \<Rightarrow> nat) \<Rightarrow> nat \<Rightarrow> u64 \<Rightarrow> nat option \<Rightarrow> nat \<Rightarrow> hrt \<Rightarrow> hrt option" where
  "hrt_call_at L entry calltime f a s = hrt_call_internal L entry calltime 0 f a s"

definition hrt_call_every :: "(nat \<Rightarrow> nat) \<Rightarrow> nat \<Rightarrow> u64 \<Rightarrow> u64 \<Rightarrow> nat option \<Rightarrow> nat \<Rightarrow> hrt \<Rightarrow> hrt option" where
  "hrt_call_every L entry delay interval f a s =
     (let (now, s1) = hrt_absolute_time L s in hrt_call_internal L entry (now + delay) interval f a s1)"

definition hrt_called :: "nat \<Rightarrow> hrt \<Rightarrow> bool" where
  "hrt_called entry s \<longleftrightarrow> deadline (calls s entry) = 0"

definition hrt_cancel :: "nat \<Rightarrow> hrt \<Rightarrow> hrt option" where
  "hrt_cancel entry s =
     map_option (\<lambda>q. s\<lparr>callout_queue := q, calls := (calls s)(entry := (calls s entry)\<lparr>deadline := 0, period := 0\<rparr>)\<rparr>)
       (sq_rem entry (callout_queue s))"

text \<open>One turn of the dispatcher's loop: a call that is due is taken from the queue, made, and entered again if periodic.\<close>

definition expire :: "(nat \<Rightarrow> nat) \<Rightarrow> (nat \<Rightarrow> nat \<Rightarrow> hrt \<Rightarrow> hrt option) \<Rightarrow> u64 \<Rightarrow> nat \<Rightarrow> hrt \<Rightarrow> hrt option" where
  "expire L E now call s =
     Option.bind (sq_rem call (callout_queue s)) (\<lambda>q.
       let c = calls s call;
           s1 = s\<lparr>callout_queue := q, calls := (calls s)(call := c\<lparr>deadline := 0\<rparr>), called := called s @ [(call, now)]\<rparr>
       in Option.bind (case callout c of None \<Rightarrow> Some s1 | Some f \<Rightarrow> E f (arg c) s1) (\<lambda>s2.
            if period (calls s2 call) \<noteq> 0
            then hrt_call_enter L call
                   (s2\<lparr>calls := (calls s2)(call := (calls s2 call)\<lparr>deadline := deadline c + period (calls s2 call)\<rparr>)\<rparr>)
            else Some s2))"

partial_function (option) hrt_call_invoke ::
    "(nat \<Rightarrow> nat) \<Rightarrow> (nat \<Rightarrow> nat \<Rightarrow> hrt \<Rightarrow> hrt option) \<Rightarrow> hrt \<Rightarrow> hrt option" where
  "hrt_call_invoke L E s =
     (case hrt_absolute_time L s of (now, s1) \<Rightarrow>
       (case sq_head (callout_queue s1) of
          None \<Rightarrow> Some s1
        | Some call \<Rightarrow>
            if now < deadline (calls s1 call) then Some s1
            else Option.bind (expire L E now call s1) (hrt_call_invoke L E)))"

section \<open>The remote control decoder\<close>

definition ppm_error :: "ppm_decoder \<Rightarrow> ppm_decoder" where
  "ppm_error p = p\<lparr>phase := UNSYNCH, ppm_decoded_channels := 0\<rparr>"

text \<open>A start pulse: the samples of the last frame are exported, with the time.\<close>

definition ppm_start_pulse :: "(nat \<Rightarrow> nat) \<Rightarrow> hrt \<Rightarrow> hrt option" where
  "ppm_start_pulse L s =
     (let p = ppm s
      in map_option (\<lambda>s1. s1\<lparr>ppm := (ppm s1)\<lparr>next_channel := 0, phase := ARM\<rparr>\<rparr>)
           (if 4 < next_channel p
            then (let n = min (next_channel p) PPM_MAX_CHANNELS
                  in if n \<le> length (ppm_temp_buffer p) \<and> n \<le> length (ppm_buffer p)
                     then (let (now, s1) = hrt_absolute_time L s
                           in Some (s1\<lparr>ppm := p\<lparr>ppm_buffer := take n (ppm_temp_buffer p) @ drop n (ppm_buffer p),
                                ppm_decoded_channels := n, ppm_last_valid_decode := now\<rparr>\<rparr>))
                     else None)
            else Some s))"

text \<open>A mark of a channel: the interval since the last one.\<close>

definition ppm_mark :: "u16 \<Rightarrow> ppm_decoder \<Rightarrow> ppm_decoder option" where
  "ppm_mark count p =
     (let interval = count - last_mark p
      in Option.bind (array_set (ppm_pulse_history p) (ppm_pulse_next p) interval) (\<lambda>h.
           let p1 = p\<lparr>last_mark := count, ppm_pulse_history := h,
                      ppm_pulse_next := if 32 \<le> ppm_pulse_next p + 1 then 0 else ppm_pulse_next p + 1\<rparr>
           in if uint interval < PPM_MIN_CHANNEL_VALUE \<or> PPM_MAX_CHANNEL_VALUE < uint interval then Some (ppm_error p1)
              else map_option (\<lambda>p2. p2\<lparr>phase := INACTIVE\<rparr>)
                     (if next_channel p1 < PPM_MAX_CHANNELS
                      then map_option (\<lambda>b. p1\<lparr>ppm_temp_buffer := b, next_channel := next_channel p1 + 1\<rparr>)
                             (array_set (ppm_temp_buffer p1) (next_channel p1) interval)
                      else Some p1)))"

definition ppm_switch :: "u16 \<Rightarrow> u16 \<Rightarrow> ppm_decoder \<Rightarrow> ppm_decoder option" where
  "ppm_switch width count p =
     (case phase p of
        UNSYNCH \<Rightarrow> Some p
      | ARM \<Rightarrow>
          if PPM_MAX_PULSE_WIDTH < uint width then Some (ppm_error p)
          else Some (p\<lparr>last_mark := count, phase := INACTIVE\<rparr>)
      | INACTIVE \<Rightarrow> Some (p\<lparr>phase := ACTIVE\<rparr>)
      | ACTIVE \<Rightarrow> ppm_mark count p)"

definition hrt_ppm_decode :: "(nat \<Rightarrow> nat) \<Rightarrow> u32 \<Rightarrow> hrt \<Rightarrow> hrt option" where
  "hrt_ppm_decode L status s =
     (let p = ppm s; count = ucast (rCCR_PPM s)
      in if status AND GTIM_SR_CC3OF \<noteq> 0 then Some (s\<lparr>ppm := ppm_error p\<rparr>)
         else
           (let width = count - last_edge p
            in Option.bind (array_set (ppm_edge_history p) (ppm_edge_next p) width) (\<lambda>h.
                 let p1 = p\<lparr>last_edge := count, ppm_edge_history := h,
                            ppm_edge_next := if 32 \<le> ppm_edge_next p + 1 then 0 else ppm_edge_next p + 1\<rparr>
                 in if PPM_MIN_START \<le> uint width then ppm_start_pulse L (s\<lparr>ppm := p1\<rparr>)
                    else map_option (\<lambda>p2. s\<lparr>ppm := p2\<rparr>)
                           (ppm_switch width count p1))))"

section \<open>The interrupt handler\<close>

definition latency_buckets :: "u16 list" where
  "latency_buckets = [1, 2, 5, 10, 20, 50, 100, 1000]"

fun latency_index :: "u16 list \<Rightarrow> u16 \<Rightarrow> nat" where
  "latency_index [] latency = 0"
| "latency_index (b # bs) latency = (if latency \<le> b then 0 else Suc (latency_index bs latency))"

definition hrt_latency_update :: "hrt \<Rightarrow> hrt option" where
  "hrt_latency_update s =
     (let index = latency_index latency_buckets (latency_actual s - latency_baseline s)
      in Option.bind (array_get (latency_counters s) index) (\<lambda>n.
           map_option (\<lambda>cs. s\<lparr>latency_counters := cs\<rparr>) (array_set (latency_counters s) index (n + 1))))"

definition hrt_tim_isr :: "(nat \<Rightarrow> nat) \<Rightarrow> (nat \<Rightarrow> nat \<Rightarrow> hrt \<Rightarrow> hrt option) \<Rightarrow> u32 \<Rightarrow> hrt \<Rightarrow> hrt option" where
  "hrt_tim_isr L E status s =
     (let s1 = timer_access L s; s2 = s1\<lparr>latency_actual := ucast (rCNT s1)\<rparr>
      in Option.bind (if status AND (GTIM_SR_CC3IF OR GTIM_SR_CC3OF) \<noteq> 0 then hrt_ppm_decode L status s2 else Some s2)
           (\<lambda>s3. if status AND GTIM_SR_CC1IF \<noteq> 0
                 then Option.bind (hrt_latency_update s3) (\<lambda>s4.
                        map_option (hrt_call_reschedule L) (hrt_call_invoke L E s4))
                 else Some s3))"

text \<open>The timer starts counting from 0 with a first compare value of 1000; the rest of its memory is zero.\<close>

definition hrt_init :: "hrt \<Rightarrow> hrt" where
  "hrt_init s = s\<lparr>callout_queue := sq_init (callout_queue s), rCCR_HRT := 1000, hw_time := 0, match_at := next_match 1000 0\<rparr>"

section \<open>The clock is exact\<close>

text \<open>\<open>t\<close> is the time of the last reading that the clock has taken into account.\<close>

definition clock_at :: "nat \<Rightarrow> hrt \<Rightarrow> bool" where
  "clock_at t s \<longleftrightarrow> base_time s = word_of_nat (t - t mod 65536) \<and> last_count s = word_of_nat (t mod 65536) \<and> t \<le> hw_time s"

lemma timer_access_simps [simp]:
  "hw_time (timer_access L s) = hw_time s + L (accesses s)"
  "base_time (timer_access L s) = base_time s" "last_count (timer_access L s) = last_count s"
  "callout_queue (timer_access L s) = callout_queue s" "calls (timer_access L s) = calls s"
  "called (timer_access L s) = called s" "match_at (timer_access L s) = match_at s" "ppm (timer_access L s) = ppm s"
  "latency_counters (timer_access L s) = latency_counters s" "latency_baseline (timer_access L s) = latency_baseline s"
  "rCCR_PPM (timer_access L s) = rCCR_PPM s" "rCCR_HRT (timer_access L s) = rCCR_HRT s"
  by (simp_all add: timer_access_def)

lemma wrap_detected:
  assumes "t \<le> (h :: nat)" "h < t + 65536"
  shows "(h mod 65536 < t mod 65536 \<longrightarrow> t - t mod 65536 + 65536 = h - h mod 65536) \<and>
    (\<not> h mod 65536 < t mod 65536 \<longrightarrow> t - t mod 65536 = h - h mod 65536)"
proof -
  define a b c d where abcd: "a = t div 65536" "b = t mod 65536" "c = h div 65536" "d = h mod 65536"
  have t: "t = a * 65536 + b" "b < 65536" and h: "h = c * 65536 + d" "d < 65536" by (simp_all add: abcd)
  have "a \<le> c" "c \<le> a + 1" using assms unfolding abcd by (simp_all add: div_le_mono)
  moreover have "d < b \<longrightarrow> c \<noteq> a" "\<not> d < b \<longrightarrow> c \<noteq> a + 1" using assms t h by auto
  ultimately have "(d < b \<longrightarrow> c = a + 1) \<and> (\<not> d < b \<longrightarrow> c = a)" by linarith
  then show ?thesis unfolding abcd(2,4) [symmetric] using t(1) h(1) by auto
qed

lemma absolute_time_exact:
  assumes "clock_at t s" "hw_time s + L (accesses s) < t + 65536"
  shows "\<exists>s1. hrt_absolute_time L s = (word_of_nat (hw_time s1), s1) \<and> clock_at (hw_time s1) s1 \<and>
    hw_time s1 = hw_time s + L (accesses s) \<and> accesses s1 = accesses s + 1 \<and> match_at s1 = match_at s \<and>
    callout_queue s1 = callout_queue s \<and> calls s1 = calls s \<and> called s1 = called s \<and> ppm s1 = ppm s \<and>
    latency_counters s1 = latency_counters s \<and> latency_baseline s1 = latency_baseline s"
proof -
  define h where "h = hw_time s + L (accesses s)"
  have th: "t \<le> h" "h < t + 65536" using assms by (simp_all add: clock_at_def h_def)
  have less: "(word_of_nat (h mod 65536) :: u32) < word_of_nat (t mod 65536) \<longleftrightarrow> h mod 65536 < t mod 65536"
    by (simp add: word_less_nat_alt unat_of_nat take_bit_nat_eq_self)
  have base: "(if h mod 65536 < t mod 65536 then base_time s + 65536 else base_time s) = word_of_nat (h - h mod 65536)"
  proof (cases "h mod 65536 < t mod 65536")
    case True
    then have "h - h mod 65536 = t - t mod 65536 + 65536" using wrap_detected [OF th] by simp
    with True assms(1) show ?thesis by (simp add: clock_at_def)
  next
    case False
    then have "h - h mod 65536 = t - t mod 65536" using wrap_detected [OF th] by simp
    with False assms(1) show ?thesis by (simp add: clock_at_def)
  qed
  have cast: "(ucast (word_of_nat (h mod 65536) :: u32) :: u64) = word_of_nat (h mod 65536)"
    by (simp add: unsigned_of_nat take_bit_nat_eq_self)
  have sum: "word_of_nat (h - h mod 65536) + word_of_nat (h mod 65536) = (word_of_nat h :: u64)"
    by (simp flip: of_nat_add)
  let ?s1 = "(timer_access L s)\<lparr>base_time := word_of_nat (h - h mod 65536), last_count := word_of_nat (h mod 65536)\<rparr>"
  have last: "last_count s = word_of_nat (t mod 65536)" using assms(1) by (simp add: clock_at_def)
  have "hrt_absolute_time L s = (word_of_nat h, ?s1)"
    unfolding hrt_absolute_time_def Let_def rCNT_def timer_access_simps HRT_COUNTER_PERIOD_def h_def [symmetric] last less
      base cast sum ..
  moreover have "clock_at h ?s1" unfolding clock_at_def by (simp add: h_def)
  ultimately show ?thesis by (simp add: h_def timer_access_def)
qed

section \<open>The next interrupt\<close>

lemma word_between:
  fixes a b k :: "'a :: len word"
  assumes "a < b" "b < a + k"
  shows "b - a < k"
proof -
  have "uint a < uint b" "uint b < uint (a + k)" using assms by (simp_all add: word_less_def)
  have k: "uint k < 2 ^ LENGTH('a)" by (rule uint_lt2p)
  have "uint a + uint k < 2 ^ LENGTH('a)"
  proof (rule ccontr)
    assume "\<not> ?thesis"
    then have "uint (a + k) = uint a + uint k - 2 ^ LENGTH('a)" by (simp add: uint_plus_if')
    with k \<open>uint a < uint b\<close> \<open>uint b < uint (a + k)\<close> show False by linarith
  qed
  then have "uint (a + k) = uint a + uint k" by (simp add: uint_plus_if')
  moreover have "uint (b - a) = uint b - uint a" using \<open>uint a < uint b\<close> by (simp add: uint_sub_if')
  ultimately show ?thesis using \<open>uint b < uint (a + k)\<close> by (simp add: word_less_def)
qed

text \<open>The time the compare unit is set to: the deadline, but at least 50 and at most 50000 microseconds from now.\<close>

definition next_target :: "u64 \<Rightarrow> u64 option \<Rightarrow> u64" where
  "next_target now d =
     (case d of
        None \<Rightarrow> now + 50000
      | Some d \<Rightarrow> if d \<le> now + 50 then now + 50 else if d < now + 50000 then d else now + 50000)"

lemma next_target_range: "\<exists>d. 50 \<le> d \<and> d \<le> 50000 \<and> next_target now dl = now + word_of_nat d"
proof -
  have "\<exists>d. 50 \<le> d \<and> d \<le> 50000 \<and> x = now + word_of_nat d" if "now + 50 < x" "x < now + 50000" for x
  proof -
    define d where "d = unat (x - (now + 50))"
    have eq: "now + 50 + 49950 = now + 50000" by simp
    have "x - (now + 50) < 49950" using word_between [of "now + 50" x 49950] that unfolding eq by blast
    then have "d < 49950" unfolding d_def by (simp add: word_less_nat_alt)
    moreover have "x = now + 50 + word_of_nat d" unfolding d_def by simp
    then have "x = now + word_of_nat (d + 50)" by (simp add: ac_simps)
    ultimately show ?thesis by (intro exI [of _ "d + 50"]) simp
  qed
  moreover have "\<exists>d. 50 \<le> d \<and> d \<le> 50000 \<and> now + 50 = now + word_of_nat d" by (intro exI [of _ 50]) simp
  moreover have "\<exists>d. 50 \<le> d \<and> d \<le> 50000 \<and> now + 50000 = now + word_of_nat d" by (intro exI [of _ 50000]) simp
  ultimately show ?thesis by (auto simp: next_target_def not_le split: option.split)
qed

lemma low_half: "uint (ucast ((x :: u64) AND 0xffff) :: u32) = uint x mod 65536"
proof -
  have "x AND 0xffff = take_bit 16 x" by (simp add: take_bit_eq_mask mask_eq_exp_minus_1)
  then show ?thesis by (simp only: unsigned_ucast_eq unsigned_take_bit_eq take_bit_take_bit) (simp add: take_bit_eq_mod)
qed

lemma next_match_target:
  assumes "t < m" "m \<le> t + 65536"
  shows "next_match (ucast ((word_of_nat m :: u64) AND 0xffff)) t = m"
proof -
  have "uint (word_of_nat m :: u64) mod 65536 = int m mod 65536"
    by (simp add: unsigned_of_nat take_bit_eq_mod of_nat_mod mod_mod_cancel)
  then have "(uint (ucast ((word_of_nat m :: u64) AND 0xffff) :: u32) - int (t + 1)) mod 65536 = (int m - int (t + 1)) mod 65536"
    unfolding low_half by (metis mod_diff_left_eq mod_mod_trivial)
  also have "\<dots> = int m - int (t + 1)" using assms by (intro mod_pos_pos_trivial) linarith+
  finally show ?thesis using assms(1) by (simp add: next_match_def)
qed

definition next_deadline :: "hrt \<Rightarrow> u64 option" where
  "next_deadline s = map_option (\<lambda>e. deadline (calls s e)) (sq_head (callout_queue s))"

text \<open>
  If the compare register is written less than 50 microseconds after the clock was read, the next match is exactly the
  target: it is neither missed, nor is it later than 50 milliseconds.
\<close>

lemma reschedule_exact:
  assumes "clock_at t s" "hw_time s + L (accesses s) < t + 65536" "L (accesses s + 1) < 50"
  shows "\<exists>now. hw_time s + L (accesses s) = now \<and> clock_at now (hrt_call_reschedule L s) \<and>
    hw_time (hrt_call_reschedule L s) = now + L (accesses s + 1) \<and>
    now + 50 \<le> match_at (hrt_call_reschedule L s) \<and> match_at (hrt_call_reschedule L s) \<le> now + 50000 \<and>
    word_of_nat (match_at (hrt_call_reschedule L s)) = next_target (word_of_nat now) (next_deadline s) \<and>
    callout_queue (hrt_call_reschedule L s) = callout_queue s \<and> calls (hrt_call_reschedule L s) = calls s \<and>
    called (hrt_call_reschedule L s) = called s \<and> ppm (hrt_call_reschedule L s) = ppm s \<and>
    latency_counters (hrt_call_reschedule L s) = latency_counters s"
proof -
  obtain s1 where s1: "hrt_absolute_time L s = (word_of_nat (hw_time s1), s1)" "clock_at (hw_time s1) s1"
    "hw_time s1 = hw_time s + L (accesses s)" "accesses s1 = accesses s + 1" "callout_queue s1 = callout_queue s"
    "calls s1 = calls s" "called s1 = called s" "ppm s1 = ppm s" "latency_counters s1 = latency_counters s"
    using absolute_time_exact [of t s L, OF assms(1,2)] by blast
  define now where "now = hw_time s1"
  obtain d where d: "50 \<le> d" "d \<le> 50000" "next_target (word_of_nat now) (next_deadline s) = word_of_nat now + word_of_nat d"
    using next_target_range by blast
  then have target: "next_target (word_of_nat now) (next_deadline s) = word_of_nat (now + d)" by simp
  define u where "u = now + L (accesses s + 1)"
  have m: "next_match (ucast ((word_of_nat (now + d) :: u64) AND 0xffff)) u = now + d"
    using d(1,2) assms(3) by (intro next_match_target) (simp_all add: u_def)
  let ?low = "word_of_nat (now + d) AND 0xffff :: u64"
  have r: "hrt_call_reschedule L s = (timer_access L s1)
      \<lparr>rCCR_HRT := ucast ?low, latency_baseline := ucast ?low, match_at := now + d\<rparr>"
  proof -
    have "(case sq_head (callout_queue s1) of None \<Rightarrow> word_of_nat now + HRT_INTERVAL_MAX
      | Some next \<Rightarrow> if deadline (calls s1 next) \<le> word_of_nat now + HRT_INTERVAL_MIN then word_of_nat now + HRT_INTERVAL_MIN
         else if deadline (calls s1 next) < word_of_nat now + HRT_INTERVAL_MAX then deadline (calls s1 next)
         else word_of_nat now + HRT_INTERVAL_MAX) = word_of_nat (now + d)"
      unfolding target [symmetric] by (simp add: next_target_def next_deadline_def s1(5,6) HRT_INTERVAL_MIN_def
          HRT_INTERVAL_MAX_def split: option.split)
    then show ?thesis
      unfolding hrt_call_reschedule_def s1(1) Let_def prod.case now_def [symmetric]
      by (simp only: timer_access_simps s1(4) now_def [symmetric] u_def [symmetric] m)
  qed
  show ?thesis
    unfolding r using d(1,2) target s1 by (simp add: now_def clock_at_def del: of_nat_add)
qed

section \<open>The queue of callouts\<close>

definition untouched :: "hrt \<Rightarrow> hrt \<Rightarrow> bool" where
  "untouched s s' \<longleftrightarrow> calls s' = calls s \<and> called s' = called s \<and> ppm s' = ppm s \<and>
     latency_counters s' = latency_counters s \<and> hw_time s \<le> hw_time s'"

lemma untouched_trans [trans]: "untouched s s' \<Longrightarrow> untouched s' s'' \<Longrightarrow> untouched s s''"
  by (simp add: untouched_def)

text \<open>
  The clock was read at most \<open>n\<close> microseconds ago, and the compare unit matches at most 50 milliseconds after
  that reading.
\<close>

definition timely :: "nat \<Rightarrow> hrt \<Rightarrow> bool" where
  "timely n s \<longleftrightarrow> (\<exists>t. clock_at t s \<and> hw_time s \<le> t + n \<and> match_at s \<le> t + 50000)"

definition quick :: "(nat \<Rightarrow> nat) \<Rightarrow> bool" where
  "quick L \<longleftrightarrow> (\<forall>k. L k < 50)"

lemma quick_bound: "quick L \<Longrightarrow> L k < 50"
  by (simp add: quick_def)

lemma timely_mono: "timely n s \<Longrightarrow> n \<le> m \<Longrightarrow> timely m s"
  by (fastforce simp: timely_def)

lemma timely_upd [simp]:
  "timely n (s\<lparr>callout_queue := q\<rparr>) = timely n s" "timely n (s\<lparr>calls := c\<rparr>) = timely n s"
  "timely n (s\<lparr>called := l\<rparr>) = timely n s" "timely n (s\<lparr>latency_counters := k\<rparr>) = timely n s"
  "timely n (s\<lparr>latency_actual := u\<rparr>) = timely n s" "timely n (s\<lparr>ppm := p\<rparr>) = timely n s"
  by (simp_all add: timely_def clock_at_def)

lemma read_timely:
  assumes "timely n s" "n \<le> 65000" "quick L"
  shows "\<exists>s1. hrt_absolute_time L s = (word_of_nat (hw_time s1), s1) \<and> hw_time s1 = hw_time s + L (accesses s) \<and>
    timely 0 s1 \<and> untouched s s1 \<and> callout_queue s1 = callout_queue s"
proof -
  obtain t where t: "clock_at t s" "hw_time s \<le> t + n" "match_at s \<le> t + 50000" using assms(1) by (auto simp: timely_def)
  have "hw_time s + L (accesses s) < t + 65536" using t(2) assms(2) quick_bound [OF assms(3), of "accesses s"] by simp
  from absolute_time_exact [of t s L, OF t(1) this] obtain s1 where s1:
    "hrt_absolute_time L s = (word_of_nat (hw_time s1), s1)" "clock_at (hw_time s1) s1"
    "hw_time s1 = hw_time s + L (accesses s)" "match_at s1 = match_at s" "callout_queue s1 = callout_queue s"
    "calls s1 = calls s" "called s1 = called s" "ppm s1 = ppm s" "latency_counters s1 = latency_counters s"
    by blast
  have "t \<le> hw_time s" using t(1) by (simp add: clock_at_def)
  then have "timely 0 s1" using s1(2-4) t(3) by (fastforce simp: timely_def)
  with s1 show ?thesis by (auto simp: untouched_def)
qed

lemma reschedule_timely:
  assumes "timely n s" "n \<le> 65000" "quick L"
  shows "timely 49 (hrt_call_reschedule L s) \<and> untouched s (hrt_call_reschedule L s) \<and>
    callout_queue (hrt_call_reschedule L s) = callout_queue s \<and>
    hw_time (hrt_call_reschedule L s) < match_at (hrt_call_reschedule L s)"
proof -
  obtain t where t: "clock_at t s" "hw_time s \<le> t + n" using assms(1) by (auto simp: timely_def)
  have "hw_time s + L (accesses s) < t + 65536" using t(2) assms(2) quick_bound [OF assms(3), of "accesses s"] by simp
  from reschedule_exact [of t s L, OF t(1) this quick_bound [OF assms(3)]] quick_bound [OF assms(3), of "accesses s + 1"]
  show ?thesis by (auto simp: timely_def untouched_def intro!: exI [of _ "hw_time s + L (accesses s)"])
qed

text \<open>The place of an entry: behind all entries whose deadline is not later.\<close>

definition place :: "(nat \<Rightarrow> u64) \<Rightarrow> nat \<Rightarrow> nat list \<Rightarrow> nat list" where
  "place dl e xs = takeWhile (\<lambda>x. dl x \<le> dl e) xs @ e # dropWhile (\<lambda>x. dl x \<le> dl e) xs"

lemma set_place [simp]: "set (place dl e xs) = insert e (set xs)"
  unfolding place_def by (metis Un_insert_right list.simps(15) set_append takeWhile_dropWhile_id)

lemma sorted_place:
  assumes "sorted (map dl xs)"
  shows "sorted (map dl (place dl e xs))"
proof -
  have "sorted (map dl (takeWhile P xs)) \<and> sorted (map dl (dropWhile P xs))" for P
    using assms by (metis map_append sorted_append takeWhile_dropWhile_id)
  moreover have "\<forall>x\<in>set (takeWhile (\<lambda>x. dl x \<le> dl e) xs). dl x \<le> dl e" by (auto dest: set_takeWhileD)
  moreover have "\<forall>x\<in>set (dropWhile (\<lambda>x. dl x \<le> dl e) xs). dl e \<le> dl x"
  proof (cases "dropWhile (\<lambda>x. dl x \<le> dl e) xs")
    case (Cons y ys)
    then have "dl e < dl y" by (auto simp: not_le dropWhile_eq_Cons_conv)
    moreover have "sorted (map dl (y # ys))" using calculation Cons by (metis \<open>\<And>P. sorted (map dl (takeWhile P xs)) \<and> sorted (map dl (dropWhile P xs))\<close>)
    ultimately show ?thesis using Cons by fastforce
  next
    case Nil
    show ?thesis unfolding Nil by simp
  qed
  ultimately show ?thesis by (fastforce simp: place_def sorted_append)
qed

lemma insert_position_correct:
  "path links (Some x) (x # xs) None \<Longrightarrow> dl x \<le> d \<Longrightarrow>
   insert_position links dl d x = Some (last (takeWhile (\<lambda>x. dl x \<le> d) (x # xs)))"
proof (induction xs arbitrary: x)
  case Nil
  then show ?case by (subst insert_position.simps) simp
next
  case (Cons y ys)
  then show ?case by (subst insert_position.simps) (auto simp: not_less)
qed

lemma insert_after_last_prefix:
  "distinct xs \<Longrightarrow> takeWhile P xs \<noteq> [] \<Longrightarrow>
   insert_after (last (takeWhile P xs)) n xs = takeWhile P xs @ n # dropWhile P xs"
proof (induction xs)
  case (Cons x xs)
  show ?case
  proof (cases "takeWhile P xs = []")
    case True
    then show ?thesis using Cons.prems by (cases xs) (auto split: if_splits)
  next
    case False
    then have "last (takeWhile P xs) \<in> set xs" using last_in_set set_takeWhileD by metis
    then show ?thesis using Cons False by (auto split: if_splits)
  qed
qed simp

lemma enter_places:
  assumes "sq_repr (callout_queue s) xs" "e \<notin> set xs" "timely n s" "49 \<le> n" "n \<le> 65000" "quick L"
  shows "\<exists>s'. hrt_call_enter L e s = Some s' \<and> sq_repr (callout_queue s') (place (\<lambda>e. deadline (calls s e)) e xs) \<and>
    timely n s' \<and> untouched s s'"
proof -
  let ?q = "callout_queue s" and ?dl = "\<lambda>e. deadline (calls s e)"
  have first: ?thesis
    if "hrt_call_enter L e s = Some (hrt_call_reschedule L (s\<lparr>callout_queue := sq_addfirst e ?q\<rparr>))" "place ?dl e xs = e # xs"
  proof -
    let ?s = "s\<lparr>callout_queue := sq_addfirst e ?q\<rparr>"
    have "timely n ?s" using assms(3) by simp
    from reschedule_timely [OF this assms(5,6)] have "timely n (hrt_call_reschedule L ?s)" "untouched s (hrt_call_reschedule L ?s)"
      "callout_queue (hrt_call_reschedule L ?s) = sq_addfirst e ?q"
      using timely_mono [OF _ assms(4)] by (auto simp: untouched_def)
    then show ?thesis using that sq_addfirst_repr [OF assms(1,2)] by auto
  qed
  show ?thesis
  proof (cases xs)
    case Nil
    then show ?thesis using first sq_head_repr [OF assms(1)] by (simp add: hrt_call_enter_def Let_def place_def)
  next
    case (Cons x ys)
    have h: "sq_head ?q = Some x" using sq_head_repr [OF assms(1)] by (simp add: Cons)
    show ?thesis
    proof (cases "?dl e < ?dl x")
      case True
      then show ?thesis using first h by (simp add: hrt_call_enter_def Let_def place_def Cons not_le [symmetric])
    next
      case False
      let ?p = "last (takeWhile (\<lambda>x. ?dl x \<le> ?dl e) xs)"
      have ne: "takeWhile (\<lambda>x. ?dl x \<le> ?dl e) xs \<noteq> []" using False by (simp add: Cons not_less)
      have "path (sq_flink ?q) (Some x) (x # ys) None" using assms(1) h by (simp add: sq_repr_def Cons)
      from insert_position_correct [OF this, of ?dl "?dl e"] have pos: "insert_position (sq_flink ?q) ?dl (?dl e) x = Some ?p"
        using False by (simp add: Cons not_less)
      have "?p \<in> set xs" using ne last_in_set set_takeWhileD by metis
      from sq_addafter_repr [OF assms(1,2) this] obtain q' where q': "sq_addafter ?p e ?q = Some q'"
        "sq_repr q' (insert_after ?p e xs)" by blast
      have "distinct xs" using assms(1) by (simp add: sq_repr_def)
      from insert_after_last_prefix [OF this ne] have "sq_repr q' (place ?dl e xs)" using q'(2) by (simp add: place_def)
      moreover have "hrt_call_enter L e s = Some (s\<lparr>callout_queue := q'\<rparr>)"
        using h False pos q'(1) by (simp add: hrt_call_enter_def Let_def)
      ultimately show ?thesis using assms(3) by (simp add: untouched_def)
    qed
  qed
qed

section \<open>Requests\<close>

text \<open>
  The entries in the queue are those with a deadline, sorted by it; periods are below 2 to the 62nd microseconds, so
  that a new deadline does not wrap around.
\<close>

definition queue_ok :: "hrt \<Rightarrow> nat list \<Rightarrow> bool" where
  "queue_ok s xs \<longleftrightarrow> sq_repr (callout_queue s) xs \<and> sorted (map (\<lambda>e. deadline (calls s e)) xs) \<and>
     (\<forall>e. deadline (calls s e) \<noteq> 0 \<longleftrightarrow> e \<in> set xs) \<and> (\<forall>e. period (calls s e) < 2 ^ 62)"

datatype request =
    Call_after nat u64 "nat option" nat
  | Call_at nat u64 "nat option" nat
  | Call_every nat u64 u64 "nat option" nat
  | Cancel nat

fun request_step :: "(nat \<Rightarrow> nat) \<Rightarrow> request \<Rightarrow> hrt \<Rightarrow> hrt option" where
  "request_step L (Call_after e d f a) s = hrt_call_after L e d f a s"
| "request_step L (Call_at e t f a) s = hrt_call_at L e t f a s"
| "request_step L (Call_every e d i f a) s = hrt_call_every L e d i f a s"
| "request_step L (Cancel e) s = hrt_cancel e s"

text \<open>Delays and times that do not give the deadline 0, which marks an entry as not queued.\<close>

fun request_fits :: "request \<Rightarrow> bool" where
  "request_fits (Call_after e d f a) = (0 < d \<and> d < 2 ^ 62)"
| "request_fits (Call_at e t f a) = (t \<noteq> 0)"
| "request_fits (Call_every e d i f a) = (0 < d \<and> d < 2 ^ 62 \<and> i < 2 ^ 62)"
| "request_fits (Cancel e) = True"

text \<open>What a request does to the list of entries, with the deadlines after it.\<close>

fun request_spec :: "request \<Rightarrow> (nat \<Rightarrow> u64) \<Rightarrow> nat list \<Rightarrow> nat list" where
  "request_spec (Call_after e d f a) dl xs = place dl e (remove1 e xs)"
| "request_spec (Call_at e t f a) dl xs = place dl e (remove1 e xs)"
| "request_spec (Call_every e d i f a) dl xs = place dl e (remove1 e xs)"
| "request_spec (Cancel e) dl xs = remove1 e xs"

lemma queue_okD:
  assumes "queue_ok s xs"
  shows "sq_repr (callout_queue s) xs" "distinct xs" "deadline (calls s e) \<noteq> 0 \<longleftrightarrow> e \<in> set xs" "period (calls s e) < 2 ^ 62"
    "sorted (map (\<lambda>e. deadline (calls s e)) xs)"
  using assms by (auto simp: queue_ok_def sq_repr_def)

lemma queue_ok_upd:
  assumes "queue_ok s xs" "callout_queue s' = callout_queue s" "calls s' = calls s"
  shows "queue_ok s' xs"
  using assms by (simp add: queue_ok_def)

lemma sorted_remove1_map: "sorted (map f xs) \<Longrightarrow> sorted (map f (remove1 e xs))"
  by (induction xs) (auto dest: notin_set_remove1 set_remove1_subset [THEN subsetD])

lemma map_upd_notin: "e \<notin> set xs \<Longrightarrow> map (\<lambda>x. deadline ((c(e := v)) x)) xs = map (\<lambda>x. deadline (c x)) xs"
  by (induction xs) auto

text \<open>An entry outside the queue gets its data and its place.\<close>

lemma enter_ok:
  assumes "sq_repr (callout_queue s) xs" "sorted (map (\<lambda>e. deadline (calls s e)) xs)" "e \<notin> set xs"
    "\<forall>x. x \<noteq> e \<longrightarrow> (deadline (calls s x) \<noteq> 0 \<longleftrightarrow> x \<in> set xs)" "\<forall>x. period (calls s x) < 2 ^ 62"
    "timely n s" "49 \<le> n" "n \<le> 65000" "quick L"
  shows "\<exists>s'. hrt_call_enter L e s = Some s' \<and> timely n s' \<and> untouched s s' \<and>
    (deadline (calls s e) \<noteq> 0 \<longrightarrow> queue_ok s' (place (\<lambda>e. deadline (calls s' e)) e xs))"
proof -
  obtain s' where s': "hrt_call_enter L e s = Some s'" "sq_repr (callout_queue s') (place (\<lambda>e. deadline (calls s e)) e xs)"
    "timely n s'" "untouched s s'"
    using enter_places [OF assms(1,3,6-9)] by blast
  have c: "calls s' = calls s" using s'(4) by (simp add: untouched_def)
  have "queue_ok s' (place (\<lambda>e. deadline (calls s' e)) e xs)" if "deadline (calls s e) \<noteq> 0"
  proof -
    have "deadline (calls s x) \<noteq> 0 \<longleftrightarrow> x \<in> insert e (set xs)" for x using assms(3,4) that by (cases "x = e") auto
    then show ?thesis unfolding queue_ok_def c using s'(2) sorted_place [OF assms(2)] assms(5) by simp
  qed
  with s' show ?thesis by blast
qed

lemma internal_ok:
  assumes "queue_ok s xs" "timely n s" "49 \<le> n" "n \<le> 65000" "quick L" "i < 2 ^ 62"
  shows "\<exists>s'. hrt_call_internal L e d i f a s = Some s' \<and> timely n s' \<and> hw_time s \<le> hw_time s' \<and>
    called s' = called s \<and> calls s' = (calls s)(e := \<lparr>deadline = d, period = i, callout = f, arg = a\<rparr>) \<and>
    (d \<noteq> 0 \<longrightarrow> queue_ok s' (place (\<lambda>e. deadline (calls s' e)) e (remove1 e xs)))"
proof -
  let ?c = "(calls s)(e := \<lparr>deadline = d, period = i, callout = f, arg = a\<rparr>)"
  obtain q where q: "(if deadline (calls s e) \<noteq> 0 then map_option (\<lambda>q. s\<lparr>callout_queue := q\<rparr>) (sq_rem e (callout_queue s)) else Some s)
      = Some (s\<lparr>callout_queue := q\<rparr>)" "sq_repr q (remove1 e xs)"
  proof (cases "deadline (calls s e) \<noteq> 0")
    case True
    then show ?thesis using that sq_rem_repr [OF queue_okD(1) [OF assms(1)], of e] by auto
  next
    case False
    then have "e \<notin> set xs" using queue_okD(3) [OF assms(1)] by blast
    then have "remove1 e xs = xs" by (rule remove1_idem)
    then show ?thesis using that [of "callout_queue s"] queue_okD(1) [OF assms(1)] False by simp
  qed
  let ?s = "s\<lparr>callout_queue := q, calls := ?c\<rparr>"
  have e: "e \<notin> set (remove1 e xs)" "set (remove1 e xs) = set xs - {e}" using queue_okD(2) [OF assms(1)] by simp_all
  have "sorted (map (\<lambda>x. deadline (calls ?s x)) (remove1 e xs))"
    using sorted_remove1_map [OF queue_okD(5) [OF assms(1)], of e] e(1) by (simp add: map_upd_notin del: fun_upd_apply)
  moreover have "\<forall>x. x \<noteq> e \<longrightarrow> (deadline (calls ?s x) \<noteq> 0 \<longleftrightarrow> x \<in> set (remove1 e xs))"
    using queue_okD(3) [OF assms(1)] e(2) by simp
  moreover have "\<forall>x. period (calls ?s x) < 2 ^ 62" using queue_okD(4) [OF assms(1)] assms(6) by simp
  ultimately obtain s' where s': "hrt_call_enter L e ?s = Some s'" "timely n s'" "untouched ?s s'"
    "deadline (calls ?s e) \<noteq> 0 \<longrightarrow> queue_ok s' (place (\<lambda>e. deadline (calls s' e)) e (remove1 e xs))"
    using enter_ok [of ?s "remove1 e xs" e n L] q(2) e(1) assms(2-5) by auto
  then show ?thesis using q(1) by (auto simp: hrt_call_internal_def untouched_def)
qed

lemma nonzero_deadline:
  assumes "h < 2 ^ 62" "0 < d" "d < 2 ^ 62"
  shows "(word_of_nat h :: u64) + d \<noteq> 0"
proof -
  have "unat d < 2 ^ 62" using assms(3) by (simp add: word_less_nat_alt)
  moreover have h: "unat (word_of_nat h :: u64) = h" using assms(1) by (simp add: unat_of_nat take_bit_nat_eq_self)
  ultimately have "unat ((word_of_nat h :: u64) + d) = h + unat d" using assms(1) by (subst unat_add_lem [THEN iffD1]) simp_all
  moreover have "0 < unat d" using assms(2) by (simp add: word_less_nat_alt)
  ultimately show ?thesis by (metis add_gr_0 less_numeral_extra(3) unsigned_0)
qed

lemma cancel_ok:
  assumes "queue_ok s xs" "timely n s"
  shows "\<exists>s'. hrt_cancel e s = Some s' \<and> timely n s' \<and> hw_time s' = hw_time s \<and> called s' = called s \<and>
    deadline (calls s' e) = 0 \<and> period (calls s' e) = 0 \<and> queue_ok s' (remove1 e xs)"
proof -
  obtain q where q: "sq_rem e (callout_queue s) = Some q" "sq_repr q (remove1 e xs)"
    using sq_rem_repr [OF queue_okD(1) [OF assms(1)]] by blast
  let ?s = "s\<lparr>callout_queue := q, calls := (calls s)(e := (calls s e)\<lparr>deadline := 0, period := 0\<rparr>)\<rparr>"
  have e: "e \<notin> set (remove1 e xs)" "set (remove1 e xs) = set xs - {e}" using queue_okD(2) [OF assms(1)] by simp_all
  have "queue_ok ?s (remove1 e xs)"
    using q(2) sorted_remove1_map [OF queue_okD(5) [OF assms(1)], of e] e queue_okD(3,4) [OF assms(1)]
    unfolding queue_ok_def by (simp add: map_upd_notin del: fun_upd_apply) simp
  then show ?thesis using q(1) assms(2) by (simp add: hrt_cancel_def)
qed

lemma request_ok:
  assumes "queue_ok s xs" "timely n s" "49 \<le> n" "n \<le> 65000" "quick L" "request_fits r"
  shows "\<exists>s'. request_step L r s = Some s' \<and> timely n s' \<and> hw_time s \<le> hw_time s' \<and> called s' = called s \<and>
    (hw_time s' < 2 ^ 62 \<longrightarrow> queue_ok s' (request_spec r (\<lambda>e. deadline (calls s' e)) xs))"
proof -
  have later: "\<exists>s'. (case hrt_absolute_time L s of (now, s1) \<Rightarrow> hrt_call_internal L e (now + d) i f a s1) = Some s' \<and>
      timely n s' \<and> hw_time s \<le> hw_time s' \<and> called s' = called s \<and>
      (hw_time s' < 2 ^ 62 \<longrightarrow> queue_ok s' (place (\<lambda>e. deadline (calls s' e)) e (remove1 e xs)))"
    if "0 < d" "d < 2 ^ 62" "i < 2 ^ 62" for e d i f a
  proof -
    obtain s1 where s1: "hrt_absolute_time L s = (word_of_nat (hw_time s1), s1)" "timely 0 s1" "untouched s s1"
      "callout_queue s1 = callout_queue s"
      using read_timely [OF assms(2,4,5)] by blast
    have "queue_ok s1 xs" using assms(1) s1(3,4) by (simp add: queue_ok_def untouched_def)
    from internal_ok [OF this timely_mono [OF s1(2)] assms(3-5) that(3), of e "word_of_nat (hw_time s1) + d" f a]
      nonzero_deadline [OF _ that(1,2), of "hw_time s1"]
    show ?thesis using s1(1,3) by (fastforce simp: untouched_def)
  qed
  show ?thesis
  proof (cases r)
    case (Call_after e d f a)
    then show ?thesis using later [of d 0 e f a] assms(6) by (simp add: hrt_call_after_def)
  next
    case (Call_at e t f a)
    then show ?thesis using internal_ok [OF assms(1-5), of 0 e t f a] assms(6) by (fastforce simp: hrt_call_at_def)
  next
    case (Call_every e d i f a)
    then show ?thesis using later [of d i e f a] assms(6) by (simp add: hrt_call_every_def)
  next
    case (Cancel e)
    then show ?thesis using cancel_ok [OF assms(1,2), of e] by auto
  qed
qed

section \<open>The dispatcher\<close>

text \<open>Time goes on, and neither the decoder nor the statistics change.\<close>

definition passes :: "hrt \<Rightarrow> hrt \<Rightarrow> bool" where
  "passes s s' \<longleftrightarrow> hw_time s \<le> hw_time s' \<and> ppm s' = ppm s \<and> latency_counters s' = latency_counters s"

lemma passes_trans [trans]: "passes s s' \<Longrightarrow> passes s' s'' \<Longrightarrow> passes s s''"
  by (simp add: passes_def)

lemma passes_time: "passes s s' \<Longrightarrow> hw_time s \<le> hw_time s'"
  by (simp add: passes_def)

text \<open>
  What a callout may do to the timer: make requests and let up to 10 milliseconds pass, but not arm the entry it is
  called for periodically.
\<close>

definition callouts_ok :: "(nat \<Rightarrow> nat \<Rightarrow> hrt \<Rightarrow> hrt option) \<Rightarrow> bool" where
  "callouts_ok E \<longleftrightarrow> (\<forall>f a s s' xs. queue_ok s xs \<longrightarrow> timely 49 s \<longrightarrow> E f a s = Some s' \<longrightarrow> hw_time s' < 2 ^ 62 \<longrightarrow>
     (\<exists>xs'. queue_ok s' xs') \<and> timely 10000 s' \<and>
     (\<forall>e. callout (calls s e) = Some f \<longrightarrow> arg (calls s e) = a \<longrightarrow> deadline (calls s e) = 0 \<longrightarrow>
        period (calls s' e) = 0 \<or> deadline (calls s' e) = 0)) \<and>
   (\<forall>f a s s'. E f a s = Some s' \<longrightarrow> passes s s')"

lemma callouts_okD:
  assumes "callouts_ok E" "E f a s = Some s'"
  shows "passes s s'"
    and "queue_ok s xs \<Longrightarrow> timely 49 s \<Longrightarrow> hw_time s' < 2 ^ 62 \<Longrightarrow> (\<exists>xs'. queue_ok s' xs') \<and> timely 10000 s' \<and>
      (\<forall>e. callout (calls s e) = Some f \<longrightarrow> arg (calls s e) = a \<longrightarrow> deadline (calls s e) = 0 \<longrightarrow>
        period (calls s' e) = 0 \<or> deadline (calls s' e) = 0)"
  using assms unfolding callouts_ok_def by blast+

lemma reschedule_time: "passes s (hrt_call_reschedule L s)"
  by (simp add: passes_def hrt_call_reschedule_def hrt_absolute_time_def Let_def timer_access_def)

lemma read_time: "hrt_absolute_time L s = (now, s1) \<Longrightarrow> passes s s1"
  by (auto simp: passes_def hrt_absolute_time_def Let_def timer_access_def)

lemma enter_time: "hrt_call_enter L e s = Some s' \<Longrightarrow> passes s s'"
  using reschedule_time [of "s\<lparr>callout_queue := sq_addfirst e (callout_queue s)\<rparr>" L]
  by (auto simp: passes_def hrt_call_enter_def Let_def bind_eq_Some_conv split: option.splits if_splits)

lemma nonzero_next_deadline:
  assumes "d \<le> word_of_nat h" "h < 2 ^ 62" "p \<noteq> 0" "p < (2 ^ 62 :: u64)"
  shows "d + p \<noteq> 0"
proof -
  have "unat (word_of_nat h :: u64) = h" using assms(2) by (simp add: unat_of_nat take_bit_nat_eq_self)
  then have "unat d < 2 ^ 62" "unat p < 2 ^ 62" using assms by (simp_all add: word_le_nat_alt word_less_nat_alt)
  then have "unat (d + p) = unat d + unat p" by (subst unat_add_lem [THEN iffD1]) simp_all
  moreover have "0 < unat p" using assms(3) by (simp add: unat_gt_0)
  ultimately show ?thesis by (metis add_gr_0 less_numeral_extra(3) unsigned_0)
qed

text \<open>The state in which the function of the first entry is called.\<close>

definition taken :: "u64 \<Rightarrow> nat \<Rightarrow> nat sq \<Rightarrow> hrt \<Rightarrow> hrt" where
  "taken now call q s = s\<lparr>callout_queue := q, calls := (calls s)(call := (calls s call)\<lparr>deadline := 0\<rparr>),
     called := called s @ [(call, now)]\<rparr>"

lemma expire_taken:
  "expire L E now call s =
     Option.bind (sq_rem call (callout_queue s)) (\<lambda>q.
       Option.bind (case callout (calls s call) of None \<Rightarrow> Some (taken now call q s)
                    | Some f \<Rightarrow> E f (arg (calls s call)) (taken now call q s)) (\<lambda>s2.
         if period (calls s2 call) \<noteq> 0
         then hrt_call_enter L call (s2\<lparr>calls := (calls s2)(call := (calls s2 call)
                \<lparr>deadline := deadline (calls s call) + period (calls s2 call)\<rparr>)\<rparr>)
         else Some s2))"
  unfolding expire_def Let_def taken_def ..

lemma expire_time:
  assumes "callouts_ok E" "expire L E now call s = Some s'"
  shows "passes s s'"
proof -
  obtain q s2 where q: "(case callout (calls s call) of None \<Rightarrow> Some (taken now call q s)
        | Some f \<Rightarrow> E f (arg (calls s call)) (taken now call q s)) = Some s2"
    "(if period (calls s2 call) \<noteq> 0 then hrt_call_enter L call (s2\<lparr>calls := (calls s2)(call := (calls s2 call)
        \<lparr>deadline := deadline (calls s call) + period (calls s2 call)\<rparr>)\<rparr>) else Some s2) = Some s'"
    using assms(2) by (auto simp: expire_taken bind_eq_Some_conv)
  have "passes s (taken now call q s)" by (simp add: passes_def taken_def)
  also have "passes (taken now call q s) s2"
    using q(1) callouts_okD(1) [OF assms(1)] by (cases "callout (calls s call)") (auto simp: passes_def)
  also have "passes s2 s'"
    using q(2) enter_time [of L call _ s'] by (cases "period (calls s2 call) = 0") (fastforce simp: passes_def)+
  finally show ?thesis .
qed

lemma taken_ok:
  assumes "queue_ok s (call # xs)" "timely n s"
  shows "\<exists>q. sq_rem call (callout_queue s) = Some q \<and> queue_ok (taken now call q s) xs \<and> timely n (taken now call q s)"
proof -
  obtain q where q: "sq_rem call (callout_queue s) = Some q" "sq_repr q xs"
    using sq_rem_repr [OF queue_okD(1) [OF assms(1)], of call] by auto
  have e: "call \<notin> set xs" using queue_okD(2) [OF assms(1)] by simp
  have "queue_ok (taken now call q s) xs"
    using q(2) queue_okD(5) [OF assms(1)] queue_okD(3,4) [OF assms(1)] e
    unfolding queue_ok_def taken_def by (simp add: map_upd_notin del: fun_upd_apply) simp
  with q(1) assms(2) show ?thesis by (simp add: taken_def)
qed

lemma invoke_unfold:
  "hrt_call_invoke L E s = (let (now, s1) = hrt_absolute_time L s
     in case sq_head (callout_queue s1) of
          None \<Rightarrow> Some s1
        | Some call \<Rightarrow>
            if now < deadline (calls s1 call) then Some s1
            else Option.bind (expire L E now call s1) (hrt_call_invoke L E))"
  by (subst hrt_call_invoke.simps) simp

lemma invoke_induct [consumes 1, case_names stop go]:
  assumes "hrt_call_invoke L E s = Some s'"
    and stop: "\<And>s now s1. hrt_absolute_time L s = (now, s1) \<Longrightarrow>
      (case sq_head (callout_queue s1) of None \<Rightarrow> True | Some call \<Rightarrow> now < deadline (calls s1 call)) \<Longrightarrow> P s s1"
    and go: "\<And>s now s1 call s2 s'. hrt_absolute_time L s = (now, s1) \<Longrightarrow> sq_head (callout_queue s1) = Some call \<Longrightarrow>
      deadline (calls s1 call) \<le> now \<Longrightarrow> expire L E now call s1 = Some s2 \<Longrightarrow> P s2 s' \<Longrightarrow> P s s'"
  shows "P s s'"
proof -
  have "L' = L \<longrightarrow> E' = E \<longrightarrow> P s s'" if "hrt_call_invoke L' E' s = Some s'" for L' E' s s'
    using that
  proof (rule hrt_call_invoke.raw_induct [rotated])
    fix invoke L' E' s s'
    assume IH: "\<And>L' E' s s'. invoke L' E' s = Some s' \<Longrightarrow> L' = L \<longrightarrow> E' = E \<longrightarrow> P s s'"
    assume eq: "(case hrt_absolute_time L' s of (now, s1) \<Rightarrow>
        case sq_head (callout_queue s1) of None \<Rightarrow> Some s1
        | Some call \<Rightarrow> if now < deadline (calls s1 call) then Some s1
            else Option.bind (expire L' E' now call s1) (invoke L' E')) = Some s'"
    show "L' = L \<longrightarrow> E' = E \<longrightarrow> P s s'"
    proof (intro impI)
      assume "L' = L" "E' = E"
      obtain now s1 where r: "hrt_absolute_time L s = (now, s1)" by fastforce
      show "P s s'"
      proof (cases "case sq_head (callout_queue s1) of None \<Rightarrow> True | Some call \<Rightarrow> now < deadline (calls s1 call)")
        case True
        then have "s' = s1" using eq r \<open>L' = L\<close> by (auto split: option.splits)
        then show ?thesis using stop [OF r True] by simp
      next
        case False
        then obtain call where call: "sq_head (callout_queue s1) = Some call" "deadline (calls s1 call) \<le> now"
          by (auto simp: not_less split: option.splits)
        then obtain s2 where "expire L E now call s1 = Some s2" "invoke L E s2 = Some s'"
          using eq r \<open>L' = L\<close> \<open>E' = E\<close> by (auto simp: bind_eq_Some_conv not_less [symmetric])
        then show ?thesis using go [OF r call] IH by blast
      qed
    qed
  qed
  then show ?thesis using assms(1) by blast
qed

lemma invoke_time:
  assumes "hrt_call_invoke L E s = Some s'" "callouts_ok E"
  shows "passes s s'"
  using assms
proof (induction rule: invoke_induct)
  case (stop s now s1)
  then show ?case using read_time by blast
next
  case (go s now s1 call s2 s')
  then show ?case using read_time [OF go(1)] expire_time [OF go(6,4)] by (blast intro: passes_trans)
qed

lemma expire_ok:
  assumes "callouts_ok E" "quick L" "queue_ok s (call # xs)" "timely 0 s" "deadline (calls s call) \<le> word_of_nat (hw_time s)"
    and "expire L E now call s = Some s'" "hw_time s' < 2 ^ 62"
  shows "(\<exists>xs'. queue_ok s' xs') \<and> timely 10000 s'"
proof -
  obtain q where q: "sq_rem call (callout_queue s) = Some q" "queue_ok (taken now call q s) xs" "timely 0 (taken now call q s)"
    using taken_ok [OF assms(3,4)] by blast
  obtain s2 where s2: "(case callout (calls s call) of None \<Rightarrow> Some (taken now call q s)
      | Some f \<Rightarrow> E f (arg (calls s call)) (taken now call q s)) = Some s2"
    and s': "(if period (calls s2 call) \<noteq> 0 then hrt_call_enter L call (s2\<lparr>calls := (calls s2)(call := (calls s2 call)
        \<lparr>deadline := deadline (calls s call) + period (calls s2 call)\<rparr>)\<rparr>) else Some s2) = Some s'"
    using assms(6) q(1) by (auto simp: expire_taken bind_eq_Some_conv)
  have "hw_time s2 \<le> hw_time s'" using s' enter_time by (fastforce simp: passes_def split: if_splits)
  then have b2: "hw_time s2 < 2 ^ 62" using assms(7) by simp
  have tk: "callout (calls (taken now call q s) call) = callout (calls s call)" "arg (calls (taken now call q s) call) = arg (calls s call)"
    "deadline (calls (taken now call q s) call) = 0"
    by (simp_all add: taken_def)
  have "(\<exists>xs'. queue_ok s2 xs') \<and> timely 10000 s2 \<and> (period (calls s2 call) = 0 \<or> deadline (calls s2 call) = 0)"
  proof (cases "callout (calls s call)")
    case None
    then have "s2 = taken now call q s" using s2 by simp
    then show ?thesis using q(2) timely_mono [OF q(3), of 10000] tk(3) by auto
  next
    case (Some f)
    then have E: "E f (arg (calls s call)) (taken now call q s) = Some s2" using s2 by simp
    show ?thesis using callouts_okD(2) [OF assms(1) E q(2) timely_mono [OF q(3)] b2] tk Some by auto
  qed
  then obtain xs' where x: "queue_ok s2 xs'" "timely 10000 s2" "period (calls s2 call) = 0 \<or> deadline (calls s2 call) = 0"
    by blast
  show ?thesis
  proof (cases "period (calls s2 call) = 0")
    case True
    then show ?thesis using s' x by auto
  next
    case False
    let ?d = "deadline (calls s call) + period (calls s2 call)"
    let ?s = "s2\<lparr>calls := (calls s2)(call := (calls s2 call)\<lparr>deadline := ?d\<rparr>)\<rparr>"
    have out: "call \<notin> set xs'" using x(3) False queue_okD(3) [OF x(1), of call] by simp
    have "hw_time s \<le> hw_time s'" using expire_time [OF assms(1,6)] by (rule passes_time)
    then have nz: "?d \<noteq> 0"
      using nonzero_next_deadline [OF assms(5) _ False queue_okD(4) [OF x(1)]] assms(7) by simp
    have f: "sq_repr (callout_queue ?s) xs'" "sorted (map (\<lambda>e. deadline (calls ?s e)) xs')"
      "\<forall>x. x \<noteq> call \<longrightarrow> (deadline (calls ?s x) \<noteq> 0 \<longleftrightarrow> x \<in> set xs')" "\<forall>x. period (calls ?s x) < 2 ^ 62" "timely 10000 ?s"
      using queue_okD [OF x(1)] out x(2) by (simp_all add: map_upd_notin del: fun_upd_apply) simp_all
    from enter_ok [OF f(1,2) out f(3-5) _ _ assms(2)] obtain s'' where "hrt_call_enter L call ?s = Some s''" "timely 10000 s''"
      "deadline (calls ?s call) \<noteq> 0 \<longrightarrow> queue_ok s'' (place (\<lambda>e. deadline (calls s'' e)) call xs')"
      by auto
    then show ?thesis using s' False nz by auto
  qed
qed


lemma invoke_ok:
  assumes "hrt_call_invoke L E s = Some s'" "callouts_ok E" "quick L" "queue_ok s xs" "timely 60100 s" "hw_time s' < 2 ^ 62"
  shows "(\<exists>xs'. queue_ok s' xs') \<and> timely 0 s'"
proof -
  have "hw_time s \<le> hw_time s' \<and> (\<forall>xs. queue_ok s xs \<longrightarrow> timely 60100 s \<longrightarrow> hw_time s' < 2 ^ 62 \<longrightarrow>
      (\<exists>xs'. queue_ok s' xs') \<and> timely 0 s')"
    using assms(1)
  proof (induction rule: invoke_induct)
    case (stop s now s1)
    show ?case
    proof (intro conjI allI impI)
      show "hw_time s \<le> hw_time s1" using read_time [OF stop(1)] by (rule passes_time)
    next
      fix xs
      assume "queue_ok s xs" "timely 60100 s"
      with read_timely [OF _ _ assms(3), of 60100 s] stop(1) have "timely 0 s1 \<and> untouched s s1 \<and> callout_queue s1 = callout_queue s"
        by auto
      with \<open>queue_ok s xs\<close> show "\<exists>xs'. queue_ok s1 xs'" "timely 0 s1" by (auto simp: queue_ok_def untouched_def)
    qed
  next
    case (go s now s1 call s2 s')
    have time: "hw_time s \<le> hw_time s1" "hw_time s1 \<le> hw_time s2"
      using read_time [OF go(1)] expire_time [OF assms(2) go(4)] by (simp_all add: passes_def)
    have "(\<exists>xs'. queue_ok s' xs') \<and> timely 0 s'" if *: "queue_ok s xs" "timely 60100 s" "hw_time s' < 2 ^ 62" for xs
    proof -
      have r: "now = word_of_nat (hw_time s1)" "timely 0 s1" "untouched s s1 \<and> callout_queue s1 = callout_queue s"
        using read_timely [OF *(2) _ assms(3)] go(1) by auto
      have q: "queue_ok s1 xs" using *(1) r(3) by (simp add: queue_ok_def untouched_def)
      then obtain ys where ys: "xs = call # ys"
        using go(2) sq_head_repr [OF queue_okD(1) [OF q]] by (auto split: list.splits)
      have b: "hw_time s2 < 2 ^ 62" using *(3) go(5) by simp
      have "(\<exists>zs. queue_ok s2 zs) \<and> timely 10000 s2"
        using expire_ok [OF assms(2,3) q [unfolded ys] r(2) _ go(4) b] go(3) r(1) by simp
      then show ?thesis using go(5) *(3) timely_mono [of 10000 s2 60100] by auto
    qed
    with time go(5) show ?case by auto
  qed
  with assms(4-6) show ?thesis by blast
qed

section \<open>The decoder stays in its arrays\<close>

definition ppm_ok :: "ppm_decoder \<Rightarrow> bool" where
  "ppm_ok p \<longleftrightarrow> length (ppm_buffer p) = 12 \<and> length (ppm_temp_buffer p) = 12 \<and> length (ppm_edge_history p) = 32 \<and>
     length (ppm_pulse_history p) = 32 \<and> ppm_edge_next p < 32 \<and> ppm_pulse_next p < 32 \<and> next_channel p \<le> 12 \<and>
     ppm_decoded_channels p \<le> 12"

lemma ppm_error_ok: "ppm_ok p \<Longrightarrow> ppm_ok (ppm_error p)"
  by (simp add: ppm_ok_def ppm_error_def)

lemma ppm_mark_ok:
  assumes "ppm_ok p"
  shows "\<exists>p'. ppm_mark count p = Some p' \<and> ppm_ok p'"
  using assms by (auto simp: ppm_mark_def ppm_ok_def ppm_error_def Let_def PPM_MAX_CHANNELS_def)

lemma ppm_switch_ok:
  assumes "ppm_ok p"
  shows "\<exists>p'. ppm_switch width count p = Some p' \<and> ppm_ok p'"
  using assms ppm_mark_ok [OF assms] ppm_error_ok [OF assms]
  by (cases "phase p") (simp_all add: ppm_switch_def, simp_all add: ppm_ok_def)

lemma start_pulse_ok:
  assumes "ppm_ok (ppm s)" "timely n s" "49 \<le> n" "n \<le> 65000" "quick L"
  shows "\<exists>s'. ppm_start_pulse L s = Some s' \<and> ppm_ok (ppm s') \<and> timely n s' \<and> hw_time s \<le> hw_time s' \<and>
    callout_queue s' = callout_queue s \<and> calls s' = calls s \<and> called s' = called s \<and> latency_counters s' = latency_counters s"
proof -
  obtain s1 where s1: "hrt_absolute_time L s = (word_of_nat (hw_time s1), s1)" "timely 0 s1" "untouched s s1"
    "callout_queue s1 = callout_queue s"
    using read_timely [OF assms(2,4,5)] by blast
  have "timely n s1" using timely_mono [OF s1(2)] by simp
  then show ?thesis using s1 assms(1,2)
    by (auto simp: ppm_start_pulse_def Let_def ppm_ok_def PPM_MAX_CHANNELS_def untouched_def min_def)
qed

lemma hrt_decode_ok:
  assumes "ppm_ok (ppm s)" "timely n s" "49 \<le> n" "n \<le> 65000" "quick L"
  shows "\<exists>s'. hrt_ppm_decode L status s = Some s' \<and> ppm_ok (ppm s') \<and> timely n s' \<and> hw_time s \<le> hw_time s' \<and>
    callout_queue s' = callout_queue s \<and> calls s' = calls s \<and> called s' = called s \<and> latency_counters s' = latency_counters s"
proof (cases "status AND GTIM_SR_CC3OF = 0")
  case False
  then show ?thesis using assms ppm_error_ok by (simp add: hrt_ppm_decode_def Let_def)
next
  case True
  let ?count = "ucast (rCCR_PPM s) :: u16"
  let ?width = "?count - last_edge (ppm s)"
  let ?p1 = "(ppm s)\<lparr>last_edge := ?count, ppm_edge_history := (ppm_edge_history (ppm s))[ppm_edge_next (ppm s) := ?width],
      ppm_edge_next := if 32 \<le> ppm_edge_next (ppm s) + 1 then 0 else ppm_edge_next (ppm s) + 1\<rparr>"
  have p1: "ppm_ok ?p1" using assms(1) by (auto simp: ppm_ok_def)
  have "ppm_edge_next (ppm s) < length (ppm_edge_history (ppm s))" using assms(1) by (simp add: ppm_ok_def)
  then have d: "hrt_ppm_decode L status s =
      (if PPM_MIN_START \<le> uint ?width then ppm_start_pulse L (s\<lparr>ppm := ?p1\<rparr>)
       else map_option (\<lambda>p2. s\<lparr>ppm := p2\<rparr>) (ppm_switch ?width ?count ?p1))"
    using True unfolding hrt_ppm_decode_def Let_def by simp
  show ?thesis
  proof (cases "PPM_MIN_START \<le> uint ?width")
    case True
    then show ?thesis using start_pulse_ok [of "s\<lparr>ppm := ?p1\<rparr>" n L] p1 assms(2-5) unfolding d by simp
  next
    case False
    obtain p2 where "ppm_switch ?width ?count ?p1 = Some p2" "ppm_ok p2" using ppm_switch_ok [OF p1] by blast
    then show ?thesis using False assms(2) unfolding d by simp
  qed
qed

section \<open>The timer as a whole\<close>

text \<open>
  What happens to the timer: time passes, tasks make requests or read the clock, and interrupts are handled. The
  environment keeps one promise: everything happens at most 10 milliseconds after the last compare match that was not
  handled yet, i.e. interrupts are not held off for longer. A handled match is over: the compare unit goes on and matches
  again when the counter next reaches the compare register, whether or not the handler has set a new value.
\<close>

definition compare_goes_on :: "u32 \<Rightarrow> hrt \<Rightarrow> hrt" where
  "compare_goes_on status s =
     (if status AND GTIM_SR_CC1IF \<noteq> 0 \<and> match_at s \<le> hw_time s then s\<lparr>match_at := next_match (rCCR_HRT s) (hw_time s)\<rparr>
      else s)"

definition timer_inv :: "hrt \<Rightarrow> bool" where
  "timer_inv s \<longleftrightarrow> (\<exists>xs. queue_ok s xs) \<and> timely 60100 s \<and> ppm_ok (ppm s) \<and> length (latency_counters s) = 9"

definition not_late :: "hrt \<Rightarrow> bool" where
  "not_late s \<longleftrightarrow> hw_time s \<le> match_at s + 10000 \<and> hw_time s < 2 ^ 62"

definition zeroed :: "hrt \<Rightarrow> bool" where
  "zeroed s \<longleftrightarrow> base_time s = 0 \<and> last_count s = 0 \<and> (\<forall>e. deadline (calls s e) = 0 \<and> period (calls s e) = 0) \<and>
     latency_counters s = replicate 9 0 \<and> ppm_buffer (ppm s) = replicate 12 0 \<and> ppm_decoded_channels (ppm s) = 0 \<and>
     ppm_edge_history (ppm s) = replicate 32 0 \<and> ppm_edge_next (ppm s) = 0 \<and> ppm_pulse_history (ppm s) = replicate 32 0 \<and>
     ppm_pulse_next (ppm s) = 0 \<and> ppm_temp_buffer (ppm s) = replicate 12 0 \<and> next_channel (ppm s) = 0 \<and>
     phase (ppm s) = UNSYNCH"

inductive timer_run :: "(nat \<Rightarrow> nat) \<Rightarrow> (nat \<Rightarrow> nat \<Rightarrow> hrt \<Rightarrow> hrt option) \<Rightarrow> hrt \<Rightarrow> bool" for L E where
  run_start: "zeroed s \<Longrightarrow> timer_run L E (hrt_init s)"
| run_wait: "timer_run L E s \<Longrightarrow> not_late (s\<lparr>hw_time := hw_time s + d\<rparr>) \<Longrightarrow> timer_run L E (s\<lparr>hw_time := hw_time s + d\<rparr>)"
| run_capture: "timer_run L E s \<Longrightarrow> timer_run L E (s\<lparr>rCCR_PPM := c\<rparr>)"
| run_read: "timer_run L E s \<Longrightarrow> not_late s \<Longrightarrow> hrt_absolute_time L s = (now, s') \<Longrightarrow> timer_run L E s'"
| run_request: "timer_run L E s \<Longrightarrow> not_late s \<Longrightarrow> request_fits r \<Longrightarrow> request_step L r s = Some s' \<Longrightarrow> hw_time s' < 2 ^ 62 \<Longrightarrow>
    timer_run L E s'"
| run_interrupt: "timer_run L E s \<Longrightarrow> not_late s \<Longrightarrow> hrt_tim_isr L E status s = Some s' \<Longrightarrow> hw_time s' < 2 ^ 62 \<Longrightarrow>
    timer_run L E (compare_goes_on status s')"

lemma latency_index_bound: "latency_index bs l \<le> length bs"
  by (induction bs) auto

lemma latency_update_ok:
  assumes "length (latency_counters s) = 9"
  shows "\<exists>s'. hrt_latency_update s = Some s' \<and> length (latency_counters s') = 9 \<and> ppm s' = ppm s \<and> timely n s' = timely n s \<and>
    callout_queue s' = callout_queue s \<and> calls s' = calls s \<and> hw_time s' = hw_time s \<and> called s' = called s"
  using latency_index_bound [of latency_buckets "latency_actual s - latency_baseline s"] assms
  by (simp add: hrt_latency_update_def Let_def latency_buckets_def)

lemma internal_time: "hrt_call_internal L e d i f a s = Some s' \<Longrightarrow> passes s s'"
  using enter_time [of L e _ s'] by (fastforce simp: hrt_call_internal_def bind_eq_Some_conv passes_def split: if_splits)

lemma request_time: "request_step L r s = Some s' \<Longrightarrow> passes s s'"
proof (cases r)
  case (Cancel e)
  then show "request_step L r s = Some s' \<Longrightarrow> passes s s'" by (auto simp: hrt_cancel_def passes_def)
qed (auto simp: hrt_call_after_def hrt_call_at_def hrt_call_every_def split: prod.splits
    dest!: internal_time read_time intro: passes_trans)

lemma access_timely: "timely n s \<Longrightarrow> quick L \<Longrightarrow> timely (n + 49) (timer_access L s)"
  using quick_bound [of L "accesses s"] by (fastforce simp: timely_def clock_at_def)

lemma not_late_timely: "timely n s \<Longrightarrow> not_late s \<Longrightarrow> timely 60000 s"
  by (fastforce simp: timely_def not_late_def)

text \<open>The handler up to the callouts.\<close>

lemma isr_prefix:
  assumes "timer_inv s" "quick L" "not_late s"
  shows "\<exists>s3. (if status AND (GTIM_SR_CC3IF OR GTIM_SR_CC3OF) \<noteq> 0
        then hrt_ppm_decode L status ((timer_access L s)\<lparr>latency_actual := ucast (rCNT (timer_access L s))\<rparr>)
        else Some ((timer_access L s)\<lparr>latency_actual := ucast (rCNT (timer_access L s))\<rparr>)) = Some s3 \<and>
    (\<exists>xs. queue_ok s3 xs) \<and> timely 60049 s3 \<and> ppm_ok (ppm s3) \<and> length (latency_counters s3) = 9 \<and>
    callout_queue s3 = callout_queue s \<and> calls s3 = calls s \<and> called s3 = called s \<and> hw_time s \<le> hw_time s3"
proof -
  let ?s = "(timer_access L s)\<lparr>latency_actual := ucast (rCNT (timer_access L s))\<rparr>"
  obtain xs where xs: "queue_ok s xs" using assms(1) by (auto simp: timer_inv_def)
  have t: "timely 60049 ?s" using access_timely [of 60000 s L] not_late_timely assms by (auto simp: timer_inv_def)
  have i: "ppm_ok (ppm ?s)" "length (latency_counters ?s) = 9" using assms(1) by (simp_all add: timer_inv_def)
  show ?thesis
  proof (cases "status AND (GTIM_SR_CC3IF OR GTIM_SR_CC3OF) = 0")
    case True
    have "queue_ok ?s xs" using queue_ok_upd [OF xs] by simp
    then show ?thesis using True t i by auto
  next
    case False
    obtain s3 where s3: "hrt_ppm_decode L status ?s = Some s3" "ppm_ok (ppm s3)" "timely 60049 s3" "hw_time ?s \<le> hw_time s3"
      "callout_queue s3 = callout_queue ?s" "calls s3 = calls ?s" "called s3 = called ?s" "latency_counters s3 = latency_counters ?s"
      using hrt_decode_ok [OF i(1) t _ _ assms(2)] by auto
    have "queue_ok s3 xs" using queue_ok_upd [OF xs] s3(5,6) by simp
    then show ?thesis using False s3 i(2) by auto
  qed
qed

lemma isr_ok:
  assumes "timer_inv s" "quick L" "callouts_ok E" "not_late s" "hrt_tim_isr L E status s = Some s'" "hw_time s' < 2 ^ 62"
  shows "timer_inv s' \<and> (status AND GTIM_SR_CC1IF \<noteq> 0 \<longrightarrow> hw_time s' < match_at s')"
proof -
  obtain s3 xs where s3: "(if status AND (GTIM_SR_CC3IF OR GTIM_SR_CC3OF) \<noteq> 0
        then hrt_ppm_decode L status ((timer_access L s)\<lparr>latency_actual := ucast (rCNT (timer_access L s))\<rparr>)
        else Some ((timer_access L s)\<lparr>latency_actual := ucast (rCNT (timer_access L s))\<rparr>)) = Some s3"
    "queue_ok s3 xs" "timely 60049 s3" "ppm_ok (ppm s3)" "length (latency_counters s3) = 9"
    using isr_prefix [OF assms(1,2,4)] by blast
  have isr: "hrt_tim_isr L E status s = (if status AND GTIM_SR_CC1IF \<noteq> 0
      then Option.bind (hrt_latency_update s3) (\<lambda>s4. map_option (hrt_call_reschedule L) (hrt_call_invoke L E s4)) else Some s3)"
    unfolding hrt_tim_isr_def Let_def s3(1) by simp
  show ?thesis
  proof (cases "status AND GTIM_SR_CC1IF = 0")
    case True
    then have "s' = s3" using assms(5) isr by simp
    then show ?thesis using True s3(2-5) timely_mono [OF s3(3), of 60100] by (auto simp: timer_inv_def)
  next
    case False
    obtain s4 where s4: "hrt_latency_update s3 = Some s4" "length (latency_counters s4) = 9" "ppm s4 = ppm s3"
      "timely 60049 s4" "callout_queue s4 = callout_queue s3" "calls s4 = calls s3"
      using latency_update_ok [OF s3(5), of 60049] s3(3) by auto
    obtain s5 where s5: "hrt_call_invoke L E s4 = Some s5" "s' = hrt_call_reschedule L s5"
      using assms(5) isr False s4(1) by auto
    have p: "passes s4 s5" "passes s5 s'" using invoke_time [OF s5(1) assms(3)] reschedule_time s5(2) by blast+
    then have b: "hw_time s5 < 2 ^ 62" using assms(6) by (simp add: passes_def)
    have "queue_ok s4 xs" using queue_ok_upd [OF s3(2) s4(5,6)] .
    from invoke_ok [OF s5(1) assms(3,2) this timely_mono [OF s4(4)] b] obtain ys where ys: "queue_ok s5 ys" "timely 0 s5"
      by auto
    from reschedule_timely [OF ys(2) _ assms(2)] have r: "timely 49 s'" "untouched s5 s'" "callout_queue s' = callout_queue s5"
      "hw_time s' < match_at s'" unfolding s5(2) by auto
    have "queue_ok s' ys" using queue_ok_upd [OF ys(1) r(3)] r(2) by (simp add: untouched_def)
    then show ?thesis using r timely_mono [OF r(1)] p s4(2,3) s3(4) by (auto simp: timer_inv_def passes_def)
  qed
qed

lemma run_inv:
  assumes "timer_run L E s" "quick L" "callouts_ok E"
  shows "timer_inv s"
  using assms
proof (induction rule: timer_run.induct)
  case (run_start s)
  have "queue_ok (hrt_init s) []"
    using run_start(1) by (simp add: queue_ok_def hrt_init_def sq_init_repr zeroed_def)
  moreover have "next_match 1000 0 = 1000" by (simp add: next_match_def)
  then have "clock_at 0 (hrt_init s)" "match_at (hrt_init s) = 1000" using run_start(1)
    by (simp_all add: clock_at_def hrt_init_def zeroed_def)
  then have "timely 60100 (hrt_init s)" by (fastforce simp: timely_def hrt_init_def)
  ultimately show ?case using run_start(1) by (auto simp: timer_inv_def hrt_init_def zeroed_def ppm_ok_def)
next
  case (run_wait s d)
  then obtain xs where xs: "queue_ok s xs" "timely 60100 s" "ppm_ok (ppm s)" "length (latency_counters s) = 9"
    by (auto simp: timer_inv_def)
  let ?s = "s\<lparr>hw_time := hw_time s + d\<rparr>"
  from xs(2) obtain t where "clock_at t s" "match_at s \<le> t + 50000" by (auto simp: timely_def)
  then have "timely 60000 ?s" using run_wait(2) by (fastforce simp: timely_def not_late_def clock_at_def)
  moreover have "queue_ok ?s xs" using queue_ok_upd [OF xs(1)] by simp
  ultimately show ?case using xs(3,4) timely_mono [of 60000 ?s 60100] by (auto simp: timer_inv_def)
next
  case (run_capture s c)
  then obtain xs where xs: "queue_ok s xs" "timely 60100 s" by (auto simp: timer_inv_def)
  then have "queue_ok (s\<lparr>rCCR_PPM := c\<rparr>) xs" "timely 60100 (s\<lparr>rCCR_PPM := c\<rparr>)"
    using queue_ok_upd by (simp_all add: timely_def clock_at_def queue_ok_def)
  with run_capture show ?case by (auto simp: timer_inv_def)
next
  case (run_read s now s')
  then obtain xs where xs: "queue_ok s xs" "timely 60000 s" "ppm_ok (ppm s)" "length (latency_counters s) = 9"
    using not_late_timely by (auto simp: timer_inv_def)
  from read_timely [OF xs(2) _ run_read(5)] run_read(3) have s': "timely 0 s'" "untouched s s'" "callout_queue s' = callout_queue s"
    by auto
  then have "queue_ok s' xs" using queue_ok_upd [OF xs(1)] by (simp add: untouched_def)
  then show ?case using s' xs(3,4) timely_mono [OF s'(1)] by (auto simp: timer_inv_def untouched_def)
next
  case (run_request s r s')
  then obtain xs where xs: "queue_ok s xs" "timely 60000 s" "ppm_ok (ppm s)" "length (latency_counters s) = 9"
    using not_late_timely by (auto simp: timer_inv_def)
  from request_ok [OF xs(1,2) _ _ run_request(7,3)] run_request(4,5)
  have "timely 60000 s'" "\<exists>xs. queue_ok s' xs" by auto
  moreover have "ppm s' = ppm s" "latency_counters s' = latency_counters s"
    using request_time [OF run_request(4)] by (simp_all add: passes_def)
  ultimately show ?case using xs(3,4) timely_mono [of 60000 s' 60100] by (simp add: timer_inv_def)
next
  case (run_interrupt s status s')
  then have "timer_inv s' \<and> (status AND GTIM_SR_CC1IF \<noteq> 0 \<longrightarrow> hw_time s' < match_at s')" using isr_ok by blast
  then show ?case by (auto simp: compare_goes_on_def)
qed

section \<open>Callouts that leave the timer alone\<close>

abbreviation quiet :: "nat \<Rightarrow> nat \<Rightarrow> hrt \<Rightarrow> hrt option" where
  "quiet f a \<equiv> Some"

lemma quiet_ok: "callouts_ok quiet"
  by (auto simp: callouts_ok_def passes_def intro: timely_mono)

lemma expire_once:
  assumes "queue_ok s (call # xs)" "timely 0 s" "period (calls s call) = 0"
  shows "\<exists>s'. expire L quiet now call s = Some s' \<and> queue_ok s' xs \<and> timely 0 s' \<and> hw_time s' = hw_time s \<and>
    called s' = called s @ [(call, now)] \<and> calls s' = (calls s)(call := (calls s call)\<lparr>deadline := 0\<rparr>)"
proof -
  obtain q where q: "sq_rem call (callout_queue s) = Some q" "queue_ok (taken now call q s) xs" "timely 0 (taken now call q s)"
    using taken_ok [OF assms(1,2)] by blast
  have "expire L quiet now call s = Some (taken now call q s)"
    using q(1) assms(3) by (simp add: expire_taken taken_def split: option.split)
  with q(2,3) show ?thesis by (simp add: taken_def)
qed

lemma due_in_order:
  assumes "queue_ok s xs" "timely 60000 s" "quick L" "\<forall>e\<in>set xs. period (calls s e) = 0"
  shows "\<exists>s' ys zs ts. hrt_call_invoke L quiet s = Some s' \<and> xs = ys @ zs \<and> called s' = called s @ zip ys ts \<and>
    list_all2 (\<lambda>e t. deadline (calls s e) \<le> t) ys ts \<and> queue_ok s' zs \<and> timely 0 s' \<and>
    (\<forall>e\<in>set ys. hrt_called e s') \<and> (\<forall>e. e \<notin> set ys \<longrightarrow> calls s' e = calls s e) \<and>
    (\<forall>e\<in>set zs. word_of_nat (hw_time s') < deadline (calls s' e))"
  using assms(1,2,4)
proof (induction xs arbitrary: s)
  case Nil
  obtain s1 where s1: "hrt_absolute_time L s = (word_of_nat (hw_time s1), s1)" "timely 0 s1" "untouched s s1"
    "callout_queue s1 = callout_queue s"
    using read_timely [OF Nil(2) _ assms(3)] by auto
  have q: "queue_ok s1 []" using queue_ok_upd [OF Nil(1)] s1(3,4) by (simp add: untouched_def)
  then have "hrt_call_invoke L quiet s = Some s1"
    using s1(1) sq_head_repr [OF queue_okD(1) [OF q]] by (simp add: invoke_unfold)
  then show ?case using q s1(2,3) by (auto simp: untouched_def)
next
  case (Cons x xs)
  obtain s1 where s1: "hrt_absolute_time L s = (word_of_nat (hw_time s1), s1)" "timely 0 s1" "untouched s s1"
    "callout_queue s1 = callout_queue s"
    using read_timely [OF Cons.prems(2) _ assms(3)] by auto
  have c: "calls s1 = calls s" "called s1 = called s" using s1(3) by (simp_all add: untouched_def)
  have q: "queue_ok s1 (x # xs)" using queue_ok_upd [OF Cons.prems(1)] s1(3,4) by (simp add: untouched_def)
  have h: "sq_head (callout_queue s1) = Some x" using sq_head_repr [OF queue_okD(1) [OF q]] by simp
  show ?case
  proof (cases "word_of_nat (hw_time s1) < deadline (calls s1 x)")
    case True
    then have "hrt_call_invoke L quiet s = Some s1" using s1(1) h by (simp add: invoke_unfold)
    moreover have "\<forall>e\<in>set (x # xs). word_of_nat (hw_time s1) < deadline (calls s1 e)"
      using True queue_okD(5) [OF q] by fastforce
    ultimately show ?thesis using q s1(2) c
      by (intro exI [of _ s1] exI [of _ "[]"] exI [of _ "x # xs"] exI [of _ "[]"]) simp
  next
    case False
    obtain s2 where s2: "expire L quiet (word_of_nat (hw_time s1)) x s1 = Some s2" "queue_ok s2 xs" "timely 0 s2"
      "called s2 = called s1 @ [(x, word_of_nat (hw_time s1))]" "calls s2 = (calls s1)(x := (calls s1 x)\<lparr>deadline := 0\<rparr>)"
      using expire_once [OF q s1(2), of L] Cons.prems(3) c by auto
    have x: "x \<notin> set xs" using queue_okD(2) [OF q] by simp
    then have "\<forall>e\<in>set xs. period (calls s2 e) = 0" using Cons.prems(3) s2(5) c by auto
    from Cons.IH [OF s2(2) timely_mono [OF s2(3)] this] obtain s' ys zs ts where IH:
      "hrt_call_invoke L quiet s2 = Some s'" "xs = ys @ zs" "called s' = called s2 @ zip ys ts"
      "list_all2 (\<lambda>e t. deadline (calls s2 e) \<le> t) ys ts" "queue_ok s' zs" "timely 0 s'"
      "\<forall>e\<in>set ys. hrt_called e s'" "\<forall>e. e \<notin> set ys \<longrightarrow> calls s' e = calls s2 e"
      "\<forall>e\<in>set zs. word_of_nat (hw_time s') < deadline (calls s' e)"
      by auto
    have "hrt_call_invoke L quiet s = Some s'" using s1(1) h False s2(1) IH(1) by (subst invoke_unfold) simp
    moreover have "list_all2 (\<lambda>e t. deadline (calls s e) \<le> t) ys ts"
      using IH(4) by (rule list.rel_mono_strong) (use x IH(2) s2(5) c in \<open>auto split: if_splits\<close>)
    moreover have "hrt_called x s'" using IH(8) x IH(2) s2(5) by (simp add: hrt_called_def)
    ultimately show ?thesis using IH x False s2(4,5) c
      by (intro exI [of _ s'] exI [of _ "x # ys"] exI [of _ zs] exI [of _ "word_of_nat (hw_time s1) # ts"])
        (auto simp: not_less)
  qed
qed

text \<open>A periodic callout alone in the queue.\<close>

lemma reschedule_duration: "quick L \<Longrightarrow> hw_time (hrt_call_reschedule L s) \<le> hw_time s + 98"
  using quick_bound [of L "accesses s"] quick_bound [of L "accesses s + 1"]
  by (simp add: hrt_call_reschedule_def hrt_absolute_time_def Let_def timer_access_def)

lemma expire_again:
  assumes "queue_ok s [e]" "timely 0 s" "quick L" "period (calls s e) \<noteq> 0"
    and "deadline (calls s e) + period (calls s e) \<noteq> 0"
  shows "\<exists>s'. expire L quiet now e s = Some s' \<and> queue_ok s' [e] \<and> timely 49 s' \<and> hw_time s' \<le> hw_time s + 98 \<and>
    called s' = called s @ [(e, now)] \<and>
    calls s' = (calls s)(e := (calls s e)\<lparr>deadline := deadline (calls s e) + period (calls s e)\<rparr>)"
proof -
  obtain q where q: "sq_rem e (callout_queue s) = Some q" "queue_ok (taken now e q s) []" "timely 0 (taken now e q s)"
    using taken_ok [OF assms(1,2)] by blast
  let ?c = "(calls s)(e := (calls s e)\<lparr>deadline := deadline (calls s e) + period (calls s e)\<rparr>)"
  let ?s = "(taken now e q s)\<lparr>calls := ?c\<rparr>"
  have "expire L quiet now e s = hrt_call_enter L e ?s"
    using q(1) assms(4) by (simp add: expire_taken taken_def split: option.split)
  moreover have "sq_head (callout_queue ?s) = None" using sq_head_repr [OF queue_okD(1) [OF q(2)]] by (simp add: taken_def)
  then have "hrt_call_enter L e ?s = Some (hrt_call_reschedule L (?s\<lparr>callout_queue := sq_addfirst e (callout_queue ?s)\<rparr>))"
    by (simp add: hrt_call_enter_def Let_def)
  moreover have f: "sq_repr (callout_queue ?s) []" "\<forall>x. x \<noteq> e \<longrightarrow> (deadline (calls ?s x) \<noteq> 0 \<longleftrightarrow> x \<in> set [])"
    "\<forall>x. period (calls ?s x) < 2 ^ 62" "timely 49 ?s"
    using queue_okD(1) [OF q(2)] queue_okD(3,4) [OF assms(1)] timely_mono [OF q(3), of 49] by simp_all
  from enter_ok [OF f(1) _ _ f(2-4) _ _ assms(3)] obtain s' where "hrt_call_enter L e ?s = Some s'" "timely 49 s'" "untouched ?s s'"
    "queue_ok s' (place (\<lambda>e. deadline (calls s' e)) e [])"
    using assms(5) by auto
  ultimately show ?thesis
    using reschedule_duration [OF assms(3), of "?s\<lparr>callout_queue := sq_addfirst e (callout_queue ?s)\<rparr>"]
    by (auto simp: untouched_def taken_def place_def)
qed

lemma catches_up:
  assumes "quick L" "200 \<le> p" "p < 2 ^ 62"
  shows "queue_ok s [e] \<Longrightarrow> timely 60000 s \<Longrightarrow> period (calls s e) = p \<Longrightarrow>
    int (hw_time s) + 3 * (int (hw_time s) - uint (deadline (calls s e))) < 2 ^ 61 \<Longrightarrow> hw_time s < 2 ^ 62 - 1000 \<Longrightarrow>
    \<exists>s' n. hrt_call_invoke L quiet s = Some s' \<and> queue_ok s' [e] \<and> timely 0 s' \<and> hw_time s' < 2 ^ 62 \<and>
      map fst (called s') = map fst (called s) @ replicate n e \<and>
      deadline (calls s' e) = deadline (calls s e) + word_of_nat n * p \<and> word_of_nat (hw_time s') < deadline (calls s' e) \<and>
      (0 < n \<longrightarrow> deadline (calls s' e) - p \<le> word_of_nat (hw_time s'))"
proof (induction "nat (int (hw_time s) + 3 * (int (hw_time s) - uint (deadline (calls s e))) + 200)" arbitrary: s rule: less_induct)
  case less
  let ?d = "deadline (calls s e)"
  obtain s1 where s1: "hrt_absolute_time L s = (word_of_nat (hw_time s1), s1)" "hw_time s1 = hw_time s + L (accesses s)"
    "timely 0 s1" "untouched s s1" "callout_queue s1 = callout_queue s"
    using read_timely [OF less.prems(2) _ assms(1)] by auto
  have c: "calls s1 = calls s" "called s1 = called s" using s1(4) by (simp_all add: untouched_def)
  have q: "queue_ok s1 [e]" using queue_ok_upd [OF less.prems(1)] s1(5) c by simp
  have h: "sq_head (callout_queue s1) = Some e" using sq_head_repr [OF queue_okD(1) [OF q]] by simp
  have lag: "hw_time s1 \<le> hw_time s + 49" using s1(2) quick_bound [OF assms(1), of "accesses s"] by simp
  show ?case
  proof (cases "word_of_nat (hw_time s1) < ?d")
    case True
    then have "hrt_call_invoke L quiet s = Some s1" using s1(1) h c by (simp add: invoke_unfold)
    then show ?thesis using True q s1(3) c lag less.prems(5) by (intro exI [of _ s1] exI [of _ 0]) simp
  next
    case False
    have now: "uint (word_of_nat (hw_time s1) :: u64) \<le> int (hw_time s1)"
      by (simp add: unsigned_of_nat take_bit_eq_mod)
    have d: "uint ?d \<le> int (hw_time s1)" using False now by (simp add: word_less_def)
    have ilag: "int (hw_time s1) \<le> int (hw_time s) + 49" using lag by simp
    have bound: "h1 < m + 200" if "h + 3 * (h - x) < m" "h1 \<le> h + 49" "x \<le> h1" for h h1 x m :: int
      using that by presburger
    have "int (hw_time s1) < 2 ^ 61 + 200" by (rule bound [OF less.prems(4) ilag d])
    then have hb: "hw_time s1 < 2 ^ 61 + 200" by simp
    have p: "200 \<le> uint p" "uint p < 2 ^ 62" using assms(2,3) by (simp_all add: word_le_def word_less_def)
    have sum: "uint (?d + p) = uint ?d + uint p" using d hb p(2) by (intro uint_add_lem [THEN iffD1]) simp
    then have nz: "?d + p \<noteq> 0" using p(1) uint_ge_0 [of ?d] by (metis add_nonneg_pos less_irrefl less_le_trans uint_0_eq zero_less_numeral)
    have "deadline (calls s1 e) + period (calls s1 e) \<noteq> 0" "period (calls s1 e) \<noteq> 0"
      using nz p(1) less.prems(3) c by auto
    from expire_again [OF q s1(3) assms(1) this(2,1), of "word_of_nat (hw_time s1)"] obtain s2 where s2:
      "expire L quiet (word_of_nat (hw_time s1)) e s1 = Some s2" "queue_ok s2 [e]" "timely 49 s2" "hw_time s2 \<le> hw_time s1 + 98"
      "called s2 = called s1 @ [(e, word_of_nat (hw_time s1))]"
      "calls s2 = (calls s1)(e := (calls s1 e)\<lparr>deadline := deadline (calls s1 e) + period (calls s1 e)\<rparr>)"
      by blast
    have d2: "deadline (calls s2 e) = ?d + p" "period (calls s2 e) = p" using s2(6) c less.prems(3) by simp_all
    let ?m = "int (hw_time s) + 3 * (int (hw_time s) - uint ?d)"
    let ?m2 = "int (hw_time s2) + 3 * (int (hw_time s2) - uint (deadline (calls s2 e)))"
    have "int (hw_time s2) \<le> int (hw_time s1) + 98" using s2(4) by simp
    moreover have "h2 + 3 * (h2 - (x + y)) < h + 3 * (h - x) \<and> - 200 < h + 3 * (h - x)"
      if "h2 \<le> h1 + 98" "h1 \<le> h + 49" "200 \<le> y" "x \<le> h1" "0 \<le> h" for h h1 h2 x y :: int
      using that by presburger
    ultimately have m: "?m2 < ?m" "- 200 < ?m"
      using ilag p(1) d unfolding d2(1) sum by simp_all
    have m2: "?m2 < 2 ^ 61" by (rule less_trans [OF m(1) less.prems(4)])
    have "?m2 + 200 < ?m + 200" "0 < ?m + 200" using m by simp_all
    then have "nat (?m2 + 200) < nat (?m + 200)" by (simp only: nat_mono_iff)
    moreover have "hw_time s2 < 2 ^ 62 - 1000" using s2(4) hb by simp
    ultimately obtain s' n where IH: "hrt_call_invoke L quiet s2 = Some s'" "queue_ok s' [e]" "timely 0 s'" "hw_time s' < 2 ^ 62"
      "map fst (called s') = map fst (called s2) @ replicate n e"
      "deadline (calls s' e) = deadline (calls s2 e) + word_of_nat n * p" "word_of_nat (hw_time s') < deadline (calls s' e)"
      "0 < n \<longrightarrow> deadline (calls s' e) - p \<le> word_of_nat (hw_time s')"
      using less.hyps [of s2] s2(2) timely_mono [OF s2(3)] d2(2) m2 by auto
    have "hrt_call_invoke L quiet s = Some s'" using s1(1) h False s2(1) IH(1) c by (subst invoke_unfold) simp
    moreover have "hw_time s1 \<le> hw_time s'"
      using passes_time [OF expire_time [OF quiet_ok s2(1)]] passes_time [OF invoke_time [OF IH(1) quiet_ok]] by simp
    then have "(word_of_nat (hw_time s1) :: u64) \<le> word_of_nat (hw_time s')"
      using IH(4) by (simp add: word_le_nat_alt unat_of_nat take_bit_nat_eq_self)
    then have "?d \<le> word_of_nat (hw_time s')" using False by simp
    moreover have "deadline (calls s' e) = ?d + word_of_nat (Suc n) * p" using IH(6) d2(1) by (simp add: algebra_simps)
    ultimately show ?thesis using IH(2-5,7,8) s2(5) c d2(1)
      by (intro exI [of _ s'] exI [of _ "Suc n"]) (cases n; simp)
  qed
qed

section \<open>A callout that arms its own entry periodically\<close>

lemma cyclic_position:
  assumes "links e = Some e" "\<not> d < dl e"
  shows "insert_position links dl d e = None"
proof (rule ccontr)
  assume "insert_position links dl d e \<noteq> None"
  then obtain y where "insert_position links dl d e = Some y" by blast
  then have "links e = Some e \<longrightarrow> \<not> d < dl e \<longrightarrow> False"
  proof (rule insert_position.raw_induct [rotated])
    fix walk links dl d e y
    assume "\<And>links dl d e y. walk links dl d e = Some y \<Longrightarrow> links e = Some e \<longrightarrow> \<not> d < dl e \<longrightarrow> False"
      "(case links e of None \<Rightarrow> Some e | Some next \<Rightarrow> if d < dl next then Some e else walk links dl d next) = Some y"
    then show "links e = Some e \<longrightarrow> \<not> d < dl e \<longrightarrow> False"
      by (fastforce split: if_splits)
  qed
  with assms show False by blast
qed

lemma cyclic_prev:
  assumes "links e = Some e" "n \<noteq> e"
  shows "sq_prev links n (Some e) = None"
proof (rule ccontr)
  assume "sq_prev links n (Some e) \<noteq> None"
  then obtain y where "sq_prev links n (Some e) = Some y" by blast
  then have "Some e = Some e \<longrightarrow> links e = Some e \<longrightarrow> n \<noteq> e \<longrightarrow> False"
  proof (rule sq_prev.raw_induct [rotated, where P = "\<lambda>links n p y. p = Some e \<longrightarrow> links e = Some e \<longrightarrow> n \<noteq> e \<longrightarrow> False"])
    fix walk links n p y
    assume "\<And>links n p y. walk links n p = Some y \<Longrightarrow> p = Some e \<longrightarrow> links e = Some e \<longrightarrow> n \<noteq> e \<longrightarrow> False"
      "(case p of None \<Rightarrow> Some None | Some p' \<Rightarrow> if links p' \<noteq> Some n then walk links n (links p') else Some (Some p')) = Some y"
    then show "p = Some e \<longrightarrow> links e = Some e \<longrightarrow> n \<noteq> e \<longrightarrow> False"
      by (fastforce split: if_splits)
  qed
  with assms show False by blast
qed

definition cyclic :: "nat \<Rightarrow> hrt \<Rightarrow> bool" where
  "cyclic e s \<longleftrightarrow> sq_head (callout_queue s) = Some e \<and> sq_flink (callout_queue s) e = Some e"

lemma cyclic_hangs:
  assumes "cyclic e s" "x \<noteq> e" "deadline (calls s e) \<le> t"
  shows "hrt_call_at L x t f a s = None"
proof (cases "deadline (calls s x) \<noteq> 0")
  case True
  then have "sq_rem x (callout_queue s) = None"
    using assms(1,2) cyclic_prev [of "sq_flink (callout_queue s)" e x] by (simp add: sq_rem_def cyclic_def)
  then show ?thesis using True by (simp add: hrt_call_at_def hrt_call_internal_def)
next
  case False
  let ?s = "s\<lparr>calls := (calls s)(x := \<lparr>deadline = t, period = 0, callout = f, arg = a\<rparr>)\<rparr>"
  have "\<not> deadline (calls ?s x) < deadline (calls ?s e)" using assms(2,3) by simp
  then have "hrt_call_enter L x ?s = None"
    using assms(1) cyclic_position [of "sq_flink (callout_queue s)" e "deadline (calls ?s x)" "\<lambda>e. deadline (calls ?s e)"]
    by (simp add: hrt_call_enter_def Let_def cyclic_def)
  then show ?thesis using False by (simp add: hrt_call_at_def hrt_call_internal_def)
qed

lemma rearming_cyclic:
  assumes "queue_ok s [e]" "timely 0 s" "quick L" "callout (calls s e) = Some f" "i \<noteq> 0" "i < 2 ^ 62"
  shows "\<exists>s'. expire L (\<lambda>g b. hrt_call_every L e d i (Some f) a) now e s = Some s' \<and> cyclic e s'"
proof -
  obtain q where q: "sq_rem e (callout_queue s) = Some q" "queue_ok (taken now e q s) []" "timely 0 (taken now e q s)"
    using taken_ok [OF assms(1,2)] by blast
  let ?s1 = "taken now e q s"
  obtain s2 where s2: "hrt_absolute_time L ?s1 = (word_of_nat (hw_time s2), s2)" "timely 0 s2" "untouched ?s1 s2"
    "callout_queue s2 = callout_queue ?s1"
    using read_timely [OF q(3) _ assms(3)] by auto
  have h: "sq_head (callout_queue s2) = None"
    using sq_head_repr [OF queue_okD(1) [OF q(2)]] s2(4) by simp
  let ?dl = "word_of_nat (hw_time s2) + d"
  have d0: "deadline (calls s2 e) = 0" using s2(3) by (simp add: untouched_def taken_def)
  let ?s3 = "s2\<lparr>calls := (calls s2)(e := \<lparr>deadline = ?dl, period = i, callout = Some f, arg = a\<rparr>),
      callout_queue := sq_addfirst e (callout_queue s2)\<rparr>"
  let ?s4 = "hrt_call_reschedule L ?s3"
  have every: "hrt_call_every L e d i (Some f) a ?s1 = Some ?s4"
    using s2(1) d0 h by (simp add: hrt_call_every_def hrt_call_internal_def hrt_call_enter_def Let_def)
  have "timely 0 ?s3" using s2(2) by simp
  from reschedule_timely [OF this _ assms(3)] have s4: "callout_queue ?s4 = sq_addfirst e (callout_queue s2)" "calls ?s4 = calls ?s3"
    by (auto simp: untouched_def)
  then have s4': "sq_head (callout_queue ?s4) = Some e" "sq_flink (callout_queue ?s4) e = None" "sq_tail (callout_queue ?s4) = Some e"
    "period (calls ?s4 e) = i" using h by (simp_all add: sq_addfirst_def)
  let ?s5 = "?s4\<lparr>calls := (calls ?s4)(e := (calls ?s4 e)\<lparr>deadline := deadline (calls s e) + period (calls ?s4 e)\<rparr>)\<rparr>"
  let ?q5 = "(callout_queue ?s4)\<lparr>sq_tail := Some e, sq_flink := (sq_flink (callout_queue ?s4))(e := None, e := Some e)\<rparr>"
  have pos: "insert_position (sq_flink (callout_queue ?s4)) dl x e = Some e" for dl x
    using s4'(2) by (subst insert_position.simps) simp
  have add: "sq_addafter e e (callout_queue ?s4) = Some ?q5"
    using s4' by (simp add: sq_addafter_def sq_addlast_def Let_def)
  have "hrt_call_enter L e ?s5 = Some (?s5\<lparr>callout_queue := ?q5\<rparr>)"
    using s4'(1) pos add by (simp add: hrt_call_enter_def Let_def)
  then have "expire L (\<lambda>g b. hrt_call_every L e d i (Some f) a) now e s = Some (?s5\<lparr>callout_queue := ?q5\<rparr>)"
    using q(1) assms(4,5) every s4'(4) by (simp add: expire_taken)
  moreover have "cyclic e (?s5\<lparr>callout_queue := ?q5\<rparr>)" using s4'(1) by (simp add: cyclic_def)
  ultimately show ?thesis by blast
qed

section \<open>Conversions and an aborted frame\<close>

lemma timespec_fields:
  assumes "unat abstime < 2 ^ 32 * 1000000"
  shows "unat (tv_sec (abstime_to_ts abstime)) = unat abstime div 1000000"
    and "unat (tv_nsec (abstime_to_ts abstime)) = unat abstime mod 1000000 * 1000"
proof -
  define q r where "q = unat abstime div 1000000" and "r = unat abstime mod 1000000"
  have a: "unat abstime = q * 1000000 + r" "r < 1000000" by (simp_all add: q_def r_def)
  have q: "q < 2 ^ 32" using assms unfolding q_def by (simp add: less_mult_imp_div_less)
  let ?sec = "ucast (abstime div 1000000) :: u32"
  have sec: "unat ?sec = q" using q by (simp add: unsigned_ucast_eq unat_div take_bit_nat_eq_self q_def)
  then show "unat (tv_sec (abstime_to_ts abstime)) = unat abstime div 1000000"
    by (simp add: abstime_to_ts_def Let_def q_def)
  define m where "m = unat (?sec * 1000000)"
  have m: "m = q * 1000000 mod 2 ^ 32" using sec by (simp add: m_def unat_word_ariths take_bit_nat_def)
  have "m \<le> unat abstime" unfolding m a(1) by (meson mod_less_eq_dividend order_trans le_add1)
  moreover have "unat (ucast (?sec * 1000000) :: u64) = m"
  proof -
    have "m < 2 ^ 32" unfolding m by simp
    then have "take_bit 64 m = m" by (intro take_bit_nat_eq_self) simp
    then show ?thesis by (simp only: unsigned_ucast_eq m_def) simp
  qed
  ultimately have rest: "unat (abstime - ucast (?sec * 1000000)) = unat abstime - m" by (simp add: unat_sub word_le_nat_alt)
  define w where "w = abstime - ucast (?sec * 1000000)"
  note rest = rest [folded w_def]
  have "unat (ucast (w * 1000) :: u32) = ((unat abstime - m) * 1000) mod 2 ^ 64 mod 2 ^ 32"
    by (simp add: unsigned_ucast_eq unat_word_ariths rest take_bit_nat_def)
  also have "\<dots> = ((unat abstime - m) * 1000) mod 2 ^ 32" by (simp add: mod_mod_cancel)
  also have "\<dots> = r * 1000"
  proof -
    obtain k where k: "q * 1000000 = m + 2 ^ 32 * k" using m by (metis mod_div_mult_eq mult.commute)
    then have "(unat abstime - m) * 1000 = r * 1000 + 2 ^ 32 * (k * 1000)" using a(1) by simp
    moreover have "r * 1000 < 2 ^ 32" using a(2) by simp
    ultimately show ?thesis by (simp only: mod_mult_self2 mod_less)
  qed
  finally show "unat (tv_nsec (abstime_to_ts abstime)) = unat abstime mod 1000000 * 1000"
    by (simp add: abstime_to_ts_def Let_def r_def w_def)
qed

lemma timespec_back:
  assumes "unat abstime < 2 ^ 32 * 1000000"
  shows "ts_to_abstime (abstime_to_ts abstime) = abstime"
proof -
  let ?ts = "abstime_to_ts abstime"
  have ns: "unat (tv_nsec ?ts) = unat abstime mod 1000000 * 1000" by (rule timespec_fields(2) [OF assms])
  have "unat abstime mod 1000000 < 1000000" by simp
  then have "unat abstime mod 1000000 * 1000 < 1000000 * 1000" by (simp only: mult_less_cancel2) simp
  then have "unat abstime mod 1000000 * 1000 < 2 ^ 31" by simp
  then have "int (unat (tv_nsec ?ts)) < 2 ^ 31" unfolding ns by simp
  then have u: "uint (tv_nsec ?ts) < 2 ^ 31" by simp
  have "sint (tv_nsec ?ts) = uint (tv_nsec ?ts)"
    unfolding sint_uint
    by (rule signed_take_bit_int_eq_self) (rule order_trans [OF _ uint_ge_0], simp, use u in simp)
  then have "sint (tv_nsec ?ts) = int (unat abstime mod 1000000 * 1000)" using ns by (metis uint_nat)
  then have "ts_to_abstime ?ts = ucast (tv_sec ?ts) * 1000000 + word_of_int (int (unat abstime mod 1000000))"
    unfolding ts_to_abstime_def Let_def by (simp add: zdiv_int [symmetric])
  also have "ucast (tv_sec ?ts) = (word_of_nat (unat abstime div 1000000) :: u64)"
    unfolding timespec_fields(1) [OF assms, symmetric] by simp
  also have "word_of_nat (unat abstime div 1000000) * 1000000 + word_of_int (int (unat abstime mod 1000000)) =
      (word_of_nat (unat abstime div 1000000 * 1000000 + unat abstime mod 1000000) :: u64)"
    by (simp only: of_nat_add of_nat_mult of_nat_numeral of_int_of_nat_eq)
  finally show ?thesis by (simp only: div_mult_mod_eq) simp
qed

lemma aborted_frame:
  assumes "ppm_ok (ppm s)" "phase (ppm s) = ACTIVE" "4 < next_channel (ppm s)" "status AND GTIM_SR_CC3OF = 0"
    and "uint (ucast (rCCR_PPM s) - last_edge (ppm s) :: u16) < PPM_MIN_START"
    and "uint (ucast (rCCR_PPM s) - last_mark (ppm s) :: u16) < PPM_MIN_CHANNEL_VALUE \<or>
      PPM_MAX_CHANNEL_VALUE < uint (ucast (rCCR_PPM s) - last_mark (ppm s) :: u16)"
    and "PPM_MIN_START \<le> uint (ucast c - ucast (rCCR_PPM s) :: u16)"
  shows "\<exists>s1 s2. hrt_ppm_decode L status s = Some s1 \<and> phase (ppm s1) = UNSYNCH \<and> ppm_decoded_channels (ppm s1) = 0 \<and>
    hrt_ppm_decode L status (s1\<lparr>rCCR_PPM := c\<rparr>) = Some s2 \<and> ppm_decoded_channels (ppm s2) = next_channel (ppm s) \<and>
    take (next_channel (ppm s)) (ppm_buffer (ppm s2)) = take (next_channel (ppm s)) (ppm_temp_buffer (ppm s))"
proof -
  let ?p = "ppm s" and ?count = "ucast (rCCR_PPM s) :: u16"
  let ?w = "?count - last_edge ?p" and ?i = "?count - last_mark ?p"
  let ?p1 = "?p\<lparr>last_edge := ?count, ppm_edge_history := (ppm_edge_history ?p)[ppm_edge_next ?p := ?w],
      ppm_edge_next := if 32 \<le> ppm_edge_next ?p + 1 then 0 else ppm_edge_next ?p + 1\<rparr>"
  let ?p2 = "?p1\<lparr>last_mark := ?count, ppm_pulse_history := (ppm_pulse_history ?p)[ppm_pulse_next ?p := ?i],
      ppm_pulse_next := if 32 \<le> ppm_pulse_next ?p + 1 then 0 else ppm_pulse_next ?p + 1\<rparr>"
  have len: "ppm_edge_next ?p < length (ppm_edge_history ?p)" "ppm_pulse_next ?p < length (ppm_pulse_history ?p)"
    using assms(1) by (simp_all add: ppm_ok_def)
  have "ppm_mark ?count ?p1 = Some (ppm_error ?p2)"
    using assms(6) len(2) unfolding ppm_mark_def Let_def by auto
  then have "ppm_switch ?w ?count ?p1 = Some (ppm_error ?p2)" using assms(2) by (simp add: ppm_switch_def)
  then have s1: "hrt_ppm_decode L status s = Some (s\<lparr>ppm := ppm_error ?p2\<rparr>)"
    using assms(4,5) len(1) unfolding hrt_ppm_decode_def Let_def by simp
  let ?s1 = "s\<lparr>ppm := ppm_error ?p2\<rparr>"
  have ok: "ppm_ok (ppm ?s1)" using assms(1) by (auto simp: ppm_ok_def ppm_error_def)
  have f: "next_channel (ppm ?s1) = next_channel ?p" "last_edge (ppm ?s1) = ?count" "ppm_temp_buffer (ppm ?s1) = ppm_temp_buffer ?p"
    by (simp_all add: ppm_error_def)
  let ?t = "?s1\<lparr>rCCR_PPM := c\<rparr>"
  let ?q = "(ppm ?s1)\<lparr>last_edge := ucast c, ppm_edge_history := (ppm_edge_history (ppm ?s1))[ppm_edge_next (ppm ?s1) := ucast c - ?count],
      ppm_edge_next := if 32 \<le> ppm_edge_next (ppm ?s1) + 1 then 0 else ppm_edge_next (ppm ?s1) + 1\<rparr>"
  have s2: "hrt_ppm_decode L status ?t = ppm_start_pulse L (?t\<lparr>ppm := ?q\<rparr>)"
  proof -
    have "ppm_edge_next (ppm ?s1) < length (ppm_edge_history (ppm ?s1))" using ok by (simp add: ppm_ok_def)
    then show ?thesis using assms(4,7) f(2) unfolding hrt_ppm_decode_def Let_def by simp
  qed
  obtain now s3 where s3: "hrt_absolute_time L (?t\<lparr>ppm := ?q\<rparr>) = (now, s3)" by fastforce
  let ?n = "next_channel ?p"
  have n: "min ?n PPM_MAX_CHANNELS = ?n" "?n \<le> length (ppm_temp_buffer ?p)" "?n \<le> length (ppm_buffer ?p)"
    using assms(1) by (simp_all add: ppm_ok_def PPM_MAX_CHANNELS_def)
  have fq: "next_channel ?q = ?n" "ppm_temp_buffer ?q = ppm_temp_buffer ?p" "ppm_buffer ?q = ppm_buffer ?p"
    by (simp_all add: ppm_error_def)
  obtain s4 where "ppm_start_pulse L (?t\<lparr>ppm := ?q\<rparr>) = Some s4" "ppm_decoded_channels (ppm s4) = ?n"
    "take ?n (ppm_buffer (ppm s4)) = take ?n (ppm_temp_buffer ?p)"
    using assms(3) s3 n fq unfolding ppm_start_pulse_def Let_def by simp
  with s1 s2 show ?thesis by (intro exI [of _ ?s1] exI [of _ s4]) (simp add: ppm_error_def)
qed

section \<open>Properties\<close>

text \<open>A timer in use: the clock was last read at time 0, the calls and the queue are as given.\<close>

definition idle_call :: hrt_call where
  "idle_call = \<lparr>deadline = 0, period = 0, callout = None, arg = 0\<rparr>"

definition idle_decoder :: ppm_decoder where
  "idle_decoder = \<lparr>ppm_buffer = replicate 12 0, ppm_decoded_channels = 0, ppm_last_valid_decode = 0,
     ppm_edge_history = replicate 32 0, ppm_edge_next = 0, ppm_pulse_history = replicate 32 0, ppm_pulse_next = 0,
     ppm_temp_buffer = replicate 12 0, last_edge = 0, last_mark = 0, next_channel = 0, phase = UNSYNCH\<rparr>"

definition timer_with :: "nat \<Rightarrow> nat sq \<Rightarrow> (nat \<Rightarrow> hrt_call) \<Rightarrow> ppm_decoder \<Rightarrow> hrt" where
  "timer_with t q c p = \<lparr>hw_time = t, accesses = 0, match_at = 1000, rCCR_HRT = 1000, rCCR_PPM = 0, base_time = 0,
     last_count = 0, callout_queue = q, calls = c, latency_baseline = 0, latency_actual = 0,
     latency_counters = replicate 9 0, called = [], ppm = p\<rparr>"

definition no_calls :: "nat sq" where
  "no_calls = \<lparr>sq_head = None, sq_tail = None, sq_flink = \<lambda>_. None\<rparr>"

lemma idle_run: "timer_run L E (hrt_init (timer_with 0 no_calls (\<lambda>_. idle_call) idle_decoder))"
  by (rule run_start) (simp add: zeroed_def timer_with_def idle_call_def idle_decoder_def)

lemma init_fields:
  "hw_time (hrt_init s) = 0" "match_at (hrt_init s) = 1000" "accesses (hrt_init s) = accesses s"
  by (simp_all add: hrt_init_def next_match_def)

lemma timer_with_timely: "t \<le> 60000 \<Longrightarrow> timely 60000 (timer_with t q c p)"
  unfolding timely_def by (rule exI [of _ 0]) (simp add: clock_at_def timer_with_def)

text \<open>
  C25. The 64-bit clock is exact: in every run of the timer in which nothing is held off for more than 10 milliseconds after
  a compare match, callouts take at most that long and register accesses less than 50 microseconds, every reading gives
  the true time, however often the 16-bit counter wrapped around. The timer itself sees to it that it is read often enough:
  whenever its interrupt handler has handled a compare match, the next match lies ahead, at most 50 milliseconds away.
\<close>

theorem clock_exact:
  assumes "timer_run L E s" "quick L" "callouts_ok E" "not_late s"
  shows "(\<exists>s'. hrt_absolute_time L s = (word_of_nat (hw_time s'), s') \<and> hw_time s' = hw_time s + L (accesses s)) \<and>
    (\<forall>status s'. status AND GTIM_SR_CC1IF \<noteq> 0 \<longrightarrow> hrt_tim_isr L E status s = Some s' \<longrightarrow> hw_time s' < 2 ^ 62 \<longrightarrow>
       hw_time s' < match_at s' \<and> match_at s' \<le> hw_time s' + 50000)"
proof -
  have inv: "timer_inv s" by (rule run_inv [OF assms(1-3)])
  then have "timely 60000 s" using not_late_timely assms(4) by (auto simp: timer_inv_def)
  moreover have "60000 \<le> (65000 :: nat)" by simp
  ultimately obtain s' where "hrt_absolute_time L s = (word_of_nat (hw_time s'), s')" "hw_time s' = hw_time s + L (accesses s)"
    using read_timely [OF _ _ assms(2)] by blast
  moreover have "hw_time s' < match_at s' \<and> match_at s' \<le> hw_time s' + 50000"
    if "status AND GTIM_SR_CC1IF \<noteq> 0" "hrt_tim_isr L E status s = Some s'" "hw_time s' < 2 ^ 62" for status s'
    using isr_ok [OF inv assms(2-4) that(2,3)] that(1) by (fastforce simp: timer_inv_def timely_def clock_at_def)
  ultimately show ?thesis by blast
qed

theorem clock_exact_witness:
  "(\<exists>s'. hrt_absolute_time (\<lambda>k. 1) ((hrt_init (timer_with 0 no_calls (\<lambda>_. idle_call) idle_decoder))\<lparr>hw_time := 10900\<rparr>) =
     (10901, s')) \<and>
   (\<exists>s'. hrt_tim_isr (\<lambda>k. 1) quiet GTIM_SR_CC1IF
       ((hrt_init (timer_with 0 no_calls (\<lambda>_. idle_call) idle_decoder))\<lparr>hw_time := 10900\<rparr>) = Some s' \<and>
     hw_time s' < match_at s' \<and> match_at s' \<le> hw_time s' + 50000)"
proof -
  let ?s = "hrt_init (timer_with 0 no_calls (\<lambda>_. idle_call) idle_decoder)"
  let ?w = "?s\<lparr>hw_time := hw_time ?s + 10900\<rparr>"
  have late: "not_late ?w" by (simp add: not_late_def init_fields)
  have run: "timer_run (\<lambda>k. 1) quiet ?w" by (rule run_wait [OF idle_run late])
  have "\<exists>s'. hrt_tim_isr (\<lambda>k. 1) quiet GTIM_SR_CC1IF ?w = Some s' \<and> hw_time s' < 2 ^ 62"
    by (simp add: hrt_tim_isr_def GTIM_SR_CC1IF_def GTIM_SR_CC3IF_def GTIM_SR_CC3OF_def push_bit_of_1 Let_def
        hrt_latency_update_def latency_buckets_def timer_access_def rCNT_def hrt_init_def timer_with_def no_calls_def
        array_get_def array_set_def hrt_call_invoke.simps hrt_absolute_time_def hrt_call_reschedule_def sq_init_def
        next_match_def)
  then obtain s' where isr: "hrt_tim_isr (\<lambda>k. 1) quiet GTIM_SR_CC1IF ?w = Some s'" "hw_time s' < 2 ^ 62" by blast
  have status: "GTIM_SR_CC1IF AND GTIM_SR_CC1IF \<noteq> 0" by (simp add: GTIM_SR_CC1IF_def push_bit_of_1)
  have quick: "quick (\<lambda>k. 1)" by (simp add: quick_def)
  have "hw_time s' < match_at s' \<and> match_at s' \<le> hw_time s' + 50000"
    using clock_exact [OF run quick quiet_ok late] status isr by blast
  moreover have "\<exists>s'. hrt_absolute_time (\<lambda>k. 1) ?w = (10901, s')"
    using clock_exact [OF run quick quiet_ok late] by (auto simp: init_fields)
  ultimately show ?thesis using isr(1) by (simp add: init_fields)
qed

text \<open>
  The callout queue is a sorted list: in every such run the queue holds exactly the entries that have a deadline, each
  once and in the order of their deadlines, and a request to call an entry takes it out if it was queued and puts
  it behind all entries whose deadline is not later; a cancelled entry is taken out.
\<close>

theorem callout_queue_sorted:
  assumes "timer_run L E s" "quick L" "callouts_ok E" "not_late s" "request_fits r"
  shows "\<exists>xs s'. queue_ok s xs \<and> request_step L r s = Some s' \<and>
    (hw_time s' < 2 ^ 62 \<longrightarrow> queue_ok s' (request_spec r (\<lambda>e. deadline (calls s' e)) xs))"
proof -
  obtain xs where xs: "queue_ok s xs" "timely 60000 s"
    using run_inv [OF assms(1-3)] not_late_timely assms(4) by (auto simp: timer_inv_def)
  with request_ok [OF xs _ _ assms(2,5)] show ?thesis by auto
qed

theorem callout_queue_sorted_witness:
  "\<exists>xs s'. request_step (\<lambda>k. 1) (Call_after 3 500 (Some 7) 0) (hrt_init (timer_with 0 no_calls (\<lambda>_. idle_call) idle_decoder)) = Some s' \<and>
    (hw_time s' < 2 ^ 62 \<longrightarrow> queue_ok s' (place (\<lambda>e. deadline (calls s' e)) 3 (remove1 3 xs)))"
proof -
  have s: "quick (\<lambda>k. 1)" "not_late (hrt_init (timer_with 0 no_calls (\<lambda>_. idle_call) idle_decoder))"
    "request_fits (Call_after 3 500 (Some 7) 0)"
    by (simp_all add: not_late_def init_fields quick_def)
  from callout_queue_sorted [OF idle_run s(1) quiet_ok s(2,3)] show ?thesis unfolding request_spec.simps by blast
qed

text \<open>
  C26. The dispatcher calls what is due, in order: with single callouts that leave the timer alone it returns, has taken
  exactly a prefix of the queue, each entry at a time not before its deadline, reports these entries as called, leaves the
  others untouched, and the deadlines of all entries left lie after its last reading of the clock.
\<close>

theorem due_callouts_in_order:
  assumes "queue_ok s xs" "timely 60000 s" "quick L" "\<forall>e\<in>set xs. period (calls s e) = 0"
  shows "\<exists>s' ys zs ts. hrt_call_invoke L quiet s = Some s' \<and> xs = ys @ zs \<and> called s' = called s @ zip ys ts \<and>
    list_all2 (\<lambda>e t. deadline (calls s e) \<le> t) ys ts \<and> queue_ok s' zs \<and>
    (\<forall>e\<in>set ys. hrt_called e s') \<and> (\<forall>e. e \<notin> set ys \<longrightarrow> calls s' e = calls s e) \<and>
    (\<forall>e\<in>set zs. word_of_nat (hw_time s') < deadline (calls s' e))"
  using due_in_order [OF assms] by blast

theorem due_callouts_in_order_witness:
  "\<exists>s' ys zs ts. hrt_call_invoke (\<lambda>k. 1) quiet (timer_with 400 \<lparr>sq_head = Some 2, sq_tail = Some 1, sq_flink = [2 \<mapsto> 1]\<rparr>
      ((\<lambda>_. idle_call)(2 := idle_call\<lparr>deadline := 300\<rparr>, 1 := idle_call\<lparr>deadline := 9000\<rparr>)) idle_decoder) = Some s' \<and>
    [2, 1] = ys @ zs \<and> map fst (called s') = ys"
proof -
  let ?c = "(\<lambda>_. idle_call)(2 := idle_call\<lparr>deadline := 300\<rparr>, 1 := idle_call\<lparr>deadline := 9000\<rparr>)"
  let ?s = "timer_with 400 \<lparr>sq_head = Some 2, sq_tail = Some 1, sq_flink = [2 \<mapsto> 1]\<rparr> ?c idle_decoder"
  have "queue_ok ?s [2, 1]" by (auto simp: queue_ok_def sq_repr_def timer_with_def idle_call_def)
  moreover have "timely 60000 ?s" by (rule timer_with_timely) simp
  moreover have "quick (\<lambda>k. 1)" by (simp add: quick_def)
  moreover have "\<forall>e\<in>set [2, 1]. period (calls ?s e) = 0" by (simp add: timer_with_def idle_call_def)
  ultimately obtain s' ys zs ts where "hrt_call_invoke (\<lambda>k. 1) quiet ?s = Some s'" "[2, 1] = ys @ zs"
    "called s' = called ?s @ zip ys ts" "list_all2 (\<lambda>e t. deadline (calls ?s e) \<le> t) ys ts"
    using due_callouts_in_order by blast
  moreover have "called ?s = []" by (simp add: timer_with_def)
  ultimately show ?thesis by (intro exI conjI) (auto dest: list_all2_lengthD)
qed

text \<open>
  A periodic callout does not drift and does not starve the interrupt: alone in the queue, with a period of at least 200
  microseconds and registers that answer within 50, the dispatcher returns however late it starts; it has called the entry
  once for every period that ended, the new deadline is the old one plus that many whole periods and lies in the future,
  at most a period ahead if anything was called.
\<close>

theorem periodic_callout_catches_up:
  assumes "queue_ok s [e]" "timely 60000 s" "quick L" "200 \<le> period (calls s e)" "hw_time s < 2 ^ 59"
  shows "\<exists>s' n. hrt_call_invoke L quiet s = Some s' \<and> queue_ok s' [e] \<and>
    map fst (called s') = map fst (called s) @ replicate n e \<and>
    deadline (calls s' e) = deadline (calls s e) + word_of_nat n * period (calls s e) \<and>
    word_of_nat (hw_time s') < deadline (calls s' e) \<and>
    (0 < n \<longrightarrow> deadline (calls s' e) - period (calls s e) \<le> word_of_nat (hw_time s'))"
proof -
  have p: "period (calls s e) < 2 ^ 62" by (rule queue_okD(4) [OF assms(1)])
  have h: "int (hw_time s) < 2 ^ 59" using assms(5) by simp
  have "h + 3 * (h - x) < 2 ^ 61" if "h < 2 ^ 59" "0 \<le> x" for h x :: int
    using that by simp
  then have "int (hw_time s) + 3 * (int (hw_time s) - uint (deadline (calls s e))) < 2 ^ 61" using h by blast
  moreover have "hw_time s < 2 ^ 62 - 1000" using assms(5) by simp
  ultimately show ?thesis using catches_up [OF assms(3,4) p assms(1,2) refl] by blast
qed

theorem periodic_callout_catches_up_witness:
  "\<exists>s' n. hrt_call_invoke (\<lambda>k. 1) quiet (timer_with 5000 \<lparr>sq_head = Some 4, sq_tail = Some 4, sq_flink = \<lambda>_. None\<rparr>
       ((\<lambda>_. idle_call)(4 := idle_call\<lparr>deadline := 1000, period := 2500\<rparr>)) idle_decoder) = Some s' \<and>
     deadline (calls s' 4) = 1000 + word_of_nat n * 2500"
proof -
  let ?s = "timer_with 5000 \<lparr>sq_head = Some 4, sq_tail = Some 4, sq_flink = \<lambda>_. None\<rparr>
       ((\<lambda>_. idle_call)(4 := idle_call\<lparr>deadline := 1000, period := 2500\<rparr>)) idle_decoder"
  have c: "period (calls ?s 4) = 2500" "deadline (calls ?s 4) = 1000" by (simp_all add: timer_with_def)
  have q: "queue_ok ?s [4]" by (auto simp: queue_ok_def sq_repr_def timer_with_def idle_call_def)
  have t: "timely 60000 ?s" by (rule timer_with_timely) simp
  have l: "quick (\<lambda>k. 1)" "200 \<le> period (calls ?s 4)" "hw_time ?s < 2 ^ 59" by (simp_all add: quick_def timer_with_def)
  from periodic_callout_catches_up [OF q t l] show ?thesis unfolding c by blast
qed

text \<open>
  A periodic callout must not arm its own entry: when a called function enters its own entry again with
  \<open>hrt_call_every\<close>, the dispatcher enters it a second time and the queue becomes a cycle; from then on a
  request to call another entry no earlier than this one never returns, with interrupts disabled.
\<close>

theorem self_rearming_hangs:
  assumes "queue_ok s [e]" "timely 0 s" "quick L" "callout (calls s e) = Some f" "i \<noteq> 0" "i < 2 ^ 62"
  shows "\<exists>s'. expire L (\<lambda>g b. hrt_call_every L e d i (Some f) a) now e s = Some s' \<and>
    (\<forall>x t g b. x \<noteq> e \<longrightarrow> deadline (calls s' e) \<le> t \<longrightarrow> hrt_call_at L x t g b s' = None)"
proof -
  obtain s' where "expire L (\<lambda>g b. hrt_call_every L e d i (Some f) a) now e s = Some s'" "cyclic e s'"
    using rearming_cyclic [OF assms, where d = d and a = a and now = now] by blast
  then show ?thesis using cyclic_hangs by blast
qed

theorem self_rearming_hangs_witness:
  "\<exists>s'. expire (\<lambda>k. 1) (\<lambda>g b. hrt_call_every (\<lambda>k. 1) 4 1000 1000 (Some 9) 0) 70
       4 (timer_with 0 \<lparr>sq_head = Some 4, sq_tail = Some 4, sq_flink = \<lambda>_. None\<rparr>
         ((\<lambda>_. idle_call)(4 := idle_call\<lparr>deadline := 60, period := 1000, callout := Some 9\<rparr>)) idle_decoder) = Some s' \<and>
     (\<forall>x t g b. x \<noteq> 4 \<longrightarrow> deadline (calls s' 4) \<le> t \<longrightarrow> hrt_call_at (\<lambda>k. 1) x t g b s' = None)"
proof -
  let ?s = "timer_with 0 \<lparr>sq_head = Some 4, sq_tail = Some 4, sq_flink = \<lambda>_. None\<rparr>
         ((\<lambda>_. idle_call)(4 := idle_call\<lparr>deadline := 60, period := 1000, callout := Some 9\<rparr>)) idle_decoder"
  have q: "queue_ok ?s [4]" by (auto simp: queue_ok_def sq_repr_def timer_with_def idle_call_def)
  have t: "timely 0 ?s" unfolding timely_def by (rule exI [of _ 0]) (simp add: clock_at_def timer_with_def)
  have l: "quick (\<lambda>k. 1)" "callout (calls ?s 4) = Some 9" "(1000 :: u64) \<noteq> 0" "(1000 :: u64) < 2 ^ 62"
    by (simp_all add: quick_def timer_with_def)
  show ?thesis by (rule self_rearming_hangs [OF q t l])
qed

text \<open>
  Times survive the conversion to seconds and nanoseconds and back, up to the last time whose seconds fit 32 bits: the
  nanoseconds are below a second although the seconds in microseconds overflow 32 bits on the way.
\<close>

theorem timespec_round_trip:
  assumes "unat abstime < 2 ^ 32 * 1000000"
  shows "ts_to_abstime (abstime_to_ts abstime) = abstime \<and>
    unat (tv_sec (abstime_to_ts abstime)) = unat abstime div 1000000 \<and>
    unat (tv_nsec (abstime_to_ts abstime)) = unat abstime mod 1000000 * 1000"
  using timespec_back [OF assms] timespec_fields [OF assms] by blast

theorem timespec_round_trip_witness:
  "ts_to_abstime (abstime_to_ts 7200000123) = 7200000123 \<and> unat (tv_nsec (abstime_to_ts 7200000123)) = 123000"
  using timespec_round_trip [of 7200000123] by simp

text \<open>
  A frame that was abandoned is published: when an interval is out of bounds after more than four channels, the
  decoder gives the frame up and reports no channels, but the next start pulse exports the channels stored so far as
  a complete frame.
\<close>

theorem aborted_frame_published:
  assumes "ppm_ok (ppm s)" "phase (ppm s) = ACTIVE" "4 < next_channel (ppm s)" "status AND GTIM_SR_CC3OF = 0"
    and "uint (ucast (rCCR_PPM s) - last_edge (ppm s) :: u16) < PPM_MIN_START"
    and "uint (ucast (rCCR_PPM s) - last_mark (ppm s) :: u16) < PPM_MIN_CHANNEL_VALUE \<or>
      PPM_MAX_CHANNEL_VALUE < uint (ucast (rCCR_PPM s) - last_mark (ppm s) :: u16)"
    and "PPM_MIN_START \<le> uint (ucast c - ucast (rCCR_PPM s) :: u16)"
  shows "\<exists>s1 s2. hrt_ppm_decode L status s = Some s1 \<and> phase (ppm s1) = UNSYNCH \<and> ppm_decoded_channels (ppm s1) = 0 \<and>
    hrt_ppm_decode L status (s1\<lparr>rCCR_PPM := c\<rparr>) = Some s2 \<and> ppm_decoded_channels (ppm s2) = next_channel (ppm s) \<and>
    take (next_channel (ppm s)) (ppm_buffer (ppm s2)) = take (next_channel (ppm s)) (ppm_temp_buffer (ppm s))"
  by (rule aborted_frame [OF assms])

theorem aborted_frame_published_witness:
  "\<exists>s1 s2. hrt_ppm_decode (\<lambda>k. 1) GTIM_SR_CC3IF ((timer_with 0 no_calls (\<lambda>_. idle_call)
         (idle_decoder\<lparr>phase := ACTIVE, next_channel := 5, last_edge := 9600, last_mark := 9300\<rparr>))\<lparr>rCCR_PPM := 9900\<rparr>) = Some s1 \<and>
     ppm_decoded_channels (ppm s1) = 0 \<and>
     hrt_ppm_decode (\<lambda>k. 1) GTIM_SR_CC3IF (s1\<lparr>rCCR_PPM := 13000\<rparr>) = Some s2 \<and> ppm_decoded_channels (ppm s2) = 5"
proof -
  let ?d = "idle_decoder\<lparr>phase := ACTIVE, next_channel := 5, last_edge := 9600, last_mark := 9300\<rparr>"
  let ?s = "(timer_with 0 no_calls (\<lambda>_. idle_call) ?d)\<lparr>rCCR_PPM := 9900\<rparr>"
  have p: "ppm ?s = ?d" "rCCR_PPM ?s = 9900" by (simp_all add: timer_with_def)
  have f: "ppm_ok (ppm ?s)" "phase (ppm ?s) = ACTIVE" "4 < next_channel (ppm ?s)" "GTIM_SR_CC3IF AND GTIM_SR_CC3OF = 0"
    unfolding p by (simp_all add: ppm_ok_def idle_decoder_def GTIM_SR_CC3IF_def GTIM_SR_CC3OF_def push_bit_of_1)
  have w: "uint (ucast (rCCR_PPM ?s) - last_edge (ppm ?s) :: u16) < PPM_MIN_START"
    "uint (ucast (rCCR_PPM ?s) - last_mark (ppm ?s) :: u16) < PPM_MIN_CHANNEL_VALUE \<or>
      PPM_MAX_CHANNEL_VALUE < uint (ucast (rCCR_PPM ?s) - last_mark (ppm ?s) :: u16)"
    "PPM_MIN_START \<le> uint (ucast (13000 :: u32) - ucast (rCCR_PPM ?s) :: u16)"
    unfolding p by (simp_all add: PPM_MIN_START_def PPM_MIN_CHANNEL_VALUE_def)
  have n: "next_channel (ppm ?s) = 5" unfolding p by simp
  from aborted_frame_published [OF f w] show ?thesis unfolding n by blast
qed

end
