(* ===== verification/Gps_Ubx.thy ===== *)
theory Gps_Ubx
  imports Bytes Calendar Float32
begin

text \<open>
  The driver for GPS receivers that speak the UBX protocol (\<open>src/apps/gps/ubx.c\<close>): the byte-wise parser
  with its packets, the reading loop with the publication of positions, the configuration of the receiver and the
  watchdog. \<open>char\<close> is unsigned on the target. What the code does outside an array, and the conversion of a float to an
  integer type it does not fit, is a fault of its own kind.
\<close>

unbundle bit_operations_syntax

datatype gps_fault = Buffer_overrun | Array_overrun | Table_overrun | Undefined_conversion

definition UBX_BUFFER_SIZE :: nat where "UBX_BUFFER_SIZE = 1000"
definition UBX_NO_OF_MESSAGES :: nat where "UBX_NO_OF_MESSAGES = 7"
definition UBX_CLASS_NAV :: u8 where "UBX_CLASS_NAV = 0x01"
definition UBX_CLASS_RXM :: u8 where "UBX_CLASS_RXM = 0x02"
definition UBX_MESSAGE_NAV_POSLLH :: u8 where "UBX_MESSAGE_NAV_POSLLH = 0x02"
definition UBX_MESSAGE_NAV_SOL :: u8 where "UBX_MESSAGE_NAV_SOL = 0x06"
definition UBX_MESSAGE_NAV_TIMEUTC :: u8 where "UBX_MESSAGE_NAV_TIMEUTC = 0x21"
definition UBX_MESSAGE_NAV_DOP :: u8 where "UBX_MESSAGE_NAV_DOP = 0x04"
definition UBX_MESSAGE_NAV_SVINFO :: u8 where "UBX_MESSAGE_NAV_SVINFO = 0x30"
definition UBX_MESSAGE_NAV_VELNED :: u8 where "UBX_MESSAGE_NAV_VELNED = 0x12"
definition UBX_MESSAGE_RXM_SVSI :: u8 where "UBX_MESSAGE_RXM_SVSI = 0x20"

lemmas ubx_numbers =
  UBX_CLASS_NAV_def UBX_CLASS_RXM_def UBX_MESSAGE_NAV_POSLLH_def UBX_MESSAGE_NAV_SOL_def UBX_MESSAGE_NAV_TIMEUTC_def
  UBX_MESSAGE_NAV_DOP_def UBX_MESSAGE_NAV_SVINFO_def UBX_MESSAGE_NAV_VELNED_def UBX_MESSAGE_RXM_SVSI_def

section \<open>State\<close>

datatype ubx_class = CLASS_UNKNOWN | NAV | RXM | ACK

datatype ubx_message = ID_UNKNOWN | NAV_POSLLH | NAV_SOL | NAV_TIMEUTC | NAV_DOP | NAV_SVINFO | NAV_VELNED | RXM_SVSI

datatype ubx_decode_state =
    UBX_DECODE_UNINIT | UBX_DECODE_GOT_SYNC1 | UBX_DECODE_GOT_SYNC2 | UBX_DECODE_GOT_CLASS
  | UBX_DECODE_GOT_MESSAGEID | UBX_DECODE_GOT_LENGTH1 | UBX_DECODE_GOT_LENGTH2

record ubx_state =
  ck_a :: u8
  ck_b :: u8
  decode_state :: ubx_decode_state
  print_errors :: bool
  rx_count :: int
  payload_size :: u16
  message_class :: ubx_class
  message_id :: ubx_message
  last_message_timestamps :: "u64 list"

record gps_position =
  gps_timestamp :: u64
  gps_counter :: u32
  time_gps_usec :: u64
  lat :: u32
  lon :: u32
  alt :: u32
  counter_pos_valid :: u16
  eph :: u16
  epv :: u16
  vel :: u16
  cog :: u16
  fix_type :: u8
  satellites_visible :: u8
  satellite_prn :: "u8 list"
  satellite_used :: "u8 list"
  satellite_elevation :: "u8 list"
  satellite_azimuth :: "u8 list"
  satellite_snr :: "u8 list"
  satellite_info_available :: u8

record ubx =
  ubx_st :: ubx_state
  ubx_gps :: gps_position
  rx_buffer :: bytes

definition ubx_decode_init :: "ubx_state \<Rightarrow> ubx_state" where
  "ubx_decode_init st = st\<lparr>ck_a := 0, ck_b := 0, rx_count := 0, decode_state := UBX_DECODE_UNINIT,
     message_class := CLASS_UNKNOWN, message_id := ID_UNKNOWN, payload_size := 0, print_errors := False\<rparr>"

definition ubx_checksum :: "u8 \<Rightarrow> u8 \<times> u8 \<Rightarrow> u8 \<times> u8" where
  "ubx_checksum b ck = (let a = fst ck + b in (a, snd ck + a))"

definition add_checksum :: "u8 \<Rightarrow> ubx_state \<Rightarrow> ubx_state" where
  "add_checksum b st = (let ck = ubx_checksum b (ck_a st, ck_b st) in st\<lparr>ck_a := fst ck, ck_b := snd ck\<rparr>)"

section \<open>Packets\<close>

text \<open>A packed field of the packet in the buffer.\<close>

definition field :: "nat \<Rightarrow> nat \<Rightarrow> bytes \<Rightarrow> bytes" where
  "field off n buf = take n (drop off buf)"

text \<open>A float converted to an unsigned integer type.\<close>

definition f32_to_unsigned :: "float_bits \<Rightarrow> ('a :: len word) option" where
  "f32_to_unsigned x = (case f32_to_int x of None \<Rightarrow> None
     | Some v \<Rightarrow> if 0 \<le> v \<and> v < 2 ^ LENGTH('a) then Some (word_of_int v) else None)"

definition F32_MILLI :: float_bits where "F32_MILLI = 0x3A83126F"

text \<open>
  The part common to all packets: with a valid checksum the position is updated and stamped and the watchdog's
  timestamp is set (\<open>t1\<close> and \<open>t2\<close> are the two readings of the clock); the parser starts over in both cases.
\<close>

definition finish_packet ::
    "bool \<Rightarrow> nat \<Rightarrow> (gps_position \<Rightarrow> gps_fault + gps_position) \<Rightarrow> u64 \<Rightarrow> u64 \<Rightarrow> ubx \<Rightarrow> gps_fault + int \<times> ubx" where
  "finish_packet valid index update t1 t2 u =
     (if valid
      then (case update (ubx_gps u) of
              Inl e \<Rightarrow> Inl e
            | Inr g \<Rightarrow> Inr (1, u\<lparr>ubx_gps := g\<lparr>gps_timestamp := t1, gps_counter := gps_counter g + 1\<rparr>,
                 ubx_st := ubx_decode_init ((ubx_st u)\<lparr>last_message_timestamps :=
                   (last_message_timestamps (ubx_st u))[index := t2]\<rparr>)\<rparr>))
      else Inr (0, u\<lparr>ubx_st := ubx_decode_init (ubx_st u)\<rparr>))"

text \<open>The checksum bytes of a packet of fixed length are where its structure has them.\<close>

definition checksum_at :: "nat \<Rightarrow> ubx \<Rightarrow> bool" where
  "checksum_at off u \<longleftrightarrow> field off 2 (rx_buffer u) = [ck_a (ubx_st u), ck_b (ubx_st u)]"

definition parse_nav_posllh :: "u64 \<Rightarrow> u64 \<Rightarrow> ubx \<Rightarrow> gps_fault + int \<times> ubx" where
  "parse_nav_posllh t1 t2 u =
     (let buf = rx_buffer u
      in finish_packet (checksum_at 28 u) 0
           (\<lambda>g. Inr (g\<lparr>lat := un_le32 (field 8 4 buf), lon := un_le32 (field 4 4 buf), alt := un_le32 (field 16 4 buf),
                       counter_pos_valid := counter_pos_valid g + 1\<rparr>)) t1 t2 u)"

definition parse_nav_sol :: "u64 \<Rightarrow> u64 \<Rightarrow> ubx \<Rightarrow> gps_fault + int \<times> ubx" where
  "parse_nav_sol t1 t2 u =
     finish_packet (checksum_at 52 u) 1 (\<lambda>g. Inr (g\<lparr>fix_type := rx_buffer u ! 10\<rparr>)) t1 t2 u"

definition parse_nav_dop :: "u64 \<Rightarrow> u64 \<Rightarrow> ubx \<Rightarrow> gps_fault + int \<times> ubx" where
  "parse_nav_dop t1 t2 u =
     (let buf = rx_buffer u
      in finish_packet (checksum_at 18 u) 3
           (\<lambda>g. Inr (g\<lparr>eph := un_le16 (field 12 2 buf), epv := un_le16 (field 10 2 buf)\<rparr>)) t1 t2 u)"

text \<open>The time is converted to seconds with \<open>mktime\<close>; the rest of a second is added in single precision.\<close>

definition packet_time :: "bytes \<Rightarrow> tm" where
  "packet_time buf =
     \<lparr>tm_sec = uint (buf ! 18), tm_min = uint (buf ! 17), tm_hour = uint (buf ! 16), tm_mday = uint (buf ! 15),
      tm_mon = uint (buf ! 14) - 1, tm_year = uint (un_le16 (field 12 2 buf)) - 1900\<rparr>"

definition parse_nav_timeutc :: "u64 \<Rightarrow> u64 \<Rightarrow> ubx \<Rightarrow> gps_fault + int \<times> ubx" where
  "parse_nav_timeutc t1 t2 u =
     (let buf = rx_buffer u
      in finish_packet (checksum_at 20 u) 2
           (\<lambda>g. case mktime (packet_time buf) of
                  None \<Rightarrow> Inl Table_overrun
                | Some epoch \<Rightarrow>
                    (case f32_to_unsigned (f32_mul (f32_of_int (sint (un_le32 (field 8 4 buf)))) F32_MILLI) of
                       None \<Rightarrow> Inl Undefined_conversion
                     | Some usec \<Rightarrow> Inr (g\<lparr>time_gps_usec := ucast epoch * 1000000 + usec\<rparr>))) t1 t2 u)"

definition parse_nav_velned :: "u64 \<Rightarrow> u64 \<Rightarrow> ubx \<Rightarrow> gps_fault + int \<times> ubx" where
  "parse_nav_velned t1 t2 u =
     (let buf = rx_buffer u
      in finish_packet (checksum_at 36 u) 5
           (\<lambda>g. case f32_to_unsigned (f32_mul (f32_of_int (sint (un_le32 (field 24 4 buf)))) F32_MILLI) of
                  None \<Rightarrow> Inl Undefined_conversion
                | Some c \<Rightarrow> Inr (g\<lparr>vel := ucast (un_le32 (field 16 4 buf)), cog := c\<rparr>)) t1 t2 u)"

definition parse_rxm_svsi :: "u64 \<Rightarrow> u64 \<Rightarrow> ubx \<Rightarrow> gps_fault + int \<times> ubx" where
  "parse_rxm_svsi t1 t2 u =
     (let buf = rx_buffer u
      in finish_packet (checksum_at (nat (rx_count (ubx_st u) - 1)) u) 6
           (\<lambda>g. Inr (g\<lparr>satellites_visible := buf ! 6\<rparr>)) t1 t2 u)"

subsection \<open>Satellites\<close>

record satellite =
  sat_prn :: u8
  sat_used :: u8
  sat_snr :: u8
  sat_elevation :: u8
  sat_azimuth :: u8

definition no_satellite :: satellite where
  "no_satellite = \<lparr>sat_prn = 0, sat_used = 0, sat_snr = 0, sat_elevation = 0, sat_azimuth = 0\<rparr>"

text \<open>One channel of the packet, from its twelve bytes.\<close>

definition read_satellite :: "bytes \<Rightarrow> gps_fault + satellite" where
  "read_satellite part =
     (let flags = part ! 2
      in if flags AND 16 = 0
         then (case f32_to_unsigned (f32_div (f32_mul (f32_of_int (sint (un_le16 (field 6 2 part)))) (f32_of_int 255)) (f32_of_int 360)) of
                 None \<Rightarrow> Inl Undefined_conversion
               | Some azimuth \<Rightarrow> Inr \<lparr>sat_prn = part ! 1, sat_used = (if flags AND 1 \<noteq> 0 then 1 else 0), sat_snr = part ! 4,
                   sat_elevation = part ! 5, sat_azimuth = azimuth\<rparr>)
         else Inr (no_satellite\<lparr>sat_prn := part ! 1\<rparr>))"

definition set_satellite :: "nat \<Rightarrow> satellite \<Rightarrow> gps_position \<Rightarrow> gps_fault + gps_position" where
  "set_satellite i s g =
     (if i < 20
      then Inr (g\<lparr>satellite_prn := (satellite_prn g)[i := sat_prn s], satellite_used := (satellite_used g)[i := sat_used s],
             satellite_elevation := (satellite_elevation g)[i := sat_elevation s],
             satellite_azimuth := (satellite_azimuth g)[i := sat_azimuth s], satellite_snr := (satellite_snr g)[i := sat_snr s]\<rparr>)
      else Inl Array_overrun)"

text \<open>The loop over the channels in the packet: \<open>i\<close> of them are stored already, \<open>n\<close> are left.\<close>

fun store_channels :: "bytes \<Rightarrow> nat \<Rightarrow> nat \<Rightarrow> gps_position \<Rightarrow> gps_fault + gps_position" where
  "store_channels buf i 0 g = Inr g"
| "store_channels buf i (Suc n) g =
     (if 8 + i * 12 + 12 \<le> length buf
      then (case read_satellite (field (8 + i * 12) 12 buf) of
              Inl e \<Rightarrow> Inl e
            | Inr s \<Rightarrow> (case set_satellite i s g of Inl e \<Rightarrow> Inl e | Inr g' \<Rightarrow> store_channels buf (i + 1) n g'))
      else Inl Buffer_overrun)"

fun clear_channels :: "nat \<Rightarrow> nat \<Rightarrow> gps_position \<Rightarrow> gps_fault + gps_position" where
  "clear_channels i 0 g = Inr g"
| "clear_channels i (Suc n) g =
     (case set_satellite i no_satellite g of Inl e \<Rightarrow> Inl e | Inr g' \<Rightarrow> clear_channels (i + 1) n g')"

text \<open>\<open>!packet_part1->numCh > 0\<close> compares the negation with 0.\<close>

definition parse_nav_svinfo :: "u64 \<Rightarrow> u64 \<Rightarrow> ubx \<Rightarrow> gps_fault + int \<times> ubx" where
  "parse_nav_svinfo t1 t2 u =
     (let buf = rx_buffer u; numCh = unat (buf ! 4)
      in finish_packet (checksum_at (nat (rx_count (ubx_st u) - 1)) u) 4
           (\<lambda>g. case store_channels buf 0 numCh g of
                  Inl e \<Rightarrow> Inl e
                | Inr g1 \<Rightarrow>
                    (case clear_channels numCh (20 - numCh) g1 of
                       Inl e \<Rightarrow> Inl e
                     | Inr g2 \<Rightarrow> Inr (g2\<lparr>satellite_info_available := if numCh = 0 then 1 else 0\<rparr>))) t1 t2 u)"

section \<open>The parser\<close>

definition parse_class :: "u8 \<Rightarrow> ubx_state \<Rightarrow> ubx_state" where
  "parse_class b st =
     (if b = UBX_CLASS_NAV then st\<lparr>decode_state := UBX_DECODE_GOT_CLASS, message_class := NAV\<rparr>
      else if b = UBX_CLASS_RXM then st\<lparr>decode_state := UBX_DECODE_GOT_CLASS, message_class := RXM\<rparr>
      else ubx_decode_init st)"

definition parse_id :: "u8 \<Rightarrow> ubx_state \<Rightarrow> ubx_state" where
  "parse_id b st =
     (let got = (\<lambda>m. st\<lparr>decode_state := UBX_DECODE_GOT_MESSAGEID, message_id := m\<rparr>)
      in case message_class st of
           NAV \<Rightarrow>
             if b = UBX_MESSAGE_NAV_POSLLH then got NAV_POSLLH
             else if b = UBX_MESSAGE_NAV_SOL then got NAV_SOL
             else if b = UBX_MESSAGE_NAV_TIMEUTC then got NAV_TIMEUTC
             else if b = UBX_MESSAGE_NAV_DOP then got NAV_DOP
             else if b = UBX_MESSAGE_NAV_SVINFO then got NAV_SVINFO
             else if b = UBX_MESSAGE_NAV_VELNED then got NAV_VELNED
             else ubx_decode_init st
         | RXM \<Rightarrow> if b = UBX_MESSAGE_RXM_SVSI then got RXM_SVSI else ubx_decode_init st
         | _ \<Rightarrow> ubx_decode_init st)"

text \<open>
  The whole packet is in the buffer. An unknown identifier does not return, so that the count of the parser that was
  just reset is increased.
\<close>

definition parse_packet :: "u64 \<Rightarrow> u64 \<Rightarrow> ubx \<Rightarrow> gps_fault + int \<times> ubx" where
  "parse_packet t1 t2 u =
     (case message_id (ubx_st u) of
        NAV_POSLLH \<Rightarrow> parse_nav_posllh t1 t2 u
      | NAV_SOL \<Rightarrow> parse_nav_sol t1 t2 u
      | NAV_DOP \<Rightarrow> parse_nav_dop t1 t2 u
      | NAV_TIMEUTC \<Rightarrow> parse_nav_timeutc t1 t2 u
      | NAV_SVINFO \<Rightarrow> parse_nav_svinfo t1 t2 u
      | NAV_VELNED \<Rightarrow> parse_nav_velned t1 t2 u
      | RXM_SVSI \<Rightarrow> parse_rxm_svsi t1 t2 u
      | ID_UNKNOWN \<Rightarrow> Inr (0, u\<lparr>ubx_st := (ubx_decode_init (ubx_st u))\<lparr>rx_count := 1\<rparr>\<rparr>))"

definition parse_payload :: "u8 \<Rightarrow> u64 \<Rightarrow> u64 \<Rightarrow> ubx \<Rightarrow> gps_fault + int \<times> ubx" where
  "parse_payload b t1 t2 u =
     (let st = ubx_st u; n = rx_count st;
          st1 = (if n < uint (payload_size st) then add_checksum b st else st)
      in if 0 \<le> n \<and> nat n < length (rx_buffer u)
         then (let u1 = u\<lparr>ubx_st := st1, rx_buffer := (rx_buffer u)[nat n := b]\<rparr>
               in if uint (payload_size st) + 1 \<le> n then parse_packet t1 t2 u1
                  else Inr (0, u1\<lparr>ubx_st := st1\<lparr>rx_count := n + 1\<rparr>\<rparr>))
         else Inl Buffer_overrun)"

definition ubx_parse :: "u8 \<Rightarrow> u64 \<Rightarrow> u64 \<Rightarrow> ubx \<Rightarrow> gps_fault + int \<times> ubx" where
  "ubx_parse b t1 t2 u =
     (let st = ubx_st u; more = (\<lambda>st. Inr (0, u\<lparr>ubx_st := st\<rparr>))
      in case decode_state st of
           UBX_DECODE_UNINIT \<Rightarrow> more (if b = 0xB5 then st\<lparr>decode_state := UBX_DECODE_GOT_SYNC1\<rparr> else st)
         | UBX_DECODE_GOT_SYNC1 \<Rightarrow>
             more (if b = 0x62 then st\<lparr>decode_state := UBX_DECODE_GOT_SYNC2\<rparr> else ubx_decode_init st)
         | UBX_DECODE_GOT_SYNC2 \<Rightarrow> more (parse_class b (add_checksum b st))
         | UBX_DECODE_GOT_CLASS \<Rightarrow> more (parse_id b (add_checksum b st))
         | UBX_DECODE_GOT_MESSAGEID \<Rightarrow>
             more ((add_checksum b st)\<lparr>payload_size := ucast b, decode_state := UBX_DECODE_GOT_LENGTH1\<rparr>)
         | UBX_DECODE_GOT_LENGTH1 \<Rightarrow>
             more ((add_checksum b st)\<lparr>payload_size := payload_size st + push_bit 8 (ucast b),
                                        decode_state := UBX_DECODE_GOT_LENGTH2\<rparr>)
         | UBX_DECODE_GOT_LENGTH2 \<Rightarrow> parse_payload b t1 t2 u)"

section \<open>The reading loop\<close>

text \<open>What \<open>poll\<close> and \<open>read\<close> deliver, with the readings of the clock the parser makes if it needs them.\<close>

datatype gps_input = Terminate | Poll_timeout | Read_failed | Read_byte u8 u64 u64

text \<open>One call of the reader; \<open>rx\<close> is its local count of bytes. Without further input it waits until the poll times out.\<close>

fun read_gps_ubx :: "gps_input list \<Rightarrow> nat \<Rightarrow> ubx \<Rightarrow> gps_fault + int \<times> gps_input list \<times> ubx" where
  "read_gps_ubx [] rx u = Inr (0, [], u)"
| "read_gps_ubx (Terminate # is) rx u = Inr (1, is, u)"
| "read_gps_ubx (Poll_timeout # is) rx u = Inr (0, is, u)"
| "read_gps_ubx (Read_failed # is) rx u = Inr (0, is, u)"
| "read_gps_ubx (Read_byte c t1 t2 # is) rx u =
     (let (rx', u') = (if UBX_BUFFER_SIZE \<le> rx then (0, u\<lparr>ubx_st := ubx_decode_init (ubx_st u)\<rparr>) else (rx + 1, u))
      in case ubx_parse c t1 t2 u' of
           Inl e \<Rightarrow> Inl e
         | Inr (msg_read, u2) \<Rightarrow> if 0 < msg_read then Inr (0, is, u2) else read_gps_ubx is rx' u2)"

text \<open>
  The thread: after every call that was not ended by the request to terminate the position is published. The positions
  published so far are collected; \<open>n\<close> bounds the number of calls.
\<close>

fun ubx_loop :: "nat \<Rightarrow> gps_input list \<Rightarrow> ubx \<Rightarrow> gps_fault + gps_position list" where
  "ubx_loop 0 is u = Inr []"
| "ubx_loop (Suc n) is u =
     (case read_gps_ubx is 0 u of
        Inl e \<Rightarrow> Inl e
      | Inr (ret, rest, u') \<Rightarrow>
          if ret = 0 then (case ubx_loop n rest u' of Inl e \<Rightarrow> Inl e | Inr ps \<Rightarrow> Inr (ubx_gps u' # ps))
          else Inr [])"

section \<open>Configuration\<close>

definition checksum_from :: "u8 \<times> u8 \<Rightarrow> bytes \<Rightarrow> u8 \<times> u8" where
  "checksum_from ck bs = fold ubx_checksum bs ck"

text \<open>The bytes written for a message: the checksum covers everything behind the two sync bytes.\<close>

definition config_message_bytes :: "bytes \<Rightarrow> bytes" where
  "config_message_bytes message = (let ck = checksum_from (0, 0) (drop 2 message) in message @ [fst ck, snd ck])"

text \<open>\<open>w\<close> gives the results of the three writes; 0 stands for success.\<close>

definition write_config_message_ubx :: "int \<times> int \<times> int \<Rightarrow> bytes \<Rightarrow> int \<times> bytes list" where
  "write_config_message_ubx w message =
     (let ck = checksum_from (0, 0) (drop 2 message)
      in (if fst w + fst (snd w) + snd (snd w) \<noteq> int (length message) + 2 then 1 else 0, [message, [fst ck], [snd ck]]))"

definition UBX_CONFIG_MESSAGE_PRT :: bytes where
  "UBX_CONFIG_MESSAGE_PRT = [0xB5, 0x62, 0x06, 0x00, 0x14, 0x00, 0x01, 0x00, 0x00, 0x00, 0xD0, 0x08, 0x00, 0x00, 0x80, 0x25,
     0x00, 0x00, 0x07, 0x00, 0x01, 0x00, 0x00, 0x00, 0x00, 0x00]"
definition UBX_CONFIG_MESSAGE_MSG_NAV_POSLLH :: bytes where
  "UBX_CONFIG_MESSAGE_MSG_NAV_POSLLH = [0xB5, 0x62, 0x06, 0x01, 0x08, 0x00, 0x01, 0x02, 0x00, 0x01, 0x00, 0x00, 0x00, 0x00]"
definition UBX_CONFIG_MESSAGE_MSG_NAV_TIMEUTC :: bytes where
  "UBX_CONFIG_MESSAGE_MSG_NAV_TIMEUTC = [0xB5, 0x62, 0x06, 0x01, 0x08, 0x00, 0x01, 0x21, 0x00, 0x01, 0x00, 0x00, 0x00, 0x00]"
definition UBX_CONFIG_MESSAGE_MSG_NAV_DOP :: bytes where
  "UBX_CONFIG_MESSAGE_MSG_NAV_DOP = [0xB5, 0x62, 0x06, 0x01, 0x08, 0x00, 0x01, 0x04, 0x00, 0x01, 0x00, 0x00, 0x00, 0x00]"
definition UBX_CONFIG_MESSAGE_MSG_NAV_SVINFO :: bytes where
  "UBX_CONFIG_MESSAGE_MSG_NAV_SVINFO = [0xB5, 0x62, 0x06, 0x01, 0x08, 0x00, 0x01, 0x30, 0x00, 0x02, 0x00, 0x00, 0x00, 0x00]"
definition UBX_CONFIG_MESSAGE_MSG_NAV_SOL :: bytes where
  "UBX_CONFIG_MESSAGE_MSG_NAV_SOL = [0xB5, 0x62, 0x06, 0x01, 0x08, 0x00, 0x01, 0x06, 0x00, 0x02, 0x00, 0x00, 0x00, 0x00]"
definition UBX_CONFIG_MESSAGE_MSG_NAV_VELNED :: bytes where
  "UBX_CONFIG_MESSAGE_MSG_NAV_VELNED = [0xB5, 0x62, 0x06, 0x01, 0x08, 0x00, 0x01, 0x12, 0x00, 0x01, 0x00, 0x00, 0x00, 0x00]"
definition UBX_CONFIG_MESSAGE_MSG_RXM_SVSI :: bytes where
  "UBX_CONFIG_MESSAGE_MSG_RXM_SVSI = [0xB5, 0x62, 0x06, 0x01, 0x08, 0x00, 0x02, 0x20, 0x00, 0x02, 0x00, 0x00, 0x00, 0x00]"

text \<open>The bytes that \<open>configure_gps_ubx\<close> writes, in order; it ignores the results.\<close>

definition configure_gps_ubx :: "bytes" where
  "configure_gps_ubx = concat (map (\<lambda>m. concat (snd (write_config_message_ubx (0, 0, 0) m)))
     [UBX_CONFIG_MESSAGE_PRT, UBX_CONFIG_MESSAGE_MSG_NAV_POSLLH, UBX_CONFIG_MESSAGE_MSG_NAV_TIMEUTC,
      UBX_CONFIG_MESSAGE_MSG_NAV_DOP, UBX_CONFIG_MESSAGE_MSG_NAV_SOL, UBX_CONFIG_MESSAGE_MSG_NAV_SVINFO,
      UBX_CONFIG_MESSAGE_MSG_NAV_VELNED, UBX_CONFIG_MESSAGE_MSG_RXM_SVSI])"

definition calculate_ubx_checksum :: "bytes \<Rightarrow> bytes option" where
  "calculate_ubx_checksum message =
     (if length message < 2 then None
      else (let n = length message - 2; ck = checksum_from (0, 0) (drop 2 (take n message))
            in Some (message[n := fst ck, Suc n := snd ck])))"

section \<open>The watchdog\<close>

record watchdog =
  ubx_healthy :: bool
  ubx_fail_count :: u8
  ubx_success_count :: u8
  once_ok :: bool

datatype watchdog_action = Give_up | Log_stopped | Log_found | Reconfigure

definition watchdog_start :: watchdog where
  "watchdog_start = \<lparr>ubx_healthy = False, ubx_fail_count = 0, ubx_success_count = 0, once_ok = False\<rparr>"

definition all_okay :: "u64 \<Rightarrow> u64 list \<Rightarrow> bool" where
  "all_okay now ts \<longleftrightarrow> list_all (\<lambda>t. \<not> 3000000 < now - t) ts"

text \<open>One turn; \<open>others\<close> says that another mode or speed should be tried. \<open>Give_up\<close> ends the loop.\<close>

definition watchdog_turn :: "bool \<Rightarrow> u64 \<Rightarrow> u64 list \<Rightarrow> watchdog \<Rightarrow> watchdog_action list \<times> watchdog" where
  "watchdog_turn others now ts w =
     (if \<not> all_okay now ts
      then (let w1 = w\<lparr>ubx_fail_count := ubx_fail_count w + 1\<rparr>
            in if others \<and> 2 \<le> ubx_fail_count w1 \<and> \<not> ubx_healthy w1 \<and> \<not> once_ok w1 then ([Give_up], w1)
               else if ubx_healthy w1 \<and> ubx_fail_count w1 = 2
               then ([Log_stopped, Reconfigure], w1\<lparr>ubx_healthy := False, ubx_success_count := 0\<rparr>)
               else ([Reconfigure], w1))
      else (let w1 = w\<lparr>ubx_success_count := ubx_success_count w + 1, ubx_healthy := True, ubx_fail_count := 0\<rparr>
            in if \<not> ubx_healthy w1 \<and> ubx_success_count w1 = 2
               then ([Log_found], w1\<lparr>ubx_healthy := True, ubx_fail_count := 0, once_ok := True\<rparr>)
               else ([], w1)))"

section \<open>A frame is parsed\<close>

definition ubx_frame :: "u8 \<Rightarrow> u8 \<Rightarrow> bytes \<Rightarrow> u8 \<times> u8 \<Rightarrow> bytes" where
  "ubx_frame cls mid payload ck =
     [0xB5, 0x62, cls, mid] @ le16 (word_of_nat (length payload)) @ payload @ [fst ck, snd ck]"

definition frame_checksum :: "u8 \<Rightarrow> u8 \<Rightarrow> bytes \<Rightarrow> u8 \<times> u8" where
  "frame_checksum cls mid payload = checksum_from (0, 0) ([cls, mid] @ le16 (word_of_nat (length payload)) @ payload)"

definition received :: "u64 \<Rightarrow> u64 \<Rightarrow> bytes \<Rightarrow> gps_input list" where
  "received t1 t2 bs = map (\<lambda>b. Read_byte b t1 t2) bs"

lemma received_simps [simp]:
  "received t1 t2 [] = []" "received t1 t2 (b # bs) = Read_byte b t1 t2 # received t1 t2 bs"
  "received t1 t2 (bs @ cs) = received t1 t2 bs @ received t1 t2 cs"
  by (simp_all add: received_def)

definition parser_ready :: "ubx \<Rightarrow> bool" where
  "parser_ready u \<longleftrightarrow> ubx_st u = ubx_decode_init (ubx_st u) \<and> length (rx_buffer u) = 1000"

definition known_message :: "u8 \<Rightarrow> u8 \<Rightarrow> ubx_class \<Rightarrow> ubx_message \<Rightarrow> bool" where
  "known_message cls mid c m \<longleftrightarrow>
     cls = UBX_CLASS_NAV \<and> c = NAV \<and> (mid, m) \<in> {(UBX_MESSAGE_NAV_POSLLH, NAV_POSLLH), (UBX_MESSAGE_NAV_SOL, NAV_SOL),
        (UBX_MESSAGE_NAV_TIMEUTC, NAV_TIMEUTC), (UBX_MESSAGE_NAV_DOP, NAV_DOP), (UBX_MESSAGE_NAV_SVINFO, NAV_SVINFO),
        (UBX_MESSAGE_NAV_VELNED, NAV_VELNED)} \<or>
     cls = UBX_CLASS_RXM \<and> c = RXM \<and> mid = UBX_MESSAGE_RXM_SVSI \<and> m = RXM_SVSI"

lemma checksum_from_simps [simp]:
  "checksum_from ck [] = ck" "checksum_from ck (b # bs) = checksum_from (ubx_checksum b ck) bs"
  "checksum_from ck (bs @ cs) = checksum_from (checksum_from ck bs) cs"
  by (simp_all add: checksum_from_def)

definition with_checksum :: "u8 \<times> u8 \<Rightarrow> ubx_state \<Rightarrow> ubx_state" where
  "with_checksum ck st = st\<lparr>ck_a := fst ck, ck_b := snd ck\<rparr>"

lemma add_checksum_with: "add_checksum b (with_checksum ck st) = with_checksum (ubx_checksum b ck) st"
  by (simp add: add_checksum_def with_checksum_def Let_def)

text \<open>The state after the header, with \<open>k\<close> bytes of the packet read.\<close>

definition in_packet :: "ubx_class \<Rightarrow> ubx_message \<Rightarrow> nat \<Rightarrow> u8 \<times> u8 \<Rightarrow> nat \<Rightarrow> ubx_state \<Rightarrow> ubx_state" where
  "in_packet c m n ck k st = with_checksum ck (st\<lparr>decode_state := UBX_DECODE_GOT_LENGTH2, print_errors := False, rx_count := int k,
     payload_size := word_of_nat n, message_class := c, message_id := m\<rparr>)"

lemma in_packet_fields [simp]:
  "decode_state (in_packet c m n ck k st) = UBX_DECODE_GOT_LENGTH2" "rx_count (in_packet c m n ck k st) = int k"
  "payload_size (in_packet c m n ck k st) = word_of_nat n" "message_id (in_packet c m n ck k st) = m"
  "ck_a (in_packet c m n ck k st) = fst ck" "ck_b (in_packet c m n ck k st) = snd ck"
  "last_message_timestamps (in_packet c m n ck k st) = last_message_timestamps st"
  "(in_packet c m n ck k st)\<lparr>rx_count := int k + 1\<rparr> = in_packet c m n ck (k + 1) st"
  "add_checksum b (in_packet c m n ck k st) = in_packet c m n (ubx_checksum b ck) k st"
  by (simp_all add: in_packet_def with_checksum_def add_checksum_def Let_def)

lemma read_byte:
  assumes "rx < 1000" "ubx_parse b t1 t2 u = Inr (0, u')"
  shows "read_gps_ubx (Read_byte b t1 t2 # is) rx u = read_gps_ubx is (rx + 1) u'"
  using assms by (simp add: UBX_BUFFER_SIZE_def)

lemma le_bytes_2: "le_bytes 2 v = [word_of_int v, word_of_int (v div 256)]"
  by (simp add: numeral_2_eq_2)

lemma length_field:
  assumes "n < 65536"
  obtains a b where "le16 (word_of_nat n) = [a, b]" "(ucast a :: u16) + push_bit 8 (ucast b) = word_of_nat n"
proof -
  let ?a = "word_of_nat (n mod 256) :: u8" and ?b = "word_of_nat (n div 256) :: u8"
  have d: "n div 256 < 256" using assms by (simp add: less_mult_imp_div_less)
  have "le16 (word_of_nat n) = [word_of_int (int n), word_of_int (int n div 256)]"
  proof -
    have "uint (word_of_nat n :: u16) = int n" using assms by (simp add: unsigned_of_nat take_bit_nat_eq_self)
    then show ?thesis by (simp only: le16_def le_bytes_2)
  qed
  also have "word_of_int (int n) = (word_of_nat (n mod 256) :: u8)"
    by (simp add: word_of_nat_eq_iff take_bit_eq_mod)
  also have "int n div 256 = int (n div 256)" by (simp add: zdiv_int)
  also have "word_of_int (int (n div 256)) = ?b" by (simp only: of_int_of_nat_eq)
  finally have le: "le16 (word_of_nat n) = [?a, ?b]" .
  have "(ucast ?a :: u16) = word_of_nat (n mod 256)" "(ucast ?b :: u16) = word_of_nat (n div 256)"
    unfolding word_unat_eq_iff using d by (simp_all add: unsigned_ucast_eq unsigned_of_nat take_bit_nat_eq_self)
  then have "(ucast ?a :: u16) + push_bit 8 (ucast ?b) = word_of_nat (n mod 256 + n div 256 * 256)"
    by (simp only: push_bit_eq_mult of_nat_add of_nat_mult of_nat_numeral) simp
  also have "n mod 256 + n div 256 * 256 = n" by simp
  finally show ?thesis using that [OF le] by blast
qed

lemma parse_known:
  assumes "known_message cls mid c m"
  shows "parse_class cls st = st\<lparr>decode_state := UBX_DECODE_GOT_CLASS, message_class := c\<rparr>"
    and "message_class st' = c \<Longrightarrow> parse_id mid st' = st'\<lparr>decode_state := UBX_DECODE_GOT_MESSAGEID, message_id := m\<rparr>"
  using assms by (auto simp: known_message_def ubx_numbers parse_class_def parse_id_def Let_def)

lemma with_checksum_fields [simp]:
  "decode_state (with_checksum ck st) = decode_state st" "message_class (with_checksum ck st) = message_class st"
  "payload_size (with_checksum ck st) = payload_size st"
  by (simp_all add: with_checksum_def)

lemma header_parsed:
  assumes "parser_ready u" "known_message cls mid c m" "n < 65536"
  shows "read_gps_ubx (received t1 t2 ([0xB5, 0x62, cls, mid] @ le16 (word_of_nat n)) @ is) 0 u =
    read_gps_ubx is 6 (u\<lparr>ubx_st := in_packet c m n (checksum_from (0, 0) ([cls, mid] @ le16 (word_of_nat n))) 0 (ubx_st u)\<rparr>)"
proof -
  obtain a b where ab: "le16 (word_of_nat n) = [a, b]" "(ucast a :: u16) + push_bit 8 (ucast b) = word_of_nat n"
    using length_field [OF assms(3)] by blast
  let ?st = "ubx_st u"
  have st: "ubx_decode_init ?st = ?st" using assms(1) by (simp add: parser_ready_def)
  have init: "decode_state ?st = UBX_DECODE_UNINIT" "ck_a ?st = 0" "ck_b ?st = 0" "rx_count ?st = 0" "\<not> print_errors ?st"
    by (subst st [symmetric], simp add: ubx_decode_init_def)+
  let ?s1 = "?st\<lparr>decode_state := UBX_DECODE_GOT_SYNC1\<rparr>" and ?s2 = "?st\<lparr>decode_state := UBX_DECODE_GOT_SYNC2\<rparr>"
  let ?k1 = "ubx_checksum cls (0, 0)" and ?k2 = "ubx_checksum mid (ubx_checksum cls (0, 0))"
  let ?s3 = "with_checksum ?k1 (?st\<lparr>decode_state := UBX_DECODE_GOT_CLASS, message_class := c\<rparr>)"
  let ?s4 = "with_checksum ?k2 (?st\<lparr>decode_state := UBX_DECODE_GOT_MESSAGEID, message_class := c, message_id := m\<rparr>)"
  let ?s5 = "with_checksum (ubx_checksum a ?k2) (?st\<lparr>decode_state := UBX_DECODE_GOT_LENGTH1, payload_size := ucast a, message_class := c, message_id := m\<rparr>)"
  have p1: "ubx_parse 0xB5 t1 t2 u = Inr (0, u\<lparr>ubx_st := ?s1\<rparr>)" using init by (simp add: ubx_parse_def Let_def)
  have p2: "ubx_parse 0x62 t1 t2 (u\<lparr>ubx_st := ?s1\<rparr>) = Inr (0, u\<lparr>ubx_st := ?s2\<rparr>)" by (simp add: ubx_parse_def Let_def)
  have c2: "add_checksum cls ?s2 = with_checksum ?k1 ?s2" using init by (simp add: add_checksum_def with_checksum_def Let_def)
  have p3: "ubx_parse cls t1 t2 (u\<lparr>ubx_st := ?s2\<rparr>) = Inr (0, u\<lparr>ubx_st := ?s3\<rparr>)"
    using c2 parse_known(1) [OF assms(2)] by (simp add: ubx_parse_def) (simp add: with_checksum_def)
  have p4: "ubx_parse mid t1 t2 (u\<lparr>ubx_st := ?s3\<rparr>) = Inr (0, u\<lparr>ubx_st := ?s4\<rparr>)"
    using parse_known(2) [OF assms(2)] by (simp add: ubx_parse_def add_checksum_with) (simp add: with_checksum_def)
  have p5: "ubx_parse a t1 t2 (u\<lparr>ubx_st := ?s4\<rparr>) = Inr (0, u\<lparr>ubx_st := ?s5\<rparr>)"
    by (simp add: ubx_parse_def Let_def add_checksum_with) (simp add: with_checksum_def)
  have p6: "ubx_parse b t1 t2 (u\<lparr>ubx_st := ?s5\<rparr>) =
      Inr (0, u\<lparr>ubx_st := in_packet c m n (checksum_from (0, 0) ([cls, mid] @ le16 (word_of_nat n))) 0 ?st\<rparr>)"
    using ab init by (simp add: ubx_parse_def Let_def add_checksum_with) (simp add: with_checksum_def in_packet_def)
  show ?thesis unfolding ab(1) using ab(1)
    by (simp del: read_gps_ubx.simps add: read_byte p1 p2 p3 p4 p5 p6 [unfolded ab(1)] eval_nat_numeral)
qed


lemma payload_parsed:
  "k + length bs \<le> n \<Longrightarrow> n < 65536 \<Longrightarrow> k + length bs \<le> 1000 \<Longrightarrow> rx + length bs \<le> 1000 \<Longrightarrow> length buf = 1000 \<Longrightarrow>
   read_gps_ubx (received t1 t2 bs @ inp) rx (u\<lparr>ubx_st := in_packet c m n ck k st, rx_buffer := buf\<rparr>) =
   read_gps_ubx inp (rx + length bs) (u\<lparr>ubx_st := in_packet c m n (checksum_from ck bs) (k + length bs) st,
     rx_buffer := take k buf @ bs @ drop (k + length bs) buf\<rparr>)"
proof (induction bs arbitrary: k rx ck buf)
  case (Cons b bs)
  let ?u = "\<lambda>k ck buf. u\<lparr>ubx_st := in_packet c m n ck k st, rx_buffer := buf\<rparr>"
  have n: "uint (word_of_nat n :: u16) = int n" using Cons.prems(2) by (simp add: unsigned_of_nat take_bit_nat_eq_self)
  have "ubx_parse b t1 t2 (?u k ck buf) = Inr (0, ?u (k + 1) (ubx_checksum b ck) (buf[k := b]))"
    using Cons.prems n by (simp add: ubx_parse_def parse_payload_def Let_def)
  then have "read_gps_ubx (received t1 t2 (b # bs) @ inp) rx (?u k ck buf) =
      read_gps_ubx (received t1 t2 bs @ inp) (rx + 1) (?u (k + 1) (ubx_checksum b ck) (buf[k := b]))"
    using Cons.prems(4) by (simp del: read_gps_ubx.simps add: read_byte)
  also have "\<dots> = read_gps_ubx inp (rx + 1 + length bs) (?u (k + 1 + length bs) (checksum_from (ubx_checksum b ck) bs)
      (take (k + 1) (buf[k := b]) @ bs @ drop (k + 1 + length bs) (buf[k := b])))"
    using Cons.prems by (intro Cons.IH) simp_all
  also have "take (k + 1) (buf[k := b]) = take k buf @ [b]"
    using Cons.prems(3,5) by (simp add: take_Suc_conv_app_nth)
  also have "drop (k + 1 + length bs) (buf[k := b]) = drop (k + length (b # bs)) buf" by simp
  finally show ?case by simp
qed simp

text \<open>The state when the last byte of a frame has arrived.\<close>

definition arrived :: "ubx_class \<Rightarrow> ubx_message \<Rightarrow> u8 \<times> u8 \<Rightarrow> bytes \<Rightarrow> u8 \<times> u8 \<Rightarrow> ubx \<Rightarrow> ubx" where
  "arrived c m ck payload sent u = u\<lparr>ubx_st := in_packet c m (length payload) ck (length payload + 1) (ubx_st u),
     rx_buffer := payload @ [fst sent, snd sent] @ drop (length payload + 2) (rx_buffer u)\<rparr>"

lemma frame_parsed:
  assumes "parser_ready u" "known_message cls mid c m" "length payload \<le> 992"
  shows "read_gps_ubx (received t1 t2 (ubx_frame cls mid payload sent) @ is) 0 u =
    (case parse_packet t1 t2 (arrived c m (frame_checksum cls mid payload) payload sent u) of
       Inl e \<Rightarrow> Inl e
     | Inr (r, u') \<Rightarrow> if 0 < r then Inr (0, is, u') else read_gps_ubx is (8 + length payload) u')"
proof -
  let ?n = "length payload" and ?buf = "rx_buffer u"
  let ?h = "checksum_from (0, 0) ([cls, mid] @ le16 (word_of_nat ?n))"
  let ?u = "\<lambda>k ck buf. u\<lparr>ubx_st := in_packet c m ?n ck k (ubx_st u), rx_buffer := buf\<rparr>"
  have buf: "length ?buf = 1000" using assms(1) by (simp add: parser_ready_def)
  have n: "uint (word_of_nat ?n :: u16) = int ?n" using assms(3) by (simp add: unsigned_of_nat take_bit_nat_eq_self)
  have "read_gps_ubx (received t1 t2 (ubx_frame cls mid payload sent) @ is) 0 u =
      read_gps_ubx (received t1 t2 (payload @ [fst sent, snd sent]) @ is) 6 (u\<lparr>ubx_st := in_packet c m ?n ?h 0 (ubx_st u)\<rparr>)"
    using header_parsed [OF assms(1,2), of ?n t1 t2 "received t1 t2 (payload @ [fst sent, snd sent]) @ is"] assms(3)
    by (simp add: ubx_frame_def)
  also have "u\<lparr>ubx_st := in_packet c m ?n ?h 0 (ubx_st u)\<rparr> = ?u 0 ?h ?buf" by simp
  also have "read_gps_ubx (received t1 t2 (payload @ [fst sent, snd sent]) @ is) 6 (?u 0 ?h ?buf) =
      read_gps_ubx (received t1 t2 [fst sent, snd sent] @ is) (6 + ?n) (?u ?n (checksum_from ?h payload) (payload @ drop ?n ?buf))"
    using payload_parsed [where k = 0 and bs = payload and n = ?n and rx = 6 and buf = ?buf and ck = ?h and st = "ubx_st u" and
        inp = "received t1 t2 [fst sent, snd sent] @ is" and u = u] assms(3) buf
    by simp
  also have "checksum_from ?h payload = frame_checksum cls mid payload" by (simp add: frame_checksum_def)
  also have "read_gps_ubx (received t1 t2 [fst sent, snd sent] @ is) (6 + ?n)
        (?u ?n (frame_checksum cls mid payload) (payload @ drop ?n ?buf)) =
      read_gps_ubx (Read_byte (snd sent) t1 t2 # is) (7 + ?n)
        (?u (?n + 1) (frame_checksum cls mid payload) (payload @ [fst sent] @ drop (?n + 1) ?buf))"
  proof -
    have "(payload @ drop ?n ?buf)[?n := fst sent] = payload @ [fst sent] @ drop (?n + 1) ?buf"
      using assms(3) buf by (simp add: list_update_append Cons_nth_drop_Suc [symmetric])
    then have "ubx_parse (fst sent) t1 t2 (?u ?n (frame_checksum cls mid payload) (payload @ drop ?n ?buf)) =
        Inr (0, ?u (?n + 1) (frame_checksum cls mid payload) (payload @ [fst sent] @ drop (?n + 1) ?buf))"
      using n assms(3) buf by (simp add: ubx_parse_def parse_payload_def Let_def)
    then show ?thesis using assms(3) by (simp del: read_gps_ubx.simps add: read_byte)
  qed
  also have "\<dots> = (case parse_packet t1 t2 (arrived c m (frame_checksum cls mid payload) payload sent u) of
       Inl e \<Rightarrow> Inl e
     | Inr (r, u') \<Rightarrow> if 0 < r then Inr (0, is, u') else read_gps_ubx is (8 + ?n) u')"
  proof -
    have "(payload @ [fst sent] @ drop (?n + 1) ?buf)[?n + 1 := snd sent] = payload @ [fst sent, snd sent] @ drop (?n + 2) ?buf"
      using assms(3) buf by (simp add: list_update_append Cons_nth_drop_Suc [symmetric])
    then have "ubx_parse (snd sent) t1 t2 (?u (?n + 1) (frame_checksum cls mid payload) (payload @ [fst sent] @ drop (?n + 1) ?buf)) =
        parse_packet t1 t2 (arrived c m (frame_checksum cls mid payload) payload sent u)"
      using n assms(3) buf by (simp add: ubx_parse_def parse_payload_def Let_def arrived_def nat_add_distrib)
    then show ?thesis using assms(3) by (simp add: UBX_BUFFER_SIZE_def)
  qed
  finally show ?thesis .
qed

section \<open>Valid and corrupted packets\<close>

text \<open>The lengths for which the checksum is where the parser looks for it.\<close>

definition fits :: "ubx_message \<Rightarrow> bytes \<Rightarrow> bool" where
  "fits m payload \<longleftrightarrow> length payload \<le> 992 \<and>
     (case m of NAV_POSLLH \<Rightarrow> length payload = 28 | NAV_SOL \<Rightarrow> length payload = 52 | NAV_TIMEUTC \<Rightarrow> length payload = 20
      | NAV_DOP \<Rightarrow> length payload = 18 | NAV_VELNED \<Rightarrow> length payload = 36 | NAV_SVINFO \<Rightarrow> 8 \<le> length payload
      | RXM_SVSI \<Rightarrow> 7 \<le> length payload | ID_UNKNOWN \<Rightarrow> False)"

lemma arrived_fields [simp]:
  "ubx_gps (arrived c m ck payload sent u) = ubx_gps u"
  "ubx_st (arrived c m ck payload sent u) = in_packet c m (length payload) ck (length payload + 1) (ubx_st u)"
  "rx_buffer (arrived c m ck payload sent u) = payload @ [fst sent, snd sent] @ drop (length payload + 2) (rx_buffer u)"
  by (simp_all add: arrived_def)

lemma checksum_arrived: "checksum_at (length payload) (arrived c m ck payload sent u) \<longleftrightarrow> sent = ck"
  by (auto simp: checksum_at_def field_def prod_eq_iff)

lemma checksum_before_end: "checksum_at (nat (rx_count (ubx_st (arrived c m ck payload sent u)) - 1)) (arrived c m ck payload sent u)
    \<longleftrightarrow> sent = ck"
proof -
  have "nat (rx_count (ubx_st (arrived c m ck payload sent u)) - 1) = length payload" by simp
  then show ?thesis by (simp only: checksum_arrived)
qed

lemma field_payload: "off + n \<le> length payload \<Longrightarrow> field off n (payload @ bs) = field off n payload"
  by (simp add: field_def)

lemma init_in_packet: "ubx_decode_init (in_packet c m n ck k st) = ubx_decode_init st"
  by (simp add: ubx_decode_init_def in_packet_def with_checksum_def)

lemma init_timestamps: "ubx_decode_init (st\<lparr>last_message_timestamps := ts\<rparr>) = (ubx_decode_init st)\<lparr>last_message_timestamps := ts\<rparr>"
  by (simp add: ubx_decode_init_def)

lemma in_packet_timestamps: "(in_packet c m n ck k st)\<lparr>last_message_timestamps := ts\<rparr> = in_packet c m n ck k (st\<lparr>last_message_timestamps := ts\<rparr>)"
  by (simp add: in_packet_def with_checksum_def)

lemma finish_invalid: "finish_packet False i f t1 t2 u = Inr (0, u\<lparr>ubx_st := ubx_decode_init (ubx_st u)\<rparr>)"
  by (simp add: finish_packet_def)

lemma packet_rejected:
  assumes "fits m payload" "sent \<noteq> ck"
  shows "parse_packet t1 t2 (arrived c m ck payload sent u) =
    Inr (0, (arrived c m ck payload sent u)\<lparr>ubx_st := ubx_decode_init (ubx_st u)\<rparr>)"
proof -
  let ?u = "arrived c m ck payload sent u"
  have bad: "\<not> checksum_at (length payload) ?u" "\<not> checksum_at (nat (rx_count (ubx_st ?u) - 1)) ?u"
    using assms(2) checksum_arrived checksum_before_end by blast+
  have m: "message_id (ubx_st ?u) = m" by simp
  have init: "ubx_decode_init (ubx_st ?u) = ubx_decode_init (ubx_st u)" by (simp add: init_in_packet)
  show ?thesis
    using assms(1) bad init unfolding parse_packet_def m fits_def
    by (cases m) (simp_all only: ubx_message.case parse_nav_posllh_def parse_nav_sol_def parse_nav_dop_def parse_nav_timeutc_def
        parse_nav_velned_def parse_rxm_svsi_def parse_nav_svinfo_def Let_def finish_invalid simp_thms if_False)
qed

lemma checksum_sum: "fst (checksum_from ck bs) = fst ck + sum_list bs"
  by (induction bs arbitrary: ck) (simp_all add: ubx_checksum_def Let_def ac_simps)

lemma sum_list_replace: "i < length xs \<Longrightarrow> sum_list (xs[i := x]) + xs ! i = sum_list xs + (x :: 'a :: comm_monoid_add)"
proof (induction xs arbitrary: i)
  case (Cons y ys)
  then show ?case by (cases i) (simp_all add: ac_simps)
qed simp

lemma checksum_detects:
  assumes "i < length payload" "x \<noteq> payload ! i"
  shows "frame_checksum cls mid (payload[i := x]) \<noteq> frame_checksum cls mid payload"
proof -
  have "sum_list (payload[i := x]) = sum_list payload + x - payload ! i"
    using sum_list_replace [OF assms(1), of x] by (simp add: eq_diff_eq)
  then have "sum_list (payload[i := x]) \<noteq> sum_list payload" using assms(2) by simp
  then have "fst (frame_checksum cls mid (payload[i := x])) \<noteq> fst (frame_checksum cls mid payload)"
    by (simp add: frame_checksum_def checksum_sum)
  then show ?thesis by auto
qed

lemma finish_valid:
  assumes "update (ubx_gps u) = Inr g"
  shows "finish_packet True i update t1 t2 u = Inr (1, u\<lparr>ubx_gps := g\<lparr>gps_timestamp := t1, gps_counter := gps_counter g + 1\<rparr>,
     ubx_st := ubx_decode_init ((ubx_st u)\<lparr>last_message_timestamps := (last_message_timestamps (ubx_st u))[i := t2]\<rparr>)\<rparr>)"
  using assms by (simp add: finish_packet_def)

text \<open>What an accepted packet leaves: the new position, stamped, and a parser ready for the next one.\<close>

definition accepted :: "nat \<Rightarrow> gps_position \<Rightarrow> u64 \<Rightarrow> u64 \<Rightarrow> ubx \<Rightarrow> ubx \<Rightarrow> bool" where
  "accepted i g t1 t2 u u' \<longleftrightarrow> ubx_gps u' = g\<lparr>gps_timestamp := t1, gps_counter := gps_counter g + 1\<rparr> \<and> parser_ready u' \<and>
     last_message_timestamps (ubx_st u') = (last_message_timestamps (ubx_st u))[i := t2]"

lemma packet_accepted:
  assumes "parser_ready u" "length payload \<le> 992" "update (ubx_gps u) = Inr g"
  shows "\<exists>u'. finish_packet True i update t1 t2 (arrived c m ck payload sent u) = Inr (1, u') \<and> accepted i g t1 t2 u u'"
proof -
  let ?u = "arrived c m ck payload sent u"
  have "update (ubx_gps ?u) = Inr g" using assms(3) by simp
  from finish_valid [where update = update and u = ?u and g = g and i = i, OF this] show ?thesis
    using assms(1,2)
    by (simp add: accepted_def parser_ready_def init_timestamps in_packet_timestamps init_in_packet)
qed

lemma frame_accepted:
  assumes "parser_ready u" "known_message cls mid c m" "length payload \<le> 992"
    and "\<And>sent. parse_packet t1 t2 (arrived c m sent payload sent u) =
      finish_packet True i update t1 t2 (arrived c m sent payload sent u)"
    and "update (ubx_gps u) = Inr g"
  shows "\<exists>u'. read_gps_ubx (received t1 t2 (ubx_frame cls mid payload (frame_checksum cls mid payload)) @ is) 0 u = Inr (0, is, u') \<and>
    accepted i g t1 t2 u u'"
proof -
  let ?ck = "frame_checksum cls mid payload"
  obtain u' where u': "finish_packet True i update t1 t2 (arrived c m ?ck payload ?ck u) = Inr (1, u')" "accepted i g t1 t2 u u'"
    using packet_accepted [of u payload update g i t1 t2 c m ?ck ?ck, OF assms(1,3,5)] by blast
  then show ?thesis using frame_parsed [OF assms(1-3), of t1 t2 ?ck "is"] assms(4) [of ?ck] by simp
qed

definition posllh_payload :: "u32 \<Rightarrow> u32 \<Rightarrow> u32 \<Rightarrow> u32 \<Rightarrow> u32 \<Rightarrow> u32 \<Rightarrow> u32 \<Rightarrow> bytes" where
  "posllh_payload itow longitude latitude height height_msl hacc vacc =
     le32 itow @ le32 longitude @ le32 latitude @ le32 height @ le32 height_msl @ le32 hacc @ le32 vacc"

lemma posllh_fields:
  "length (posllh_payload a b c d e f g) = 28" "field 4 4 (posllh_payload a b c d e f g) = le32 b"
  "field 8 4 (posllh_payload a b c d e f g) = le32 c" "field 16 4 (posllh_payload a b c d e f g) = le32 e"
  by (simp_all add: posllh_payload_def field_def)

lemma position_accepted:
  assumes "parser_ready u"
    and p_def: "p = posllh_payload itow longitude latitude height height_msl hacc vacc"
  shows "\<exists>u'. read_gps_ubx (received t1 t2 (ubx_frame UBX_CLASS_NAV UBX_MESSAGE_NAV_POSLLH p
      (frame_checksum UBX_CLASS_NAV UBX_MESSAGE_NAV_POSLLH p)) @ is) 0 u = Inr (0, is, u') \<and>
    accepted 0 ((ubx_gps u)\<lparr>lat := latitude, lon := longitude, alt := height_msl,
      counter_pos_valid := counter_pos_valid (ubx_gps u) + 1\<rparr>) t1 t2 u u'"
proof (rule frame_accepted [OF assms(1)])
  show "known_message UBX_CLASS_NAV UBX_MESSAGE_NAV_POSLLH NAV NAV_POSLLH" by (simp add: known_message_def)
  show "length p \<le> 992" by (simp add: p_def posllh_fields)
next
  fix sent
  let ?u = "arrived NAV NAV_POSLLH sent p sent u"
  have "checksum_at 28 ?u" using checksum_arrived [of p NAV NAV_POSLLH sent sent u] by (simp add: p_def posllh_fields)
  moreover have "field 4 4 (rx_buffer ?u) = le32 longitude" "field 8 4 (rx_buffer ?u) = le32 latitude"
    "field 16 4 (rx_buffer ?u) = le32 height_msl"
    by (simp_all add: field_payload p_def posllh_fields)
  ultimately show "parse_packet t1 t2 ?u = finish_packet True 0 (\<lambda>g. Inr (g\<lparr>lat := latitude, lon := longitude, alt := height_msl,
      counter_pos_valid := counter_pos_valid g + 1\<rparr>)) t1 t2 ?u"
    by (simp add: parse_packet_def parse_nav_posllh_def Let_def del: arrived_fields(3))
qed simp

text \<open>The time of a packet, from a valid calendar time.\<close>

definition timeutc_payload :: "u32 \<Rightarrow> u32 \<Rightarrow> u32 \<Rightarrow> tm \<Rightarrow> u8 \<Rightarrow> bytes" where
  "timeutc_payload itow tacc nano t valid = le32 itow @ le32 tacc @ le32 nano @ le16 (word_of_int (tm_year t + 1900)) @
     [word_of_int (tm_mon t + 1), word_of_int (tm_mday t), word_of_int (tm_hour t), word_of_int (tm_min t), word_of_int (tm_sec t), valid]"

lemma month_length:
  assumes "0 \<le> m" "m < 12"
  shows "month_days l (nat m) \<le> 31"
  by (rule month_cases [of m]) (use assms in \<open>simp_all add: month_days_def\<close>)

lemma packet_time_of:
  assumes "valid_tm t" "tm_year t \<le> 200"
  shows "packet_time (timeutc_payload itow tacc nano t valid @ bs) = t"
proof -
  let ?p = "timeutc_payload itow tacc nano t valid"
  have l: "length (le32 itow @ le32 tacc @ le32 nano) = 12" "length (le16 (word_of_int (tm_year t + 1900) :: u16)) = 2" by simp_all
  have p: "?p = (le32 itow @ le32 tacc @ le32 nano) @ le16 (word_of_int (tm_year t + 1900)) @ [word_of_int (tm_mon t + 1),
      word_of_int (tm_mday t), word_of_int (tm_hour t), word_of_int (tm_min t), word_of_int (tm_sec t), valid]"
    by (simp add: timeutc_payload_def)
  have n: "(?p @ bs) ! 14 = word_of_int (tm_mon t + 1)" "(?p @ bs) ! 15 = word_of_int (tm_mday t)"
    "(?p @ bs) ! 16 = word_of_int (tm_hour t)" "(?p @ bs) ! 17 = word_of_int (tm_min t)" "(?p @ bs) ! 18 = word_of_int (tm_sec t)"
    unfolding p by (simp_all add: nth_append)
  have y: "field 12 2 (?p @ bs) = le16 (word_of_int (tm_year t + 1900))"
    unfolding p field_def by simp
  have small: "uint (word_of_int v :: u8) = v" if "0 \<le> v" "v < 256" for v
    using that by (simp add: unsigned_of_int take_bit_int_eq_self)
  have "tm_mday t \<le> 31" using assms(1) month_length [of "tm_mon t" "is_leap (tm_year t + 1900)"] by (simp add: valid_tm_def)
  have small16: "uint (word_of_int v :: u16) = v" if "0 \<le> v" "v < 65536" for v
    using that by (simp add: unsigned_of_int take_bit_int_eq_self)
  have ranges: "0 \<le> tm_year t + 1900" "tm_year t + 1900 < 65536" "0 \<le> tm_mon t + 1" "tm_mon t + 1 < 256" "0 \<le> tm_mday t"
    "0 \<le> tm_hour t" "tm_hour t < 256" "0 \<le> tm_min t" "tm_min t < 256" "0 \<le> tm_sec t" "tm_sec t < 256"
    using assms by (simp_all add: valid_tm_def)
  show ?thesis unfolding packet_time_def n y un_le16_le16 small16 [OF ranges(1,2)] small [OF ranges(3,4)] small [OF ranges(6,7)]
      small [OF ranges(8,9)] small [OF ranges(10,11)]
    using small [OF ranges(5)] \<open>tm_mday t \<le> 31\<close> by simp
qed

lemma time_accepted:
  assumes "parser_ready u" "valid_tm t" "tm_year t \<le> 200"
    and "f32_to_unsigned (f32_mul (f32_of_int (sint nano)) F32_MILLI) = Some usec"
    and p_def: "p = timeutc_payload itow tacc nano t valid"
  shows "\<exists>u'. read_gps_ubx (received t1 t2 (ubx_frame UBX_CLASS_NAV UBX_MESSAGE_NAV_TIMEUTC p
      (frame_checksum UBX_CLASS_NAV UBX_MESSAGE_NAV_TIMEUTC p)) @ is) 0 u = Inr (0, is, u') \<and>
    accepted 2 ((ubx_gps u)\<lparr>time_gps_usec := word_of_int (civil_seconds t) * 1000000 + usec\<rparr>) t1 t2 u u'"
proof (rule frame_accepted [OF assms(1)])
  show "known_message UBX_CLASS_NAV UBX_MESSAGE_NAV_TIMEUTC NAV NAV_TIMEUTC" by (simp add: known_message_def)
  have len: "length p = 20" by (simp add: p_def timeutc_payload_def)
  then show "length p \<le> 992" by simp
  fix sent
  let ?u = "arrived NAV NAV_TIMEUTC sent p sent u"
  have "checksum_at 20 ?u" using checksum_arrived [of p NAV NAV_TIMEUTC sent sent u] len by simp
  moreover have "packet_time (rx_buffer ?u) = t" using packet_time_of [OF assms(2,3)] by (simp add: p_def)
  moreover have "field 8 4 (rx_buffer ?u) = le32 nano"
    using len by (simp add: field_payload) (simp add: p_def timeutc_payload_def field_def)
  moreover obtain w where w: "mktime t = Some w" "uint w = civil_seconds t" using mktime_correct [OF assms(2,3)] by blast
  moreover have "(ucast w :: u64) = word_of_int (civil_seconds t)" using w(2) by (metis word_of_int_uint ucast_eq)
  ultimately show "parse_packet t1 t2 ?u = finish_packet True 2
      (\<lambda>g. Inr (g\<lparr>time_gps_usec := word_of_int (civil_seconds t) * 1000000 + usec\<rparr>)) t1 t2 ?u"
    using assms(4) by (simp add: parse_packet_def parse_nav_timeutc_def Let_def del: arrived_fields(3))
qed simp

section \<open>Properties of the parser\<close>

definition new_position :: gps_position where
  "new_position = \<lparr>gps_timestamp = 0, gps_counter = 0, time_gps_usec = 0, lat = 0, lon = 0, alt = 0, counter_pos_valid = 0,
     eph = 0, epv = 0, vel = 0, cog = 0, fix_type = 0, satellites_visible = 0, satellite_prn = replicate 20 0,
     satellite_used = replicate 20 0, satellite_elevation = replicate 20 0, satellite_azimuth = replicate 20 0,
     satellite_snr = replicate 20 0, satellite_info_available = 0\<rparr>"

definition new_driver :: ubx where
  "new_driver = \<lparr>ubx_st = ubx_decode_init \<lparr>ck_a = 0, ck_b = 0, decode_state = UBX_DECODE_UNINIT, print_errors = False, rx_count = 0,
      payload_size = 0, message_class = CLASS_UNKNOWN, message_id = ID_UNKNOWN, last_message_timestamps = replicate 7 0\<rparr>,
    ubx_gps = new_position, rx_buffer = replicate 1000 0\<rparr>"

lemma new_driver_ready: "parser_ready new_driver"
  by (simp add: parser_ready_def new_driver_def ubx_decode_init_def)

text \<open>
  C27. A frame of a known message in which one byte of the payload was changed on the way is rejected: the position and
  the watchdog's timestamps stay, and the parser is ready for the next frame.
\<close>
theorem corrupted_packet_ignored:
  assumes "parser_ready u" "known_message cls mid c m" "fits m payload" "i < length payload" "x \<noteq> payload ! i"
  shows "\<exists>u'. read_gps_ubx (received t1 t2 (ubx_frame cls mid (payload[i := x]) (frame_checksum cls mid payload)) @ is) 0 u =
      read_gps_ubx is (8 + length payload) u' \<and>
    ubx_gps u' = ubx_gps u \<and> last_message_timestamps (ubx_st u') = last_message_timestamps (ubx_st u) \<and> parser_ready u'"
proof -
  let ?p = "payload[i := x]" and ?sent = "frame_checksum cls mid payload"
  let ?u = "arrived c m (frame_checksum cls mid ?p) ?p ?sent u"
  have fits: "fits m ?p" using assms(3) by (cases m) (simp_all add: fits_def)
  then have len: "length ?p \<le> 992" by (simp add: fits_def)
  have "?sent \<noteq> frame_checksum cls mid ?p" using checksum_detects [OF assms(4,5)] by metis
  from packet_rejected [OF fits this] frame_parsed [OF assms(1,2) len, of t1 t2 ?sent "is"]
  have "read_gps_ubx (received t1 t2 (ubx_frame cls mid ?p ?sent) @ is) 0 u =
      read_gps_ubx is (8 + length payload) (?u\<lparr>ubx_st := ubx_decode_init (ubx_st u)\<rparr>)"
    by simp
  moreover have "parser_ready (?u\<lparr>ubx_st := ubx_decode_init (ubx_st u)\<rparr>)"
    using assms(1) len by (simp add: parser_ready_def ubx_decode_init_def)
  ultimately show ?thesis
    by (intro exI [of _ "?u\<lparr>ubx_st := ubx_decode_init (ubx_st u)\<rparr>"]) (simp add: ubx_decode_init_def)
qed

lemma corrupted_packet_ignored_witness:
  "\<exists>u'. read_gps_ubx (received 5 6 (ubx_frame UBX_CLASS_NAV UBX_MESSAGE_NAV_DOP ((replicate 18 7)[3 := 9])
        (frame_checksum UBX_CLASS_NAV UBX_MESSAGE_NAV_DOP (replicate 18 7))) @ [Poll_timeout]) 0 new_driver =
      read_gps_ubx [Poll_timeout] (8 + length (replicate 18 (7 :: u8))) u' \<and>
    ubx_gps u' = ubx_gps new_driver \<and>
    last_message_timestamps (ubx_st u') = last_message_timestamps (ubx_st new_driver) \<and> parser_ready u'"
  by (rule corrupted_packet_ignored [OF new_driver_ready, where c = NAV and m = NAV_DOP])
    (simp_all add: known_message_def fits_def)

subsection \<open>The buffer\<close>

text \<open>The parser's position in the buffer never passes the number of bytes the call has counted.\<close>

definition in_buffer :: "nat \<Rightarrow> ubx \<Rightarrow> bool" where
  "in_buffer rx u \<longleftrightarrow> rx \<le> 1000 \<and> 0 \<le> rx_count (ubx_st u) \<and> rx_count (ubx_st u) \<le> int rx \<and> length (rx_buffer u) = 1000"

lemma init_count [simp]: "rx_count (ubx_decode_init st) = 0"
  by (simp add: ubx_decode_init_def)

lemma satellite_fault:
  "read_satellite part = Inl e \<Longrightarrow> e = Undefined_conversion"
  "set_satellite i s g = Inl e \<Longrightarrow> e = Array_overrun"
  "set_satellite i s g = Inr g' \<Longrightarrow> i < 20"
  by (auto simp: read_satellite_def set_satellite_def Let_def split: if_splits option.splits)

lemma channels_fault: "store_channels buf i n g = Inl e \<Longrightarrow> 1000 \<le> length buf \<Longrightarrow> i \<le> 20 \<Longrightarrow> e \<noteq> Buffer_overrun"
proof (induction buf i n g rule: store_channels.induct)
  case (2 buf i n g)
  have room: "8 + i * 12 + 12 \<le> length buf" using "2.prems"(2,3) by simp
  show ?case
  proof (cases "read_satellite (field (8 + i * 12) 12 buf)")
    case (Inl a)
    then show ?thesis using "2.prems"(1) room satellite_fault(1) [OF Inl] by simp
  next
    case (Inr s)
    show ?thesis
    proof (cases "set_satellite i s g")
      case Inl': (Inl a)
      then show ?thesis using "2.prems"(1) room Inr satellite_fault(2) [OF Inl'] by simp
    next
      case Inr': (Inr g')
      then show ?thesis using "2.prems" "2.IH" [OF room Inr Inr'] room Inr satellite_fault(3) [OF Inr'] by simp
    qed
  qed
qed simp

lemma clear_fault: "clear_channels i n g = Inl e \<Longrightarrow> e \<noteq> Buffer_overrun"
  by (induction i n g rule: clear_channels.induct) (auto dest: satellite_fault split: sum.splits)

lemma finish_in_buffer:
  assumes "in_buffer rx u" "\<And>e. update (ubx_gps u) = Inl e \<Longrightarrow> e \<noteq> Buffer_overrun"
  shows "case finish_packet valid i update t1 t2 u of Inl e \<Rightarrow> e \<noteq> Buffer_overrun | Inr (r, u') \<Rightarrow> in_buffer rx u'"
  using assms by (auto simp: finish_packet_def in_buffer_def split: sum.splits)

lemma packet_in_buffer:
  assumes "in_buffer rx u" "0 < rx"
  shows "case parse_packet t1 t2 u of Inl e \<Rightarrow> e \<noteq> Buffer_overrun | Inr (r, u') \<Rightarrow> in_buffer rx u'"
proof (cases "message_id (ubx_st u)")
  case ID_UNKNOWN
  then show ?thesis using assms by (simp add: parse_packet_def in_buffer_def)
next
  case NAV_SVINFO
  have "1000 \<le> length (rx_buffer u)" using assms(1) by (simp add: in_buffer_def)
  then show ?thesis unfolding parse_packet_def NAV_SVINFO ubx_message.case parse_nav_svinfo_def Let_def
    by (intro finish_in_buffer [OF assms(1)]) (auto dest: channels_fault clear_fault split: sum.splits)
next
  case NAV_TIMEUTC
  then show ?thesis
    by (simp add: parse_packet_def parse_nav_timeutc_def Let_def)
      (rule finish_in_buffer [OF assms(1)], auto split: option.splits)
next
  case NAV_VELNED
  then show ?thesis
    by (simp add: parse_packet_def parse_nav_velned_def Let_def)
      (rule finish_in_buffer [OF assms(1)], auto split: option.splits)
next
  case NAV_POSLLH
  then show ?thesis by (simp add: parse_packet_def parse_nav_posllh_def Let_def) (rule finish_in_buffer [OF assms(1)], simp)
next
  case NAV_SOL
  then show ?thesis by (simp add: parse_packet_def parse_nav_sol_def Let_def) (rule finish_in_buffer [OF assms(1)], simp)
next
  case NAV_DOP
  then show ?thesis by (simp add: parse_packet_def parse_nav_dop_def Let_def) (rule finish_in_buffer [OF assms(1)], simp)
next
  case RXM_SVSI
  then show ?thesis by (simp add: parse_packet_def parse_rxm_svsi_def Let_def) (rule finish_in_buffer [OF assms(1)], simp)
qed

lemma header_count [simp]:
  "rx_count (add_checksum b st) = rx_count st" "payload_size (add_checksum b st) = payload_size st"
  by (simp_all add: add_checksum_def Let_def)

lemma class_count: "rx_count (parse_class b st) \<in> {0, rx_count st}"
  by (simp add: parse_class_def)

lemma id_count: "rx_count (parse_id b st) \<in> {0, rx_count st}"
  by (simp add: parse_id_def Let_def split: ubx_class.split)

lemma parse_in_buffer:
  assumes "in_buffer rx u" "rx < 1000 \<or> ubx_st u = ubx_decode_init (ubx_st u)"
  shows "case ubx_parse b t1 t2 u of Inl e \<Rightarrow> e \<noteq> Buffer_overrun | Inr (r, u') \<Rightarrow> in_buffer (min 1000 (rx + 1)) u'"
proof (cases "decode_state (ubx_st u)")
  case UBX_DECODE_GOT_LENGTH2
  have "\<not> ubx_st u = ubx_decode_init (ubx_st u)"
  proof
    assume "ubx_st u = ubx_decode_init (ubx_st u)"
    then have "decode_state (ubx_st u) = decode_state (ubx_decode_init (ubx_st u))" by simp
    then show False using UBX_DECODE_GOT_LENGTH2 by (simp add: ubx_decode_init_def)
  qed
  then have rx: "rx < 1000" using assms(2) by blast
  then have m: "min 1000 (rx + 1) = rx + 1" by simp
  let ?st1 = "if rx_count (ubx_st u) < uint (payload_size (ubx_st u)) then add_checksum b (ubx_st u) else ubx_st u"
  let ?u1 = "u\<lparr>ubx_st := ?st1, rx_buffer := (rx_buffer u)[nat (rx_count (ubx_st u)) := b]\<rparr>"
  have i1: "in_buffer (rx + 1) ?u1" using assms(1) rx by (simp add: in_buffer_def)
  have "nat (rx_count (ubx_st u)) < length (rx_buffer u)" "0 \<le> rx_count (ubx_st u)"
    using assms(1) rx by (auto simp: in_buffer_def)
  then show ?thesis
    using packet_in_buffer [OF i1, of t1 t2] assms(1) rx UBX_DECODE_GOT_LENGTH2
    unfolding m ubx_parse_def parse_payload_def Let_def
    by (auto simp: in_buffer_def split: if_splits)
qed (use assms(1) class_count [of b "add_checksum b (ubx_st u)"] id_count [of b "add_checksum b (ubx_st u)"] in
    \<open>auto simp: ubx_parse_def in_buffer_def Let_def\<close>)

lemma read_in_buffer:
  "in_buffer rx u \<Longrightarrow> case read_gps_ubx is rx u of Inl e \<Rightarrow> e \<noteq> Buffer_overrun | Inr (r, rest, u') \<Rightarrow> in_buffer 1000 u'"
proof (induction "is" arbitrary: rx u)
  case Nil
  then show ?case by (auto simp: in_buffer_def)
next
  case (Cons inp inps)
  show ?case
  proof (cases inp)
    case (Read_byte c t1 t2)
    define rx' where "rx' = (if 1000 \<le> rx then 0 else rx + 1)"
    define u1 where "u1 = (if 1000 \<le> rx then u\<lparr>ubx_st := ubx_decode_init (ubx_st u)\<rparr> else u)"
    have before: "in_buffer (rx' - 1) u1" "rx' - 1 < 1000 \<or> ubx_st u1 = ubx_decode_init (ubx_st u1)" "rx' \<le> 1000"
      using Cons.prems by (auto simp: rx'_def u1_def in_buffer_def ubx_decode_init_def)
    have after: "case ubx_parse c t1 t2 u1 of Inl e \<Rightarrow> e \<noteq> Buffer_overrun | Inr (r, u2) \<Rightarrow> in_buffer rx' u2"
    proof (cases "1000 \<le> rx")
      case True
      then have "ubx_parse c t1 t2 u1 = Inr (0, u1\<lparr>ubx_st := if c = 0xB5 then (ubx_st u1)\<lparr>decode_state := UBX_DECODE_GOT_SYNC1\<rparr> else ubx_st u1\<rparr>)"
        by (simp add: ubx_parse_def u1_def ubx_decode_init_def)
      then show ?thesis using before(1) True by (auto simp: rx'_def u1_def in_buffer_def)
    next
      case False
      then have "min 1000 (rx' - 1 + 1) = rx'" by (simp add: rx'_def)
      then show ?thesis using parse_in_buffer [OF before(1,2), of c t1 t2] by (simp only:)
    qed
    have step: "read_gps_ubx (Read_byte c t1 t2 # inps) rx u =
        (case ubx_parse c t1 t2 u1 of Inl e \<Rightarrow> Inl e
         | Inr (r, u2) \<Rightarrow> if 0 < r then Inr (0, inps, u2) else read_gps_ubx inps rx' u2)"
      by (cases "1000 \<le> rx") (simp_all add: rx'_def u1_def UBX_BUFFER_SIZE_def split: sum.split prod.split)
    have later: "in_buffer rx' u2 \<Longrightarrow> in_buffer 1000 u2" for u2 using before(3) by (auto simp: in_buffer_def)
    show ?thesis
    proof (cases "ubx_parse c t1 t2 u1")
      case (Inl e)
      then show ?thesis using after unfolding Read_byte step by simp
    next
      case (Inr p)
      obtain r u2 where p: "p = (r, u2)" by (cases p)
      then have "in_buffer rx' u2" using after Inr by simp
      then show ?thesis using Cons.IH [of rx' u2] later Inr p unfolding Read_byte step by simp
    qed
  qed (use Cons.prems in \<open>auto simp: in_buffer_def\<close>)
qed

text \<open>
  One call of the reader that starts with a reset parser never writes or reads outside the packet buffer, whatever
  bytes arrive and whatever lengths they announce, and leaves the parser's position at most one past the end.
\<close>
theorem one_call_in_buffer:
  assumes "parser_ready u"
  shows "read_gps_ubx is 0 u \<noteq> Inl Buffer_overrun \<and>
    (case read_gps_ubx is 0 u of Inl e \<Rightarrow> True
     | Inr (ret, rest, u') \<Rightarrow> 0 \<le> rx_count (ubx_st u') \<and> rx_count (ubx_st u') \<le> 1000 \<and> length (rx_buffer u') = 1000)"
proof -
  have "rx_count (ubx_st u) = 0" using assms init_count [of "ubx_st u"] by (simp add: parser_ready_def)
  then have "in_buffer 0 u" using assms by (simp add: in_buffer_def parser_ready_def)
  from read_in_buffer [OF this, of "is"] show ?thesis
    by (cases "read_gps_ubx is 0 u") (auto simp: in_buffer_def)
qed

lemma one_call_in_buffer_witness:
  "read_gps_ubx (received 1 2 ([0xB5, 0x62, 1, 2, 255, 255] @ replicate 2000 3)) 0 new_driver \<noteq> Inl Buffer_overrun \<and>
    (case read_gps_ubx (received 1 2 ([0xB5, 0x62, 1, 2, 255, 255] @ replicate 2000 3)) 0 new_driver of Inl e \<Rightarrow> True
     | Inr (ret, rest, u') \<Rightarrow> 0 \<le> rx_count (ubx_st u') \<and> rx_count (ubx_st u') \<le> 1000 \<and> length (rx_buffer u') = 1000)"
  by (rule one_call_in_buffer [OF new_driver_ready])

text \<open>
  Across calls the bound is lost: the reader counts from 0 again after a pause of a second, but the parser goes on
  where it was, so a frame that announces 1000 bytes or more and is interrupted by a pause is written past the end of
  the buffer.
\<close>
theorem interrupted_packet_overruns:
  assumes "parser_ready u" "known_message cls mid c m" "1000 \<le> n" "n < 65536"
    and "length before \<le> 994" "length before + length after = 1000" "0 < length before"
  shows "ubx_loop 2 (received t1 t2 ([0xB5, 0x62, cls, mid] @ le16 (word_of_nat n) @ before) @ [Poll_timeout] @
      received t1 t2 (after @ [b])) u = Inl Buffer_overrun"
proof -
  let ?u = "\<lambda>k ck buf. u\<lparr>ubx_st := in_packet c m n ck k (ubx_st u), rx_buffer := buf\<rparr>"
  let ?h = "checksum_from (0, 0) ([cls, mid] @ le16 (word_of_nat n))"
  let ?later = "Poll_timeout # received t1 t2 (after @ [b])"
  let ?buf = "before @ drop (length before) (rx_buffer u)"
  have buf: "length (rx_buffer u) = 1000" using assms(1) by (simp add: parser_ready_def)
  have "read_gps_ubx (received t1 t2 ([0xB5, 0x62, cls, mid] @ le16 (word_of_nat n) @ before) @ [Poll_timeout] @
      received t1 t2 (after @ [b])) 0 u =
      read_gps_ubx (received t1 t2 before @ ?later) 6 (?u 0 ?h (rx_buffer u))"
    using header_parsed [OF assms(1,2,4), of t1 t2 "received t1 t2 before @ ?later"] by simp
  also have "\<dots> = read_gps_ubx ?later (6 + length before) (?u (length before) (checksum_from ?h before) ?buf)"
    using payload_parsed [where k = 0 and bs = before and n = n and rx = 6 and buf = "rx_buffer u" and ck = ?h and
        st = "ubx_st u" and inp = ?later and u = u] assms(3-7) buf
    by simp
  also have "\<dots> = Inr (0, received t1 t2 (after @ [b]), ?u (length before) (checksum_from ?h before) ?buf)" by simp
  finally have first: "read_gps_ubx (received t1 t2 ([0xB5, 0x62, cls, mid] @ le16 (word_of_nat n) @ before) @ [Poll_timeout] @
      received t1 t2 (after @ [b])) 0 u = Inr (0, received t1 t2 (after @ [b]), ?u (length before) (checksum_from ?h before) ?buf)" .
  have "read_gps_ubx (received t1 t2 after @ received t1 t2 [b]) 0 (?u (length before) (checksum_from ?h before) ?buf) =
      read_gps_ubx (received t1 t2 [b]) (length after)
        (?u 1000 (checksum_from (checksum_from ?h before) after) (before @ after))"
    using payload_parsed [where k = "length before" and bs = after and n = n and rx = 0 and buf = ?buf and
        ck = "checksum_from ?h before" and st = "ubx_st u" and inp = "received t1 t2 [b]" and u = u] assms(3-7) buf
    by simp
  also have "\<dots> = Inl Buffer_overrun"
  proof -
    have "\<not> 1000 \<le> length after" "length (before @ after) = 1000" using assms(6,7) by (simp_all del: length_greater_0_conv)
    then show ?thesis by (simp add: UBX_BUFFER_SIZE_def ubx_parse_def parse_payload_def Let_def)
  qed
  finally show ?thesis using first by (simp add: numeral_2_eq_2)
qed

lemma interrupted_packet_overruns_witness:
  "ubx_loop 2 (received 1 2 ([0xB5, 0x62, UBX_CLASS_NAV, UBX_MESSAGE_NAV_SVINFO] @ le16 (word_of_nat 1000) @ replicate 500 3) @
     [Poll_timeout] @ received 1 2 (replicate 500 4 @ [5])) new_driver = Inl Buffer_overrun"
  by (rule interrupted_packet_overruns [OF new_driver_ready, where c = NAV and m = NAV_SVINFO])
    (simp_all add: known_message_def)

subsection \<open>Time\<close>

text \<open>
  A valid time packet for a calendar time up to the year 2100 is accepted: the position's time is the number of
  seconds since 1970 of that time in microseconds plus the converted rest, and the position is stamped and counted.
\<close>
theorem time_received:
  assumes "parser_ready u" "valid_tm t" "tm_year t \<le> 200"
    and "f32_to_unsigned (f32_mul (f32_of_int (sint nano)) F32_MILLI) = Some usec"
    and p_def: "p = timeutc_payload itow tacc nano t valid"
  shows "\<exists>u'. read_gps_ubx (received t1 t2 (ubx_frame UBX_CLASS_NAV UBX_MESSAGE_NAV_TIMEUTC p
      (frame_checksum UBX_CLASS_NAV UBX_MESSAGE_NAV_TIMEUTC p)) @ is) 0 u = Inr (0, is, u') \<and>
    time_gps_usec (ubx_gps u') = word_of_int (civil_seconds t) * 1000000 + usec \<and>
    gps_timestamp (ubx_gps u') = t1 \<and> gps_counter (ubx_gps u') = gps_counter (ubx_gps u) + 1 \<and>
    last_message_timestamps (ubx_st u') = (last_message_timestamps (ubx_st u))[2 := t2] \<and> parser_ready u'"
proof -
  obtain u' where "read_gps_ubx (received t1 t2 (ubx_frame UBX_CLASS_NAV UBX_MESSAGE_NAV_TIMEUTC p
      (frame_checksum UBX_CLASS_NAV UBX_MESSAGE_NAV_TIMEUTC p)) @ is) 0 u = Inr (0, is, u')"
    "accepted 2 ((ubx_gps u)\<lparr>time_gps_usec := word_of_int (civil_seconds t) * 1000000 + usec\<rparr>) t1 t2 u u'"
    using time_accepted [OF assms] by blast
  then show ?thesis by (intro exI [of _ u']) (simp add: accepted_def)
qed

lemma half_a_second: "f32_to_unsigned (f32_mul (f32_of_int (sint (500000000 :: u32))) F32_MILLI) = Some (500000 :: u64)"
  by code_simp

lemma time_received_witness:
  "\<exists>u'. read_gps_ubx (received 7 8 (ubx_frame UBX_CLASS_NAV UBX_MESSAGE_NAV_TIMEUTC
        (timeutc_payload 1 2 500000000 \<lparr>tm_sec = 59, tm_min = 59, tm_hour = 23, tm_mday = 31, tm_mon = 11, tm_year = 112\<rparr> 7)
        (frame_checksum UBX_CLASS_NAV UBX_MESSAGE_NAV_TIMEUTC
          (timeutc_payload 1 2 500000000 \<lparr>tm_sec = 59, tm_min = 59, tm_hour = 23, tm_mday = 31, tm_mon = 11, tm_year = 112\<rparr> 7)))
        @ [Terminate]) 0 new_driver = Inr (0, [Terminate], u') \<and>
    time_gps_usec (ubx_gps u') = word_of_int (civil_seconds
      \<lparr>tm_sec = 59, tm_min = 59, tm_hour = 23, tm_mday = 31, tm_mon = 11, tm_year = 112\<rparr>) * 1000000 + 500000 \<and>
    gps_timestamp (ubx_gps u') = 7 \<and> gps_counter (ubx_gps u') = gps_counter (ubx_gps new_driver) + 1 \<and>
    last_message_timestamps (ubx_st u') = (last_message_timestamps (ubx_st new_driver))[2 := 8] \<and> parser_ready u'"
  by (rule time_received [OF new_driver_ready _ _ half_a_second refl]) (code_simp, simp)

subsection \<open>Satellites\<close>

definition overwrite :: "nat \<Rightarrow> 'a list \<Rightarrow> 'a list \<Rightarrow> 'a list" where
  "overwrite i ys xs = take i xs @ ys @ drop (i + length ys) xs"

lemma overwrite_Nil [simp]: "overwrite i [] xs = xs"
  by (simp add: overwrite_def)

lemma overwrite_Cons: "i < length xs \<Longrightarrow> overwrite (Suc i) ys (xs[i := y]) = overwrite i (y # ys) xs"
  by (simp add: overwrite_def take_Suc_conv_app_nth)

definition stored :: "nat \<Rightarrow> satellite list \<Rightarrow> gps_position \<Rightarrow> gps_position" where
  "stored i sats g = g\<lparr>satellite_prn := overwrite i (map sat_prn sats) (satellite_prn g),
     satellite_used := overwrite i (map sat_used sats) (satellite_used g),
     satellite_elevation := overwrite i (map sat_elevation sats) (satellite_elevation g),
     satellite_azimuth := overwrite i (map sat_azimuth sats) (satellite_azimuth g),
     satellite_snr := overwrite i (map sat_snr sats) (satellite_snr g)\<rparr>"

definition twenty_channels :: "gps_position \<Rightarrow> bool" where
  "twenty_channels g \<longleftrightarrow> length (satellite_prn g) = 20 \<and> length (satellite_used g) = 20 \<and> length (satellite_elevation g) = 20 \<and>
     length (satellite_azimuth g) = 20 \<and> length (satellite_snr g) = 20"

lemma stored_Nil [simp]: "stored i [] g = g"
  by (simp add: stored_def)

lemma set_satellite_stored:
  assumes "i < 20" "twenty_channels g"
  shows "\<exists>g'. set_satellite i s g = Inr g' \<and> twenty_channels g' \<and> (\<forall>sats. stored (Suc i) sats g' = stored i (s # sats) g)"
  using assms by (simp add: set_satellite_def twenty_channels_def stored_def overwrite_Cons)

definition channels :: "bytes list \<Rightarrow> satellite list \<Rightarrow> bool" where
  "channels chans sats \<longleftrightarrow> list_all2 (\<lambda>c s. length c = 12 \<and> read_satellite c = Inr s) chans sats"

lemma channels_simps [simp]:
  "channels [] sats \<longleftrightarrow> sats = []"
  "channels (c # cs) (s # ss) \<longleftrightarrow> length c = 12 \<and> read_satellite c = Inr s \<and> channels cs ss"
  by (simp_all add: channels_def)

lemma next_channel:
  assumes "drop (8 + i * 12) buf = (c @ cs) @ rest" "length c = 12"
  shows "8 + i * 12 + 12 \<le> length buf" "field (8 + i * 12) 12 buf = c" "drop (8 + Suc i * 12) buf = cs @ rest"
proof -
  have "length (drop (8 + i * 12) buf) \<ge> 12" using assms by simp
  then show "8 + i * 12 + 12 \<le> length buf" by simp
  show "field (8 + i * 12) 12 buf = c" using assms by (simp add: field_def)
  have "drop (8 + Suc i * 12) buf = drop 12 (drop (8 + i * 12) buf)" by simp
  also have "\<dots> = cs @ rest" unfolding assms(1) using assms(2) by simp
  finally show "drop (8 + Suc i * 12) buf = cs @ rest" .
qed

lemma channels_stored:
  "channels chans sats \<Longrightarrow> twenty_channels g \<Longrightarrow> drop (8 + i * 12) buf = concat chans @ rest \<Longrightarrow> i \<le> 20 \<Longrightarrow>
   store_channels buf i (length chans) g = (if i + length chans \<le> 20 then Inr (stored i sats g) else Inl Array_overrun)"
proof (induction chans arbitrary: i sats g)
  case (Cons c cs)
  obtain s ss where s: "sats = s # ss" "length c = 12" "read_satellite c = Inr s" "channels cs ss"
    using Cons.prems(1) by (cases sats) (auto simp: channels_def)
  note here = next_channel [of i buf c "concat cs" rest, OF _ s(2)]
  have b: "drop (8 + i * 12) buf = (c @ concat cs) @ rest" using Cons.prems(3) by simp
  show ?case
  proof (cases "i < 20")
    case False
    then show ?thesis using here(1,2) [OF b] s(3) Cons.prems(4) by (simp add: set_satellite_def)
  next
    case True
    then obtain g' where g': "set_satellite i s g = Inr g'" "twenty_channels g'" "\<forall>sats. stored (Suc i) sats g' = stored i (s # sats) g"
      using set_satellite_stored [OF True Cons.prems(2), of s] by blast
    then show ?thesis
      using Cons.IH [OF s(4) g'(2) here(3) [OF b]] True here(1,2) [OF b] s(1,3) by simp
  qed
qed (simp)

lemma channels_cleared:
  "twenty_channels g \<Longrightarrow> i + n \<le> 20 \<Longrightarrow> clear_channels i n g = Inr (stored i (replicate n no_satellite) g)"
proof (induction n arbitrary: i g)
  case (Suc n)
  obtain g' where "set_satellite i no_satellite g = Inr g'" "twenty_channels g'"
    "\<forall>sats. stored (Suc i) sats g' = stored i (no_satellite # sats) g"
    using set_satellite_stored [of i g no_satellite] Suc.prems by auto
  then show ?case using Suc.IH [of g' "Suc i"] Suc.prems by simp
qed simp

definition svinfo_payload :: "u32 \<Rightarrow> u8 \<Rightarrow> u16 \<Rightarrow> bytes list \<Rightarrow> bytes" where
  "svinfo_payload itow flags reserved chans =
     le32 itow @ [word_of_nat (length chans), flags] @ le16 reserved @ concat chans"

text \<open>The table after \<open>sats\<close> were stored: the channels that are not used are cleared.\<close>

definition satellite_table :: "satellite list \<Rightarrow> gps_position \<Rightarrow> gps_position" where
  "satellite_table sats g = (let all = sats @ replicate (20 - length sats) no_satellite
     in g\<lparr>satellite_prn := map sat_prn all, satellite_used := map sat_used all, satellite_elevation := map sat_elevation all,
          satellite_azimuth := map sat_azimuth all, satellite_snr := map sat_snr all,
          satellite_info_available := if sats = [] then 1 else 0\<rparr>)"

lemma overwrite_both:
  assumes "length xs = 20" "length ys \<le> 20"
  shows "overwrite (length ys) (replicate (20 - length ys) z) (overwrite 0 ys xs) = ys @ replicate (20 - length ys) z"
  using assms by (simp add: overwrite_def)

lemma stored_both:
  assumes "twenty_channels g" "length sats \<le> 20"
  shows "stored (length sats) (replicate (20 - length sats) no_satellite) (stored 0 sats g)
    \<lparr>satellite_info_available := if length sats = 0 then 1 else 0\<rparr> = satellite_table sats g"
proof -
  have "overwrite (length sats) (map f (replicate (20 - length sats) no_satellite)) (overwrite 0 (map f sats) xs) =
      map f (sats @ replicate (20 - length sats) no_satellite)" if "length xs = 20" for f :: "satellite \<Rightarrow> u8" and xs
    using overwrite_both [OF that, of "map f sats" "f no_satellite"] assms(2) by simp
  then show ?thesis
    using assms(1) by (simp add: stored_def satellite_table_def twenty_channels_def Let_def del: map_replicate map_append)
qed

lemma stored_channels: "twenty_channels g \<Longrightarrow> length sats \<le> 20 \<Longrightarrow> twenty_channels (stored 0 sats g)"
  by (simp add: twenty_channels_def stored_def overwrite_def)

lemma channels_length: "channels chans sats \<Longrightarrow> length sats = length chans \<and> length (concat chans) = 12 * length chans"
proof (induction chans arbitrary: sats)
  case (Cons c cs)
  then obtain s ss where "sats = s # ss" "length c = 12" "channels cs ss" by (cases sats) (auto simp: channels_def)
  then show ?case using Cons.IH [of ss] by simp
qed simp

text \<open>What a valid satellite packet makes of the position.\<close>

lemma satellites_update:
  assumes "channels chans sats" "twenty_channels g" "length chans < 80"
    and buf_def: "buf = svinfo_payload itow flags reserved chans @ rest"
  shows "(case store_channels buf 0 (unat (buf ! 4)) g of
        Inl e \<Rightarrow> Inl e
      | Inr g1 \<Rightarrow>
          (case clear_channels (unat (buf ! 4)) (20 - unat (buf ! 4)) g1 of
             Inl e \<Rightarrow> Inl e
           | Inr g2 \<Rightarrow> Inr (g2\<lparr>satellite_info_available := if unat (buf ! 4) = 0 then 1 else 0\<rparr>))) =
    (if length chans \<le> 20 then Inr (satellite_table sats g) else Inl Array_overrun)"
proof -
  have l: "length (le32 itow) = 4" "length (le16 reserved) = 2" by simp_all
  have b: "buf = le32 itow @ word_of_nat (length chans) # flags # le16 reserved @ concat chans @ rest"
    by (simp add: buf_def svinfo_payload_def)
  have num: "unat (buf ! 4) = length chans"
    using assms(3) unfolding b by (simp add: nth_append unsigned_of_nat take_bit_nat_eq_self)
  have chans: "drop (8 + 0 * 12) buf = concat chans @ rest" unfolding b by simp
  have st: "store_channels buf 0 (length chans) g = (if 0 + length chans \<le> 20 then Inr (stored 0 sats g) else Inl Array_overrun)"
    using channels_stored [OF assms(1,2) chans] by simp
  have len: "length sats = length chans" using channels_length [OF assms(1)] by simp
  show ?thesis
  proof (cases "length chans \<le> 20")
    case True
    have "clear_channels (length chans) (20 - length chans) (stored 0 sats g) =
        Inr (stored (length chans) (replicate (20 - length chans) no_satellite) (stored 0 sats g))"
      using channels_cleared [OF stored_channels [OF assms(2)], of sats "length chans" "20 - length chans"] True len by simp
    then show ?thesis using True stored_both [OF assms(2), of sats] len unfolding num st by simp
  next
    case False
    then show ?thesis unfolding num st by simp
  qed
qed

definition svinfo_update :: "bytes \<Rightarrow> gps_position \<Rightarrow> gps_fault + gps_position" where
  "svinfo_update buf g = (case store_channels buf 0 (unat (buf ! 4)) g of
     Inl e \<Rightarrow> Inl e
   | Inr g1 \<Rightarrow> (case clear_channels (unat (buf ! 4)) (20 - unat (buf ! 4)) g1 of
       Inl e \<Rightarrow> Inl e
     | Inr g2 \<Rightarrow> Inr (g2\<lparr>satellite_info_available := if unat (buf ! 4) = 0 then 1 else 0\<rparr>)))"

lemma svinfo_length:
  assumes "channels chans sats" "length chans < 80"
  shows "length (svinfo_payload itow flags reserved chans) \<le> 992"
  using channels_length [OF assms(1)] assms(2) by (simp add: svinfo_payload_def)

lemma svinfo_parsed:
  assumes "channels chans sats" "twenty_channels (ubx_gps u)" "length chans < 80"
    and p_def: "p = svinfo_payload itow flags reserved chans"
    and v_def: "v = arrived NAV NAV_SVINFO ck p ck u"
  shows "parse_packet t1 t2 v = finish_packet True 4 (svinfo_update (rx_buffer v)) t1 t2 v"
    and "svinfo_update (rx_buffer v) (ubx_gps u) =
      (if length chans \<le> 20 then Inr (satellite_table sats (ubx_gps u)) else Inl Array_overrun)"
proof -
  have id: "message_id (ubx_st v) = NAV_SVINFO" by (simp add: v_def)
  have "checksum_at (nat (rx_count (ubx_st v) - 1)) v" unfolding v_def checksum_before_end by simp
  then show "parse_packet t1 t2 v = finish_packet True 4 (svinfo_update (rx_buffer v)) t1 t2 v"
    unfolding parse_packet_def id ubx_message.case parse_nav_svinfo_def Let_def svinfo_update_def [abs_def] by (simp only: )
  have "rx_buffer v = svinfo_payload itow flags reserved chans @ [fst ck, snd ck] @ drop (length p + 2) (rx_buffer u)"
    by (simp add: v_def p_def)
  from satellites_update [OF assms(1-3) this]
  show "svinfo_update (rx_buffer v) (ubx_gps u) =
      (if length chans \<le> 20 then Inr (satellite_table sats (ubx_gps u)) else Inl Array_overrun)"
    by (simp only: svinfo_update_def)
qed

lemma svinfo_known: "known_message UBX_CLASS_NAV UBX_MESSAGE_NAV_SVINFO NAV NAV_SVINFO"
  by (simp add: known_message_def)

text \<open>
  A valid satellite packet with at most twenty channels fills the first places of the five tables with what the
  channels say, in order, and clears the others; \<open>satellite_info_available\<close> is set exactly when there is no channel at all.
\<close>
theorem satellites_stored:
  assumes "parser_ready u" "channels chans sats" "twenty_channels (ubx_gps u)" "length chans \<le> 20"
    and p_def: "p = svinfo_payload itow flags reserved chans"
  shows "\<exists>u'. read_gps_ubx (received t1 t2 (ubx_frame UBX_CLASS_NAV UBX_MESSAGE_NAV_SVINFO p
      (frame_checksum UBX_CLASS_NAV UBX_MESSAGE_NAV_SVINFO p)) @ is) 0 u = Inr (0, is, u') \<and>
    accepted 4 (satellite_table sats (ubx_gps u)) t1 t2 u u'"
proof -
  let ?ck = "frame_checksum UBX_CLASS_NAV UBX_MESSAGE_NAV_SVINFO p"
  let ?v = "arrived NAV NAV_SVINFO ?ck p ?ck u"
  have few: "length chans < 80" using assms(4) by simp
  have len: "length p \<le> 992" unfolding p_def by (rule svinfo_length [OF assms(2) few])
  have "svinfo_update (rx_buffer ?v) (ubx_gps u) = Inr (satellite_table sats (ubx_gps u))"
    using svinfo_parsed(2) [OF assms(2,3) few p_def refl] assms(4) by simp
  from packet_accepted [where update = "svinfo_update (rx_buffer ?v)", OF assms(1) len this]
  obtain u' where "finish_packet True 4 (svinfo_update (rx_buffer ?v)) t1 t2 ?v = Inr (1, u')"
    "accepted 4 (satellite_table sats (ubx_gps u)) t1 t2 u u'"
    by blast
  then show ?thesis
    using frame_parsed [OF assms(1) svinfo_known len, of t1 t2 ?ck "is"] svinfo_parsed(1) [OF assms(2,3) few p_def refl, of t1 t2 ?ck]
    by (simp del: arrived_fields(3))
qed

text \<open>
  A valid packet with more than twenty channels (the receiver knows more satellites) is written past the end of the
  tables of the position.
\<close>
theorem too_many_satellites:
  assumes "parser_ready u" "channels chans sats" "twenty_channels (ubx_gps u)" "20 < length chans" "length chans < 80"
    and p_def: "p = svinfo_payload itow flags reserved chans"
  shows "read_gps_ubx (received t1 t2 (ubx_frame UBX_CLASS_NAV UBX_MESSAGE_NAV_SVINFO p
      (frame_checksum UBX_CLASS_NAV UBX_MESSAGE_NAV_SVINFO p)) @ is) 0 u = Inl Array_overrun"
proof -
  let ?ck = "frame_checksum UBX_CLASS_NAV UBX_MESSAGE_NAV_SVINFO p"
  let ?v = "arrived NAV NAV_SVINFO ?ck p ?ck u"
  have len: "length p \<le> 992" unfolding p_def by (rule svinfo_length [OF assms(2,5)])
  have "svinfo_update (rx_buffer ?v) (ubx_gps ?v) = Inl Array_overrun"
    using svinfo_parsed(2) [OF assms(2,3,5) p_def refl] assms(4) by (simp del: arrived_fields(3))
  then have "finish_packet True 4 (svinfo_update (rx_buffer ?v)) t1 t2 ?v = Inl Array_overrun"
    unfolding finish_packet_def by (simp del: arrived_fields)
  then show ?thesis
    using frame_parsed [OF assms(1) svinfo_known len, of t1 t2 ?ck "is"] svinfo_parsed(1) [OF assms(2,3,5) p_def refl, of t1 t2 ?ck]
    by (simp del: arrived_fields(3))
qed

text \<open>A channel with a healthy satellite: bytes of the packet and what they stand for.\<close>

definition example_channel :: bytes where "example_channel = [0, 12, 1, 0, 40, 30, 180, 0, 0, 0, 0, 0]"

definition example_satellite :: satellite where
  "example_satellite = \<lparr>sat_prn = 12, sat_used = 1, sat_snr = 40, sat_elevation = 30, sat_azimuth = 127\<rparr>"

lemma example_channels: "channels (replicate n example_channel) (replicate n example_satellite)"
proof -
  have c: "read_satellite example_channel = Inr example_satellite" by code_simp
  have "length example_channel = 12" by (simp add: example_channel_def)
  then show ?thesis using c by (simp add: channels_def list_all2_conv_all_nth)
qed

lemma new_driver_channels: "twenty_channels (ubx_gps new_driver)"
  by (simp add: twenty_channels_def new_driver_def new_position_def)

lemma satellites_stored_witness:
  "\<exists>u'. read_gps_ubx (received 1 2 (ubx_frame UBX_CLASS_NAV UBX_MESSAGE_NAV_SVINFO (svinfo_payload 0 0 0 (replicate 3 example_channel))
      (frame_checksum UBX_CLASS_NAV UBX_MESSAGE_NAV_SVINFO (svinfo_payload 0 0 0 (replicate 3 example_channel)))) @ [Terminate]) 0 new_driver =
      Inr (0, [Terminate], u') \<and>
    accepted 4 (satellite_table (replicate 3 example_satellite) (ubx_gps new_driver)) 1 2 new_driver u'"
  by (rule satellites_stored [OF new_driver_ready example_channels new_driver_channels _ refl]) simp

lemma too_many_satellites_witness:
  "read_gps_ubx (received 1 2 (ubx_frame UBX_CLASS_NAV UBX_MESSAGE_NAV_SVINFO (svinfo_payload 0 0 0 (replicate 21 example_channel))
      (frame_checksum UBX_CLASS_NAV UBX_MESSAGE_NAV_SVINFO (svinfo_payload 0 0 0 (replicate 21 example_channel)))) @ [Terminate]) 0 new_driver =
      Inl Array_overrun"
  by (rule too_many_satellites [OF new_driver_ready example_channels new_driver_channels _ _ refl]) simp_all

section \<open>Properties of the watchdog\<close>

fun watchdog_run :: "bool \<Rightarrow> (u64 \<times> u64 list) list \<Rightarrow> watchdog \<Rightarrow> watchdog_action list \<times> watchdog" where
  "watchdog_run others [] w = ([], w)"
| "watchdog_run others (x # xs) w =
     (let (as, w') = watchdog_turn others (fst x) (snd x) w
      in if Give_up \<in> set as then (as, w') else (let (bs, w'') = watchdog_run others xs w' in (as @ bs, w'')))"

lemma turn_never_finds:
  "\<not> once_ok w \<Longrightarrow> Log_found \<notin> set (fst (watchdog_turn others now ts w)) \<and> \<not> once_ok (snd (watchdog_turn others now ts w))"
  by (simp add: watchdog_turn_def Let_def)

lemma run_never_finds:
  "\<not> once_ok w \<Longrightarrow> Log_found \<notin> set (fst (watchdog_run others xs w)) \<and> \<not> once_ok (snd (watchdog_run others xs w))"
proof (induction xs arbitrary: w)
  case (Cons x xs)
  obtain acts w' where t: "watchdog_turn others (fst x) (snd x) w = (acts, w')" by (metis surj_pair)
  then have w': "Log_found \<notin> set acts" "\<not> once_ok w'" using turn_never_finds [OF Cons.prems, of "others" "fst x" "snd x"] by simp_all
  obtain bs w'' where r: "watchdog_run others xs w' = (bs, w'')" by (metis surj_pair)
  then show ?case using Cons.IH [OF w'(2)] w' t by simp
qed simp

lemma run_append:
  "Give_up \<notin> set (fst (watchdog_run others xs w)) \<Longrightarrow>
   watchdog_run others (xs @ ys) w = (fst (watchdog_run others xs w) @ fst (watchdog_run others ys (snd (watchdog_run others xs w))),
     snd (watchdog_run others ys (snd (watchdog_run others xs w))))"
  by (induction xs arbitrary: w) (auto simp: split_beta Let_def split: if_splits)

lemma healthy_turn:
  assumes "all_okay now ts"
  shows "watchdog_turn others now ts w = ([], w\<lparr>ubx_success_count := ubx_success_count w + 1, ubx_healthy := True, ubx_fail_count := 0\<rparr>)"
  using assms by (simp add: watchdog_turn_def Let_def)

text \<open>
  The watchdog never reports that a receiver was found and never remembers it (the branch for success sets the flag
  that it tests next). So when a receiver that works misses its messages, the second failing turn reports that it stopped, and,
  if other modes are to be tried, the third gives it up as if no receiver had ever been there.
\<close>
theorem found_receiver_given_up:
  assumes "Give_up \<notin> set (fst (watchdog_run True xs watchdog_start))" "all_okay now ts"
    and "\<not> all_okay now1 ts1" "\<not> all_okay now2 ts2" "\<not> all_okay now3 ts3"
  shows "Log_found \<notin> set (fst (watchdog_run True (xs @ [(now, ts), (now1, ts1), (now2, ts2), (now3, ts3)]) watchdog_start)) \<and>
    fst (watchdog_run True (xs @ [(now, ts), (now1, ts1), (now2, ts2), (now3, ts3)]) watchdog_start) =
    fst (watchdog_run True xs watchdog_start) @ [Reconfigure, Log_stopped, Reconfigure, Give_up]"
proof -
  let ?w = "snd (watchdog_run True xs watchdog_start)"
  have "\<not> once_ok ?w" using run_never_finds [of watchdog_start True xs] by (simp add: watchdog_start_def)
  then have "fst (watchdog_run True [(now, ts), (now1, ts1), (now2, ts2), (now3, ts3)] ?w) =
      [Reconfigure, Log_stopped, Reconfigure, Give_up]"
    using assms(3-5) by (simp add: healthy_turn [OF assms(2)]) (simp add: watchdog_turn_def Let_def)
  then show ?thesis using run_append [OF assms(1)] run_never_finds [of watchdog_start True] by (simp add: watchdog_start_def)
qed

lemma found_receiver_given_up_witness:
  "Log_found \<notin> set (fst (watchdog_run True ([(1000000, replicate 7 0)] @ [(2000000, replicate 7 1000000),
      (6000000, replicate 7 2000000), (7000000, replicate 7 2000000), (8000000, replicate 7 2000000)]) watchdog_start)) \<and>
    fst (watchdog_run True ([(1000000, replicate 7 0)] @ [(2000000, replicate 7 1000000),
      (6000000, replicate 7 2000000), (7000000, replicate 7 2000000), (8000000, replicate 7 2000000)]) watchdog_start) =
    fst (watchdog_run True [(1000000, replicate 7 0)] watchdog_start) @ [Reconfigure, Log_stopped, Reconfigure, Give_up]"
  by (rule found_receiver_given_up) code_simp+

end
