(* ===== verification/Mavlink_Frame.thy ===== *)
theory Mavlink_Frame
  imports Bytes
begin

text \<open>
  The frames of the telemetry link: the checksum (\<open>src/mavlink/include/mavlink/v1.0/checksum.h\<close>), the two ways a message is
  put on the wire and the byte-wise parser (\<open>mavlink_helpers.h\<close>), with the loop that feeds it
  (\<open>receiveloop\<close> in \<open>src/apps/mavlink/mavlink.c\<close>).
\<close>

unbundle bit_operations_syntax

section \<open>Checksum\<close>

definition X25_INIT_CRC :: u16 where "X25_INIT_CRC = 0xffff"

definition crc_accumulate :: "u8 \<Rightarrow> u16 \<Rightarrow> u16" where
  "crc_accumulate data crc =
     (let tmp = data XOR ucast (crc AND 0xff);
          tmp = tmp XOR push_bit 4 tmp
      in drop_bit 8 crc XOR push_bit 8 (ucast tmp) XOR push_bit 3 (ucast tmp) XOR drop_bit 4 (ucast tmp))"

definition crc_accumulate_buffer :: "u16 \<Rightarrow> bytes \<Rightarrow> u16" where
  "crc_accumulate_buffer crc bs = fold crc_accumulate bs crc"

definition crc_calculate :: "bytes \<Rightarrow> u16" where
  "crc_calculate bs = crc_accumulate_buffer X25_INIT_CRC bs"

text \<open>The byte that is added to the checksum for every kind of message (\<open>common/common.h\<close>).\<close>

definition MAVLINK_MESSAGE_CRCS :: "u8 list" where
  "MAVLINK_MESSAGE_CRCS =
   [50, 124, 137, 0, 237, 217, 104, 119, 0, 0, 0, 89, 0, 0, 0, 0, 0, 0, 0, 0, 214, 159, 220, 168, 24, 23, 170, 144, 67, 115, 39, 246,
   185, 104, 237, 244, 242, 212, 9, 254, 230, 28, 28, 132, 221, 232, 11, 153, 41, 39, 214, 223, 141, 33, 15, 3, 100, 24, 239, 238, 30, 240, 183, 130,
   130, 0, 148, 21, 0, 243, 124, 0, 0, 0, 20, 0, 152, 143, 0, 0, 0, 0, 0, 0, 0, 0, 0, 0, 0, 231, 183, 63, 54, 0, 0, 0,
   0, 0, 0, 0, 175, 102, 158, 208, 56, 93, 0, 0, 0, 0, 0, 0, 0, 0, 0, 0, 0, 0, 0, 0, 0, 0, 0, 0, 0, 0, 0, 0,
   0, 0, 0, 0, 0, 0, 0, 0, 0, 0, 0, 0, 0, 0, 0, 0, 0, 0, 0, 0, 0, 0, 0, 0, 0, 0, 0, 0, 0, 0, 0, 0,
   0, 0, 0, 0, 0, 0, 0, 0, 0, 0, 0, 0, 0, 0, 0, 0, 0, 0, 0, 0, 0, 0, 0, 0, 0, 0, 0, 0, 0, 0, 0, 0,
   0, 0, 0, 0, 0, 0, 0, 0, 0, 0, 0, 0, 0, 0, 0, 0, 0, 0, 0, 0, 0, 0, 0, 0, 0, 0, 0, 0, 0, 0, 0, 0,
   0, 0, 0, 0, 0, 0, 0, 0, 0, 0, 0, 0, 0, 0, 0, 0, 0, 0, 0, 0, 0, 0, 0, 0, 0, 204, 49, 170, 44, 83, 46, 0]"

definition MAVLINK_MESSAGE_CRC :: "u8 \<Rightarrow> u8" where
  "MAVLINK_MESSAGE_CRC msgid = MAVLINK_MESSAGE_CRCS ! unat msgid"

section \<open>State\<close>

datatype mavlink_parse_state =
    MAVLINK_PARSE_STATE_UNINIT | MAVLINK_PARSE_STATE_IDLE | MAVLINK_PARSE_STATE_GOT_STX | MAVLINK_PARSE_STATE_GOT_SEQ
  | MAVLINK_PARSE_STATE_GOT_LENGTH | MAVLINK_PARSE_STATE_GOT_SYSID | MAVLINK_PARSE_STATE_GOT_COMPID
  | MAVLINK_PARSE_STATE_GOT_MSGID | MAVLINK_PARSE_STATE_GOT_PAYLOAD | MAVLINK_PARSE_STATE_GOT_CRC1

record mavlink_message =
  checksum :: u16
  magic :: u8
  msg_len :: u8
  msg_seq :: u8
  msg_sysid :: u8
  msg_compid :: u8
  msgid :: u8
  payload :: bytes

record mavlink_status =
  msg_received :: u8
  buffer_overrun :: u8
  parse_error :: u8
  parse_state :: mavlink_parse_state
  packet_idx :: u8
  current_rx_seq :: u8
  current_tx_seq :: u8
  packet_rx_success_count :: u16
  packet_rx_drop_count :: u16

text \<open>The static buffers of one channel and the status that the caller passes.\<close>

record mavlink_rx =
  rx_status :: mavlink_status
  rx_msg :: mavlink_message
  r_status :: mavlink_status

definition MAVLINK_STX :: u8 where "MAVLINK_STX = 254"
definition MAVLINK_MAX_PAYLOAD_LEN :: nat where "MAVLINK_MAX_PAYLOAD_LEN = 255"

text \<open>The payload is an array of 33 words of 64 bits.\<close>

definition PAYLOAD_BYTES :: nat where
  "PAYLOAD_BYTES = (MAVLINK_MAX_PAYLOAD_LEN + 2 + 7) div 8 * 8"

section \<open>Sending\<close>

text \<open>The bytes from \<open>len\<close> on: five of the header and the first of the payload.\<close>

definition message_bytes :: "nat \<Rightarrow> mavlink_message \<Rightarrow> bytes" where
  "message_bytes n msg = [msg_len msg, msg_seq msg, msg_sysid msg, msg_compid msg, msgid msg] @ take n (payload msg)"

definition mavlink_finalize_message_chan ::
    "mavlink_message \<Rightarrow> u8 \<Rightarrow> u8 \<Rightarrow> u8 \<Rightarrow> u8 \<Rightarrow> mavlink_status \<Rightarrow> u16 \<times> mavlink_message \<times> mavlink_status" where
  "mavlink_finalize_message_chan msg system_id component_id length' crc_extra st =
     (let msg1 = msg\<lparr>magic := MAVLINK_STX, msg_len := length', msg_sysid := system_id, msg_compid := component_id,
            msg_seq := current_tx_seq st\<rparr>;
          st1 = st\<lparr>current_tx_seq := current_tx_seq st + 1\<rparr>;
          crc = crc_accumulate crc_extra (crc_calculate (message_bytes (unat length') msg1));
          n = unat length'
      in (ucast length' + 8, msg1\<lparr>payload := (payload msg1)[n := ucast (crc AND 0xff), n + 1 := ucast (drop_bit 8 crc)]\<rparr>, st1))"

definition mavlink_msg_to_send_buffer :: "mavlink_message \<Rightarrow> bytes" where
  "mavlink_msg_to_send_buffer msg = [magic msg] @ message_bytes (unat (msg_len msg) + 2) msg"

text \<open>The other way: the pieces are written one after another. \<open>sysid\<close> and \<open>compid\<close> are those of \<open>mavlink_system\<close>.\<close>

definition mav_finalize_message_chan_send :: "u8 \<Rightarrow> u8 \<Rightarrow> u8 \<Rightarrow> bytes \<Rightarrow> u8 \<Rightarrow> u8 \<Rightarrow> mavlink_status \<Rightarrow> bytes list \<times> mavlink_status" where
  "mav_finalize_message_chan_send sysid compid mid packet length' crc_extra st =
     (let buf = [MAVLINK_STX, length', current_tx_seq st, sysid, compid, mid];
          st1 = st\<lparr>current_tx_seq := current_tx_seq st + 1\<rparr>;
          crc = crc_accumulate crc_extra (crc_accumulate_buffer (crc_calculate (tl buf)) (take (unat length') packet))
      in ([buf, take (unat length') packet, [ucast (crc AND 0xff), ucast (drop_bit 8 crc)]], st1))"

section \<open>Parsing\<close>

definition mavlink_start_checksum :: "mavlink_message \<Rightarrow> mavlink_message" where
  "mavlink_start_checksum msg = msg\<lparr>checksum := X25_INIT_CRC\<rparr>"

definition mavlink_update_checksum :: "u8 \<Rightarrow> mavlink_message \<Rightarrow> mavlink_message" where
  "mavlink_update_checksum c msg = msg\<lparr>checksum := crc_accumulate c (checksum msg)\<rparr>"

text \<open>A byte of the checksum does not fit; it may be the start of the next frame.\<close>

definition wrong_checksum :: "u8 \<Rightarrow> mavlink_rx \<Rightarrow> mavlink_rx" where
  "wrong_checksum c rx =
     (let st = (rx_status rx)\<lparr>parse_error := parse_error (rx_status rx) + 1, msg_received := 0\<rparr>
      in if c = MAVLINK_STX
         then rx\<lparr>rx_status := st\<lparr>parse_state := MAVLINK_PARSE_STATE_GOT_STX\<rparr>,
                 rx_msg := mavlink_start_checksum ((rx_msg rx)\<lparr>msg_len := 0\<rparr>)\<rparr>
         else rx\<lparr>rx_status := st\<lparr>parse_state := MAVLINK_PARSE_STATE_IDLE\<rparr>\<rparr>)"

text \<open>The switch over the state; the second result is the copy of a complete message.\<close>

definition parse_length :: "u8 \<Rightarrow> mavlink_rx \<Rightarrow> mavlink_rx" where
  "parse_length c rx =
     (let st = rx_status rx
      in if msg_received st \<noteq> 0
         then rx\<lparr>rx_status := st\<lparr>buffer_overrun := buffer_overrun st + 1, parse_error := parse_error st + 1, msg_received := 0,
                                 parse_state := MAVLINK_PARSE_STATE_IDLE\<rparr>\<rparr>
         else rx\<lparr>rx_status := st\<lparr>packet_idx := 0, parse_state := MAVLINK_PARSE_STATE_GOT_LENGTH\<rparr>,
                 rx_msg := mavlink_update_checksum c ((rx_msg rx)\<lparr>msg_len := c\<rparr>)\<rparr>)"

definition parse_msgid :: "u8 \<Rightarrow> mavlink_rx \<Rightarrow> mavlink_rx" where
  "parse_msgid c rx =
     rx\<lparr>rx_msg := mavlink_update_checksum c ((rx_msg rx)\<lparr>msgid := c\<rparr>),
        rx_status := (rx_status rx)\<lparr>parse_state :=
          if msg_len (rx_msg rx) = 0 then MAVLINK_PARSE_STATE_GOT_PAYLOAD else MAVLINK_PARSE_STATE_GOT_MSGID\<rparr>\<rparr>"

definition parse_payload_byte :: "u8 \<Rightarrow> mavlink_rx \<Rightarrow> mavlink_rx" where
  "parse_payload_byte c rx =
     (let st = rx_status rx; msg = rx_msg rx; i = packet_idx st
      in rx\<lparr>rx_msg := mavlink_update_checksum c (msg\<lparr>payload := (payload msg)[unat i := c]\<rparr>),
            rx_status := st\<lparr>packet_idx := i + 1,
              parse_state := if i + 1 = msg_len msg then MAVLINK_PARSE_STATE_GOT_PAYLOAD else MAVLINK_PARSE_STATE_GOT_MSGID\<rparr>\<rparr>)"

definition parse_crc1 :: "u8 \<Rightarrow> mavlink_rx \<Rightarrow> mavlink_rx" where
  "parse_crc1 c rx =
     (let rx1 = rx\<lparr>rx_msg := mavlink_update_checksum (MAVLINK_MESSAGE_CRC (msgid (rx_msg rx))) (rx_msg rx)\<rparr>;
          msg = rx_msg rx1; st = rx_status rx1
      in if (ucast c :: u16) \<noteq> checksum msg AND 0xff then wrong_checksum c rx1
         else rx1\<lparr>rx_status := st\<lparr>parse_state := MAVLINK_PARSE_STATE_GOT_CRC1\<rparr>,
                  rx_msg := msg\<lparr>payload := (payload msg)[unat (packet_idx st) := c]\<rparr>\<rparr>)"

definition parse_crc2 :: "u8 \<Rightarrow> mavlink_rx \<Rightarrow> mavlink_rx \<times> mavlink_message option" where
  "parse_crc2 c rx =
     (let msg = rx_msg rx; st = rx_status rx
      in if (ucast c :: u16) \<noteq> drop_bit 8 (checksum msg) then (wrong_checksum c rx, None)
         else (let msg1 = msg\<lparr>payload := (payload msg)[unat (packet_idx st) + 1 := c]\<rparr>
               in (rx\<lparr>rx_status := st\<lparr>msg_received := 1, parse_state := MAVLINK_PARSE_STATE_IDLE\<rparr>, rx_msg := msg1\<rparr>, Some msg1)))"

definition parse_switch :: "u8 \<Rightarrow> mavlink_rx \<Rightarrow> mavlink_rx \<times> mavlink_message option" where
  "parse_switch c rx =
     (let msg = rx_msg rx; st = rx_status rx;
          start = (if c = MAVLINK_STX
                   then rx\<lparr>rx_status := st\<lparr>parse_state := MAVLINK_PARSE_STATE_GOT_STX\<rparr>,
                           rx_msg := mavlink_start_checksum (msg\<lparr>msg_len := 0, magic := c\<rparr>)\<rparr>
                   else rx)
      in case parse_state st of
           MAVLINK_PARSE_STATE_UNINIT \<Rightarrow> (start, None)
         | MAVLINK_PARSE_STATE_IDLE \<Rightarrow> (start, None)
         | MAVLINK_PARSE_STATE_GOT_STX \<Rightarrow> (parse_length c rx, None)
         | MAVLINK_PARSE_STATE_GOT_LENGTH \<Rightarrow>
             (rx\<lparr>rx_msg := mavlink_update_checksum c (msg\<lparr>msg_seq := c\<rparr>), rx_status := st\<lparr>parse_state := MAVLINK_PARSE_STATE_GOT_SEQ\<rparr>\<rparr>, None)
         | MAVLINK_PARSE_STATE_GOT_SEQ \<Rightarrow>
             (rx\<lparr>rx_msg := mavlink_update_checksum c (msg\<lparr>msg_sysid := c\<rparr>), rx_status := st\<lparr>parse_state := MAVLINK_PARSE_STATE_GOT_SYSID\<rparr>\<rparr>, None)
         | MAVLINK_PARSE_STATE_GOT_SYSID \<Rightarrow>
             (rx\<lparr>rx_msg := mavlink_update_checksum c (msg\<lparr>msg_compid := c\<rparr>), rx_status := st\<lparr>parse_state := MAVLINK_PARSE_STATE_GOT_COMPID\<rparr>\<rparr>, None)
         | MAVLINK_PARSE_STATE_GOT_COMPID \<Rightarrow> (parse_msgid c rx, None)
         | MAVLINK_PARSE_STATE_GOT_MSGID \<Rightarrow> (parse_payload_byte c rx, None)
         | MAVLINK_PARSE_STATE_GOT_PAYLOAD \<Rightarrow> (parse_crc1 c rx, None)
         | MAVLINK_PARSE_STATE_GOT_CRC1 \<Rightarrow> parse_crc2 c rx)"

definition count_message :: "mavlink_rx \<Rightarrow> mavlink_rx" where
  "count_message rx =
     (let st = rx_status rx
      in if msg_received st = 1
         then rx\<lparr>rx_status := st\<lparr>current_rx_seq := msg_seq (rx_msg rx),
                packet_rx_drop_count := if packet_rx_success_count st = 0 then 0 else packet_rx_drop_count st,
                packet_rx_success_count := packet_rx_success_count st + 1\<rparr>\<rparr>
         else rx)"

text \<open>The status of the caller takes the counters; the error count starts over.\<close>

definition report_status :: "mavlink_rx \<Rightarrow> mavlink_rx" where
  "report_status rx =
     (let st = rx_status rx
      in rx\<lparr>r_status := (r_status rx)\<lparr>current_rx_seq := current_rx_seq st + 1, packet_rx_success_count := packet_rx_success_count st,
              packet_rx_drop_count := ucast (parse_error st)\<rparr>,
            rx_status := st\<lparr>parse_error := 0\<rparr>\<rparr>)"

definition mavlink_parse_char :: "u8 \<Rightarrow> mavlink_rx \<Rightarrow> u8 \<times> mavlink_message option \<times> mavlink_rx" where
  "mavlink_parse_char c rx =
     (let (rx1, r_message) = parse_switch c (rx\<lparr>rx_status := (rx_status rx)\<lparr>msg_received := 0\<rparr>\<rparr>);
          rx2 = report_status (count_message rx1)
      in (msg_received (rx_status rx2), r_message, rx2))"

text \<open>The messages parsed from a sequence of bytes.\<close>

fun parse_chars :: "bytes \<Rightarrow> mavlink_rx \<Rightarrow> mavlink_message list \<times> mavlink_rx" where
  "parse_chars [] rx = ([], rx)"
| "parse_chars (c # cs) rx =
     (let (received, r_message, rx1) = mavlink_parse_char c rx;
          (ms, rx2) = parse_chars cs rx1
      in (if received \<noteq> 0 then (case r_message of Some m \<Rightarrow> m # ms | None \<Rightarrow> ms) else ms, rx2))"

section \<open>The parser without its counters\<close>

text \<open>What decides about messages is the state, the position and the message under construction.\<close>

type_synonym parser = "mavlink_parse_state \<times> u8 \<times> mavlink_message"

definition parser_of :: "mavlink_rx \<Rightarrow> parser" where
  "parser_of rx = (parse_state (rx_status rx), packet_idx (rx_status rx), rx_msg rx)"

definition restart :: "u8 \<Rightarrow> u8 \<Rightarrow> mavlink_message \<Rightarrow> parser" where
  "restart c i msg =
     (if c = MAVLINK_STX then (MAVLINK_PARSE_STATE_GOT_STX, i, mavlink_start_checksum (msg\<lparr>msg_len := 0\<rparr>))
      else (MAVLINK_PARSE_STATE_IDLE, i, msg))"

fun parser_step :: "u8 \<Rightarrow> parser \<Rightarrow> parser \<times> mavlink_message option" where
  "parser_step c (MAVLINK_PARSE_STATE_UNINIT, i, msg) =
     (if c = MAVLINK_STX then (MAVLINK_PARSE_STATE_GOT_STX, i, mavlink_start_checksum (msg\<lparr>msg_len := 0, magic := c\<rparr>))
      else (MAVLINK_PARSE_STATE_UNINIT, i, msg), None)"
| "parser_step c (MAVLINK_PARSE_STATE_IDLE, i, msg) =
     (if c = MAVLINK_STX then (MAVLINK_PARSE_STATE_GOT_STX, i, mavlink_start_checksum (msg\<lparr>msg_len := 0, magic := c\<rparr>))
      else (MAVLINK_PARSE_STATE_IDLE, i, msg), None)"
| "parser_step c (MAVLINK_PARSE_STATE_GOT_STX, i, msg) =
     ((MAVLINK_PARSE_STATE_GOT_LENGTH, 0, mavlink_update_checksum c (msg\<lparr>msg_len := c\<rparr>)), None)"
| "parser_step c (MAVLINK_PARSE_STATE_GOT_LENGTH, i, msg) =
     ((MAVLINK_PARSE_STATE_GOT_SEQ, i, mavlink_update_checksum c (msg\<lparr>msg_seq := c\<rparr>)), None)"
| "parser_step c (MAVLINK_PARSE_STATE_GOT_SEQ, i, msg) =
     ((MAVLINK_PARSE_STATE_GOT_SYSID, i, mavlink_update_checksum c (msg\<lparr>msg_sysid := c\<rparr>)), None)"
| "parser_step c (MAVLINK_PARSE_STATE_GOT_SYSID, i, msg) =
     ((MAVLINK_PARSE_STATE_GOT_COMPID, i, mavlink_update_checksum c (msg\<lparr>msg_compid := c\<rparr>)), None)"
| "parser_step c (MAVLINK_PARSE_STATE_GOT_COMPID, i, msg) =
     ((if msg_len msg = 0 then MAVLINK_PARSE_STATE_GOT_PAYLOAD else MAVLINK_PARSE_STATE_GOT_MSGID, i,
       mavlink_update_checksum c (msg\<lparr>msgid := c\<rparr>)), None)"
| "parser_step c (MAVLINK_PARSE_STATE_GOT_MSGID, i, msg) =
     ((if i + 1 = msg_len msg then MAVLINK_PARSE_STATE_GOT_PAYLOAD else MAVLINK_PARSE_STATE_GOT_MSGID, i + 1,
       mavlink_update_checksum c (msg\<lparr>payload := (payload msg)[unat i := c]\<rparr>)), None)"
| "parser_step c (MAVLINK_PARSE_STATE_GOT_PAYLOAD, i, msg) =
     (let msg1 = mavlink_update_checksum (MAVLINK_MESSAGE_CRC (msgid msg)) msg
      in (if (ucast c :: u16) \<noteq> checksum msg1 AND 0xff then restart c i msg1
          else (MAVLINK_PARSE_STATE_GOT_CRC1, i, msg1\<lparr>payload := (payload msg1)[unat i := c]\<rparr>), None))"
| "parser_step c (MAVLINK_PARSE_STATE_GOT_CRC1, i, msg) =
     (if (ucast c :: u16) \<noteq> drop_bit 8 (checksum msg) then (restart c i msg, None)
      else (let msg1 = msg\<lparr>payload := (payload msg)[unat i + 1 := c]\<rparr> in ((MAVLINK_PARSE_STATE_IDLE, i, msg1), Some msg1)))"

fun parser_run :: "bytes \<Rightarrow> parser \<Rightarrow> mavlink_message list \<times> parser" where
  "parser_run [] p = ([], p)"
| "parser_run (c # cs) p =
     (let (p1, m) = parser_step c p; (ms, p2) = parser_run cs p1 in ((case m of Some m \<Rightarrow> m # ms | None \<Rightarrow> ms), p2))"

lemma counters_do_not_matter:
  "parser_of (report_status rx) = parser_of rx" "parser_of (count_message rx) = parser_of rx"
  "parser_of (rx\<lparr>rx_status := (rx_status rx)\<lparr>msg_received := b\<rparr>\<rparr>) = parser_of rx"
  "msg_received (rx_status (report_status rx)) = msg_received (rx_status rx)"
  "msg_received (rx_status (count_message rx)) = msg_received (rx_status rx)"
  by (simp_all add: parser_of_def report_status_def count_message_def Let_def)

lemma wrong_checksum_parser:
  "parser_of (wrong_checksum c rx) = restart c (packet_idx (rx_status rx)) (rx_msg rx)"
  "msg_received (rx_status (wrong_checksum c rx)) = 0"
  by (simp_all add: parser_of_def wrong_checksum_def restart_def Let_def)

lemma crc1_parser:
  assumes "parse_state (rx_status rx) = MAVLINK_PARSE_STATE_GOT_PAYLOAD" "msg_received (rx_status rx) = 0"
  shows "parser_step c (parser_of rx) = (parser_of (parse_crc1 c rx), None) \<and> msg_received (rx_status (parse_crc1 c rx)) = 0"
proof (cases "(ucast c :: u16) = crc_accumulate (MAVLINK_MESSAGE_CRC (msgid (rx_msg rx))) (checksum (rx_msg rx)) AND 0xff")
  case True
  then show ?thesis using assms by (simp add: parse_crc1_def parser_of_def mavlink_update_checksum_def Let_def)
next
  case False
  then show ?thesis
    using assms
    by (simp add: parse_crc1_def mavlink_update_checksum_def wrong_checksum_parser Let_def)
      (simp add: parser_of_def mavlink_update_checksum_def Let_def)
qed

lemma crc2_parser:
  assumes "parse_state (rx_status rx) = MAVLINK_PARSE_STATE_GOT_CRC1" "msg_received (rx_status rx) = 0"
  shows "parser_step c (parser_of rx) = (parser_of (fst (parse_crc2 c rx)), snd (parse_crc2 c rx)) \<and>
    (msg_received (rx_status (fst (parse_crc2 c rx))) \<noteq> 0 \<longleftrightarrow> snd (parse_crc2 c rx) \<noteq> None)"
proof (cases "(ucast c :: u16) = drop_bit 8 (checksum (rx_msg rx))")
  case True
  then show ?thesis using assms by (simp add: parse_crc2_def parser_of_def Let_def)
next
  case False
  then show ?thesis
    using assms by (simp add: parse_crc2_def wrong_checksum_parser Let_def) (simp add: parser_of_def)
qed

lemma switch_parser:
  assumes "msg_received (rx_status rx) = 0"
  shows "parser_step c (parser_of rx) = (parser_of (fst (parse_switch c rx)), snd (parse_switch c rx)) \<and>
    (msg_received (rx_status (fst (parse_switch c rx))) \<noteq> 0 \<longleftrightarrow> snd (parse_switch c rx) \<noteq> None)"
proof (cases "parse_state (rx_status rx)")
  case MAVLINK_PARSE_STATE_GOT_PAYLOAD
  then show ?thesis using crc1_parser [OF MAVLINK_PARSE_STATE_GOT_PAYLOAD assms] by (simp add: parse_switch_def)
next
  case MAVLINK_PARSE_STATE_GOT_CRC1
  then show ?thesis using crc2_parser [OF MAVLINK_PARSE_STATE_GOT_CRC1 assms] by (simp add: parse_switch_def)
qed (use assms in \<open>simp_all add: parse_switch_def parser_of_def parse_length_def parse_msgid_def parse_payload_byte_def Let_def\<close>)

lemma parse_char_parser:
  assumes "mavlink_parse_char c rx = (r, m, rx')"
  shows "parser_step c (parser_of rx) = (parser_of rx', m) \<and> (r \<noteq> 0 \<longleftrightarrow> m \<noteq> None)"
proof -
  let ?rx = "rx\<lparr>rx_status := (rx_status rx)\<lparr>msg_received := 0\<rparr>\<rparr>"
  obtain rx1 m1 where s: "parse_switch c ?rx = (rx1, m1)" by (metis surj_pair)
  then have "rx' = report_status (count_message rx1)" "m1 = m" "r = msg_received (rx_status rx1)"
    using assms by (simp_all add: mavlink_parse_char_def counters_do_not_matter Let_def)
  moreover have "msg_received (rx_status ?rx) = 0" by simp
  note switch_parser [OF this, of c]
  ultimately show ?thesis using s by (simp add: counters_do_not_matter)
qed

lemma parse_chars_parser:
  "parse_chars cs rx = (ms, rx') \<Longrightarrow> parser_run cs (parser_of rx) = (ms, parser_of rx')"
proof (induction cs arbitrary: rx ms rx')
  case (Cons c cs)
  obtain r m rx1 where s: "mavlink_parse_char c rx = (r, m, rx1)" by (metis surj_pair)
  obtain ms1 rx2 where t: "parse_chars cs rx1 = (ms1, rx2)" by (metis surj_pair)
  have "parser_run cs (parser_of rx1) = (ms1, parser_of rx2)" by (rule Cons.IH [OF t])
  then show ?case using Cons.prems s t parse_char_parser [OF s] by (cases m) simp_all
qed simp

section \<open>A frame is parsed\<close>

definition header :: "u8 \<Rightarrow> u8 \<Rightarrow> u8 \<Rightarrow> u8 \<Rightarrow> bytes \<Rightarrow> bytes" where
  "header sq sid cid mid p = [word_of_nat (length p), sq, sid, cid, mid]"

definition frame :: "bytes \<Rightarrow> bytes \<Rightarrow> u16 \<Rightarrow> bytes" where
  "frame hdr p crc = [MAVLINK_STX] @ hdr @ p @ [ucast (crc AND 0xff), ucast (drop_bit 8 crc)]"

definition frame_crc :: "bytes \<Rightarrow> bytes \<Rightarrow> u16" where
  "frame_crc hdr p = crc_accumulate (MAVLINK_MESSAGE_CRC (hdr ! 4)) (crc_accumulate_buffer X25_INIT_CRC (hdr @ p))"

lemma crc_buffer_simps [simp]:
  "crc_accumulate_buffer c [] = c" "crc_accumulate_buffer c (b # bs) = crc_accumulate_buffer (crc_accumulate b c) bs"
  "crc_accumulate_buffer c (bs @ cs) = crc_accumulate_buffer (crc_accumulate_buffer c bs) cs"
  by (simp_all add: crc_accumulate_buffer_def)

definition at_rest :: "parser \<Rightarrow> bool" where
  "at_rest p \<longleftrightarrow> fst p \<in> {MAVLINK_PARSE_STATE_UNINIT, MAVLINK_PARSE_STATE_IDLE}"

lemma run_quiet:
  assumes "parser_step c p = (p', None)"
  shows "parser_run (c # cs) p = parser_run cs p'"
  using assms by (simp add: split_beta)

definition after_header :: "u8 \<Rightarrow> u8 \<Rightarrow> u8 \<Rightarrow> u8 \<Rightarrow> u8 \<Rightarrow> mavlink_message \<Rightarrow> mavlink_message" where
  "after_header n sq sid cid mid msg = msg\<lparr>checksum := crc_accumulate_buffer X25_INIT_CRC [n, sq, sid, cid, mid],
     magic := MAVLINK_STX, msg_len := n, msg_seq := sq, msg_sysid := sid, msg_compid := cid, msgid := mid\<rparr>"

lemma header_run:
  assumes "at_rest (st, i, msg)"
  shows "parser_run ([MAVLINK_STX, n, sq, sid, cid, mid] @ rest) (st, i, msg) =
    parser_run rest (if n = 0 then MAVLINK_PARSE_STATE_GOT_PAYLOAD else MAVLINK_PARSE_STATE_GOT_MSGID, 0, after_header n sq sid cid mid msg)"
proof -
  let ?m0 = "mavlink_start_checksum (msg\<lparr>msg_len := 0, magic := MAVLINK_STX\<rparr>)"
  let ?m1 = "mavlink_update_checksum n (?m0\<lparr>msg_len := n\<rparr>)"
  let ?m2 = "mavlink_update_checksum sq (?m1\<lparr>msg_seq := sq\<rparr>)"
  let ?m3 = "mavlink_update_checksum sid (?m2\<lparr>msg_sysid := sid\<rparr>)"
  let ?m4 = "mavlink_update_checksum cid (?m3\<lparr>msg_compid := cid\<rparr>)"
  let ?m5 = "mavlink_update_checksum mid (?m4\<lparr>msgid := mid\<rparr>)"
  have len: "msg_len ?m4 = n" by (simp add: mavlink_update_checksum_def)
  have "parser_step MAVLINK_STX (st, i, msg) = ((MAVLINK_PARSE_STATE_GOT_STX, i, ?m0), None)"
    using assms by (auto simp: at_rest_def)
  then have "parser_run ([MAVLINK_STX, n, sq, sid, cid, mid] @ rest) (st, i, msg) =
      parser_run ([n, sq, sid, cid, mid] @ rest) (MAVLINK_PARSE_STATE_GOT_STX, i, ?m0)"
    by (simp add: run_quiet del: parser_run.simps)
  also have "\<dots> = parser_run rest (if msg_len ?m4 = 0 then MAVLINK_PARSE_STATE_GOT_PAYLOAD else MAVLINK_PARSE_STATE_GOT_MSGID, 0, ?m5)"
    by (simp add: run_quiet del: parser_run.simps)
  also have "?m5 = after_header n sq sid cid mid msg"
    by (simp add: after_header_def mavlink_update_checksum_def mavlink_start_checksum_def)
  finally show ?thesis unfolding len .
qed

lemma payload_run:
  "p \<noteq> [] \<Longrightarrow> unat i + length p = unat (msg_len msg) \<Longrightarrow> length (payload msg) = PAYLOAD_BYTES \<Longrightarrow>
   parser_run (p @ rest) (MAVLINK_PARSE_STATE_GOT_MSGID, i, msg) =
   parser_run rest (MAVLINK_PARSE_STATE_GOT_PAYLOAD, msg_len msg, msg\<lparr>payload := take (unat i) (payload msg) @ p @ drop (unat (msg_len msg)) (payload msg),
     checksum := crc_accumulate_buffer (checksum msg) p\<rparr>)"
proof (induction p arbitrary: i msg)
  case (Cons c p)
  let ?msg = "mavlink_update_checksum c (msg\<lparr>payload := (payload msg)[unat i := c]\<rparr>)"
  have less: "unat i < unat (msg_len msg)" using Cons.prems(2) by simp
  moreover have "unat (msg_len msg) < 256" using unsigned_less [of "msg_len msg"] by simp
  ultimately have i: "unat (i + 1) = unat i + 1" by (simp add: unat_word_ariths)
  have room: "unat i < length (payload msg)"
    using less Cons.prems(3) \<open>unat (msg_len msg) < 256\<close> by (simp add: PAYLOAD_BYTES_def MAVLINK_MAX_PAYLOAD_LEN_def)
  have msg: "msg_len ?msg = msg_len msg" "payload ?msg = (payload msg)[unat i := c]" "checksum ?msg = crc_accumulate c (checksum msg)"
    by (simp_all add: mavlink_update_checksum_def)
  have part: "take (unat i + 1) ((payload msg)[unat i := c]) = take (unat i) (payload msg) @ [c]"
    using room by (simp add: take_Suc_conv_app_nth)
  show ?case
  proof (cases "p = []")
    case True
    then have "i + 1 = msg_len msg" using Cons.prems(2) i by (simp add: word_unat_eq_iff)
    then show ?thesis
      using True part i
      by (simp add: run_quiet del: parser_run.simps) (simp add: mavlink_update_checksum_def upd_conv_take_nth_drop [OF room] add.commute)
  next
    case False
    then have "unat (i + 1) \<noteq> unat (msg_len msg)" using Cons.prems(2) i by (cases p) auto
    then have "i + 1 \<noteq> msg_len msg" by auto
    then have "parser_run ((c # p) @ rest) (MAVLINK_PARSE_STATE_GOT_MSGID, i, msg) =
        parser_run (p @ rest) (MAVLINK_PARSE_STATE_GOT_MSGID, i + 1, ?msg)"
      by (simp add: run_quiet del: parser_run.simps)
    also have "\<dots> = parser_run rest (MAVLINK_PARSE_STATE_GOT_PAYLOAD, msg_len ?msg,
        ?msg\<lparr>payload := take (unat (i + 1)) (payload ?msg) @ p @ drop (unat (msg_len ?msg)) (payload ?msg),
          checksum := crc_accumulate_buffer (checksum ?msg) p\<rparr>)"
      using Cons.prems(2,3) i False by (intro Cons.IH) (simp_all add: msg)
    finally show ?thesis
      using part i less by (simp add: msg) (simp add: mavlink_update_checksum_def)
  qed
qed simp

definition crc_bytes :: "u16 \<Rightarrow> bytes" where
  "crc_bytes crc = [ucast (crc AND 0xff), ucast (drop_bit 8 crc)]"

lemma byte_back: "(ucast (ucast (a :: u8) :: u16) :: u8) = a"
  by (rule bit_word_eqI) (auto simp: bit_simps)

lemma low_byte: "(w AND 0xff :: u16) = take_bit 8 w"
proof -
  have "(0xff :: u16) = mask 8" by (simp add: mask_eq_exp_minus_1)
  then show ?thesis by (simp only: take_bit_eq_mask)
qed

lemma crc_low: "(ucast (a :: u8) :: u16) = crc AND 0xff \<longleftrightarrow> a = ucast (crc AND 0xff)"
proof
  assume "ucast a = crc AND 0xff"
  then have "(ucast (ucast a :: u16) :: u8) = ucast (crc AND 0xff)" by simp
  then show "a = ucast (crc AND 0xff)" by (simp only: byte_back)
next
  assume "a = ucast (crc AND 0xff)"
  moreover have "(ucast (ucast (crc AND 0xff) :: u8) :: u16) = crc AND 0xff"
    unfolding low_byte by (rule bit_word_eqI) (auto simp: bit_simps)
  ultimately show "ucast a = crc AND 0xff" by simp
qed

lemma crc_high: "(ucast (b :: u8) :: u16) = drop_bit 8 crc \<longleftrightarrow> b = ucast (drop_bit 8 crc)"
proof
  assume "ucast b = drop_bit 8 crc"
  then have "(ucast (ucast b :: u16) :: u8) = ucast (drop_bit 8 crc)" by simp
  then show "b = ucast (drop_bit 8 crc)" by (simp only: byte_back)
next
  assume "b = ucast (drop_bit 8 crc)"
  moreover have "(ucast (ucast (drop_bit 8 crc) :: u8) :: u16) = drop_bit 8 crc"
  proof (rule bit_word_eqI)
    fix n
    have "bit crc (8 + n) \<Longrightarrow> n < 8" using bit_imp_le_length [of crc "8 + n"] by simp
    then show "bit (ucast (ucast (drop_bit 8 crc) :: u8) :: u16) n = bit (drop_bit 8 crc) n" by (auto simp: bit_simps)
  qed
  ultimately show "ucast b = drop_bit 8 crc" by simp
qed

lemma crc_bytes_inject: "crc_bytes c = crc_bytes d \<longleftrightarrow> c = d"
proof
  assume eq: "crc_bytes c = crc_bytes d"
  have "(ucast (ucast (w AND 0xff) :: u8) :: u16) = w AND 0xff" "(ucast (ucast (drop_bit 8 w) :: u8) :: u16) = drop_bit 8 w" for w :: u16
    using crc_low crc_high by blast+
  then have "c AND 0xff = d AND 0xff" "drop_bit 8 c = drop_bit 8 d" using eq unfolding crc_bytes_def by (metis list.inject)+
  then have "push_bit 8 (drop_bit 8 c) + take_bit 8 c = push_bit 8 (drop_bit 8 d) + take_bit 8 d" unfolding low_byte by simp
  then show "c = d" unfolding bits_ident .
qed simp

lemma restart_at_worst: "fst (parser_run [b] (restart a i msg)) = []"
  by (simp add: restart_def)

lemma trailer_run:
  assumes "crc = crc_accumulate (MAVLINK_MESSAGE_CRC (msgid msg)) (checksum msg)"
  shows "[a, b] = crc_bytes crc \<Longrightarrow> parser_run [a, b] (MAVLINK_PARSE_STATE_GOT_PAYLOAD, i, msg) =
      (let m = msg\<lparr>checksum := crc, payload := (payload msg)[unat i := a, unat i + 1 := b]\<rparr> in ([m], (MAVLINK_PARSE_STATE_IDLE, i, m)))"
    and "[a, b] \<noteq> crc_bytes crc \<Longrightarrow> fst (parser_run [a, b] (MAVLINK_PARSE_STATE_GOT_PAYLOAD, i, msg)) = []"
proof -
  have crc: "checksum (mavlink_update_checksum (MAVLINK_MESSAGE_CRC (msgid msg)) msg) = crc"
    by (simp add: mavlink_update_checksum_def assms)
  let ?msg = "mavlink_update_checksum (MAVLINK_MESSAGE_CRC (msgid msg)) msg"
  let ?msg1 = "?msg\<lparr>payload := (payload ?msg)[unat i := a]\<rparr>"
  have first: "parser_step a (MAVLINK_PARSE_STATE_GOT_PAYLOAD, i, msg) =
      (if a = ucast (crc AND 0xff) then (MAVLINK_PARSE_STATE_GOT_CRC1, i, ?msg1) else restart a i ?msg, None)"
    using crc_low [of a crc] by (simp add: crc Let_def)
  have second: "parser_step b (MAVLINK_PARSE_STATE_GOT_CRC1, i, ?msg1) =
      (if b = ucast (drop_bit 8 crc)
       then (let m = ?msg1\<lparr>payload := (payload ?msg1)[unat i + 1 := b]\<rparr> in ((MAVLINK_PARSE_STATE_IDLE, i, m), Some m))
       else (restart b i ?msg1, None))"
    using crc_high [of b crc] by (simp add: crc Let_def)
  show "[a, b] = crc_bytes crc \<Longrightarrow> parser_run [a, b] (MAVLINK_PARSE_STATE_GOT_PAYLOAD, i, msg) =
      (let m = msg\<lparr>checksum := crc, payload := (payload msg)[unat i := a, unat i + 1 := b]\<rparr> in ([m], (MAVLINK_PARSE_STATE_IDLE, i, m)))"
    using second first by (simp add: crc_bytes_def Let_def del: parser_step.simps) (simp add: mavlink_update_checksum_def assms)
  assume bad: "[a, b] \<noteq> crc_bytes crc"
  show "fst (parser_run [a, b] (MAVLINK_PARSE_STATE_GOT_PAYLOAD, i, msg)) = []"
  proof (cases "a = ucast (crc AND 0xff)")
    case True
    then have "b \<noteq> ucast (drop_bit 8 crc)" using bad by (simp add: crc_bytes_def)
    then show ?thesis using first second True by (simp del: parser_step.simps)
  next
    case False
    then show ?thesis using run_quiet [OF first, of "[b]"] restart_at_worst [of b a i ?msg] by (simp del: parser_step.simps parser_run.simps)
  qed
qed

section \<open>The checksum detects a changed byte\<close>

definition hi_byte :: "u16 \<Rightarrow> u8" where "hi_byte w = ucast (drop_bit 8 w)"
definition lo_byte :: "u16 \<Rightarrow> u8" where "lo_byte w = ucast w"

lemma bytes_determine: "hi_byte c = hi_byte d \<Longrightarrow> lo_byte c = lo_byte d \<Longrightarrow> c = d"
proof -
  have lo: "(ucast (w AND 0xff) :: u8) = lo_byte w" for w
    unfolding low_byte lo_byte_def by (rule bit_word_eqI) (auto simp: bit_simps)
  assume "hi_byte c = hi_byte d" "lo_byte c = lo_byte d"
  then have "crc_bytes c = crc_bytes d" by (simp add: crc_bytes_def lo hi_byte_def)
  then show "c = d" by (simp only: crc_bytes_inject)
qed

text \<open>What one byte makes of the two bytes of the checksum, and how it can be undone.\<close>

definition mixed :: "u8 \<Rightarrow> u16 \<Rightarrow> u8" where
  "mixed data crc = (let t = data XOR lo_byte crc in t XOR push_bit 4 t)"

lemma crc_mixed: "crc_accumulate data crc =
    drop_bit 8 crc XOR push_bit 8 (ucast (mixed data crc)) XOR push_bit 3 (ucast (mixed data crc)) XOR drop_bit 4 (ucast (mixed data crc))"
proof -
  have t: "(ucast (crc AND 0xff) :: u8) = lo_byte crc"
    unfolding low_byte lo_byte_def by (rule bit_word_eqI) (auto simp: bit_simps)
  show ?thesis unfolding crc_accumulate_def mixed_def t Let_def ..
qed

lemma crc_hi: "hi_byte (crc_accumulate data crc) = mixed data crc XOR drop_bit 5 (mixed data crc)"
  unfolding hi_byte_def crc_mixed
proof (rule bit_word_eqI)
  fix n :: nat
  assume "n < LENGTH(8)"
  moreover have "\<not> bit (mixed data crc) (12 + n)" using bit_imp_le_length [of "mixed data crc" "12 + n"] by auto
  ultimately show "bit (ucast (drop_bit 8 (drop_bit 8 crc XOR push_bit 8 (ucast (mixed data crc)) XOR
        push_bit 3 (ucast (mixed data crc)) XOR drop_bit 4 (ucast (mixed data crc)))) :: u8) n \<longleftrightarrow>
      bit (mixed data crc XOR drop_bit 5 (mixed data crc)) n"
    by (simp add: bit_simps)
qed

lemma crc_lo: "lo_byte (crc_accumulate data crc) = hi_byte crc XOR push_bit 3 (mixed data crc) XOR drop_bit 4 (mixed data crc)"
  unfolding hi_byte_def lo_byte_def crc_mixed
proof (rule bit_word_eqI)
  fix n :: nat
  assume "n < LENGTH(8)"
  then have "n < 8" "n - 3 < 16" by simp_all
  then show "bit (ucast (drop_bit 8 crc XOR push_bit 8 (ucast (mixed data crc)) XOR
        push_bit 3 (ucast (mixed data crc)) XOR drop_bit 4 (ucast (mixed data crc))) :: u8) n \<longleftrightarrow>
      bit (ucast (drop_bit 8 crc) XOR push_bit 3 (mixed data crc) XOR drop_bit 4 (mixed data crc)) n"
    by (simp add: bit_simps)
qed

lemma fold_5: "(u :: u8) XOR drop_bit 5 u = v XOR drop_bit 5 v \<Longrightarrow> u = v"
proof -
  have "(w XOR drop_bit 5 w) XOR drop_bit 5 (w XOR drop_bit 5 w) = w" for w :: u8
    by (simp add: drop_bit_xor xor.assoc)
  then show "u XOR drop_bit 5 u = v XOR drop_bit 5 v \<Longrightarrow> u = v" by metis
qed

lemma fold_4: "(u :: u8) XOR push_bit 4 u = v XOR push_bit 4 v \<Longrightarrow> u = v"
proof -
  have "(w XOR push_bit 4 w) XOR push_bit 4 (w XOR push_bit 4 w) = w" for w :: u8
    by (simp add: push_bit_xor xor.assoc)
  then show "u XOR push_bit 4 u = v XOR push_bit 4 v \<Longrightarrow> u = v" by metis
qed

lemma xor_same: "(a :: 'a :: len word) XOR c = b XOR c \<longleftrightarrow> a = b"
  by (metis xor.assoc xor_self_eq xor.right_neutral)

lemma xor_same': "(c :: 'a :: len word) XOR a = c XOR b \<longleftrightarrow> a = b"
  by (metis xor.commute xor_same)

lemma crc_accumulate_same:
  assumes "crc_accumulate data crc = crc_accumulate data' crc'"
  shows "data XOR lo_byte crc = data' XOR lo_byte crc'" "hi_byte crc = hi_byte crc'"
proof -
  have m: "mixed data crc = mixed data' crc'" using crc_hi [of data crc] crc_hi [of data' crc'] assms fold_5 by metis
  then show "data XOR lo_byte crc = data' XOR lo_byte crc'" using fold_4 unfolding mixed_def Let_def by blast
  have "hi_byte crc XOR push_bit 3 (mixed data crc) XOR drop_bit 4 (mixed data crc) =
      hi_byte crc' XOR push_bit 3 (mixed data crc) XOR drop_bit 4 (mixed data crc)"
    using crc_lo [of data crc] crc_lo [of data' crc'] assms m by simp
  then show "hi_byte crc = hi_byte crc'" by (simp only: xor_same)
qed

lemma crc_accumulate_crc: "crc_accumulate data crc = crc_accumulate data crc' \<longleftrightarrow> crc = crc'"
  using crc_accumulate_same [of data crc data crc'] by (auto intro: bytes_determine simp: xor_same')

lemma crc_accumulate_data: "crc_accumulate data crc = crc_accumulate data' crc \<longleftrightarrow> data = data'"
  using crc_accumulate_same [of data crc data' crc] by (auto simp: xor_same)

lemma crc_buffer_crc: "crc_accumulate_buffer c bs = crc_accumulate_buffer d bs \<longleftrightarrow> c = d"
  by (induction bs arbitrary: c d) (simp_all add: crc_accumulate_crc)

lemma crc_detects:
  assumes "i < length bs" "x \<noteq> bs ! i"
  shows "crc_accumulate_buffer c (bs[i := x]) \<noteq> crc_accumulate_buffer c bs"
proof -
  have "bs = take i bs @ [bs ! i] @ drop (Suc i) bs" using assms(1) by (simp add: id_take_nth_drop [symmetric])
  then have "crc_accumulate_buffer c bs =
      crc_accumulate_buffer (crc_accumulate (bs ! i) (crc_accumulate_buffer c (take i bs))) (drop (Suc i) bs)"
    by (metis crc_buffer_simps append_assoc)
  moreover have "crc_accumulate_buffer c (bs[i := x]) =
      crc_accumulate_buffer (crc_accumulate x (crc_accumulate_buffer c (take i bs))) (drop (Suc i) bs)"
    using assms(1) by (simp add: upd_conv_take_nth_drop)
  ultimately show ?thesis using assms(2) by (simp add: crc_buffer_crc crc_accumulate_data)
qed

section \<open>Properties of the frames\<close>

definition delivered :: "u8 \<Rightarrow> u8 \<Rightarrow> u8 \<Rightarrow> u8 \<Rightarrow> bytes \<Rightarrow> u16 \<Rightarrow> bytes \<Rightarrow> mavlink_message" where
  "delivered sq sid cid mid p crc old = \<lparr>checksum = crc, magic = MAVLINK_STX, msg_len = word_of_nat (length p), msg_seq = sq,
     msg_sysid = sid, msg_compid = cid, msgid = mid, payload = p @ crc_bytes crc @ drop (length p + 2) old\<rparr>"

lemma frame_crc_header:
  "frame_crc (header sq sid cid mid p) p = crc_accumulate (MAVLINK_MESSAGE_CRC mid)
     (crc_accumulate_buffer (crc_accumulate_buffer X25_INIT_CRC [word_of_nat (length p), sq, sid, cid, mid]) p)"
  by (simp add: frame_crc_def header_def)

lemma before_checksum:
  assumes "at_rest (st, i, msg)" "length p \<le> 255" "length (payload msg) = PAYLOAD_BYTES"
  shows "\<exists>m. parser_run ([MAVLINK_STX] @ header sq sid cid mid p @ p @ rest) (st, i, msg) =
      parser_run rest (MAVLINK_PARSE_STATE_GOT_PAYLOAD, word_of_nat (length p), m) \<and> msgid m = mid \<and>
    crc_accumulate (MAVLINK_MESSAGE_CRC mid) (checksum m) = frame_crc (header sq sid cid mid p) p \<and>
    m\<lparr>checksum := crc, payload := (payload m)[length p := a, length p + 1 := b]\<rparr> =
      \<lparr>checksum = crc, magic = MAVLINK_STX, msg_len = word_of_nat (length p), msg_seq = sq,
       msg_sysid = sid, msg_compid = cid, msgid = mid, payload = p @ [a, b] @ drop (length p + 2) (payload msg)\<rparr>"
proof -
  let ?n = "word_of_nat (length p) :: u8"
  let ?m = "after_header ?n sq sid cid mid msg"
  have n: "unat ?n = length p" using assms(2) by (simp add: unsigned_of_nat take_bit_nat_eq_self)
  have room: "length p + 2 \<le> length (payload msg)"
    using assms(2,3) by (simp add: PAYLOAD_BYTES_def MAVLINK_MAX_PAYLOAD_LEN_def)
  have upd: "(p @ drop (length p) (payload msg))[length p := a, length p + 1 := b] = p @ [a, b] @ drop (length p + 2) (payload msg)"
  proof -
    have "drop (length p) (payload msg) = payload msg ! length p # payload msg ! (length p + 1) # drop (length p + 2) (payload msg)"
      using room by (simp add: Cons_nth_drop_Suc)
    then show ?thesis by (simp add: list_update_append)
  qed
  have start: "parser_run ([MAVLINK_STX] @ header sq sid cid mid p @ p @ rest) (st, i, msg) =
      parser_run (p @ rest) (if ?n = 0 then MAVLINK_PARSE_STATE_GOT_PAYLOAD else MAVLINK_PARSE_STATE_GOT_MSGID, 0, ?m)"
    using header_run [OF assms(1), of ?n sq sid cid mid "p @ rest"] by (simp add: header_def)
  show ?thesis
  proof (cases "p = []")
    case True
    then show ?thesis using start upd
      by (intro exI [of _ ?m]) (simp add: frame_crc_header after_header_def crc_accumulate_buffer_def)
  next
    case False
    have "?n \<noteq> 0" using n False by (metis length_0_conv unat_0)
    moreover have "parser_run (p @ rest) (MAVLINK_PARSE_STATE_GOT_MSGID, 0, ?m) =
        parser_run rest (MAVLINK_PARSE_STATE_GOT_PAYLOAD, ?n, ?m\<lparr>payload := p @ drop (length p) (payload msg),
          checksum := crc_accumulate_buffer (checksum ?m) p\<rparr>)"
      using payload_run [of p 0 ?m rest] False n assms(3) by (simp add: after_header_def)
    ultimately show ?thesis using start upd
      by (intro exI [of _ "?m\<lparr>payload := p @ drop (length p) (payload msg), checksum := crc_accumulate_buffer (checksum ?m) p\<rparr>"])
        (simp add: frame_crc_header after_header_def)
  qed
qed

lemma frame_outcome:
  assumes "at_rest (st, i, msg)" "length p \<le> 255" "length (payload msg) = PAYLOAD_BYTES"
  shows "fst (parser_run (frame (header sq sid cid mid p) p crc) (st, i, msg)) =
    (if crc = frame_crc (header sq sid cid mid p) p then [delivered sq sid cid mid p crc (payload msg)] else [])"
    and "crc = frame_crc (header sq sid cid mid p) p \<Longrightarrow>
      snd (parser_run (frame (header sq sid cid mid p) p crc) (st, i, msg)) =
      (MAVLINK_PARSE_STATE_IDLE, word_of_nat (length p), delivered sq sid cid mid p crc (payload msg))"
proof -
  let ?ab = "crc_bytes crc"
  obtain a b where ab: "?ab = [a, b]" by (simp add: crc_bytes_def)
  obtain m where m: "parser_run ([MAVLINK_STX] @ header sq sid cid mid p @ p @ ?ab) (st, i, msg) =
      parser_run ?ab (MAVLINK_PARSE_STATE_GOT_PAYLOAD, word_of_nat (length p), m)" "msgid m = mid"
    "crc_accumulate (MAVLINK_MESSAGE_CRC mid) (checksum m) = frame_crc (header sq sid cid mid p) p"
    "m\<lparr>checksum := crc, payload := (payload m)[length p := a, length p + 1 := b]\<rparr> =
      \<lparr>checksum = crc, magic = MAVLINK_STX, msg_len = word_of_nat (length p), msg_seq = sq,
       msg_sysid = sid, msg_compid = cid, msgid = mid, payload = p @ [a, b] @ drop (length p + 2) (payload msg)\<rparr>"
    using before_checksum [OF assms, where sq = sq and sid = sid and cid = cid and mid = mid and rest = ?ab and crc = crc and a = a and b = b] by blast
  have n: "unat (word_of_nat (length p) :: u8) = length p" using assms(2) by (simp add: unsigned_of_nat take_bit_nat_eq_self)
  have run: "parser_run (frame (header sq sid cid mid p) p crc) (st, i, msg) =
      parser_run [a, b] (MAVLINK_PARSE_STATE_GOT_PAYLOAD, word_of_nat (length p), m)"
    unfolding frame_def crc_bytes_def [symmetric] using m(1) by (simp only: ab)
  note trailer = trailer_run [where msg = m, unfolded m(2,3), OF refl, where a = a and b = b and i = "word_of_nat (length p)"]
  have good: "parser_run [a, b] (MAVLINK_PARSE_STATE_GOT_PAYLOAD, word_of_nat (length p), m) =
      ([delivered sq sid cid mid p crc (payload msg)],
       (MAVLINK_PARSE_STATE_IDLE, word_of_nat (length p), delivered sq sid cid mid p crc (payload msg)))"
    if crc: "crc = frame_crc (header sq sid cid mid p) p"
  proof -
    have "[a, b] = crc_bytes (frame_crc (header sq sid cid mid p) p)" using ab crc by simp
    from trailer(1) [OF this] m(4) show ?thesis
      by (simp only: n Let_def crc [symmetric] delivered_def ab append.simps)
  qed
  then show "crc = frame_crc (header sq sid cid mid p) p \<Longrightarrow>
      snd (parser_run (frame (header sq sid cid mid p) p crc) (st, i, msg)) =
      (MAVLINK_PARSE_STATE_IDLE, word_of_nat (length p), delivered sq sid cid mid p crc (payload msg))"
    unfolding run by (metis snd_conv)
  have "fst (parser_run [a, b] (MAVLINK_PARSE_STATE_GOT_PAYLOAD, word_of_nat (length p), m)) = []"
    if "crc \<noteq> frame_crc (header sq sid cid mid p) p"
    using that ab by (intro trailer(2)) (metis crc_bytes_inject)
  then show "fst (parser_run (frame (header sq sid cid mid p) p crc) (st, i, msg)) =
      (if crc = frame_crc (header sq sid cid mid p) p then [delivered sq sid cid mid p crc (payload msg)] else [])"
    using good unfolding run by (auto simp del: parser_run.simps)
qed

lemma byte_bound: "unat (n :: u8) \<le> 255"
proof -
  have "unat n < 2 ^ LENGTH(8)" by (rule unsigned_less)
  then show ?thesis by simp
qed

definition rx_ready :: "mavlink_rx \<Rightarrow> bool" where
  "rx_ready rx \<longleftrightarrow> at_rest (parser_of rx) \<and> length (payload (rx_msg rx)) = PAYLOAD_BYTES"

lemma frame_parsed_chars:
  assumes "rx_ready rx" "length p \<le> 255"
  shows "fst (parse_chars (frame (header sq sid cid mid p) p crc) rx) =
      (if crc = frame_crc (header sq sid cid mid p) p then [delivered sq sid cid mid p crc (payload (rx_msg rx))] else [])"
    and "crc = frame_crc (header sq sid cid mid p) p \<Longrightarrow>
      parser_of (snd (parse_chars (frame (header sq sid cid mid p) p crc) rx)) =
        (MAVLINK_PARSE_STATE_IDLE, word_of_nat (length p), delivered sq sid cid mid p crc (payload (rx_msg rx)))"
proof -
  let ?f = "frame (header sq sid cid mid p) p crc"
  have q: "at_rest (parse_state (rx_status rx), packet_idx (rx_status rx), rx_msg rx)" "length (payload (rx_msg rx)) = PAYLOAD_BYTES"
    using assms(1) by (simp_all add: rx_ready_def parser_of_def)
  have run: "parser_run ?f (parser_of rx) = (fst (parse_chars ?f rx), parser_of (snd (parse_chars ?f rx)))"
    by (rule parse_chars_parser) simp
  show "fst (parse_chars ?f rx) =
      (if crc = frame_crc (header sq sid cid mid p) p then [delivered sq sid cid mid p crc (payload (rx_msg rx))] else [])"
    using frame_outcome(1) [OF q(1) assms(2) q(2), of sq sid cid mid crc] run by (simp only: parser_of_def fst_conv)
  show "crc = frame_crc (header sq sid cid mid p) p \<Longrightarrow> parser_of (snd (parse_chars ?f rx)) =
      (MAVLINK_PARSE_STATE_IDLE, word_of_nat (length p), delivered sq sid cid mid p crc (payload (rx_msg rx)))"
    using frame_outcome(2) [OF q(1) assms(2) q(2), of crc sq sid cid mid] run by (simp only: parser_of_def snd_conv)
qed

lemma delivered_length:
  "length old = PAYLOAD_BYTES \<Longrightarrow> length p \<le> 255 \<Longrightarrow> length (payload (delivered sq sid cid mid p crc old)) = PAYLOAD_BYTES"
  by (simp add: delivered_def crc_bytes_def PAYLOAD_BYTES_def MAVLINK_MAX_PAYLOAD_LEN_def)

lemma ready_again:
  assumes "rx_ready rx" "length p \<le> 255" "crc = frame_crc (header sq sid cid mid p) p"
  shows "rx_ready (snd (parse_chars (frame (header sq sid cid mid p) p crc) rx))"
proof -
  have "rx_msg r = snd (snd (parser_of r))" for r by (simp add: parser_of_def)
  then show ?thesis
    using frame_parsed_chars(2) [OF assms] assms(1,2) delivered_length
    by (simp add: rx_ready_def) (simp add: at_rest_def)
qed

text \<open>The bytes of a message that was finalized.\<close>

lemma finalized_frame:
  assumes "length (payload msg) = PAYLOAD_BYTES" "mavlink_finalize_message_chan msg sid cid n crc_extra st = (len, msg', st')"
    and p_def: "p = take (unat n) (payload msg)"
    and hdr_def: "hdr = header (current_tx_seq st) sid cid (msgid msg) p"
  shows "mavlink_msg_to_send_buffer msg' = frame hdr p (crc_accumulate crc_extra (crc_accumulate_buffer X25_INIT_CRC (hdr @ p)))"
    and "length p = unat n"
proof -
  have n: "unat n \<le> 255" by (rule byte_bound)
  then have room: "unat n + 2 \<le> length (payload msg)"
    using assms(1) by (simp add: PAYLOAD_BYTES_def MAVLINK_MAX_PAYLOAD_LEN_def)
  then show len: "length p = unat n" by (simp add: p_def)
  let ?msg1 = "msg\<lparr>magic := MAVLINK_STX, msg_len := n, msg_sysid := sid, msg_compid := cid, msg_seq := current_tx_seq st\<rparr>"
  define crc where "crc = crc_accumulate crc_extra (crc_calculate (message_bytes (unat n) ?msg1))"
  have hdr: "hdr = [n, current_tx_seq st, sid, cid, msgid msg]" using len by (simp add: hdr_def header_def)
  have crc: "crc = crc_accumulate crc_extra (crc_accumulate_buffer X25_INIT_CRC (hdr @ p))"
    unfolding crc_def by (simp add: crc_calculate_def message_bytes_def hdr p_def)
  have msg': "msg' = ?msg1\<lparr>payload := (payload msg)[unat n := ucast (crc AND 0xff), unat n + 1 := ucast (drop_bit 8 crc)]\<rparr>"
    using assms(2) by (simp add: mavlink_finalize_message_chan_def Let_def crc_def)
  have "take (unat n + 2) ((payload msg)[unat n := a, unat n + 1 := b]) = p @ [a, b]" for a b
  proof -
    have "take (unat n + 2) xs = take (unat n) xs @ [xs ! unat n, xs ! (unat n + 1)]" if "unat n + 2 \<le> length xs" for xs :: bytes
      using that by (simp add: take_Suc_conv_app_nth)
    then show ?thesis using room by (simp add: p_def)
  qed
  then show "mavlink_msg_to_send_buffer msg' = frame hdr p (crc_accumulate crc_extra (crc_accumulate_buffer X25_INIT_CRC (hdr @ p)))"
    unfolding crc [symmetric] by (simp add: mavlink_msg_to_send_buffer_def message_bytes_def msg' frame_def hdr)
qed

text \<open>
  C28. What \<open>mavlink_finalize_message_chan\<close> and \<open>mavlink_msg_to_send_buffer\<close> put on the wire, the parser of the receiver turns
  into exactly one message with the same identifier, sender, sequence number and payload, and it is ready for the next one.
\<close>
theorem message_round_trip:
  assumes "rx_ready rx" "length (payload msg) = PAYLOAD_BYTES"
    and "mavlink_finalize_message_chan msg sid cid n (MAVLINK_MESSAGE_CRC (msgid msg)) st = (len, msg', st')"
  shows "\<exists>m rx'. parse_chars (mavlink_msg_to_send_buffer msg') rx = ([m], rx') \<and> msgid m = msgid msg \<and> msg_len m = n \<and>
    msg_sysid m = sid \<and> msg_compid m = cid \<and> msg_seq m = current_tx_seq st \<and>
    take (unat n) (payload m) = take (unat n) (payload msg) \<and> rx_ready rx'"
proof -
  let ?p = "take (unat n) (payload msg)" and ?sq = "current_tx_seq st"
  let ?h = "header ?sq sid cid (msgid msg) ?p"
  note sent = finalized_frame [OF assms(2,3) refl refl]
  have mid: "?h ! 4 = msgid msg" by (simp add: header_def)
  have bytes: "mavlink_msg_to_send_buffer msg' = frame ?h ?p (frame_crc ?h ?p)" using sent(1) by (simp only: frame_crc_def mid)
  have p: "length ?p \<le> 255" using sent(2) byte_bound [of n] by simp
  have one: "fst (parse_chars (frame ?h ?p (frame_crc ?h ?p)) rx) =
      [delivered ?sq sid cid (msgid msg) ?p (frame_crc ?h ?p) (payload (rx_msg rx))]"
    using frame_parsed_chars(1) [OF assms(1) p] by simp
  have "word_of_nat (length ?p) = n" using sent(2) by simp
  then have "let m = delivered ?sq sid cid (msgid msg) ?p (frame_crc ?h ?p) (payload (rx_msg rx)) in
      msgid m = msgid msg \<and> msg_len m = n \<and> msg_sysid m = sid \<and> msg_compid m = cid \<and> msg_seq m = ?sq \<and> take (unat n) (payload m) = ?p"
    using sent(2) by (simp add: delivered_def)
  then show ?thesis unfolding bytes
    using one ready_again [OF assms(1) p refl, of ?sq sid cid "msgid msg"]
    by (intro exI [of _ "delivered ?sq sid cid (msgid msg) ?p (frame_crc ?h ?p) (payload (rx_msg rx))"]
        exI [of _ "snd (parse_chars (frame ?h ?p (frame_crc ?h ?p)) rx)"]) (metis prod.collapse)
qed

text \<open>
  The two ways to send, a message struct that is finalized and copied to a buffer, and header, payload and checksum written
  one after another, put the same bytes on the wire and count the same sequence number.
\<close>
theorem both_ways_send_the_same:
  assumes "length (payload msg) = PAYLOAD_BYTES"
    and "mavlink_finalize_message_chan msg sid cid n crc_extra st = (len, msg', st')"
  shows "concat (fst (mav_finalize_message_chan_send sid cid (msgid msg) (payload msg) n crc_extra st)) = mavlink_msg_to_send_buffer msg' \<and>
    snd (mav_finalize_message_chan_send sid cid (msgid msg) (payload msg) n crc_extra st) = st'"
proof -
  let ?p = "take (unat n) (payload msg)"
  note sent = finalized_frame [OF assms refl refl]
  have "header (current_tx_seq st) sid cid (msgid msg) ?p = [n, current_tx_seq st, sid, cid, msgid msg]"
    using sent(2) by (simp add: header_def)
  then show ?thesis using sent(1) assms(2)
    by (simp add: mav_finalize_message_chan_send_def mavlink_finalize_message_chan_def crc_calculate_def frame_def Let_def)
qed

definition new_message :: mavlink_message where
  "new_message = \<lparr>checksum = 0, magic = 0, msg_len = 0, msg_seq = 0, msg_sysid = 0, msg_compid = 0, msgid = 0,
     payload = replicate PAYLOAD_BYTES 0\<rparr>"

definition new_status :: mavlink_status where
  "new_status = \<lparr>msg_received = 0, buffer_overrun = 0, parse_error = 0, parse_state = MAVLINK_PARSE_STATE_UNINIT, packet_idx = 0,
     current_rx_seq = 0, current_tx_seq = 0, packet_rx_success_count = 0, packet_rx_drop_count = 0\<rparr>"

text \<open>Static memory is zero when the program starts.\<close>

definition new_rx :: mavlink_rx where
  "new_rx = \<lparr>rx_status = new_status, rx_msg = new_message, r_status = new_status\<rparr>"

lemma new_rx_ready: "rx_ready new_rx"
  by (simp add: rx_ready_def at_rest_def parser_of_def new_rx_def new_status_def new_message_def)

definition example_message :: mavlink_message where
  "example_message = new_message\<lparr>msgid := 11, payload := [1, 2, 3, 4, 5, 6] @ replicate (PAYLOAD_BYTES - 6) 0\<rparr>"

lemma example_message_length: "length (payload example_message) = PAYLOAD_BYTES"
  by (simp add: example_message_def PAYLOAD_BYTES_def MAVLINK_MAX_PAYLOAD_LEN_def)

lemma example_crc: "MAVLINK_MESSAGE_CRC (msgid example_message) = 89"
  by (simp add: example_message_def MAVLINK_MESSAGE_CRC_def MAVLINK_MESSAGE_CRCS_def)

lemma finalize_cases:
  obtains len msg' st' where "mavlink_finalize_message_chan msg sid cid n crc_extra st = (len, msg', st')"
  by (metis surj_pair)

lemma message_round_trip_witness:
  "\<exists>m rx'. parse_chars (mavlink_msg_to_send_buffer (fst (snd (mavlink_finalize_message_chan example_message 100 50 6 89 new_status)))) new_rx =
      ([m], rx') \<and> msgid m = msgid example_message \<and> msg_len m = 6 \<and> msg_sysid m = 100 \<and> msg_compid m = 50 \<and>
    msg_seq m = current_tx_seq new_status \<and> take (unat (6 :: u8)) (payload m) = take (unat (6 :: u8)) (payload example_message) \<and> rx_ready rx'"
  by (rule message_round_trip [OF new_rx_ready example_message_length, where
        len = "fst (mavlink_finalize_message_chan example_message 100 50 6 89 new_status)" and
        st' = "snd (snd (mavlink_finalize_message_chan example_message 100 50 6 89 new_status))"])
    (simp add: example_crc)

lemma both_ways_send_the_same_witness:
  "concat (fst (mav_finalize_message_chan_send 100 50 (msgid example_message) (payload example_message) 6 89 new_status)) =
      mavlink_msg_to_send_buffer (fst (snd (mavlink_finalize_message_chan example_message 100 50 6 89 new_status))) \<and>
    snd (mav_finalize_message_chan_send 100 50 (msgid example_message) (payload example_message) 6 89 new_status) =
      snd (snd (mavlink_finalize_message_chan example_message 100 50 6 89 new_status))"
  by (rule both_ways_send_the_same [OF example_message_length, where
        len = "fst (mavlink_finalize_message_chan example_message 100 50 6 89 new_status)"]) simp

subsection \<open>Corrupted frames\<close>

text \<open>The positions of a frame behind the identifier or between length and identifier.\<close>

definition changed :: "bytes \<Rightarrow> nat \<Rightarrow> u8 \<Rightarrow> bytes \<Rightarrow> bool" where
  "changed f k x p \<longleftrightarrow> (k \<in> {2, 3, 4} \<or> 6 \<le> k \<and> k < 6 + length p) \<and> x \<noteq> f ! k"

text \<open>
  C29. A frame in which one byte of the sequence number, of the sender or of the payload was changed on the way delivers no message.
\<close>
theorem corrupted_frame_dropped:
  assumes "rx_ready rx" "length p \<le> 255" "crc = frame_crc (header sq sid cid mid p) p"
    and "changed (frame (header sq sid cid mid p) p crc) k x p"
  shows "fst (parse_chars ((frame (header sq sid cid mid p) p crc)[k := x]) rx) = []"
proof -
  let ?h = "header sq sid cid mid p" and ?n = "word_of_nat (length p) :: u8"
  obtain sq' sid' cid' p' where new: "(frame ?h p crc)[k := x] = frame (header sq' sid' cid' mid p') p' crc" "length p' = length p"
    and i: "\<exists>i < length (?h @ p). header sq' sid' cid' mid p' @ p' = (?h @ p)[i := x] \<and> x \<noteq> (?h @ p) ! i"
  proof (cases "6 \<le> k")
    case True
    then have k: "k - 6 < length p" using assms(4) by (auto simp: changed_def)
    show ?thesis
    proof (rule that [of sq sid cid "p[k - 6 := x]"])
      have "(frame ?h p crc)[k := x] = ([MAVLINK_STX] @ ?h) @ (p @ [ucast (crc AND 0xff), ucast (drop_bit 8 crc)])[k - 6 := x]"
        using True by (simp add: frame_def header_def list_update_append eval_nat_numeral split: nat.split)
      then show "(frame ?h p crc)[k := x] = frame (header sq sid cid mid (p[k - 6 := x])) (p[k - 6 := x]) crc"
        using k by (simp add: frame_def header_def list_update_append)
      have "frame ?h p crc ! k = p ! (k - 6)"
      proof -
        have "frame ?h p crc ! k = (([MAVLINK_STX] @ ?h) @ p @ [ucast (crc AND 0xff), ucast (drop_bit 8 crc)]) ! k" by (simp add: frame_def)
        also have "\<dots> = (p @ [ucast (crc AND 0xff), ucast (drop_bit 8 crc)]) ! (k - 6)" using True by (subst nth_append) (simp add: header_def eval_nat_numeral)
        also have "\<dots> = p ! (k - 6)" using k by (simp add: nth_append)
        finally show ?thesis .
      qed
      then have "x \<noteq> p ! (k - 6)" using assms(4) by (simp add: changed_def)
      then show "\<exists>i < length (?h @ p). header sq sid cid mid (p[k - 6 := x]) @ p[k - 6 := x] = (?h @ p)[i := x] \<and> x \<noteq> (?h @ p) ! i"
        using k by (intro exI [of _ "5 + (k - 6)"]) (simp add: header_def list_update_append nth_append)
    qed simp
  next
    case False
    then have "k = 2 \<or> k = 3 \<or> k = 4" using assms(4) by (auto simp: changed_def)
    then show ?thesis
    proof (elim disjE)
      assume "k = 2"
      then show ?thesis using assms(4) by (intro that [of x sid cid p]) (auto simp: changed_def frame_def header_def intro!: exI [of _ 1])
    next
      assume "k = 3"
      then show ?thesis using assms(4) by (intro that [of sq x cid p]) (auto simp: changed_def frame_def header_def numeral_3_eq_3 numeral_2_eq_2 intro!: exI [of _ 2])
    next
      assume "k = 4"
      then show ?thesis using assms(4) by (intro that [of sq sid x p]) (auto simp: changed_def frame_def header_def eval_nat_numeral intro!: exI [of _ 3])
    qed
  qed
  have mid: "?h ! 4 = mid" "header sq' sid' cid' mid p' ! 4 = mid" by (simp_all add: header_def)
  have "crc_accumulate_buffer X25_INIT_CRC (header sq' sid' cid' mid p' @ p') \<noteq> crc_accumulate_buffer X25_INIT_CRC (?h @ p)"
    using i crc_detects by metis
  then have "crc \<noteq> frame_crc (header sq' sid' cid' mid p') p'" unfolding assms(3) frame_crc_def mid crc_accumulate_crc by metis
  then show ?thesis using frame_parsed_chars(1) [OF assms(1), of p' sq' sid' cid' mid crc] new assms(2) by simp
qed

lemma corrupted_frame_dropped_witness:
  "fst (parse_chars ((frame (header 1 100 50 11 [1, 2, 3]) [1, 2, 3] (frame_crc (header 1 100 50 11 [1, 2, 3]) [1, 2, 3]))[7 := 9]) new_rx) = []"
  by (rule corrupted_frame_dropped [OF new_rx_ready _ refl]) (simp_all add: changed_def frame_def header_def)

subsection \<open>Synchronisation\<close>

text \<open>The most bytes without a start byte that a parser takes until it waits for a start byte.\<close>

fun busy :: "parser \<Rightarrow> nat" where
  "busy (MAVLINK_PARSE_STATE_UNINIT, i, msg) = 0"
| "busy (MAVLINK_PARSE_STATE_IDLE, i, msg) = 0"
| "busy (MAVLINK_PARSE_STATE_GOT_CRC1, i, msg) = 1"
| "busy (MAVLINK_PARSE_STATE_GOT_PAYLOAD, i, msg) = 2"
| "busy (MAVLINK_PARSE_STATE_GOT_MSGID, i, msg) = 2 + (if i = msg_len msg then 256 else unat (msg_len msg - i))"
| "busy (MAVLINK_PARSE_STATE_GOT_COMPID, i, msg) = 259"
| "busy (MAVLINK_PARSE_STATE_GOT_SYSID, i, msg) = 260"
| "busy (MAVLINK_PARSE_STATE_GOT_SEQ, i, msg) = 261"
| "busy (MAVLINK_PARSE_STATE_GOT_LENGTH, i, msg) = 262"
| "busy (MAVLINK_PARSE_STATE_GOT_STX, i, msg) = 263"

lemma busy_rest: "busy p = 0 \<longleftrightarrow> at_rest p"
  by (induction p rule: busy.induct) (auto simp: at_rest_def)

lemma busy_msgid: "busy (MAVLINK_PARSE_STATE_GOT_MSGID, i, msg) \<le> 258"
  using byte_bound [of "msg_len msg - i"] by simp

lemma busy_bound: "busy p \<le> 263"
proof (induction p rule: busy.induct)
  case (5 i msg)
  then show ?case using busy_msgid [of i msg] by simp
qed simp_all

lemma busy_restart: "c \<noteq> MAVLINK_STX \<Longrightarrow> busy (restart c i msg) = 0"
  by (simp add: restart_def)

lemma update_checksum_len [simp]: "msg_len (mavlink_update_checksum c msg) = msg_len msg"
  by (simp add: mavlink_update_checksum_def)

lemma busy_payload:
  assumes "i + 1 \<noteq> msg_len msg"
  shows "(if i + 1 = msg_len msg then 256 else unat (msg_len msg - (i + 1))) = (if i = msg_len msg then 256 else unat (msg_len msg - i)) - 1"
proof (cases "i = msg_len msg")
  case True
  have "msg_len msg - (msg_len msg + 1) = (- 1 :: u8)" by simp
  moreover have "unat (- 1 :: u8) = 255" by code_simp
  ultimately show ?thesis using True assms by (simp only: if_False if_True) simp
next
  case False
  have "msg_len msg - i \<noteq> 0" using False by simp
  note unat_minus_one [OF this]
  moreover have "msg_len msg - i - 1 = msg_len msg - (i + 1)" by simp
  ultimately have "unat (msg_len msg - (i + 1)) = unat (msg_len msg - i) - 1" by argo
  then show ?thesis using False assms by simp
qed

lemma busy_step: "c \<noteq> MAVLINK_STX \<Longrightarrow> busy (fst (parser_step c p)) \<le> busy p - 1"
proof (induction c p rule: parser_step.induct)
  case (7 c i msg)
  have "busy (MAVLINK_PARSE_STATE_GOT_MSGID, i, mavlink_update_checksum c (msg\<lparr>msgid := c\<rparr>)) \<le> 258" by (rule busy_msgid)
  then show ?case by (simp del: busy.simps(5))
next
  case (8 c i msg)
  show ?case
  proof (cases "i + 1 = msg_len msg")
    case True
    then have "msg_len msg - i = 1" by (simp add: algebra_simps)
    then show ?thesis using True by simp
  next
    case False
    have "i \<noteq> msg_len msg \<Longrightarrow> unat (msg_len msg - i) \<noteq> 0" by (metis right_minus_eq unat_0 word_unat_eq_iff)
    then show ?thesis using busy_payload [OF False] False by (simp del: One_nat_def)
  qed
next
  case (9 c i msg)
  then show ?case by (simp add: Let_def busy_restart)
next
  case (10 c i msg)
  then show ?case by (simp add: Let_def busy_restart)
qed simp_all

lemma busy_run: "MAVLINK_STX \<notin> set cs \<Longrightarrow> busy (snd (parser_run cs p)) \<le> busy p - length cs"
proof (induction cs arbitrary: p)
  case (Cons c cs)
  obtain p1 m where s: "parser_step c p = (p1, m)" by (metis surj_pair)
  obtain ms p2 where r: "parser_run cs p1 = (ms, p2)" by (metis surj_pair)
  have "busy p1 \<le> busy p - 1" using busy_step [of c p] Cons.prems s by auto
  moreover have "busy p2 \<le> busy p1 - length cs" using Cons.IH [of p1] Cons.prems r by simp
  ultimately show ?case using s r by simp
qed simp

lemma step_payload: "length (payload (snd (snd (fst (parser_step c p))))) = length (payload (snd (snd p)))"
  by (induction c p rule: parser_step.induct)
    (simp_all add: restart_def mavlink_update_checksum_def mavlink_start_checksum_def Let_def)

lemma run_payload: "length (payload (snd (snd (snd (parser_run cs p))))) = length (payload (snd (snd p)))"
proof (induction cs arbitrary: p)
  case (Cons c cs)
  obtain p1 m where s: "parser_step c p = (p1, m)" by (metis surj_pair)
  obtain ms p2 where r: "parser_run cs p1 = (ms, p2)" by (metis surj_pair)
  show ?case using Cons.IH [of p1] step_payload [of c p] s r by simp
qed simp

lemma parse_chars_append:
  "parse_chars (as @ bs) rx = (fst (parse_chars as rx) @ fst (parse_chars bs (snd (parse_chars as rx))), snd (parse_chars bs (snd (parse_chars as rx))))"
  by (induction as arbitrary: rx) (auto simp: Let_def split: prod.splits option.splits)

text \<open>
  C30. Whatever happened before, after 263 bytes without a start byte the parser is synchronised: the next frame with a correct
  checksum is delivered.
\<close>
theorem resynchronises:
  assumes "length (payload (rx_msg rx)) = PAYLOAD_BYTES" "263 \<le> length quiet" "MAVLINK_STX \<notin> set quiet" "length p \<le> 255"
  shows "\<exists>ms m rx'. parse_chars (quiet @ frame (header sq sid cid mid p) p (frame_crc (header sq sid cid mid p) p)) rx = (ms @ [m], rx') \<and>
    msgid m = mid \<and> msg_sysid m = sid \<and> msg_compid m = cid \<and> msg_seq m = sq \<and> take (length p) (payload m) = p \<and> rx_ready rx'"
proof -
  let ?f = "frame (header sq sid cid mid p) p (frame_crc (header sq sid cid mid p) p)"
  let ?rx = "snd (parse_chars quiet rx)"
  have run: "parser_run quiet (parser_of rx) = (fst (parse_chars quiet rx), parser_of ?rx)" by (rule parse_chars_parser) simp
  have msg: "rx_msg r = snd (snd (parser_of r))" for r by (simp add: parser_of_def)
  have "busy (parser_of ?rx) = 0"
    using busy_run [OF assms(3), of "parser_of rx"] busy_bound [of "parser_of rx"] assms(2) run by simp
  moreover have "length (payload (rx_msg ?rx)) = PAYLOAD_BYTES"
    using run_payload [of quiet "parser_of rx"] run assms(1) by (simp add: msg)
  ultimately have ready: "rx_ready ?rx" by (simp add: rx_ready_def busy_rest)
  have "fst (parse_chars ?f ?rx) = [delivered sq sid cid mid p (frame_crc (header sq sid cid mid p) p) (payload (rx_msg ?rx))]"
    using frame_parsed_chars(1) [OF ready assms(4)] by simp
  then show ?thesis
    using ready_again [OF ready assms(4) refl, of sq sid cid mid] by (simp add: parse_chars_append) (simp add: delivered_def)
qed

lemma resynchronises_witness:
  "\<exists>ms m rx'. parse_chars (replicate 300 0 @ frame (header 1 100 50 11 [1, 2, 3]) [1, 2, 3] (frame_crc (header 1 100 50 11 [1, 2, 3]) [1, 2, 3]))
      new_rx = (ms @ [m], rx') \<and>
    msgid m = 11 \<and> msg_sysid m = 100 \<and> msg_compid m = 50 \<and> msg_seq m = 1 \<and> take (length [1, 2, 3 :: u8]) (payload m) = [1, 2, 3] \<and> rx_ready rx'"
  by (rule resynchronises) (simp_all add: new_rx_def new_message_def MAVLINK_STX_def)

subsection \<open>A start byte that is seen twice\<close>

lemma payload_pending:
  "length q < unat (msg_len msg - i) \<Longrightarrow> fst (parser_run q (MAVLINK_PARSE_STATE_GOT_MSGID, i, msg)) = []"
proof (induction q arbitrary: i msg)
  case (Cons c q)
  let ?msg = "mavlink_update_checksum c (msg\<lparr>payload := (payload msg)[unat i := c]\<rparr>)"
  have "i \<noteq> msg_len msg" using Cons.prems by auto
  moreover have "i + 1 \<noteq> msg_len msg"
  proof
    assume "i + 1 = msg_len msg"
    then have "msg_len msg - i = 1" by (simp add: algebra_simps)
    then show False using Cons.prems by simp
  qed
  ultimately have ne: "i \<noteq> msg_len msg" "i + 1 \<noteq> msg_len msg" by blast+
  have "unat (msg_len msg - (i + 1)) = unat (msg_len msg - i) - 1" using busy_payload [OF ne(2)] ne by simp
  then have "fst (parser_run q (MAVLINK_PARSE_STATE_GOT_MSGID, i + 1, ?msg)) = []" using Cons.prems by (intro Cons.IH) simp
  then show ?case using ne(2) by (simp add: run_quiet del: parser_run.simps)
qed simp

lemma doubled_start_swallowed:
  assumes "rx_ready rx" "length p \<le> 250"
  shows "fst (parse_chars (MAVLINK_STX # frame (header sq sid cid mid p) p crc) rx) = []"
proof -
  let ?q = "mid # p @ crc_bytes crc"
  obtain st i msg where r: "parser_of rx = (st, i, msg)" "at_rest (st, i, msg)" using assms(1) unfolding rx_ready_def by (cases "parser_of rx") auto
  have "MAVLINK_STX # frame (header sq sid cid mid p) p crc =
      [MAVLINK_STX, MAVLINK_STX, word_of_nat (length p), sq, sid, cid] @ ?q"
    by (simp add: frame_def header_def crc_bytes_def)
  then have "parser_run (MAVLINK_STX # frame (header sq sid cid mid p) p crc) (st, i, msg) =
      parser_run ?q (MAVLINK_PARSE_STATE_GOT_MSGID, 0, after_header MAVLINK_STX (word_of_nat (length p)) sq sid cid msg)"
    using header_run [OF r(2), of MAVLINK_STX "word_of_nat (length p)" sq sid cid ?q] by (simp add: MAVLINK_STX_def del: parser_run.simps)
  moreover have "fst (parser_run ?q (MAVLINK_PARSE_STATE_GOT_MSGID, 0, after_header MAVLINK_STX (word_of_nat (length p)) sq sid cid msg)) = []"
    using assms(2) by (intro payload_pending) (simp add: after_header_def MAVLINK_STX_def crc_bytes_def)
  moreover have "parser_run (MAVLINK_STX # frame (header sq sid cid mid p) p crc) (parser_of rx) =
      (fst (parse_chars (MAVLINK_STX # frame (header sq sid cid mid p) p crc) rx),
       parser_of (snd (parse_chars (MAVLINK_STX # frame (header sq sid cid mid p) p crc) rx)))"
    by (rule parse_chars_parser) simp
  ultimately show ?thesis unfolding r(1) by simp
qed

end
