(* ===== verification/Mavlink_Msg.thy ===== *)
theory Mavlink_Msg
  imports Mavlink_Frame Mission
begin

text \<open>
  The messages of the telemetry link that the firmware reads or writes: their structures, the payload that the \<open>_pack\<close> function
  of each message builds and the structure that its \<open>_decode\<close> function reads
  (\<open>src/mavlink/include/mavlink/v1.0/common/mavlink_msg_*.h\<close>, \<open>protocol.h\<close>). The processor is little-endian, so a structure is
  copied to and from the payload as it is. The interface \<open>wire_message\<close> states what belongs together: a message that is packed,
  sent, parsed and decoded arrives as it was.
\<close>

section \<open>Fields\<close>

definition MAV_RETURN_uint8_t :: "nat \<Rightarrow> bytes \<Rightarrow> u8" where
  "MAV_RETURN_uint8_t ofs p = p ! ofs"

definition MAV_RETURN_uint16_t :: "nat \<Rightarrow> bytes \<Rightarrow> u16" where
  "MAV_RETURN_uint16_t ofs p = un_le16 (take 2 (drop ofs p))"

definition MAV_RETURN_uint32_t :: "nat \<Rightarrow> bytes \<Rightarrow> u32" where
  "MAV_RETURN_uint32_t ofs p = un_le32 (take 4 (drop ofs p))"

definition MAV_RETURN_uint64_t :: "nat \<Rightarrow> bytes \<Rightarrow> u64" where
  "MAV_RETURN_uint64_t ofs p = un_le64 (take 8 (drop ofs p))"

definition MAV_RETURN_char_array :: "nat \<Rightarrow> nat \<Rightarrow> bytes \<Rightarrow> bytes" where
  "MAV_RETURN_char_array n ofs p = take n (drop ofs p)"

definition MAV_RETURN_uint16_t_array :: "nat \<Rightarrow> nat \<Rightarrow> bytes \<Rightarrow> u16 list" where
  "MAV_RETURN_uint16_t_array n ofs p = bytes_u16 (take (2 * n) (drop ofs p))"

lemmas mav_return = MAV_RETURN_uint8_t_def MAV_RETURN_uint16_t_def MAV_RETURN_uint32_t_def MAV_RETURN_uint64_t_def
  MAV_RETURN_char_array_def MAV_RETURN_uint16_t_array_def

text \<open>What all \<open>_pack\<close> functions do: copy the payload, set the identifier, finalize.\<close>

definition mavlink_msg_pack ::
    "u8 \<Rightarrow> u8 \<Rightarrow> bytes \<Rightarrow> u8 \<Rightarrow> u8 \<Rightarrow> mavlink_message \<Rightarrow> mavlink_status \<Rightarrow> u16 \<times> mavlink_message \<times> mavlink_status" where
  "mavlink_msg_pack mid crc_extra packet system_id component_id msg st =
     mavlink_finalize_message_chan (msg\<lparr>payload := packet @ drop (length packet) (payload msg), msgid := mid\<rparr>)
       system_id component_id (of_nat (length packet)) crc_extra st"

section \<open>Interface\<close>

text \<open>The bytes on the wire for a payload.\<close>

definition sent_frame :: "u8 \<Rightarrow> u8 \<Rightarrow> u8 \<Rightarrow> u8 \<Rightarrow> bytes \<Rightarrow> bytes" where
  "sent_frame sq sid cid mid p =
     (let h = header sq sid cid mid p in Mavlink_Frame.frame h p (frame_crc h p))"

lemma sent_frame_parsed:
  assumes "rx_ready rx" "length p \<le> 255"
  obtains rx' where "parse_chars (sent_frame sq sid cid mid p) rx =
      ([delivered sq sid cid mid p (frame_crc (header sq sid cid mid p) p) (payload (rx_msg rx))], rx')" "rx_ready rx'"
proof
  let ?h = "header sq sid cid mid p"
  let ?f = "Mavlink_Frame.frame ?h p (frame_crc ?h p)"
  show "parse_chars (sent_frame sq sid cid mid p) rx = ([delivered sq sid cid mid p (frame_crc ?h p) (payload (rx_msg rx))], snd (parse_chars ?f rx))"
    using frame_parsed_chars(1) [OF assms] by (simp add: sent_frame_def Let_def prod_eq_iff)
  show "rx_ready (snd (parse_chars ?f rx))" by (rule ready_again [OF assms refl])
qed

locale wire_message =
  fixes enc :: "'a \<Rightarrow> bytes"
    and dec :: "bytes \<Rightarrow> 'a"
    and proper :: "'a \<Rightarrow> bool"
    and mid :: u8
    and crc_extra :: u8
  assumes short: "proper x \<Longrightarrow> length (enc x) \<le> 255"
    and dec_enc: "proper x \<Longrightarrow> dec (enc x @ rest) = x"
    and crc_known: "MAVLINK_MESSAGE_CRC mid = crc_extra"
begin

lemma pack_finalizes:
  "mavlink_msg_pack mid crc_extra (enc x) sid cid msg st =
    mavlink_finalize_message_chan (msg\<lparr>payload := enc x @ drop (length (enc x)) (payload msg), msgid := mid\<rparr>) sid cid
      (of_nat (length (enc x))) (MAVLINK_MESSAGE_CRC mid) st"
  by (simp add: mavlink_msg_pack_def crc_known)

text \<open>The bytes on the wire depend on the structure, the sender and the sequence number alone.\<close>

lemma wire_bytes:
  assumes "proper x" "length (payload msg) = PAYLOAD_BYTES"
  shows "mavlink_msg_to_send_buffer (fst (snd (mavlink_msg_pack mid crc_extra (enc x) sid cid msg st))) =
    sent_frame (current_tx_seq st) sid cid mid (enc x)"
proof -
  let ?m = "msg\<lparr>payload := enc x @ drop (length (enc x)) (payload msg), msgid := mid\<rparr>" and ?n = "of_nat (length (enc x)) :: u8"
  have n: "unat ?n = length (enc x)" using short [OF assms(1)] by (simp add: unat_of_nat)
  have len: "length (payload ?m) = PAYLOAD_BYTES"
    using assms(2) short [OF assms(1)] by (simp add: PAYLOAD_BYTES_def MAVLINK_MAX_PAYLOAD_LEN_def)
  obtain l m' st' where f: "mavlink_finalize_message_chan ?m sid cid ?n crc_extra st = (l, m', st')" by (rule finalize_cases)
  have p: "enc x = take (unat ?n) (payload ?m)" using n by simp
  show ?thesis
    using finalized_frame [OF len f p refl] by (simp add: mavlink_msg_pack_def f frame_crc_def header_def crc_known sent_frame_def Let_def)
qed

text \<open>A packed message arrives.\<close>

lemma arrives:
  assumes "proper x" "length (payload msg) = PAYLOAD_BYTES" "rx_ready rx"
  shows "\<exists>m rx'. parse_chars (mavlink_msg_to_send_buffer (fst (snd (mavlink_msg_pack mid crc_extra (enc x) sid cid msg st)))) rx = ([m], rx') \<and>
    msgid m = mid \<and> msg_sysid m = sid \<and> msg_compid m = cid \<and> dec (payload m) = x \<and> rx_ready rx'"
proof -
  obtain rx' where "parse_chars (sent_frame (current_tx_seq st) sid cid mid (enc x)) rx = ([delivered (current_tx_seq st) sid cid mid (enc x)
      (frame_crc (header (current_tx_seq st) sid cid mid (enc x)) (enc x)) (payload (rx_msg rx))], rx')" "rx_ready rx'"
    by (rule sent_frame_parsed [OF assms(3) short [OF assms(1)]])
  then show ?thesis unfolding wire_bytes [OF assms(1,2)] using dec_enc [OF assms(1)] by (auto simp: delivered_def)
qed

end

section \<open>Messages\<close>

text \<open>
  The packet of \<open>mavlink_msg_<name>_pack\<close> and \<open>mavlink_msg_<name>_decode\<close> for every message. Signed integers are kept as words.
\<close>

lemmas message_crcs = MAVLINK_MESSAGE_CRC_def MAVLINK_MESSAGE_CRCS_def

definition MAVLINK_MSG_ID_HEARTBEAT :: u8 where "MAVLINK_MSG_ID_HEARTBEAT = 0"

record mavlink_heartbeat_t =
  hb_custom_mode :: u32
  hb_type :: u8
  hb_autopilot :: u8
  hb_base_mode :: u8
  hb_system_status :: u8
  hb_mavlink_version :: u8

definition heartbeat_packet :: "mavlink_heartbeat_t \<Rightarrow> bytes" where
  "heartbeat_packet x =
     le32 (hb_custom_mode x) @ [hb_type x] @ [hb_autopilot x] @ [hb_base_mode x] @ [hb_system_status x] @
     [hb_mavlink_version x]"

definition mavlink_msg_heartbeat_decode :: "bytes \<Rightarrow> mavlink_heartbeat_t" where
  "mavlink_msg_heartbeat_decode p = \<lparr>
     hb_custom_mode = MAV_RETURN_uint32_t 0 p, hb_type = MAV_RETURN_uint8_t 4 p, hb_autopilot = MAV_RETURN_uint8_t 5 p,
     hb_base_mode = MAV_RETURN_uint8_t 6 p, hb_system_status = MAV_RETURN_uint8_t 7 p,
     hb_mavlink_version = MAV_RETURN_uint8_t 8 p\<rparr>"

interpretation heartbeat_msg: wire_message heartbeat_packet mavlink_msg_heartbeat_decode "\<lambda>x. True" MAVLINK_MSG_ID_HEARTBEAT 50
  by unfold_locales (auto simp: heartbeat_packet_def mavlink_msg_heartbeat_decode_def MAVLINK_MSG_ID_HEARTBEAT_def mav_return nth_append message_crcs)

definition MAVLINK_MSG_ID_SET_MODE :: u8 where "MAVLINK_MSG_ID_SET_MODE = 11"

record mavlink_set_mode_t =
  sm_custom_mode :: u32
  sm_target_system :: u8
  sm_base_mode :: u8

definition set_mode_packet :: "mavlink_set_mode_t \<Rightarrow> bytes" where
  "set_mode_packet x =
     le32 (sm_custom_mode x) @ [sm_target_system x] @ [sm_base_mode x]"

definition mavlink_msg_set_mode_decode :: "bytes \<Rightarrow> mavlink_set_mode_t" where
  "mavlink_msg_set_mode_decode p = \<lparr>
     sm_custom_mode = MAV_RETURN_uint32_t 0 p, sm_target_system = MAV_RETURN_uint8_t 4 p,
     sm_base_mode = MAV_RETURN_uint8_t 5 p\<rparr>"

interpretation set_mode_msg: wire_message set_mode_packet mavlink_msg_set_mode_decode "\<lambda>x. True" MAVLINK_MSG_ID_SET_MODE 89
  by unfold_locales (auto simp: set_mode_packet_def mavlink_msg_set_mode_decode_def MAVLINK_MSG_ID_SET_MODE_def mav_return nth_append message_crcs)

definition MAVLINK_MSG_ID_PARAM_REQUEST_READ :: u8 where "MAVLINK_MSG_ID_PARAM_REQUEST_READ = 20"

record mavlink_param_request_read_t =
  prr_param_index :: u16
  prr_target_system :: u8
  prr_target_component :: u8
  prr_param_id :: bytes

definition param_request_read_packet :: "mavlink_param_request_read_t \<Rightarrow> bytes" where
  "param_request_read_packet x =
     le16 (prr_param_index x) @ [prr_target_system x] @ [prr_target_component x] @ prr_param_id x"

definition mavlink_msg_param_request_read_decode :: "bytes \<Rightarrow> mavlink_param_request_read_t" where
  "mavlink_msg_param_request_read_decode p = \<lparr>
     prr_param_index = MAV_RETURN_uint16_t 0 p, prr_target_system = MAV_RETURN_uint8_t 2 p,
     prr_target_component = MAV_RETURN_uint8_t 3 p, prr_param_id = MAV_RETURN_char_array 16 4 p\<rparr>"

interpretation param_request_read_msg: wire_message param_request_read_packet mavlink_msg_param_request_read_decode "\<lambda>x. length (prr_param_id x) = 16" MAVLINK_MSG_ID_PARAM_REQUEST_READ 214
  by unfold_locales (auto simp: param_request_read_packet_def mavlink_msg_param_request_read_decode_def MAVLINK_MSG_ID_PARAM_REQUEST_READ_def mav_return nth_append message_crcs)

definition MAVLINK_MSG_ID_PARAM_REQUEST_LIST :: u8 where "MAVLINK_MSG_ID_PARAM_REQUEST_LIST = 21"

record mavlink_param_request_list_t =
  prl_target_system :: u8
  prl_target_component :: u8

definition param_request_list_packet :: "mavlink_param_request_list_t \<Rightarrow> bytes" where
  "param_request_list_packet x =
     [prl_target_system x] @ [prl_target_component x]"

definition mavlink_msg_param_request_list_decode :: "bytes \<Rightarrow> mavlink_param_request_list_t" where
  "mavlink_msg_param_request_list_decode p = \<lparr>
     prl_target_system = MAV_RETURN_uint8_t 0 p, prl_target_component = MAV_RETURN_uint8_t 1 p\<rparr>"

interpretation param_request_list_msg: wire_message param_request_list_packet mavlink_msg_param_request_list_decode "\<lambda>x. True" MAVLINK_MSG_ID_PARAM_REQUEST_LIST 159
  by unfold_locales (auto simp: param_request_list_packet_def mavlink_msg_param_request_list_decode_def MAVLINK_MSG_ID_PARAM_REQUEST_LIST_def mav_return nth_append message_crcs)

definition MAVLINK_MSG_ID_PARAM_VALUE :: u8 where "MAVLINK_MSG_ID_PARAM_VALUE = 22"

record mavlink_param_value_t =
  pv_param_value :: float_bits
  pv_param_count :: u16
  pv_param_index :: u16
  pv_param_id :: bytes
  pv_param_type :: u8

definition param_value_packet :: "mavlink_param_value_t \<Rightarrow> bytes" where
  "param_value_packet x =
     le32 (pv_param_value x) @ le16 (pv_param_count x) @ le16 (pv_param_index x) @ pv_param_id x @ [pv_param_type x]"

definition mavlink_msg_param_value_decode :: "bytes \<Rightarrow> mavlink_param_value_t" where
  "mavlink_msg_param_value_decode p = \<lparr>
     pv_param_value = MAV_RETURN_uint32_t 0 p, pv_param_count = MAV_RETURN_uint16_t 4 p,
     pv_param_index = MAV_RETURN_uint16_t 6 p, pv_param_id = MAV_RETURN_char_array 16 8 p,
     pv_param_type = MAV_RETURN_uint8_t 24 p\<rparr>"

interpretation param_value_msg: wire_message param_value_packet mavlink_msg_param_value_decode "\<lambda>x. length (pv_param_id x) = 16" MAVLINK_MSG_ID_PARAM_VALUE 220
  by unfold_locales (auto simp: param_value_packet_def mavlink_msg_param_value_decode_def MAVLINK_MSG_ID_PARAM_VALUE_def mav_return nth_append message_crcs)

definition MAVLINK_MSG_ID_PARAM_SET :: u8 where "MAVLINK_MSG_ID_PARAM_SET = 23"

record mavlink_param_set_t =
  ps_param_value :: float_bits
  ps_target_system :: u8
  ps_target_component :: u8
  ps_param_id :: bytes
  ps_param_type :: u8

definition param_set_packet :: "mavlink_param_set_t \<Rightarrow> bytes" where
  "param_set_packet x =
     le32 (ps_param_value x) @ [ps_target_system x] @ [ps_target_component x] @ ps_param_id x @ [ps_param_type x]"

definition mavlink_msg_param_set_decode :: "bytes \<Rightarrow> mavlink_param_set_t" where
  "mavlink_msg_param_set_decode p = \<lparr>
     ps_param_value = MAV_RETURN_uint32_t 0 p, ps_target_system = MAV_RETURN_uint8_t 4 p,
     ps_target_component = MAV_RETURN_uint8_t 5 p, ps_param_id = MAV_RETURN_char_array 16 6 p,
     ps_param_type = MAV_RETURN_uint8_t 22 p\<rparr>"

interpretation param_set_msg: wire_message param_set_packet mavlink_msg_param_set_decode "\<lambda>x. length (ps_param_id x) = 16" MAVLINK_MSG_ID_PARAM_SET 168
  by unfold_locales (auto simp: param_set_packet_def mavlink_msg_param_set_decode_def MAVLINK_MSG_ID_PARAM_SET_def mav_return nth_append message_crcs)

definition MAVLINK_MSG_ID_MISSION_ITEM :: u8 where "MAVLINK_MSG_ID_MISSION_ITEM = 39"

definition mission_item_packet :: "mission_item \<Rightarrow> bytes" where
  "mission_item_packet x =
     le32 (param1 x) @ le32 (param2 x) @ le32 (param3 x) @ le32 (param4 x) @ le32 (item_x x) @ le32 (item_y x) @
     le32 (item_z x) @ le16 (seq x) @ le16 (command x) @ [target_system x] @ [target_component x] @ [frame x] @ [current x] @
     [autocontinue x]"

definition mavlink_msg_mission_item_decode :: "bytes \<Rightarrow> mission_item" where
  "mavlink_msg_mission_item_decode p = \<lparr>
     param1 = MAV_RETURN_uint32_t 0 p, param2 = MAV_RETURN_uint32_t 4 p, param3 = MAV_RETURN_uint32_t 8 p,
     param4 = MAV_RETURN_uint32_t 12 p, item_x = MAV_RETURN_uint32_t 16 p, item_y = MAV_RETURN_uint32_t 20 p,
     item_z = MAV_RETURN_uint32_t 24 p, seq = MAV_RETURN_uint16_t 28 p, command = MAV_RETURN_uint16_t 30 p,
     target_system = MAV_RETURN_uint8_t 32 p, target_component = MAV_RETURN_uint8_t 33 p, frame = MAV_RETURN_uint8_t 34 p,
     current = MAV_RETURN_uint8_t 35 p, autocontinue = MAV_RETURN_uint8_t 36 p\<rparr>"

interpretation mission_item_msg: wire_message mission_item_packet mavlink_msg_mission_item_decode "\<lambda>x. True" MAVLINK_MSG_ID_MISSION_ITEM 254
  by unfold_locales (auto simp: mission_item_packet_def mavlink_msg_mission_item_decode_def MAVLINK_MSG_ID_MISSION_ITEM_def mav_return nth_append message_crcs)

definition MAVLINK_MSG_ID_MISSION_REQUEST :: u8 where "MAVLINK_MSG_ID_MISSION_REQUEST = 40"

record mavlink_mission_request_t =
  mr_seq :: u16
  mr_target_system :: u8
  mr_target_component :: u8

definition mission_request_packet :: "mavlink_mission_request_t \<Rightarrow> bytes" where
  "mission_request_packet x =
     le16 (mr_seq x) @ [mr_target_system x] @ [mr_target_component x]"

definition mavlink_msg_mission_request_decode :: "bytes \<Rightarrow> mavlink_mission_request_t" where
  "mavlink_msg_mission_request_decode p = \<lparr>
     mr_seq = MAV_RETURN_uint16_t 0 p, mr_target_system = MAV_RETURN_uint8_t 2 p,
     mr_target_component = MAV_RETURN_uint8_t 3 p\<rparr>"

interpretation mission_request_msg: wire_message mission_request_packet mavlink_msg_mission_request_decode "\<lambda>x. True" MAVLINK_MSG_ID_MISSION_REQUEST 230
  by unfold_locales (auto simp: mission_request_packet_def mavlink_msg_mission_request_decode_def MAVLINK_MSG_ID_MISSION_REQUEST_def mav_return nth_append message_crcs)

definition MAVLINK_MSG_ID_MISSION_SET_CURRENT :: u8 where "MAVLINK_MSG_ID_MISSION_SET_CURRENT = 41"

record mavlink_mission_set_current_t =
  msc_seq :: u16
  msc_target_system :: u8
  msc_target_component :: u8

definition mission_set_current_packet :: "mavlink_mission_set_current_t \<Rightarrow> bytes" where
  "mission_set_current_packet x =
     le16 (msc_seq x) @ [msc_target_system x] @ [msc_target_component x]"

definition mavlink_msg_mission_set_current_decode :: "bytes \<Rightarrow> mavlink_mission_set_current_t" where
  "mavlink_msg_mission_set_current_decode p = \<lparr>
     msc_seq = MAV_RETURN_uint16_t 0 p, msc_target_system = MAV_RETURN_uint8_t 2 p,
     msc_target_component = MAV_RETURN_uint8_t 3 p\<rparr>"

interpretation mission_set_current_msg: wire_message mission_set_current_packet mavlink_msg_mission_set_current_decode "\<lambda>x. True" MAVLINK_MSG_ID_MISSION_SET_CURRENT 28
  by unfold_locales (auto simp: mission_set_current_packet_def mavlink_msg_mission_set_current_decode_def MAVLINK_MSG_ID_MISSION_SET_CURRENT_def mav_return nth_append message_crcs)

definition MAVLINK_MSG_ID_MISSION_CURRENT :: u8 where "MAVLINK_MSG_ID_MISSION_CURRENT = 42"

record mavlink_mission_current_t =
  mc_seq :: u16

definition mission_current_packet :: "mavlink_mission_current_t \<Rightarrow> bytes" where
  "mission_current_packet x =
     le16 (mc_seq x)"

definition mavlink_msg_mission_current_decode :: "bytes \<Rightarrow> mavlink_mission_current_t" where
  "mavlink_msg_mission_current_decode p = \<lparr>
     mc_seq = MAV_RETURN_uint16_t 0 p\<rparr>"

interpretation mission_current_msg: wire_message mission_current_packet mavlink_msg_mission_current_decode "\<lambda>x. True" MAVLINK_MSG_ID_MISSION_CURRENT 28
  by unfold_locales (auto simp: mission_current_packet_def mavlink_msg_mission_current_decode_def MAVLINK_MSG_ID_MISSION_CURRENT_def mav_return nth_append message_crcs)

definition MAVLINK_MSG_ID_MISSION_REQUEST_LIST :: u8 where "MAVLINK_MSG_ID_MISSION_REQUEST_LIST = 43"

record mavlink_mission_request_list_t =
  mrl_target_system :: u8
  mrl_target_component :: u8

definition mission_request_list_packet :: "mavlink_mission_request_list_t \<Rightarrow> bytes" where
  "mission_request_list_packet x =
     [mrl_target_system x] @ [mrl_target_component x]"

definition mavlink_msg_mission_request_list_decode :: "bytes \<Rightarrow> mavlink_mission_request_list_t" where
  "mavlink_msg_mission_request_list_decode p = \<lparr>
     mrl_target_system = MAV_RETURN_uint8_t 0 p, mrl_target_component = MAV_RETURN_uint8_t 1 p\<rparr>"

interpretation mission_request_list_msg: wire_message mission_request_list_packet mavlink_msg_mission_request_list_decode "\<lambda>x. True" MAVLINK_MSG_ID_MISSION_REQUEST_LIST 132
  by unfold_locales (auto simp: mission_request_list_packet_def mavlink_msg_mission_request_list_decode_def MAVLINK_MSG_ID_MISSION_REQUEST_LIST_def mav_return nth_append message_crcs)

definition MAVLINK_MSG_ID_MISSION_COUNT :: u8 where "MAVLINK_MSG_ID_MISSION_COUNT = 44"

record mavlink_mission_count_t =
  mct_count :: u16
  mct_target_system :: u8
  mct_target_component :: u8

definition mission_count_packet :: "mavlink_mission_count_t \<Rightarrow> bytes" where
  "mission_count_packet x =
     le16 (mct_count x) @ [mct_target_system x] @ [mct_target_component x]"

definition mavlink_msg_mission_count_decode :: "bytes \<Rightarrow> mavlink_mission_count_t" where
  "mavlink_msg_mission_count_decode p = \<lparr>
     mct_count = MAV_RETURN_uint16_t 0 p, mct_target_system = MAV_RETURN_uint8_t 2 p,
     mct_target_component = MAV_RETURN_uint8_t 3 p\<rparr>"

interpretation mission_count_msg: wire_message mission_count_packet mavlink_msg_mission_count_decode "\<lambda>x. True" MAVLINK_MSG_ID_MISSION_COUNT 221
  by unfold_locales (auto simp: mission_count_packet_def mavlink_msg_mission_count_decode_def MAVLINK_MSG_ID_MISSION_COUNT_def mav_return nth_append message_crcs)

definition MAVLINK_MSG_ID_MISSION_CLEAR_ALL :: u8 where "MAVLINK_MSG_ID_MISSION_CLEAR_ALL = 45"

record mavlink_mission_clear_all_t =
  mca_target_system :: u8
  mca_target_component :: u8

definition mission_clear_all_packet :: "mavlink_mission_clear_all_t \<Rightarrow> bytes" where
  "mission_clear_all_packet x =
     [mca_target_system x] @ [mca_target_component x]"

definition mavlink_msg_mission_clear_all_decode :: "bytes \<Rightarrow> mavlink_mission_clear_all_t" where
  "mavlink_msg_mission_clear_all_decode p = \<lparr>
     mca_target_system = MAV_RETURN_uint8_t 0 p, mca_target_component = MAV_RETURN_uint8_t 1 p\<rparr>"

interpretation mission_clear_all_msg: wire_message mission_clear_all_packet mavlink_msg_mission_clear_all_decode "\<lambda>x. True" MAVLINK_MSG_ID_MISSION_CLEAR_ALL 232
  by unfold_locales (auto simp: mission_clear_all_packet_def mavlink_msg_mission_clear_all_decode_def MAVLINK_MSG_ID_MISSION_CLEAR_ALL_def mav_return nth_append message_crcs)

definition MAVLINK_MSG_ID_MISSION_ITEM_REACHED :: u8 where "MAVLINK_MSG_ID_MISSION_ITEM_REACHED = 46"

record mavlink_mission_item_reached_t =
  mir_seq :: u16

definition mission_item_reached_packet :: "mavlink_mission_item_reached_t \<Rightarrow> bytes" where
  "mission_item_reached_packet x =
     le16 (mir_seq x)"

definition mavlink_msg_mission_item_reached_decode :: "bytes \<Rightarrow> mavlink_mission_item_reached_t" where
  "mavlink_msg_mission_item_reached_decode p = \<lparr>
     mir_seq = MAV_RETURN_uint16_t 0 p\<rparr>"

interpretation mission_item_reached_msg: wire_message mission_item_reached_packet mavlink_msg_mission_item_reached_decode "\<lambda>x. True" MAVLINK_MSG_ID_MISSION_ITEM_REACHED 11
  by unfold_locales (auto simp: mission_item_reached_packet_def mavlink_msg_mission_item_reached_decode_def MAVLINK_MSG_ID_MISSION_ITEM_REACHED_def mav_return nth_append message_crcs)

definition MAVLINK_MSG_ID_MISSION_ACK :: u8 where "MAVLINK_MSG_ID_MISSION_ACK = 47"

record mavlink_mission_ack_t =
  ma_target_system :: u8
  ma_target_component :: u8
  ma_type :: u8

definition mission_ack_packet :: "mavlink_mission_ack_t \<Rightarrow> bytes" where
  "mission_ack_packet x =
     [ma_target_system x] @ [ma_target_component x] @ [ma_type x]"

definition mavlink_msg_mission_ack_decode :: "bytes \<Rightarrow> mavlink_mission_ack_t" where
  "mavlink_msg_mission_ack_decode p = \<lparr>
     ma_target_system = MAV_RETURN_uint8_t 0 p, ma_target_component = MAV_RETURN_uint8_t 1 p,
     ma_type = MAV_RETURN_uint8_t 2 p\<rparr>"

interpretation mission_ack_msg: wire_message mission_ack_packet mavlink_msg_mission_ack_decode "\<lambda>x. True" MAVLINK_MSG_ID_MISSION_ACK 153
  by unfold_locales (auto simp: mission_ack_packet_def mavlink_msg_mission_ack_decode_def MAVLINK_MSG_ID_MISSION_ACK_def mav_return nth_append message_crcs)

definition MAVLINK_MSG_ID_SET_QUAD_SWARM_ROLL_PITCH_YAW_THRUST :: u8 where "MAVLINK_MSG_ID_SET_QUAD_SWARM_ROLL_PITCH_YAW_THRUST = 61"

record mavlink_set_quad_swarm_roll_pitch_yaw_thrust_t =
  qs_roll :: "u16 list"
  qs_pitch :: "u16 list"
  qs_yaw :: "u16 list"
  qs_thrust :: "u16 list"
  qs_group :: u8
  qs_mode :: u8

definition set_quad_swarm_roll_pitch_yaw_thrust_packet :: "mavlink_set_quad_swarm_roll_pitch_yaw_thrust_t \<Rightarrow> bytes" where
  "set_quad_swarm_roll_pitch_yaw_thrust_packet x =
     u16_bytes (qs_roll x) @ u16_bytes (qs_pitch x) @ u16_bytes (qs_yaw x) @ u16_bytes (qs_thrust x) @ [qs_group x] @
     [qs_mode x]"

definition mavlink_msg_set_quad_swarm_roll_pitch_yaw_thrust_decode :: "bytes \<Rightarrow> mavlink_set_quad_swarm_roll_pitch_yaw_thrust_t" where
  "mavlink_msg_set_quad_swarm_roll_pitch_yaw_thrust_decode p = \<lparr>
     qs_roll = MAV_RETURN_uint16_t_array 4 0 p, qs_pitch = MAV_RETURN_uint16_t_array 4 8 p,
     qs_yaw = MAV_RETURN_uint16_t_array 4 16 p, qs_thrust = MAV_RETURN_uint16_t_array 4 24 p,
     qs_group = MAV_RETURN_uint8_t 32 p, qs_mode = MAV_RETURN_uint8_t 33 p\<rparr>"

interpretation set_quad_swarm_roll_pitch_yaw_thrust_msg: wire_message set_quad_swarm_roll_pitch_yaw_thrust_packet mavlink_msg_set_quad_swarm_roll_pitch_yaw_thrust_decode "\<lambda>x. length (qs_roll x) = 4 \<and> length (qs_pitch x) = 4 \<and> length (qs_yaw x) = 4 \<and> length (qs_thrust x) = 4" MAVLINK_MSG_ID_SET_QUAD_SWARM_ROLL_PITCH_YAW_THRUST 240
  by unfold_locales (auto simp: set_quad_swarm_roll_pitch_yaw_thrust_packet_def mavlink_msg_set_quad_swarm_roll_pitch_yaw_thrust_decode_def MAVLINK_MSG_ID_SET_QUAD_SWARM_ROLL_PITCH_YAW_THRUST_def mav_return nth_append message_crcs)

definition MAVLINK_MSG_ID_MANUAL_CONTROL :: u8 where "MAVLINK_MSG_ID_MANUAL_CONTROL = 69"

record mavlink_manual_control_t =
  man_x :: u16
  man_y :: u16
  man_z :: u16
  man_r :: u16
  man_buttons :: u16
  man_target :: u8

definition manual_control_packet :: "mavlink_manual_control_t \<Rightarrow> bytes" where
  "manual_control_packet x =
     le16 (man_x x) @ le16 (man_y x) @ le16 (man_z x) @ le16 (man_r x) @ le16 (man_buttons x) @ [man_target x]"

definition mavlink_msg_manual_control_decode :: "bytes \<Rightarrow> mavlink_manual_control_t" where
  "mavlink_msg_manual_control_decode p = \<lparr>
     man_x = MAV_RETURN_uint16_t 0 p, man_y = MAV_RETURN_uint16_t 2 p, man_z = MAV_RETURN_uint16_t 4 p,
     man_r = MAV_RETURN_uint16_t 6 p, man_buttons = MAV_RETURN_uint16_t 8 p, man_target = MAV_RETURN_uint8_t 10 p\<rparr>"

interpretation manual_control_msg: wire_message manual_control_packet mavlink_msg_manual_control_decode "\<lambda>x. True" MAVLINK_MSG_ID_MANUAL_CONTROL 243
  by unfold_locales (auto simp: manual_control_packet_def mavlink_msg_manual_control_decode_def MAVLINK_MSG_ID_MANUAL_CONTROL_def mav_return nth_append message_crcs)

definition MAVLINK_MSG_ID_COMMAND_LONG :: u8 where "MAVLINK_MSG_ID_COMMAND_LONG = 76"

record mavlink_command_long_t =
  cl_param1 :: float_bits
  cl_param2 :: float_bits
  cl_param3 :: float_bits
  cl_param4 :: float_bits
  cl_param5 :: float_bits
  cl_param6 :: float_bits
  cl_param7 :: float_bits
  cl_command :: u16
  cl_target_system :: u8
  cl_target_component :: u8
  cl_confirmation :: u8

definition command_long_packet :: "mavlink_command_long_t \<Rightarrow> bytes" where
  "command_long_packet x =
     le32 (cl_param1 x) @ le32 (cl_param2 x) @ le32 (cl_param3 x) @ le32 (cl_param4 x) @ le32 (cl_param5 x) @
     le32 (cl_param6 x) @ le32 (cl_param7 x) @ le16 (cl_command x) @ [cl_target_system x] @ [cl_target_component x] @
     [cl_confirmation x]"

definition mavlink_msg_command_long_decode :: "bytes \<Rightarrow> mavlink_command_long_t" where
  "mavlink_msg_command_long_decode p = \<lparr>
     cl_param1 = MAV_RETURN_uint32_t 0 p, cl_param2 = MAV_RETURN_uint32_t 4 p, cl_param3 = MAV_RETURN_uint32_t 8 p,
     cl_param4 = MAV_RETURN_uint32_t 12 p, cl_param5 = MAV_RETURN_uint32_t 16 p, cl_param6 = MAV_RETURN_uint32_t 20 p,
     cl_param7 = MAV_RETURN_uint32_t 24 p, cl_command = MAV_RETURN_uint16_t 28 p, cl_target_system = MAV_RETURN_uint8_t 30 p,
     cl_target_component = MAV_RETURN_uint8_t 31 p, cl_confirmation = MAV_RETURN_uint8_t 32 p\<rparr>"

interpretation command_long_msg: wire_message command_long_packet mavlink_msg_command_long_decode "\<lambda>x. True" MAVLINK_MSG_ID_COMMAND_LONG 152
  by unfold_locales (auto simp: command_long_packet_def mavlink_msg_command_long_decode_def MAVLINK_MSG_ID_COMMAND_LONG_def mav_return nth_append message_crcs)

definition MAVLINK_MSG_ID_HIL_STATE :: u8 where "MAVLINK_MSG_ID_HIL_STATE = 90"

record mavlink_hil_state_t =
  hs_time_usec :: u64
  hs_roll :: float_bits
  hs_pitch :: float_bits
  hs_yaw :: float_bits
  hs_rollspeed :: float_bits
  hs_pitchspeed :: float_bits
  hs_yawspeed :: float_bits
  hs_lat :: u32
  hs_lon :: u32
  hs_alt :: u32
  hs_vx :: u16
  hs_vy :: u16
  hs_vz :: u16
  hs_xacc :: u16
  hs_yacc :: u16
  hs_zacc :: u16

definition hil_state_packet :: "mavlink_hil_state_t \<Rightarrow> bytes" where
  "hil_state_packet x =
     le64 (hs_time_usec x) @ le32 (hs_roll x) @ le32 (hs_pitch x) @ le32 (hs_yaw x) @ le32 (hs_rollspeed x) @
     le32 (hs_pitchspeed x) @ le32 (hs_yawspeed x) @ le32 (hs_lat x) @ le32 (hs_lon x) @ le32 (hs_alt x) @ le16 (hs_vx x) @
     le16 (hs_vy x) @ le16 (hs_vz x) @ le16 (hs_xacc x) @ le16 (hs_yacc x) @ le16 (hs_zacc x)"

definition mavlink_msg_hil_state_decode :: "bytes \<Rightarrow> mavlink_hil_state_t" where
  "mavlink_msg_hil_state_decode p = \<lparr>
     hs_time_usec = MAV_RETURN_uint64_t 0 p, hs_roll = MAV_RETURN_uint32_t 8 p, hs_pitch = MAV_RETURN_uint32_t 12 p,
     hs_yaw = MAV_RETURN_uint32_t 16 p, hs_rollspeed = MAV_RETURN_uint32_t 20 p, hs_pitchspeed = MAV_RETURN_uint32_t 24 p,
     hs_yawspeed = MAV_RETURN_uint32_t 28 p, hs_lat = MAV_RETURN_uint32_t 32 p, hs_lon = MAV_RETURN_uint32_t 36 p,
     hs_alt = MAV_RETURN_uint32_t 40 p, hs_vx = MAV_RETURN_uint16_t 44 p, hs_vy = MAV_RETURN_uint16_t 46 p,
     hs_vz = MAV_RETURN_uint16_t 48 p, hs_xacc = MAV_RETURN_uint16_t 50 p, hs_yacc = MAV_RETURN_uint16_t 52 p,
     hs_zacc = MAV_RETURN_uint16_t 54 p\<rparr>"

interpretation hil_state_msg: wire_message hil_state_packet mavlink_msg_hil_state_decode "\<lambda>x. True" MAVLINK_MSG_ID_HIL_STATE 183
  by unfold_locales (auto simp: hil_state_packet_def mavlink_msg_hil_state_decode_def MAVLINK_MSG_ID_HIL_STATE_def mav_return nth_append message_crcs)

definition MAVLINK_MSG_ID_OPTICAL_FLOW :: u8 where "MAVLINK_MSG_ID_OPTICAL_FLOW = 100"

record mavlink_optical_flow_t =
  of_time_usec :: u64
  of_flow_comp_m_x :: float_bits
  of_flow_comp_m_y :: float_bits
  of_ground_distance :: float_bits
  of_flow_x :: u16
  of_flow_y :: u16
  of_sensor_id :: u8
  of_quality :: u8

definition optical_flow_packet :: "mavlink_optical_flow_t \<Rightarrow> bytes" where
  "optical_flow_packet x =
     le64 (of_time_usec x) @ le32 (of_flow_comp_m_x x) @ le32 (of_flow_comp_m_y x) @ le32 (of_ground_distance x) @
     le16 (of_flow_x x) @ le16 (of_flow_y x) @ [of_sensor_id x] @ [of_quality x]"

definition mavlink_msg_optical_flow_decode :: "bytes \<Rightarrow> mavlink_optical_flow_t" where
  "mavlink_msg_optical_flow_decode p = \<lparr>
     of_time_usec = MAV_RETURN_uint64_t 0 p, of_flow_comp_m_x = MAV_RETURN_uint32_t 8 p,
     of_flow_comp_m_y = MAV_RETURN_uint32_t 12 p, of_ground_distance = MAV_RETURN_uint32_t 16 p,
     of_flow_x = MAV_RETURN_uint16_t 20 p, of_flow_y = MAV_RETURN_uint16_t 22 p, of_sensor_id = MAV_RETURN_uint8_t 24 p,
     of_quality = MAV_RETURN_uint8_t 25 p\<rparr>"

interpretation optical_flow_msg: wire_message optical_flow_packet mavlink_msg_optical_flow_decode "\<lambda>x. True" MAVLINK_MSG_ID_OPTICAL_FLOW 175
  by unfold_locales (auto simp: optical_flow_packet_def mavlink_msg_optical_flow_decode_def MAVLINK_MSG_ID_OPTICAL_FLOW_def mav_return nth_append message_crcs)

definition MAVLINK_MSG_ID_VICON_POSITION_ESTIMATE :: u8 where "MAVLINK_MSG_ID_VICON_POSITION_ESTIMATE = 104"

record mavlink_vicon_position_estimate_t =
  vp_usec :: u64
  vp_x :: float_bits
  vp_y :: float_bits
  vp_z :: float_bits
  vp_roll :: float_bits
  vp_pitch :: float_bits
  vp_yaw :: float_bits

definition vicon_position_estimate_packet :: "mavlink_vicon_position_estimate_t \<Rightarrow> bytes" where
  "vicon_position_estimate_packet x =
     le64 (vp_usec x) @ le32 (vp_x x) @ le32 (vp_y x) @ le32 (vp_z x) @ le32 (vp_roll x) @ le32 (vp_pitch x) @
     le32 (vp_yaw x)"

definition mavlink_msg_vicon_position_estimate_decode :: "bytes \<Rightarrow> mavlink_vicon_position_estimate_t" where
  "mavlink_msg_vicon_position_estimate_decode p = \<lparr>
     vp_usec = MAV_RETURN_uint64_t 0 p, vp_x = MAV_RETURN_uint32_t 8 p, vp_y = MAV_RETURN_uint32_t 12 p,
     vp_z = MAV_RETURN_uint32_t 16 p, vp_roll = MAV_RETURN_uint32_t 20 p, vp_pitch = MAV_RETURN_uint32_t 24 p,
     vp_yaw = MAV_RETURN_uint32_t 28 p\<rparr>"

interpretation vicon_position_estimate_msg: wire_message vicon_position_estimate_packet mavlink_msg_vicon_position_estimate_decode "\<lambda>x. True" MAVLINK_MSG_ID_VICON_POSITION_ESTIMATE 56
  by unfold_locales (auto simp: vicon_position_estimate_packet_def mavlink_msg_vicon_position_estimate_decode_def MAVLINK_MSG_ID_VICON_POSITION_ESTIMATE_def mav_return nth_append message_crcs)

definition MAVLINK_MSG_ID_STATUSTEXT :: u8 where "MAVLINK_MSG_ID_STATUSTEXT = 253"

record mavlink_statustext_t =
  st_severity :: u8
  st_text :: bytes

definition statustext_packet :: "mavlink_statustext_t \<Rightarrow> bytes" where
  "statustext_packet x =
     [st_severity x] @ st_text x"

definition mavlink_msg_statustext_decode :: "bytes \<Rightarrow> mavlink_statustext_t" where
  "mavlink_msg_statustext_decode p = \<lparr>
     st_severity = MAV_RETURN_uint8_t 0 p, st_text = MAV_RETURN_char_array 50 1 p\<rparr>"

interpretation statustext_msg: wire_message statustext_packet mavlink_msg_statustext_decode "\<lambda>x. length (st_text x) = 50" MAVLINK_MSG_ID_STATUSTEXT 83
  by unfold_locales (auto simp: statustext_packet_def mavlink_msg_statustext_decode_def MAVLINK_MSG_ID_STATUSTEXT_def mav_return nth_append message_crcs)

section \<open>The link\<close>

text \<open>
  The address of this system, the receiver (its status also holds the number of the next message to send), and the serial port:
  what was written so far, one entry for each call, and how many bytes each call takes. \<open>stack_bytes\<close> is what an uninitialised
  structure of text messages contains.
\<close>

record mavlink_link =
  link_rx :: mavlink_rx
  sysid :: u8
  compid :: u8
  system_type :: u8
  writes :: "bytes list"
  uart_takes :: "nat \<Rightarrow> nat"
  stack_bytes :: bytes

definition mavlink_missionlib_send_message :: "mavlink_message \<Rightarrow> 'a mavlink_link_scheme \<Rightarrow> int \<times> 'a mavlink_link_scheme" where
  "mavlink_missionlib_send_message msg s =
     (let buf = mavlink_msg_to_send_buffer msg;
          writelen = min (length buf) (uart_takes s (length (writes s)))
      in (if writelen \<noteq> length buf then 1 else 0, s\<lparr>writes := writes s @ [take writelen buf]\<rparr>))"

text \<open>
  Packing a message and sending it. Of the structure only the packet and its header reach the wire (\<open>wire_bytes\<close>), so its
  initial content does not matter.
\<close>

definition send_packed :: "u8 \<Rightarrow> u8 \<Rightarrow> bytes \<Rightarrow> u8 \<Rightarrow> 'a mavlink_link_scheme \<Rightarrow> int \<times> 'a mavlink_link_scheme" where
  "send_packed mid crc_extra packet component s =
     (let (len, msg, st) = mavlink_msg_pack mid crc_extra packet (sysid s) component new_message (rx_status (link_rx s))
      in mavlink_missionlib_send_message msg (s\<lparr>link_rx := (link_rx s)\<lparr>rx_status := st\<rparr>\<rparr>))"

definition MAVLINK_MSG_STATUSTEXT_FIELD_TEXT_LEN :: nat where "MAVLINK_MSG_STATUSTEXT_FIELD_TEXT_LEN = 50"

text \<open>A text is cut to 49 bytes; a text of fewer than two bytes is not sent.\<close>

definition gcs_statustext :: "c_string \<Rightarrow> bytes \<Rightarrow> mavlink_statustext_t" where
  "gcs_statustext str junk =
     (let i = min (MAVLINK_MSG_STATUSTEXT_FIELD_TEXT_LEN - 1) (length str)
      in \<lparr>st_severity = hd junk, st_text = take i str @ [0] @ drop (Suc i) (tl junk)\<rparr>)"

definition mavlink_missionlib_send_gcs_string :: "c_string \<Rightarrow> 'a mavlink_link_scheme \<Rightarrow> int \<times> 'a mavlink_link_scheme" where
  "mavlink_missionlib_send_gcs_string str s =
     (if 1 < min (MAVLINK_MSG_STATUSTEXT_FIELD_TEXT_LEN - 1) (length str)
      then send_packed MAVLINK_MSG_ID_STATUSTEXT 83 (statustext_packet (gcs_statustext str (stack_bytes s))) (compid s) s
      else (1, s))"

subsection \<open>What a sent message does\<close>

text \<open>The port takes every message.\<close>

definition uart_open :: "'a mavlink_link_scheme \<Rightarrow> bool" where
  "uart_open s \<longleftrightarrow> (\<forall>k. 263 \<le> uart_takes s k)"

definition next_seq :: "'a mavlink_link_scheme \<Rightarrow> u8" where
  "next_seq s = current_tx_seq (rx_status (link_rx s))"

definition tx_advance :: "mavlink_rx \<Rightarrow> mavlink_rx" where
  "tx_advance r = r\<lparr>rx_status := (rx_status r)\<lparr>current_tx_seq := current_tx_seq (rx_status r) + 1\<rparr>\<rparr>"

lemma tx_advance_ready [simp]: "rx_ready (tx_advance r) \<longleftrightarrow> rx_ready r" "rx_msg (tx_advance r) = rx_msg r"
  by (simp_all add: rx_ready_def parser_of_def tx_advance_def)

lemma sent_frame_length: "length (sent_frame sq sid cid mid p) = length p + 8"
  by (simp add: sent_frame_def Let_def Mavlink_Frame.frame_def header_def)

context wire_message
begin

lemma pack_status: "snd (snd (mavlink_msg_pack mid crc_extra (enc x) sid cid msg st)) = st\<lparr>current_tx_seq := current_tx_seq st + 1\<rparr>"
  by (simp add: mavlink_msg_pack_def mavlink_finalize_message_chan_def Let_def)

lemma sent:
  assumes "proper x" "uart_open s"
  shows "send_packed mid crc_extra (enc x) c s =
    (0, s\<lparr>link_rx := tx_advance (link_rx s), writes := writes s @ [sent_frame (next_seq s) (sysid s) c mid (enc x)]\<rparr>)"
proof -
  obtain l m st where p: "mavlink_msg_pack mid crc_extra (enc x) (sysid s) c new_message (rx_status (link_rx s)) = (l, m, st)"
    by (metis surj_pair)
  have "length (payload new_message) = PAYLOAD_BYTES" by (simp add: new_message_def)
  then have b: "mavlink_msg_to_send_buffer m = sent_frame (next_seq s) (sysid s) c mid (enc x)"
    using wire_bytes [OF assms(1), of new_message "sysid s" c "rx_status (link_rx s)"] p by (simp add: next_seq_def)
  have st: "st = (rx_status (link_rx s))\<lparr>current_tx_seq := current_tx_seq (rx_status (link_rx s)) + 1\<rparr>"
    using pack_status [of x "sysid s" c new_message "rx_status (link_rx s)"] p by simp
  have "length (enc x) + 8 \<le> uart_takes s (length (writes s))"
    using short [OF assms(1)] assms(2) by (auto simp: uart_open_def intro: order_trans [of _ 263])
  then show ?thesis
    by (simp add: send_packed_def p mavlink_missionlib_send_message_def b sent_frame_length st tx_advance_def Let_def)
qed

end

text \<open>A text of two bytes and more is one status text on the wire.\<close>

lemma gcs_string_sent:
  assumes "uart_open s" "1 < length str" "length (stack_bytes s) = 51"
  shows "mavlink_missionlib_send_gcs_string str s =
    (0, s\<lparr>link_rx := tx_advance (link_rx s), writes := writes s @ [sent_frame (next_seq s) (sysid s) (compid s) MAVLINK_MSG_ID_STATUSTEXT
       (statustext_packet (gcs_statustext str (stack_bytes s)))]\<rparr>)"
proof -
  have "length (st_text (gcs_statustext str (stack_bytes s))) = 50"
    using assms(3) by (simp add: gcs_statustext_def MAVLINK_MSG_STATUSTEXT_FIELD_TEXT_LEN_def Let_def)
  then show ?thesis
    using statustext_msg.sent [OF _ assms(1)] assms(2)
    by (simp add: mavlink_missionlib_send_gcs_string_def MAVLINK_MSG_STATUSTEXT_FIELD_TEXT_LEN_def)
qed

text \<open>Several messages one after another arrive in order.\<close>

lemma parse_two:
  assumes "parse_chars as rx = (ms, rx1)" "parse_chars bs rx1 = (ns, rx2)"
  shows "parse_chars (as @ bs) rx = (ms @ ns, rx2)"
  using assms by (simp add: parse_chars_append)

definition from_sender :: "u8 \<Rightarrow> u8 \<Rightarrow> u8 \<Rightarrow> mavlink_message \<Rightarrow> bool" where
  "from_sender sid cid mid m \<longleftrightarrow> msgid m = mid \<and> msg_sysid m = sid \<and> msg_compid m = cid"

context wire_message
begin

lemma one_arrives:
  assumes "proper x" "rx_ready rx"
  obtains m rx' where "parse_chars (sent_frame sq sid cid mid (enc x)) rx = ([m], rx')" "from_sender sid cid mid m"
    "dec (payload m) = x" "rx_ready rx'"
proof -
  obtain rx' where "parse_chars (sent_frame sq sid cid mid (enc x)) rx = ([delivered sq sid cid mid (enc x)
      (frame_crc (header sq sid cid mid (enc x)) (enc x)) (payload (rx_msg rx))], rx')" "rx_ready rx'"
    by (rule sent_frame_parsed [OF assms(2) short [OF assms(1)]])
  then show ?thesis using dec_enc [OF assms(1)] by (intro that) (auto simp: delivered_def from_sender_def)
qed

lemma all_arrive:
  assumes "rx_ready rx" "\<And>x. x \<in> set xs \<Longrightarrow> proper (f x)"
  shows "\<exists>ms rx'. parse_chars (concat (map (\<lambda>x. sent_frame (sq x) sid cid mid (enc (f x))) xs)) rx = (ms, rx') \<and>
    map (\<lambda>m. dec (payload m)) ms = map f xs \<and> list_all (from_sender sid cid mid) ms \<and> rx_ready rx'"
  using assms
proof (induction xs arbitrary: rx)
  case (Cons x xs)
  have px: "proper (f x)" using Cons.prems(2) by simp
  obtain m rx1 where m: "parse_chars (sent_frame (sq x) sid cid mid (enc (f x))) rx = ([m], rx1)" "from_sender sid cid mid m"
    "dec (payload m) = f x" "rx_ready rx1"
    by (rule one_arrives [OF px Cons.prems(1)])
  obtain ms rx2 where ms: "parse_chars (concat (map (\<lambda>x. sent_frame (sq x) sid cid mid (enc (f x))) xs)) rx1 = (ms, rx2)"
    "map (\<lambda>m. dec (payload m)) ms = map f xs" "list_all (from_sender sid cid mid) ms" "rx_ready rx2"
    using Cons.IH [OF m(4)] Cons.prems(2) by auto
  show ?case
    using parse_two [OF m(1) ms(1)] m ms by (intro exI [of _ "m # ms"] exI [of _ rx2]) simp
qed simp

end

end
