(* ===== verification/Mavlink_Param.thy ===== *)
theory Mavlink_Param
  imports Mavlink_Msg Commander_Command
begin

text \<open>
  The parameter component of the telemetry application (\<open>src/apps/mavlink/mavlink_parameters.c\<close>): the queue that sends all
  parameters one at a time, reading and setting single parameters, and storing them in and loading them from the file.
  \<open>None\<close> is an access outside an object or a conversion that C leaves undefined.
\<close>

section \<open>State\<close>

text \<open>
  The link is extended by the parameter store, the index of the queue and the file; \<open>pm_opens k\<close> is what the \<open>k\<close>-th \<open>open\<close> of
  the file finds: no device, or a device with room for so many bytes.
\<close>

record mavlink_pm = mavlink_link +
  pm_store :: param_store
  mavlink_param_queue_index :: u32
  mavlink_parameter_file :: "bytes option"
  pm_opens :: "nat \<Rightarrow> nat option"
  pm_open_calls :: nat

definition MAVLINK_TYPE_INT32_T :: u8 where "MAVLINK_TYPE_INT32_T = 6"
definition MAVLINK_TYPE_FLOAT :: u8 where "MAVLINK_TYPE_FLOAT = 9"
definition MAV_COMP_ID_ALL :: u8 where "MAV_COMP_ID_ALL = 0"
definition PARAM_ID_LEN :: nat where "PARAM_ID_LEN = 16"

text \<open>\<open>strncpy\<close> fills up with zeros; a string ends before its first zero.\<close>

definition strncpy :: "nat \<Rightarrow> c_string \<Rightarrow> bytes" where
  "strncpy n src = take n (src @ replicate n 0)"

definition c_str :: "bytes \<Rightarrow> c_string" where
  "c_str bs = takeWhile (\<lambda>b. b \<noteq> 0) bs"

definition for_us :: "u8 \<Rightarrow> u8 \<Rightarrow> 'a mavlink_link_scheme \<Rightarrow> bool" where
  "for_us target_sys target_comp s \<longleftrightarrow> target_sys = sysid s \<and> (target_comp = compid s \<or> target_comp = MAV_COMP_ID_ALL)"

section \<open>Sending parameters\<close>

definition mavlink_type_of :: "param_table \<Rightarrow> param_t \<Rightarrow> u8" where
  "mavlink_type_of T p = (if param_type T p = PARAM_TYPE_INT32 then MAVLINK_TYPE_INT32_T else MAVLINK_TYPE_FLOAT)"

text \<open>The value is copied to a \<open>float\<close>, whatever its type; a longer value does not fit.\<close>

definition read_value :: "param_table \<Rightarrow> param_t \<Rightarrow> 'a mavlink_pm_scheme \<Rightarrow> (int \<times> float_bits) option" where
  "read_value T p s =
     Option.bind (param_get T p True (pm_store s)) (\<lambda>(ret, bs).
       if length bs \<le> 4 then Some (ret, un_le32 (bs @ drop (length bs) (take 4 (stack_bytes s)))) else None)"

definition mavlink_pm_send_param :: "param_table \<Rightarrow> param_t \<Rightarrow> 'a mavlink_pm_scheme \<Rightarrow> (int \<times> 'a mavlink_pm_scheme) option" where
  "mavlink_pm_send_param T p s =
     (if p = PARAM_INVALID then Some (1, s)
      else Option.bind (param_name T p) (\<lambda>name.
           Option.bind (read_value T p s) (\<lambda>(ret, val_buf).
             if ret \<noteq> OK then Some (ret, s)
             else Some (send_packed MAVLINK_MSG_ID_PARAM_VALUE 220
               (param_value_packet \<lparr>pv_param_value = val_buf, pv_param_count = ucast (param_count T),
                  pv_param_index = word_of_int (param_get_index T p), pv_param_id = strncpy PARAM_ID_LEN name,
                  pv_param_type = mavlink_type_of T p\<rparr>) (compid s) s))))"

definition mavlink_pm_send_param_for_index :: "param_table \<Rightarrow> u16 \<Rightarrow> 'a mavlink_pm_scheme \<Rightarrow> (int \<times> 'a mavlink_pm_scheme) option" where
  "mavlink_pm_send_param_for_index T i s = mavlink_pm_send_param T (param_for_index T (ucast i)) s"

definition mavlink_pm_send_param_for_name :: "param_table \<Rightarrow> c_string \<Rightarrow> 'a mavlink_pm_scheme \<Rightarrow> (int \<times> 'a mavlink_pm_scheme) option" where
  "mavlink_pm_send_param_for_name T name s = mavlink_pm_send_param T (param_find T name) s"

text \<open>
  The main thread sends the next parameter of the queue and then counts; a request of the receiving thread may come in between,
  so the two statements are separate.
\<close>

definition queued_send_next :: "param_table \<Rightarrow> 'a mavlink_pm_scheme \<Rightarrow> 'a mavlink_pm_scheme option" where
  "queued_send_next T s = map_option snd (mavlink_pm_send_param T (param_for_index T (mavlink_param_queue_index s)) s)"

definition queued_send_count :: "'a mavlink_pm_scheme \<Rightarrow> 'a mavlink_pm_scheme" where
  "queued_send_count s = s\<lparr>mavlink_param_queue_index := mavlink_param_queue_index s + 1\<rparr>"

definition mavlink_pm_queued_send :: "param_table \<Rightarrow> 'a mavlink_pm_scheme \<Rightarrow> (int \<times> 'a mavlink_pm_scheme) option" where
  "mavlink_pm_queued_send T s =
     (if mavlink_param_queue_index s < param_count T
      then map_option (\<lambda>t. (0, queued_send_count t)) (queued_send_next T s)
      else Some (1, s))"

definition mavlink_pm_start_queued_send :: "'a mavlink_pm_scheme \<Rightarrow> 'a mavlink_pm_scheme" where
  "mavlink_pm_start_queued_send s = s\<lparr>mavlink_param_queue_index := 0\<rparr>"

text \<open>All at once; the pauses in between are not modelled.\<close>

definition mavlink_pm_callback :: "param_table \<Rightarrow> param_t \<Rightarrow> param_store \<times> 'a mavlink_pm_scheme option \<Rightarrow> param_store \<times> 'a mavlink_pm_scheme option" where
  "mavlink_pm_callback T p = (\<lambda>(st, s). (st, map_option snd (Option.bind s (mavlink_pm_send_param T p))))"

definition mavlink_pm_send_all_params :: "param_table \<Rightarrow> 'a mavlink_pm_scheme \<Rightarrow> 'a mavlink_pm_scheme option" where
  "mavlink_pm_send_all_params T s = snd (param_foreach T (mavlink_pm_callback T) False (pm_store s, Some s))"

section \<open>The file\<close>

definition mavlink_pm_save_eeprom :: "param_table \<Rightarrow> 'a mavlink_pm_scheme \<Rightarrow> (int \<times> 'a mavlink_pm_scheme) option" where
  "mavlink_pm_save_eeprom T s =
     (let s1 = s\<lparr>mavlink_parameter_file := None, pm_open_calls := Suc (pm_open_calls s)\<rparr>
      in case pm_opens s (pm_open_calls s) of
           None \<Rightarrow> Some (-1, s1)
         | Some space \<Rightarrow>
             map_option (\<lambda>(result, f, st).
               if result \<noteq> 0 then (-2, s1\<lparr>pm_store := st\<rparr>)
               else (0, s1\<lparr>pm_store := st, mavlink_parameter_file := Some (written f)\<rparr>))
             (param_export T \<lparr>written = [], room = space\<rparr> False (pm_store s1)))"

definition mavlink_pm_load_eeprom :: "param_table \<Rightarrow> bson_node \<Rightarrow> 'a mavlink_pm_scheme \<Rightarrow> (int \<times> 'a mavlink_pm_scheme) option" where
  "mavlink_pm_load_eeprom T junk s =
     (let s1 = s\<lparr>pm_open_calls := Suc (pm_open_calls s)\<rparr>
      in case pm_opens s (pm_open_calls s) of
           None \<Rightarrow> Some (-1, s1)
         | Some space \<Rightarrow>
             (case mavlink_parameter_file s of
                None \<Rightarrow> Some (1, s1)
              | Some file \<Rightarrow>
                  map_option (\<lambda>(result, st). (if result \<noteq> 0 then -2 else 0, s1\<lparr>pm_store := st\<rparr>))
                    (param_load T file junk (pm_store s1))))"

section \<open>The message handler\<close>

definition say :: "string \<Rightarrow> 'a mavlink_pm_scheme \<Rightarrow> 'a mavlink_pm_scheme" where
  "say text s = snd (mavlink_missionlib_send_gcs_string (ascii text) s)"

definition pm_param_set :: "param_table \<Rightarrow> mavlink_param_set_t \<Rightarrow> 'a mavlink_pm_scheme \<Rightarrow> 'a mavlink_pm_scheme option" where
  "pm_param_set T x s =
     (if for_us (ps_target_system x) (ps_target_component x) s
      then (let name = c_str (strncpy PARAM_ID_LEN (c_str (ps_param_id x))); p = param_find T name
            in if p = PARAM_INVALID
               then Some (snd (mavlink_missionlib_send_gcs_string (ascii ''[mavlink pm] unknown: '' @ name) s))
               else Option.bind (param_set T p (le32 (ps_param_value x)) (pm_store s)) (\<lambda>(r, st).
                    map_option snd (mavlink_pm_send_param T p (s\<lparr>pm_store := st\<rparr>))))
      else Some s)"

definition pm_param_request_read :: "param_table \<Rightarrow> mavlink_param_request_read_t \<Rightarrow> 'a mavlink_pm_scheme \<Rightarrow> 'a mavlink_pm_scheme option" where
  "pm_param_request_read T x s =
     (if for_us (prr_target_system x) (prr_target_component x) s
      then map_option snd
        (if prr_param_index x = -1
         then mavlink_pm_send_param_for_name T (c_str (strncpy PARAM_ID_LEN (c_str (prr_param_id x)))) s
         else mavlink_pm_send_param_for_index T (prr_param_index x) s)
      else Some s)"

definition pm_storage :: "param_table \<Rightarrow> bson_node \<Rightarrow> int \<Rightarrow> 'a mavlink_pm_scheme \<Rightarrow> 'a mavlink_pm_scheme option" where
  "pm_storage T junk request s =
     (if request = 0
      then map_option (\<lambda>(r, t).
             if r = OK then say ''[mavlink pm] OK loaded EEPROM params'' t
             else if r = 1 then say ''[mavlink pm] No stored parameters to load'' t
             else if r < -1 then say ''[mavlink pm] ERR loading params from EEPROM'' t
             else say ''[mavlink pm] ERR loading params, no EEPROM found'' t) (mavlink_pm_load_eeprom T junk s)
      else if request = 1
      then map_option (\<lambda>(r, t).
             if r = OK then say ''[mavlink pm] OK params written to EEPROM'' t
             else if r < -1 then say ''[mavlink pm] ERR writing params to EEPROM'' t
             else say ''[mavlink pm] ERR writing params, no EEPROM found'' t) (mavlink_pm_save_eeprom T s)
      else Some (say ''[mavlink pm] refusing unsupported STOR request'' s))"

definition pm_command_long :: "param_table \<Rightarrow> bson_node \<Rightarrow> mavlink_command_long_t \<Rightarrow> 'a mavlink_pm_scheme \<Rightarrow> 'a mavlink_pm_scheme option" where
  "pm_command_long T junk x s =
     (if for_us (cl_target_system x) (cl_target_component x) s \<and> cl_command x = MAV_CMD_PREFLIGHT_STORAGE
      then Option.bind (f32_to_int32 (cl_param1 x)) (\<lambda>request. pm_storage T junk request s)
      else Some s)"

definition mavlink_pm_message_handler :: "param_table \<Rightarrow> bson_node \<Rightarrow> mavlink_message \<Rightarrow> 'a mavlink_pm_scheme \<Rightarrow> 'a mavlink_pm_scheme option" where
  "mavlink_pm_message_handler T junk msg s =
     (if msgid msg = MAVLINK_MSG_ID_PARAM_REQUEST_LIST
      then Some (say ''[mavlink pm] sending list'' (mavlink_pm_start_queued_send s))
      else if msgid msg = MAVLINK_MSG_ID_PARAM_SET then pm_param_set T (mavlink_msg_param_set_decode (payload msg)) s
      else if msgid msg = MAVLINK_MSG_ID_PARAM_REQUEST_READ
      then pm_param_request_read T (mavlink_msg_param_request_read_decode (payload msg)) s
      else if msgid msg = MAVLINK_MSG_ID_COMMAND_LONG
      then pm_command_long T junk (mavlink_msg_command_long_decode (payload msg)) s
      else Some s)"

section \<open>What is sent for a parameter\<close>

definition value_of :: "param_table \<Rightarrow> param_store \<Rightarrow> param_t \<Rightarrow> u32" where
  "value_of T st p = (case changed st p of None \<Rightarrow> default_bits T p | Some w \<Rightarrow> w)"

definition param_report :: "param_table \<Rightarrow> param_store \<Rightarrow> param_t \<Rightarrow> mavlink_param_value_t" where
  "param_report T st p =
     \<lparr>pv_param_value = value_of T st p, pv_param_count = ucast (param_count T), pv_param_index = word_of_int (sint p),
      pv_param_id = strncpy PARAM_ID_LEN (pi_name (info T p)), pv_param_type = mavlink_type_of T p\<rparr>"

lemma strncpy_length [simp]: "length (strncpy n src) = n"
  by (simp add: strncpy_def)

definition link_good :: "param_table \<Rightarrow> 'a mavlink_pm_scheme \<Rightarrow> bool" where
  "link_good T s \<longleftrightarrow> param_inv T (pm_store s) \<and> uart_open s \<and> length (stack_bytes s) = 51"

text \<open>A message was sent: the port, the sequence number, and nothing else.\<close>

definition after_sending :: "u8 \<Rightarrow> u8 \<Rightarrow> bytes \<Rightarrow> 'a mavlink_pm_scheme \<Rightarrow> 'a mavlink_pm_scheme" where
  "after_sending c mid p s =
     s\<lparr>link_rx := tx_advance (link_rx s), writes := writes s @ [sent_frame (next_seq s) (sysid s) c mid p]\<rparr>"

lemma after_sending_fields [simp]:
  "pm_store (after_sending c mid p s) = pm_store s" "sysid (after_sending c mid p s) = sysid s"
  "compid (after_sending c mid p s) = compid s" "stack_bytes (after_sending c mid p s) = stack_bytes s"
  "mavlink_param_queue_index (after_sending c mid p s) = mavlink_param_queue_index s"
  "next_seq (after_sending c mid p s) = next_seq s + 1"
  "writes (after_sending c mid p s) = writes s @ [sent_frame (next_seq s) (sysid s) c mid p]"
  "link_good T (after_sending c mid p s) \<longleftrightarrow> link_good T s"
  "uart_open (after_sending c mid p s) \<longleftrightarrow> uart_open s"
  by (simp_all add: after_sending_def next_seq_def tx_advance_def link_good_def uart_open_def)

lemma report_proper: "length (pv_param_id (param_report T st p)) = 16"
  by (simp add: param_report_def PARAM_ID_LEN_def)

lemma send_param_report:
  assumes "link_good T s" "handle_in_range T p"
  shows "mavlink_pm_send_param T p s =
    Some (0, after_sending (compid s) MAVLINK_MSG_ID_PARAM_VALUE (param_value_packet (param_report T (pm_store s) p)) s)"
proof -
  have inv: "param_inv T (pm_store s)" and port: "uart_open s" using assms(1) by (simp_all add: link_good_def)
  then have pt: "plain_table T" by (simp add: param_inv_def)
  have read: "read_value T p s = Some (0, value_of T (pm_store s) p)"
    using param_get_value [OF inv assms(2)] by (simp add: read_value_def value_of_def)
  have name: "param_name T p = Some (pi_name (info T p))" using assms(2) by (simp add: param_name_def)
  have report: "\<lparr>pv_param_value = value_of T (pm_store s) p, pv_param_count = ucast (param_count T),
      pv_param_index = word_of_int (param_get_index T p), pv_param_id = strncpy PARAM_ID_LEN (pi_name (info T p)),
      pv_param_type = mavlink_type_of T p\<rparr> = param_report T (pm_store s) p"
    using assms(2) by (simp add: param_report_def param_get_index_def)
  show ?thesis
    using param_find_name(2) [OF pt assms(2)] param_value_msg.sent [OF report_proper [of T "pm_store s" p] port, of "compid s"]
    by (simp add: mavlink_pm_send_param_def read name report OK_def after_sending_def)
qed

section \<open>The queue\<close>

text \<open>\<open>n\<close> calls of \<open>mavlink_pm_queued_send\<close>, as the main loop makes them.\<close>

fun queued_sends :: "nat \<Rightarrow> param_table \<Rightarrow> 'a mavlink_pm_scheme \<Rightarrow> 'a mavlink_pm_scheme option" where
  "queued_sends 0 T s = Some s"
| "queued_sends (Suc n) T s = Option.bind (mavlink_pm_queued_send T s) (\<lambda>(r, t). queued_sends n T t)"

definition report_frame :: "param_table \<Rightarrow> 'a mavlink_pm_scheme \<Rightarrow> nat \<Rightarrow> nat \<Rightarrow> bytes" where
  "report_frame T s i k = sent_frame (next_seq s + of_nat (k - i)) (sysid s) (compid s) MAVLINK_MSG_ID_PARAM_VALUE
     (param_value_packet (param_report T (pm_store s) (of_nat k)))"

lemma queued_send_one:
  assumes "link_good T s" "mavlink_param_queue_index s = of_nat i" "i < length T"
  shows "mavlink_pm_queued_send T s = Some (0, queued_send_count (after_sending (compid s) MAVLINK_MSG_ID_PARAM_VALUE
    (param_value_packet (param_report T (pm_store s) (of_nat i))) s))"
proof -
  have pt: "plain_table T" using assms(1) by (simp add: link_good_def param_inv_def)
  then have l: "length T < 2 ^ 31" by (simp add: plain_table_def)
  have u: "unat (of_nat i :: u32) = i" using assms(3) l by (intro small_size(1)) simp
  then have r: "handle_in_range T (of_nat i)" using in_range_length [OF pt] assms(3) by simp
  then have "param_for_index T (of_nat i) = of_nat i" "(of_nat i :: u32) < param_count T"
    by (simp_all add: param_for_index_def handle_in_range_def param_count_def)
  then show ?thesis using send_param_report [OF assms(1) r] assms(2) by (simp add: mavlink_pm_queued_send_def queued_send_next_def)
qed

lemma queued_sends_from:
  assumes "link_good T s" "mavlink_param_queue_index s = of_nat i" "i \<le> length T"
  shows "\<exists>s'. queued_sends n T s = Some s' \<and> pm_store s' = pm_store s \<and> link_good T s' \<and>
    mavlink_param_queue_index s' = of_nat (min (i + n) (length T)) \<and>
    writes s' = writes s @ map (report_frame T s i) [i ..< min (i + n) (length T)]"
  using assms
proof (induction n arbitrary: i s)
  case 0
  then show ?case by simp
next
  case (Suc n)
  show ?case
  proof (cases "i < length T")
    case True
    let ?s = "queued_send_count (after_sending (compid s) MAVLINK_MSG_ID_PARAM_VALUE
      (param_value_packet (param_report T (pm_store s) (of_nat i))) s)"
    have f: "link_good T ?s" "mavlink_param_queue_index ?s = of_nat (Suc i)" "writes ?s = writes s @ [report_frame T s i i]"
      "pm_store ?s = pm_store s" "sysid ?s = sysid s" "compid ?s = compid s" "next_seq ?s = next_seq s + 1"
      using Suc.prems(1,2) by (simp_all add: queued_send_count_def report_frame_def link_good_def uart_open_def after_sending_def
          next_seq_def tx_advance_def)
    have r: "report_frame T ?s (Suc i) k = report_frame T s i k" if "Suc i \<le> k" for k
    proof -
      have "k - i = Suc (k - Suc i)" using that by simp
      then have "(of_nat (k - i) :: u8) = 1 + of_nat (k - Suc i)" by (simp only: of_nat_Suc)
      then show ?thesis using f(4-7) by (simp add: report_frame_def add.assoc del: of_nat_diff)
    qed
    obtain s' where s': "queued_sends n T ?s = Some s'" "pm_store s' = pm_store ?s" "link_good T s'"
      "mavlink_param_queue_index s' = of_nat (min (Suc i + n) (length T))"
      "writes s' = writes ?s @ map (report_frame T ?s (Suc i)) [Suc i ..< min (Suc i + n) (length T)]"
      using Suc.IH [OF f(1,2)] True by auto
    have "[i ..< min (i + Suc n) (length T)] = i # [Suc i ..< min (Suc i + n) (length T)]" using True by (simp add: upt_rec)
    then show ?thesis
      using s' f queued_send_one [OF Suc.prems(1,2) True] r by (simp cong: map_cong)
  next
    case False
    have "plain_table T" using Suc.prems(1) by (simp add: link_good_def param_inv_def)
    then have "\<not> of_nat i < param_count T"
      using False Suc.prems(3) by (simp add: param_count_def param_info_count_def)
    then show ?thesis using Suc.IH [OF Suc.prems] Suc.prems False by (simp add: mavlink_pm_queued_send_def)
  qed
qed

lemma ascii_length [simp]: "length (ascii t) = length t"
  by (simp add: ascii_def)

lemma text_sent:
  assumes "link_good T s" "1 < length str"
  shows "snd (mavlink_missionlib_send_gcs_string str s) =
    after_sending (compid s) MAVLINK_MSG_ID_STATUSTEXT (statustext_packet (gcs_statustext str (stack_bytes s))) s"
  using gcs_string_sent [of s str] assms by (simp add: link_good_def after_sending_def)

lemma statustext_proper: "link_good T s \<Longrightarrow> length (st_text (gcs_statustext str (stack_bytes s))) = 50"
  by (simp add: link_good_def gcs_statustext_def MAVLINK_MSG_STATUSTEXT_FIELD_TEXT_LEN_def Let_def)

lemma start_fields [simp]:
  "pm_store (mavlink_pm_start_queued_send s) = pm_store s" "writes (mavlink_pm_start_queued_send s) = writes s"
  "mavlink_param_queue_index (mavlink_pm_start_queued_send s) = 0" "stack_bytes (mavlink_pm_start_queued_send s) = stack_bytes s"
  "compid (mavlink_pm_start_queued_send s) = compid s" "sysid (mavlink_pm_start_queued_send s) = sysid s"
  "next_seq (mavlink_pm_start_queued_send s) = next_seq s" "link_good T (mavlink_pm_start_queued_send s) \<longleftrightarrow> link_good T s"
  by (simp_all add: mavlink_pm_start_queued_send_def link_good_def uart_open_def next_seq_def)

text \<open>The request for the list starts the queue and is answered with a text.\<close>

lemma list_requested:
  assumes "link_good T s" "msgid msg = MAVLINK_MSG_ID_PARAM_REQUEST_LIST"
  obtains s' where "mavlink_pm_message_handler T junk msg s = Some s'" "link_good T s'" "mavlink_param_queue_index s' = 0"
    "pm_store s' = pm_store s" "sysid s' = sysid s" "compid s' = compid s"
    "writes s' = writes s @ [sent_frame (next_seq s) (sysid s) (compid s) MAVLINK_MSG_ID_STATUSTEXT
       (statustext_packet (gcs_statustext (ascii ''[mavlink pm] sending list'') (stack_bytes s)))]"
proof -
  let ?s = "mavlink_pm_start_queued_send s"
  let ?t = "after_sending (compid s) MAVLINK_MSG_ID_STATUSTEXT
      (statustext_packet (gcs_statustext (ascii ''[mavlink pm] sending list'') (stack_bytes s))) ?s"
  have "say ''[mavlink pm] sending list'' ?s = ?t"
    using text_sent [of T ?s "ascii ''[mavlink pm] sending list''"] assms(1) by (simp add: say_def)
  then show ?thesis using assms by (intro that [of ?t]) (simp_all add: mavlink_pm_message_handler_def)
qed

text \<open>What a station receives of the reports from number \<open>i\<close> on.\<close>

lemma reports_received:
  assumes "rx_ready rx"
  shows "\<exists>ms rx'. parse_chars (concat (map (report_frame T s i) is)) rx = (ms, rx') \<and>
    map (\<lambda>m. mavlink_msg_param_value_decode (payload m)) ms = map (\<lambda>k. param_report T (pm_store s) (of_nat k)) is \<and>
    list_all (from_sender (sysid s) (compid s) MAVLINK_MSG_ID_PARAM_VALUE) ms \<and> rx_ready rx'"
  using param_value_msg.all_arrive [OF assms, of "is" "\<lambda>k. param_report T (pm_store s) (of_nat k)"
      "\<lambda>k. next_seq s + of_nat (k - i)" "sysid s" "compid s"] report_proper
  unfolding report_frame_def by blast

text \<open>
  C31. A request for the parameter list is answered completely: with as many calls of the queue as there are parameters a station
  that parses what was written receives, behind the text, the value, number, type and name of every parameter exactly once, in
  order.
\<close>
theorem param_list_complete:
  assumes "link_good T s" "msgid msg = MAVLINK_MSG_ID_PARAM_REQUEST_LIST" "rx_ready station"
  shows "\<exists>s' t ms station'.
    Option.bind (mavlink_pm_message_handler T junk msg s) (queued_sends (length T) T) = Some s' \<and>
    parse_chars (concat (drop (length (writes s)) (writes s'))) station = (t # ms, station') \<and>
    from_sender (sysid s) (compid s) MAVLINK_MSG_ID_STATUSTEXT t \<and>
    list_all (from_sender (sysid s) (compid s) MAVLINK_MSG_ID_PARAM_VALUE) ms \<and>
    map (\<lambda>m. mavlink_msg_param_value_decode (payload m)) ms = map (\<lambda>i. param_report T (pm_store s) (of_nat i)) [0 ..< length T]"
proof -
  obtain s1 where s1: "mavlink_pm_message_handler T junk msg s = Some s1" "link_good T s1" "mavlink_param_queue_index s1 = 0"
    "pm_store s1 = pm_store s" "sysid s1 = sysid s" "compid s1 = compid s"
    "writes s1 = writes s @ [sent_frame (next_seq s) (sysid s) (compid s) MAVLINK_MSG_ID_STATUSTEXT
       (statustext_packet (gcs_statustext (ascii ''[mavlink pm] sending list'') (stack_bytes s)))]"
    by (rule list_requested [OF assms(1,2)])
  obtain s2 where s2: "queued_sends (length T) T s1 = Some s2" "writes s2 = writes s1 @ map (report_frame T s1 0) [0 ..< length T]"
    using queued_sends_from [OF s1(2), of 0 "length T"] s1(3) by auto
  obtain t st1 where t: "parse_chars (sent_frame (next_seq s) (sysid s) (compid s) MAVLINK_MSG_ID_STATUSTEXT
       (statustext_packet (gcs_statustext (ascii ''[mavlink pm] sending list'') (stack_bytes s)))) station = ([t], st1)"
    "from_sender (sysid s) (compid s) MAVLINK_MSG_ID_STATUSTEXT t" "rx_ready st1"
    by (rule statustext_msg.one_arrives [OF statustext_proper [OF assms(1)] assms(3)])
  obtain ms st2 where ms: "parse_chars (concat (map (report_frame T s1 0) [0 ..< length T])) st1 = (ms, st2)"
    "map (\<lambda>m. mavlink_msg_param_value_decode (payload m)) ms = map (\<lambda>k. param_report T (pm_store s1) (of_nat k)) [0 ..< length T]"
    "list_all (from_sender (sysid s1) (compid s1) MAVLINK_MSG_ID_PARAM_VALUE) ms"
    using reports_received [OF t(3)] by blast
  show ?thesis
    using s1 s2 t(2) ms parse_two [OF t(1) ms(1)] by (intro exI [of _ s2] exI [of _ t] exI [of _ ms] exI [of _ st2]) simp
qed

definition example_pm :: mavlink_pm where
  "example_pm = \<lparr>link_rx = new_rx, sysid = 100, compid = 50, system_type = 2, writes = [], uart_takes = (\<lambda>k. 300),
     stack_bytes = replicate 51 0, pm_store = example_changed, mavlink_param_queue_index = 1, mavlink_parameter_file = None,
     pm_opens = (\<lambda>k. Some 1000), pm_open_calls = 0\<rparr>"

lemma example_pm_good: "link_good example_table example_pm"
  by (simp add: link_good_def example_pm_def uart_open_def example_changed_inv)

lemma param_list_complete_witness:
  "\<forall>junk. \<exists>s' t ms station'.
    Option.bind (mavlink_pm_message_handler example_table junk (new_message\<lparr>msgid := MAVLINK_MSG_ID_PARAM_REQUEST_LIST\<rparr>) example_pm)
      (queued_sends (length example_table) example_table) = Some s' \<and>
    parse_chars (concat (drop (length (writes example_pm)) (writes s'))) new_rx = (t # ms, station') \<and>
    from_sender (sysid example_pm) (compid example_pm) MAVLINK_MSG_ID_STATUSTEXT t \<and>
    list_all (from_sender (sysid example_pm) (compid example_pm) MAVLINK_MSG_ID_PARAM_VALUE) ms \<and>
    map (\<lambda>m. mavlink_msg_param_value_decode (payload m)) ms =
      map (\<lambda>i. param_report example_table (pm_store example_pm) (of_nat i)) [0 ..< length example_table]"
  by (intro allI, rule param_list_complete [OF example_pm_good _ new_rx_ready]) simp

text \<open>
  A request for the list that arrives while the main thread sends a parameter of the queue, before it counts, loses the first
  parameter: however long the queue runs, a station receives the values of the parameters from number 1 on only.
\<close>
theorem restart_loses_first_parameter:
  assumes "link_good T s" "mavlink_param_queue_index s = of_nat i" "i < length T"
    and "msgid msg = MAVLINK_MSG_ID_PARAM_REQUEST_LIST" "rx_ready station"
  shows "\<exists>s1 s2 s3 ms station'.
    queued_send_next T s = Some s1 \<and> mavlink_pm_message_handler T junk msg s1 = Some s2 \<and>
    queued_sends n T (queued_send_count s2) = Some s3 \<and>
    parse_chars (concat (drop (length (writes s2)) (writes s3))) station = (ms, station') \<and>
    map (\<lambda>m. mavlink_msg_param_value_decode (payload m)) ms =
      map (\<lambda>k. param_report T (pm_store s) (of_nat k)) [1 ..< min (Suc n) (length T)]"
proof -
  let ?s1 = "after_sending (compid s) MAVLINK_MSG_ID_PARAM_VALUE (param_value_packet (param_report T (pm_store s) (of_nat i))) s"
  have pt: "plain_table T" using assms(1) by (simp add: link_good_def param_inv_def)
  then have l: "length T < 2 ^ 31" by (simp add: plain_table_def)
  have "unat (of_nat i :: u32) = i" using assms(3) l by (intro small_size(1)) simp
  then have r: "handle_in_range T (of_nat i)" using in_range_length [OF pt] assms(3) by simp
  have nxt: "queued_send_next T s = Some ?s1"
    using r send_param_report [OF assms(1) r] assms(2) by (simp add: queued_send_next_def param_for_index_def handle_in_range_def)
  have "link_good T ?s1" using assms(1) by simp
  from list_requested [OF this assms(4), of junk]
  obtain s2 where s2: "mavlink_pm_message_handler T junk msg ?s1 = Some s2" "link_good T s2" "mavlink_param_queue_index s2 = 0"
    "pm_store s2 = pm_store ?s1" by metis
  let ?c = "queued_send_count s2"
  have c: "link_good T ?c" "mavlink_param_queue_index ?c = of_nat 1" "pm_store ?c = pm_store s" "writes ?c = writes s2"
    using s2 by (simp_all add: queued_send_count_def link_good_def uart_open_def)
  obtain s3 where s3: "queued_sends n T ?c = Some s3"
    "writes s3 = writes ?c @ map (report_frame T ?c 1) [1 ..< min (1 + n) (length T)]"
    using queued_sends_from [OF c(1,2), of n] assms(3) by auto
  obtain ms st where "parse_chars (concat (map (report_frame T ?c 1) [1 ..< min (1 + n) (length T)])) station = (ms, st)"
    "map (\<lambda>m. mavlink_msg_param_value_decode (payload m)) ms =
      map (\<lambda>k. param_report T (pm_store ?c) (of_nat k)) [1 ..< min (1 + n) (length T)]"
    using reports_received [OF assms(5)] by blast
  then show ?thesis using nxt s2(1) s3 c(3,4) by (intro exI [of _ ?s1] exI [of _ s2] exI [of _ s3] exI [of _ ms] exI [of _ st]) simp
qed

lemma restart_loses_first_parameter_witness:
  "\<forall>junk. \<exists>s1 s2 s3 ms station'.
    queued_send_next example_table example_pm = Some s1 \<and>
    mavlink_pm_message_handler example_table junk (new_message\<lparr>msgid := MAVLINK_MSG_ID_PARAM_REQUEST_LIST\<rparr>) s1 = Some s2 \<and>
    queued_sends 10 example_table (queued_send_count s2) = Some s3 \<and>
    parse_chars (concat (drop (length (writes s2)) (writes s3))) new_rx = (ms, station') \<and>
    map (\<lambda>m. mavlink_msg_param_value_decode (payload m)) ms =
      map (\<lambda>k. param_report example_table (pm_store example_pm) (of_nat k)) [1 ..< min (Suc 10) (length example_table)]"
  by (intro allI, rule restart_loses_first_parameter [OF example_pm_good, of 1 _ _ _ 10]) (simp_all add: new_rx_ready example_pm_def example_table_def)

section \<open>Any message\<close>

lemma text_keeps: "link_good T s \<Longrightarrow> link_good T (snd (mavlink_missionlib_send_gcs_string str s))"
  using text_sent [of T s str] by (cases "1 < length str") (auto simp: mavlink_missionlib_send_gcs_string_def)

lemma say_keeps: "link_good T s \<Longrightarrow> link_good T (say text s)"
  by (simp add: say_def text_keeps)

definition known_handle :: "param_table \<Rightarrow> param_t \<Rightarrow> bool" where
  "known_handle T p \<longleftrightarrow> p = PARAM_INVALID \<or> handle_in_range T p"

lemma known_handles [simp]:
  "plain_table T \<Longrightarrow> known_handle T (param_find T name)" "known_handle T (param_for_index T i)"
  using find_from_range [of T 0 name]
  by (auto simp: known_handle_def param_find_def param_for_index_def handle_in_range_def)

text \<open>An operation that ends in a good state.\<close>

definition ends_good :: "param_table \<Rightarrow> (int \<times> 'a mavlink_pm_scheme) option \<Rightarrow> bool" where
  "ends_good T so \<longleftrightarrow> (\<exists>r s'. so = Some (r, s') \<and> link_good T s')"

definition handled_good :: "param_table \<Rightarrow> 'a mavlink_pm_scheme option \<Rightarrow> bool" where
  "handled_good T so \<longleftrightarrow> (\<exists>s'. so = Some s' \<and> link_good T s')"

lemma good_simps [simp]:
  "ends_good T (Some (r, s)) \<longleftrightarrow> link_good T s" "handled_good T (Some s) \<longleftrightarrow> link_good T s"
  "handled_good T (map_option snd so) \<longleftrightarrow> ends_good T so"
  by (auto simp: ends_good_def handled_good_def)

lemma send_param_total: "link_good T s \<Longrightarrow> known_handle T p \<Longrightarrow> ends_good T (mavlink_pm_send_param T p s)"
  using send_param_report [of T s p] by (cases "p = PARAM_INVALID") (auto simp: known_handle_def mavlink_pm_send_param_def)

lemma link_good_table: "link_good T s \<Longrightarrow> plain_table T"
  by (simp add: link_good_def param_inv_def)

lemma store_keeps: "link_good T s \<Longrightarrow> param_inv T st \<Longrightarrow> link_good T (s\<lparr>pm_store := st\<rparr>)"
  by (simp add: link_good_def uart_open_def)

lemma file_fields_keep [simp]:
  "link_good T (s\<lparr>pm_open_calls := n\<rparr>) \<longleftrightarrow> link_good T s" "link_good T (s\<lparr>mavlink_parameter_file := f\<rparr>) \<longleftrightarrow> link_good T s"
  by (simp_all add: link_good_def uart_open_def)

lemma param_set_keeps:
  assumes "link_good T s"
  shows "handled_good T (pm_param_set T x s)"
proof -
  let ?p = "param_find T (c_str (strncpy PARAM_ID_LEN (c_str (ps_param_id x))))"
  have inv: "param_inv T (pm_store s)" using assms by (simp add: link_good_def)
  have p: "known_handle T ?p" by (rule known_handles(1) [OF link_good_table [OF assms]])
  show ?thesis
  proof (cases "?p = PARAM_INVALID")
    case False
    then have r: "handle_in_range T ?p" using p by (simp add: known_handle_def)
    obtain st where st: "param_set T ?p (le32 (ps_param_value x)) (pm_store s) = Some (0, st)" "param_inv T st"
      using param_set_spec [OF inv r, of "le32 (ps_param_value x)" False] by (auto simp: param_set_def)
    then show ?thesis using assms send_param_total [OF store_keeps [OF assms st(2)] p] False by (simp add: pm_param_set_def Let_def)
  qed (use assms in \<open>simp add: pm_param_set_def text_keeps\<close>)
qed

lemma request_read_keeps: "link_good T s \<Longrightarrow> handled_good T (pm_param_request_read T x s)"
  by (simp add: pm_param_request_read_def mavlink_pm_send_param_for_name_def mavlink_pm_send_param_for_index_def
      send_param_total link_good_table)

lemma save_keeps:
  assumes "link_good T s"
  shows "ends_good T (mavlink_pm_save_eeprom T s)"
proof (cases "pm_opens s (pm_open_calls s)")
  case (Some space)
  obtain r f st where "param_export T \<lparr>written = [], room = space\<rparr> False (pm_store s) = Some (r, f, st)" "param_inv T st"
    using param_export_total assms by (metis link_good_def)
  then show ?thesis using Some assms by (simp add: mavlink_pm_save_eeprom_def Let_def store_keeps)
qed (use assms in \<open>simp add: mavlink_pm_save_eeprom_def\<close>)

lemma load_keeps:
  assumes "link_good T s"
  shows "ends_good T (mavlink_pm_load_eeprom T junk s)"
proof -
  have "param_inv T (param_reset_all (pm_store s))" using assms param_reset_all_spec by (auto simp: link_good_def)
  then have load: "\<exists>r st. param_load T img junk (pm_store s) = Some (r, st) \<and> param_inv T st" for img
    using import_total [of T _ img junk True] unfolding param_load_def by blast
  have "ends_good T (map_option (\<lambda>(r, st). (if r \<noteq> 0 then -2 else 0, s\<lparr>pm_open_calls := n, pm_store := st\<rparr>))
      (param_load T img junk (pm_store s)))" for img n
  proof -
    obtain r st where "param_load T img junk (pm_store s) = Some (r, st)" "param_inv T st" using load by blast
    then show ?thesis using assms by (simp add: link_good_def uart_open_def)
  qed
  then show ?thesis using assms by (simp add: mavlink_pm_load_eeprom_def Let_def split: option.split)
qed

lemma storage_keeps:
  assumes "link_good T s"
  shows "handled_good T (pm_storage T junk request s)"
  using save_keeps [OF assms] load_keeps [OF assms, of junk] assms
  by (auto simp: pm_storage_def ends_good_def say_keeps)

text \<open>The request of a storage command is a number that C converts to an integer.\<close>

definition storage_number :: "mavlink_message \<Rightarrow> bool" where
  "storage_number msg \<longleftrightarrow> (msgid msg = MAVLINK_MSG_ID_COMMAND_LONG \<longrightarrow>
     cl_command (mavlink_msg_command_long_decode (payload msg)) = MAV_CMD_PREFLIGHT_STORAGE \<longrightarrow>
     f32_to_int32 (cl_param1 (mavlink_msg_command_long_decode (payload msg))) \<noteq> None)"

lemma any_message_keeps:
  assumes "link_good T s" "storage_number msg"
  shows "handled_good T (mavlink_pm_message_handler T junk msg s)"
proof -
  have "handled_good T (pm_command_long T junk (mavlink_msg_command_long_decode (payload msg)) s)"
    if "msgid msg = MAVLINK_MSG_ID_COMMAND_LONG"
    using assms that storage_keeps [OF assms(1)] by (auto simp: pm_command_long_def storage_number_def)
  then show ?thesis
    using assms(1) by (simp add: mavlink_pm_message_handler_def param_set_keeps request_read_keeps say_keeps)
qed

interpretation pm_messages: safe_machine "mavlink_pm_message_handler T junk" "link_good T" "link_good T" storage_number
proof
  fix s s' :: "'a mavlink_pm_scheme" and msg
  assume *: "link_good T s" "storage_number msg"
  then have "handled_good T (mavlink_pm_message_handler T junk msg s)" by (rule any_message_keeps)
  then show "\<exists>s'. mavlink_pm_message_handler T junk msg s = Some s'"
    and "mavlink_pm_message_handler T junk msg s = Some s' \<Longrightarrow> link_good T s'"
    by (auto simp: handled_good_def)
qed

text \<open>
  C32. Whatever messages arrive, in whatever order and with whatever content, the parameter component works on: it stays within its
  objects, terminates and keeps the parameter store well-formed. The one exception is a storage command whose request is not a
  number that fits an \<open>int\<close>.
\<close>
theorem pm_messages_safe:
  assumes "link_good T s" "list_all storage_number msgs"
  shows "\<exists>s'. run_steps (mavlink_pm_message_handler T junk) msgs s = Some s' \<and> param_inv T (pm_store s')"
proof -
  obtain s' where "run_steps (mavlink_pm_message_handler T junk) msgs s = Some s'" "link_good T s'"
    using pm_messages.run_safe [OF assms] by blast
  then show ?thesis by (auto simp: link_good_def)
qed

lemma pm_messages_safe_witness:
  "\<forall>junk. \<exists>s'. run_steps (mavlink_pm_message_handler example_table junk)
      [new_message\<lparr>msgid := MAVLINK_MSG_ID_PARAM_SET\<rparr>, new_message\<lparr>msgid := MAVLINK_MSG_ID_PARAM_REQUEST_READ\<rparr>] example_pm = Some s' \<and>
    param_inv example_table (pm_store s')"
  by (intro allI, rule pm_messages_safe [OF example_pm_good])
    (simp add: storage_number_def MAVLINK_MSG_ID_PARAM_SET_def MAVLINK_MSG_ID_PARAM_REQUEST_READ_def MAVLINK_MSG_ID_COMMAND_LONG_def)

section \<open>Setting a parameter\<close>

lemma c_str_strncpy:
  assumes "no_nul name" "length name \<le> n"
  shows "c_str (strncpy n name) = name"
proof -
  have "takeWhile (\<lambda>b. b \<noteq> 0) (name @ replicate k 0) = name" for k
    using assms(1) by (induction name) (auto simp: no_nul_def takeWhile_replicate)
  then show ?thesis using assms(2) by (simp add: c_str_def strncpy_def)
qed

lemma set_known_parameter:
  assumes "link_good T s" "handle_in_range T p" "no_nul (pi_name (info T p))" "length (pi_name (info T p)) \<le> PARAM_ID_LEN"
    and "ps_param_id x = strncpy PARAM_ID_LEN (pi_name (info T p))" "for_us (ps_target_system x) (ps_target_component x) s"
  obtains st where "pm_param_set T x s = Some (after_sending (compid s) MAVLINK_MSG_ID_PARAM_VALUE
      (param_value_packet (param_report T st p)) (s\<lparr>pm_store := st\<rparr>))"
    "param_inv T st" "changed st = (changed (pm_store s))(p \<mapsto> ps_param_value x)"
proof -
  have inv: "param_inv T (pm_store s)" using assms(1) by (simp add: link_good_def)
  have find: "param_find T (c_str (strncpy PARAM_ID_LEN (c_str (ps_param_id x)))) = p" "p \<noteq> PARAM_INVALID"
    using param_find_name [OF link_good_table [OF assms(1)] assms(2)] by (simp_all add: assms(5) c_str_strncpy [OF assms(3,4)])
  obtain st where st: "param_set T p (le32 (ps_param_value x)) (pm_store s) = Some (0, st)" "param_inv T st"
    "changed st = (changed (pm_store s))(p \<mapsto> ps_param_value x)"
    using param_set_spec [OF inv assms(2), of "le32 (ps_param_value x)" False] by (auto simp: param_set_def)
  have "link_good T (s\<lparr>pm_store := st\<rparr>)" by (rule store_keeps [OF assms(1) st(2)])
  from send_param_report [OF this assms(2)] show ?thesis
    using find st assms(6) by (intro that [of st]) (simp_all add: pm_param_set_def Let_def)
qed

text \<open>
  C33. A parameter set by name has the new value and no other parameter changed, and the station that asked receives the
  parameter's new value, number and name. Any bits are taken, also those of a value that is not a number.
\<close>
theorem parameter_set_and_reported:
  assumes "link_good T s" "handle_in_range T p" "no_nul (pi_name (info T p))" "length (pi_name (info T p)) \<le> PARAM_ID_LEN"
    and "msgid msg = MAVLINK_MSG_ID_PARAM_SET" "mavlink_msg_param_set_decode (payload msg) = x"
    and "ps_param_id x = strncpy PARAM_ID_LEN (pi_name (info T p))" "for_us (ps_target_system x) (ps_target_component x) s"
    and "rx_ready station"
  shows "\<exists>s' m station'. mavlink_pm_message_handler T junk msg s = Some s' \<and>
    changed (pm_store s') = (changed (pm_store s))(p \<mapsto> ps_param_value x) \<and>
    parse_chars (concat (drop (length (writes s)) (writes s'))) station = ([m], station') \<and>
    mavlink_msg_param_value_decode (payload m) = param_report T (pm_store s') p \<and>
    pv_param_value (mavlink_msg_param_value_decode (payload m)) = ps_param_value x"
proof -
  obtain st where st: "pm_param_set T x s = Some (after_sending (compid s) MAVLINK_MSG_ID_PARAM_VALUE
      (param_value_packet (param_report T st p)) (s\<lparr>pm_store := st\<rparr>))" "changed st = (changed (pm_store s))(p \<mapsto> ps_param_value x)"
    by (rule set_known_parameter [OF assms(1-4,7,8)])
  let ?s' = "after_sending (compid s) MAVLINK_MSG_ID_PARAM_VALUE (param_value_packet (param_report T st p)) (s\<lparr>pm_store := st\<rparr>)"
  obtain m rx' where m: "parse_chars (sent_frame (next_seq s) (sysid s) (compid s) MAVLINK_MSG_ID_PARAM_VALUE
      (param_value_packet (param_report T st p))) station = ([m], rx')"
    "mavlink_msg_param_value_decode (payload m) = param_report T st p"
    by (rule param_value_msg.one_arrives [OF report_proper assms(9)])
  have "pv_param_value (param_report T st p) = ps_param_value x" using st(2) by (simp add: param_report_def value_of_def)
  moreover have "mavlink_pm_message_handler T junk msg s = Some ?s'"
    using st(1) assms(5,6) by (simp add: mavlink_pm_message_handler_def MAVLINK_MSG_ID_PARAM_SET_def MAVLINK_MSG_ID_PARAM_REQUEST_LIST_def)
  ultimately show ?thesis using st(2) m
    by (intro exI [of _ ?s'] exI [of _ m] exI [of _ rx']) (simp add: next_seq_def)
qed

definition example_set :: mavlink_param_set_t where
  "example_set = \<lparr>ps_param_value = 0x7FC00000, ps_target_system = 100, ps_target_component = 0,
     ps_param_id = strncpy PARAM_ID_LEN (ascii ''BAT_V_EMPTY''), ps_param_type = 9\<rparr>"

lemma example_set_decodes:
  "mavlink_msg_param_set_decode (payload (new_message\<lparr>msgid := MAVLINK_MSG_ID_PARAM_SET, payload := param_set_packet example_set @ replicate 241 0\<rparr>)) = example_set"
  using param_set_msg.dec_enc [of example_set "replicate 241 0"] by (simp add: example_set_def PARAM_ID_LEN_def)

lemma parameter_set_and_reported_witness:
  "\<forall>junk. \<exists>s' m station'. mavlink_pm_message_handler example_table junk
      (new_message\<lparr>msgid := MAVLINK_MSG_ID_PARAM_SET, payload := param_set_packet example_set @ replicate 241 0\<rparr>) example_pm = Some s' \<and>
    changed (pm_store s') = (changed (pm_store example_pm))(1 \<mapsto> ps_param_value example_set) \<and>
    parse_chars (concat (drop (length (writes example_pm)) (writes s'))) new_rx = ([m], station') \<and>
    mavlink_msg_param_value_decode (payload m) = param_report example_table (pm_store s') 1 \<and>
    pv_param_value (mavlink_msg_param_value_decode (payload m)) = ps_param_value example_set"
  by (intro allI, rule parameter_set_and_reported [OF example_pm_good _ _ _ _ example_set_decodes _ _ new_rx_ready])
    (simp_all add: example_table_def example_set_def example_pm_def handle_in_range_def param_info_count_def no_nul_def ascii_def
      PARAM_ID_LEN_def for_us_def MAV_COMP_ID_ALL_def)

text \<open>A message for another system changes nothing.\<close>

lemma foreign_parameter_message:
  assumes "msgid msg = MAVLINK_MSG_ID_PARAM_SET \<Longrightarrow> ps_target_system (mavlink_msg_param_set_decode (payload msg)) \<noteq> sysid s"
    and "msgid msg = MAVLINK_MSG_ID_PARAM_REQUEST_READ \<Longrightarrow> prr_target_system (mavlink_msg_param_request_read_decode (payload msg)) \<noteq> sysid s"
    and "msgid msg = MAVLINK_MSG_ID_COMMAND_LONG \<Longrightarrow> cl_target_system (mavlink_msg_command_long_decode (payload msg)) \<noteq> sysid s"
    and "msgid msg \<noteq> MAVLINK_MSG_ID_PARAM_REQUEST_LIST"
  shows "mavlink_pm_message_handler T junk msg s = Some s"
  using assms by (auto simp: mavlink_pm_message_handler_def pm_param_set_def pm_param_request_read_def pm_command_long_def for_us_def)

end
