(* ===== verification/Mavlink_App.thy ===== *)
theory Mavlink_App
  imports Mavlink_Param
begin

text \<open>
  The telemetry application (\<open>src/apps/mavlink/mavlink.c\<close>): the loop that reads the serial port, the handler that turns messages
  of a ground station into published topics, the connection to the mission and the parameter component, the reaction to the
  vehicle status, and the periodic part of the main thread. \<open>None\<close> is an access outside an object, a conversion that C leaves
  undefined, or a publication through a handle that is none.
\<close>

unbundle bit_operations_syntax

section \<open>Topics\<close>

text \<open>\<open>vehicle_command_s\<close> extends the command that the commander looks at.\<close>

record vehicle_command_s = vehicle_command +
  vc_param6 :: float_bits
  vc_param7 :: float_bits
  vc_target_system :: u8
  vc_target_component :: u8
  vc_source_system :: u8
  vc_source_component :: u8
  vc_confirmation :: u8

record optical_flow_s =
  f_timestamp :: u64
  f_flow_raw_x :: u16
  f_flow_raw_y :: u16
  f_flow_comp_x_m :: float_bits
  f_flow_comp_y_m :: float_bits
  f_ground_distance_m :: float_bits
  f_quality :: u8
  f_sensor_id :: u8

record offboard_control_setpoint_s =
  sp_timestamp :: u64
  sp_mode :: u8
  sp_armed :: bool
  sp_p1 :: float_bits
  sp_p2 :: float_bits
  sp_p3 :: float_bits
  sp_p4 :: float_bits

record hil_global_position =
  gp_timestamp :: u64
  gp_lat :: u32
  gp_lon :: u32
  gp_alt :: float_bits
  gp_vx :: float_bits
  gp_vy :: float_bits
  gp_vz :: float_bits

record hil_attitude =
  at_timestamp :: u64
  at_counter :: u16
  at_angles :: "float_bits list"
  at_rates :: "float_bits list"

text \<open>The four channels and sticks; members of the local structures that the code does not set are left out.\<close>

record manual_input =
  mi_timestamp :: u64
  mi_raw :: "u16 list"
  mi_scaled :: "float_bits list"

record global_setpoint =
  gs_lat :: int
  gs_lon :: int
  gs_altitude :: float_bits
  gs_altitude_is_relative :: bool
  gs_yaw :: float_bits

record local_setpoint =
  ls_x :: float_bits
  ls_y :: float_bits
  ls_z :: float_bits
  ls_yaw :: float_bits

datatype publication =
    Vehicle_command vehicle_command_s
  | Optical_flow optical_flow_s
  | Vicon_position float_bits float_bits float_bits
  | Offboard_setpoint offboard_control_setpoint_s
  | Hil_global_position hil_global_position
  | Hil_attitude hil_attitude
  | Rc_channels manual_input
  | Manual_setpoint manual_input
  | Global_setpoint global_setpoint
  | Local_setpoint local_setpoint

section \<open>State\<close>

text \<open>
  The application extends the parameter component by the mission component, the handles of its topics (not positive: none), what
  it published so far, the rate limits it asked for, and its flags. \<open>orb_ok k\<close> tells whether the \<open>k\<close>-th topic can be
  advertised, \<open>app_hrt k\<close> is the \<open>k\<close>-th reading of the clock.
\<close>

record mavlink_app = mavlink_pm +
  mission_part :: mission
  cmd_pub :: int
  flow_pub :: int
  vicon_position_pub :: int
  offboard_control_sp_pub :: int
  pub_hil_attitude :: int
  pub_hil_global_pos :: int
  rc_pub :: int
  mc_pub :: int
  global_position_setpoint_pub :: int
  local_position_setpoint_pub :: int
  orb_ok :: "nat \<Rightarrow> bool"
  orb_calls :: nat
  published :: "publication list"
  hil_att :: hil_attitude
  hil_pos :: hil_global_position
  mavlink_hil_enabled :: bool
  thread_should_exit :: bool
  mavlink_message_string :: c_string
  v_status :: vehicle_status
  act_armed :: actuator_armed
  lowspeed_counter :: nat
  spa_intervals :: "nat list"
  baudrate :: int
  app_hrt :: "nat \<Rightarrow> u64"
  app_reads :: nat

text \<open>Advertising publishes the first value as well; publishing follows the handle.\<close>

definition orb_advertise :: "publication \<Rightarrow> mavlink_app \<Rightarrow> int \<times> mavlink_app" where
  "orb_advertise v s =
     (let s1 = s\<lparr>orb_calls := Suc (orb_calls s)\<rparr>
      in if orb_ok s (orb_calls s) then (1, s1\<lparr>published := published s @ [v]\<rparr>) else (ERROR, s1))"

definition orb_publish :: "int \<Rightarrow> publication \<Rightarrow> mavlink_app \<Rightarrow> mavlink_app option" where
  "orb_publish handle v s = (if 0 < handle then Some (s\<lparr>published := published s @ [v]\<rparr>) else None)"

text \<open>What most of the handler does with a value: the handle afterwards, and the state.\<close>

definition advertise_or_publish :: "int \<Rightarrow> publication \<Rightarrow> mavlink_app \<Rightarrow> (int \<times> mavlink_app) option" where
  "advertise_or_publish handle v s =
     (if handle \<le> 0 then Some (orb_advertise v s) else map_option (\<lambda>t. (handle, t)) (orb_publish handle v s))"

section \<open>Messages of the ground station\<close>

definition vehicle_command_of_long :: "mavlink_message \<Rightarrow> mavlink_command_long_t \<Rightarrow> vehicle_command_s" where
  "vehicle_command_of_long msg x =
     \<lparr>vehicle_command.param1 = cl_param1 x, vehicle_command.param2 = cl_param2 x, vehicle_command.param3 = cl_param3 x,
      vehicle_command.param4 = cl_param4 x, param5 = cl_param5 x, vehicle_command.command = cl_command x,
      vc_param6 = cl_param6 x, vc_param7 = cl_param7 x, vc_target_system = cl_target_system x,
      vc_target_component = cl_target_component x, vc_source_system = msg_sysid msg, vc_source_component = msg_compid msg,
      vc_confirmation = cl_confirmation x\<rparr>"

text \<open>A command for this system; request 3 of the restart command ends the application. A new topic is published once more.\<close>

definition handle_command_long :: "mavlink_message \<Rightarrow> mavlink_app \<Rightarrow> mavlink_app option" where
  "handle_command_long msg s =
     (let x = mavlink_msg_command_long_decode (payload msg); vcmd = Vehicle_command (vehicle_command_of_long msg x);
          publish = (let (h, t) = (if cmd_pub s \<le> 0 then orb_advertise vcmd s else (cmd_pub s, s))
                     in orb_publish h vcmd (t\<lparr>cmd_pub := h\<rparr>))
      in if for_us (cl_target_system x) (cl_target_component x) s
         then (if cl_command x = MAV_CMD_PREFLIGHT_REBOOT_SHUTDOWN
               then Option.bind (f32_to_int32 (cl_param1 x)) (\<lambda>p. if p = 3 then Some (s\<lparr>thread_should_exit := True\<rparr>) else publish)
               else publish)
         else Some s)"

definition handle_optical_flow :: "mavlink_message \<Rightarrow> mavlink_app \<Rightarrow> mavlink_app option" where
  "handle_optical_flow msg s =
     (let flow = mavlink_msg_optical_flow_decode (payload msg);
          f = \<lparr>f_timestamp = of_time_usec flow, f_flow_raw_x = of_flow_x flow, f_flow_raw_y = of_flow_y flow,
               f_flow_comp_x_m = of_flow_comp_m_x flow, f_flow_comp_y_m = of_flow_comp_m_y flow,
               f_ground_distance_m = of_ground_distance flow, f_quality = of_quality flow, f_sensor_id = of_sensor_id flow\<rparr>
      in map_option (\<lambda>(h, t). t\<lparr>flow_pub := h\<rparr>) (advertise_or_publish (flow_pub s) (Optical_flow f) s))"

text \<open>A mode for any system becomes a command for all components.\<close>

definition vehicle_command_of_mode :: "mavlink_message \<Rightarrow> mavlink_set_mode_t \<Rightarrow> vehicle_command_s" where
  "vehicle_command_of_mode msg x =
     \<lparr>vehicle_command.param1 = f32_of_int (uint (sm_base_mode x)), vehicle_command.param2 = f32_of_int (uint (sm_custom_mode x)),
      vehicle_command.param3 = 0, vehicle_command.param4 = 0, param5 = 0, vehicle_command.command = MAV_CMD_DO_SET_MODE,
      vc_param6 = 0, vc_param7 = 0, vc_target_system = sm_target_system x, vc_target_component = MAV_COMP_ID_ALL,
      vc_source_system = msg_sysid msg, vc_source_component = msg_compid msg, vc_confirmation = 1\<rparr>"

definition handle_set_mode :: "mavlink_message \<Rightarrow> mavlink_app \<Rightarrow> mavlink_app option" where
  "handle_set_mode msg s =
     (let vcmd = Vehicle_command (vehicle_command_of_mode msg (mavlink_msg_set_mode_decode (payload msg)))
      in map_option (\<lambda>(h, t). t\<lparr>cmd_pub := h\<rparr>) (advertise_or_publish (cmd_pub s) vcmd s))"

definition handle_vicon :: "mavlink_message \<Rightarrow> mavlink_app \<Rightarrow> mavlink_app option" where
  "handle_vicon msg s =
     (let pos = mavlink_msg_vicon_position_estimate_decode (payload msg)
      in map_option (\<lambda>(h, t). t\<lparr>vicon_position_pub := h\<rparr>)
           (advertise_or_publish (vicon_position_pub s) (Vicon_position (vp_x pos) (vp_y pos) (vp_z pos)) s))"

definition f32_num :: "int \<Rightarrow> float_bits" where "f32_num n = f32_of_int n"
definition INT16_MAX :: int where "INT16_MAX = 32767"
definition UINT16_MAX :: int where "UINT16_MAX = 65535"

text \<open>Mode and arming of a motor setpoint: only rates and attitude arm, and no thrust never does.\<close>

definition quad_mode :: "u8 \<Rightarrow> u8 \<times> bool" where
  "quad_mode m =
     (if m = 1 then (1, True) else if m = 2 then (2, True) else if m = 3 then (3, False) else if m = 4 then (4, False)
      else (0, False))"

definition offboard_of_quad :: "u8 \<Rightarrow> u64 \<Rightarrow> mavlink_set_quad_swarm_roll_pitch_yaw_thrust_t \<Rightarrow> offboard_control_setpoint_s" where
  "offboard_of_quad me now q =
     (let i = unat me; (ml_mode, ml_armed) = quad_mode (qs_mode q)
      in \<lparr>sp_timestamp = now, sp_mode = ml_mode, sp_armed = (ml_armed \<and> qs_thrust q ! i \<noteq> 0),
          sp_p1 = f32_div (f32_num (sint (qs_roll q ! i))) (f32_num INT16_MAX),
          sp_p2 = f32_div (f32_num (sint (qs_pitch q ! i))) (f32_num INT16_MAX),
          sp_p3 = f32_div (f32_num (sint (qs_yaw q ! i))) (f32_num INT16_MAX),
          sp_p4 = f32_div (f32_num (uint (qs_thrust q ! i))) (f32_num UINT16_MAX)\<rparr>)"

definition handle_quad_setpoint :: "mavlink_message \<Rightarrow> mavlink_app \<Rightarrow> mavlink_app option" where
  "handle_quad_setpoint msg s =
     (let q = mavlink_msg_set_quad_swarm_roll_pitch_yaw_thrust_decode (payload msg)
      in if sysid s < 4
         then map_option (\<lambda>(h, t). t\<lparr>offboard_control_sp_pub := h\<rparr>)
                (advertise_or_publish (offboard_control_sp_pub s)
                  (Offboard_setpoint (offboard_of_quad (sysid s) (app_hrt s (app_reads s)) q)) (s\<lparr>app_reads := Suc (app_reads s)\<rparr>))
         else Some s)"

section \<open>Simulation messages\<close>

definition handle_hil_state :: "mavlink_message \<Rightarrow> mavlink_app \<Rightarrow> mavlink_app option" where
  "handle_hil_state msg s =
     (let h = mavlink_msg_hil_state_decode (payload msg);
          gp = \<lparr>gp_timestamp = app_hrt s (app_reads s), gp_lat = hs_lat h, gp_lon = hs_lon h,
                gp_alt = f32_div (f32_num (sint (hs_alt h))) (f32_num 1000),
                gp_vx = f32_div (f32_num (sint (hs_vx h))) (f32_num 100),
                gp_vy = f32_div (f32_num (sint (hs_vy h))) (f32_num 100),
                gp_vz = f32_div (f32_num (sint (hs_vz h))) (f32_num 100)\<rparr>;
          at = \<lparr>at_timestamp = app_hrt s (Suc (app_reads s)), at_counter = at_counter (hil_att s) + 1,
                at_angles = [hs_roll h, hs_pitch h, hs_yaw h], at_rates = [hs_rollspeed h, hs_pitchspeed h, hs_yawspeed h]\<rparr>;
          s1 = s\<lparr>app_reads := app_reads s + 2, hil_pos := gp, hil_att := at\<rparr>
      in Option.bind (orb_publish (pub_hil_global_pos s) (Hil_global_position gp) s1)
           (orb_publish (pub_hil_attitude s) (Hil_attitude at)))"

text \<open>Division in C rounds towards zero.\<close>

definition half :: "int \<Rightarrow> int" where "half n = sgn n * (\<bar>n\<bar> div 2)"

definition manual_of :: "u64 \<Rightarrow> mavlink_manual_control_t \<Rightarrow> manual_input" where
  "manual_of now man =
     (let vs = map sint [man_x man, man_y man, man_r man, man_z man]
      in \<lparr>mi_timestamp = now, mi_raw = map (\<lambda>v. word_of_int (1500 + half v)) vs, mi_scaled = map (\<lambda>v. f32_div (f32_num v) (f32_num 1000)) vs\<rparr>)"

text \<open>These two topics are advertised while the handle is zero, so a failure is remembered.\<close>

definition handle_manual_control :: "mavlink_message \<Rightarrow> mavlink_app \<Rightarrow> mavlink_app option" where
  "handle_manual_control msg s =
     (let mi = manual_of (app_hrt s (app_reads s)) (mavlink_msg_manual_control_decode (payload msg));
          s1 = s\<lparr>app_reads := Suc (app_reads s)\<rparr>
      in Option.bind (if rc_pub s1 = 0 then Some (orb_advertise (Rc_channels mi) s1)
                      else map_option (\<lambda>t. (rc_pub s1, t)) (orb_publish (rc_pub s1) (Rc_channels mi) s1)) (\<lambda>(h, t).
         let s2 = t\<lparr>rc_pub := h\<rparr>
         in map_option (\<lambda>(h, t). t\<lparr>mc_pub := h\<rparr>)
              (if mc_pub s2 = 0 then Some (orb_advertise (Manual_setpoint mi) s2)
               else map_option (\<lambda>t. (mc_pub s2, t)) (orb_publish (mc_pub s2) (Manual_setpoint mi) s2))))"

definition handleMessage :: "mavlink_message \<Rightarrow> mavlink_app \<Rightarrow> mavlink_app option" where
  "handleMessage msg s =
     (if msgid msg = MAVLINK_MSG_ID_COMMAND_LONG then handle_command_long msg s
      else if msgid msg = MAVLINK_MSG_ID_OPTICAL_FLOW then handle_optical_flow msg s
      else if msgid msg = MAVLINK_MSG_ID_SET_MODE then handle_set_mode msg s
      else if msgid msg = MAVLINK_MSG_ID_VICON_POSITION_ESTIMATE then handle_vicon msg s
      else if msgid msg = MAVLINK_MSG_ID_SET_QUAD_SWARM_ROLL_PITCH_YAW_THRUST then handle_quad_setpoint msg s
      else if mavlink_hil_enabled s \<and> msgid msg = MAVLINK_MSG_ID_HIL_STATE then handle_hil_state msg s
      else if mavlink_hil_enabled s \<and> msgid msg = MAVLINK_MSG_ID_MANUAL_CONTROL then handle_manual_control msg s
      else Some s)"

section \<open>Missions\<close>

text \<open>The decoding of the mission messages in \<open>mavlink_wpm_message_handler\<close>.\<close>

definition mission_msg_of :: "mavlink_message \<Rightarrow> mission_msg" where
  "mission_msg_of msg =
     (let p = payload msg
      in if msgid msg = MAVLINK_MSG_ID_MISSION_ACK then MISSION_ACK (ma_target_system (mavlink_msg_mission_ack_decode p))
         else if msgid msg = MAVLINK_MSG_ID_MISSION_SET_CURRENT
         then (let x = mavlink_msg_mission_set_current_decode p in MISSION_SET_CURRENT (msc_target_system x) (msc_seq x))
         else if msgid msg = MAVLINK_MSG_ID_MISSION_REQUEST_LIST
         then MISSION_REQUEST_LIST (mrl_target_system (mavlink_msg_mission_request_list_decode p))
         else if msgid msg = MAVLINK_MSG_ID_MISSION_REQUEST
         then (let x = mavlink_msg_mission_request_decode p in MISSION_REQUEST (mr_target_system x) (mr_seq x))
         else if msgid msg = MAVLINK_MSG_ID_MISSION_COUNT
         then (let x = mavlink_msg_mission_count_decode p in MISSION_COUNT (mct_target_system x) (mct_count x))
         else if msgid msg = MAVLINK_MSG_ID_MISSION_ITEM then MISSION_ITEM (mavlink_msg_mission_item_decode p)
         else if msgid msg = MAVLINK_MSG_ID_MISSION_CLEAR_ALL
         then MISSION_CLEAR_ALL (mca_target_system (mavlink_msg_mission_clear_all_decode p))
         else OTHER_MESSAGE)"

subsection \<open>The text of a new setpoint\<close>

text \<open>
  \<open>lib_dtoa\<close> of the C library (\<open>src/nuttx/lib/stdio/lib_libdtoa.c\<close>): what \<open>printf\<close> writes for a number and a precision. The digits
  and the place of the point come from \<open>__dtoa\<close>, the parameter \<open>dtoa\<close>. Without a precision in the format the precision is zero;
  the flag of a leading space is ignored.
\<close>

type_synonym dtoa_result = "float_bits \<Rightarrow> nat \<Rightarrow> string \<times> int"

text \<open>The fractional digits and the zeros behind them.\<close>

definition dtoa_tail :: "string \<Rightarrow> int \<Rightarrow> int \<Rightarrow> string" where
  "dtoa_tail digits numlen prec =
     (let nchars = (if 0 < prec then min numlen prec else numlen)
      in take (nat nchars) digits @ replicate (nat (prec - nchars)) (CHR ''0''))"

definition lib_dtoa :: "dtoa_result \<Rightarrow> nat \<Rightarrow> float_bits \<Rightarrow> string" where
  "lib_dtoa dtoa prec value =
     (let negative = f32_lt value 0; (digits, expt) = dtoa (if negative then value XOR 0x80000000 else value) prec;
          numlen = int (length digits); p = int prec
      in (if negative then ''-'' else '''') @
         (if f32_le value 0 \<and> f32_le 0 value \<or> expt < - p
          then (if 0 < prec then ''0.'' @ replicate prec (CHR ''0'') else ''0'')
          else if expt \<le> 0
          then (let nchars = (if expt < 0 then min (- expt) p else 0)
                in ''0.'' @ replicate (nat nchars) (CHR ''0'') @ dtoa_tail digits numlen (p - nchars))
          else (let whole = take (nat expt) digits @ replicate (nat expt - length digits) (CHR ''0'')
                in whole @ (if 0 < numlen - expt \<or> 0 < prec
                            then ''.'' @ dtoa_tail (drop (nat expt) digits) (numlen - expt) (max 1 p)
                            else dtoa_tail (drop (nat expt) digits) (numlen - expt) p))))"

text \<open>Filled up with spaces on the left to the width of the field.\<close>

definition justify :: "nat \<Rightarrow> string \<Rightarrow> string" where
  "justify width t = replicate (width - length t) (CHR '' '') @ t"

fun decimal :: "nat \<Rightarrow> nat \<Rightarrow> string" where
  "decimal 0 n = ''''"
| "decimal (Suc k) n = (if n < 10 then '''' else decimal k (n div 10)) @ [char_of (48 + n mod 10)]"

text \<open>Five digits are enough for an index of 16 bits.\<close>

definition index_text :: "u16 \<Rightarrow> string" where
  "index_text n = decimal 5 (unat n)"

definition global_text :: "dtoa_result \<Rightarrow> u16 \<Rightarrow> float_bits \<Rightarrow> float_bits \<Rightarrow> float_bits \<Rightarrow> float_bits \<Rightarrow> string" where
  "global_text dtoa index lat lon alt hdg =
     ''[mp] WP#'' @ index_text index @ '' lat: '' @ justify 3 (lib_dtoa dtoa 6 lat) @ ''/lon '' @ justify 3 (lib_dtoa dtoa 6 lon) @
     ''/alt '' @ justify 4 (lib_dtoa dtoa 6 alt) @ ''/hdg '' @ justify 3 (lib_dtoa dtoa 4 hdg) @ [char_of (10 :: nat)]"

definition relative_text :: "dtoa_result \<Rightarrow> u16 \<Rightarrow> float_bits \<Rightarrow> float_bits \<Rightarrow> float_bits \<Rightarrow> float_bits \<Rightarrow> string" where
  "relative_text dtoa index lat lon alt hdg =
     ''[mp] WP#'' @ index_text index @ '' (lat: '' @ lib_dtoa dtoa 0 lat @ ''/lon '' @ lib_dtoa dtoa 0 lon @
     ''/rel alt '' @ lib_dtoa dtoa 0 alt @ ''/hdg '' @ lib_dtoa dtoa 0 hdg @ [char_of (10 :: nat)]"

definition local_text :: "dtoa_result \<Rightarrow> u16 \<Rightarrow> float_bits \<Rightarrow> float_bits \<Rightarrow> float_bits \<Rightarrow> float_bits \<Rightarrow> string" where
  "local_text dtoa index x y z hdg =
     ''[mp] WP#'' @ index_text index @ '' (x: '' @ lib_dtoa dtoa 0 x @ ''/y '' @ lib_dtoa dtoa 0 y @
     ''/z '' @ lib_dtoa dtoa 0 z @ ''/hdg '' @ lib_dtoa dtoa 0 hdg @ [char_of (10 :: nat)]"

definition M_PI_F :: float_bits where "M_PI_F = 0x40490FDB"

definition heading :: "float_bits \<Rightarrow> float_bits" where
  "heading degrees = f32_sub (f32_mul (f32_div degrees (f32_num 180)) M_PI_F) M_PI_F"

text \<open>These handles are none while they are negative.\<close>

definition advertise_if_negative :: "int \<Rightarrow> publication \<Rightarrow> mavlink_app \<Rightarrow> (int \<times> mavlink_app) option" where
  "advertise_if_negative handle v s =
     (if handle < 0 then Some (orb_advertise v s) else map_option (\<lambda>t. (handle, t)) (orb_publish handle v s))"

definition publish_global_setpoint :: "bool \<Rightarrow> float_bits \<Rightarrow> float_bits \<Rightarrow> float_bits \<Rightarrow> float_bits \<Rightarrow> mavlink_app \<Rightarrow> mavlink_app option" where
  "publish_global_setpoint relative lat lon alt degrees s =
     Option.bind (f32_to_int32 (f32_mul lat (f32_num 10000000))) (\<lambda>ilat.
     Option.bind (f32_to_int32 (f32_mul lon (f32_num 10000000))) (\<lambda>ilon.
       map_option (\<lambda>(h, t). t\<lparr>global_position_setpoint_pub := h\<rparr>)
         (advertise_if_negative (global_position_setpoint_pub s)
           (Global_setpoint \<lparr>gs_lat = ilat, gs_lon = ilon, gs_altitude = alt, gs_altitude_is_relative = relative, gs_yaw = heading degrees\<rparr>) s)))"

definition publish_local_setpoint :: "float_bits \<Rightarrow> float_bits \<Rightarrow> float_bits \<Rightarrow> float_bits \<Rightarrow> mavlink_app \<Rightarrow> mavlink_app option" where
  "publish_local_setpoint x y z degrees s =
     map_option (\<lambda>(h, t). t\<lparr>local_position_setpoint_pub := h\<rparr>)
       (advertise_if_negative (local_position_setpoint_pub s)
         (Local_setpoint \<lparr>ls_x = x, ls_y = y, ls_z = z, ls_yaw = heading degrees\<rparr>) s)"

text \<open>\<open>sprintf\<close> into a buffer of so many bytes.\<close>

definition sprintf_buf :: "nat \<Rightarrow> string \<Rightarrow> c_string option" where
  "sprintf_buf n text = (if length text < n then Some (ascii text) else None)"

definition waypoint_buf :: nat where "waypoint_buf = 50"

definition mavlink_missionlib_current_waypoint_changed ::
    "dtoa_result \<Rightarrow> u16 \<Rightarrow> float_bits \<Rightarrow> float_bits \<Rightarrow> float_bits \<Rightarrow> float_bits \<Rightarrow> u8 \<Rightarrow> mavlink_app \<Rightarrow> mavlink_app option" where
  "mavlink_missionlib_current_waypoint_changed dtoa index degrees lat_x lon_y alt_z wp_frame s =
     Option.bind
       (if wp_frame = MAV_FRAME_GLOBAL
        then Option.bind (publish_global_setpoint False lat_x lon_y alt_z degrees s) (\<lambda>t.
               map_option (\<lambda>buf. (buf, t)) (sprintf_buf waypoint_buf (global_text dtoa index lat_x lon_y alt_z degrees)))
        else if wp_frame = MAV_FRAME_GLOBAL_RELATIVE_ALT
        then Option.bind (publish_global_setpoint True lat_x lon_y alt_z degrees s) (\<lambda>t.
               map_option (\<lambda>buf. (buf, t)) (sprintf_buf waypoint_buf (relative_text dtoa index lat_x lon_y alt_z degrees)))
        else if wp_frame = MAV_FRAME_LOCAL_ENU \<or> wp_frame = MAV_FRAME_LOCAL_NED
        then Option.bind (publish_local_setpoint lat_x lon_y alt_z degrees s) (\<lambda>t.
               map_option (\<lambda>buf. (buf, t)) (sprintf_buf waypoint_buf (local_text dtoa index lat_x lon_y alt_z degrees)))
        else Some ([], s))
       (\<lambda>(buf, t). Some (snd (mavlink_missionlib_send_gcs_string buf t)))"

subsection \<open>What the mission component sends\<close>

text \<open>Messages and texts go to the serial port, a new setpoint to the topics.\<close>

fun perform :: "dtoa_result \<Rightarrow> mission_out \<Rightarrow> mavlink_app \<Rightarrow> mavlink_app option" where
  "perform dtoa (Out_ack sys cmp ty) s = Some (snd (send_packed MAVLINK_MSG_ID_MISSION_ACK 153
     (mission_ack_packet \<lparr>ma_target_system = sys, ma_target_component = cmp, ma_type = ty\<rparr>) mavlink_wpm_comp_id s))"
| "perform dtoa (Out_current n) s = Some (snd (send_packed MAVLINK_MSG_ID_MISSION_CURRENT 28
     (mission_current_packet \<lparr>mc_seq = n\<rparr>) mavlink_wpm_comp_id s))"
| "perform dtoa (Out_count sys cmp n) s = Some (snd (send_packed MAVLINK_MSG_ID_MISSION_COUNT 221
     (mission_count_packet \<lparr>mct_count = n, mct_target_system = sys, mct_target_component = cmp\<rparr>) mavlink_wpm_comp_id s))"
| "perform dtoa (Out_item it) s = Some (snd (send_packed MAVLINK_MSG_ID_MISSION_ITEM 254 (mission_item_packet it) mavlink_wpm_comp_id s))"
| "perform dtoa (Out_request sys cmp n) s = Some (snd (send_packed MAVLINK_MSG_ID_MISSION_REQUEST 230
     (mission_request_packet \<lparr>mr_seq = n, mr_target_system = sys, mr_target_component = cmp\<rparr>) mavlink_wpm_comp_id s))"
| "perform dtoa (Out_reached n) s = Some (snd (send_packed MAVLINK_MSG_ID_MISSION_ITEM_REACHED 11
     (mission_item_reached_packet \<lparr>mir_seq = n\<rparr>) mavlink_wpm_comp_id s))"
| "perform dtoa (Out_text t) s = Some (snd (mavlink_missionlib_send_gcs_string (ascii t) s))"
| "perform dtoa (Out_setpoint n ps fr cmd) s =
     mavlink_missionlib_current_waypoint_changed dtoa n (ps ! 3) (ps ! 4) (ps ! 5) (ps ! 6) fr s"

fun perform_all :: "dtoa_result \<Rightarrow> mission_out list \<Rightarrow> mavlink_app \<Rightarrow> mavlink_app option" where
  "perform_all dtoa [] s = Some s"
| "perform_all dtoa (m # ms) s = Option.bind (perform dtoa m s) (perform_all dtoa ms)"

text \<open>A step of the mission component, and its output in order.\<close>

definition mission_turn :: "dtoa_result \<Rightarrow> (mission \<Rightarrow> mission option) \<Rightarrow> mavlink_app \<Rightarrow> mavlink_app option" where
  "mission_turn dtoa f s =
     Option.bind (f (mission_part s)) (\<lambda>w.
       perform_all dtoa (drop (length (outbox (mission_part s))) (outbox w)) (s\<lparr>mission_part := w\<rparr>))"

section \<open>The receiving thread\<close>

text \<open>A complete message passes all three handlers.\<close>

definition handle_all :: "param_table \<Rightarrow> dtoa_result \<Rightarrow> bson_node \<Rightarrow> nav \<Rightarrow> mavlink_message \<Rightarrow> mavlink_app \<Rightarrow> mavlink_app option" where
  "handle_all T dtoa junk p msg s =
     Option.bind (handleMessage msg s) (\<lambda>s1.
     Option.bind (mission_turn dtoa (mavlink_wpm_message_handler (msg_sysid msg) (msg_compid msg) (mission_msg_of msg) p) s1)
       (mavlink_pm_message_handler T junk msg))"

text \<open>One character: the parser, and the handlers when it completes a message.\<close>

definition receive_char :: "param_table \<Rightarrow> dtoa_result \<Rightarrow> bson_node \<Rightarrow> nav \<Rightarrow> u8 \<Rightarrow> mavlink_app \<Rightarrow> mavlink_app option" where
  "receive_char T dtoa junk p ch s =
     (let (received, r_message, rx) = mavlink_parse_char ch (link_rx s); s1 = s\<lparr>link_rx := rx\<rparr>
      in if received \<noteq> 0 then (case r_message of None \<Rightarrow> Some s1 | Some msg \<Rightarrow> handle_all T dtoa junk p msg s1) else Some s1)"

text \<open>
  The inner loop: each \<open>read\<close> gives a character, or nothing (\<open>None\<close>), in which case the last character is parsed again and the
  loop ends. Rest are the reads that are left for the next call of \<open>poll\<close>.
\<close>

fun read_loop :: "param_table \<Rightarrow> dtoa_result \<Rightarrow> bson_node \<Rightarrow> nav \<Rightarrow> u8 option list \<Rightarrow> u8 \<Rightarrow> mavlink_app \<Rightarrow> (u8 option list \<times> u8 \<times> mavlink_app) option" where
  "read_loop T dtoa junk p [] ch s = Some ([], ch, s)"
| "read_loop T dtoa junk p (None # rs) ch s = map_option (\<lambda>t. (rs, ch, t)) (receive_char T dtoa junk p ch s)"
| "read_loop T dtoa junk p (Some c # rs) ch s = Option.bind (receive_char T dtoa junk p c s) (read_loop T dtoa junk p rs c)"

lemma read_loop_shorter: "read_loop T dtoa junk p rs ch s = Some (rs', ch', s') \<Longrightarrow> length rs' \<le> length rs - 1"
  by (induction T dtoa junk p rs ch s rule: read_loop.induct) (fastforce split: Option.bind_splits)+

text \<open>The outer loop looks at the flag only between two inner loops.\<close>

function receiveloop :: "param_table \<Rightarrow> dtoa_result \<Rightarrow> bson_node \<Rightarrow> nav \<Rightarrow> u8 option list \<Rightarrow> u8 \<Rightarrow> mavlink_app \<Rightarrow> mavlink_app option" where
  "receiveloop T dtoa junk p rs ch s =
     (if thread_should_exit s \<or> rs = [] then Some s
      else case read_loop T dtoa junk p rs ch s of
             None \<Rightarrow> None
           | Some (rs', ch', s') \<Rightarrow> receiveloop T dtoa junk p rs' ch' s')"
  by pat_completeness auto
termination
proof (relation "measure (\<lambda>(T, dtoa, junk, p, rs, ch, s). length rs)")
  fix T dtoa junk p rs ch s x rs' y ch' s'
  assume "\<not> (thread_should_exit s \<or> rs = [])" "read_loop T dtoa junk p rs ch s = Some x" "(rs', y) = x" "(ch', s') = y"
  then have "length rs' \<le> length rs - 1" "rs \<noteq> []" using read_loop_shorter by auto
  then show "((T, dtoa, junk, p, rs', ch', s'), T, dtoa, junk, p, rs, ch, s) \<in> measure (\<lambda>(T, dtoa, junk, p, rs, ch, s). length rs)"
    by (cases rs) auto
qed simp

declare receiveloop.simps [simp del]

section \<open>The vehicle status and the main thread\<close>

definition MAV_MODE_FLAG_SAFETY_ARMED :: u8 where "MAV_MODE_FLAG_SAFETY_ARMED = 128"
definition MAV_MODE_FLAG_MANUAL_INPUT_ENABLED :: u8 where "MAV_MODE_FLAG_MANUAL_INPUT_ENABLED = 64"
definition MAV_MODE_FLAG_HIL_ENABLED :: u8 where "MAV_MODE_FLAG_HIL_ENABLED = 32"
definition MAV_MODE_FLAG_STABILIZE_ENABLED :: u8 where "MAV_MODE_FLAG_STABILIZE_ENABLED = 16"
definition MAV_MODE_FLAG_GUIDED_ENABLED :: u8 where "MAV_MODE_FLAG_GUIDED_ENABLED = 8"

lemmas mode_flags = MAV_MODE_FLAG_SAFETY_ARMED_def MAV_MODE_FLAG_MANUAL_INPUT_ENABLED_def MAV_MODE_FLAG_HIL_ENABLED_def
  MAV_MODE_FLAG_STABILIZE_ENABLED_def MAV_MODE_FLAG_GUIDED_ENABLED_def

definition MAV_STATE_UNINIT :: u8 where "MAV_STATE_UNINIT = 0"
definition MAV_STATE_CALIBRATING :: u8 where "MAV_STATE_CALIBRATING = 2"
definition MAV_STATE_STANDBY :: u8 where "MAV_STATE_STANDBY = 3"
definition MAV_STATE_ACTIVE :: u8 where "MAV_STATE_ACTIVE = 4"
definition MAV_STATE_EMERGENCY :: u8 where "MAV_STATE_EMERGENCY = 6"
definition MAV_STATE_POWEROFF :: u8 where "MAV_STATE_POWEROFF = 7"

lemmas mav_states = MAV_STATE_UNINIT_def MAV_STATE_CALIBRATING_def MAV_STATE_STANDBY_def MAV_STATE_ACTIVE_def
  MAV_STATE_EMERGENCY_def MAV_STATE_POWEROFF_def

text \<open>State and mode that the heartbeat reports.\<close>

definition get_mavlink_mode_and_state :: "vehicle_status \<Rightarrow> actuator_armed \<Rightarrow> u8 \<times> u8" where
  "get_mavlink_mode_and_state c_status actuator =
     (let mode = (if flag_control_manual_enabled c_status then MAV_MODE_FLAG_MANUAL_INPUT_ENABLED else 0);
          mode = (if flag_hil_enabled c_status then mode OR MAV_MODE_FLAG_HIL_ENABLED else mode);
          mode = (if armed actuator then mode OR MAV_MODE_FLAG_SAFETY_ARMED else mode AND NOT MAV_MODE_FLAG_SAFETY_ARMED)
      in case state_machine c_status of
           SYSTEM_STATE_PREFLIGHT \<Rightarrow>
             ((if flag_preflight_gyro_calibration c_status \<or> flag_preflight_mag_calibration c_status \<or>
                  flag_preflight_accel_calibration c_status then MAV_STATE_CALIBRATING else MAV_STATE_UNINIT), mode)
         | SYSTEM_STATE_STANDBY \<Rightarrow> (MAV_STATE_STANDBY, mode)
         | SYSTEM_STATE_GROUND_READY \<Rightarrow> (MAV_STATE_ACTIVE, mode)
         | SYSTEM_STATE_MANUAL \<Rightarrow> (MAV_STATE_ACTIVE, mode OR MAV_MODE_FLAG_MANUAL_INPUT_ENABLED)
         | SYSTEM_STATE_STABILIZED \<Rightarrow> (MAV_STATE_ACTIVE, mode OR MAV_MODE_FLAG_STABILIZE_ENABLED)
         | SYSTEM_STATE_AUTO \<Rightarrow> (MAV_STATE_ACTIVE, mode OR MAV_MODE_FLAG_GUIDED_ENABLED)
         | SYSTEM_STATE_MISSION_ABORT \<Rightarrow> (MAV_STATE_EMERGENCY, mode)
         | SYSTEM_STATE_EMCY_LANDING \<Rightarrow> (MAV_STATE_EMERGENCY, mode)
         | SYSTEM_STATE_EMCY_CUTOFF \<Rightarrow> (MAV_STATE_EMERGENCY, mode)
         | SYSTEM_STATE_GROUND_ERROR \<Rightarrow> (MAV_STATE_EMERGENCY, mode)
         | SYSTEM_STATE_REBOOT \<Rightarrow> (MAV_STATE_POWEROFF, mode))"

text \<open>A message sent by the convenience functions is three writes.\<close>

definition mavlink_send_uart_bytes :: "bytes \<Rightarrow> 'a mavlink_link_scheme \<Rightarrow> 'a mavlink_link_scheme" where
  "mavlink_send_uart_bytes bs s = s\<lparr>writes := writes s @ [take (uart_takes s (length (writes s))) bs]\<rparr>"

definition send_pieces :: "u8 \<Rightarrow> u8 \<Rightarrow> bytes \<Rightarrow> 'a mavlink_link_scheme \<Rightarrow> 'a mavlink_link_scheme" where
  "send_pieces mid crc_extra packet s =
     (let (pieces, st) = mav_finalize_message_chan_send (sysid s) (compid s) mid packet (of_nat (length packet)) crc_extra
            (rx_status (link_rx s))
      in fold mavlink_send_uart_bytes pieces (s\<lparr>link_rx := (link_rx s)\<lparr>rx_status := st\<rparr>\<rparr>))"

definition MAV_AUTOPILOT_PX4 :: u8 where "MAV_AUTOPILOT_PX4 = 12"

definition send_heartbeat :: "mavlink_app \<Rightarrow> mavlink_app" where
  "send_heartbeat s =
     (let (mavlink_state, mavlink_mode) = get_mavlink_mode_and_state (v_status s) (act_armed s)
      in send_pieces MAVLINK_MSG_ID_HEARTBEAT 50
           (heartbeat_packet \<lparr>hb_custom_mode = ucast (state_code (state_machine (v_status s))), hb_type = system_type s,
              hb_autopilot = MAV_AUTOPILOT_PX4, hb_base_mode = mavlink_mode, hb_system_status = mavlink_state,
              hb_mavlink_version = 3\<rparr>) s)"

text \<open>Switching the simulation mode; the interval of the attitude setpoints depends on the rate of the link.\<close>

definition hil_rate_interval :: "int \<Rightarrow> nat" where
  "hil_rate_interval rate =
     (if rate < 19200 then 100 else if rate < 38400 then 100 else if rate < 115200 then 50 else if rate < 460800 then 20 else 10)"

definition set_hil_on_off :: "bool \<Rightarrow> mavlink_app \<Rightarrow> int \<times> mavlink_app" where
  "set_hil_on_off hil_enabled s =
     (let s1 = (if hil_enabled \<and> \<not> mavlink_hil_enabled s
                then (let (h, t) = orb_advertise (Hil_attitude (hil_att s)) s; t = t\<lparr>pub_hil_attitude := h\<rparr>;
                          (h, t) = orb_advertise (Hil_global_position (hil_pos t)) t
                      in t\<lparr>pub_hil_global_pos := h, mavlink_hil_enabled := True,
                           spa_intervals := spa_intervals t @ [hil_rate_interval (baudrate t)]\<rparr>)
                else s)
      in if \<not> hil_enabled \<and> mavlink_hil_enabled s1
         then (OK, s1\<lparr>mavlink_hil_enabled := False, spa_intervals := spa_intervals s1 @ [200]\<rparr>)
         else (ERROR, s1))"

text \<open>The branch of the thread that listens to the topics for a new vehicle status.\<close>

definition status_received :: "vehicle_status \<Rightarrow> actuator_armed \<Rightarrow> mavlink_app \<Rightarrow> mavlink_app" where
  "status_received st ac s =
     send_heartbeat (snd (set_hil_on_off (flag_hil_enabled st) (s\<lparr>v_status := st, act_armed := ac\<rparr>)))"

text \<open>The parameters that hold the address; a parameter that does not exist leaves the variable uninitialised.\<close>

definition id_parameter :: "param_table \<Rightarrow> string \<Rightarrow> mavlink_app \<Rightarrow> int option" where
  "id_parameter T name s = map_option (\<lambda>(r, v). sint v) (read_value T (param_find T (ascii name)) s)"

definition MAV_TYPE_ENUM_END :: int where "MAV_TYPE_ENUM_END = 18"

definition mavlink_update_system :: "param_table \<Rightarrow> mavlink_app \<Rightarrow> mavlink_app option" where
  "mavlink_update_system T s =
     Option.bind (id_parameter T ''MAV_SYS_ID'' s) (\<lambda>system_id.
     Option.bind (id_parameter T ''MAV_COMP_ID'' s) (\<lambda>component_id.
     Option.bind (id_parameter T ''MAV_TYPE'' s) (\<lambda>typ.
       (let s1 = (if 0 < system_id \<and> system_id < 255
                  then s\<lparr>sysid := word_of_int system_id, mission_part := (mission_part s)\<lparr>my_sysid := word_of_int system_id\<rparr>\<rparr> else s);
            s2 = (if 0 < component_id \<and> component_id < 255 then s1\<lparr>compid := word_of_int component_id\<rparr> else s1)
        in Some (if 0 \<le> typ \<and> typ < MAV_TYPE_ENUM_END then s2\<lparr>system_type := word_of_int typ\<rparr> else s2)))))"

text \<open>The text that another task writes to the log device is cut to 51 characters.\<close>

definition mavlink_dev_ioctl :: "c_string \<Rightarrow> mavlink_app \<Rightarrow> mavlink_app" where
  "mavlink_dev_ioctl txt s = s\<lparr>mavlink_message_string := take 51 txt\<rparr>"

text \<open>
  One turn of the main loop: once a second the heartbeat, in every turn the mission, one or two parameters of the queue, and the
  text. The status message of the once-a-second part is not modelled.
\<close>

definition lowspeed_part :: "param_table \<Rightarrow> mavlink_app \<Rightarrow> mavlink_app option" where
  "lowspeed_part T s =
     (if lowspeed_counter s = 10
      then map_option (\<lambda>t. (snd (set_hil_on_off (flag_hil_enabled (v_status t)) (send_heartbeat t)))\<lparr>lowspeed_counter := 0\<rparr>)
             (mavlink_update_system T s)
      else Some s)"

definition mavlink_main_turn :: "param_table \<Rightarrow> dtoa_result \<Rightarrow> nav \<Rightarrow> actuator_armed \<Rightarrow> mavlink_app \<Rightarrow> mavlink_app option" where
  "mavlink_main_turn T dtoa p ac s =
     Option.bind (lowspeed_part T (s\<lparr>act_armed := ac\<rparr>)) (\<lambda>s1.
     Option.bind (mission_turn dtoa (mavlink_waypoint_eventloop (app_hrt s1 (app_reads s1)) p)
                    (s1\<lparr>lowspeed_counter := Suc (lowspeed_counter s1), app_reads := Suc (app_reads s1)\<rparr>)) (\<lambda>s2.
     Option.bind (mavlink_pm_queued_send T s2) (\<lambda>(r, s3).
     Option.bind (if 57600 < baudrate s3 then mavlink_pm_queued_send T s3 else Some (0, s3)) (\<lambda>(r, s4).
       Some ((snd (mavlink_missionlib_send_gcs_string (mavlink_message_string s4) s4))\<lparr>mavlink_message_string := []\<rparr>)))))"

section \<open>Properties\<close>

subsection \<open>The text of a global waypoint\<close>

lemma dtoa_tail_length:
  assumes "numlen \<le> int (length digits)"
  shows "nat prec \<le> length (dtoa_tail digits numlen prec)"
proof -
  define k where "k = (if 0 < prec then min numlen prec else numlen)"
  have "k \<le> int (length digits)" using assms by (auto simp: k_def)
  moreover have "length (dtoa_tail digits numlen prec) = min (length digits) (nat k) + nat (prec - k)"
    by (simp add: dtoa_tail_def k_def Let_def)
  ultimately show ?thesis by linarith
qed

text \<open>With a precision there are at least a digit, the point, and so many digits behind it.\<close>

lemma lib_dtoa_length:
  assumes "0 < prec"
  shows "prec + 2 \<le> length (lib_dtoa dtoa prec value)"
proof -
  obtain digits expt where d: "dtoa (if f32_lt value 0 then value XOR 0x80000000 else value) prec = (digits, expt)" by fastforce
  define n where "n = (if expt < 0 then min (- expt) (int prec) else 0)"
  have n: "0 \<le> n" "n \<le> int prec" by (auto simp: n_def)
  have small: "prec \<le> nat n + length (dtoa_tail digits (int (length digits)) (int prec - n))"
    using dtoa_tail_length [of "int (length digits)" digits "int prec - n"] n by simp
  have large: "prec \<le> length (dtoa_tail (drop (nat expt) digits) (int (length digits) - expt) (max 1 (int prec)))" if "0 < expt"
    using dtoa_tail_length [of "int (length digits) - expt" "drop (nat expt) digits" "max 1 (int prec)"] assms that by auto
  have whole: "1 \<le> length (take (nat expt) digits @ replicate (nat expt - length digits) (CHR ''0''))" if "0 < expt"
    using that by (simp add: min_def)
  define W where "W = take (nat expt) digits @ replicate (nat expt - length digits) (CHR ''0'')"
  define A where "A = dtoa_tail digits (int (length digits)) (int prec - n)"
  define B where "B = dtoa_tail (drop (nat expt) digits) (int (length digits) - expt) (max 1 (int prec))"
  have "length (lib_dtoa dtoa prec value) \<ge> length (if f32_le value 0 \<and> f32_le 0 value \<or> expt < - int prec
      then ''0.'' @ replicate prec (CHR ''0'') else if expt \<le> 0 then ''0.'' @ replicate (nat n) (CHR ''0'') @ A else W @ ''.'' @ B)"
    unfolding lib_dtoa_def d Let_def prod.case n_def [symmetric] A_def B_def W_def using assms by (simp only: length_append if_True simp_thms)
  then show ?thesis
    using small large whole unfolding A_def [symmetric] B_def [symmetric] W_def [symmetric] by (auto split: if_splits)
qed

lemma index_text_length: "1 \<le> length (index_text n)"
  using decimal.simps(2) [of 4 "unat n"] by (simp add: index_text_def)

lemma global_text_length: "61 \<le> length (global_text dtoa index lat lon alt hdg)"
proof -
  have "8 \<le> length (lib_dtoa dtoa 6 v)" "6 \<le> length (lib_dtoa dtoa 4 v)" for v
    using lib_dtoa_length [of 6 dtoa v] lib_dtoa_length [of 4 dtoa v] by simp_all
  then have "8 \<le> length (justify n (lib_dtoa dtoa 6 v))" "6 \<le> length (justify n (lib_dtoa dtoa 4 v))" for n v
    unfolding justify_def length_append by (simp_all add: trans_le_add2)
  from this(1) [of 3 lat] this(1) [of 3 lon] this(1) [of 4 alt] this(2) [of 3 hdg] index_text_length [of index]
  show ?thesis unfolding global_text_def length_append by simp
qed

text \<open>
  C37. The text of a waypoint with global coordinates needs at least 61 characters, whatever digits the numbers have, and the
  buffer on the stack holds 50: every new global waypoint makes \<open>mavlink_missionlib_current_waypoint_changed\<close> write past its
  buffer.
\<close>

theorem waypoint_text_overruns:
  "waypoint_buf + 11 \<le> length (global_text dtoa index lat lon alt degrees) \<and>
    mavlink_missionlib_current_waypoint_changed dtoa index degrees lat lon alt MAV_FRAME_GLOBAL s = None"
  using global_text_length [of dtoa index lat lon alt degrees]
  by (simp add: mavlink_missionlib_current_waypoint_changed_def sprintf_buf_def waypoint_buf_def)
subsection \<open>Numbers\<close>

text \<open>An integer of at most 24 bits survives the conversion to a float and back.\<close>

lemma f32_of_int_exact:
  assumes "0 \<le> n" "n < 2 ^ 24"
  shows "f32_to_int (f32_of_int n) = Some n"
proof (cases "n = 0")
  case True
  then show ?thesis by (simp add: f32_of_int_def f32_round_def f32_pack_def f32_to_int_def f32_is_nan_def f32_is_inf_def
        f32_expo_def f32_field_def f32_mant_def)
next
  case False
  then have pos: "0 < n" using assms(1) by simp
  let ?b = "bit_count n" and ?x = "f32_of_int n"
  let ?m = "n * 2 ^ nat (24 - ?b)"
  note b = f32_of_int_bits [OF pos assms(2)]
  have u: "uint ?x = (?b + 126) * 2 ^ 23 + (?m - 2 ^ 23)" using b(1) by (simp add: algebra_simps)
  have rest: "0 \<le> ?m - 2 ^ 23" "?m - 2 ^ 23 < 2 ^ 23" using b(2,3) by simp_all
  have d: "uint ?x div 2 ^ 23 = ?b + 126" unfolding u using rest by (subst div_mult_self3) simp_all
  have r: "uint ?x mod 2 ^ 23 = ?m - 2 ^ 23" unfolding u mod_mult_self3 using rest by (rule mod_pos_pos_trivial)
  have less: "uint ?x < 0x7F800000" using u rest b(5) by simp
  have field: "f32_field ?x = ?b + 126" using d b(4,5) unfolding f32_split by simp
  then have "f32_field ?x \<noteq> 0" using b(4) by simp
  then have mant: "f32_mant ?x = ?m" using r by (simp add: f32_mant_def f32_split(2))
  have expo: "f32_expo ?x = ?b - 24" using field b(4) by (simp add: f32_expo_def)
  have "uint (?x AND 0x7FFFFFFF) < 0x7F800000" using less unfolding f32_split by simp
  then have small: "?x AND 0x7FFFFFFF < 0x7F800000" by (simp add: word_less_def)
  have plain: "\<not> f32_neg ?x" "\<not> f32_is_nan ?x" "\<not> f32_is_inf ?x"
    using less small by (auto simp: f32_split(4) f32_is_nan_def f32_is_inf_def)
  have "(if 0 \<le> ?b - 24 then ?m * 2 ^ nat (?b - 24) else ?m div 2 ^ nat (- (?b - 24))) = n"
  proof (cases "?b = 24")
    case False
    then have "\<not> 0 \<le> ?b - 24" "- (?b - 24) = 24 - ?b" using b(5) by simp_all
    then show ?thesis by (simp only: if_False) simp
  qed simp
  then show ?thesis by (simp only: f32_to_int_def plain mant expo Let_def if_False simp_thms)
qed

lemma f32_of_byte: "f32_to_u8 (f32_of_int (uint (b :: u8))) = Some b"
  using f32_of_int_exact [of "uint b"] uint_bounded [of b] by (simp add: f32_to_u8_def)
subsection \<open>Reading a frame\<close>

text \<open>The message is complete at the last byte of its frame and not before.\<close>

lemma completes_at_last:
  assumes "rx_ready rx" "length p \<le> 255"
  shows "\<exists>bs b rx1. sent_frame sq sid cid mid p = bs @ [b] \<and> parse_chars bs rx = ([], rx1)"
proof -
  let ?h = "header sq sid cid mid p"
  obtain a b where ab: "crc_bytes (frame_crc ?h p) = [a, b]" by (simp add: crc_bytes_def)
  let ?bs = "[MAVLINK_STX] @ ?h @ p @ [a]"
  have f: "sent_frame sq sid cid mid p = ?bs @ [b]"
    using ab by (simp add: sent_frame_def Mavlink_Frame.frame_def crc_bytes_def Let_def)
  have q: "at_rest (parse_state (rx_status rx), packet_idx (rx_status rx), rx_msg rx)" "length (payload (rx_msg rx)) = PAYLOAD_BYTES"
    using assms(1) by (simp_all add: rx_ready_def parser_of_def)
  obtain m where "parser_run ([MAVLINK_STX] @ ?h @ p @ [a]) (parser_of rx) =
      parser_run [a] (MAVLINK_PARSE_STATE_GOT_PAYLOAD, word_of_nat (length p), m)"
    using before_checksum [OF q(1) assms(2) q(2), where sq = sq and sid = sid and cid = cid and mid = mid and rest = "[a]"]
    unfolding parser_of_def by blast
  then have "fst (parser_run ?bs (parser_of rx)) = []" by (simp only: append_assoc) (simp add: Let_def)
  moreover have "parser_run ?bs (parser_of rx) = (fst (parse_chars ?bs rx), parser_of (snd (parse_chars ?bs rx)))"
    by (rule parse_chars_parser) simp
  ultimately have "parse_chars ?bs rx = ([], snd (parse_chars ?bs rx))" by (simp add: prod_eq_iff)
  then show ?thesis using f by blast
qed

text \<open>One character of the port does to the application what it does to the parser.\<close>

lemma receive_one:
  assumes "parse_chars [c] (link_rx s) = (ms, rx)"
  shows "ms = [] \<Longrightarrow> receive_char T dtoa junk p c s = Some (s\<lparr>link_rx := rx\<rparr>)"
    and "ms = [m] \<Longrightarrow> receive_char T dtoa junk p c s = handle_all T dtoa junk p m (s\<lparr>link_rx := rx\<rparr>)"
proof -
  obtain r out rx1 where c: "mavlink_parse_char c (link_rx s) = (r, out, rx1)" by (metis surj_pair)
  show "ms = [] \<Longrightarrow> receive_char T dtoa junk p c s = Some (s\<lparr>link_rx := rx\<rparr>)"
    "ms = [m] \<Longrightarrow> receive_char T dtoa junk p c s = handle_all T dtoa junk p m (s\<lparr>link_rx := rx\<rparr>)"
    using assms parse_char_parser [OF c] by (auto simp: receive_char_def c split: option.splits)
qed

lemma read_quiet:
  "parse_chars bs (link_rx s) = ([], rx) \<Longrightarrow>
   read_loop T dtoa junk p (map Some bs @ rs) ch s = read_loop T dtoa junk p rs (last (ch # bs)) (s\<lparr>link_rx := rx\<rparr>)"
proof (induction bs arbitrary: ch s)
  case (Cons c bs)
  obtain ms rx1 where c: "parse_chars [c] (link_rx s) = (ms, rx1)" by (metis surj_pair)
  have two: "parse_chars ([c] @ bs) (link_rx s) = ([], rx)" using Cons.prems by simp
  then have "ms = []" "parse_chars bs rx1 = ([], rx)" unfolding parse_chars_append c by (simp_all add: prod_eq_iff)
  then show ?case using receive_one(1) [OF c] Cons.IH [of "s\<lparr>link_rx := rx1\<rparr>" c] by simp
qed auto

text \<open>A frame from the port is handled once.\<close>

lemma port_frame_received:
  assumes "rx_ready (link_rx s)" "length q \<le> 255"
    and "parse_chars (sent_frame sq sid cid mid q) (link_rx s) = ([m], rx)"
  shows "read_loop T dtoa junk p (map Some (sent_frame sq sid cid mid q) @ rs) ch s =
    Option.bind (handle_all T dtoa junk p m (s\<lparr>link_rx := rx\<rparr>)) (read_loop T dtoa junk p rs (last (sent_frame sq sid cid mid q)))"
proof -
  obtain bs b rx1 where f: "sent_frame sq sid cid mid q = bs @ [b]" "parse_chars bs (link_rx s) = ([], rx1)"
    using completes_at_last [OF assms(1,2)] by blast
  have "parse_chars [b] (link_rx (s\<lparr>link_rx := rx1\<rparr>)) = ([m], rx)"
    using assms(3) unfolding f(1) parse_chars_append f(2) by (simp add: prod_eq_iff)
  from receive_one(2) [OF this refl] show ?thesis
    unfolding f(1) using read_quiet [OF f(2), of T dtoa junk p "Some b # rs" ch] by simp
qed
subsection \<open>A mode for any system\<close>

lemmas msgid_defs = MAVLINK_MSG_ID_COMMAND_LONG_def MAVLINK_MSG_ID_OPTICAL_FLOW_def MAVLINK_MSG_ID_SET_MODE_def
  MAVLINK_MSG_ID_VICON_POSITION_ESTIMATE_def MAVLINK_MSG_ID_SET_QUAD_SWARM_ROLL_PITCH_YAW_THRUST_def MAVLINK_MSG_ID_HIL_STATE_def
  MAVLINK_MSG_ID_MANUAL_CONTROL_def MAVLINK_MSG_ID_MISSION_ACK_def MAVLINK_MSG_ID_MISSION_SET_CURRENT_def
  MAVLINK_MSG_ID_MISSION_REQUEST_LIST_def MAVLINK_MSG_ID_MISSION_REQUEST_def MAVLINK_MSG_ID_MISSION_COUNT_def
  MAVLINK_MSG_ID_MISSION_ITEM_def MAVLINK_MSG_ID_MISSION_CLEAR_ALL_def MAVLINK_MSG_ID_PARAM_REQUEST_LIST_def
  MAVLINK_MSG_ID_PARAM_REQUEST_READ_def MAVLINK_MSG_ID_PARAM_SET_def

text \<open>Without a mission, a message of another component leaves everything but the times of the mission component alone.\<close>

lemma no_mission_quiet:
  assumes "wp_size (wpm (mission_part s)) = 0"
  shows "\<exists>w. mission_turn dtoa (mavlink_wpm_message_handler sid cid OTHER_MESSAGE p) s = Some (s\<lparr>mission_part := w\<rparr>)"
  using assms
  by (auto simp: mission_turn_def mavlink_wpm_message_handler_def check_waypoints_reached_def check_position_def check_hold_def Let_def)

lemma publishes:
  assumes "0 < h \<or> orb_ok s (orb_calls s)"
  shows "\<exists>h' n. advertise_or_publish h v s = Some (h', s\<lparr>orb_calls := n, published := published s @ [v]\<rparr>)"
proof (cases "h \<le> 0")
  case True
  then show ?thesis using assms by (simp add: advertise_or_publish_def orb_advertise_def Let_def) blast
next
  case False
  have "s\<lparr>orb_calls := orb_calls s, published := published s @ [v]\<rparr> = s\<lparr>published := published s @ [v]\<rparr>" by simp
  then show ?thesis using False
    by (intro exI [of _ h] exI [of _ "orb_calls s"]) (simp add: advertise_or_publish_def orb_publish_def)
qed

lemma set_mode_published:
  assumes "msgid m = MAVLINK_MSG_ID_SET_MODE" "mavlink_msg_set_mode_decode (payload m) = x"
    and "wp_size (wpm (mission_part s)) = 0" "0 < cmd_pub s \<or> orb_ok s (orb_calls s)"
  shows "\<exists>s'. handle_all T dtoa junk p m s = Some s' \<and> published s' = published s @ [Vehicle_command (vehicle_command_of_mode m x)]"
proof -
  obtain h n where "handleMessage m s = Some (s\<lparr>orb_calls := n, published := published s @ [Vehicle_command (vehicle_command_of_mode m x)], cmd_pub := h\<rparr>)"
    using publishes [OF assms(4), of "Vehicle_command (vehicle_command_of_mode m x)"] assms(1,2)
    by (auto simp: handleMessage_def handle_set_mode_def msgid_defs)
  moreover have "mission_msg_of m = OTHER_MESSAGE" using assms(1) by (simp add: mission_msg_of_def msgid_defs)
  ultimately show ?thesis
    using no_mission_quiet [of "s\<lparr>orb_calls := n, published := published s @ [Vehicle_command (vehicle_command_of_mode m x)], cmd_pub := h\<rparr>"
        dtoa "msg_sysid m" "msg_compid m" p] assms(1,3)
    by (auto simp: handle_all_def mavlink_pm_message_handler_def msgid_defs)
qed

lemma mode_command_obeyed:
  assumes "commander_inv (core c)"
  shows "\<exists>r c'. handle_command T (vehicle_command.truncate (vehicle_command_of_mode m x)) c = Done r c' \<and>
    commander_inv (core c') \<and> spec_step (Mode_request (sm_base_mode x)) (view (core c)) = Some (view (core c'))"
proof -
  obtain c' where "request_mode (sm_base_mode x) c = Done (if spec_mode_code (sm_base_mode x) (view (core c)) = 0
      then MAV_RESULT_ACCEPTED else MAV_RESULT_DENIED) c'"
    "commander_inv (core c')" "spec_step (Mode_request (sm_base_mode x)) (view (core c)) = Some (view (core c'))"
    by (rule on_core_request [OF assms])
  then show ?thesis
    by (simp add: handle_command_def vehicle_command_of_mode_def vehicle_command.truncate_def with_u8_def f32_of_byte)
qed

text \<open>
  C35. The bytes of a mode request on the serial port end in the commander: the link publishes one command, and the commander
  that handles it takes the step of its specification for the requested mode. The system that the request names is never looked
  at, so a request that a ground station sends to another vehicle is obeyed as well. This holds while no mission is stored (with one,
  any message may be the moment at which the next waypoint is announced, in a text that may overrun its buffer, C37), when the topic of
  commands can be advertised, for a commander that is consistent (C14).
\<close>
theorem foreign_mode_request_obeyed:
  assumes "rx_ready (link_rx s)" "wp_size (wpm (mission_part s)) = 0" "0 < cmd_pub s \<or> orb_ok s (orb_calls s)"
    and "commander_inv (core c)"
  shows "\<exists>ch' s' v r c'.
    read_loop T dtoa junk p (map Some (sent_frame sq sid cid MAVLINK_MSG_ID_SET_MODE (set_mode_packet x))) ch s = Some ([], ch', s') \<and>
    published s' = published s @ [Vehicle_command v] \<and> vc_target_system v = sm_target_system x \<and>
    handle_command T (vehicle_command.truncate v) c = Done r c' \<and>
    spec_step (Mode_request (sm_base_mode x)) (view (core c)) = Some (view (core c'))"
proof -
  obtain m rx where m: "parse_chars (sent_frame sq sid cid MAVLINK_MSG_ID_SET_MODE (set_mode_packet x)) (link_rx s) = ([m], rx)"
    "from_sender sid cid MAVLINK_MSG_ID_SET_MODE m" "mavlink_msg_set_mode_decode (payload m) = x"
    by (rule set_mode_msg.one_arrives [OF TrueI assms(1)])
  obtain s' where s': "handle_all T dtoa junk p m (s\<lparr>link_rx := rx\<rparr>) = Some s'"
    "published s' = published s @ [Vehicle_command (vehicle_command_of_mode m x)]"
    using set_mode_published [OF _ m(3), where s = "s\<lparr>link_rx := rx\<rparr>" and T = T and dtoa = dtoa and junk = junk and p = p] m(2) assms(2,3)
    by (auto simp: from_sender_def)
  obtain r c' where c': "handle_command T (vehicle_command.truncate (vehicle_command_of_mode m x)) c = Done r c'"
    "spec_step (Mode_request (sm_base_mode x)) (view (core c)) = Some (view (core c'))"
    using mode_command_obeyed [OF assms(4)] by blast
  have "vc_target_system (vehicle_command_of_mode m x) = sm_target_system x" by (simp add: vehicle_command_of_mode_def)
  then show ?thesis
    using port_frame_received [OF assms(1) set_mode_msg.short [OF TrueI] m(1), of T dtoa junk p "[]" ch] s' c' by auto
qed
subsection \<open>The heartbeat\<close>

text \<open>The three pieces of a message are its frame.\<close>

lemma three_pieces:
  assumes "uart_open s" "length p \<le> 255"
  shows "\<exists>bs. writes (send_pieces mid (MAVLINK_MESSAGE_CRC mid) p s) = writes s @ bs \<and>
    concat bs = sent_frame (next_seq s) (sysid s) (compid s) mid p"
proof -
  let ?n = "of_nat (length p) :: u8"
  have n: "unat ?n = length p" using assms(2) by (simp add: unsigned_of_nat take_bit_nat_eq_self)
  have room: "263 \<le> uart_takes s k" for k using assms(1) by (simp add: uart_open_def)
  then have whole: "take (uart_takes s k) bs = bs" if "length bs \<le> 263" for k and bs :: bytes
    using that by (meson order_trans take_all_iff)
  have pieces: "take (uart_takes s k) [a, b, c, d, e, f] = [a, b, c, d, e, f]" "take (uart_takes s k) p = p"
    "take (uart_takes s k) [a, b] = [a, b]" for k and a b c d e f :: u8
    by (rule whole, use assms(2) in simp)+
  have crc: "crc_accumulate (MAVLINK_MESSAGE_CRC mid) (crc_accumulate_buffer (crc_calculate [?n, next_seq s, sysid s, compid s, mid]) p) =
      frame_crc (header (next_seq s) (sysid s) (compid s) mid p) p"
    by (simp add: frame_crc_header crc_calculate_def)
  show ?thesis
    using crc
    by (simp add: send_pieces_def mav_finalize_message_chan_send_def mavlink_send_uart_bytes_def Let_def n pieces next_seq_def [symmetric]
        sent_frame_def Mavlink_Frame.frame_def)
      (simp add: header_def)
qed

text \<open>The heartbeat that describes a vehicle.\<close>

definition describes :: "mavlink_heartbeat_t \<Rightarrow> vehicle_status \<Rightarrow> bool" where
  "describes hb st \<longleftrightarrow> hb_custom_mode hb = ucast (state_code (state_machine st)) \<and>
     (hb_base_mode hb AND MAV_MODE_FLAG_SAFETY_ARMED \<noteq> 0 \<longleftrightarrow> armed_state (state_machine st)) \<and>
     (hb_base_mode hb AND MAV_MODE_FLAG_HIL_ENABLED \<noteq> 0 \<longleftrightarrow> flag_hil_enabled st)"

lemma mode_bits:
  assumes "get_mavlink_mode_and_state st ac = (state, mode)"
  shows "mode AND MAV_MODE_FLAG_SAFETY_ARMED \<noteq> 0 \<longleftrightarrow> armed ac"
    and "mode AND MAV_MODE_FLAG_HIL_ENABLED \<noteq> 0 \<longleftrightarrow> flag_hil_enabled st"
  using assms
  by (cases "state_machine st"; cases "armed ac"; cases "flag_hil_enabled st"; cases "flag_control_manual_enabled st";
      auto simp: get_mavlink_mode_and_state_def mode_flags Let_def)+

lemma own_mode_changes_nothing:
  assumes "arms mode \<longleftrightarrow> armed_state st" "wants_hil mode \<longleftrightarrow> hil"
  shows "spec_step (Mode_request mode) (st, hil) = Some (st, hil)"
  using assms by (cases st) auto

text \<open>
  C36. A ground station that parses what the link writes for a heartbeat receives one heartbeat that tells the state of the
  commander, whether it is armed and whether it is simulated. A station that echoes the mode of the heartbeat as a request
  changes nothing.
\<close>
theorem heartbeat_is_truthful:
  assumes "uart_open s" "rx_ready station" "commander_inv c" "v_status s = current_status c" "act_armed s = actuators c"
  shows "\<exists>bs m station'. writes (send_heartbeat s) = writes s @ bs \<and> parse_chars (concat bs) station = ([m], station') \<and>
    from_sender (sysid s) (compid s) MAVLINK_MSG_ID_HEARTBEAT m \<and>
    describes (mavlink_msg_heartbeat_decode (payload m)) (current_status c) \<and>
    spec_step (Mode_request (hb_base_mode (mavlink_msg_heartbeat_decode (payload m)))) (view c) = Some (view c)"
proof -
  obtain state mode where g: "get_mavlink_mode_and_state (current_status c) (actuators c) = (state, mode)" by (metis surj_pair)
  let ?hb = "\<lparr>hb_custom_mode = ucast (state_code (state_machine (current_status c))), hb_type = system_type s,
      hb_autopilot = MAV_AUTOPILOT_PX4, hb_base_mode = mode, hb_system_status = state, hb_mavlink_version = 3\<rparr>"
  obtain bs where bs: "writes (send_heartbeat s) = writes s @ bs"
    "concat bs = sent_frame (next_seq s) (sysid s) (compid s) MAVLINK_MSG_ID_HEARTBEAT (heartbeat_packet ?hb)"
    using three_pieces [OF assms(1) heartbeat_msg.short [OF TrueI], of MAVLINK_MSG_ID_HEARTBEAT ?hb] g assms(4,5)
    by (auto simp: send_heartbeat_def heartbeat_msg.crc_known)
  obtain m st' where m: "parse_chars (concat bs) station = ([m], st')" "from_sender (sysid s) (compid s) MAVLINK_MSG_ID_HEARTBEAT m"
    "mavlink_msg_heartbeat_decode (payload m) = ?hb"
    unfolding bs(2) by (rule heartbeat_msg.one_arrives [OF TrueI assms(2)])
  have armed: "armed (actuators c) \<longleftrightarrow> armed_state (state_machine (current_status c))"
    using assms(3) by (auto simp: commander_inv_def actuators_def)
  have "describes ?hb (current_status c)" using mode_bits [OF g] armed by (simp add: describes_def)
  moreover have "spec_step (Mode_request mode) (view c) = Some (view c)"
    using mode_bits [OF g] armed own_mode_changes_nothing [of mode "state_machine (current_status c)" "flag_hil_enabled (current_status c)"]
    by (simp add: view_def arms_def wants_hil_def mode_flags VEHICLE_MODE_FLAG_SAFETY_ARMED_def VEHICLE_MODE_FLAG_HIL_ENABLED_def
        del: spec_step.simps)
  ultimately show ?thesis using bs m by (intro exI [of _ bs] exI [of _ m] exI [of _ st']) (simp del: spec_step.simps)
qed
subsection \<open>The mission component over the wire\<close>

text \<open>What a message tells a station about the output of the mission component.\<close>

fun carries :: "u8 \<Rightarrow> u8 \<Rightarrow> mavlink_message \<Rightarrow> mission_out \<Rightarrow> bool" where
  "carries sid cid m (Out_ack sys cmp ty) \<longleftrightarrow> from_sender sid mavlink_wpm_comp_id MAVLINK_MSG_ID_MISSION_ACK m \<and>
     mavlink_msg_mission_ack_decode (payload m) = \<lparr>ma_target_system = sys, ma_target_component = cmp, ma_type = ty\<rparr>"
| "carries sid cid m (Out_current n) \<longleftrightarrow> from_sender sid mavlink_wpm_comp_id MAVLINK_MSG_ID_MISSION_CURRENT m \<and>
     mc_seq (mavlink_msg_mission_current_decode (payload m)) = n"
| "carries sid cid m (Out_count sys cmp n) \<longleftrightarrow> from_sender sid mavlink_wpm_comp_id MAVLINK_MSG_ID_MISSION_COUNT m \<and>
     mavlink_msg_mission_count_decode (payload m) = \<lparr>mct_count = n, mct_target_system = sys, mct_target_component = cmp\<rparr>"
| "carries sid cid m (Out_item it) \<longleftrightarrow> from_sender sid mavlink_wpm_comp_id MAVLINK_MSG_ID_MISSION_ITEM m \<and>
     mavlink_msg_mission_item_decode (payload m) = it"
| "carries sid cid m (Out_request sys cmp n) \<longleftrightarrow> from_sender sid mavlink_wpm_comp_id MAVLINK_MSG_ID_MISSION_REQUEST m \<and>
     mavlink_msg_mission_request_decode (payload m) = \<lparr>mr_seq = n, mr_target_system = sys, mr_target_component = cmp\<rparr>"
| "carries sid cid m (Out_reached n) \<longleftrightarrow> from_sender sid mavlink_wpm_comp_id MAVLINK_MSG_ID_MISSION_ITEM_REACHED m \<and>
     mir_seq (mavlink_msg_mission_item_reached_decode (payload m)) = n"
| "carries sid cid m (Out_text t) \<longleftrightarrow> from_sender sid cid MAVLINK_MSG_ID_STATUSTEXT m \<and>
     take (length (take 49 t)) (st_text (mavlink_msg_statustext_decode (payload m))) = ascii (take 49 t)"
| "carries sid cid m (Out_setpoint n ps fr cmd) \<longleftrightarrow> False"

text \<open>Output that is sent as a message; a setpoint is published instead, and a text of one character is not sent.\<close>

fun wire_output :: "mission_out \<Rightarrow> bool" where
  "wire_output (Out_text t) \<longleftrightarrow> 1 < length t"
| "wire_output (Out_setpoint n ps fr cmd) \<longleftrightarrow> False"
| "wire_output _ \<longleftrightarrow> True"

definition port_good :: "mavlink_app \<Rightarrow> bool" where
  "port_good s \<longleftrightarrow> uart_open s \<and> length (stack_bytes s) = 51"

text \<open>One message was sent, and a station that receives it knows the output.\<close>

definition tells :: "mavlink_app \<Rightarrow> mission_out \<Rightarrow> mavlink_app \<Rightarrow> bool" where
  "tells s reply s' \<longleftrightarrow> (\<exists>c mid q. s' = after_sending c mid q s \<and>
     (\<forall>station. rx_ready station \<longrightarrow> (\<exists>m station'. parse_chars (sent_frame (next_seq s) (sysid s) c mid q) station = ([m], station') \<and>
        rx_ready station' \<and> carries (sysid s) (compid s) m reply)))"

context wire_message
begin

lemma tells_message:
  assumes "proper x" "uart_open s" "\<And>m. from_sender (sysid s) c mid m \<Longrightarrow> dec (payload m) = x \<Longrightarrow> carries (sysid s) (compid s) m reply"
  shows "tells s reply (snd (send_packed mid crc_extra (enc x) c s))"
  unfolding tells_def sent [OF assms(1,2)] after_sending_def snd_conv
  using one_arrives [OF assms(1)] assms(3) by metis

end
lemma perform_tells:
  assumes "port_good s" "wire_output reply"
  shows "\<exists>s'. perform dtoa reply s = Some s' \<and> tells s reply s'"
proof (cases reply)
  case (Out_text t)
  let ?x = "gcs_statustext (ascii t) (stack_bytes s)"
  have good: "uart_open s" "length (stack_bytes s) = 51" using assms(1) by (simp_all add: port_good_def)
  have sent: "snd (mavlink_missionlib_send_gcs_string (ascii t) s) =
      snd (send_packed MAVLINK_MSG_ID_STATUSTEXT 83 (statustext_packet ?x) (compid s) s)"
    using assms(2) Out_text by (simp add: mavlink_missionlib_send_gcs_string_def MAVLINK_MSG_STATUSTEXT_FIELD_TEXT_LEN_def)
  have proper: "length (st_text ?x) = 50"
    using good(2) by (simp add: gcs_statustext_def MAVLINK_MSG_STATUSTEXT_FIELD_TEXT_LEN_def Let_def)
  have cut: "take (length (take 49 t)) (st_text ?x) = ascii (take 49 t)"
    by (simp add: gcs_statustext_def MAVLINK_MSG_STATUSTEXT_FIELD_TEXT_LEN_def Let_def ascii_def take_map min_def)
  show ?thesis
    using statustext_msg.tells_message [OF proper good(1), of "compid s" "Out_text t"] cut sent Out_text by simp
qed (use assms in \<open>auto simp: port_good_def intro!: mission_ack_msg.tells_message mission_current_msg.tells_message
    mission_count_msg.tells_message mission_item_msg.tells_message mission_request_msg.tells_message
    mission_item_reached_msg.tells_message\<close>)

lemma after_sending_app [simp]:
  "mission_part (after_sending c mid q s) = mission_part s" "compid (after_sending c mid q s) = compid s"
  "port_good (after_sending c mid q s) = port_good s" "published (after_sending c mid q s) = published s"
  by (simp_all add: after_sending_def port_good_def uart_open_def)

lemma perform_all_tells:
  "port_good s \<Longrightarrow> list_all wire_output replies \<Longrightarrow> rx_ready station \<Longrightarrow>
   \<exists>s' bs ms station'. perform_all dtoa replies s = Some s' \<and> writes s' = writes s @ bs \<and>
     parse_chars (concat bs) station = (ms, station') \<and> list_all2 (carries (sysid s) (compid s)) ms replies \<and>
     mission_part s' = mission_part s \<and> published s' = published s"
proof (induction replies arbitrary: s station)
  case (Cons reply replies)
  obtain s1 where s1: "perform dtoa reply s = Some s1" "tells s reply s1"
    using perform_tells [OF Cons.prems(1)] Cons.prems(2) by auto
  obtain c mid q m st1 where q: "s1 = after_sending c mid q s"
    "parse_chars (sent_frame (next_seq s) (sysid s) c mid q) station = ([m], st1)" "rx_ready st1" "carries (sysid s) (compid s) m reply"
    using s1(2) Cons.prems(3) unfolding tells_def by blast
  obtain s' bs ms st2 where s': "perform_all dtoa replies s1 = Some s'" "writes s' = writes s1 @ bs"
    "parse_chars (concat bs) st1 = (ms, st2)" "list_all2 (carries (sysid s1) (compid s1)) ms replies"
    "mission_part s' = mission_part s1" "published s' = published s1"
    using Cons.IH [of s1 st1] Cons.prems q(1,3) by auto
  show ?case
    using s1(1) s' q(1,4) parse_two [OF q(2) s'(3)]
    by (intro exI [of _ s'] exI [of _ "sent_frame (next_seq s) (sysid s) c mid q # bs"] exI [of _ "m # ms"] exI [of _ st2]) simp
qed simp
text \<open>How a station sends a message for the mission component; fields that the handler does not read are zero.\<close>

fun wire_of :: "mission_msg \<Rightarrow> u8 \<times> bytes" where
  "wire_of (MISSION_ACK t) =
     (MAVLINK_MSG_ID_MISSION_ACK, mission_ack_packet \<lparr>ma_target_system = t, ma_target_component = 0, ma_type = 0\<rparr>)"
| "wire_of (MISSION_SET_CURRENT t n) =
     (MAVLINK_MSG_ID_MISSION_SET_CURRENT, mission_set_current_packet \<lparr>msc_seq = n, msc_target_system = t, msc_target_component = 0\<rparr>)"
| "wire_of (MISSION_REQUEST_LIST t) =
     (MAVLINK_MSG_ID_MISSION_REQUEST_LIST, mission_request_list_packet \<lparr>mrl_target_system = t, mrl_target_component = 0\<rparr>)"
| "wire_of (MISSION_REQUEST t n) =
     (MAVLINK_MSG_ID_MISSION_REQUEST, mission_request_packet \<lparr>mr_seq = n, mr_target_system = t, mr_target_component = 0\<rparr>)"
| "wire_of (MISSION_COUNT t n) =
     (MAVLINK_MSG_ID_MISSION_COUNT, mission_count_packet \<lparr>mct_count = n, mct_target_system = t, mct_target_component = 0\<rparr>)"
| "wire_of (MISSION_ITEM it) = (MAVLINK_MSG_ID_MISSION_ITEM, mission_item_packet it)"
| "wire_of (MISSION_CLEAR_ALL t) =
     (MAVLINK_MSG_ID_MISSION_CLEAR_ALL, mission_clear_all_packet \<lparr>mca_target_system = t, mca_target_component = 0\<rparr>)"
| "wire_of OTHER_MESSAGE = (MAVLINK_MSG_ID_HEARTBEAT,
     heartbeat_packet \<lparr>hb_custom_mode = 0, hb_type = 6, hb_autopilot = 8, hb_base_mode = 0, hb_system_status = 0, hb_mavlink_version = 3\<rparr>)"

text \<open>A payload arrives as the message that the handler of the mission component reads.\<close>

definition received_as :: "u8 \<Rightarrow> bytes \<Rightarrow> mission_msg \<Rightarrow> bool" where
  "received_as mid q mm \<longleftrightarrow> length q \<le> 255 \<and> (\<forall>sq sid cid rx. rx_ready rx \<longrightarrow>
     (\<exists>m rx'. parse_chars (sent_frame sq sid cid mid q) rx = ([m], rx') \<and> from_sender sid cid mid m \<and> mission_msg_of m = mm \<and> rx_ready rx'))"

context wire_message
begin

lemma received_asI:
  assumes "proper x" "\<And>sid cid m. from_sender sid cid mid m \<Longrightarrow> dec (payload m) = x \<Longrightarrow> mission_msg_of m = mm"
  shows "received_as mid (enc x) mm"
  unfolding received_as_def using short [OF assms(1)] one_arrives [OF assms(1)] assms(2) by metis

end

lemma wire_of_received: "received_as (fst (wire_of mm)) (snd (wire_of mm)) mm"
  by (cases mm) (auto simp: mission_msg_of_def from_sender_def msgid_defs MAVLINK_MSG_ID_HEARTBEAT_def Let_def
      intro!: mission_ack_msg.received_asI [unfolded msgid_defs] mission_set_current_msg.received_asI [unfolded msgid_defs]
      mission_request_list_msg.received_asI [unfolded msgid_defs] mission_request_msg.received_asI [unfolded msgid_defs]
      mission_count_msg.received_asI [unfolded msgid_defs] mission_item_msg.received_asI [unfolded msgid_defs]
      mission_clear_all_msg.received_asI [unfolded msgid_defs] heartbeat_msg.received_asI [unfolded MAVLINK_MSG_ID_HEARTBEAT_def])

text \<open>The other two handlers leave these messages alone.\<close>

lemma only_for_missions:
  assumes "from_sender sid cid (fst (wire_of mm)) m"
  shows "handleMessage m s = Some s" "mavlink_pm_message_handler T junk m s = Some s"
  using assms by (cases mm; simp add: handleMessage_def mavlink_pm_message_handler_def from_sender_def msgid_defs MAVLINK_MSG_ID_HEARTBEAT_def)+

text \<open>
  C34. The link carries the mission protocol: the bytes of a message for the mission component make the component take the step
  that its own handler takes, and a station that parses what the link writes receives its answers, all of them and in order, each
  with the content that the component gave it. Setpoints are left out: they are published, not sent.
\<close>
theorem mission_over_the_wire:
  assumes "rx_ready (link_rx s)" "port_good s" "rx_ready station"
    and "mavlink_wpm_message_handler sid cid mm p (mission_part s) = Some w"
    and "outbox w = outbox (mission_part s) @ replies" "list_all wire_output replies"
  shows "\<exists>ch' s' bs ms station'.
    read_loop T dtoa junk p (map Some (sent_frame sq sid cid (fst (wire_of mm)) (snd (wire_of mm)))) ch s = Some ([], ch', s') \<and>
    mission_part s' = w \<and> writes s' = writes s @ bs \<and> parse_chars (concat bs) station = (ms, station') \<and>
    list_all2 (carries (sysid s) (compid s)) ms replies"
proof -
  have short: "length (snd (wire_of mm)) \<le> 255" using wire_of_received unfolding received_as_def by blast
  obtain m rx where m: "parse_chars (sent_frame sq sid cid (fst (wire_of mm)) (snd (wire_of mm))) (link_rx s) = ([m], rx)"
    "from_sender sid cid (fst (wire_of mm)) m" "mission_msg_of m = mm"
    using wire_of_received [of mm] assms(1) unfolding received_as_def by blast
  let ?s = "s\<lparr>link_rx := rx, mission_part := w\<rparr>"
  have good: "port_good ?s" using assms(2) by (simp add: port_good_def uart_open_def)
  obtain s' bs ms st where s': "perform_all dtoa replies ?s = Some s'" "writes s' = writes ?s @ bs"
    "parse_chars (concat bs) station = (ms, st)" "list_all2 (carries (sysid ?s) (compid ?s)) ms replies" "mission_part s' = mission_part ?s"
    using perform_all_tells [OF good assms(6,3)] by blast
  have "mission_turn dtoa (mavlink_wpm_message_handler sid cid mm p) (s\<lparr>link_rx := rx\<rparr>) = Some s'"
    using assms(4,5) s'(1) by (simp add: mission_turn_def)
  then have "handle_all T dtoa junk p m (s\<lparr>link_rx := rx\<rparr>) = Some s'"
    using m(2,3) only_for_missions [OF m(2)] by (simp add: handle_all_def) (simp add: from_sender_def)
  then show ?thesis
    using port_frame_received [OF assms(1) short m(1), of T dtoa junk p "[]" ch] s'(2-5) by auto
qed
subsection \<open>Examples\<close>

definition example_hil :: hil_attitude where
  "example_hil = \<lparr>at_timestamp = 0, at_counter = 0, at_angles = [0, 0, 0], at_rates = [0, 0, 0]\<rparr>"

definition example_app :: mavlink_app where
  "example_app = \<lparr>link_rx = new_rx, sysid = 42, compid = 50, system_type = 2, writes = [], uart_takes = (\<lambda>k. 300),
     stack_bytes = replicate 51 0, pm_store = example_changed, mavlink_param_queue_index = 1, mavlink_parameter_file = None,
     pm_opens = (\<lambda>k. Some 1000), pm_open_calls = 0, mission_part = example_start, cmd_pub = -1, flow_pub = -1,
     vicon_position_pub = -1, offboard_control_sp_pub = -1, pub_hil_attitude = -1, pub_hil_global_pos = -1, rc_pub = 0, mc_pub = 0,
     global_position_setpoint_pub = -1, local_position_setpoint_pub = -1, orb_ok = (\<lambda>k. True), orb_calls = 0, published = [],
     hil_att = example_hil,
     hil_pos = \<lparr>gp_timestamp = 0, gp_lat = 0, gp_lon = 0, gp_alt = 0, gp_vx = 0, gp_vy = 0, gp_vz = 0\<rparr>,
     mavlink_hil_enabled = False, thread_should_exit = False, mavlink_message_string = [], v_status = initial_status,
     act_armed = \<lparr>armed = False, lockdown = True\<rparr>, lowspeed_counter = 0, spa_intervals = [], baudrate = 57600,
     app_hrt = of_nat, app_reads = 0\<rparr>"

lemma example_app_good: "port_good example_app" "rx_ready (link_rx example_app)" "mission_part example_app = example_start"
  by (simp_all add: port_good_def uart_open_def example_app_def new_rx_ready)

definition example_mode :: mavlink_set_mode_t where
  "example_mode = \<lparr>sm_custom_mode = 0, sm_target_system = 7, sm_base_mode = 128\<rparr>"

text \<open>Vehicle 42 arms on a request for vehicle 7.\<close>

lemma foreign_mode_request_obeyed_witness:
  "\<forall>T dtoa junk p. \<exists>c ch' s' v r c'. view (core c) = (SYSTEM_STATE_PREFLIGHT, False) \<and>
    read_loop T dtoa junk p (map Some (sent_frame 0 255 190 MAVLINK_MSG_ID_SET_MODE (set_mode_packet example_mode))) 0 example_app =
      Some ([], ch', s') \<and>
    published s' = [Vehicle_command v] \<and> vc_target_system v = 7 \<and> sysid example_app = 42 \<and>
    handle_command T (vehicle_command.truncate v) c = Done r c' \<and> view (core c') = (SYSTEM_STATE_GROUND_READY, False)"
proof (intro allI)
  fix T dtoa junk p
  obtain c where c: "task_inv [] c" "view (core c) = (SYSTEM_STATE_PREFLIGHT, False)" using example_running by metis
  have inv: "commander_inv (core c)" using c(1) by (simp add: task_inv_def)
  have start: "wp_size (wpm (mission_part example_app)) = 0" "0 < cmd_pub example_app \<or> orb_ok example_app (orb_calls example_app)"
    by (simp_all add: example_app_def example_start_def mavlink_wpm_init_def blank_storage_def)
  have fields: "published example_app = []" "sm_target_system example_mode = 7" "sm_base_mode example_mode = 128" "sysid example_app = 42"
    by (simp_all add: example_app_def example_mode_def)
  show "\<exists>c ch' s' v r c'. view (core c) = (SYSTEM_STATE_PREFLIGHT, False) \<and>
    read_loop T dtoa junk p (map Some (sent_frame 0 255 190 MAVLINK_MSG_ID_SET_MODE (set_mode_packet example_mode))) 0 example_app =
      Some ([], ch', s') \<and>
    published s' = [Vehicle_command v] \<and> vc_target_system v = 7 \<and> sysid example_app = 42 \<and>
    handle_command T (vehicle_command.truncate v) c = Done r c' \<and> view (core c') = (SYSTEM_STATE_GROUND_READY, False)"
    using foreign_mode_request_obeyed [OF example_app_good(2) start inv, of T dtoa junk p 0 255 190 example_mode 0] c(2) fields
    by (auto simp: arms_def wants_hil_def VEHICLE_MODE_FLAG_SAFETY_ARMED_def VEHICLE_MODE_FLAG_HIL_ENABLED_def)
qed

lemma heartbeat_is_truthful_witness:
  "\<exists>s bs m station'. writes (send_heartbeat s) = writes s @ bs \<and> parse_chars (concat bs) new_rx = ([m], station') \<and>
    from_sender 42 50 MAVLINK_MSG_ID_HEARTBEAT m \<and>
    describes (mavlink_msg_heartbeat_decode (payload m)) (current_status (commander_init of_nat))"
proof -
  let ?c = "commander_init of_nat"
  let ?s = "example_app\<lparr>v_status := current_status ?c, act_armed := actuators ?c\<rparr>"
  have inv: "commander_inv ?c" by (rule commander_inv_init) (auto simp: started_def)
  have s: "uart_open ?s" "v_status ?s = current_status ?c" "act_armed ?s = actuators ?c" "sysid ?s = 42" "compid ?s = 50"
    using example_app_good(1) by (simp_all add: port_good_def uart_open_def) (simp_all add: example_app_def)
  show ?thesis
    using heartbeat_is_truthful [OF s(1) new_rx_ready inv s(2,3)] unfolding s(4,5) by blast
qed

lemma example_announced: "map_option outbox (mavlink_wpm_message_handler 255 190 (MISSION_COUNT 42 3) here example_start) =
    Some [Out_text ''WP CMD OK: state -> GETLIST'', Out_text ''CLR RCV BUF: READY'', Out_request 255 190 0]"
  by code_simp

lemma mission_over_the_wire_witness:
  "\<forall>T dtoa junk. \<exists>ch' s' bs a b c station'.
    read_loop T dtoa junk here (map Some (sent_frame 0 255 190 MAVLINK_MSG_ID_MISSION_COUNT
      (mission_count_packet \<lparr>mct_count = 3, mct_target_system = 42, mct_target_component = 0\<rparr>))) 0 example_app = Some ([], ch', s') \<and>
    writes s' = bs \<and> parse_chars (concat bs) new_rx = ([a, b, c], station') \<and>
    mavlink_msg_mission_request_decode (payload c) = \<lparr>mr_seq = 0, mr_target_system = 255, mr_target_component = 190\<rparr>"
proof (intro allI)
  fix T dtoa junk
  let ?replies = "[Out_text ''WP CMD OK: state -> GETLIST'', Out_text ''CLR RCV BUF: READY'', Out_request 255 190 0]"
  obtain w where w: "mavlink_wpm_message_handler 255 190 (MISSION_COUNT 42 3) here (mission_part example_app) = Some w" "outbox w = ?replies"
    using example_announced by (auto simp: example_app_good)
  have box: "outbox w = outbox (mission_part example_app) @ ?replies" "list_all wire_output ?replies" "writes example_app = []"
    using w(2) by (simp_all add: example_app_good) (simp_all add: example_start_def example_app_def)
  show "\<exists>ch' s' bs a b c station'.
    read_loop T dtoa junk here (map Some (sent_frame 0 255 190 MAVLINK_MSG_ID_MISSION_COUNT
      (mission_count_packet \<lparr>mct_count = 3, mct_target_system = 42, mct_target_component = 0\<rparr>))) 0 example_app = Some ([], ch', s') \<and>
    writes s' = bs \<and> parse_chars (concat bs) new_rx = ([a, b, c], station') \<and>
    mavlink_msg_mission_request_decode (payload c) = \<lparr>mr_seq = 0, mr_target_system = 255, mr_target_component = 190\<rparr>"
    using mission_over_the_wire [OF example_app_good(2,1) new_rx_ready w(1) box(1,2), of T dtoa junk 0 0] box(3)
    by (auto simp: list_all2_Cons2)
qed
subsection \<open>A read that fails\<close>

text \<open>
  When \<open>read\<close> gives no character, the loop parses its last character once more. After a message whose checksum ends with the
  byte that starts a frame, that is the start of a frame, and the next message on the port, whoever sent it and whatever it says,
  is taken for its content: the link ignores it.
\<close>
theorem failed_read_swallows_message:
  assumes "rx_ready (link_rx s)" "length q \<le> 250" "\<not> thread_should_exit s"
  shows "\<exists>rx. receiveloop T dtoa junk p (None # map Some (sent_frame sq sid cid mid q)) MAVLINK_STX s = Some (s\<lparr>link_rx := rx\<rparr>)"
proof -
  let ?f = "sent_frame sq sid cid mid q"
  obtain ms rx1 where one: "parse_chars [MAVLINK_STX] (link_rx s) = (ms, rx1)" by (metis surj_pair)
  have "fst (parse_chars ([MAVLINK_STX] @ ?f) (link_rx s)) = []"
    using doubled_start_swallowed [OF assms(1,2)] by (simp add: sent_frame_def Let_def)
  then have quiet: "ms = []" "fst (parse_chars ?f rx1) = []" unfolding parse_chars_append one by simp_all
  define rx2 where "rx2 = snd (parse_chars ?f rx1)"
  have two: "parse_chars ?f (link_rx (s\<lparr>link_rx := rx1\<rparr>)) = ([], rx2)" using quiet(2) by (simp add: rx2_def prod_eq_iff)
  have "map Some ?f \<noteq> []" by (simp add: sent_frame_def Mavlink_Frame.frame_def Let_def)
  moreover have "read_loop T dtoa junk p (map Some ?f) MAVLINK_STX (s\<lparr>link_rx := rx1\<rparr>) = Some ([], last (MAVLINK_STX # ?f), s\<lparr>link_rx := rx2\<rparr>)"
    using read_quiet [OF two, of T dtoa junk p "[]" MAVLINK_STX] by simp
  ultimately have rest: "receiveloop T dtoa junk p (map Some ?f) MAVLINK_STX (s\<lparr>link_rx := rx1\<rparr>) = Some (s\<lparr>link_rx := rx2\<rparr>)"
    using assms(3) by (simp add: receiveloop.simps [of T dtoa junk p "map Some ?f"]) (simp add: receiveloop.simps)
  show ?thesis
    using receive_one(1) [OF one quiet(1)] rest assms(3)
    by (intro exI [of _ rx2]) (simp add: receiveloop.simps [of T dtoa junk p "None # map Some ?f"])
qed

text \<open>The mode request of the example, which arms vehicle 42, is ignored after such a failure.\<close>

lemma failed_read_swallows_message_witness:
  "\<forall>T dtoa junk p. \<exists>rx. receiveloop T dtoa junk p (None # map Some (sent_frame 0 255 190 MAVLINK_MSG_ID_SET_MODE (set_mode_packet example_mode)))
    MAVLINK_STX example_app = Some (example_app\<lparr>link_rx := rx\<rparr>)"
  by (intro allI, rule failed_read_swallows_message [OF example_app_good(2)])
    (simp_all add: set_mode_packet_def example_mode_def example_app_def)

text \<open>A command for another vehicle does nothing.\<close>

lemma foreign_command_ignored:
  assumes "msgid msg = MAVLINK_MSG_ID_COMMAND_LONG" "mavlink_msg_command_long_decode (payload msg) = x"
    and "\<not> for_us (cl_target_system x) (cl_target_component x) s"
  shows "handleMessage msg s = Some s"
  using assms by (simp add: handleMessage_def handle_command_long_def)

text \<open>The command that ends the application is obeyed whatever the flag that is to allow it says: the flag is not looked at.\<close>

lemma link_ended_by_command:
  assumes "msgid msg = MAVLINK_MSG_ID_COMMAND_LONG" "mavlink_msg_command_long_decode (payload msg) = x"
    and "for_us (cl_target_system x) (cl_target_component x) s"
    and "cl_command x = MAV_CMD_PREFLIGHT_REBOOT_SHUTDOWN" "f32_to_int32 (cl_param1 x) = Some 3"
  shows "handleMessage msg s = Some (s\<lparr>thread_should_exit := True\<rparr>)"
  using assms by (simp add: handleMessage_def handle_command_long_def)

text \<open>The first command is published twice, by the advertisement and once more.\<close>

lemma first_command_published_twice:
  assumes "msgid msg = MAVLINK_MSG_ID_COMMAND_LONG" "mavlink_msg_command_long_decode (payload msg) = x"
    and "for_us (cl_target_system x) (cl_target_component x) s" "cl_command x \<noteq> MAV_CMD_PREFLIGHT_REBOOT_SHUTDOWN"
    and "cmd_pub s \<le> 0" "orb_ok s (orb_calls s)"
  shows "map_option published (handleMessage msg s) =
    Some (published s @ [Vehicle_command (vehicle_command_of_long msg x), Vehicle_command (vehicle_command_of_long msg x)])"
  using assms by (simp add: handleMessage_def handle_command_long_def orb_advertise_def orb_publish_def Let_def)

text \<open>Where the topic cannot be advertised, the error is then used as a handle.\<close>

lemma failed_topic_is_used:
  assumes "msgid msg = MAVLINK_MSG_ID_COMMAND_LONG" "mavlink_msg_command_long_decode (payload msg) = x"
    and "for_us (cl_target_system x) (cl_target_component x) s" "cl_command x \<noteq> MAV_CMD_PREFLIGHT_REBOOT_SHUTDOWN"
    and "cmd_pub s \<le> 0" "\<not> orb_ok s (orb_calls s)"
  shows "handleMessage msg s = None"
  using assms by (simp add: handleMessage_def handle_command_long_def orb_advertise_def orb_publish_def Let_def ERROR_def)

end
