(* ===== verification/Pid.thy ===== *)
theory Pid
  imports Float32
begin

text \<open>
  The generic PID controller (\<open>src/apps/systemlib/pid/pid.c\<close>). The arithmetic is that of single precision floats, operation by
  operation; the variable of the proportional part, which the code computes and does not use, is left out.
\<close>

unbundle bit_operations_syntax

section \<open>Floats\<close>

text \<open>\<open>isfinite\<close>, the change of sign, and the comparison with zero; these are language semantics.\<close>

definition isfinite :: "float_bits \<Rightarrow> bool" where
  "isfinite x \<longleftrightarrow> \<not> f32_is_nan x \<and> \<not> f32_is_inf x"

definition f32_minus :: "float_bits \<Rightarrow> float_bits" where
  "f32_minus x = x XOR 0x80000000"

definition f32_is_zero :: "float_bits \<Rightarrow> bool" where
  "f32_is_zero x \<longleftrightarrow> \<not> f32_true x"

section \<open>The controller\<close>

record PID_t =
  kp :: float_bits
  ki :: float_bits
  kd :: float_bits
  intmax :: float_bits
  pid_sp :: float_bits
  integral :: float_bits
  error_previous :: float_bits
  last_output :: float_bits
  pid_mode :: u8
  pid_count :: u8
  saturated :: u8

definition PID_MODE_DERIVATIV_CALC :: u8 where "PID_MODE_DERIVATIV_CALC = 0"
definition PID_MODE_DERIVATIV_SET :: u8 where "PID_MODE_DERIVATIV_SET = 1"

definition pid_init :: "float_bits \<Rightarrow> float_bits \<Rightarrow> float_bits \<Rightarrow> float_bits \<Rightarrow> u8 \<Rightarrow> PID_t" where
  "pid_init p i d m mode = \<lparr>kp = p, ki = i, kd = d, intmax = m, pid_sp = 0, integral = 0, error_previous = 0, last_output = 0,
     pid_mode = mode, pid_count = 0, saturated = 0\<rparr>"

text \<open>A parameter that is not finite is refused; the others are set.\<close>

definition pid_set_parameters :: "float_bits \<Rightarrow> float_bits \<Rightarrow> float_bits \<Rightarrow> float_bits \<Rightarrow> PID_t \<Rightarrow> int \<times> PID_t" where
  "pid_set_parameters p i d m pid =
     (if isfinite p \<and> isfinite i \<and> isfinite d \<and> isfinite m then 0 else 1,
      pid\<lparr>kp := if isfinite p then p else kp pid, ki := if isfinite i then i else ki pid,
          kd := if isfinite d then d else kd pid, intmax := if isfinite m then m else intmax pid\<rparr>)"

definition anti_windup :: "float_bits \<Rightarrow> float_bits \<Rightarrow> float_bits" where
  "anti_windup m i = (if f32_lt m i then m else if f32_lt i (f32_minus m) then f32_minus m else i)"

text \<open>The integral to use for the output: it stands still while the output is saturated and the error would make it larger.\<close>

definition held :: "float_bits \<Rightarrow> PID_t \<Rightarrow> bool" where
  "held error pid \<longleftrightarrow> saturated pid \<noteq> 0 \<and> f32_lt 0 (f32_mul (integral pid) error)"

definition integrate :: "float_bits \<Rightarrow> float_bits \<Rightarrow> PID_t \<Rightarrow> float_bits \<times> PID_t" where
  "integrate error dt pid =
     (let (i, pid1) = (if held error pid then (integral pid, pid\<lparr>saturated := 0\<rparr>) else (f32_add (integral pid) (f32_mul error dt), pid))
      in (i, if f32_is_zero (intmax pid) then pid1 else pid1\<lparr>integral := anti_windup (intmax pid) i\<rparr>))"

definition derivative :: "float_bits \<Rightarrow> float_bits \<Rightarrow> float_bits \<Rightarrow> PID_t \<Rightarrow> float_bits" where
  "derivative error val_dot dt pid =
     (if f32_is_zero (kd pid) then 0
      else if pid_mode pid = PID_MODE_DERIVATIV_CALC then f32_div (f32_sub error (error_previous pid)) dt
      else if pid_mode pid = PID_MODE_DERIVATIV_SET then f32_minus val_dot
      else 0)"

definition pid_calculate :: "float_bits \<Rightarrow> float_bits \<Rightarrow> float_bits \<Rightarrow> float_bits \<Rightarrow> PID_t \<Rightarrow> float_bits \<times> PID_t" where
  "pid_calculate sp val val_dot dt pid =
     (if \<not> isfinite sp \<or> \<not> isfinite val \<or> \<not> isfinite val_dot \<or> \<not> isfinite dt then (last_output pid, pid)
      else let error = f32_sub sp val;
               (i, pid1) = integrate error dt (pid\<lparr>pid_sp := sp\<rparr>);
               d = derivative error val_dot dt pid1;
               i = (if f32_is_zero (ki pid1) then 0 else i);
               pid2 = (if isfinite error then pid1\<lparr>error_previous := error\<rparr> else pid1);
               output = f32_add (f32_add (f32_mul (error_previous pid2) (kp pid2)) (f32_mul i (ki pid2))) (f32_mul d (kd pid2));
               pid3 = (if isfinite output then pid2\<lparr>last_output := output\<rparr> else pid2);
               pid4 = (if isfinite (integral pid3) then pid3 else pid3\<lparr>integral := 0\<rparr>)
           in (last_output pid4, pid4))"

section \<open>Floats, continued\<close>

lemma f32_neg_bit: "f32_neg x \<longleftrightarrow> bit x 31"
proof -
  have "uint x < 2 ^ 32" "0 \<le> uint x" using uint_bounded [of x] by simp_all
  then have "uint x div 2 ^ 31 = (if 2 ^ 31 \<le> uint x then 1 else 0)" by auto
  then have "odd (uint x div 2 ^ 31) \<longleftrightarrow> f32_neg x" unfolding f32_split by auto
  moreover have "bit x 31 \<longleftrightarrow> bit (uint x) 31" by (simp add: bit_uint_iff)
  ultimately show ?thesis by (simp only: bit_iff_odd)
qed

lemma f32_minus_parts: "(f32_minus x) AND 0x7FFFFFFF = x AND 0x7FFFFFFF" "f32_neg (f32_minus x) \<longleftrightarrow> \<not> f32_neg x"
proof -
  have m: "(0x7FFFFFFF :: u32) = mask 31" "(0x80000000 :: u32) = push_bit 31 1" by (simp_all add: mask_eq_decr_exp)
  have top: "bit (push_bit 31 (1 :: u32)) n \<longleftrightarrow> n = 31" for n by (simp only: bit_simps) auto
  show "(f32_minus x) AND 0x7FFFFFFF = x AND 0x7FFFFFFF"
    by (rule bit_word_eqI) (simp only: f32_minus_def m bit_xor_iff bit_and_iff bit_mask_iff top, auto)
  show "f32_neg (f32_minus x) \<longleftrightarrow> \<not> f32_neg x" by (simp only: f32_neg_bit f32_minus_def m bit_xor_iff top) simp
qed

lemma f32_minus_simps [simp]:
  "f32_is_nan (f32_minus x) = f32_is_nan x" "f32_is_inf (f32_minus x) = f32_is_inf x" "isfinite (f32_minus x) = isfinite x"
  "f32_key (f32_minus x) = - f32_key x" "f32_minus (f32_minus x) = x"
  by (simp_all add: f32_is_nan_def f32_is_inf_def isfinite_def f32_key_def f32_minus_parts Let_def) (simp add: f32_minus_def xor.assoc)

lemma f32_order:
  "f32_le a b \<longleftrightarrow> \<not> f32_is_nan a \<and> \<not> f32_is_nan b \<and> f32_key a \<le> f32_key b"
  "f32_lt a b \<longleftrightarrow> \<not> f32_is_nan a \<and> \<not> f32_is_nan b \<and> f32_key a < f32_key b"
  by (simp_all add: f32_le_def f32_lt_def)

lemma f32_zero_facts [simp]: "f32_key 0 = 0" "\<not> f32_is_nan 0" "isfinite 0"
  by (simp_all add: f32_key_def f32_is_nan_def f32_is_inf_def isfinite_def)

text \<open>A value that is not a number makes every result one.\<close>

lemma nan_result [simp]:
  "f32_is_nan a \<or> f32_is_nan b \<Longrightarrow> f32_is_nan (f32_mul a b)"
  "f32_is_nan a \<or> f32_is_nan b \<Longrightarrow> f32_is_nan (f32_add a b)"
  "f32_is_nan a \<or> f32_is_nan b \<Longrightarrow> f32_is_nan (f32_sub a b)"
proof -
  have n: "f32_is_nan 0x7FC00000" by (simp add: f32_is_nan_def)
  then show "f32_is_nan a \<or> f32_is_nan b \<Longrightarrow> f32_is_nan (f32_mul a b)" by (auto simp: f32_mul_def)
  show add: "f32_is_nan a \<or> f32_is_nan b \<Longrightarrow> f32_is_nan (f32_add a b)" for a b using n by (auto simp: f32_add_def)
  show "f32_is_nan a \<or> f32_is_nan b \<Longrightarrow> f32_is_nan (f32_sub a b)"
    using add [of a "f32_minus b"] by (simp add: f32_sub_def f32_minus_def [symmetric])
qed

text \<open>Limits: what the code does with an output and a limit.\<close>

definition within_limit :: "float_bits \<Rightarrow> float_bits \<Rightarrow> bool" where
  "within_limit m x \<longleftrightarrow> f32_le (f32_minus m) x \<and> f32_le x m"

lemma anti_windup_limit:
  assumes "f32_lt 0 m" "\<not> f32_is_nan i"
  shows "within_limit m (anti_windup m i)"
  using assms by (auto simp: within_limit_def anti_windup_def f32_order)

lemma anti_windup_nan: "f32_is_nan i \<Longrightarrow> anti_windup m i = i"
  by (simp add: anti_windup_def f32_order)

section \<open>Invariant\<close>

definition pid_inv :: "PID_t \<Rightarrow> bool" where
  "pid_inv pid \<longleftrightarrow> isfinite (last_output pid) \<and> isfinite (error_previous pid) \<and> isfinite (integral pid)"

lemma pid_init_inv: "pid_inv (pid_init p i d m mode)"
  by (simp add: pid_inv_def pid_init_def)

lemma pid_set_parameters_inv: "pid_inv (snd (pid_set_parameters p i d m pid)) = pid_inv pid"
  by (simp add: pid_inv_def pid_set_parameters_def)

lemma integrate_keeps:
  "integrate error dt pid = (i, pid') \<Longrightarrow> error_previous pid' = error_previous pid \<and> last_output pid' = last_output pid \<and>
    kp pid' = kp pid \<and> ki pid' = ki pid \<and> kd pid' = kd pid \<and> intmax pid' = intmax pid"
  by (auto simp: integrate_def Let_def split: if_splits)

lemma pid_calculate_cases:
  obtains (refused) "pid_calculate sp val val_dot dt pid = (last_output pid, pid)"
  | (computed) i pid1 error result where "integrate error dt (pid\<lparr>pid_sp := sp\<rparr>) = (i, pid1)"
    "pid_calculate sp val val_dot dt pid =
      (let pid2 = (if isfinite error then pid1\<lparr>error_previous := error\<rparr> else pid1);
           pid3 = (if isfinite result then pid2\<lparr>last_output := result\<rparr> else pid2);
           pid4 = (if isfinite (integral pid3) then pid3 else pid3\<lparr>integral := 0\<rparr>) in (last_output pid4, pid4))"
proof (cases "\<not> isfinite sp \<or> \<not> isfinite val \<or> \<not> isfinite val_dot \<or> \<not> isfinite dt")
  case True
  then show ?thesis using refused by (auto simp: pid_calculate_def)
next
  case False
  obtain i pid1 where g: "integrate (f32_sub sp val) dt (pid\<lparr>pid_sp := sp\<rparr>) = (i, pid1)" by (metis surj_pair)
  show ?thesis using computed [OF g] False by (simp add: pid_calculate_def g Let_def)
qed

lemma pid_calculate_inv:
  assumes "pid_inv pid" "pid_calculate sp val val_dot dt pid = (output, pid')"
  shows "pid_inv pid'" "output = last_output pid'" "intmax pid' = intmax pid"
proof -
  have "pid_inv pid' \<and> output = last_output pid' \<and> intmax pid' = intmax pid"
  proof (cases rule: pid_calculate_cases [of sp val val_dot dt pid])
    case refused
    then show ?thesis using assms by simp
  next
    case (computed i pid1 error result)
    note k = integrate_keeps [OF computed(1)]
    show ?thesis using assms(2) unfolding computed(2) using assms(1) k by (auto simp: pid_inv_def Let_def)
  qed
  then show "pid_inv pid'" "output = last_output pid'" "intmax pid' = intmax pid" by auto
qed

section \<open>Limits\<close>

lemma positive_not_zero: "f32_lt 0 m \<Longrightarrow> \<not> f32_is_zero m"
  by (auto simp: f32_is_zero_def f32_true_def f32_order f32_key_def Let_def split: if_splits)

lemma within_larger: "within_limit m x \<Longrightarrow> f32_le m M \<Longrightarrow> within_limit M x"
  by (auto simp: within_limit_def f32_order)

lemma integral_limited:
  assumes "f32_lt 0 (intmax pid)" "f32_le (intmax pid) M" "within_limit M (integral pid)"
    and "pid_calculate sp val val_dot dt pid = (result, pid')"
  shows "within_limit M (integral pid')"
proof (cases rule: pid_calculate_cases [of sp val val_dot dt pid])
  case refused
  then show ?thesis using assms(3,4) by simp
next
  case (computed i pid1 error result)
  have "integral pid1 = anti_windup (intmax pid) i"
    using computed(1) positive_not_zero [OF assms(1)] by (auto simp: integrate_def held_def Let_def split: if_splits)
  moreover have zero: "within_limit M 0" using assms(1,2) by (auto simp: within_limit_def f32_order)
  moreover have "within_limit M (anti_windup (intmax pid) i)" if "isfinite (anti_windup (intmax pid) i)"
  proof -
    have "\<not> f32_is_nan i" using anti_windup_nan [of i "intmax pid"] that by (auto simp: isfinite_def)
    then show ?thesis using anti_windup_limit [OF assms(1)] within_larger [OF _ assms(2)] by blast
  qed
  ultimately show ?thesis using assms(4) unfolding computed(2) by (auto simp: Let_def split: if_splits)
qed

text \<open>
  The calls that a program makes after the initialisation, as steps of a machine. Its state is the controller and every value
  that a call of \<open>pid_calculate\<close> has returned to the caller, the first one first.
\<close>

datatype pid_call =
    Set_parameters float_bits float_bits float_bits float_bits
  | Calculate float_bits float_bits float_bits float_bits

fun pid_step :: "pid_call \<Rightarrow> PID_t \<times> float_bits list \<Rightarrow> (PID_t \<times> float_bits list) option" where
  "pid_step (Set_parameters p i d m) (pid, returned) = Some (snd (pid_set_parameters p i d m pid), returned)"
| "pid_step (Calculate sp val val_dot dt) (pid, returned) =
     (let (output, pid') = pid_calculate sp val val_dot dt pid in Some (pid', returned @ [output]))"

fun limit_at_most :: "float_bits \<Rightarrow> pid_call \<Rightarrow> bool" where
  "limit_at_most M (Set_parameters p i d m) \<longleftrightarrow> \<not> isfinite m \<or> f32_lt 0 m \<and> f32_le m M"
| "limit_at_most M (Calculate sp val val_dot dt) \<longleftrightarrow> True"

definition pid_limited :: "float_bits \<Rightarrow> PID_t \<times> float_bits list \<Rightarrow> bool" where
  "pid_limited M s \<longleftrightarrow> pid_inv (fst s) \<and> f32_lt 0 (intmax (fst s)) \<and> f32_le (intmax (fst s)) M \<and>
     within_limit M (integral (fst s)) \<and> list_all isfinite (snd s)"

lemma pid_step_limited:
  assumes "pid_limited M s" "limit_at_most M c" "pid_step c s = Some s'"
  shows "pid_limited M s'"
proof -
  obtain pid returned where s: "s = (pid, returned)" by fastforce
  have l: "pid_inv pid" "f32_lt 0 (intmax pid)" "f32_le (intmax pid) M" "within_limit M (integral pid)" "list_all isfinite returned"
    using assms(1) by (simp_all add: pid_limited_def s)
  show ?thesis
  proof (cases c)
    case (Set_parameters p i d m)
    then show ?thesis
      using assms(2,3) l pid_set_parameters_inv [of p i d m pid]
      by (auto simp: pid_limited_def pid_set_parameters_def pid_inv_def s)
  next
    case (Calculate sp val val_dot dt)
    obtain r pid' where r: "pid_calculate sp val val_dot dt pid = (r, pid')" by fastforce
    then have "s' = (pid', returned @ [r])" using assms(3) Calculate by (simp add: s)
    moreover have "isfinite r" using pid_calculate_inv(1,2) [OF l(1) r] by (simp add: pid_inv_def)
    ultimately show ?thesis
      using pid_calculate_inv [OF l(1) r] integral_limited [OF l(2-4) r] l by (simp add: pid_limited_def)
  qed
qed

interpretation pids: safe_machine pid_step "pid_limited M" "pid_limited M" "limit_at_most M" for M
proof
  show "pid_limited M s \<Longrightarrow> limit_at_most M e \<Longrightarrow> \<exists>s'. pid_step e s = Some s'" for s e
    by (cases s; cases e) (simp_all split: prod.split)
qed (auto intro: pid_step_limited)

text \<open>
  C38. Whatever a controller is given, values that are not numbers and infinite ones included, every value that
  \<open>pid_calculate\<close> returns is a finite number, and the integral stays within the limit of the wind-up: as long as the limits that
  are set are positive and at most M, so is the integral, in both directions, after every sequence of calls.
\<close>
theorem pid_integral_bounded:
  assumes "f32_lt 0 m" "f32_le m M" "list_all (limit_at_most M) cs"
  shows "\<exists>pid returned. run_steps pid_step cs (pid_init p i d m mode, []) = Some (pid, returned) \<and>
    list_all isfinite returned \<and> isfinite (last_output pid) \<and> within_limit M (integral pid)"
proof -
  have "within_limit M 0" using assms(1,2) by (auto simp: within_limit_def f32_order)
  then have "pid_limited M (pid_init p i d m mode, [])"
    using pid_init_inv [of p i d m mode] assms(1,2) by (simp add: pid_limited_def pid_init_def)
  from pids.run_safe [OF this assms(3)] show ?thesis by (auto simp: pid_limited_def pid_inv_def)
qed

text \<open>With a limit of 0.05, the gains of the attitude controller, an infinite setpoint, and a measurement that is not a number.\<close>

lemma pid_integral_bounded_witness:
  "\<exists>pid returned. run_steps pid_step [Calculate 0x3F800000 0 0 0x3BA3D70A, Calculate 0x7F800000 0 0 0x3BA3D70A,
      Calculate 0 0x7FC00000 0 0x3BA3D70A, Set_parameters 0x3E4CCCCD 0 0x7FC00000 0x3CA3D70A, Calculate 0x3F800000 0 0 0x42C80000]
      (pid_init 0x3E4CCCCD 0x3F800000 0x3D4CCCCD 0x3D4CCCCD 1, []) = Some (pid, returned) \<and> list_all isfinite returned \<and>
    isfinite (last_output pid) \<and> within_limit 0x3D4CCCCD (integral pid)"
  by (rule pid_integral_bounded)
    (simp_all add: f32_order f32_key_def f32_is_nan_def f32_neg_def isfinite_def f32_is_inf_def)

end
