(* ===== verification/Multirotor_Control.thy ===== *)
theory Multirotor_Control
  imports Pid Mavlink_App "HOL-Library.Monad_Syntax"
begin

text \<open>
  The attitude control of multirotors: the attitude controller (\<open>multirotor_attitude_control.c\<close>), the rate controller
  (\<open>multirotor_rate_control.c\<close>) and the loop that chooses between them (\<open>multirotor_att_control_main.c\<close>, all in
  \<open>src/apps/multirotor_att_control\<close>). The static variables of the functions are records. \<open>cosf\<close> of the C library is a
  parameter. \<open>None\<close> is the overflow of a counter of type \<open>int\<close>, or a parameter that does not fit a \<open>float\<close>.
\<close>

unbundle bit_operations_syntax

section \<open>Topics\<close>

record vehicle_attitude_setpoint_s =
  as_timestamp :: u64
  roll_body :: float_bits
  pitch_body :: float_bits
  yaw_body :: float_bits
  as_thrust :: float_bits

record vehicle_attitude_s =
  att_roll :: float_bits
  att_pitch :: float_bits
  att_rollspeed :: float_bits
  att_pitchspeed :: float_bits
  att_yawspeed :: float_bits

record vehicle_rates_setpoint_s =
  rs_timestamp :: u64
  rs_roll :: float_bits
  rs_pitch :: float_bits
  rs_yaw :: float_bits
  rs_thrust :: float_bits

record manual_sticks =
  stick_roll :: float_bits
  stick_pitch :: float_bits
  stick_yaw :: float_bits
  stick_throttle :: float_bits

definition NUM_ACTUATOR_CONTROLS :: nat where "NUM_ACTUATOR_CONTROLS = 8"

section \<open>Parameters\<close>

text \<open>\<open>param_get\<close> into a \<open>float\<close>: of a parameter that does not exist nothing is copied.\<close>

definition get_param_float :: "param_table \<Rightarrow> param_t \<Rightarrow> float_bits \<Rightarrow> param_store \<Rightarrow> float_bits option" where
  "get_param_float T p old st =
     Option.bind (param_get T p True st) (\<lambda>(ret, bs).
       if length bs \<le> 4 then Some (un_le32 (bs @ drop (length bs) (le32 old))) else None)"

record mc_att_control_params =
  ap_yawrate_p :: float_bits
  ap_yawrate_i :: float_bits
  ap_yawrate_d :: float_bits
  ap_yawrate_awu :: float_bits
  ap_yawrate_lim :: float_bits
  ap_att_p :: float_bits
  ap_att_i :: float_bits
  ap_att_d :: float_bits
  ap_att_awu :: float_bits
  ap_att_lim :: float_bits
  ap_att_xoff :: float_bits
  ap_att_yoff :: float_bits

record mc_att_control_param_handles =
  ah_yawrate_p :: param_t
  ah_yawrate_i :: param_t
  ah_yawrate_d :: param_t
  ah_yawrate_awu :: param_t
  ah_yawrate_lim :: param_t
  ah_att_p :: param_t
  ah_att_i :: param_t
  ah_att_d :: param_t
  ah_att_awu :: param_t
  ah_att_lim :: param_t
  ah_att_xoff :: param_t
  ah_att_yoff :: param_t

definition attitude_parameters_init :: "param_table \<Rightarrow> mc_att_control_param_handles" where
  "attitude_parameters_init T =
     \<lparr>ah_yawrate_p = param_find T (ascii ''MC_YAWRATE_P''),
      ah_yawrate_i = param_find T (ascii ''MC_YAWRATE_I''),
      ah_yawrate_d = param_find T (ascii ''MC_YAWRATE_D''),
      ah_yawrate_awu = param_find T (ascii ''MC_YAWRATE_AWU''),
      ah_yawrate_lim = param_find T (ascii ''MC_YAWRATE_LIM''),
      ah_att_p = param_find T (ascii ''MC_ATT_P''),
      ah_att_i = param_find T (ascii ''MC_ATT_I''),
      ah_att_d = param_find T (ascii ''MC_ATT_D''),
      ah_att_awu = param_find T (ascii ''MC_ATT_AWU''),
      ah_att_lim = param_find T (ascii ''MC_ATT_LIM''),
      ah_att_xoff = param_find T (ascii ''MC_ATT_XOFF''),
      ah_att_yoff = param_find T (ascii ''MC_ATT_YOFF'')\<rparr>"

definition attitude_parameters_update :: "param_table \<Rightarrow> mc_att_control_param_handles \<Rightarrow> param_store \<Rightarrow> mc_att_control_params \<Rightarrow> mc_att_control_params option" where
  "attitude_parameters_update T h st p = do {
     v0 \<leftarrow> get_param_float T (ah_yawrate_p h) (ap_yawrate_p p) st;
     v1 \<leftarrow> get_param_float T (ah_yawrate_i h) (ap_yawrate_i p) st;
     v2 \<leftarrow> get_param_float T (ah_yawrate_d h) (ap_yawrate_d p) st;
     v3 \<leftarrow> get_param_float T (ah_yawrate_awu h) (ap_yawrate_awu p) st;
     v4 \<leftarrow> get_param_float T (ah_yawrate_lim h) (ap_yawrate_lim p) st;
     v5 \<leftarrow> get_param_float T (ah_att_p h) (ap_att_p p) st;
     v6 \<leftarrow> get_param_float T (ah_att_i h) (ap_att_i p) st;
     v7 \<leftarrow> get_param_float T (ah_att_d h) (ap_att_d p) st;
     v8 \<leftarrow> get_param_float T (ah_att_awu h) (ap_att_awu p) st;
     v9 \<leftarrow> get_param_float T (ah_att_lim h) (ap_att_lim p) st;
     v10 \<leftarrow> get_param_float T (ah_att_xoff h) (ap_att_xoff p) st;
     v11 \<leftarrow> get_param_float T (ah_att_yoff h) (ap_att_yoff p) st;
     Some \<lparr>ap_yawrate_p = v0, ap_yawrate_i = v1, ap_yawrate_d = v2, ap_yawrate_awu = v3, ap_yawrate_lim = v4, ap_att_p = v5, ap_att_i = v6, ap_att_d = v7, ap_att_awu = v8, ap_att_lim = v9, ap_att_xoff = v10, ap_att_yoff = v11\<rparr> }"

record mc_rate_control_params =
  rp_yawrate_p :: float_bits
  rp_yawrate_i :: float_bits
  rp_yawrate_d :: float_bits
  rp_yawrate_awu :: float_bits
  rp_yawrate_lim :: float_bits
  rp_attrate_p :: float_bits
  rp_attrate_i :: float_bits
  rp_attrate_d :: float_bits
  rp_attrate_awu :: float_bits
  rp_attrate_lim :: float_bits

record mc_rate_control_param_handles =
  rh_yawrate_p :: param_t
  rh_yawrate_i :: param_t
  rh_yawrate_d :: param_t
  rh_yawrate_awu :: param_t
  rh_yawrate_lim :: param_t
  rh_attrate_p :: param_t
  rh_attrate_i :: param_t
  rh_attrate_d :: param_t
  rh_attrate_awu :: param_t
  rh_attrate_lim :: param_t

definition rate_parameters_init :: "param_table \<Rightarrow> mc_rate_control_param_handles" where
  "rate_parameters_init T =
     \<lparr>rh_yawrate_p = param_find T (ascii ''MC_YAWRATE_P''),
      rh_yawrate_i = param_find T (ascii ''MC_YAWRATE_I''),
      rh_yawrate_d = param_find T (ascii ''MC_YAWRATE_D''),
      rh_yawrate_awu = param_find T (ascii ''MC_YAWRATE_AWU''),
      rh_yawrate_lim = param_find T (ascii ''MC_YAWRATE_LIM''),
      rh_attrate_p = param_find T (ascii ''MC_ATTRATE_P''),
      rh_attrate_i = param_find T (ascii ''MC_ATTRATE_I''),
      rh_attrate_d = param_find T (ascii ''MC_ATTRATE_D''),
      rh_attrate_awu = param_find T (ascii ''MC_ATTRATE_AWU''),
      rh_attrate_lim = param_find T (ascii ''MC_ATTRATE_LIM'')\<rparr>"

definition rate_parameters_update :: "param_table \<Rightarrow> mc_rate_control_param_handles \<Rightarrow> param_store \<Rightarrow> mc_rate_control_params \<Rightarrow> mc_rate_control_params option" where
  "rate_parameters_update T h st p = do {
     v0 \<leftarrow> get_param_float T (rh_yawrate_p h) (rp_yawrate_p p) st;
     v1 \<leftarrow> get_param_float T (rh_yawrate_i h) (rp_yawrate_i p) st;
     v2 \<leftarrow> get_param_float T (rh_yawrate_d h) (rp_yawrate_d p) st;
     v3 \<leftarrow> get_param_float T (rh_yawrate_awu h) (rp_yawrate_awu p) st;
     v4 \<leftarrow> get_param_float T (rh_yawrate_lim h) (rp_yawrate_lim p) st;
     v5 \<leftarrow> get_param_float T (rh_attrate_p h) (rp_attrate_p p) st;
     v6 \<leftarrow> get_param_float T (rh_attrate_i h) (rp_attrate_i p) st;
     v7 \<leftarrow> get_param_float T (rh_attrate_d h) (rp_attrate_d p) st;
     v8 \<leftarrow> get_param_float T (rh_attrate_awu h) (rp_attrate_awu p) st;
     v9 \<leftarrow> get_param_float T (rh_attrate_lim h) (rp_attrate_lim p) st;
     Some \<lparr>rp_yawrate_p = v0, rp_yawrate_i = v1, rp_yawrate_d = v2, rp_yawrate_awu = v3, rp_yawrate_lim = v4, rp_attrate_p = v5, rp_attrate_i = v6, rp_attrate_d = v7, rp_attrate_awu = v8, rp_attrate_lim = v9\<rparr> }"

section \<open>The attitude controller\<close>

record attitude_control =
  att_last_run :: u64
  att_skip_counter :: int
  yaw_speed_controller :: PID_t
  pitch_controller :: PID_t
  roll_controller :: PID_t
  att_params :: mc_att_control_params
  att_handles :: mc_att_control_param_handles
  att_initialized :: bool

text \<open>\<open>n++\<close> for a signed counter.\<close>

definition count_up :: "int \<Rightarrow> int option" where
  "count_up n = (if n < 2 ^ 31 - 1 then Some (n + 1) else None)"

text \<open>Seconds since the last call.\<close>

definition seconds_between :: "u64 \<Rightarrow> u64 \<Rightarrow> float_bits" where
  "seconds_between now before = f32_div (f32_of_int (uint (now - before))) 0x49742400"

definition att_control_init :: "param_table \<Rightarrow> param_store \<Rightarrow> attitude_control \<Rightarrow> attitude_control option" where
  "att_control_init T st c =
     (let h = attitude_parameters_init T
      in map_option (\<lambda>p. c\<lparr>yaw_speed_controller := pid_init (ap_yawrate_p p) (ap_yawrate_i p) (ap_yawrate_d p) (ap_yawrate_awu p) PID_MODE_DERIVATIV_SET,
           pitch_controller := pid_init (ap_att_p p) (ap_att_i p) (ap_att_d p) (ap_att_awu p) PID_MODE_DERIVATIV_SET,
           roll_controller := pid_init (ap_att_p p) (ap_att_i p) (ap_att_d p) (ap_att_awu p) PID_MODE_DERIVATIV_SET,
           att_params := p, att_handles := h, att_initialized := True\<rparr>)
         (attitude_parameters_update T h st (att_params c)))"

definition att_control_update :: "param_table \<Rightarrow> param_store \<Rightarrow> attitude_control \<Rightarrow> attitude_control option" where
  "att_control_update T st c =
     map_option (\<lambda>p. c\<lparr>att_params := p,
         yaw_speed_controller := snd (pid_set_parameters (ap_yawrate_p p) (ap_yawrate_i p) (ap_yawrate_d p) (ap_yawrate_awu p) (yaw_speed_controller c)),
         pitch_controller := snd (pid_set_parameters (ap_att_p p) (ap_att_i p) (ap_att_d p) (ap_att_awu p) (pitch_controller c)),
         roll_controller := snd (pid_set_parameters (ap_att_p p) (ap_att_i p) (ap_att_d p) (ap_att_awu p) (roll_controller c))\<rparr>)
       (attitude_parameters_update T (att_handles c) st (att_params c))"

text \<open>An output beyond a limit is cut to it, and the controller knows that it is saturated.\<close>

definition limit_output :: "float_bits \<Rightarrow> float_bits \<Rightarrow> PID_t \<Rightarrow> float_bits \<times> PID_t" where
  "limit_output lim x pid =
     (let (x1, pid1) = (if f32_lt lim x then (lim, pid\<lparr>saturated := 1\<rparr>) else (x, pid))
      in if f32_lt x1 (f32_minus lim) then (f32_minus lim, pid1\<lparr>saturated := 1\<rparr>) else (x1, pid1))"

text \<open>The loss of vertical thrust at an angle.\<close>

definition fabsf :: "float_bits \<Rightarrow> float_bits" where "fabsf x = x AND 0x7FFFFFFF"

definition compensate :: "(float_bits \<Rightarrow> float_bits) \<Rightarrow> float_bits \<Rightarrow> float_bits \<Rightarrow> float_bits" where
  "compensate cosf angle z =
     f32_mul z (if f32_lt 0x3E99999A (fabsf angle) then 0x3F85FBF5 else f32_div 0x3F800000 (cosf angle))"

text \<open>Roll, pitch, yaw rate and thrust. The two times are the readings of the clock.\<close>

record control_output =
  out_roll :: float_bits
  out_pitch :: float_bits
  out_yaw :: float_bits
  out_thrust :: float_bits

definition multirotor_control_attitude ::
    "param_table \<Rightarrow> (float_bits \<Rightarrow> float_bits) \<Rightarrow> param_store \<Rightarrow> u64 \<Rightarrow> u64 \<Rightarrow> vehicle_attitude_setpoint_s \<Rightarrow> vehicle_attitude_s \<Rightarrow>
     attitude_control \<Rightarrow> (control_output \<times> attitude_control) option" where
  "multirotor_control_attitude T cosf st now1 now2 att_sp att c = do {
     let deltaT = seconds_between now1 (att_last_run c);
     c1 \<leftarrow> (if att_initialized c then Some else att_control_init T st) (c\<lparr>att_last_run := now2\<rparr>);
     c2 \<leftarrow> (if att_skip_counter c mod 50 = 0 then att_control_update T st else Some) c1;
     n \<leftarrow> count_up (att_skip_counter c);
     (let p = att_params c2;
          (pitch_control, pitch_pid) = pid_calculate (f32_add (pitch_body att_sp) (ap_att_xoff p)) (att_pitch att) (att_pitchspeed att) deltaT
            (pitch_controller c2);
          (roll_control, roll_pid) = pid_calculate (f32_add (roll_body att_sp) (ap_att_yoff p)) (att_roll att) (att_rollspeed att) deltaT
            (roll_controller c2);
          (yaw_rate_control, yaw_pid) = pid_calculate (yaw_body att_sp) (att_yawspeed att) 0 deltaT (yaw_speed_controller c2);
          motor_thrust = f32_mul (as_thrust att_sp) (compensate cosf (att_pitch att) (compensate cosf (att_roll att) 0x3F800000));
          (yaw_rate_control, yaw_pid) = limit_output (ap_yawrate_lim p) yaw_rate_control yaw_pid;
          (pitch_control, pitch_pid) = limit_output (ap_att_lim p) pitch_control pitch_pid;
          (roll_control, roll_pid) = limit_output (ap_att_lim p) roll_control roll_pid
      in Some (\<lparr>out_roll = roll_control, out_pitch = pitch_control, out_yaw = yaw_rate_control, out_thrust = motor_thrust\<rparr>,
           c2\<lparr>att_skip_counter := n, yaw_speed_controller := yaw_pid, pitch_controller := pitch_pid, roll_controller := roll_pid\<rparr>)) }"

section \<open>The rate controller\<close>

record rate_control =
  roll_control_last :: float_bits
  pitch_control_last :: float_bits
  rate_last_run :: u64
  rate_skip_counter :: int
  rate_params :: mc_rate_control_params
  rate_handles :: mc_rate_control_param_handles
  rate_initialized :: bool

definition rate_control_init :: "param_table \<Rightarrow> param_store \<Rightarrow> rate_control \<Rightarrow> rate_control option" where
  "rate_control_init T st c =
     (let h = rate_parameters_init T
      in map_option (\<lambda>p. c\<lparr>rate_params := p, rate_handles := h, rate_initialized := True\<rparr>) (rate_parameters_update T h st (rate_params c)))"

definition rate_control_update :: "param_table \<Rightarrow> param_store \<Rightarrow> rate_control \<Rightarrow> rate_control option" where
  "rate_control_update T st c = map_option (\<lambda>p. c\<lparr>rate_params := p\<rparr>) (rate_parameters_update T (rate_handles c) st (rate_params c))"

definition multirotor_control_rates ::
    "param_table \<Rightarrow> param_store \<Rightarrow> u64 \<Rightarrow> u64 \<Rightarrow> vehicle_rates_setpoint_s \<Rightarrow> float_bits \<Rightarrow> float_bits \<Rightarrow> float_bits \<Rightarrow>
     rate_control \<Rightarrow> (control_output \<times> rate_control) option" where
  "multirotor_control_rates T st now1 now2 rate_sp gyro_roll gyro_pitch gyro_yaw c = do {
     let deltaT = seconds_between now1 (rate_last_run c);
     c1 \<leftarrow> (if rate_initialized c then Some else rate_control_init T st) (c\<lparr>rate_last_run := now2\<rparr>);
     c2 \<leftarrow> (if rate_skip_counter c mod 2500 = 0 then rate_control_update T st else Some) c1;
     n \<leftarrow> count_up (rate_skip_counter c);
     (let p = rate_params c2;
          pitch_control = f32_sub (f32_mul (f32_mul (rp_attrate_p p) deltaT) (f32_sub (rs_pitch rate_sp) gyro_pitch))
            (f32_mul (rp_attrate_d p) (pitch_control_last c2));
          roll_control = f32_sub (f32_mul (f32_mul (rp_attrate_p p) deltaT) (f32_sub (rs_roll rate_sp) gyro_roll))
            (f32_mul (rp_attrate_d p) (roll_control_last c2));
          yaw_rate_control = f32_mul (f32_mul (rp_yawrate_p p) deltaT) (f32_sub (rs_yaw rate_sp) gyro_yaw)
      in Some (\<lparr>out_roll = roll_control, out_pitch = pitch_control, out_yaw = yaw_rate_control, out_thrust = rs_thrust rate_sp\<rparr>,
           c2\<lparr>rate_skip_counter := n, pitch_control_last := pitch_control, roll_control_last := roll_control\<rparr>)) }"

section \<open>The loop\<close>

definition OFFBOARD_CONTROL_MODE_DIRECT_RATES :: u8 where "OFFBOARD_CONTROL_MODE_DIRECT_RATES = 1"
definition OFFBOARD_CONTROL_MODE_DIRECT_ATTITUDE :: u8 where "OFFBOARD_CONTROL_MODE_DIRECT_ATTITUDE = 2"

datatype mc_publication =
    Actuators control_output
  | Attitude_setpoint vehicle_attitude_setpoint_s
  | Rates_setpoint vehicle_rates_setpoint_s

text \<open>
  The locals of the thread, the static variables of the two controllers, and what the topics hold: the setpoint of the attitude that
  is published last, by this thread or by another, and the setpoint of the rates with the flag that it was not copied since. The
  controls 4 to 7 are zero throughout and left out. \<open>mc_clock k\<close> is the \<open>k\<close>-th reading of the clock.
\<close>

record mc =
  mc_state :: vehicle_status
  mc_att :: vehicle_attitude_s
  mc_att_sp :: vehicle_attitude_setpoint_s
  mc_manual :: manual_sticks
  mc_offboard_sp :: offboard_control_setpoint_s
  mc_rates_sp :: vehicle_rates_setpoint_s
  mc_actuators :: control_output
  attitude_controller :: attitude_control
  rate_controller :: rate_control
  att_sp_topic :: vehicle_attitude_setpoint_s
  rates_sp_topic :: vehicle_rates_setpoint_s
  rates_sp_updated :: bool
  motor_test_mode :: bool
  mc_clock :: "nat \<Rightarrow> u64"
  mc_reads :: nat
  mc_published :: "mc_publication list"

text \<open>What the other programs published before a turn of the loop, and the parameters during it.\<close>

record mc_input =
  in_status :: "vehicle_status option"
  in_manual :: "manual_sticks option"
  in_attitude :: "vehicle_attitude_s option"
  in_att_sp :: "vehicle_attitude_setpoint_s option"
  in_offboard_sp :: "offboard_control_setpoint_s option"
  in_store :: param_store

definition mc_now :: "mc \<Rightarrow> u64 \<times> mc" where
  "mc_now s = (mc_clock s (mc_reads s), s\<lparr>mc_reads := Suc (mc_reads s)\<rparr>)"

definition publish_actuators :: "mc \<Rightarrow> mc" where
  "publish_actuators s = s\<lparr>mc_published := mc_published s @ [Actuators (mc_actuators s)]\<rparr>"

definition publish_att_sp :: "mc \<Rightarrow> mc" where
  "publish_att_sp s = s\<lparr>att_sp_topic := mc_att_sp s, mc_published := mc_published s @ [Attitude_setpoint (mc_att_sp s)]\<rparr>"

definition publish_rates_sp :: "mc \<Rightarrow> mc" where
  "publish_rates_sp s = s\<lparr>rates_sp_topic := mc_rates_sp s, rates_sp_updated := True,
     mc_published := mc_published s @ [Rates_setpoint (mc_rates_sp s)]\<rparr>"

definition new_or :: "'a option \<Rightarrow> 'a \<Rightarrow> 'a" where
  "new_or x old = (case x of None \<Rightarrow> old | Some v \<Rightarrow> v)"

text \<open>The copies at the start of a turn.\<close>

definition mc_copies :: "mc_input \<Rightarrow> mc \<Rightarrow> mc" where
  "mc_copies i s =
     (let sp = new_or (in_att_sp i) (att_sp_topic s)
      in s\<lparr>mc_state := new_or (in_status i) (mc_state s), mc_manual := new_or (in_manual i) (mc_manual s),
           mc_att := new_or (in_attitude i) (mc_att s), att_sp_topic := sp, mc_att_sp := sp,
           mc_offboard_sp := new_or (in_offboard_sp i) (mc_offboard_sp s)\<rparr>)"

definition offboard_inputs :: "mc \<Rightarrow> mc" where
  "offboard_inputs s =
     (let o' = mc_offboard_sp s
      in if sp_mode o' = OFFBOARD_CONTROL_MODE_DIRECT_RATES
         then (let (t, s) = mc_now s
               in publish_rates_sp (s\<lparr>mc_rates_sp := \<lparr>rs_timestamp = t, rs_roll = sp_p1 o', rs_pitch = sp_p2 o', rs_yaw = sp_p3 o',
                    rs_thrust = sp_p4 o'\<rparr>\<rparr>))
         else if sp_mode o' = OFFBOARD_CONTROL_MODE_DIRECT_ATTITUDE
         then (let (t, s) = mc_now s
               in publish_att_sp (s\<lparr>mc_att_sp := \<lparr>as_timestamp = t, roll_body = sp_p1 o', pitch_body = sp_p2 o', yaw_body = sp_p3 o',
                    as_thrust = sp_p4 o'\<rparr>\<rparr>))
         else s)"

definition manual_rates :: "mc \<Rightarrow> mc" where
  "manual_rates s =
     (let m = mc_manual s; (t, s) = mc_now s
      in s\<lparr>mc_rates_sp := \<lparr>rs_timestamp = t, rs_roll = stick_roll m, rs_pitch = stick_pitch m, rs_yaw = stick_yaw m,
           rs_thrust = stick_throttle m\<rparr>\<rparr>)"

definition manual_attitude :: "mc \<Rightarrow> mc" where
  "manual_attitude s =
     (let m = mc_manual s; (t, s) = mc_now s
      in s\<lparr>mc_att_sp := \<lparr>as_timestamp = t, roll_body = stick_roll m, pitch_body = stick_pitch m, yaw_body = stick_yaw m,
             as_thrust = stick_throttle m\<rparr>,
           mc_rates_sp := (mc_rates_sp s)\<lparr>rs_yaw := stick_yaw m\<rparr>\<rparr>)"

definition manual_inputs :: "mc \<Rightarrow> mc" where
  "manual_inputs s =
     (let rates = flag_control_rates_enabled (mc_state s) \<noteq> 0;
          attitude = flag_control_attitude_enabled (mc_state s) \<noteq> 0;
          s = (if rates \<and> \<not> attitude then manual_rates s else s);
          s = (if attitude then manual_attitude s else s);
          s = publish_att_sp s
      in if motor_test_mode s
         then (let (t, s) = mc_now s
               in publish_att_sp (s\<lparr>mc_att_sp := \<lparr>as_timestamp = t, roll_body = 0, pitch_body = 0, yaw_body = 0, as_thrust = 0x3DCCCCCD\<rparr>\<rparr>))
         else s)"

definition mc_inputs :: "mc \<Rightarrow> mc" where
  "mc_inputs s =
     (if flag_control_offboard_enabled (mc_state s) then offboard_inputs s
      else if flag_control_manual_enabled (mc_state s) then manual_inputs s
      else s)"

text \<open>The attitude controller computes the actuators, or the setpoint of the rates when these are controlled, too.\<close>

definition run_attitude :: "param_table \<Rightarrow> (float_bits \<Rightarrow> float_bits) \<Rightarrow> param_store \<Rightarrow> mc \<Rightarrow> (control_output \<times> mc) option" where
  "run_attitude T cosf st s =
     (let (t1, s) = mc_now s; (t2, s) = mc_now s
      in map_option (\<lambda>(out, c). (out, s\<lparr>attitude_controller := c\<rparr>))
           (multirotor_control_attitude T cosf st t1 t2 (mc_att_sp s) (mc_att s) (attitude_controller s)))"

definition attitude_stage :: "param_table \<Rightarrow> (float_bits \<Rightarrow> float_bits) \<Rightarrow> param_store \<Rightarrow> mc \<Rightarrow> mc option" where
  "attitude_stage T cosf st s =
     (if flag_control_attitude_enabled (mc_state s) \<noteq> 0 \<and> flag_control_rates_enabled (mc_state s) = 0
      then map_option (\<lambda>(out, s). publish_actuators (s\<lparr>mc_actuators := out\<rparr>)) (run_attitude T cosf st s)
      else if flag_control_attitude_enabled (mc_state s) \<noteq> 0 \<and> flag_control_rates_enabled (mc_state s) \<noteq> 0
      then map_option (\<lambda>(out, s). publish_rates_sp (s\<lparr>mc_rates_sp := (mc_rates_sp s)\<lparr>rs_roll := out_roll out, rs_pitch := out_pitch out,
               rs_yaw := out_yaw out, rs_thrust := out_thrust out\<rparr>\<rparr>)) (run_attitude T cosf st s)
      else Some s)"

definition rates_stage :: "param_table \<Rightarrow> param_store \<Rightarrow> mc \<Rightarrow> mc option" where
  "rates_stage T st s =
     (if flag_control_rates_enabled (mc_state s) \<noteq> 0
      then (let s = (if rates_sp_updated s then s\<lparr>mc_rates_sp := rates_sp_topic s, rates_sp_updated := False\<rparr> else s);
                (t1, s) = mc_now s; (t2, s) = mc_now s
            in map_option (\<lambda>(out, c). publish_actuators (s\<lparr>rate_controller := c, mc_actuators := out\<rparr>))
                 (multirotor_control_rates T st t1 t2 (mc_rates_sp s) (att_rollspeed (mc_att s)) (att_pitchspeed (mc_att s))
                    (att_yawspeed (mc_att s)) (rate_controller s)))
      else Some s)"

definition mc_turn :: "param_table \<Rightarrow> (float_bits \<Rightarrow> float_bits) \<Rightarrow> mc_input \<Rightarrow> mc \<Rightarrow> mc option" where
  "mc_turn T cosf i s =
     Option.bind (attitude_stage T cosf (in_store i) (mc_inputs (mc_copies i s))) (rates_stage T (in_store i))"

text \<open>The end of the loop stops all motors.\<close>

definition mc_stop :: "mc \<Rightarrow> mc" where
  "mc_stop s = publish_actuators (s\<lparr>mc_actuators := \<lparr>out_roll = 0, out_pitch = 0, out_yaw = 0, out_thrust = 0\<rparr>\<rparr>)"

text \<open>
  The start of the thread: everything is zero, the topics are advertised with it, the controllers keep the static variables
  that they have (of an earlier run, too).
\<close>

definition mc_start :: "attitude_control \<Rightarrow> rate_control \<Rightarrow> bool \<Rightarrow> (nat \<Rightarrow> u64) \<Rightarrow> mc" where
  "mc_start ac rc test clk =
     (let sp = \<lparr>as_timestamp = 0, roll_body = 0, pitch_body = 0, yaw_body = 0, as_thrust = 0\<rparr>;
          rates = \<lparr>rs_timestamp = 0, rs_roll = 0, rs_pitch = 0, rs_yaw = 0, rs_thrust = 0\<rparr>;
          zero = \<lparr>out_roll = 0, out_pitch = 0, out_yaw = 0, out_thrust = 0\<rparr>
      in \<lparr>mc_state = initial_status\<lparr>rc_signal_lost := False, offboard_control_signal_lost := False\<rparr>,
          mc_att = \<lparr>att_roll = 0, att_pitch = 0, att_rollspeed = 0, att_pitchspeed = 0, att_yawspeed = 0\<rparr>,
          mc_att_sp = sp, mc_manual = \<lparr>stick_roll = 0, stick_pitch = 0, stick_yaw = 0, stick_throttle = 0\<rparr>,
          mc_offboard_sp = \<lparr>sp_timestamp = 0, sp_mode = 0, sp_armed = False, sp_p1 = 0, sp_p2 = 0, sp_p3 = 0, sp_p4 = 0\<rparr>,
          mc_rates_sp = rates, mc_actuators = zero, attitude_controller = ac, rate_controller = rc,
          att_sp_topic = sp, rates_sp_topic = rates, rates_sp_updated = False, motor_test_mode = test,
          mc_clock = clk, mc_reads = 0, mc_published = [Actuators zero, Attitude_setpoint sp, Rates_setpoint rates]\<rparr>)"

text \<open>The static variables after the start of the system.\<close>

definition att_control_zero :: attitude_control where
  "att_control_zero =
     (let pid = pid_init 0 0 0 0 0
      in \<lparr>att_last_run = 0, att_skip_counter = 0, yaw_speed_controller = pid, pitch_controller = pid, roll_controller = pid,
          att_params = \<lparr>ap_yawrate_p = 0, ap_yawrate_i = 0, ap_yawrate_d = 0, ap_yawrate_awu = 0, ap_yawrate_lim = 0,
            ap_att_p = 0, ap_att_i = 0, ap_att_d = 0, ap_att_awu = 0, ap_att_lim = 0, ap_att_xoff = 0, ap_att_yoff = 0\<rparr>,
          att_handles = \<lparr>ah_yawrate_p = 0, ah_yawrate_i = 0, ah_yawrate_d = 0, ah_yawrate_awu = 0, ah_yawrate_lim = 0,
            ah_att_p = 0, ah_att_i = 0, ah_att_d = 0, ah_att_awu = 0, ah_att_lim = 0, ah_att_xoff = 0, ah_att_yoff = 0\<rparr>,
          att_initialized = False\<rparr>)"

definition rate_control_zero :: rate_control where
  "rate_control_zero =
     \<lparr>roll_control_last = 0, pitch_control_last = 0, rate_last_run = 0, rate_skip_counter = 0,
      rate_params = \<lparr>rp_yawrate_p = 0, rp_yawrate_i = 0, rp_yawrate_d = 0, rp_yawrate_awu = 0, rp_yawrate_lim = 0,
        rp_attrate_p = 0, rp_attrate_i = 0, rp_attrate_d = 0, rp_attrate_awu = 0, rp_attrate_lim = 0\<rparr>,
      rate_handles = \<lparr>rh_yawrate_p = 0, rh_yawrate_i = 0, rh_yawrate_d = 0, rh_yawrate_awu = 0, rh_yawrate_lim = 0,
        rh_attrate_p = 0, rh_attrate_i = 0, rh_attrate_d = 0, rh_attrate_awu = 0, rh_attrate_lim = 0\<rparr>,
      rate_initialized = False\<rparr>"

text \<open>
  The command. \<open>opts\<close> are the characters that \<open>getopt\<close> returns for the arguments, until its end or the first that ends the
  command. The result is the exit status and the flags of the thread, \<open>None\<close> a comparison with a missing argument.
\<close>

definition multirotor_att_control_main :: "char list \<Rightarrow> string list \<Rightarrow> bool \<times> bool \<Rightarrow> (int \<times> bool \<times> bool) option" where
  "multirotor_att_control_main opts argv flags =
     (let (should_exit, test) = flags; n = length (takeWhile (\<lambda>c. c = CHR ''t'') opts); test = (test \<or> 0 < n)
      in if n < length opts \<or> int (length argv) - int n < 1 then Some (1, should_exit, test)
         else if length argv \<le> 1 + n then None
         else if argv ! (1 + n) = ''start'' then Some (0, False, test)
         else if argv ! (1 + n) = ''stop'' then Some (0, True, test)
         else Some (1, should_exit, test))"

section \<open>Reading the parameters\<close>

text \<open>The value of a parameter: its own, or, if it does not exist, what the variable holds already.\<close>

lemma get_param_float_own:
  assumes "param_inv T st" "handle_in_range T p"
  shows "\<exists>v. \<forall>old. get_param_float T p old st = Some v"
  by (simp add: get_param_float_def param_get_value [OF assms])

lemma get_param_float_none: "\<not> handle_in_range T p \<Longrightarrow> get_param_float T p old st = Some old"
  by (simp add: get_param_float_def param_get_def param_get_value_ptr_def param_size_def)

lemma get_param_float_total: "param_inv T st \<Longrightarrow> \<exists>v. get_param_float T p old st = Some v"
  using get_param_float_own get_param_float_none by blast

definition param_float :: "param_table \<Rightarrow> string \<Rightarrow> param_store \<Rightarrow> float_bits" where
  "param_float T name st = new_or (get_param_float T (param_find T (ascii name)) 0 st) 0"

definition limited :: "float_bits \<Rightarrow> float_bits \<Rightarrow> bool" where
  "limited M v \<longleftrightarrow> f32_le 0 v \<and> f32_le v M"

lemma get_param_float_limited:
  assumes "param_inv T st" "limited M (param_float T name st)" "limited M old"
    and "get_param_float T (param_find T (ascii name)) old st = Some v"
  shows "limited M v"
proof (cases "handle_in_range T (param_find T (ascii name))")
  case True
  then show ?thesis using assms get_param_float_own [OF assms(1) True] by (auto simp: param_float_def new_or_def)
next
  case False
  then show ?thesis using assms get_param_float_none [OF False] by simp
qed

section \<open>The attitude controller keeps its limits\<close>

text \<open>The two limits of the outputs are parameters between 0 and a bound.\<close>

definition att_limits :: "param_table \<Rightarrow> float_bits \<Rightarrow> float_bits \<Rightarrow> param_store \<Rightarrow> bool" where
  "att_limits T M Y st \<longleftrightarrow> param_inv T st \<and> limited M (param_float T ''MC_ATT_LIM'' st) \<and> limited Y (param_float T ''MC_YAWRATE_LIM'' st)"

definition params_limited :: "float_bits \<Rightarrow> float_bits \<Rightarrow> mc_att_control_params \<Rightarrow> bool" where
  "params_limited M Y p \<longleftrightarrow> limited M (ap_att_lim p) \<and> limited Y (ap_yawrate_lim p)"

text \<open>Reading goes on, whatever the value is.\<close>

lemma get_param_float_bind:
  assumes "param_inv T st" "\<And>v. get_param_float T p old st = Some v \<Longrightarrow> \<exists>r. f v = Some r \<and> Q r"
  shows "\<exists>r. Option.bind (get_param_float T p old st) f = Some r \<and> Q r"
  using get_param_float_total [OF assms(1), of p old] assms(2) by fastforce

lemma attitude_parameters_limited:
  assumes "att_limits T M Y st" "params_limited M Y p"
  shows "\<exists>p'. attitude_parameters_update T (attitude_parameters_init T) st p = Some p' \<and> params_limited M Y p'"
proof -
  let ?h = "attitude_parameters_init T"
  have inv: "param_inv T st" using assms(1) by (simp add: att_limits_def)
  have lim: "get_param_float T (ah_att_lim ?h) (ap_att_lim p) st = Some v \<Longrightarrow> limited M v"
    "get_param_float T (ah_yawrate_lim ?h) (ap_yawrate_lim p) st = Some v \<Longrightarrow> limited Y v" for v
    unfolding attitude_parameters_init_def mc_att_control_param_handles.simps
    using assms get_param_float_limited [OF inv] unfolding att_limits_def params_limited_def by blast+
  show ?thesis
    unfolding attitude_parameters_update_def by (intro get_param_float_bind [OF inv]) (simp add: params_limited_def lim)
qed

lemma rate_parameters_total:
  assumes "param_inv T st"
  shows "\<exists>p'. rate_parameters_update T h st p = Some p'"
proof -
  have "\<exists>p'. rate_parameters_update T h st p = Some p' \<and> True"
    unfolding rate_parameters_update_def by (intro get_param_float_bind [OF assms]) simp
  then show ?thesis by simp
qed

lemma limit_output_within:
  assumes "limited M m" "isfinite x" "limit_output m x pid = (y, pid')"
  shows "within_limit M y" "pid_inv pid' = pid_inv pid"
  using assms by (auto simp: limit_output_def limited_def within_limit_def f32_order isfinite_def pid_inv_def split: if_splits)

definition att_inv :: "param_table \<Rightarrow> float_bits \<Rightarrow> float_bits \<Rightarrow> attitude_control \<Rightarrow> bool" where
  "att_inv T M Y c \<longleftrightarrow> pid_inv (yaw_speed_controller c) \<and> pid_inv (pitch_controller c) \<and> pid_inv (roll_controller c) \<and>
     params_limited M Y (att_params c) \<and> (att_initialized c \<longrightarrow> att_handles c = attitude_parameters_init T)"

lemma att_inv_time [simp]: "att_inv T M Y (c\<lparr>att_last_run := t\<rparr>) = att_inv T M Y c"
  by (simp add: att_inv_def)

lemma att_control_init_inv:
  assumes "att_limits T M Y st" "att_inv T M Y c"
  shows "\<exists>c'. att_control_init T st c = Some c' \<and> att_inv T M Y c' \<and> att_initialized c'"
  using attitude_parameters_limited [OF assms(1), of "att_params c"] assms(2) pid_init_inv
  by (auto simp: att_inv_def att_control_init_def Let_def)

lemma att_control_update_inv:
  assumes "att_limits T M Y st" "att_inv T M Y c" "att_initialized c"
  shows "\<exists>c'. att_control_update T st c = Some c' \<and> att_inv T M Y c'"
  using attitude_parameters_limited [OF assms(1), of "att_params c"] assms(2,3)
  by (auto simp: att_inv_def att_control_update_def pid_set_parameters_inv)

lemma attitude_control_limited:
  assumes lim: "att_limits T M Y st" and c: "att_inv T M Y c" "att_skip_counter c < 2 ^ 31 - 1"
  shows "\<exists>r c'. multirotor_control_attitude T cosf st now1 now2 sp att c = Some (r, c') \<and> att_inv T M Y c' \<and>
    within_limit M (out_roll r) \<and> within_limit M (out_pitch r) \<and> within_limit Y (out_yaw r) \<and>
    att_skip_counter c' = att_skip_counter c + 1"
proof -
  define dt where "dt = seconds_between now1 (att_last_run c)"
  obtain c1 where c1: "(if att_initialized c then Some else att_control_init T st) (c\<lparr>att_last_run := now2\<rparr>) = Some c1"
    and i1: "att_inv T M Y c1" "att_initialized c1"
    using att_control_init_inv [OF lim, of "c\<lparr>att_last_run := now2\<rparr>"] c(1) by (cases "att_initialized c") auto
  obtain c2 where c2: "(if att_skip_counter c mod 50 = 0 then att_control_update T st else Some) c1 = Some c2"
    and i2: "att_inv T M Y c2"
    using att_control_update_inv [OF lim i1] i1(1) by (cases "att_skip_counter c mod 50 = 0") auto
  note inv = i2 [unfolded att_inv_def params_limited_def]
  obtain p pp where p: "pid_calculate (f32_add (pitch_body sp) (ap_att_xoff (att_params c2))) (att_pitch att) (att_pitchspeed att) dt
     (pitch_controller c2) = (p, pp)" by (metis surj_pair)
  obtain r rp where r: "pid_calculate (f32_add (roll_body sp) (ap_att_yoff (att_params c2))) (att_roll att) (att_rollspeed att) dt
     (roll_controller c2) = (r, rp)" by (metis surj_pair)
  obtain y yp where y: "pid_calculate (yaw_body sp) (att_yawspeed att) 0 dt (yaw_speed_controller c2) = (y, yp)" by (metis surj_pair)
  obtain p' pp' where p': "limit_output (ap_att_lim (att_params c2)) p pp = (p', pp')" by (metis surj_pair)
  obtain r' rp' where r': "limit_output (ap_att_lim (att_params c2)) r rp = (r', rp')" by (metis surj_pair)
  obtain y' yp' where y': "limit_output (ap_yawrate_lim (att_params c2)) y yp = (y', yp')" by (metis surj_pair)
  have fin: "isfinite p \<and> pid_inv pp" "isfinite r \<and> pid_inv rp" "isfinite y \<and> pid_inv yp"
    using inv pid_calculate_inv(1,2) [OF _ p] pid_calculate_inv(1,2) [OF _ r] pid_calculate_inv(1,2) [OF _ y] by (auto simp: pid_inv_def)
  have w: "within_limit M p'" "within_limit M r'" "within_limit Y y'" "pid_inv pp'" "pid_inv rp'" "pid_inv yp'"
    using limit_output_within [OF _ _ p'] limit_output_within [OF _ _ r'] limit_output_within [OF _ _ y'] fin inv within_larger
    by (auto simp: limited_def)
  then show ?thesis
    using c(2) inv by (simp add: multirotor_control_attitude_def c1 c2 count_up_def p r y p' r' y' dt_def [symmetric] att_inv_def params_limited_def)
qed

section \<open>Turns of the loop\<close>

lemmas mc_publish_defs = publish_actuators_def publish_att_sp_def publish_rates_sp_def mc_now_def

text \<open>The inputs change neither the controllers nor the mode, and nothing goes to the motors.\<close>

lemma mc_inputs_frame [simp]:
  "attitude_controller (mc_inputs s) = attitude_controller s" "rate_controller (mc_inputs s) = rate_controller s"
  "mc_state (mc_inputs s) = mc_state s" "mc_att (mc_inputs s) = mc_att s"
  "Actuators r \<in> set (mc_published (mc_inputs s)) \<longleftrightarrow> Actuators r \<in> set (mc_published s)"
  by (simp_all add: mc_inputs_def offboard_inputs_def manual_inputs_def manual_rates_def manual_attitude_def mc_publish_defs Let_def)

lemma mc_copies_frame [simp]:
  "attitude_controller (mc_copies i s) = attitude_controller s" "rate_controller (mc_copies i s) = rate_controller s"
  "mc_state (mc_copies i s) = new_or (in_status i) (mc_state s)" "mc_att (mc_copies i s) = new_or (in_attitude i) (mc_att s)"
  "mc_published (mc_copies i s) = mc_published s"
  by (simp_all add: mc_copies_def Let_def)

text \<open>Turns that control the attitude only.\<close>

definition attitude_only :: "param_table \<Rightarrow> float_bits \<Rightarrow> float_bits \<Rightarrow> mc_input \<Rightarrow> bool" where
  "attitude_only T M Y i \<longleftrightarrow> att_limits T M Y (in_store i) \<and>
     (case in_status i of None \<Rightarrow> True | Some v \<Rightarrow> flag_control_rates_enabled v = 0)"

text \<open>Roll, pitch and yaw of a command to the motors; the code passes the thrust on without a limit or a check.\<close>

definition steering_within :: "float_bits \<Rightarrow> float_bits \<Rightarrow> control_output \<Rightarrow> bool" where
  "steering_within M Y r \<longleftrightarrow> within_limit M (out_roll r) \<and> within_limit M (out_pitch r) \<and> within_limit Y (out_yaw r)"

definition mc_limited :: "param_table \<Rightarrow> float_bits \<Rightarrow> float_bits \<Rightarrow> mc \<Rightarrow> bool" where
  "mc_limited T M Y s \<longleftrightarrow> flag_control_rates_enabled (mc_state s) = 0 \<and> att_inv T M Y (attitude_controller s) \<and>
     (\<forall>r. Actuators r \<in> set (mc_published s) \<longrightarrow> steering_within M Y r)"

lemma mc_turn_limited:
  assumes s: "mc_limited T M Y s" "att_skip_counter (attitude_controller s) < 2 ^ 31 - 1" and i: "attitude_only T M Y i"
  shows "\<exists>s'. mc_turn T cosf i s = Some s' \<and> mc_limited T M Y s' \<and>
    att_skip_counter (attitude_controller s') \<le> att_skip_counter (attitude_controller s) + 1"
proof -
  let ?s = "mc_inputs (mc_copies i s)"
  have off: "flag_control_rates_enabled (mc_state ?s) = 0"
    using s(1) i by (auto simp: mc_limited_def attitude_only_def new_or_def split: option.splits)
  have lim: "mc_limited T M Y ?s" using s(1) off by (simp add: mc_limited_def)
  show ?thesis
  proof (cases "flag_control_attitude_enabled (mc_state ?s) = 0")
    case True
    then show ?thesis using lim off by (simp add: mc_turn_def attitude_stage_def rates_stage_def)
  next
    case False
    let ?t1 = "fst (mc_now ?s)" and ?t2 = "fst (mc_now (snd (mc_now ?s)))"
    obtain r c where r: "multirotor_control_attitude T cosf (in_store i) ?t1 ?t2 (mc_att_sp ?s) (mc_att ?s) (attitude_controller ?s) = Some (r, c)"
      "att_inv T M Y c" "steering_within M Y r" "att_skip_counter c = att_skip_counter (attitude_controller s) + 1"
      using attitude_control_limited [of T M Y "in_store i" "attitude_controller ?s"] s i
      by (fastforce simp: mc_limited_def attitude_only_def steering_within_def)
    show ?thesis
      using r lim off False
      by (auto simp: mc_turn_def attitude_stage_def rates_stage_def run_attitude_def mc_limited_def mc_publish_defs Let_def)
  qed
qed

lemma mc_run_limited:
  "mc_limited T M Y s \<Longrightarrow> att_skip_counter (attitude_controller s) + int (length js) < 2 ^ 31 \<Longrightarrow> list_all (attitude_only T M Y) js \<Longrightarrow>
   \<exists>s'. run_steps (mc_turn T cosf) js s = Some s' \<and> mc_limited T M Y s'"
proof (induction js arbitrary: s)
  case (Cons j js)
  have j: "att_skip_counter (attitude_controller s) < 2 ^ 31 - 1" "attitude_only T M Y j" using Cons.prems by simp_all
  obtain s' where s': "mc_turn T cosf j s = Some s'" "mc_limited T M Y s'"
    "att_skip_counter (attitude_controller s') \<le> att_skip_counter (attitude_controller s) + 1"
    using mc_turn_limited [OF Cons.prems(1) j] by blast
  show ?case using Cons.IH [OF s'(2)] Cons.prems(2,3) s'(1,3) by simp
qed simp

lemma mc_start_skip: "att_skip_counter (attitude_controller (mc_start att_control_zero rc test clk)) = 0"
  by (simp add: mc_start_def att_control_zero_def Let_def)

lemma mc_start_limited:
  assumes "f32_le 0 M" "f32_le 0 Y"
  shows "mc_limited T M Y (mc_start att_control_zero rc test clk)"
  using assms pid_init_inv [of 0 0 0 0 0]
  by (simp add: mc_limited_def mc_start_def initial_status_def att_inv_def att_control_zero_def params_limited_def limited_def Let_def)
    (auto simp: f32_order steering_within_def within_limit_def)

text \<open>
  As long as the commander enables the control of the attitude only, roll, pitch and yaw of every command to the motors are
  limited (the thrust is not): roll and pitch to the limit of the attitude, yaw to the limit of the yaw rate, for any setpoints, sticks and attitudes, those that are not numbers
  included, any cosine, and parameters that change while the loop runs. The thread never fails (in fewer than 2^31 turns), and its
  last command is zero.
\<close>
theorem attitude_outputs_limited:
  assumes "f32_le 0 M" "f32_le 0 Y" "length js < 2 ^ 31" "list_all (attitude_only T M Y) js"
  shows "\<exists>s. run_steps (mc_turn T cosf) js (mc_start att_control_zero rc test clk) = Some s \<and>
    (\<forall>r. Actuators r \<in> set (mc_published (mc_stop s)) \<longrightarrow> steering_within M Y r) \<and>
    last (mc_published (mc_stop s)) = Actuators \<lparr>out_roll = 0, out_pitch = 0, out_yaw = 0, out_thrust = 0\<rparr>"
proof -
  have zero: "steering_within M Y \<lparr>out_roll = 0, out_pitch = 0, out_yaw = 0, out_thrust = 0\<rparr>"
    using assms(1,2) by (auto simp: steering_within_def within_limit_def f32_order)
  have start: "mc_limited T M Y (mc_start att_control_zero rc test clk)" by (rule mc_start_limited [OF assms(1,2)])
  obtain s where s: "run_steps (mc_turn T cosf) js (mc_start att_control_zero rc test clk) = Some s" "mc_limited T M Y s"
    using mc_run_limited [OF start _ assms(4)] assms(3) by (auto simp: mc_start_skip)
  then show ?thesis using zero by (auto simp: mc_stop_def publish_actuators_def mc_limited_def)
qed

section \<open>The parameters of the code\<close>

text \<open>The \<open>PARAM_DEFINE_FLOAT\<close> lines of the two controllers: names and defaults.\<close>

definition mc_param_defaults :: "(string \<times> float_bits) list" where
  "mc_param_defaults =
     [(''MC_YAWRATE_P'', 0x3DA3D70A),
      (''MC_YAWRATE_I'', 0x3CA3D70A),
      (''MC_YAWRATE_D'', 0x00000000),
      (''MC_YAWRATE_AWU'', 0x3CA3D70A),
      (''MC_YAWRATE_LIM'', 0x3DCCCCCD),
      (''MC_ATT_P'', 0x3E4CCCCD),
      (''MC_ATT_I'', 0x00000000),
      (''MC_ATT_D'', 0x3D4CCCCD),
      (''MC_ATT_AWU'', 0x3D4CCCCD),
      (''MC_ATT_LIM'', 0x3ECCCCCD),
      (''MC_ATT_XOFF'', 0x00000000),
      (''MC_ATT_YOFF'', 0x00000000),
      (''MC_ATTRATE_P'', 0x3E4CCCCD),
      (''MC_ATTRATE_D'', 0x00000000),
      (''MC_ATTRATE_LIM'', 0x41000000)]"

definition mc_table :: param_table where
  "mc_table = map (\<lambda>(name, v). \<lparr>pi_name = ascii name, pi_type = PARAM_TYPE_FLOAT, pi_val = Bits v\<rparr>) mc_param_defaults"

definition untouched_store :: param_store where
  "untouched_store = \<lparr>param_values = None, updates = [], p_clock = (\<lambda>k. 0), p_reads = 0, mallocs = (\<lambda>k. True), malloc_calls = 0\<rparr>"

lemma mc_table_inv: "param_inv mc_table untouched_store"
  by (simp add: param_inv_def plain_table_def untouched_store_def mc_table_def mc_param_defaults_def ascii_def param_types)

lemma mc_table_limits:
  "param_float mc_table ''MC_ATT_LIM'' untouched_store = 0x3ECCCCCD" "param_float mc_table ''MC_YAWRATE_LIM'' untouched_store = 0x3DCCCCCD"
  by code_simp+

text \<open>The defaults limit roll and pitch to 0.4 and yaw to 0.1.\<close>

lemma mc_table_att_limits: "att_limits mc_table 0x3ECCCCCD 0x3DCCCCCD untouched_store"
  unfolding att_limits_def mc_table_limits
  by (simp add: mc_table_inv limited_def f32_order f32_key_def f32_is_nan_def f32_neg_def)

text \<open>The copter is armed and flown by hand, and the attitude becomes one that is not a number.\<close>

definition manual_turn :: mc_input where
  "manual_turn = \<lparr>in_status = Some (initial_status\<lparr>flag_control_manual_enabled := True, flag_control_attitude_enabled := 1\<rparr>),
     in_manual = Some \<lparr>stick_roll = 0x3F800000, stick_pitch = 0, stick_yaw = 0xBF800000, stick_throttle = 0x3F000000\<rparr>,
     in_attitude = None, in_att_sp = None, in_offboard_sp = None, in_store = untouched_store\<rparr>"

definition blind_turn :: mc_input where
  "blind_turn = manual_turn\<lparr>in_status := None, in_attitude := Some \<lparr>att_roll = 0x7FC00000, att_pitch = 0x7F800000,
     att_rollspeed = 0, att_pitchspeed = 0x7FC00000, att_yawspeed = 0\<rparr>\<rparr>"

lemma attitude_outputs_limited_witness:
  "\<exists>s. run_steps (mc_turn mc_table (\<lambda>x. 0x3F800000)) [manual_turn, blind_turn, manual_turn]
        (mc_start att_control_zero rate_control_zero False (\<lambda>k. 4000 * of_nat k)) = Some s \<and>
    (\<forall>r. Actuators r \<in> set (mc_published (mc_stop s)) \<longrightarrow> steering_within 0x3ECCCCCD 0x3DCCCCCD r) \<and>
    last (mc_published (mc_stop s)) = Actuators \<lparr>out_roll = 0, out_pitch = 0, out_yaw = 0, out_thrust = 0\<rparr>"
  by (rule attitude_outputs_limited)
    (simp_all add: attitude_only_def manual_turn_def blind_turn_def initial_status_def mc_table_att_limits f32_order f32_key_def
      f32_is_nan_def f32_neg_def)

section \<open>The rate controller and values that are not numbers\<close>

lemma attitude_parameters_total:
  assumes "param_inv T st"
  shows "\<exists>p'. attitude_parameters_update T h st p = Some p'"
proof -
  have "\<exists>p'. attitude_parameters_update T h st p = Some p' \<and> True"
    unfolding attitude_parameters_update_def by (intro get_param_float_bind [OF assms]) simp
  then show ?thesis by simp
qed

lemma attitude_control_total:
  assumes "param_inv T st" "att_skip_counter c < 2 ^ 31 - 1"
  shows "\<exists>r c'. multirotor_control_attitude T cosf st now1 now2 sp att c = Some (r, c') \<and>
    att_skip_counter c' = att_skip_counter c + 1"
proof -
  obtain c1 where c1: "(if att_initialized c then Some else att_control_init T st) (c\<lparr>att_last_run := now2\<rparr>) = Some c1"
    using attitude_parameters_total [OF assms(1), of "attitude_parameters_init T" "att_params c"]
    by (cases "att_initialized c") (auto simp: att_control_init_def Let_def)
  obtain c2 where c2: "(if att_skip_counter c mod 50 = 0 then att_control_update T st else Some) c1 = Some c2"
    using attitude_parameters_total [OF assms(1), of "att_handles c1" "att_params c1"]
    by (cases "att_skip_counter c mod 50 = 0") (auto simp: att_control_update_def)
  show ?thesis using assms(2)
    by (simp add: multirotor_control_attitude_def c1 c2 count_up_def case_prod_unfold Let_def)
qed

text \<open>The last pitch output enters the next one, and one that is not a number makes all others so.\<close>

lemma rate_control_nan:
  assumes "param_inv T st" "rate_skip_counter c < 2 ^ 31 - 1"
  shows "\<exists>r c'. multirotor_control_rates T st now1 now2 sp gr gp gy c = Some (r, c') \<and>
    rate_skip_counter c' = rate_skip_counter c + 1 \<and> pitch_control_last c' = out_pitch r \<and>
    (f32_is_nan (pitch_control_last c) \<or> f32_is_nan gp \<longrightarrow> f32_is_nan (out_pitch r))"
proof -
  obtain c1 where c1: "(if rate_initialized c then Some else rate_control_init T st) (c\<lparr>rate_last_run := now2\<rparr>) = Some c1"
    "pitch_control_last c1 = pitch_control_last c"
    using rate_parameters_total [OF assms(1), of "rate_parameters_init T" "rate_params c"]
    by (cases "rate_initialized c") (auto simp: rate_control_init_def Let_def)
  obtain c2 where c2: "(if rate_skip_counter c mod 2500 = 0 then rate_control_update T st else Some) c1 = Some c2"
    "pitch_control_last c2 = pitch_control_last c"
    using rate_parameters_total [OF assms(1), of "rate_handles c1" "rate_params c1"] c1(2)
    by (cases "rate_skip_counter c mod 2500 = 0") (auto simp: rate_control_update_def)
  show ?thesis using assms(2)
    by (simp add: multirotor_control_rates_def c1(1) c2 count_up_def Let_def)
qed

definition pitch_lost :: "mc \<Rightarrow> bool" where
  "pitch_lost s \<longleftrightarrow> f32_is_nan (pitch_control_last (rate_controller s))"

definition turns_left :: "mc \<Rightarrow> nat \<Rightarrow> bool" where
  "turns_left s n \<longleftrightarrow> att_skip_counter (attitude_controller s) + int n < 2 ^ 31 \<and> rate_skip_counter (rate_controller s) + int n < 2 ^ 31"

lemma attitude_stage_total:
  assumes "param_inv T st" "att_skip_counter (attitude_controller s) < 2 ^ 31 - 1"
  shows "\<exists>s'. attitude_stage T cosf st s = Some s' \<and> mc_state s' = mc_state s \<and> mc_att s' = mc_att s \<and> rate_controller s' = rate_controller s \<and>
    att_skip_counter (attitude_controller s') \<le> att_skip_counter (attitude_controller s) + 1"
proof -
  let ?t1 = "fst (mc_now s)" and ?t2 = "fst (mc_now (snd (mc_now s)))"
  obtain r c where r: "multirotor_control_attitude T cosf st ?t1 ?t2 (mc_att_sp s) (mc_att s) (attitude_controller s) = Some (r, c)"
    "att_skip_counter c = att_skip_counter (attitude_controller s) + 1"
    using attitude_control_total [OF assms] by blast
  then show ?thesis by (auto simp: attitude_stage_def run_attitude_def mc_publish_defs Let_def)
qed

lemma rates_stage_nan:
  assumes "param_inv T st" "rate_skip_counter (rate_controller s) < 2 ^ 31 - 1"
  shows "\<exists>s'. rates_stage T st s = Some s' \<and> mc_state s' = mc_state s \<and> attitude_controller s' = attitude_controller s \<and>
    rate_skip_counter (rate_controller s') \<le> rate_skip_counter (rate_controller s) + 1 \<and>
    (pitch_lost s \<longrightarrow> pitch_lost s') \<and>
    (flag_control_rates_enabled (mc_state s) \<noteq> 0 \<longrightarrow> f32_is_nan (att_pitchspeed (mc_att s)) \<longrightarrow> pitch_lost s') \<and>
    (flag_control_rates_enabled (mc_state s) \<noteq> 0 \<longrightarrow> pitch_lost s' \<longrightarrow>
      (\<exists>r. last (mc_published s') = Actuators r \<and> f32_is_nan (out_pitch r)))"
proof (cases "flag_control_rates_enabled (mc_state s) = 0")
  case True
  then show ?thesis by (simp add: rates_stage_def)
next
  case False
  define s1 where "s1 = (if rates_sp_updated s then s\<lparr>mc_rates_sp := rates_sp_topic s, rates_sp_updated := False\<rparr> else s)"
  have s1: "rate_controller s1 = rate_controller s" "mc_att s1 = mc_att s" "mc_state s1 = mc_state s"
    "attitude_controller s1 = attitude_controller s"
    by (simp_all add: s1_def)
  let ?t1 = "fst (mc_now s1)" and ?t2 = "fst (mc_now (snd (mc_now s1)))" and ?a = "mc_att s"
  obtain r c where r: "multirotor_control_rates T st ?t1 ?t2 (mc_rates_sp s1) (att_rollspeed ?a) (att_pitchspeed ?a) (att_yawspeed ?a)
      (rate_controller s) = Some (r, c)"
    "rate_skip_counter c = rate_skip_counter (rate_controller s) + 1" "pitch_control_last c = out_pitch r"
    "f32_is_nan (pitch_control_last (rate_controller s)) \<or> f32_is_nan (att_pitchspeed ?a) \<longrightarrow> f32_is_nan (out_pitch r)"
    using rate_control_nan [OF assms] by blast
  then show ?thesis
    using False by (auto simp: rates_stage_def s1_def [symmetric] s1 mc_publish_defs pitch_lost_def Let_def)
qed

lemma mc_turn_nan:
  assumes "param_inv T (in_store i)" "turns_left s (Suc n)"
  shows "\<exists>s'. mc_turn T cosf i s = Some s' \<and> turns_left s' n \<and> mc_state s' = new_or (in_status i) (mc_state s) \<and>
    (pitch_lost s \<longrightarrow> pitch_lost s') \<and>
    (flag_control_rates_enabled (mc_state s') \<noteq> 0 \<longrightarrow> f32_is_nan (att_pitchspeed (new_or (in_attitude i) (mc_att s))) \<longrightarrow> pitch_lost s') \<and>
    (flag_control_rates_enabled (mc_state s') \<noteq> 0 \<longrightarrow> pitch_lost s' \<longrightarrow>
      (\<exists>r. last (mc_published s') = Actuators r \<and> f32_is_nan (out_pitch r)))"
proof -
  let ?s = "mc_inputs (mc_copies i s)"
  obtain t where t: "attitude_stage T cosf (in_store i) ?s = Some t" "mc_state t = new_or (in_status i) (mc_state s)"
    "mc_att t = new_or (in_attitude i) (mc_att s)" "rate_controller t = rate_controller s"
    "att_skip_counter (attitude_controller t) \<le> att_skip_counter (attitude_controller s) + 1"
    using attitude_stage_total [OF assms(1), of ?s] assms(2) by (auto simp: turns_left_def)
  show ?thesis
    using rates_stage_nan [OF assms(1), of t] t assms(2) by (auto simp: mc_turn_def turns_left_def pitch_lost_def)
qed

lemma mc_run_nan:
  "list_all (\<lambda>i. param_inv T (in_store i)) js \<Longrightarrow> turns_left s (length js + n) \<Longrightarrow> pitch_lost s \<Longrightarrow>
   \<exists>s'. run_steps (mc_turn T cosf) js s = Some s' \<and> turns_left s' n \<and> pitch_lost s'"
proof (induction js arbitrary: s)
  case (Cons j js)
  have l: "turns_left s (Suc (length js + n))" "param_inv T (in_store j)" using Cons.prems by simp_all
  obtain s1 where "mc_turn T cosf j s = Some s1" "turns_left s1 (length js + n)" "pitch_lost s1"
    using mc_turn_nan [OF l(2,1), of cosf] Cons.prems(3) by auto
  then show ?case using Cons.IH [of s1] Cons.prems(1) by simp
qed simp

text \<open>
  C39. One pitch rate that is not a number, in one turn that controls the rates, is not forgotten: after any number of further turns,
  with sensors that are healthy again and also with a derivative gain of zero (which is the default), every turn that controls the
  rates commands a pitch that is not a number.
\<close>
theorem nan_rate_is_permanent:
  assumes "list_all (\<lambda>i. param_inv T (in_store i)) (i # js @ [j])" "turns_left s (length (i # js @ [j]))"
    and "flag_control_rates_enabled (new_or (in_status i) (mc_state s)) \<noteq> 0"
    and "f32_is_nan (att_pitchspeed (new_or (in_attitude i) (mc_att s)))"
  shows "\<exists>s' s''. run_steps (mc_turn T cosf) (i # js) s = Some s' \<and> mc_turn T cosf j s' = Some s'' \<and>
    (flag_control_rates_enabled (mc_state s'') = 0 \<or> (\<exists>r. last (mc_published s'') = Actuators r \<and> f32_is_nan (out_pitch r)))"
proof -
  have l: "turns_left s (Suc (length js + 1))" "param_inv T (in_store i)" using assms(1,2) by simp_all
  obtain s1 where s1: "mc_turn T cosf i s = Some s1" "turns_left s1 (length js + 1)" "pitch_lost s1"
    using mc_turn_nan [OF l(2,1), of cosf] assms(3,4) by auto
  obtain s' where s': "run_steps (mc_turn T cosf) js s1 = Some s'" "turns_left s' (Suc 0)" "pitch_lost s'"
    using mc_run_nan [OF _ s1(2,3)] assms(1) by auto
  obtain s'' where "mc_turn T cosf j s' = Some s''"
    "flag_control_rates_enabled (mc_state s'') \<noteq> 0 \<longrightarrow> (\<exists>r. last (mc_published s'') = Actuators r \<and> f32_is_nan (out_pitch r))"
    using mc_turn_nan [OF _ s'(2), of T j cosf] assms(1) s'(3) by auto
  then show ?thesis using s1(1) s'(1) by auto
qed

text \<open>The parameters of the code, a rate of the pitch that is missing once, then a level and quiet copter.\<close>

definition rates_turn :: "float_bits \<Rightarrow> mc_input" where
  "rates_turn v = manual_turn\<lparr>in_status := Some (initial_status\<lparr>flag_control_manual_enabled := True, flag_control_rates_enabled := 1\<rparr>),
     in_attitude := Some \<lparr>att_roll = 0, att_pitch = 0, att_rollspeed = 0, att_pitchspeed = v, att_yawspeed = 0\<rparr>\<rparr>"

lemma nan_rate_is_permanent_witness:
  "\<exists>s' s''. run_steps (mc_turn mc_table (\<lambda>x. 0x3F800000)) (rates_turn 0x7FC00000 # [rates_turn 0, manual_turn])
        (mc_start att_control_zero rate_control_zero False (\<lambda>k. 4000 * of_nat k)) = Some s' \<and>
    mc_turn mc_table (\<lambda>x. 0x3F800000) (rates_turn 0) s' = Some s'' \<and>
    (flag_control_rates_enabled (mc_state s'') = 0 \<or> (\<exists>r. last (mc_published s'') = Actuators r \<and> f32_is_nan (out_pitch r)))"
  by (rule nan_rate_is_permanent)
    (simp_all add: rates_turn_def manual_turn_def mc_table_inv turns_left_def mc_start_def att_control_zero_def rate_control_zero_def
      new_or_def f32_is_nan_def Let_def)

end
