(* ===== verification/Spec2Isabelle.thy ===== *)
theory Spec2Isabelle
  imports C_Prelude Float32 Commander_State Mission Bytes Bson Param Perf_Counter Crc32 Hx_Stream Commander_Loop Commander_Command
    Commander_Rates Ppm_Input Px4io Calendar Queue Hrt Gps_Ubx Mavlink_Frame Mavlink_Msg Mavlink_Param Mavlink_App Pid
    Multirotor_Control
begin

text \<open>
  Verification library for the flight software of the quadrotor (\<open>src/apps\<close>) and the parts of the operating system and of the
  generated MAVLink library that it rests on (\<open>src/nuttx\<close>, \<open>src/mavlink/include\<close>).

  \<^bold>\<open>The program.\<close> A ground station talks to the firmware over a serial link (\<open>apps/mavlink\<close>): the receiving thread parses
  frames, stores missions (\<open>waypoints.c\<close>), reads and sets parameters (\<open>mavlink_parameters.c\<close>) and publishes the other messages as
  topics; it reports back with the heartbeat, acknowledgements and texts. The commander (\<open>apps/commander\<close>) owns the state of the
  vehicle: a state machine with its transitions, a thread that obeys commands, and a loop that watches sensors, battery, sticks and
  links. It publishes the status and arms the actuators. The attitude control (\<open>apps/multirotor_att_control\<close>, with
  \<open>systemlib/pid\<close>) turns the status, setpoints and attitude into commands to the motors. The I/O processor (\<open>apps/px4io\<close>) is a
  second computer with its own firmware: it receives these commands over a framed serial stream (\<open>systemlib/hx_stream\<close>), mixes in the
  sticks of the remote control that its PPM decoder measures, and interlocks the servos with the safety button. A driver reads GPS
  receivers (\<open>apps/gps/ubx.c\<close>). Below are the parameter store with its files in BSON (\<open>systemlib/param\<close>,
  \<open>systemlib/bson\<close>), performance counters, the high-resolution timer (\<open>up_hrt.c\<close>) on linked queues, calendar time and the CRC.

  \<^bold>\<open>The theories\<close>, in the order of their imports; a definition has the name of the C function or structure it models, and a
  definition that models part of a function is named for what that part does.

  \<^item> \<open>C_Prelude\<close>, \<open>Float32\<close>, \<open>Bytes\<close>: semantics of the language, with no counterpart in the sources. Words of the widths of the
    C types, arrays with checked accesses, \<open>run_steps\<close> and the machine interfaces; IEEE single precision as bit patterns with
    rounding, so that every float expression is evaluated operation by operation; little-endian bytes, files, strings.
  \<^item> \<open>Commander_State\<close>: \<open>commander/state_machine_helper.c\<close>. \<open>commander\<close> holds the status and what was published; the functions
    \<open>update_state_machine_*\<close> and the two for emergencies are the events of \<open>commander_step\<close>. The automaton \<open>spec_step\<close> on state and simulation
    flag is its specification, refined by C1; C2 ties the published arming to the state. \<open>do_state_update\<close>, which these functions
    call, is not an event: \<open>commander.c\<close> also calls it directly, to standby from the loop, and with a request for preflight or
    reboot from the commands, which is where its defect shows (C3, C17).
  \<^item> \<open>Commander_Loop\<close>: the loop of \<open>commander_thread_main\<close> in \<open>commander/commander.c\<close>, one definition for each block, composed to
    \<open>commander_turn\<close>; C14, C15. \<open>Commander_Command\<close>: \<open>handle_command\<close> and the three calibrations; an outcome is a result, a reboot,
    undefined behaviour, or no return; C16, C17. \<open>Commander_Rates\<close>: both together as \<open>vehicle_step\<close>, and that the control of the rates
    stays off without an offboard setpoint or a selection of controllers; for C40.
  \<^item> \<open>Mission\<close>: \<open>mavlink/waypoints.c\<close>. The storage is \<open>wpm_storage\<close>, events of \<open>mission_step\<close> are messages, the passing of time and positions;
    C4 to C7 cover the bounds of the storage, uploads, downloads and the flight along the mission.
  \<^item> \<open>Bson\<close>, \<open>Param\<close>: \<open>tinybson.c\<close> and \<open>param.c\<close>. The store refines a map over the defaults of the table; saving and loading
    round-trips, and loading arbitrary bytes ends; C8 to C11.
  \<^item> \<open>Perf_Counter\<close>, \<open>Crc32\<close>, \<open>Hx_Stream\<close>: the counters, \<open>lib_crc32.c\<close> against a bitwise division, and the byte stuffing; C12, C13.
  \<^item> \<open>Ppm_Input\<close>, \<open>Px4io\<close>: \<open>drv_ppm_input.c\<close> and \<open>apps/px4io\<close> (\<open>comms.c\<close>, \<open>mixer.c\<close>, \<open>safety.c\<close>, \<open>px4io.c\<close>). The shared structure
    \<open>sys_state_s\<close> and the statics of the parts are the record \<open>io\<close>; the relation \<open>interleaved\<close> lets the timer handlers run between any two
    statements of the handling of a frame. That the servos are switched off without input (C20) is about the states such runs
    reach, in which the count of lost frames can be above its limit; C18 to C21.
  \<^item> \<open>Calendar\<close>, \<open>Queue\<close>, \<open>Hrt\<close>: \<open>nuttx/lib/time\<close>, \<open>nuttx/lib/queue\<close>, \<open>up_hrt.c\<close>. Dates against a count of days that uses the lengths of
    the months and the Gregorian leap years, not the tables of the code; pointer queues against lists; the clock against the
    true time (the compare unit matches again by itself when the handler does not set it), and the callouts against their
    deadlines; C22 to C26.
  \<^item> \<open>Gps_Ubx\<close>: \<open>gps/ubx.c\<close>, parser, reading loop, configuration, watchdog; C27.
  \<^item> \<open>Mavlink_Frame\<close>, \<open>Mavlink_Msg\<close>, \<open>Mavlink_Param\<close>, \<open>Mavlink_App\<close>: \<open>checksum.h\<close>, \<open>mavlink_helpers.h\<close>, \<open>protocol.h\<close>, the headers of
    22 messages, \<open>mavlink_parameters.c\<close> and \<open>mavlink.c\<close>. The records extend each other as the components do: the link, then the parameter
    protocol, then the application with the mission. The theorems go over the bytes of the wire: a message arrives, a corrupted one
    does not, the receiver finds the next frame after noise, the whole parameter list and a whole mission are transferred, a mode
    request reaches the commander; C28 to C37.
  \<^item> \<open>Pid\<close>, \<open>Multirotor_Control\<close>: \<open>pid.c\<close> and the three files of \<open>multirotor_att_control\<close>, with the static variables as records and one
    turn of the loop as \<open>mc_turn\<close>; C38 to C40, the composition with the commander in this theory. Roll, pitch and yaw are limited by the code,
    the thrust is not.

  \<^bold>\<open>Interfaces.\<close> \<open>event_machine\<close>, \<open>safe_machine\<close> and \<open>refined_machine\<close> (an invariant, progress, an abstraction) are interpreted on the steps
  of the commander, its loop, the mission, the stream, the receiver, the processor, the parameter store and protocol, and the PID
  controller. \<open>effect_property\<close> is what any property of the commander's state and publications needs to survive all its operations; \<open>loop_contract\<close> is
  what the loop and the command thread rely on in the state machine. \<open>item_codec\<close> relates an encoder to its decoder and
  is interpreted on BSON. \<open>pointer_queue\<close> says that an implementation with links behaves as a list. \<open>wire_message\<close> holds what a
  packing function and its decoder owe each other, and proves once that the packed message crosses the link.

  \<^bold>\<open>Conventions.\<close> \<open>None\<close>, or a value of a fault type, is what C leaves undefined: an access outside an object, a conversion that does not
  fit, a signed overflow, a call through a null pointer. Integers are words where the code can wrap, and integers where it promotes
  first. Time is a function from the number of readings so far to the value read; the theorems hold for all such functions or
  state what they need. Values that other programs or devices deliver are inputs of the steps. Topics are the sequence of published
  values.

  \<^bold>\<open>Bounds and recursion.\<close> Loops over arrays recurse on their bounds with proved termination. The magnetometer calibration loops
  until its time is over, the walk over a list of callouts and the dispatcher follow pointers: these are \<open>partial_function (option)\<close>,
  and that they return is part of their theorems, under conditions on the clock, or the queue being a list. The decoder of
  parameter files has fuel for one step more than the file has bytes, which always suffices since every step but the last reads one. The
  threads that read a serial port process a finite list of reads, of which some give nothing; so do the loops of commander,
  I/O processor and attitude control with a list of turns. In \<open>Hrt\<close> an access to the timer
  takes \<open>L n\<close> microseconds, and the theorems assume that the interrupt comes within the bounds stated there. Counters that
  the code never resets bound the number of turns where they are signed: below 2 ^ 31 turns in C39 and C40.

  \<^bold>\<open>Parameters of the models.\<close> Not in the repository, or not deterministic: \<open>cosf\<close>, what \<open>getopt\<close> returns, uninitialised memory (the
  structure that the BSON decoder fills, the stack from which a text is sent), success of \<open>malloc\<close>, \<open>open\<close>, \<open>write\<close> and of advertising
  topics, the table of parameters that the linker builds, and \<open>utarry_eltidx\<close>, which \<open>param_reset\<close> calls and nothing defines
  (so \<open>param_reset\<close> cannot be linked, and is not an operation of the store in C9). In the repository, but kept
  abstract: the two distances of the mission navigation (\<open>waypoints.c\<close>, lines 300 to 350: double precision and
  trigonometry), of which only the result is used, as an input of the steps; and \<open>__dtoa\<close>, the shortest digits of a double
  (\<open>nuttx/lib/stdio/lib_dtoa.c\<close>, arbitrary precision arithmetic), of which C37 holds for any digits.

  \<^bold>\<open>Not modelled.\<close> The drivers of the sensors, the object request broker and the mixers of \<open>systemlib\<close> are C++ classes over
  device registers or the operating system. The estimators are generated numerical code. The position and the fixed-wing control are
  loops around float control laws. The kernel of NuttX (scheduling, memory, file systems), the shell, the system commands and
  the examples are not part of the flight logic. Of modelled components the following is left out: console output
  everywhere; opening, closing and configuring of devices; the functions that print performance counters; in the MAVLink
  application the copying of topics to telemetry messages (\<open>uorb_receiveloop\<close>), the status message of the main loop, the rate
  limits, and the command line; in the commander the start and stop of the daemon. Concurrency between threads is modelled where the
  code depends on it, in \<open>Px4io\<close> and \<open>Hrt\<close>; elsewhere a command, a message or a turn of a loop is one step.
\<close>

section \<open>From the commander to the motors\<close>

definition commanded :: "commander_task \<Rightarrow> mc_input \<Rightarrow> bool" where
  "commanded m j \<longleftrightarrow> (case in_status j of None \<Rightarrow> True | Some v \<Rightarrow> v \<in> set (pub_status (core m)))"

text \<open>
  C40. The commander and the attitude control together. The commander runs from its start: turns of its loop with any inputs, and
  commands, calibrations included, between them. As long as no offboard setpoint reaches it and no command selects the controllers,
  it publishes no status that enables the control of the rates; so whenever the attitude control receives statuses that it
  published, the thread never fails (in fewer than 2^31 turns), roll, pitch and yaw of every command to the motors are
  within the limits of the parameters, for any setpoints, sticks and attitudes, those that are not numbers included, and the
  last command is zero. The thrust is not limited by the code, and nothing is claimed of it.
\<close>
theorem commanded_flight_limited:
  assumes "task_start T m0" "list_all rates_untouched es" "run_steps (vehicle_step T) es m0 = Some m"
    and "list_all (\<lambda>j. att_limits T M Y (in_store j) \<and> commanded m j) js" "length js < 2 ^ 31" "f32_le 0 M" "f32_le 0 Y"
  shows "\<exists>s. run_steps (mc_turn T cosf) js (mc_start att_control_zero rc test clk) = Some s \<and>
    (\<forall>r. Actuators r \<in> set (mc_published (mc_stop s)) \<longrightarrow> steering_within M Y r) \<and>
    last (mc_published (mc_stop s)) = Actuators \<lparr>out_roll = 0, out_pitch = 0, out_yaw = 0, out_thrust = 0\<rparr>"
proof -
  have "rates_off (core m)" using rates_stay_off [OF assms(1-3)] by blast
  then have "list_all (attitude_only T M Y) js"
    using assms(4) by (auto simp: list_all_iff attitude_only_def commanded_def rates_off_def split: option.splits)
  then show ?thesis by (rule attitude_outputs_limited [OF assms(6,7,5)])
qed

text \<open>
  A turn of the loop takes the commander to standby, and a command arms it; the copter gets its last status and the full stick,
  then an attitude that is not a number.
\<close>

lemma commanded_flight_limited_witness:
  "\<exists>m0 m s. task_start mc_table m0 \<and>
    run_steps (vehicle_step mc_table) [Turn (example_input None), Command arm_command] m0 = Some m \<and>
    run_steps (mc_turn mc_table (\<lambda>x. 0x3F800000)) [manual_turn\<lparr>in_status := Some (last (pub_status (core m)))\<rparr>, blind_turn]
      (mc_start att_control_zero rate_control_zero False (\<lambda>k. 4000 * of_nat k)) = Some s \<and>
    (\<forall>r. Actuators r \<in> set (mc_published (mc_stop s)) \<longrightarrow> steering_within 0x3ECCCCCD 0x3DCCCCCD r)"
proof -
  let ?es = "[Turn (example_input None), Command arm_command]"
  obtain m0 where "commander_start mc_table untouched_store (\<lambda>k. 0) (\<lambda>k. None) (\<lambda>k. None) None = Some m0"
    using commander_start_total [OF mc_table_inv] by blast
  then have m0: "task_start mc_table m0" using mc_table_inv unfolding task_start_def by blast
  obtain m1 where m1: "commander_turn mc_table (example_input None) m0 = Some m1" "task_inv mc_table m1"
    using commander_turn_inv [OF task_start_inv [OF m0]] by blast
  obtain m where m: "vehicle_step mc_table (Command arm_command) m1 = Some m" "commander_inv (core m)"
    using arm_command_obeyed [OF m1(2)] by blast
  have run: "run_steps (vehicle_step mc_table) ?es m0 = Some m" using m1(1) m(1) by simp
  have untouched: "list_all rates_untouched ?es"
    using arm_command_untouched by (simp add: rates_untouched_def example_input_def)
  have "pub_status (core m) \<noteq> []" using m(2) by (simp add: commander_inv_def)
  then have turns: "list_all (\<lambda>j. att_limits mc_table 0x3ECCCCCD 0x3DCCCCCD (in_store j) \<and> commanded m j)
      [manual_turn\<lparr>in_status := Some (last (pub_status (core m)))\<rparr>, blind_turn]"
    by (simp add: commanded_def manual_turn_def blind_turn_def mc_table_att_limits)
  have limits: "f32_le 0 0x3ECCCCCD" "f32_le 0 0x3DCCCCCD"
    by (simp_all add: f32_order f32_key_def f32_is_nan_def f32_neg_def)
  show ?thesis
    using m0 run commanded_flight_limited [OF m0 untouched run turns _ limits, where cosf = "\<lambda>x. 0x3F800000" and
        rc = rate_control_zero and test = False and clk = "\<lambda>k. 4000 * of_nat k"]
    by (auto simp del: run_steps.simps)
qed

end
